(* ===== verification/Prelude.thy ===== *)
theory Prelude
  imports Main "HOL-Library.Word" "HOL-Library.Monad_Syntax"
begin

section \<open>Prelude: machine integers, allocation, arenas\<close>

text \<open>
  What every component shares: the C integer types as fixed-width words, the outcome script of
  the allocator, the arenas that hold the objects a component allocates, and generic lemmas.

  An operation that dereferences pointers returns an \<open>option\<close>: \<^term>\<open>None\<close> stands for undefined
  behaviour of the C program (a dangling or freed pointer, a lock taken twice, a loop that does
  not end), so a lemma that an operation returns \<^term>\<open>Some\<close> is a safety statement.
\<close>

named_theorems arena_simps \<open>reading, writing, allocating and freeing in an arena\<close>
named_theorems unat_simps \<open>moving 64-bit arithmetic to the natural numbers\<close>

type_synonym u64 = "64 word"
type_synonym u32 = "32 word"
type_synonym i64 = "64 word"
type_synonym ptr = nat

subsection \<open>Limits of the C integer types\<close>

definition UINT64_MAX :: u64 where
  "UINT64_MAX = 18446744073709551615"

definition INT64_MAX :: i64 where
  "INT64_MAX = 9223372036854775807"

definition INT64_MIN :: i64 where
  "INT64_MIN = 9223372036854775808"

definition SIZE_MAX :: nat where
  "SIZE_MAX = 18446744073709551615"

lemma unat_UINT64_MAX [simp]: "unat UINT64_MAX = 18446744073709551615"
  by (simp add: UINT64_MAX_def)

lemma sint_INT64_MAX [simp]: "sint INT64_MAX = 9223372036854775807"
  by (simp add: INT64_MAX_def)

lemma sint_INT64_MIN [simp]: "sint INT64_MIN = - 9223372036854775808"
  by (simp add: INT64_MIN_def)

lemma unat_u64_less: "unat (x :: u64) < 18446744073709551616"
  using unsigned_less [of x] by simp

lemma unat_u64_le: "unat (x :: u64) \<le> 18446744073709551615"
  using unat_u64_less [of x] by simp

lemma UINT64_MAX_max [simp]: "x \<le> UINT64_MAX"
  using unat_u64_le [of x] by (simp add: word_le_nat_alt)

lemma unat_u64_Suc:
  assumes "x \<noteq> UINT64_MAX"
  shows "unat (x + 1) = unat x + 1"
proof -
  have "unat x \<noteq> unat UINT64_MAX" using assms by (simp only: word_unat_eq_iff not_False_eq_True)
  then show ?thesis using unat_u64_le [of x] by (simp add: unat_word_ariths)
qed

lemma u64_less_Suc: "x \<noteq> UINT64_MAX \<Longrightarrow> x < x + 1"
  by (simp add: word_less_nat_alt unat_u64_Suc)

lemma unat_u64_pred: "0 < unat (x :: u64) \<Longrightarrow> unat (x - 1) = unat x - 1"
  by (subst unat_sub) (simp_all add: word_le_nat_alt)

lemma sint_i64_bounds:
  "- 9223372036854775808 \<le> sint (x :: i64)" "sint (x :: i64) \<le> 9223372036854775807"
  using sint_greater_eq [of x] sint_lt [of x] by simp_all

lemma sint_i64_exact:
  "- 9223372036854775808 \<le> k \<Longrightarrow> k \<le> 9223372036854775807 \<Longrightarrow> sint (word_of_int k :: i64) = k"
  by (subst signed_of_int) (simp add: signed_take_bit_int_eq_self)

subsection \<open>Ceiling division\<close>

lemma div_mod_nat_split:
  fixes d :: nat
  assumes "a = q * d + r" "r < d"
  shows "a div d = q" "a mod d = r"
  using assms by auto

definition ceil_div :: "nat \<Rightarrow> nat \<Rightarrow> nat" where
  "ceil_div a b = (if a mod b = 0 then a div b else a div b + 1)"

lemma ceil_div_le_iff:
  assumes "0 < b"
  shows "ceil_div a b \<le> t \<longleftrightarrow> a \<le> t * b"
proof (cases "a mod b = 0")
  case True
  then have "a = (a div b) * b" by (metis add_0_right div_mult_mod_eq)
  then have "a \<le> t * b \<longleftrightarrow> a div b \<le> t" using assms by (metis mult_le_cancel2)
  then show ?thesis by (simp add: ceil_div_def True)
next
  case False
  have "a \<le> t * b \<longleftrightarrow> a div b < t"
  proof
    assume "a \<le> t * b"
    moreover have "a \<noteq> t * b" using False by auto
    ultimately have "a < t * b" by simp
    then show "a div b < t" by (simp add: less_mult_imp_div_less)
  next
    assume "a div b < t"
    then have "a div b + 1 \<le> t" by simp
    then have "(a div b + 1) * b \<le> t * b" by (rule mult_le_mono1)
    moreover have "a < (a div b + 1) * b"
      by (metis Suc_eq_plus1 assms dividend_less_div_times mult.commute mult_Suc_right add.commute)
    ultimately show "a \<le> t * b" by simp
  qed
  with False show ?thesis by (simp add: ceil_div_def Suc_le_eq)
qed

lemma less_ceil_div_iff: "0 < b \<Longrightarrow> t < ceil_div a b \<longleftrightarrow> t * b < a"
  using ceil_div_le_iff [of b a t] by linarith

lemma ceil_div_pos: "0 < b \<Longrightarrow> 0 < a \<Longrightarrow> 0 < ceil_div a b"
  using less_ceil_div_iff [of b 0 a] by simp

lemma ceil_div_antimono: "0 < b \<Longrightarrow> b \<le> c \<Longrightarrow> ceil_div a c \<le> ceil_div a b"
  using ceil_div_le_iff [of b a "ceil_div a b"] ceil_div_le_iff [of c a "ceil_div a b"]
  by (meson le_trans mult_le_mono2 order_less_le_trans order_refl)

lemma ceil_div_split:
  "0 < d \<Longrightarrow> ceil_div (k * v) d = k * (v div d) + ceil_div (k * (v mod d)) d"
proof -
  assume "0 < d"
  have "k * v = k * (v div d) * d + k * (v mod d)"
    by (metis add_mult_distrib2 div_mult_mod_eq mult.assoc)
  then have "(k * v) div d = k * (v div d) + (k * (v mod d)) div d"
    "(k * v) mod d = (k * (v mod d)) mod d"
    using \<open>0 < d\<close> by simp_all
  then show ?thesis by (simp add: ceil_div_def)
qed

subsection \<open>Lists and maps\<close>

lemma map_remove1_inj:
  "inj_on f (insert x (set xs)) \<Longrightarrow> map f (remove1 x xs) = remove1 (f x) (map f xs)"
  by (induction xs) (auto simp: inj_on_def)

lemma image_the_dom: "(\<lambda>k. the (m k)) ` dom m = ran m"
proof (rule set_eqI)
  fix x
  show "x \<in> (\<lambda>k. the (m k)) ` dom m \<longleftrightarrow> x \<in> ran m"
    by (auto simp: ran_def image_iff) (metis domI option.sel)
qed

lemma ran_upd_None:
  assumes "m k = Some v" "\<And>j x. m j = Some x \<Longrightarrow> j \<noteq> k \<Longrightarrow> x \<noteq> v"
  shows "ran (m(k := None)) = ran m - {v}"
proof (rule set_eqI)
  fix x
  have "(\<exists>j. j \<noteq> k \<and> m j = Some x) \<longleftrightarrow> (\<exists>j. m j = Some x) \<and> x \<noteq> v"
    using assms by (metis option.inject)
  then show "x \<in> ran (m(k := None)) \<longleftrightarrow> x \<in> ran m - {v}"
    by (auto simp: ran_def)
qed

subsection \<open>Successful computations\<close>

text \<open>
  \<^verbatim>\<open>succeeds m Q\<close>: the computation \<^verbatim>\<open>m\<close> is defined (no undefined behaviour, it ends) and its result
  satisfies \<^verbatim>\<open>Q\<close>. Contracts of operations are stated with it and chained through the bind of the
  option monad.
\<close>

definition succeeds :: "'a option \<Rightarrow> ('a \<Rightarrow> bool) \<Rightarrow> bool" where
  "succeeds m Q \<longleftrightarrow> (case m of None \<Rightarrow> False | Some x \<Rightarrow> Q x)"

lemma succeeds_Some [simp]: "succeeds (Some x) Q = Q x"
  by (simp add: succeeds_def)

lemma succeeds_None [simp]: "\<not> succeeds None Q"
  by (simp add: succeeds_def)

lemma succeeds_bind [simp]: "succeeds (m \<bind> f) Q \<longleftrightarrow> succeeds m (\<lambda>x. succeeds (f x) Q)"
  by (cases m) simp_all

lemma succeeds_if [simp]:
  "succeeds (if b then m else n) Q \<longleftrightarrow> (b \<longrightarrow> succeeds m Q) \<and> (\<not> b \<longrightarrow> succeeds n Q)"
  by simp

lemma succeeds_mono: "succeeds m P \<Longrightarrow> (\<And>x. P x \<Longrightarrow> Q x) \<Longrightarrow> succeeds m Q"
  by (cases m) simp_all

lemma succeedsE: "succeeds m P \<Longrightarrow> (\<And>x. m = Some x \<Longrightarrow> P x \<Longrightarrow> thesis) \<Longrightarrow> thesis"
  by (cases m) simp_all

lemma succeeds_iff: "succeeds m Q \<longleftrightarrow> (\<exists>x. m = Some x \<and> Q x)"
  by (cases m) simp_all

lemma succeeds_tupleE:
  "succeeds m (\<lambda>(a, b). Q2 a b) \<Longrightarrow> (\<And>a b. m = Some (a, b) \<Longrightarrow> Q2 a b \<Longrightarrow> R) \<Longrightarrow> R"
  by (auto simp: succeeds_iff)

lemma succeeds3E:
  "succeeds m (\<lambda>(a, b, c). Q3 a b c) \<Longrightarrow> (\<And>a b c. m = Some (a, b, c) \<Longrightarrow> Q3 a b c \<Longrightarrow> R) \<Longrightarrow> R"
  by (auto simp: succeeds_iff)

lemma succeeds4E:
  "succeeds m (\<lambda>(a, b, c, d). Q4 a b c d) \<Longrightarrow>
   (\<And>a b c d. m = Some (a, b, c, d) \<Longrightarrow> Q4 a b c d \<Longrightarrow> R) \<Longrightarrow> R"
  by (auto simp: succeeds_iff)

lemma succeeds_conj: "succeeds m P \<Longrightarrow> succeeds m Q \<Longrightarrow> succeeds m (\<lambda>x. P x \<and> Q x)"
  by (cases m) simp_all

subsection \<open>Arenas\<close>

text \<open>
  The objects of one C type that a component allocates: a map from pointers to objects and the next
  fresh pointer. Reading, writing or freeing a pointer that is not allocated is undefined.
\<close>

record 'a arena =
  cells :: "ptr \<rightharpoonup> 'a"
  brk :: ptr

definition arena_empty :: "'a arena" where
  "arena_empty = \<lparr>cells = Map.empty, brk = 0\<rparr>"

definition arena_alloc :: "'a \<Rightarrow> 'a arena \<Rightarrow> ptr \<times> 'a arena" where
  "arena_alloc x a = (brk a, a\<lparr>cells := (cells a)(brk a \<mapsto> x), brk := Suc (brk a)\<rparr>)"

definition arena_put :: "ptr \<Rightarrow> 'a \<Rightarrow> 'a arena \<Rightarrow> 'a arena option" where
  "arena_put p x a =
     (case cells a p of None \<Rightarrow> None | Some _ \<Rightarrow> Some (a\<lparr>cells := (cells a)(p \<mapsto> x)\<rparr>))"

definition arena_free :: "ptr \<Rightarrow> 'a arena \<Rightarrow> 'a arena option" where
  "arena_free p a =
     (case cells a p of None \<Rightarrow> None | Some _ \<Rightarrow> Some (a\<lparr>cells := (cells a)(p := None)\<rparr>))"

definition arena_ok :: "'a arena \<Rightarrow> bool" where
  "arena_ok a \<longleftrightarrow> (\<forall>p. cells a p \<noteq> None \<longrightarrow> p < brk a)"

lemma arena_empty_simps [simp]: "cells arena_empty = Map.empty" "arena_ok arena_empty"
  by (simp_all add: arena_empty_def arena_ok_def)

lemma arena_fresh: "arena_ok a \<Longrightarrow> cells a (brk a) = None"
  by (auto simp: arena_ok_def)

lemma arena_ok_upd [simp]:
  "arena_ok a \<Longrightarrow> cells a p \<noteq> None \<Longrightarrow> arena_ok (a\<lparr>cells := (cells a)(p := v)\<rparr>)"
  by (auto simp: arena_ok_def)

lemma arena_ok_alloc [simp]:
  "arena_ok a \<Longrightarrow> arena_ok (a\<lparr>cells := (cells a)(brk a := v), brk := Suc (brk a)\<rparr>)"
  by (auto simp: arena_ok_def less_Suc_eq)

end
