(* ===== verification/Sched_Types.thy ===== *)
theory Sched_Types
  imports Prelude
begin

section \<open>Public types of the scheduler\<close>

text \<open>
  The value types of \<^verbatim>\<open>include/qhw_scheduler/qhw_scheduler_types.h\<close>. An enum whose values the code
  only compares is a datatype; an enum that arrives from the caller as a raw integer (threading
  mode, value type, keys) is a word, because the code checks values outside the enum.

  An array argument of the C interface is a pointer and a count. \<^verbatim>\<open>kv_ref\<close> is that pair: a null
  pointer with some count, or a pointer to exactly that many entries (the C contract). The union in
  \<^verbatim>\<open>qhw_sched_kv_t\<close> is its 64 raw bits: the code reads it as \<^verbatim>\<open>u64\<close> or \<^verbatim>\<open>i64\<close> only. Payload pointers
  are opaque and are kept as raw words.
\<close>

subsection \<open>Return codes and task states\<close>

datatype qhw_sched_rc =
    QHW_SCHED_OK
  | QHW_SCHED_ERR_INVALID_ARG
  | QHW_SCHED_ERR_NO_MEMORY
  | QHW_SCHED_ERR_NOT_FOUND
  | QHW_SCHED_ERR_EXISTS
  | QHW_SCHED_ERR_PLUGIN
  | QHW_SCHED_ERR_UNSUPPORTED
  | QHW_SCHED_ERR_STATE

datatype qhw_sched_task_state =
    QHW_SCHED_TASK_UNKNOWN
  | QHW_SCHED_TASK_QUEUED
  | QHW_SCHED_TASK_RUNNING
  | QHW_SCHED_TASK_COMPLETED
  | QHW_SCHED_TASK_FAILED
  | QHW_SCHED_TASK_CANCELLED
  | QHW_SCHED_TASK_ASSIGNED
  | QHW_SCHED_TASK_WAITING

abbreviation (input) QHW_SCHED_INVALID_TASK_ID :: u64 where
  "QHW_SCHED_INVALID_TASK_ID \<equiv> 0"

subsection \<open>Keys and value types\<close>

abbreviation (input) QHW_SCHED_THREAD_SAFE :: u32 where "QHW_SCHED_THREAD_SAFE \<equiv> 1"
abbreviation (input) QHW_SCHED_THREAD_USER :: u32 where "QHW_SCHED_THREAD_USER \<equiv> 2"

abbreviation (input) QHW_SCHED_VALUE_U64 :: u32 where "QHW_SCHED_VALUE_U64 \<equiv> 1"
abbreviation (input) QHW_SCHED_VALUE_I64 :: u32 where "QHW_SCHED_VALUE_I64 \<equiv> 2"
abbreviation (input) QHW_SCHED_VALUE_F64 :: u32 where "QHW_SCHED_VALUE_F64 \<equiv> 3"
abbreviation (input) QHW_SCHED_VALUE_PTR :: u32 where "QHW_SCHED_VALUE_PTR \<equiv> 4"

abbreviation (input) QHW_SCHED_META_SHOTS :: u64 where "QHW_SCHED_META_SHOTS \<equiv> 1"
abbreviation (input) QHW_SCHED_META_ESTIMATED_RUNTIME_NS :: u64 where
  "QHW_SCHED_META_ESTIMATED_RUNTIME_NS \<equiv> 5"
abbreviation (input) QHW_SCHED_META_SLICE_INDEX :: u64 where "QHW_SCHED_META_SLICE_INDEX \<equiv> 9"
abbreviation (input) QHW_SCHED_META_SLICE_COUNT :: u64 where "QHW_SCHED_META_SLICE_COUNT \<equiv> 10"
abbreviation (input) QHW_SCHED_META_MAX_SHOTS :: u64 where "QHW_SCHED_META_MAX_SHOTS \<equiv> 13"
abbreviation (input) QHW_SCHED_OPT_SLICE_SHOT_THRESHOLD :: u64 where
  "QHW_SCHED_OPT_SLICE_SHOT_THRESHOLD \<equiv> 100"
abbreviation (input) QHW_SCHED_OPT_SLICE_MAX_SHOTS :: u64 where "QHW_SCHED_OPT_SLICE_MAX_SHOTS \<equiv> 101"
abbreviation (input) QHW_SCHED_OPT_SLICE_MIN_REMAINDER_SHOTS :: u64 where
  "QHW_SCHED_OPT_SLICE_MIN_REMAINDER_SHOTS \<equiv> 102"
abbreviation (input) QHW_SCHED_OPT_SLICE_MAX_CHILDREN :: u64 where
  "QHW_SCHED_OPT_SLICE_MAX_CHILDREN \<equiv> 103"
abbreviation (input) QHW_SCHED_OPT_DEADLINE_BOOST_ENABLE :: u64 where
  "QHW_SCHED_OPT_DEADLINE_BOOST_ENABLE \<equiv> 200"
abbreviation (input) QHW_SCHED_OPT_DEADLINE_NOW_NS :: u64 where "QHW_SCHED_OPT_DEADLINE_NOW_NS \<equiv> 201"
abbreviation (input) QHW_SCHED_OPT_DEADLINE_NORMAL_THRESHOLD :: u64 where
  "QHW_SCHED_OPT_DEADLINE_NORMAL_THRESHOLD \<equiv> 202"
abbreviation (input) QHW_SCHED_OPT_DEADLINE_URGENT_THRESHOLD :: u64 where
  "QHW_SCHED_OPT_DEADLINE_URGENT_THRESHOLD \<equiv> 203"
abbreviation (input) QHW_SCHED_OPT_DEADLINE_CRITICAL_THRESHOLD :: u64 where
  "QHW_SCHED_OPT_DEADLINE_CRITICAL_THRESHOLD \<equiv> 204"
abbreviation (input) QHW_SCHED_OPT_DEADLINE_NORMAL_BOOST :: u64 where
  "QHW_SCHED_OPT_DEADLINE_NORMAL_BOOST \<equiv> 205"
abbreviation (input) QHW_SCHED_OPT_DEADLINE_URGENT_BOOST :: u64 where
  "QHW_SCHED_OPT_DEADLINE_URGENT_BOOST \<equiv> 206"
abbreviation (input) QHW_SCHED_OPT_DEADLINE_CRITICAL_BOOST :: u64 where
  "QHW_SCHED_OPT_DEADLINE_CRITICAL_BOOST \<equiv> 207"
abbreviation (input) QHW_SCHED_OPT_ORDER_KEY :: u64 where "QHW_SCHED_OPT_ORDER_KEY \<equiv> 300"

abbreviation (input) QHW_SCHED_ORDER_PRIORITY :: u64 where "QHW_SCHED_ORDER_PRIORITY \<equiv> 1"
abbreviation (input) QHW_SCHED_ORDER_SJF :: u64 where "QHW_SCHED_ORDER_SJF \<equiv> 2"
abbreviation (input) QHW_SCHED_ORDER_LJF :: u64 where "QHW_SCHED_ORDER_LJF \<equiv> 3"
abbreviation (input) QHW_SCHED_ORDER_FIFO :: u64 where "QHW_SCHED_ORDER_FIFO \<equiv> 4"
abbreviation (input) QHW_SCHED_ORDER_ROUND_ROBIN :: u64 where "QHW_SCHED_ORDER_ROUND_ROBIN \<equiv> 5"

subsection \<open>Metadata and options\<close>

record qhw_sched_kv =
  kv_key :: u64
  kv_type :: u32
  kv_flags :: u32
  kv_bits :: u64

datatype kv_ref = KvNull nat | KvArr "qhw_sched_kv list"

fun kv_count :: "kv_ref \<Rightarrow> nat" where
  "kv_count (KvNull n) = n"
| "kv_count (KvArr xs) = length xs"

fun kv_is_null :: "kv_ref \<Rightarrow> bool" where
  "kv_is_null (KvNull n) = True"
| "kv_is_null (KvArr xs) = False"

fun kv_entries :: "kv_ref \<Rightarrow> qhw_sched_kv list" where
  "kv_entries (KvNull n) = []"
| "kv_entries (KvArr xs) = xs"

abbreviation (input) sizeof_kv :: nat where "sizeof_kv \<equiv> 24"

subsection \<open>Descriptors\<close>

record qhw_sched_task_desc =
  td_struct_size :: nat
  task_id :: u64
  parent_task_id :: u64
  owner_id :: u64
  job_id :: u64
  reservation_id :: u64
  priority :: i64
  deadline_ns :: u64
  estimated_runtime_ns :: u64
  estimated_cost :: u64
  payload :: u64
  payload_size :: u64
  metadata :: kv_ref

abbreviation (input) sizeof_task_desc :: nat where "sizeof_task_desc \<equiv> 112"

record qhw_sched_assignment =
  as_struct_size :: nat
  as_task_id :: u64
  as_parent_task_id :: u64
  as_slice_index :: u64
  as_slice_count :: u64
  as_payload :: u64
  as_payload_size :: u64
  as_estimated_runtime_ns :: u64
  as_estimated_cost :: u64

abbreviation (input) sizeof_assignment :: nat where "sizeof_assignment \<equiv> 72"

definition zero_assignment :: qhw_sched_assignment where
  "zero_assignment = \<lparr>as_struct_size = 0, as_task_id = 0, as_parent_task_id = 0,
     as_slice_index = 0, as_slice_count = 0, as_payload = 0, as_payload_size = 0,
     as_estimated_runtime_ns = 0, as_estimated_cost = 0\<rparr>"

record qhw_sched_split_config =
  sc_struct_size :: nat
  shot_threshold :: u64
  max_shots :: u64
  min_remainder_shots :: u64
  max_children :: u64
  requested_shots :: u64
  slice_shots :: u64
  slice_count :: u64
  sc_flags :: u64

abbreviation (input) sizeof_split_config :: nat where "sizeof_split_config \<equiv> 72"

record qhw_sched_qpu_profile =
  qp_struct_size :: nat
  qpu_id :: u64
  num_qubits :: u32
  qp_flags :: u32
  qp_metadata :: kv_ref

record qhw_sched_qpu_runtime =
  qr_struct_size :: nat
  queued_count :: u64
  completed_count :: u64
  failed_count :: u64
  cancelled_count :: u64
  running_task_id :: u64

abbreviation (input) sizeof_qpu_runtime :: nat where "sizeof_qpu_runtime \<equiv> 48"

end
