(* ===== verification/Deadline_Boost.thy ===== *)
theory Deadline_Boost
  imports Sched_Types
begin

section \<open>Deadline boosting\<close>

text \<open>
  \<^verbatim>\<open>src/policy/qhw_deadline_boost.c\<close>: the urgency of a task (estimated runtime over remaining
  slack, in permille, rounded up and saturated), the boost tier it selects, the saturated effective
  priority, and the time at which the tier has to be recomputed. Both compilations of
  \<^verbatim>\<open>scale_div_ceil_u64\<close> are modelled: the one over 128-bit integers and the portable loop.
\<close>

subsection \<open>Definitions\<close>

datatype qhw_deadline_boost_tier =
    QHW_DEADLINE_BOOST_NONE
  | QHW_DEADLINE_BOOST_NORMAL
  | QHW_DEADLINE_BOOST_URGENT
  | QHW_DEADLINE_BOOST_CRITICAL

abbreviation (input) QHW_DEADLINE_BOOST_NEVER :: u64 where
  "QHW_DEADLINE_BOOST_NEVER \<equiv> UINT64_MAX"

abbreviation (input) QHW_BOOST_SCALE :: u64 where
  "QHW_BOOST_SCALE \<equiv> 1000"

record qhw_deadline_boost_config =
  boost_enabled :: bool
  normal_threshold_permille :: u64
  urgent_threshold_permille :: u64
  critical_threshold_permille :: u64
  normal_boost :: i64
  urgent_boost :: i64
  critical_boost :: i64

record qhw_deadline_boost_result =
  br_effective_priority :: i64
  br_next_refresh_ns :: u64
  br_tier :: qhw_deadline_boost_tier

definition is_deadline_boost_option :: "u64 \<Rightarrow> bool" where
  "is_deadline_boost_option key \<longleftrightarrow>
     key = QHW_SCHED_OPT_DEADLINE_BOOST_ENABLE \<or>
     key = QHW_SCHED_OPT_DEADLINE_NOW_NS \<or>
     key = QHW_SCHED_OPT_DEADLINE_NORMAL_THRESHOLD \<or>
     key = QHW_SCHED_OPT_DEADLINE_URGENT_THRESHOLD \<or>
     key = QHW_SCHED_OPT_DEADLINE_CRITICAL_THRESHOLD \<or>
     key = QHW_SCHED_OPT_DEADLINE_NORMAL_BOOST \<or>
     key = QHW_SCHED_OPT_DEADLINE_URGENT_BOOST \<or>
     key = QHW_SCHED_OPT_DEADLINE_CRITICAL_BOOST"

definition set_deadline_boost_u64 ::
  "qhw_deadline_boost_config \<Rightarrow> u64 \<Rightarrow> u64 \<Rightarrow> qhw_sched_rc \<times> qhw_deadline_boost_config" where
  "set_deadline_boost_u64 config key v =
     (if key = QHW_SCHED_OPT_DEADLINE_BOOST_ENABLE then
        (QHW_SCHED_OK, config\<lparr>boost_enabled := (v \<noteq> 0)\<rparr>)
      else if key = QHW_SCHED_OPT_DEADLINE_NORMAL_THRESHOLD then
        (QHW_SCHED_OK, config\<lparr>normal_threshold_permille := v\<rparr>)
      else if key = QHW_SCHED_OPT_DEADLINE_URGENT_THRESHOLD then
        (QHW_SCHED_OK, config\<lparr>urgent_threshold_permille := v\<rparr>)
      else if key = QHW_SCHED_OPT_DEADLINE_CRITICAL_THRESHOLD then
        (QHW_SCHED_OK, config\<lparr>critical_threshold_permille := v\<rparr>)
      else (QHW_SCHED_ERR_INVALID_ARG, config))"

definition set_deadline_boost_i64 ::
  "qhw_deadline_boost_config \<Rightarrow> u64 \<Rightarrow> i64 \<Rightarrow> qhw_sched_rc \<times> qhw_deadline_boost_config" where
  "set_deadline_boost_i64 config key v =
     (if key = QHW_SCHED_OPT_DEADLINE_NORMAL_BOOST then
        (QHW_SCHED_OK, config\<lparr>normal_boost := v\<rparr>)
      else if key = QHW_SCHED_OPT_DEADLINE_URGENT_BOOST then
        (QHW_SCHED_OK, config\<lparr>urgent_boost := v\<rparr>)
      else if key = QHW_SCHED_OPT_DEADLINE_CRITICAL_BOOST then
        (QHW_SCHED_OK, config\<lparr>critical_boost := v\<rparr>)
      else (QHW_SCHED_ERR_INVALID_ARG, config))"

definition add_i64_saturating :: "i64 \<Rightarrow> i64 \<Rightarrow> i64" where
  "add_i64_saturating base delta =
     (if 0 < sint delta \<and> sint (INT64_MAX - delta) < sint base then INT64_MAX
      else if sint delta < 0 \<and> sint base < sint (INT64_MIN - delta) then INT64_MIN
      else base + delta)"

definition scale_div_ceil_u64 :: "u64 \<Rightarrow> u64 \<Rightarrow> u64" where
  "scale_div_ceil_u64 v divisor =
     (if divisor = 0 then UINT64_MAX
      else
        let product = (ucast v :: 128 word) * ucast QHW_BOOST_SCALE;
            quot = product div ucast divisor;
            quot = (if product mod ucast divisor \<noteq> 0 then quot + 1 else quot)
        in if ucast UINT64_MAX < quot then UINT64_MAX else ucast quot)"

text \<open>The portable version: a loop of \<^verbatim>\<open>QHW_BOOST_SCALE\<close> rounds over \<^verbatim>\<open>(quot, acc)\<close>.\<close>

primrec scaled_remainder_loop :: "nat \<Rightarrow> u64 \<Rightarrow> u64 \<Rightarrow> u64 \<times> u64 \<Rightarrow> u64 \<times> u64" where
  "scaled_remainder_loop 0 remainder divisor qa = qa"
| "scaled_remainder_loop (Suc n) remainder divisor qa =
     (let (quot, acc) = scaled_remainder_loop n remainder divisor qa in
      if divisor - remainder \<le> acc then (quot + 1, acc - (divisor - remainder))
      else (quot, acc + remainder))"

definition scaled_remainder_ceil_u64 :: "u64 \<Rightarrow> u64 \<Rightarrow> u64" where
  "scaled_remainder_ceil_u64 remainder divisor =
     (if remainder = 0 then 0
      else
        let (quot, acc) = scaled_remainder_loop (unat QHW_BOOST_SCALE) remainder divisor (0, 0)
        in quot + (if acc \<noteq> 0 then 1 else 0))"

definition scale_div_ceil_u64_portable :: "u64 \<Rightarrow> u64 \<Rightarrow> u64" where
  "scale_div_ceil_u64_portable v divisor =
     (if divisor = 0 then UINT64_MAX
      else
        let quot = v div divisor;
            remainder = v mod divisor
        in if UINT64_MAX div QHW_BOOST_SCALE < quot then UINT64_MAX
           else
             let scaled = quot * QHW_BOOST_SCALE;
                 extra = scaled_remainder_ceil_u64 remainder divisor
             in if UINT64_MAX - scaled < extra then UINT64_MAX else scaled + extra)"

definition urgency_permille :: "u64 \<Rightarrow> u64 \<Rightarrow> u64" where
  "urgency_permille estimated_runtime slack =
     (if slack = 0 then UINT64_MAX else scale_div_ceil_u64 estimated_runtime slack)"

definition next_threshold_time :: "u64 \<Rightarrow> u64 \<Rightarrow> u64 \<Rightarrow> u64 \<Rightarrow> u64" where
  "next_threshold_time deadline estimated_runtime threshold_permille now =
     (if threshold_permille = 0 then QHW_DEADLINE_BOOST_NEVER
      else
        let window = scale_div_ceil_u64 estimated_runtime threshold_permille;
            next_ns = (if deadline \<le> window then 1 else deadline - window)
        in if next_ns \<le> now then
             (if now = UINT64_MAX then QHW_DEADLINE_BOOST_NEVER else now + 1)
           else next_ns)"

definition qhw_deadline_boost_config_init :: qhw_deadline_boost_config where
  "qhw_deadline_boost_config_init =
     \<lparr>boost_enabled = False,
      normal_threshold_permille = 1000,
      urgent_threshold_permille = 2000,
      critical_threshold_permille = 3000,
      normal_boost = 10,
      urgent_boost = 50,
      critical_boost = 100\<rparr>"

fun deadline_boost_parse_loop ::
  "qhw_deadline_boost_config \<Rightarrow> qhw_sched_kv list \<Rightarrow> qhw_sched_rc \<times> qhw_deadline_boost_config" where
  "deadline_boost_parse_loop config [] = (QHW_SCHED_OK, config)"
| "deadline_boost_parse_loop config (opt # rest) =
     (if \<not> is_deadline_boost_option (kv_key opt) \<or> kv_key opt = QHW_SCHED_OPT_DEADLINE_NOW_NS then
        deadline_boost_parse_loop config rest
      else if kv_type opt = QHW_SCHED_VALUE_U64 then
        (let (rc, config) = set_deadline_boost_u64 config (kv_key opt) (kv_bits opt) in
         if rc \<noteq> QHW_SCHED_OK then (rc, config) else deadline_boost_parse_loop config rest)
      else if kv_type opt = QHW_SCHED_VALUE_I64 then
        (let (rc, config) = set_deadline_boost_i64 config (kv_key opt) (kv_bits opt) in
         if rc \<noteq> QHW_SCHED_OK then (rc, config) else deadline_boost_parse_loop config rest)
      else (QHW_SCHED_ERR_INVALID_ARG, config))"

definition qhw_deadline_boost_config_parse_options ::
  "qhw_deadline_boost_config \<Rightarrow> kv_ref \<Rightarrow> qhw_sched_rc \<times> qhw_deadline_boost_config" where
  "qhw_deadline_boost_config_parse_options config options =
     (if 0 < kv_count options \<and> kv_is_null options then (QHW_SCHED_ERR_INVALID_ARG, config)
      else
        let (rc, config) = deadline_boost_parse_loop config (kv_entries options) in
        if rc \<noteq> QHW_SCHED_OK then (rc, config)
        else if boost_enabled config \<and>
            (normal_threshold_permille config = 0 \<or>
             urgent_threshold_permille config < normal_threshold_permille config \<or>
             critical_threshold_permille config < urgent_threshold_permille config)
        then (QHW_SCHED_ERR_INVALID_ARG, config)
        else (QHW_SCHED_OK, config))"

text \<open>
  The monotonic clock, as POSIX describes it: a system either supports \<^verbatim>\<open>CLOCK_MONOTONIC\<close> or
  \<^verbatim>\<open>clock_gettime\<close> fails on every call, and readings never run backwards. The clock holds the last
  reading in nanoseconds and the readings to come, where one below the last is read as the last; after
  the listed readings the time stands still. Nanoseconds fit 64 bits for 584 years after the start of the
  clock, so a reading is split into a timespec without loss.
\<close>

record clock =
  ck_supported :: bool
  ck_last :: u64
  ck_coming :: "u64 list"

definition clock_advance :: "clock \<Rightarrow> clock" where
  "clock_advance c =
     (case ck_coming c of
        [] \<Rightarrow> c
      | t # ts \<Rightarrow> c\<lparr>ck_last := max (ck_last c) t, ck_coming := ts\<rparr>)"

definition clock_gettime :: "clock \<Rightarrow> (u64 \<times> u64) option \<times> clock" where
  "clock_gettime c =
     (if ck_supported c
      then (let c = clock_advance c in (Some (ck_last c div 1000000000, ck_last c mod 1000000000), c))
      else (None, c))"

definition qhw_deadline_boost_now_ns :: "clock \<Rightarrow> u64 \<times> clock" where
  "qhw_deadline_boost_now_ns c =
     (case clock_gettime c of
        (None, c) \<Rightarrow> (0, c)
      | (Some (tv_sec, tv_nsec), c) \<Rightarrow> (tv_sec * 1000000000 + tv_nsec, c))"

definition qhw_deadline_boost_compute ::
  "qhw_deadline_boost_config \<Rightarrow> i64 \<Rightarrow> u64 \<Rightarrow> u64 \<Rightarrow> u64 \<Rightarrow> qhw_sched_rc \<times> qhw_deadline_boost_result" where
  "qhw_deadline_boost_compute config base_prio deadline estimated_runtime now =
     (let result = \<lparr>br_effective_priority = base_prio,
                    br_next_refresh_ns = QHW_DEADLINE_BOOST_NEVER,
                    br_tier = QHW_DEADLINE_BOOST_NONE\<rparr>
      in if \<not> boost_enabled config \<or> deadline = 0 \<or> estimated_runtime = 0 then
           (QHW_SCHED_OK, result)
         else if deadline \<le> now then
           (QHW_SCHED_OK,
            result\<lparr>br_effective_priority := add_i64_saturating base_prio (critical_boost config),
                   br_tier := QHW_DEADLINE_BOOST_CRITICAL\<rparr>)
         else
           let urgency = urgency_permille estimated_runtime (deadline - now) in
           if critical_threshold_permille config < urgency then
             (QHW_SCHED_OK,
              result\<lparr>br_effective_priority := add_i64_saturating base_prio (critical_boost config),
                     br_tier := QHW_DEADLINE_BOOST_CRITICAL\<rparr>)
           else if urgent_threshold_permille config < urgency then
             (QHW_SCHED_OK,
              result\<lparr>br_effective_priority := add_i64_saturating base_prio (urgent_boost config),
                     br_next_refresh_ns := next_threshold_time deadline estimated_runtime
                       (critical_threshold_permille config) now,
                     br_tier := QHW_DEADLINE_BOOST_URGENT\<rparr>)
           else if normal_threshold_permille config < urgency then
             (QHW_SCHED_OK,
              result\<lparr>br_effective_priority := add_i64_saturating base_prio (normal_boost config),
                     br_next_refresh_ns := next_threshold_time deadline estimated_runtime
                       (urgent_threshold_permille config) now,
                     br_tier := QHW_DEADLINE_BOOST_NORMAL\<rparr>)
           else
             (QHW_SCHED_OK,
              result\<lparr>br_next_refresh_ns := next_threshold_time deadline estimated_runtime
                       (normal_threshold_permille config) now\<rparr>))"

subsection \<open>Specification\<close>

text \<open>
  What the code computes, stated over the tier alone: the tier at a time, the boost a tier adds,
  and the threshold whose crossing ends a tier.
\<close>

definition boost_thresholds_ok :: "qhw_deadline_boost_config \<Rightarrow> bool" where
  "boost_thresholds_ok config \<longleftrightarrow>
     normal_threshold_permille config \<noteq> 0 \<and>
     normal_threshold_permille config \<le> urgent_threshold_permille config \<and>
     urgent_threshold_permille config \<le> critical_threshold_permille config"

definition boost_of_tier :: "qhw_deadline_boost_config \<Rightarrow> qhw_deadline_boost_tier \<Rightarrow> i64" where
  "boost_of_tier config tier = (case tier of
     QHW_DEADLINE_BOOST_NONE \<Rightarrow> 0
   | QHW_DEADLINE_BOOST_NORMAL \<Rightarrow> normal_boost config
   | QHW_DEADLINE_BOOST_URGENT \<Rightarrow> urgent_boost config
   | QHW_DEADLINE_BOOST_CRITICAL \<Rightarrow> critical_boost config)"

fun tier_rank :: "qhw_deadline_boost_tier \<Rightarrow> nat" where
  "tier_rank QHW_DEADLINE_BOOST_NONE = 0"
| "tier_rank QHW_DEADLINE_BOOST_NORMAL = 1"
| "tier_rank QHW_DEADLINE_BOOST_URGENT = 2"
| "tier_rank QHW_DEADLINE_BOOST_CRITICAL = 3"

definition exceeds :: "u64 \<Rightarrow> u64 \<Rightarrow> u64 \<Rightarrow> bool" where
  "exceeds thr est slack \<longleftrightarrow> thr < urgency_permille est slack"

definition boost_tier_at :: "qhw_deadline_boost_config \<Rightarrow> u64 \<Rightarrow> u64 \<Rightarrow> u64 \<Rightarrow> qhw_deadline_boost_tier" where
  "boost_tier_at config deadline est now =
     (if \<not> boost_enabled config \<or> deadline = 0 \<or> est = 0 then QHW_DEADLINE_BOOST_NONE
      else if deadline \<le> now then QHW_DEADLINE_BOOST_CRITICAL
      else if exceeds (critical_threshold_permille config) est (deadline - now) then
        QHW_DEADLINE_BOOST_CRITICAL
      else if exceeds (urgent_threshold_permille config) est (deadline - now) then
        QHW_DEADLINE_BOOST_URGENT
      else if exceeds (normal_threshold_permille config) est (deadline - now) then
        QHW_DEADLINE_BOOST_NORMAL
      else QHW_DEADLINE_BOOST_NONE)"

definition tier_threshold :: "qhw_deadline_boost_config \<Rightarrow> qhw_deadline_boost_tier \<Rightarrow> u64 option" where
  "tier_threshold config tier = (case tier of
     QHW_DEADLINE_BOOST_NONE \<Rightarrow> Some (normal_threshold_permille config)
   | QHW_DEADLINE_BOOST_NORMAL \<Rightarrow> Some (urgent_threshold_permille config)
   | QHW_DEADLINE_BOOST_URGENT \<Rightarrow> Some (critical_threshold_permille config)
   | QHW_DEADLINE_BOOST_CRITICAL \<Rightarrow> None)"

subsection \<open>Saturating addition\<close>

lemma i64_diff_of_sint: "(a :: i64) - b = word_of_int (sint a - sint b)"
  by simp

lemma i64_add_of_sint: "(a :: i64) + b = word_of_int (sint a + sint b)"
  by simp

lemma sint_diff_exact:
  "- 9223372036854775808 \<le> sint a - sint b \<Longrightarrow> sint a - sint b \<le> 9223372036854775807 \<Longrightarrow>
   sint ((a :: i64) - b) = sint a - sint b"
  by (subst i64_diff_of_sint) (rule sint_i64_exact)

lemma sint_add_exact:
  "- 9223372036854775808 \<le> sint a + sint b \<Longrightarrow> sint a + sint b \<le> 9223372036854775807 \<Longrightarrow>
   sint ((a :: i64) + b) = sint a + sint b"
  by (subst i64_add_of_sint) (rule sint_i64_exact)

text \<open>
  The boost is added to the priority with saturation at the bounds of a signed 64-bit integer:
  the result is the mathematical sum clamped into the range, for every pair of inputs, so the C
  expression never overflows.
\<close>

theorem add_i64_saturating_exact:
  "sint (add_i64_saturating base delta) =
     max (- (2 ^ 63)) (min (2 ^ 63 - 1) (sint base + sint delta))"
proof -
  note bnds = sint_i64_bounds [of base] sint_i64_bounds [of delta]
  consider (pos) "0 < sint delta" | (neg) "sint delta < 0" | (zero) "sint delta = 0"
    by linarith
  then show ?thesis
  proof cases
    case pos
    then have "sint (INT64_MAX - delta) = 9223372036854775807 - sint delta"
      using bnds by (subst sint_diff_exact) auto
    with pos bnds show ?thesis
      by (auto simp: add_i64_saturating_def sint_add_exact min_def max_def)
  next
    case neg
    then have "sint (INT64_MIN - delta) = - 9223372036854775808 - sint delta"
      using bnds by (subst sint_diff_exact) auto
    with neg bnds show ?thesis
      by (auto simp: add_i64_saturating_def sint_add_exact min_def max_def)
  next
    case zero
    with bnds show ?thesis by (auto simp: add_i64_saturating_def sint_add_exact min_def max_def)
  qed
qed

subsection \<open>Scaled ceiling division\<close>

lemma unat_ucast_128 [simp]: "unat (ucast (x :: u64) :: 128 word) = unat x"
  by (simp add: unsigned_ucast_eq take_bit_nat_eq_self unat_u64_less less_trans [OF unat_u64_less])

lemma unat_ucast_u64: "unat (x :: 128 word) \<le> 18446744073709551615 \<Longrightarrow> unat (ucast x :: u64) = unat x"
  by (simp add: unsigned_ucast_eq take_bit_nat_eq_self)

lemma scale_div_ceil_u64_exact:
  assumes d: "divisor \<noteq> 0"
  shows "unat (scale_div_ceil_u64 v divisor) =
     min (2 ^ 64 - 1) (ceil_div (1000 * unat v) (unat divisor))"
proof -
  define p where "p = (ucast v :: 128 word) * ucast QHW_BOOST_SCALE"
  define e where "e = (ucast divisor :: 128 word)"
  define q where "q = (if p mod e \<noteq> 0 then p div e + 1 else p div e)"
  have p: "unat p = 1000 * unat v"
    using unat_u64_less [of v] by (simp add: p_def unat_word_ariths unat_ucast_128)
  have e: "unat e = unat divisor" by (simp add: e_def)
  have small: "(1000 * unat v) div unat divisor < 18446744073709551616000"
    using unat_u64_less [of v] div_le_dividend [of "1000 * unat v" "unat divisor"] by linarith
  have "unat (p div e + 1) = (1000 * unat v) div unat divisor + 1"
    using small by (simp add: unat_word_ariths unat_div_distrib p e)
  then have q: "unat q = ceil_div (1000 * unat v) (unat divisor)"
    by (simp add: q_def ceil_div_def unat_div_distrib unat_mod_distrib p e
        unat_eq_zero [symmetric] del: unat_eq_zero)
  have "scale_div_ceil_u64 v divisor = (if ucast UINT64_MAX < q then UINT64_MAX else ucast q)"
    using d unfolding scale_div_ceil_u64_def q_def p_def e_def Let_def by simp
  then show ?thesis
    by (simp add: word_less_nat_alt unat_ucast_u64 q min_def)
qed

lemma scaled_remainder_loop_exact:
  assumes "unat remainder < unat divisor" "n \<le> 1000"
  shows "(case scaled_remainder_loop n remainder divisor (0, 0) of (quot, acc) \<Rightarrow>
    unat quot = (n * unat remainder) div unat divisor \<and>
    unat acc = (n * unat remainder) mod unat divisor)"
  using assms(2)
proof (induction n)
  case 0
  then show ?case by simp
next
  case (Suc n)
  obtain quot acc where qa: "scaled_remainder_loop n remainder divisor (0, 0) = (quot, acc)"
    by fastforce
  let ?r = "unat remainder" and ?d = "unat divisor"
  from Suc qa have q: "unat quot = (n * ?r) div ?d" and a: "unat acc = (n * ?r) mod ?d"
    by auto
  have dr: "unat (divisor - remainder) = ?d - ?r"
    using assms(1) by (simp add: unat_sub_if')
  have a_less: "unat acc < ?d" using a assms(1) by simp
  have nr: "n * ?r = unat quot * ?d + unat acc" by (simp add: q a)
  have "unat quot * ?d \<le> n * ?r" using nr by simp
  also have "\<dots> \<le> 1000 * ?d" using Suc.prems assms(1) by (intro mult_le_mono) auto
  finally have q_small: "unat quot \<le> 1000" using assms(1) by simp
  show ?case
  proof (cases "?d - ?r \<le> unat acc")
    case True
    have s: "Suc n * ?r = (unat quot + 1) * ?d + (unat acc - (?d - ?r))"
      using nr True assms(1) by (simp add: algebra_simps)
    have "unat acc - (?d - ?r) < ?d" using a_less by linarith
    note div_mod_nat_split [OF s this]
    with True q_small assms(1) show ?thesis
      by (simp add: qa word_le_nat_alt dr unat_word_ariths unat_sub_if')
  next
    case False
    have s: "Suc n * ?r = unat quot * ?d + (unat acc + ?r)"
      using nr by (simp add: algebra_simps)
    have l: "unat acc + ?r < ?d" using False assms(1) by linarith
    note div_mod_nat_split [OF s l]
    with False l show ?thesis
      using unat_u64_less [of divisor] by (simp add: qa word_le_nat_alt dr unat_word_ariths)
  qed
qed

lemma scaled_remainder_ceil_u64_exact:
  assumes "unat remainder < unat divisor"
  shows "unat (scaled_remainder_ceil_u64 remainder divisor) =
    ceil_div (1000 * unat remainder) (unat divisor)"
proof (cases "remainder = 0")
  case True
  then show ?thesis by (simp add: scaled_remainder_ceil_u64_def ceil_div_def)
next
  case False
  obtain quot acc where qa: "scaled_remainder_loop 1000 remainder divisor (0, 0) = (quot, acc)"
    by fastforce
  let ?r = "unat remainder" and ?d = "unat divisor"
  from scaled_remainder_loop_exact [OF assms, of 1000] qa
  have q: "unat quot = (1000 * ?r) div ?d" and a: "unat acc = (1000 * ?r) mod ?d"
    by auto
  have "(1000 * ?r) div ?d < 1000" using assms by (simp add: less_mult_imp_div_less)
  then have q1: "unat (quot + 1) = unat quot + 1" by (simp add: unat_word_ariths q)
  have "acc = 0 \<longleftrightarrow> (1000 * ?r) mod ?d = 0" by (simp add: a [symmetric] unat_0_iff)
  then show ?thesis
    using False q1 by (simp add: scaled_remainder_ceil_u64_def qa ceil_div_def q)
qed

text \<open>
  C34: The portable version of the scaled ceiling division, a loop of 1000 additions without any
  128-bit integer, returns the same 64-bit word as the version that multiplies in 128 bits, for
  every value and divisor.
\<close>

theorem scale_div_ceil_u64_portable_eq:
  "scale_div_ceil_u64_portable v divisor = scale_div_ceil_u64 v divisor"
proof (cases "divisor = 0")
  case True
  then show ?thesis by (simp add: scale_div_ceil_u64_portable_def scale_div_ceil_u64_def)
next
  case False
  let ?q = "unat v div unat divisor" and ?r = "unat v mod unat divisor"
  have d0: "0 < unat divisor" using False by (simp add: unat_gt_0)
  define extra where "extra = scaled_remainder_ceil_u64 (v mod divisor) divisor"
  have extra: "unat extra = ceil_div (1000 * ?r) (unat divisor)"
    unfolding extra_def
    by (subst scaled_remainder_ceil_u64_exact) (simp_all add: unat_mod_distrib d0)
  have total: "ceil_div (1000 * unat v) (unat divisor) = 1000 * ?q + unat extra"
    using ceil_div_split [OF d0, of 1000 "unat v"] by (simp add: extra)
  have "unat (scale_div_ceil_u64_portable v divisor) = min (2 ^ 64 - 1) (1000 * ?q + unat extra)"
  proof (cases "18446744073709551 < ?q")
    case True
    then have "scale_div_ceil_u64_portable v divisor = UINT64_MAX"
      using False by (simp add: scale_div_ceil_u64_portable_def word_less_nat_alt unat_div_distrib)
    with True show ?thesis by simp
  next
    case q_le: False
    have sc: "unat (v div divisor * 1000) = 1000 * ?q"
      using q_le by (simp add: unat_word_ariths unat_div_distrib)
    have un: "unat (UINT64_MAX - v div divisor * 1000) = 18446744073709551615 - 1000 * ?q"
      using q_le by (simp add: unat_sub_if' sc)
    have "scale_div_ceil_u64_portable v divisor =
      (if UINT64_MAX - v div divisor * 1000 < extra then UINT64_MAX else v div divisor * 1000 + extra)"
      using False q_le
      by (simp add: scale_div_ceil_u64_portable_def extra_def word_less_nat_alt unat_div_distrib)
    then show ?thesis
      using q_le unat_u64_less [of extra]
      by (auto simp: word_less_nat_alt un sc unat_word_ariths min_def)
  qed
  with False show ?thesis
    by (simp add: scale_div_ceil_u64_exact total word_unat_eq_iff)
qed

subsection \<open>Tiers and refresh times\<close>

lemma exceeds_iff:
  assumes "slack \<noteq> 0"
  shows "exceeds thr est slack \<longleftrightarrow>
    unat thr < 2 ^ 64 - 1 \<and> unat thr * unat slack < 1000 * unat est"
proof -
  have "0 < unat slack" using assms by (simp add: unat_gt_0)
  then show ?thesis
    by (simp add: exceeds_def urgency_permille_def assms word_less_nat_alt
        scale_div_ceil_u64_exact less_ceil_div_iff)
qed

lemma exceeds_mono:
  "exceeds thr est slack \<Longrightarrow> slack' \<noteq> 0 \<Longrightarrow> slack' \<le> slack \<Longrightarrow> thr' \<le> thr \<Longrightarrow>
   exceeds thr' est slack'"
proof -
  assume a: "exceeds thr est slack" "slack' \<noteq> 0" "slack' \<le> slack" "thr' \<le> thr"
  then have s0: "slack \<noteq> 0" by auto
  have "unat thr' * unat slack' \<le> unat thr * unat slack"
    using a by (intro mult_le_mono) (simp_all add: word_le_nat_alt)
  with a s0 show ?thesis by (simp add: exceeds_iff word_le_nat_alt)
qed

lemma unat_slack: "now < deadline \<Longrightarrow> unat (deadline - now :: u64) = unat deadline - unat now"
  by (simp add: unat_sub word_le_nat_alt word_less_nat_alt)

lemma slack_nonzero: "now < deadline \<Longrightarrow> (deadline - now :: u64) \<noteq> 0"
  by auto

lemma slack_antimono: "now \<le> t \<Longrightarrow> t < deadline \<Longrightarrow> (deadline - t :: u64) \<le> deadline - now"
  by (simp add: word_le_nat_alt unat_slack order.strict_trans1)

lemma unat_next_threshold_time:
  assumes thr: "thr \<noteq> 0" and est: "est \<noteq> 0" and now: "now < deadline"
  shows "unat now < unat (next_threshold_time deadline est thr now) \<and>
    (unat (next_threshold_time deadline est thr now) = unat now + 1 \<or>
     unat (next_threshold_time deadline est thr now) + ceil_div (1000 * unat est) (unat thr)
       = unat deadline)"
proof -
  let ?w = "scale_div_ceil_u64 est thr"
  have w: "unat ?w = min (2 ^ 64 - 1) (ceil_div (1000 * unat est) (unat thr))"
    by (rule scale_div_ceil_u64_exact [OF thr])
  have nm: "now \<noteq> UINT64_MAX" using now by (metis UINT64_MAX_max leD)
  then have n1: "unat (now + 1) = unat now + 1" by (rule unat_u64_Suc)
  show ?thesis
  proof (cases "deadline \<le> ?w")
    case True
    then have "next_threshold_time deadline est thr now = (if 1 \<le> now then now + 1 else 1)"
      using nm thr by (simp add: next_threshold_time_def)
    then show ?thesis using n1 by (auto simp: word_le_nat_alt)
  next
    case False
    then have dw: "unat (deadline - ?w) = unat deadline - unat ?w"
      by (simp add: unat_slack)
    have w': "unat ?w = ceil_div (1000 * unat est) (unat thr)"
      using False unat_u64_le [of deadline] unfolding w by (simp add: word_le_nat_alt w)
    show ?thesis
      using thr nm False n1 dw w'
      by (auto simp: next_threshold_time_def Let_def word_le_nat_alt)
  qed
qed

lemma not_exceeds_before_refresh:
  assumes thr: "thr \<noteq> 0" and est: "est \<noteq> 0" and now: "now < deadline"
    and ne: "\<not> exceeds thr est (deadline - now)"
    and t: "now \<le> t" "t < next_threshold_time deadline est thr now"
  shows "t < deadline \<and> \<not> exceeds thr est (deadline - t)"
proof -
  note n = unat_next_threshold_time [OF thr est now]
  have thr0: "0 < unat thr" using thr by (simp add: unat_gt_0)
  have c0: "0 < ceil_div (1000 * unat est) (unat thr)"
    using thr0 est by (intro ceil_div_pos) (simp_all add: unat_gt_0)
  have td: "t < deadline"
    using n t now c0 by (auto simp: word_less_nat_alt word_le_nat_alt)
  consider "t = now" | "unat t + ceil_div (1000 * unat est) (unat thr) < unat deadline"
    using n t by (fastforce simp: word_less_nat_alt word_le_nat_alt word_unat_eq_iff)
  then show ?thesis
  proof cases
    case 1
    with ne td show ?thesis by simp
  next
    case 2
    then have "ceil_div (1000 * unat est) (unat thr) \<le> unat (deadline - t)"
      using td by (simp add: unat_slack)
    then have "1000 * unat est \<le> unat (deadline - t) * unat thr"
      using ceil_div_le_iff [OF thr0] by simp
    with td show ?thesis by (simp add: exceeds_iff slack_nonzero mult.commute)
  qed
qed


lemma add_i64_saturating_0 [simp]: "add_i64_saturating base 0 = base"
  by (simp add: add_i64_saturating_def)

lemma boost_compute_tier:
  "br_tier (snd (qhw_deadline_boost_compute config base deadline est now)) =
     boost_tier_at config deadline est now"
  by (simp add: qhw_deadline_boost_compute_def boost_tier_at_def exceeds_def Let_def)

lemma boost_compute_priority:
  "br_effective_priority (snd (qhw_deadline_boost_compute config base deadline est now)) =
     add_i64_saturating base (boost_of_tier config (boost_tier_at config deadline est now))"
  by (simp add: qhw_deadline_boost_compute_def boost_tier_at_def exceeds_def boost_of_tier_def Let_def)

lemma boost_compute_next_refresh:
  "br_next_refresh_ns (snd (qhw_deadline_boost_compute config base deadline est now)) =
     (if \<not> boost_enabled config \<or> deadline = 0 \<or> est = 0 then QHW_DEADLINE_BOOST_NEVER
      else case tier_threshold config (boost_tier_at config deadline est now) of
        None \<Rightarrow> QHW_DEADLINE_BOOST_NEVER
      | Some thr \<Rightarrow> next_threshold_time deadline est thr now)"
  by (simp add: qhw_deadline_boost_compute_def boost_tier_at_def exceeds_def tier_threshold_def Let_def)

lemma boost_tier_critical_stays:
  assumes "boost_thresholds_ok config" "now \<le> t"
    and "boost_tier_at config deadline est now = QHW_DEADLINE_BOOST_CRITICAL"
  shows "boost_tier_at config deadline est t = QHW_DEADLINE_BOOST_CRITICAL"
proof (cases "deadline \<le> t")
  case True
  with assms(3) show ?thesis by (auto simp: boost_tier_at_def split: if_splits)
next
  case False
  with assms(2) have "t < deadline" "now < deadline" by auto
  with assms show ?thesis
    by (auto simp: boost_tier_at_def slack_nonzero slack_antimono
        intro: exceeds_mono split: if_splits)
qed

lemma boost_tier_stable:
  assumes ok: "boost_thresholds_ok config" and t: "now \<le> t"
    and on: "boost_enabled config" "deadline \<noteq> 0" "est \<noteq> 0"
    and thr: "tier_threshold config (boost_tier_at config deadline est now) = Some thr"
    and lt: "t < next_threshold_time deadline est thr now"
  shows "boost_tier_at config deadline est t = boost_tier_at config deadline est now"
proof -
  let ?ex = "\<lambda>k u. exceeds k est (deadline - u)"
  have nd: "now < deadline"
    using thr on by (auto simp: boost_tier_at_def tier_threshold_def split: if_splits)
  have thr0: "thr \<noteq> 0"
    using thr ok by (auto simp: tier_threshold_def boost_thresholds_ok_def
        split: qhw_deadline_boost_tier.splits)
  have nthr: "\<not> ?ex thr now"
    using thr on nd by (auto simp: boost_tier_at_def tier_threshold_def split: if_splits)
  from not_exceeds_before_refresh [OF thr0 on(3) nd nthr t lt]
  have td: "t < deadline" and nex: "\<not> ?ex thr t" by auto
  have up: "?ex k now \<Longrightarrow> ?ex k t" for k
    using exceeds_mono [OF _ slack_nonzero [OF td] slack_antimono [OF t td] order_refl] by blast
  have down: "thr \<le> k \<Longrightarrow> \<not> ?ex k t" for k
    using nex by (meson exceeds_mono order_refl slack_nonzero td)
  show ?thesis
  proof (cases "boost_tier_at config deadline est now")
    case QHW_DEADLINE_BOOST_NONE
    then have "thr = normal_threshold_permille config" using thr by (simp add: tier_threshold_def)
    then show ?thesis
      using ok td on down QHW_DEADLINE_BOOST_NONE
      by (auto simp: boost_tier_at_def boost_thresholds_ok_def)
  next
    case QHW_DEADLINE_BOOST_NORMAL
    then have "thr = urgent_threshold_permille config" using thr by (simp add: tier_threshold_def)
    moreover have "?ex (normal_threshold_permille config) t"
      using QHW_DEADLINE_BOOST_NORMAL by (intro up) (auto simp: boost_tier_at_def split: if_splits)
    ultimately show ?thesis
      using ok td on down QHW_DEADLINE_BOOST_NORMAL
      by (auto simp: boost_tier_at_def boost_thresholds_ok_def)
  next
    case QHW_DEADLINE_BOOST_URGENT
    then have "thr = critical_threshold_permille config" using thr by (simp add: tier_threshold_def)
    moreover have "?ex (urgent_threshold_permille config) t"
      using QHW_DEADLINE_BOOST_URGENT by (intro up) (auto simp: boost_tier_at_def split: if_splits)
    ultimately show ?thesis
      using ok td on down QHW_DEADLINE_BOOST_URGENT
      by (auto simp: boost_tier_at_def boost_thresholds_ok_def)
  next
    case QHW_DEADLINE_BOOST_CRITICAL
    then show ?thesis using thr by (simp add: tier_threshold_def)
  qed
qed

lemma boost_stable:
  assumes ok: "boost_thresholds_ok config" and t: "now \<le> t"
    and lt: "t < br_next_refresh_ns (snd (qhw_deadline_boost_compute config base deadline est now))"
  shows "br_tier (snd (qhw_deadline_boost_compute config base deadline est t)) =
      br_tier (snd (qhw_deadline_boost_compute config base deadline est now)) \<and>
    br_effective_priority (snd (qhw_deadline_boost_compute config base deadline est t)) =
      br_effective_priority (snd (qhw_deadline_boost_compute config base deadline est now))"
proof -
  have "boost_tier_at config deadline est t = boost_tier_at config deadline est now"
  proof (cases "\<not> boost_enabled config \<or> deadline = 0 \<or> est = 0")
    case True
    then show ?thesis by (auto simp: boost_tier_at_def)
  next
    case on: False
    show ?thesis
    proof (cases "tier_threshold config (boost_tier_at config deadline est now)")
      case None
      then have "boost_tier_at config deadline est now = QHW_DEADLINE_BOOST_CRITICAL"
        by (simp add: tier_threshold_def split: qhw_deadline_boost_tier.splits)
      with boost_tier_critical_stays [OF ok t] show ?thesis by simp
    next
      case (Some thr)
      with lt on show ?thesis
        by (intro boost_tier_stable [OF ok t, where thr = thr])
          (simp_all add: boost_compute_next_refresh)
    qed
  qed
  then show ?thesis by (simp add: boost_compute_tier boost_compute_priority)
qed

text \<open>
  C21: A boost needs no recomputation before its refresh time. With thresholds in order, from the
  time it was computed until just before \<^verbatim>\<open>next_refresh_ns\<close> the tier and the effective priority
  that a recomputation would return are the ones already stored, so the lazy refresh of the policies
  never selects with an outdated priority.
\<close>

theorem boost_stable_until_refresh:
  assumes ok: "boost_thresholds_ok config" and t: "now \<le> t"
    and lt: "t < br_next_refresh_ns (snd (qhw_deadline_boost_compute config base deadline est now))"
  shows "br_tier (snd (qhw_deadline_boost_compute config base deadline est t)) =
      br_tier (snd (qhw_deadline_boost_compute config base deadline est now)) \<and>
    br_effective_priority (snd (qhw_deadline_boost_compute config base deadline est t)) =
      br_effective_priority (snd (qhw_deadline_boost_compute config base deadline est now))"
  by (rule boost_stable [OF assms])

theorem boost_stable_until_refresh_witness:
  "boost_thresholds_ok (qhw_deadline_boost_config_init\<lparr>boost_enabled := True\<rparr>) \<and>
   br_tier (snd (qhw_deadline_boost_compute
      (qhw_deadline_boost_config_init\<lparr>boost_enabled := True\<rparr>) 5 1000 300 650)) =
     QHW_DEADLINE_BOOST_NONE"
  using boost_stable_until_refresh [of "qhw_deadline_boost_config_init\<lparr>boost_enabled := True\<rparr>"
      100 650 5 1000 300]
  by (simp add: boost_thresholds_ok_def qhw_deadline_boost_config_init_def boost_compute_tier boost_compute_next_refresh
     boost_tier_at_def tier_threshold_def exceeds_iff next_threshold_time_def
     word_less_nat_alt)

lemma boost_refresh_later:
  "now < br_next_refresh_ns (snd (qhw_deadline_boost_compute config base deadline est now)) \<or>
   br_next_refresh_ns (snd (qhw_deadline_boost_compute config base deadline est now)) = QHW_DEADLINE_BOOST_NEVER"
proof -
  have "now < next_threshold_time deadline est thr now \<or>
     next_threshold_time deadline est thr now = QHW_DEADLINE_BOOST_NEVER" for thr
    by (auto simp: next_threshold_time_def Let_def u64_less_Suc not_le)
  then show ?thesis by (simp add: boost_compute_next_refresh split: option.split)
qed

lemma boost_compute_rc [simp]: "fst (qhw_deadline_boost_compute config base deadline est now) = QHW_SCHED_OK"
  by (simp add: qhw_deadline_boost_compute_def Let_def)

text \<open>
  With thresholds in order, the boost tier of a task never drops as time passes.
\<close>

theorem boost_monotone:
  assumes "boost_thresholds_ok config" "now \<le> t" 
  shows "tier_rank (br_tier (snd (qhw_deadline_boost_compute config base deadline est now))) \<le>
      tier_rank (br_tier (snd (qhw_deadline_boost_compute config base deadline est t)))"
proof -
  have "tier_rank (boost_tier_at config deadline est now) \<le> tier_rank (boost_tier_at config deadline est t)"
  proof (cases "t < deadline")
    case True
    with assms(2) have nd: "now < deadline" by auto
    have up: "exceeds k est (deadline - now) \<Longrightarrow> exceeds k est (deadline - t)" for k
      using exceeds_mono [OF _ slack_nonzero [OF True] slack_antimono [OF assms(2) True] order_refl] by blast
    show ?thesis using True nd up by (auto simp: boost_tier_at_def)
  next
    case False
    then show ?thesis by (auto simp: boost_tier_at_def)
  qed
  then show ?thesis by (simp add: boost_compute_tier)
qed

text \<open>
  Option parsing accepts an enabled boost configuration only when its thresholds are positive
  and in order, so the policies run with thresholds for which the refresh times are right.
\<close>

theorem parse_options_thresholds:
  assumes "qhw_deadline_boost_config_parse_options config options = (QHW_SCHED_OK, config')"
    and "boost_enabled config'"
  shows "boost_thresholds_ok config'"
  using assms by (auto simp: qhw_deadline_boost_config_parse_options_def boost_thresholds_ok_def split: if_splits prod.splits)

theorem parse_options_thresholds_witness:
  "boost_thresholds_ok (snd (qhw_deadline_boost_config_parse_options qhw_deadline_boost_config_init
     (KvArr [\<lparr>kv_key = 200, kv_type = 1, kv_flags = 0, kv_bits = 1\<rparr>,
             \<lparr>kv_key = 203, kv_type = 1, kv_flags = 0, kv_bits = 2500\<rparr>])))"
  using parse_options_thresholds [of qhw_deadline_boost_config_init
      "KvArr [\<lparr>kv_key = 200, kv_type = 1, kv_flags = 0, kv_bits = 1\<rparr>,
             \<lparr>kv_key = 203, kv_type = 1, kv_flags = 0, kv_bits = 2500\<rparr>]"]
  by (simp add: qhw_deadline_boost_config_parse_options_def qhw_deadline_boost_config_init_def
      is_deadline_boost_option_def set_deadline_boost_u64_def)

subsection \<open>The clock\<close>

text \<open>The reading a clock cannot fall below.\<close>

definition clock_floor :: "clock \<Rightarrow> u64" where
  "clock_floor c = (if ck_supported c then ck_last c else 0)"

lemma now_ns_reading:
  "qhw_deadline_boost_now_ns c = (if ck_supported c then (ck_last (clock_advance c), clock_advance c) else (0, c))"
  by (simp add: qhw_deadline_boost_now_ns_def clock_gettime_def Let_def div_mult_mod_eq)

lemma now_ns_monotone:
  assumes "qhw_deadline_boost_now_ns c = (t, c')"
  shows "clock_floor c \<le> t" "clock_floor c' = t"
  using assms by (auto simp: now_ns_reading clock_floor_def clock_advance_def split: if_splits list.splits)

end
