(* ===== verification/Data_Structures.thy ===== *)
theory Data_Structures
  imports Prelude "HOL-Library.Multiset"
begin

section \<open>Interface of the data-structure library\<close>

text \<open>
  The hash tables, intrusive lists and heaps come from the submodule
  \<^verbatim>\<open>external/qhw-datastructures\<close>, which is not part of the repository. They are parameters of the
  model: the record \<^verbatim>\<open>ds\<close> holds the operations the code calls, over abstract types of tables, lists
  and heaps that store pointers, and every definition that uses them takes such a record. The locale
  \<^verbatim>\<open>datastructures\<close> states what the code relies on, over the ghost record that observes the structures.

  Operations that allocate take and return the allocator script (\<^verbatim>\<open>mem\<close>): one entry per allocation
  request, in order, \<^term>\<open>True\<close> for success; after the last entry every request succeeds. A heap
  calls the comparison it was created with, here the argument \<^verbatim>\<open>cmp\<close> evaluated on the current objects,
  and reports the positions of the items it moves through the \<^verbatim>\<open>update_index\<close> callback: the returned
  list is the sequence of those calls. \<^verbatim>\<open>hash_table_fini\<close> is the sequence of values passed to the
  callback when the table is destroyed. An error path may also destroy a table that holds nothing: one that was only filled
  with zeros, one whose initialisation failed, or one that was destroyed before. What the library makes of that
  is not known here, so \<^verbatim>\<open>hash_table_fini_unready\<close> says which of these its destructor accepts.
\<close>

type_synonym mem = "bool list"

fun mem_alloc :: "mem \<Rightarrow> bool \<times> mem" where
  "mem_alloc [] = (True, [])"
| "mem_alloc (b # bs) = (b, bs)"

type_synonym heap_cmp = "ptr \<Rightarrow> ptr \<Rightarrow> int"
type_synonym index_updates = "(ptr \<times> nat) list"

datatype unready_table = Table_zeroed | Table_failed | Table_released

record ('h, 'l, 'q) ds =
  hash_table_init :: "nat \<Rightarrow> mem \<Rightarrow> 'h option \<times> mem"
  hash_table_find :: "'h \<Rightarrow> u64 \<Rightarrow> ptr option"
  hash_table_insert :: "'h \<Rightarrow> u64 \<Rightarrow> ptr \<Rightarrow> mem \<Rightarrow> bool \<times> 'h \<times> mem"
  hash_table_remove :: "'h \<Rightarrow> u64 \<Rightarrow> ptr option \<times> 'h"
  hash_table_fini :: "'h \<Rightarrow> ptr list"
  hash_table_fini_unready :: "unready_table \<Rightarrow> bool"
  list_init :: 'l
  list_push_back :: "'l \<Rightarrow> ptr \<Rightarrow> 'l"
  list_pop_front :: "'l \<Rightarrow> ptr option \<times> 'l"
  list_remove :: "'l \<Rightarrow> ptr \<Rightarrow> 'l"
  list_next :: "'l \<Rightarrow> ptr option \<Rightarrow> ptr option"
  heap_init :: "mem \<Rightarrow> 'q option \<times> mem"
  heap_push :: "heap_cmp \<Rightarrow> 'q \<Rightarrow> ptr \<Rightarrow> mem \<Rightarrow> bool \<times> 'q \<times> index_updates \<times> mem"
  heap_pop :: "heap_cmp \<Rightarrow> 'q \<Rightarrow> ptr option \<times> 'q \<times> index_updates"
  heap_peek :: "'q \<Rightarrow> ptr option"
  heap_remove_at :: "heap_cmp \<Rightarrow> 'q \<Rightarrow> nat \<Rightarrow> ptr option \<times> 'q \<times> index_updates"
  heap_reheapify_at :: "heap_cmp \<Rightarrow> 'q \<Rightarrow> nat \<Rightarrow> bool \<times> 'q \<times> index_updates"
  heap_invalid_index :: nat

text \<open>
  The memory of a table while an object that owns it is set up. Initialisation, and destruction without a function for the
  values, as an error path calls it; destroying an unready table that the library does not accept has no result.
\<close>

datatype 'h table_slot = Slot_ready 'h | Slot_unready unready_table

definition slot_init :: "('h, 'l, 'q) ds \<Rightarrow> nat \<Rightarrow> mem \<Rightarrow> bool \<times> 'h table_slot \<times> mem" where
  "slot_init D n m = (case hash_table_init D n m of
     (None, m) \<Rightarrow> (False, Slot_unready Table_failed, m)
   | (Some h, m) \<Rightarrow> (True, Slot_ready h, m))"

definition slot_fini :: "('h, 'l, 'q) ds \<Rightarrow> 'h table_slot \<Rightarrow> 'h table_slot option" where
  "slot_fini D x = (case x of
     Slot_ready _ \<Rightarrow> Some (Slot_unready Table_released)
   | Slot_unready u \<Rightarrow> if hash_table_fini_unready D u then Some (Slot_unready Table_released) else None)"

text \<open>What the error paths need of a library whose destructor they call on tables that hold nothing.\<close>

definition tolerates_unready :: "('h, 'l, 'q) ds \<Rightarrow> bool" where
  "tolerates_unready D \<longleftrightarrow> (\<forall>u \<in> {Table_zeroed, Table_failed, Table_released}. hash_table_fini_unready D u)"

lemma slot_fini_tolerant: "tolerates_unready D \<Longrightarrow> slot_fini D x = Some (Slot_unready Table_released)"
  by (cases x; cases "case x of Slot_unready u \<Rightarrow> u")
    (auto simp: slot_fini_def tolerates_unready_def split: table_slot.splits)

definition slot_table :: "'h table_slot \<Rightarrow> 'h option" where
  "slot_table x = (case x of Slot_ready h \<Rightarrow> Some h | Slot_unready _ \<Rightarrow> None)"

text \<open>Observations of the structures, used in the laws and in the invariants only.\<close>

record ('h, 'l, 'q) ghost =
  ht_inv :: "'h \<Rightarrow> bool"
  l_inv :: "'l \<Rightarrow> bool"
  l_elems :: "'l \<Rightarrow> ptr list"
  hp_items :: "'q \<Rightarrow> ptr list"
  hp_ok :: "heap_cmp \<Rightarrow> 'q \<Rightarrow> bool"

definition cmp_order :: "heap_cmp \<Rightarrow> ptr set \<Rightarrow> bool" where
  "cmp_order cmp S \<longleftrightarrow>
     (\<forall>x\<in>S. \<forall>y\<in>S. (cmp x y < 0 \<longleftrightarrow> 0 < cmp y x) \<and> (cmp x y \<le> 0 \<or> cmp y x \<le> 0)) \<and>
     (\<forall>x\<in>S. \<forall>y\<in>S. \<forall>z\<in>S. cmp x y \<le> 0 \<longrightarrow> cmp y z \<le> 0 \<longrightarrow> cmp x z \<le> 0)"

lemma cmp_order_trans:
  "cmp_order cmp S \<Longrightarrow> cmp x y \<le> 0 \<Longrightarrow> cmp y z \<le> 0 \<Longrightarrow> x \<in> S \<Longrightarrow> y \<in> S \<Longrightarrow> z \<in> S \<Longrightarrow>
   cmp x z \<le> 0"
  unfolding cmp_order_def by blast

lemma cmp_order_total: "cmp_order cmp S \<Longrightarrow> x \<in> S \<Longrightarrow> y \<in> S \<Longrightarrow> \<not> cmp x y \<le> 0 \<Longrightarrow> cmp y x \<le> 0"
  unfolding cmp_order_def by blast

lemma cmp_order_subset: "cmp_order cmp S \<Longrightarrow> T \<subseteq> S \<Longrightarrow> cmp_order cmp T"
  unfolding cmp_order_def by blast

definition cmp_agree :: "heap_cmp \<Rightarrow> heap_cmp \<Rightarrow> ptr set \<Rightarrow> bool" where
  "cmp_agree cmp cmp' S \<longleftrightarrow> (\<forall>x\<in>S. \<forall>y\<in>S. cmp x y = cmp' x y)"

definition apply_updates :: "index_updates \<Rightarrow> (ptr \<Rightarrow> nat) \<Rightarrow> ptr \<Rightarrow> nat" where
  "apply_updates us f = fold (\<lambda>(p, i) g. g(p := i)) us f"

definition indices_ok :: "(ptr \<Rightarrow> nat) \<Rightarrow> ptr list \<Rightarrow> bool" where
  "indices_ok f xs \<longleftrightarrow> (\<forall>i < length xs. f (xs ! i) = i)"

locale datastructures =
  fixes D :: "('h, 'l, 'q) ds" and G :: "('h, 'l, 'q) ghost"
  assumes ht_init:
      "hash_table_init D n m = (Some h, m') \<Longrightarrow> ht_inv G h \<and> (\<forall>k. hash_table_find D h k = None)"
    and ht_insert_ok:
      "ht_inv G h \<Longrightarrow> hash_table_find D h k = None \<Longrightarrow>
       hash_table_insert D h k p m = (True, h', m') \<Longrightarrow>
       ht_inv G h' \<and> (\<forall>j. hash_table_find D h' j = (if j = k then Some p else hash_table_find D h j))"
    and ht_insert_fail:
      "ht_inv G h \<Longrightarrow> hash_table_find D h k = None \<Longrightarrow>
       hash_table_insert D h k p m = (False, h', m') \<Longrightarrow>
       ht_inv G h' \<and> (\<forall>j. hash_table_find D h' j = hash_table_find D h j)"
    and ht_remove:
      "ht_inv G h \<Longrightarrow> hash_table_remove D h k = (r, h') \<Longrightarrow>
       r = hash_table_find D h k \<and> ht_inv G h' \<and>
       (\<forall>j. hash_table_find D h' j = (if j = k then None else hash_table_find D h j))"
    and ht_fini:
      "ht_inv G h \<Longrightarrow> \<exists>ks. distinct ks \<and> set ks = dom (hash_table_find D h) \<and>
         hash_table_fini D h = map (\<lambda>k. the (hash_table_find D h k)) ks"
    and l_inv_distinct: "l_inv G l \<Longrightarrow> distinct (l_elems G l)"
    and l_init: "l_inv G (list_init D) \<and> l_elems G (list_init D) = []"
    and l_push_back:
      "l_inv G l \<Longrightarrow> p \<notin> set (l_elems G l) \<Longrightarrow>
       l_inv G (list_push_back D l p) \<and> l_elems G (list_push_back D l p) = l_elems G l @ [p]"
    and l_pop_front:
      "l_inv G l \<Longrightarrow> list_pop_front D l = (r, l') \<Longrightarrow>
       l_inv G l' \<and> l_elems G l' = tl (l_elems G l) \<and>
       r = (case l_elems G l of [] \<Rightarrow> None | p # ps \<Rightarrow> Some p)"
    and l_remove:
      "l_inv G l \<Longrightarrow> p \<in> set (l_elems G l) \<Longrightarrow>
       l_inv G (list_remove D l p) \<and> l_elems G (list_remove D l p) = remove1 p (l_elems G l)"
    and l_next_head:
      "l_inv G l \<Longrightarrow> list_next D l None = (case l_elems G l of [] \<Rightarrow> None | p # ps \<Rightarrow> Some p)"
    and l_next:
      "l_inv G l \<Longrightarrow> l_elems G l = xs @ p # ys \<Longrightarrow>
       list_next D l (Some p) = (case ys of [] \<Rightarrow> None | y # _ \<Rightarrow> Some y)"
    and hp_init: "heap_init D m = (Some q, m') \<Longrightarrow> hp_items G q = [] \<and> hp_ok G cmp q"
    and hp_cong:
      "hp_ok G cmp q \<Longrightarrow> cmp_agree cmp cmp' (set (hp_items G q)) \<Longrightarrow> hp_ok G cmp' q"
    and hp_size: "hp_ok G cmp q \<Longrightarrow> length (hp_items G q) \<le> heap_invalid_index D"
    and hp_peek_none: "hp_items G q = [] \<Longrightarrow> heap_peek D q = None"
    and hp_peek_some:
      "hp_ok G cmp q \<Longrightarrow> cmp_order cmp (set (hp_items G q)) \<Longrightarrow> hp_items G q \<noteq> [] \<Longrightarrow>
       \<exists>p. heap_peek D q = Some p \<and> p \<in> set (hp_items G q) \<and>
           (\<forall>x \<in> set (hp_items G q). cmp p x \<le> 0)"
    and hp_push_ok:
      "hp_ok G cmp q \<Longrightarrow> cmp_order cmp (insert p (set (hp_items G q))) \<Longrightarrow>
       p \<notin> set (hp_items G q) \<Longrightarrow> distinct (hp_items G q) \<Longrightarrow>
       heap_push D cmp q p m = (True, q', us, m') \<Longrightarrow>
       hp_ok G cmp q' \<and> mset (hp_items G q') = add_mset p (mset (hp_items G q)) \<and>
       fst ` set us \<subseteq> insert p (set (hp_items G q)) \<and>
       (indices_ok f (hp_items G q) \<longrightarrow> indices_ok (apply_updates us f) (hp_items G q'))"
    and hp_push_fail:
      "hp_ok G cmp q \<Longrightarrow> p \<notin> set (hp_items G q) \<Longrightarrow>
       heap_push D cmp q p m = (False, q', us, m') \<Longrightarrow>
       hp_ok G cmp q' \<and> hp_items G q' = hp_items G q \<and> us = []"
    and hp_pop_none:
      "hp_items G q = [] \<Longrightarrow> heap_pop D cmp q = (r, q', us) \<Longrightarrow>
       r = None \<and> hp_items G q' = [] \<and> us = [] \<and> (hp_ok G cmp q \<longrightarrow> hp_ok G cmp q')"
    and hp_pop_some:
      "hp_ok G cmp q \<Longrightarrow> cmp_order cmp (set (hp_items G q)) \<Longrightarrow> hp_items G q \<noteq> [] \<Longrightarrow>
       distinct (hp_items G q) \<Longrightarrow> heap_pop D cmp q = (r, q', us) \<Longrightarrow>
       r = heap_peek D q \<and> hp_ok G cmp q' \<and>
       mset (hp_items G q') = mset (hp_items G q) - {#the r#} \<and>
       fst ` set us \<subseteq> set (hp_items G q) \<and>
       (indices_ok f (hp_items G q) \<longrightarrow> indices_ok (apply_updates us f) (hp_items G q'))"
    and hp_remove_at:
      "hp_ok G cmp q \<Longrightarrow> i < length (hp_items G q) \<Longrightarrow> distinct (hp_items G q) \<Longrightarrow>
       cmp_agree cmp cmp' (set (hp_items G q) - {hp_items G q ! i}) \<Longrightarrow>
       cmp_order cmp' (set (hp_items G q) - {hp_items G q ! i}) \<Longrightarrow>
       heap_remove_at D cmp' q i = (r, q', us) \<Longrightarrow>
       r = Some (hp_items G q ! i) \<and> hp_ok G cmp' q' \<and>
       mset (hp_items G q') = mset (hp_items G q) - {#hp_items G q ! i#} \<and>
       fst ` set us \<subseteq> set (hp_items G q) \<and>
       (indices_ok f (hp_items G q) \<longrightarrow> indices_ok (apply_updates us f) (hp_items G q'))"
    and hp_reheapify_at:
      "hp_ok G cmp q \<Longrightarrow> i < length (hp_items G q) \<Longrightarrow> distinct (hp_items G q) \<Longrightarrow>
       cmp_agree cmp cmp' (set (hp_items G q) - {hp_items G q ! i}) \<Longrightarrow>
       cmp_order cmp' (set (hp_items G q)) \<Longrightarrow>
       heap_reheapify_at D cmp' q i = (b, q', us) \<Longrightarrow>
       b \<and> hp_ok G cmp' q' \<and> mset (hp_items G q') = mset (hp_items G q) \<and>
       fst ` set us \<subseteq> set (hp_items G q) \<and>
       (indices_ok f (hp_items G q) \<longrightarrow> indices_ok (apply_updates us f) (hp_items G q'))"
begin

lemma ht_insert:
  assumes "ht_inv G h" "hash_table_find D h k = None" "hash_table_insert D h k p m = (b, h', m')"
  shows "ht_inv G h' \<and>
    hash_table_find D h' = (hash_table_find D h)(k := if b then Some p else None)"
  using ht_insert_ok [OF assms(1,2)] ht_insert_fail [OF assms(1,2)] assms
  by (cases b) (fastforce simp: fun_eq_iff)+

lemma ht_remove_fun:
  assumes "ht_inv G h" "hash_table_remove D h k = (r, h')"
  shows "r = hash_table_find D h k" "ht_inv G h'"
    "hash_table_find D h' = (hash_table_find D h)(k := None)"
  using ht_remove [OF assms] by (auto simp: fun_eq_iff)

end

end
