(* ===== verification/Runtime.thy ===== *)
theory Runtime
  imports Deadline_Boost Data_Structures
begin

section \<open>Run-time environment: allocator, locks, last error\<close>

text \<open>
  \<^verbatim>\<open>src/qhw_allocator.c\<close>, \<^verbatim>\<open>src/qhw_thread.c\<close> and \<^verbatim>\<open>src/qhw_error.c\<close>. The environment record scripts
  what the outside world answers: the outcome of every allocation (the system allocator and the
  caller's allocator alike), of every clock reading and of every \<^verbatim>\<open>pthread_mutex_init\<close>, and it counts
  the user callbacks made, so that a callback may answer differently each time.

  A mutex is the pair of the lock operations installed by \<^verbatim>\<open>qhw_thread_init\<close> and the state of the
  pthread mutex. Locking a mutex that is held, unlocking one that is not, and using one that is not
  initialised or was destroyed have no result.
\<close>

record env =
  env_mem :: mem
  env_clock :: clock
  env_mutex :: "bool list"
  env_calls :: nat

fun next_outcome :: "bool list \<Rightarrow> bool \<times> bool list" where
  "next_outcome [] = (True, [])"
| "next_outcome (b # bs) = (b, bs)"

definition env_alloc :: "env \<Rightarrow> bool \<times> env" where
  "env_alloc e = (case mem_alloc (env_mem e) of (b, m) \<Rightarrow> (b, e\<lparr>env_mem := m\<rparr>))"

definition env_mutex_init :: "env \<Rightarrow> bool \<times> env" where
  "env_mutex_init e = (case next_outcome (env_mutex e) of (b, ms) \<Rightarrow> (b, e\<lparr>env_mutex := ms\<rparr>))"

subsection \<open>Allocator selection\<close>

text \<open>Function pointers are opaque addresses; a null pointer is \<^term>\<open>None\<close>.\<close>

record qhw_sched_allocator =
  at_alloc :: "ptr option"
  at_realloc :: "ptr option"
  at_free :: "ptr option"
  at_user_data :: u64

datatype alloc_fn = Default_fn | User_fn ptr

record qhw_allocator =
  al_alloc :: alloc_fn
  al_realloc :: alloc_fn
  al_free :: alloc_fn
  al_user_data :: u64

definition qhw_allocator_init ::
  "qhw_sched_allocator option \<Rightarrow> qhw_sched_rc \<times> qhw_allocator option" where
  "qhw_allocator_init attr =
     (case attr of
        None \<Rightarrow> (QHW_SCHED_OK, Some \<lparr>al_alloc = Default_fn, al_realloc = Default_fn,
                  al_free = Default_fn, al_user_data = 0\<rparr>)
      | Some a \<Rightarrow>
          (case (at_alloc a, at_realloc a, at_free a) of
             (Some f, Some g, Some h) \<Rightarrow>
               (QHW_SCHED_OK, Some \<lparr>al_alloc = User_fn f, al_realloc = User_fn g,
                  al_free = User_fn h, al_user_data = at_user_data a\<rparr>)
           | _ \<Rightarrow> (QHW_SCHED_ERR_INVALID_ARG, None)))"

subsection \<open>Locks\<close>

datatype qhw_lock_ops = Lock_unset | Lock_mutex | Lock_noop

record qhw_mutex =
  lock_ops :: qhw_lock_ops
  live :: bool
  held :: bool

definition zero_mutex :: qhw_mutex where
  "zero_mutex = \<lparr>lock_ops = Lock_unset, live = False, held = False\<rparr>"

definition mutex_lock :: "qhw_mutex \<Rightarrow> qhw_mutex option" where
  "mutex_lock l = (if live l \<and> \<not> held l then Some (l\<lparr>held := True\<rparr>) else None)"

definition mutex_unlock :: "qhw_mutex \<Rightarrow> qhw_mutex option" where
  "mutex_unlock l = (if live l \<and> held l then Some (l\<lparr>held := False\<rparr>) else None)"

definition mutex_destroy :: "qhw_mutex \<Rightarrow> qhw_mutex option" where
  "mutex_destroy l = (if live l \<and> \<not> held l then Some (l\<lparr>live := False\<rparr>) else None)"

definition noop_lock :: "qhw_mutex \<Rightarrow> qhw_mutex option" where
  "noop_lock l = Some l"

definition noop_unlock :: "qhw_mutex \<Rightarrow> qhw_mutex option" where
  "noop_unlock l = Some l"

definition noop_destroy :: "qhw_mutex \<Rightarrow> qhw_mutex option" where
  "noop_destroy l = Some l"

text \<open>A call through \<^verbatim>\<open>lock_ops\<close>; a null function pointer has no result.\<close>

definition ops_lock :: "qhw_mutex \<Rightarrow> qhw_mutex option" where
  "ops_lock l = (case lock_ops l of Lock_unset \<Rightarrow> None | Lock_mutex \<Rightarrow> mutex_lock l
     | Lock_noop \<Rightarrow> noop_lock l)"

definition ops_unlock :: "qhw_mutex \<Rightarrow> qhw_mutex option" where
  "ops_unlock l = (case lock_ops l of Lock_unset \<Rightarrow> None | Lock_mutex \<Rightarrow> mutex_unlock l
     | Lock_noop \<Rightarrow> noop_unlock l)"

definition ops_destroy :: "qhw_mutex \<Rightarrow> qhw_mutex option" where
  "ops_destroy l = (case lock_ops l of Lock_unset \<Rightarrow> None | Lock_mutex \<Rightarrow> mutex_destroy l
     | Lock_noop \<Rightarrow> noop_destroy l)"

definition qhw_thread_init :: "u32 \<Rightarrow> qhw_mutex \<Rightarrow> env \<Rightarrow> qhw_sched_rc \<times> qhw_mutex \<times> env" where
  "qhw_thread_init mode l e =
     (if mode = QHW_SCHED_THREAD_SAFE then
        (case env_mutex_init e of (got, e) \<Rightarrow>
           if \<not> got then (QHW_SCHED_ERR_STATE, l, e)
           else (QHW_SCHED_OK, \<lparr>lock_ops = Lock_mutex, live = True, held = False\<rparr>, e))
      else if mode = QHW_SCHED_THREAD_USER then (QHW_SCHED_OK, l\<lparr>lock_ops := Lock_noop\<rparr>, e)
      else (QHW_SCHED_ERR_INVALID_ARG, l, e))"

subsection \<open>Last error\<close>

record qhw_sched_error =
  err_code :: qhw_sched_rc
  err_message :: string

text \<open>\<^verbatim>\<open>snprintf\<close> into a buffer of 256 bytes keeps at most 255 characters.\<close>

definition qhw_error_set :: "qhw_sched_rc \<Rightarrow> string option \<Rightarrow> qhw_sched_error" where
  "qhw_error_set code message =
     \<lparr>err_code = code, err_message = take 255 (case message of None \<Rightarrow> '''' | Some s \<Rightarrow> s)\<rparr>"

subsection \<open>Lock discipline\<close>

text \<open>A lock that can be taken: either kind of operations, and a mutex that is live and free.\<close>

definition lock_free :: "qhw_mutex \<Rightarrow> bool" where
  "lock_free l \<longleftrightarrow> lock_ops l = Lock_noop \<or> lock_ops l = Lock_mutex \<and> live l \<and> \<not> held l"

definition locked :: "qhw_mutex \<Rightarrow> qhw_mutex" where
  "locked l = (if lock_ops l = Lock_mutex then l\<lparr>held := True\<rparr> else l)"

lemma ops_lock_free [simp]: "lock_free l \<Longrightarrow> ops_lock l = Some (locked l)"
  by (auto simp: lock_free_def ops_lock_def mutex_lock_def noop_lock_def locked_def)

lemma ops_unlock_locked [simp]: "lock_free l \<Longrightarrow> ops_unlock (locked l) = Some l"
  by (auto simp: lock_free_def ops_unlock_def mutex_unlock_def noop_unlock_def locked_def)

lemma thread_init_free:
  "qhw_thread_init mode l e = (QHW_SCHED_OK, l', e') \<Longrightarrow> lock_free l'"
  by (auto simp: qhw_thread_init_def lock_free_def split: if_splits prod.splits)

end
