(* ===== verification/Allocator.thy ===== *)
theory Allocator
  imports Runtime
begin

section \<open>The allocation wrappers\<close>

text \<open>
  \<^verbatim>\<open>src/qhw_allocator.c\<close> below the outcomes that the rest of the development scripts: the functions through which every
  object is allocated, resized and released, with the C heap as the system allocator or with functions of the caller.
  The locale \<^verbatim>\<open>allocator_fns\<close> states what makes an allocator sound. The system allocator satisfies it, and a scheduler keeps
  whatever the functions chosen by \<^verbatim>\<open>qhw_allocator_init\<close> satisfy.
\<close>

subsection \<open>The C heap\<close>

text \<open>
  Blocks in use with their sizes. A block address is never used again. Releasing or resizing a block that is not in use has no
  result, nor has resizing to zero bytes, which C leaves open.
\<close>

record c_heap =
  blocks :: "ptr \<rightharpoonup> u64"
  next_block :: ptr
  heap_script :: mem

definition c_malloc :: "u64 \<Rightarrow> c_heap \<Rightarrow> (ptr option \<times> c_heap) option" where
  "c_malloc bytes h =
     (case mem_alloc (heap_script h) of (got, m) \<Rightarrow>
        if got then Some (Some (next_block h), h\<lparr>blocks := (blocks h)(next_block h \<mapsto> bytes), next_block := Suc (next_block h), heap_script := m\<rparr>)
        else Some (None, h\<lparr>heap_script := m\<rparr>))"

definition c_free :: "ptr option \<Rightarrow> c_heap \<Rightarrow> c_heap option" where
  "c_free p h =
     (case p of None \<Rightarrow> Some h
      | Some b \<Rightarrow> if blocks h b = None then None else Some (h\<lparr>blocks := (blocks h)(b := None)\<rparr>))"

definition c_realloc :: "ptr option \<Rightarrow> u64 \<Rightarrow> c_heap \<Rightarrow> (ptr option \<times> c_heap) option" where
  "c_realloc p bytes h =
     (case p of None \<Rightarrow> c_malloc bytes h
      | Some b \<Rightarrow>
          if bytes = 0 \<or> blocks h b = None then None
          else do {
            (q, h) \<leftarrow> c_malloc bytes h;
            case q of None \<Rightarrow> Some (None, h)
            | Some c \<Rightarrow> Some (Some c, h\<lparr>blocks := (blocks h)(b := None)\<rparr>)
          })"

definition heap_fresh :: "c_heap \<Rightarrow> bool" where
  "heap_fresh h \<longleftrightarrow> (\<forall>p. blocks h p \<noteq> None \<longrightarrow> p < next_block h)"

subsection \<open>The wrappers\<close>

text \<open>
  Over any memory state: the functions behind the addresses of a caller, each with the \<^verbatim>\<open>user_data\<close> it receives, and the
  default functions.
\<close>

record 'm alloc_fns =
  fn_alloc :: "alloc_fn \<Rightarrow> u64 \<Rightarrow> u64 \<Rightarrow> 'm \<Rightarrow> (ptr option \<times> 'm) option"
  fn_realloc :: "alloc_fn \<Rightarrow> ptr option \<Rightarrow> u64 \<Rightarrow> u64 \<Rightarrow> 'm \<Rightarrow> (ptr option \<times> 'm) option"
  fn_free :: "alloc_fn \<Rightarrow> ptr option \<Rightarrow> u64 \<Rightarrow> 'm \<Rightarrow> 'm option"

definition default_alloc :: "u64 \<Rightarrow> u64 \<Rightarrow> c_heap \<Rightarrow> (ptr option \<times> c_heap) option" where
  "default_alloc bytes user_data = c_malloc bytes"

definition default_realloc :: "ptr option \<Rightarrow> u64 \<Rightarrow> u64 \<Rightarrow> c_heap \<Rightarrow> (ptr option \<times> c_heap) option" where
  "default_realloc p bytes user_data = c_realloc p bytes"

definition default_free :: "ptr option \<Rightarrow> u64 \<Rightarrow> c_heap \<Rightarrow> c_heap option" where
  "default_free p user_data = c_free p"

definition qhw_alloc :: "'m alloc_fns \<Rightarrow> qhw_allocator \<Rightarrow> u64 \<Rightarrow> 'm \<Rightarrow> (ptr option \<times> 'm) option" where
  "qhw_alloc F allocator bytes = fn_alloc F (al_alloc allocator) bytes (al_user_data allocator)"

definition qhw_realloc :: "'m alloc_fns \<Rightarrow> qhw_allocator \<Rightarrow> ptr option \<Rightarrow> u64 \<Rightarrow> 'm \<Rightarrow> (ptr option \<times> 'm) option" where
  "qhw_realloc F allocator p bytes = fn_realloc F (al_realloc allocator) p bytes (al_user_data allocator)"

definition qhw_free :: "'m alloc_fns \<Rightarrow> qhw_allocator \<Rightarrow> ptr option \<Rightarrow> 'm \<Rightarrow> 'm option" where
  "qhw_free F allocator p m = (if p \<noteq> None then fn_free F (al_free allocator) p (al_user_data allocator) m else Some m)"

text \<open>The allocator of a scheduler; a null handle has none.\<close>

definition qhw_sched_alloc :: "'m alloc_fns \<Rightarrow> qhw_allocator option \<Rightarrow> u64 \<Rightarrow> 'm \<Rightarrow> (ptr option \<times> 'm) option" where
  "qhw_sched_alloc F sched bytes m = (case sched of None \<Rightarrow> Some (None, m) | Some al \<Rightarrow> qhw_alloc F al bytes m)"

definition qhw_sched_realloc ::
  "'m alloc_fns \<Rightarrow> qhw_allocator option \<Rightarrow> ptr option \<Rightarrow> u64 \<Rightarrow> 'm \<Rightarrow> (ptr option \<times> 'm) option" where
  "qhw_sched_realloc F sched p bytes m = (case sched of None \<Rightarrow> Some (None, m) | Some al \<Rightarrow> qhw_realloc F al p bytes m)"

definition qhw_sched_free :: "'m alloc_fns \<Rightarrow> qhw_allocator option \<Rightarrow> ptr option \<Rightarrow> 'm \<Rightarrow> 'm option" where
  "qhw_sched_free F sched p m = (case sched of None \<Rightarrow> Some m | Some al \<Rightarrow> qhw_free F al p m)"

subsection \<open>Sound allocators\<close>

locale allocator_fns =
  fixes alloc :: "u64 \<Rightarrow> 'm \<Rightarrow> (ptr option \<times> 'm) option"
    and realloc :: "ptr option \<Rightarrow> u64 \<Rightarrow> 'm \<Rightarrow> (ptr option \<times> 'm) option"
    and free :: "ptr option \<Rightarrow> 'm \<Rightarrow> 'm option"
    and owned :: "'m \<Rightarrow> ptr \<rightharpoonup> u64"
    and good :: "'m \<Rightarrow> bool"
  assumes alloc_ok: "good m \<Longrightarrow> succeeds (alloc n m) (\<lambda>(r, m'). good m' \<and>
      (case r of None \<Rightarrow> owned m' = owned m | Some p \<Rightarrow> owned m p = None \<and> owned m' = (owned m)(p \<mapsto> n)))"
    and realloc_ok: "good m \<Longrightarrow> owned m p \<noteq> None \<Longrightarrow> n \<noteq> 0 \<Longrightarrow> succeeds (realloc (Some p) n m) (\<lambda>(r, m'). good m' \<and>
      (case r of None \<Rightarrow> owned m' = owned m
       | Some q \<Rightarrow> (q = p \<or> owned m q = None) \<and> owned m' = ((owned m)(p := None))(q \<mapsto> n)))"
    and free_ok: "good m \<Longrightarrow> owned m p \<noteq> None \<Longrightarrow> succeeds (free (Some p) m) (\<lambda>m'. good m' \<and> owned m' = (owned m)(p := None))"
begin

text \<open>
  An array that grows, as the registry of plugins does: it is allocated, resized, and released at whatever address it has
  then. No block is leaked and no other block is touched, whether the resizing succeeds or not.
\<close>

lemma grow_and_release:
  assumes m: "good m" and n: "n' \<noteq> 0"
  shows "succeeds (do {
      (p, m) \<leftarrow> alloc n m;
      case p of None \<Rightarrow> Some m
      | Some b \<Rightarrow> do {
          (q, m) \<leftarrow> realloc p n' m;
          free (if q = None then p else q) m
        }
    }) (\<lambda>m'. good m' \<and> owned m' = owned m)"
proof -
  obtain p m1 where a: "alloc n m = Some (p, m1)" "good m1"
    and p: "case p of None \<Rightarrow> owned m1 = owned m | Some b \<Rightarrow> owned m b = None \<and> owned m1 = (owned m)(b \<mapsto> n)"
    using alloc_ok [OF m, of n] by (elim succeeds_tupleE) blast
  show ?thesis
  proof (cases p)
    case None
    then show ?thesis using a p by simp
  next
    case (Some b)
    then have l1: "owned m b = None" "owned m1 = (owned m)(b \<mapsto> n)" "owned m1 b \<noteq> None" using p by simp_all
    obtain q m2 where r: "realloc (Some b) n' m1 = Some (q, m2)" "good m2"
      and q: "case q of None \<Rightarrow> owned m2 = owned m1
        | Some c \<Rightarrow> (c = b \<or> owned m1 c = None) \<and> owned m2 = ((owned m1)(b := None))(c \<mapsto> n')"
      using realloc_ok [OF a(2) l1(3) n] by (elim succeeds_tupleE) blast
    show ?thesis
    proof (cases q)
      case None
      then have "owned m2 b \<noteq> None" "(owned m2)(b := None) = owned m" using q l1 by (simp_all add: fun_upd_idem)
      then show ?thesis using a r Some None free_ok [OF r(2), of b] by simp
    next
      case (Some c)
      have "owned m2 c \<noteq> None" "(owned m2)(c := None) = owned m" using q Some l1 by (auto simp: fun_eq_iff split: if_splits)
      then show ?thesis using a r \<open>p = Some b\<close> Some free_ok [OF r(2), of c] by simp
    qed
  qed
qed

end

text \<open>The default functions of \<^verbatim>\<open>qhw_allocator_init\<close>.\<close>

definition system_fns :: "c_heap alloc_fns" where
  "system_fns = \<lparr>fn_alloc = (\<lambda>_. default_alloc), fn_realloc = (\<lambda>_. default_realloc), fn_free = (\<lambda>_. default_free)\<rparr>"

definition system_allocator :: qhw_allocator where
  "system_allocator = the (snd (qhw_allocator_init None))"

lemma malloc_laws: "heap_fresh h \<Longrightarrow> succeeds (c_malloc n h) (\<lambda>(r, h'). heap_fresh h' \<and>
   (case r of None \<Rightarrow> blocks h' = blocks h | Some p \<Rightarrow> blocks h p = None \<and> blocks h' = (blocks h)(p \<mapsto> n)))"
  by (auto simp: c_malloc_def heap_fresh_def less_Suc_eq split: prod.splits)

interpretation system: allocator_fns "qhw_alloc system_fns system_allocator" "qhw_realloc system_fns system_allocator"
  "qhw_free system_fns system_allocator" blocks heap_fresh
proof unfold_locales
  fix h n
  assume "heap_fresh h"
  then show "succeeds (qhw_alloc system_fns system_allocator n h) (\<lambda>(r, h'). heap_fresh h' \<and>
      (case r of None \<Rightarrow> blocks h' = blocks h | Some p \<Rightarrow> blocks h p = None \<and> blocks h' = (blocks h)(p \<mapsto> n)))"
    using malloc_laws by (simp add: qhw_alloc_def system_fns_def default_alloc_def)
next
  fix h p and n :: u64
  assume h: "heap_fresh h" "blocks h p \<noteq> None" "n \<noteq> 0"
  obtain r h1 where r: "c_malloc n h = Some (r, h1)" "heap_fresh h1"
    "case r of None \<Rightarrow> blocks h1 = blocks h | Some p \<Rightarrow> blocks h p = None \<and> blocks h1 = (blocks h)(p \<mapsto> n)"
    using malloc_laws [OF h(1), of n] by (elim succeeds_tupleE) blast
  then show "succeeds (qhw_realloc system_fns system_allocator (Some p) n h) (\<lambda>(r, h'). heap_fresh h' \<and>
      (case r of None \<Rightarrow> blocks h' = blocks h
       | Some q \<Rightarrow> (q = p \<or> blocks h q = None) \<and> blocks h' = ((blocks h)(p := None))(q \<mapsto> n)))"
    using h by (cases r) (auto simp: qhw_realloc_def system_fns_def default_realloc_def c_realloc_def heap_fresh_def fun_eq_iff)
next
  fix h p
  assume "heap_fresh h" "blocks h p \<noteq> None"
  then show "succeeds (qhw_free system_fns system_allocator (Some p) h) (\<lambda>h'. heap_fresh h' \<and> blocks h' = (blocks h)(p := None))"
    by (auto simp: qhw_free_def system_fns_def default_free_def c_free_def heap_fresh_def)
qed

subsection \<open>The allocator of a caller\<close>

text \<open>
  An allocator that \<^verbatim>\<open>qhw_allocator_init\<close> accepts takes all three functions from the same side: a block is resized and
  released by the functions of whoever allocated it, with the caller's data.
\<close>

lemma init_one_side:
  assumes "qhw_allocator_init attr = (rc, Some al)"
  shows "rc = QHW_SCHED_OK" "(al_alloc al = Default_fn \<longleftrightarrow> attr = None)" "(al_realloc al = Default_fn \<longleftrightarrow> attr = None)"
    "(al_free al = Default_fn \<longleftrightarrow> attr = None)" "attr = Some a \<Longrightarrow> al_user_data al = at_user_data a"
  using assms by (auto simp: qhw_allocator_init_def split: option.splits)

text \<open>If the caller's functions are sound, then so are the wrappers, and a null pointer may always be released.\<close>

lemma init_sound:
  assumes "qhw_allocator_init (Some a) = (QHW_SCHED_OK, Some al)"
    and "allocator_fns (\<lambda>n. fn_alloc F (User_fn (the (at_alloc a))) n (at_user_data a))
      (\<lambda>p n. fn_realloc F (User_fn (the (at_realloc a))) p n (at_user_data a))
      (\<lambda>p. fn_free F (User_fn (the (at_free a))) p (at_user_data a)) owned good"
  shows "allocator_fns (qhw_alloc F al) (qhw_realloc F al) (qhw_free F al) owned good"
    and "qhw_free F al None m = Some m"
proof -
  have al: "al_alloc al = User_fn (the (at_alloc a))" "al_realloc al = User_fn (the (at_realloc a))"
    "al_free al = User_fn (the (at_free a))" "al_user_data al = at_user_data a"
    using assms(1) by (auto simp: qhw_allocator_init_def split: option.splits)
  show "allocator_fns (qhw_alloc F al) (qhw_realloc F al) (qhw_free F al) owned good"
    using assms(2) by (simp add: allocator_fns_def qhw_alloc_def qhw_realloc_def qhw_free_def al)
  show "qhw_free F al None m = Some m" by (simp add: qhw_free_def)
qed

text \<open>A null scheduler allocates nothing and releases nothing.\<close>

lemma null_sched: "qhw_sched_alloc F None n m = Some (None, m)" "qhw_sched_realloc F None p n m = Some (None, m)"
  "qhw_sched_free F None p m = Some m"
  by (simp_all add: qhw_sched_alloc_def qhw_sched_realloc_def qhw_sched_free_def)

end
