(* ===== verification/Ref_Structures.thy ===== *)
theory Ref_Structures
  imports Data_Structures
begin

section \<open>A reference implementation of the data-structure interface\<close>

text \<open>
  A bucketed hash table with chaining that allocates one entry per insertion, a list, and an array
  kept in comparison order with index callbacks. They are not the library of the submodule: they
  show that the laws of \<^verbatim>\<open>datastructures\<close> hold together, and they are the instance on which concrete
  runs of the model are evaluated.
\<close>

subsection \<open>Hash table\<close>

record ref_table =
  rt_size :: nat
  rt_bucket :: "nat \<Rightarrow> (u64 \<times> ptr) list"

definition rt_slot :: "ref_table \<Rightarrow> u64 \<Rightarrow> nat" where
  "rt_slot h k = unat k mod rt_size h"

definition rt_init :: "nat \<Rightarrow> mem \<Rightarrow> ref_table option \<times> mem" where
  "rt_init n m = (let (ok, m') = mem_alloc m in
     (if ok then Some \<lparr>rt_size = max 1 n, rt_bucket = (\<lambda>_. [])\<rparr> else None, m'))"

definition rt_find :: "ref_table \<Rightarrow> u64 \<Rightarrow> ptr option" where
  "rt_find h k = map_of (rt_bucket h (rt_slot h k)) k"

definition rt_insert :: "ref_table \<Rightarrow> u64 \<Rightarrow> ptr \<Rightarrow> mem \<Rightarrow> bool \<times> ref_table \<times> mem" where
  "rt_insert h k p m = (let (ok, m') = mem_alloc m in
     if ok then
       (True, h\<lparr>rt_bucket := (rt_bucket h)(rt_slot h k := (k, p) # rt_bucket h (rt_slot h k))\<rparr>, m')
     else (False, h, m'))"

definition rt_remove :: "ref_table \<Rightarrow> u64 \<Rightarrow> ptr option \<times> ref_table" where
  "rt_remove h k = (rt_find h k,
     h\<lparr>rt_bucket := (rt_bucket h)(rt_slot h k := filter (\<lambda>e. fst e \<noteq> k) (rt_bucket h (rt_slot h k)))\<rparr>)"

definition rt_entries :: "ref_table \<Rightarrow> (u64 \<times> ptr) list" where
  "rt_entries h = concat (map (rt_bucket h) [0..<rt_size h])"

definition rt_fini :: "ref_table \<Rightarrow> ptr list" where
  "rt_fini h = map snd (rt_entries h)"

subsection \<open>List\<close>

fun rl_pop_front :: "ptr list \<Rightarrow> ptr option \<times> ptr list" where
  "rl_pop_front [] = (None, [])"
| "rl_pop_front (p # ps) = (Some p, ps)"

fun rl_first :: "ptr list \<Rightarrow> ptr option" where
  "rl_first [] = None"
| "rl_first (p # ps) = Some p"

fun rl_next :: "ptr list \<Rightarrow> ptr option \<Rightarrow> ptr option" where
  "rl_next ps None = rl_first ps"
| "rl_next [] (Some p) = None"
| "rl_next (q # ps) (Some p) = (if q = p then rl_first ps else rl_next ps (Some p))"

subsection \<open>Ordered array\<close>

definition ra_updates :: "ptr list \<Rightarrow> index_updates" where
  "ra_updates xs = zip xs [0..<length xs]"

fun ra_insort :: "heap_cmp \<Rightarrow> ptr \<Rightarrow> ptr list \<Rightarrow> ptr list" where
  "ra_insort cmp p [] = [p]"
| "ra_insort cmp p (x # xs) = (if cmp p x \<le> 0 then p # x # xs else x # ra_insort cmp p xs)"

definition ra_push :: "heap_cmp \<Rightarrow> ptr list \<Rightarrow> ptr \<Rightarrow> mem \<Rightarrow> bool \<times> ptr list \<times> index_updates \<times> mem" where
  "ra_push cmp q p m = (let (ok, m') = mem_alloc m in
     if ok \<and> length q < SIZE_MAX then (let q' = ra_insort cmp p q in (True, q', ra_updates q', m'))
     else (False, q, [], m'))"

fun ra_pop :: "heap_cmp \<Rightarrow> ptr list \<Rightarrow> ptr option \<times> ptr list \<times> index_updates" where
  "ra_pop cmp [] = (None, [], [])"
| "ra_pop cmp (p # q) = (Some p, q, ra_updates q)"

definition ra_remove_at :: "heap_cmp \<Rightarrow> ptr list \<Rightarrow> nat \<Rightarrow> ptr option \<times> ptr list \<times> index_updates" where
  "ra_remove_at cmp q i =
     (if i < length q then
        (let q' = remove1 (q ! i) q in (Some (q ! i), q', ra_updates q'))
      else (None, q, []))"

definition ra_reheapify_at :: "heap_cmp \<Rightarrow> ptr list \<Rightarrow> nat \<Rightarrow> bool \<times> ptr list \<times> index_updates" where
  "ra_reheapify_at cmp q i =
     (if i < length q then
        (let q' = ra_insort cmp (q ! i) (remove1 (q ! i) q) in (True, q', ra_updates q'))
      else (False, q, []))"

definition ref_ds :: "(ref_table, ptr list, ptr list) ds" where
  "ref_ds = \<lparr>hash_table_init = rt_init, hash_table_find = rt_find,
     hash_table_insert = rt_insert, hash_table_remove = rt_remove, hash_table_fini = rt_fini,
     hash_table_fini_unready = (\<lambda>_. True),
     list_init = [], list_push_back = (\<lambda>l p. l @ [p]), list_pop_front = rl_pop_front,
     list_remove = (\<lambda>l p. remove1 p l), list_next = rl_next,
     heap_init = (\<lambda>m. (Some [], m)), heap_push = ra_push, heap_pop = ra_pop,
     heap_peek = rl_first, heap_remove_at = ra_remove_at,
     heap_reheapify_at = ra_reheapify_at, heap_invalid_index = SIZE_MAX\<rparr>"

definition rt_ok :: "ref_table \<Rightarrow> bool" where
  "rt_ok h \<longleftrightarrow> 0 < rt_size h \<and> (\<forall>i. distinct (map fst (rt_bucket h i)) \<and>
     (\<forall>k v. (k, v) \<in> set (rt_bucket h i) \<longrightarrow> rt_slot h k = i))"

definition ref_ghost :: "(ref_table, ptr list, ptr list) ghost" where
  "ref_ghost = \<lparr>ht_inv = rt_ok, l_inv = distinct, l_elems = (\<lambda>l. l), hp_items = (\<lambda>q. q),
     hp_ok = (\<lambda>cmp q. sorted_wrt (\<lambda>x y. cmp x y \<le> 0) q \<and> length q \<le> SIZE_MAX)\<rparr>"

lemma ref_ds_sel [simp]:
  "hash_table_init ref_ds = rt_init" "hash_table_find ref_ds = rt_find" "hash_table_insert ref_ds = rt_insert"
  "hash_table_remove ref_ds = rt_remove" "hash_table_fini ref_ds = rt_fini" "list_init ref_ds = []"
  "list_push_back ref_ds l p = l @ [p]" "list_pop_front ref_ds = rl_pop_front" "list_remove ref_ds l p = remove1 p l"
  "list_next ref_ds = rl_next" "heap_init ref_ds m = (Some [], m)" "heap_push ref_ds = ra_push"
  "heap_pop ref_ds = ra_pop" "heap_peek ref_ds = rl_first" "heap_remove_at ref_ds = ra_remove_at"
  "heap_reheapify_at ref_ds = ra_reheapify_at" "heap_invalid_index ref_ds = SIZE_MAX"
  by (simp_all add: ref_ds_def)

lemma ref_tolerates [simp]: "tolerates_unready ref_ds"
  by (simp add: tolerates_unready_def ref_ds_def)

lemmas ref_defs = ref_ds_def ref_ghost_def

subsection \<open>The laws\<close>

lemma map_of_filter_neq: "map_of (filter (\<lambda>e. fst e \<noteq> k) xs) j = (if j = k then None else map_of xs j)"
  by (induction xs) auto

lemma rt_find_insert:
  "rt_insert h k p m = (True, h', m') \<Longrightarrow>
   rt_find h' j = (if j = k then Some p else rt_find h j)"
  by (auto simp: rt_insert_def rt_find_def rt_slot_def Let_def split: prod.splits if_splits)

lemma rt_find_remove:
  "rt_remove h k = (r, h') \<Longrightarrow> rt_find h' j = (if j = k then None else rt_find h j)"
  by (auto simp: rt_remove_def rt_find_def rt_slot_def map_of_filter_neq)

lemma rt_ok_insert:
  assumes "rt_ok h" "rt_find h k = None"
  shows "rt_ok (h\<lparr>rt_bucket := (rt_bucket h)(rt_slot h k := (k, p) # rt_bucket h (rt_slot h k))\<rparr>)"
  using assms by (auto simp: rt_ok_def rt_find_def rt_slot_def map_of_eq_None_iff)

lemma rt_ok_remove: "rt_ok h \<Longrightarrow> rt_remove h k = (r, h') \<Longrightarrow> rt_ok h'"
  by (auto simp: rt_ok_def rt_remove_def rt_slot_def distinct_map_filter split: if_splits) blast+

lemma rt_find_iff: "rt_ok h \<Longrightarrow> rt_find h k = Some v \<longleftrightarrow> (k, v) \<in> set (rt_entries h)"
proof -
  assume ok: "rt_ok h"
  then have "rt_slot h k < rt_size h" by (simp add: rt_ok_def rt_slot_def)
  with ok show ?thesis
    by (force simp: rt_ok_def rt_find_def rt_entries_def map_of_eq_Some_iff)
qed

lemma distinct_rt_entries:
  assumes ok: "rt_ok h"
  shows "distinct (map fst (rt_entries h))"
proof -
  have "distinct (map fst (concat (map (rt_bucket h) [0..<n])))" for n
  proof (induction n)
    case (Suc n)
    have "fst ` (\<Union>i<n. set (rt_bucket h i)) \<inter> fst ` set (rt_bucket h n) = {}"
    proof -
      have "\<And>i k v. (k, v) \<in> set (rt_bucket h i) \<Longrightarrow> rt_slot h k = i"
        using ok unfolding rt_ok_def by blast
      then show ?thesis by (auto; metis less_irrefl)
    qed
    moreover have "distinct (map fst (rt_bucket h n))" using ok by (simp add: rt_ok_def)
    ultimately show ?case using Suc by (simp add: atLeast0LessThan image_UN)
  qed simp
  then show ?thesis by (simp add: rt_entries_def)
qed

lemma rt_fini_values:
  assumes ok: "rt_ok h"
  shows "\<exists>ks. distinct ks \<and> set ks = dom (rt_find h) \<and> rt_fini h = map (\<lambda>k. the (rt_find h k)) ks"
proof (intro exI conjI)
  show "distinct (map fst (rt_entries h))" by (rule distinct_rt_entries) (rule ok)
  show "set (map fst (rt_entries h)) = dom (rt_find h)"
    using rt_find_iff [OF ok] by (force simp: dom_def)
  have "\<forall>e \<in> set (rt_entries h). the (rt_find h (fst e)) = snd e"
    using rt_find_iff [OF ok] by (metis option.sel prod.collapse)
  then show "rt_fini h = map (\<lambda>k. the (rt_find h k)) (map fst (rt_entries h))"
    by (simp add: rt_fini_def)
qed

lemma rl_next_append:
  "distinct (xs @ p # ys) \<Longrightarrow> rl_next (xs @ p # ys) (Some p) = rl_first ys"
  by (induction xs) auto

lemma rl_first_eq: "rl_first ps = (case ps of [] \<Rightarrow> None | p # _ \<Rightarrow> Some p)"
  by (cases ps) auto

lemma mset_ra_insort: "mset (ra_insort cmp p xs) = add_mset p (mset xs)"
  by (induction xs) auto

lemma set_ra_insort: "set (ra_insort cmp p xs) = insert p (set xs)"
  by (induction xs) auto

lemma sorted_ra_insort:
  assumes "cmp_order cmp (insert p (set xs))" "sorted_wrt (\<lambda>x y. cmp x y \<le> 0) xs"
  shows "sorted_wrt (\<lambda>x y. cmp x y \<le> 0) (ra_insort cmp p xs)"
  using assms
proof (induction xs)
  case Nil
  then show ?case by simp
next
  case (Cons x xs)
  have sub: "cmp_order cmp (insert p (set xs))"
    by (rule cmp_order_subset [OF Cons.prems(1)]) auto
  show ?case
  proof (cases "cmp p x \<le> 0")
    case True
    have "cmp p y \<le> 0" if "y \<in> set xs" for y
      using cmp_order_trans [OF Cons.prems(1) True, of y] Cons.prems(2) that by simp
    with True Cons.prems show ?thesis by simp
  next
    case False
    then have "cmp x p \<le> 0" using cmp_order_total [OF Cons.prems(1)] by simp
    with False Cons sub show ?thesis by (auto simp: set_ra_insort)
  qed
qed

lemma sorted_wrt_cong_set:
  "sorted_wrt P xs \<Longrightarrow> (\<And>x y. x \<in> set xs \<Longrightarrow> y \<in> set xs \<Longrightarrow> P x y \<Longrightarrow> R x y) \<Longrightarrow> sorted_wrt R xs"
  by (rule sorted_wrt_mono_rel [of xs P R])

lemma apply_updates_notin: "p \<notin> fst ` set us \<Longrightarrow> apply_updates us f p = f p"
  unfolding apply_updates_def by (induction us arbitrary: f) auto

lemma apply_updates_zip:
  "distinct xs \<Longrightarrow> length ns = length xs \<Longrightarrow> i < length xs \<Longrightarrow>
   apply_updates (zip xs ns) f (xs ! i) = ns ! i"
proof (induction xs arbitrary: ns f i)
  case Nil
  then show ?case by simp
next
  case (Cons x xs)
  then obtain n ns' where ns: "ns = n # ns'" by (cases ns) auto
  have step: "apply_updates (zip (x # xs) ns) f = apply_updates (zip xs ns') (f(x := n))"
    by (simp add: ns apply_updates_def)
  have "x \<notin> fst ` set (zip xs ns')"
    using Cons.prems by (auto dest: set_zip_leftD)
  then show ?case
    using Cons ns step by (cases i) (auto simp: apply_updates_notin)
qed

lemma indices_ok_ra_updates: "distinct xs \<Longrightarrow> indices_ok (apply_updates (ra_updates xs) f) xs"
  by (simp add: indices_ok_def ra_updates_def apply_updates_zip)

lemma fst_ra_updates: "fst ` set (ra_updates xs) \<subseteq> set xs"
  by (auto simp: ra_updates_def dest: set_zip_leftD)

lemma distinct_mset_eq: "distinct xs \<Longrightarrow> mset ys = mset xs \<Longrightarrow> distinct ys"
  by (metis mset_eq_imp_distinct_iff)

lemma sorted_wrt_remove1: "sorted_wrt P xs \<Longrightarrow> sorted_wrt P (remove1 x xs)"
proof (induction xs)
  case (Cons y ys)
  then show ?case using set_remove1_subset [of x ys] by auto
qed simp

interpretation ref: datastructures ref_ds ref_ghost
proof (unfold_locales, goal_cases)
  case (1 n m h m')
  then show ?case
    by (auto simp: ref_defs rt_init_def rt_ok_def rt_find_def split: prod.splits if_splits)
next
  case (2 h k p m h' m')
  then show ?case
    using rt_find_insert [of h k p m h' m'] rt_ok_insert [of h k p]
    by (auto simp: ref_defs rt_insert_def Let_def split: prod.splits if_splits)
next
  case (3 h k p m h' m')
  then show ?case
    by (auto simp: ref_defs rt_insert_def Let_def split: prod.splits if_splits)
next
  case (4 h k r h')
  then show ?case
    using rt_find_remove [of h k r h'] rt_ok_remove [of h k r h']
    by (auto simp: ref_defs rt_remove_def)
next
  case (5 h)
  then show ?case using rt_fini_values [of h] by (simp add: ref_defs)
next
  case (6 l)
  then show ?case by (simp add: ref_defs)
next
  case 7
  then show ?case by (simp add: ref_defs)
next
  case (8 l p)
  then show ?case by (simp add: ref_defs)
next
  case (9 l r l')
  then show ?case by (cases l) (auto simp: ref_defs)
next
  case (10 l p)
  then show ?case by (simp add: ref_defs distinct_remove1)
next
  case (11 l)
  then show ?case by (simp add: ref_defs rl_first_eq)
next
  case (12 l xs p ys)
  then show ?case by (simp add: ref_defs rl_next_append rl_first_eq)
next
  case (13 m q m' cmp)
  then show ?case by (auto simp: ref_defs)
next
  case (14 cmp q cmp')
  then show ?case
    by (auto simp: ref_defs cmp_agree_def elim!: sorted_wrt_cong_set)
next
  case (15 cmp q)
  then show ?case by (simp add: ref_defs)
next
  case (16 q)
  then show ?case by (simp add: ref_defs)
next
  case (17 cmp q)
  then show ?case
    by (cases q) (auto simp: ref_defs cmp_order_def)
next
  case (18 cmp q p m q' us m' f)
  then have q': "q' = ra_insort cmp p q" and us: "us = ra_updates q'"
    by (auto simp: ref_defs ra_push_def Let_def split: prod.splits if_splits)
  have ms: "mset q' = add_mset p (mset q)" by (simp add: q' mset_ra_insort)
  have "length q' = Suc (length q)" using arg_cong [OF ms, of size] by simp
  then have len: "length (ra_insort cmp p q) \<le> SIZE_MAX"
    using 18 by (auto simp: q' ref_defs ra_push_def Let_def split: prod.splits if_splits)
  have "distinct q'" using ms 18 distinct_mset_eq [of "p # q" q'] by (simp add: ref_defs)
  with 18 ms show ?case
    using sorted_ra_insort [of cmp p q] fst_ra_updates [of q'] len
    by (auto simp: ref_defs q' us indices_ok_ra_updates set_ra_insort)
next
  case (19 cmp q p m q' us m')
  then show ?case by (auto simp: ref_defs ra_push_def Let_def split: prod.splits if_splits)
next
  case (20 q cmp r q' us)
  then show ?case by (auto simp: ref_defs)
next
  case (21 cmp q r q' us f)
  then show ?case
    using fst_ra_updates [of q'] by (cases q) (auto simp: ref_defs indices_ok_ra_updates)
next
  case (22 cmp q i cmp' r q' us f)
  then have q': "q' = remove1 (q ! i) q" and us: "us = ra_updates q'" and r: "r = Some (q ! i)"
    by (auto simp: ref_defs ra_remove_at_def Let_def)
  have set: "set q' = set q - {q ! i}" using 22 by (simp add: ref_defs q' set_remove1_eq)
  have "sorted_wrt (\<lambda>x y. cmp x y \<le> 0) q'"
    using 22 by (simp add: ref_defs q' sorted_wrt_remove1)
  then have "sorted_wrt (\<lambda>x y. cmp' x y \<le> 0) q'"
    by (rule sorted_wrt_cong_set) (use 22 set in \<open>simp add: ref_defs cmp_agree_def\<close>)
  with 22 show ?case
    using fst_ra_updates [of q'] set length_remove1 [of "q ! i" q]
    by (auto simp: ref_defs us r q' indices_ok_ra_updates)
next
  case (23 cmp q i cmp' b q' us f)
  let ?rest = "remove1 (q ! i) q"
  from 23 have q': "q' = ra_insort cmp' (q ! i) ?rest" and us: "us = ra_updates q'" and b: "b"
    by (auto simp: ref_defs ra_reheapify_at_def Let_def)
  have set: "set ?rest = set q - {q ! i}" and mem: "q ! i \<in> set q"
    using 23 by (simp_all add: ref_defs set_remove1_eq)
  have "sorted_wrt (\<lambda>x y. cmp x y \<le> 0) ?rest"
    using 23 by (simp add: ref_defs sorted_wrt_remove1)
  then have "sorted_wrt (\<lambda>x y. cmp' x y \<le> 0) ?rest"
    by (rule sorted_wrt_cong_set) (use 23 set in \<open>simp add: ref_defs cmp_agree_def\<close>)
  moreover have "cmp_order cmp' (insert (q ! i) (set ?rest))"
    using 23 set mem by (simp add: ref_defs insert_absorb)
  ultimately have sorted: "sorted_wrt (\<lambda>x y. cmp' x y \<le> 0) q'"
    by (simp add: q' sorted_ra_insort)
  have ms: "mset q' = mset q" using mem by (simp add: q' mset_ra_insort)
  have len: "length q' = length q" using arg_cong [OF ms, of size] by simp
  have "distinct q'" using 23 ms distinct_mset_eq [of q q'] by (simp add: ref_defs)
  moreover have "set q' = set q" using ms by (metis set_mset_mset)
  ultimately show ?case
    using b sorted ms len fst_ra_updates [of q'] 23 by (simp add: ref_defs us indices_ok_ra_updates)
qed

end
