(* ===== verification/Split_Config.thy ===== *)
theory Split_Config
  imports Sched_Types
begin

section \<open>Metadata lookup, cost estimate and split options\<close>

text \<open>
  \<^verbatim>\<open>src/qhw_split.c\<close>, \<^verbatim>\<open>src/policy/qhw_policy_metadata.c\<close> and the metadata and split arithmetic of
  \<^verbatim>\<open>src/qhw_scheduler.c\<close>. A lookup that returns 1 and stores through \<^verbatim>\<open>out_value\<close> is \<^term>\<open>Some\<close>; one
  that returns 0 and stores nothing is \<^term>\<open>None\<close>.
\<close>

subsection \<open>Metadata\<close>

fun metadata_scan :: "qhw_sched_kv list \<Rightarrow> u64 \<Rightarrow> u64 option" where
  "metadata_scan [] key = None"
| "metadata_scan (e # es) key =
     (if kv_key e = key \<and> kv_type e = QHW_SCHED_VALUE_U64 then Some (kv_bits e)
      else metadata_scan es key)"

definition metadata_get_u64 :: "kv_ref \<Rightarrow> u64 \<Rightarrow> u64 option" where
  "metadata_get_u64 m key = (if kv_is_null m then None else metadata_scan (kv_entries m) key)"

definition qhw_policy_metadata_get_u64 :: "kv_ref \<Rightarrow> u64 \<Rightarrow> u64 option" where
  "qhw_policy_metadata_get_u64 m key =
     (if kv_count m > 0 \<and> kv_is_null m then None else metadata_scan (kv_entries m) key)"

definition qhw_policy_task_estimated_cost :: "qhw_sched_task_desc \<Rightarrow> u64" where
  "qhw_policy_task_estimated_cost task =
     (if estimated_cost task \<noteq> 0 then estimated_cost task
      else if estimated_runtime_ns task \<noteq> 0 then estimated_runtime_ns task
      else
        case qhw_policy_metadata_get_u64 (metadata task) QHW_SCHED_META_ESTIMATED_RUNTIME_NS of
          Some runtime_ns \<Rightarrow>
            if runtime_ns \<noteq> 0 then runtime_ns
            else
              (case qhw_policy_metadata_get_u64 (metadata task) QHW_SCHED_META_SHOTS of
                Some shots \<Rightarrow> if shots \<noteq> 0 then shots else 1
              | None \<Rightarrow> 1)
        | None \<Rightarrow>
            (case qhw_policy_metadata_get_u64 (metadata task) QHW_SCHED_META_SHOTS of
              Some shots \<Rightarrow> if shots \<noteq> 0 then shots else 1
            | None \<Rightarrow> 1))"

subsection \<open>Split options\<close>

definition is_split_option :: "u64 \<Rightarrow> bool" where
  "is_split_option key \<longleftrightarrow>
     key = QHW_SCHED_OPT_SLICE_SHOT_THRESHOLD \<or> key = QHW_SCHED_OPT_SLICE_MAX_SHOTS \<or>
     key = QHW_SCHED_OPT_SLICE_MIN_REMAINDER_SHOTS \<or> key = QHW_SCHED_OPT_SLICE_MAX_CHILDREN"

definition set_config_u64 :: "qhw_sched_split_config \<Rightarrow> u64 \<Rightarrow> u64 \<Rightarrow> qhw_sched_split_config" where
  "set_config_u64 config key v =
     (if key = QHW_SCHED_OPT_SLICE_SHOT_THRESHOLD then config\<lparr>shot_threshold := v\<rparr>
      else if key = QHW_SCHED_OPT_SLICE_MAX_SHOTS then config\<lparr>max_shots := v\<rparr>
      else if key = QHW_SCHED_OPT_SLICE_MIN_REMAINDER_SHOTS then config\<lparr>min_remainder_shots := v\<rparr>
      else if key = QHW_SCHED_OPT_SLICE_MAX_CHILDREN then config\<lparr>max_children := v\<rparr>
      else config)"

definition qhw_sched_split_config_init :: qhw_sched_split_config where
  "qhw_sched_split_config_init = \<lparr>sc_struct_size = sizeof_split_config, shot_threshold = 0,
     max_shots = 0, min_remainder_shots = 0, max_children = 0, requested_shots = 0,
     slice_shots = 0, slice_count = 0, sc_flags = 0\<rparr>"

fun split_parse_loop ::
  "qhw_sched_split_config \<Rightarrow> qhw_sched_kv list \<Rightarrow> qhw_sched_rc \<times> qhw_sched_split_config" where
  "split_parse_loop config [] = (QHW_SCHED_OK, config)"
| "split_parse_loop config (e # es) =
     (if \<not> is_split_option (kv_key e) then split_parse_loop config es
      else if kv_type e \<noteq> QHW_SCHED_VALUE_U64 then (QHW_SCHED_ERR_INVALID_ARG, config)
      else split_parse_loop (set_config_u64 config (kv_key e) (kv_bits e)) es)"

definition qhw_sched_split_config_parse_options ::
  "qhw_sched_split_config \<Rightarrow> kv_ref \<Rightarrow> qhw_sched_rc \<times> qhw_sched_split_config" where
  "qhw_sched_split_config_parse_options config options =
     (if kv_count options > 0 \<and> kv_is_null options then (QHW_SCHED_ERR_INVALID_ARG, config)
      else split_parse_loop config (kv_entries options))"

subsection \<open>Deciding whether a task is split\<close>

definition min_nonzero :: "u64 \<Rightarrow> u64 \<Rightarrow> u64" where
  "min_nonzero left right =
     (if left = 0 then right else if right = 0 then left else if left < right then left else right)"

text \<open>
  \<^verbatim>\<open>split_decision\<close> is the part of \<^verbatim>\<open>compute_split_config\<close> after the policy has filled in the
  configuration: the return code, the configuration and \<^verbatim>\<open>*out_should_split\<close>. The flag
  \<^verbatim>\<open>has_splitter\<close> says whether a \<^verbatim>\<open>split_task\<close> callback is set. The comparison of \<^verbatim>\<open>child_count\<close> with
  \<^verbatim>\<open>(size_t)-1\<close> compares with the largest 64-bit word.
\<close>

definition split_decision ::
  "kv_ref \<Rightarrow> kv_ref \<Rightarrow> bool \<Rightarrow> qhw_sched_split_config \<Rightarrow>
   qhw_sched_rc \<times> qhw_sched_split_config \<times> bool" where
  "split_decision task_metadata qpu_metadata has_splitter config =
     (case metadata_get_u64 task_metadata QHW_SCHED_META_SHOTS of
        None \<Rightarrow> (QHW_SCHED_OK, config, False)
      | Some requested \<Rightarrow>
          let qpu_max_shots =
                (case metadata_get_u64 qpu_metadata QHW_SCHED_META_MAX_SHOTS of
                   None \<Rightarrow> 0 | Some v \<Rightarrow> v);
              limit = min_nonzero (max_shots config) qpu_max_shots
          in if limit = 0 then (QHW_SCHED_OK, config, False)
             else
               let threshold = shot_threshold config;
                   threshold = (if threshold = 0 then limit else threshold);
                   threshold = (if threshold = 0 \<or> limit < threshold then limit else threshold)
               in if requested \<le> threshold then (QHW_SCHED_OK, config, False)
                  else
                    let child_count = requested div limit;
                        child_count =
                          (if requested mod limit \<noteq> 0 then child_count + 1 else child_count)
                    in if max_children config \<noteq> 0 \<and> max_children config < child_count
                       then (QHW_SCHED_ERR_UNSUPPORTED, config, False)
                       else if UINT64_MAX < child_count
                       then (QHW_SCHED_ERR_UNSUPPORTED, config, False)
                       else if \<not> has_splitter then (QHW_SCHED_ERR_UNSUPPORTED, config, False)
                       else (QHW_SCHED_OK,
                             config\<lparr>requested_shots := requested, slice_shots := limit,
                                    slice_count := child_count\<rparr>, True))"

subsection \<open>Facts\<close>

lemma metadata_get_u64_eq_policy: "metadata_get_u64 m key = qhw_policy_metadata_get_u64 m key"
  by (cases m) (auto simp: metadata_get_u64_def qhw_policy_metadata_get_u64_def)

lemma metadata_scan_find:
  "metadata_scan es key =
     map_option kv_bits (List.find (\<lambda>e. kv_key e = key \<and> kv_type e = QHW_SCHED_VALUE_U64) es)"
  by (induction es) simp_all

lemma unat_ceil_div_u64:
  fixes a b :: u64
  assumes "b \<noteq> 0"
  shows "unat (if a mod b \<noteq> 0 then a div b + 1 else a div b) = ceil_div (unat a) (unat b)"
proof (cases "a mod b = 0")
  case True
  then have "unat a mod unat b = 0" by (metis unat_mod_distrib unat_0)
  with True show ?thesis by (simp add: ceil_div_def unat_div_distrib)
next
  case False
  have "unat b \<noteq> 1"
  proof
    assume "unat b = 1"
    then have "b = 1" by (metis unat_1 word_unat_eq_iff)
    with False show False by simp
  qed
  then have "1 < unat b" using assms by (metis less_one linorder_neqE_nat unat_eq_zero)
  moreover have "unat a mod unat b \<noteq> 0" using False by (metis unat_mod_distrib unat_eq_zero)
  then have "0 < unat a" by (cases "unat a = 0") simp_all
  ultimately have "unat a div unat b < unat a" by simp
  then have "unat (a div b) < 18446744073709551615"
    using unat_u64_le [of a] by (simp add: unat_div_distrib)
  then have "a div b \<noteq> UINT64_MAX" by auto
  then have "unat (a div b + 1) = unat a div unat b + 1" by (simp add: unat_u64_Suc unat_div_distrib)
  with False \<open>unat a mod unat b \<noteq> 0\<close> show ?thesis by (simp add: ceil_div_def)
qed

lemma split_decision_facts:
  assumes "split_decision tm qm has config = (rc, config', True)"
  shows "rc = QHW_SCHED_OK \<and> has \<and>
    metadata_get_u64 tm QHW_SCHED_META_SHOTS = Some (requested_shots config') \<and>
    0 < slice_shots config' \<and>
    (max_shots config \<noteq> 0 \<longrightarrow> slice_shots config' \<le> max_shots config) \<and>
    (\<forall>v. metadata_get_u64 qm QHW_SCHED_META_MAX_SHOTS = Some v \<longrightarrow> v \<noteq> 0 \<longrightarrow>
         slice_shots config' \<le> v) \<and>
    unat (slice_count config') =
      ceil_div (unat (requested_shots config')) (unat (slice_shots config')) \<and>
    0 < slice_count config' \<and>
    (max_children config \<noteq> 0 \<longrightarrow> slice_count config' \<le> max_children config) \<and>
    (shot_threshold config \<noteq> 0 \<longrightarrow>
       min (shot_threshold config) (slice_shots config') < requested_shots config')"
proof -
  define qm' where
    "qm' = (case metadata_get_u64 qm QHW_SCHED_META_MAX_SHOTS of None \<Rightarrow> 0 | Some v \<Rightarrow> v)"
  define limit where "limit = min_nonzero (max_shots config) qm'"
  define threshold where
    "threshold = (if shot_threshold config = 0 \<or> limit < shot_threshold config then limit
                  else shot_threshold config)"
  obtain requested where req: "metadata_get_u64 tm QHW_SCHED_META_SHOTS = Some requested"
    using assms by (cases "metadata_get_u64 tm QHW_SCHED_META_SHOTS") (auto simp: split_decision_def)
  define n where "n = (if requested mod limit \<noteq> 0 then requested div limit + 1 else requested div limit)"
  note unfolded = assms [unfolded split_decision_def req option.case Let_def,
      folded qm'_def limit_def]
  from unfolded have lim: "limit \<noteq> 0" and thr: "threshold < requested"
    and ch: "max_children config \<noteq> 0 \<longrightarrow> n \<le> max_children config"
    and res: "has" "rc = QHW_SCHED_OK"
      "config' = config\<lparr>requested_shots := requested, slice_shots := limit, slice_count := n\<rparr>"
    by (auto simp: threshold_def n_def not_less not_le split: if_splits)
  have "threshold \<noteq> 0" using lim by (auto simp: threshold_def)
  then have "0 < unat requested" using thr by (metis unat_eq_zero gr0I word_not_simps(1))
  moreover have n: "unat n = ceil_div (unat requested) (unat limit)"
    unfolding n_def by (rule unat_ceil_div_u64) (rule lim)
  moreover have "0 < unat limit" using lim by (simp add: unat_gt_0)
  ultimately have "0 < unat n" by (simp add: ceil_div_pos)
  then have "0 < n" by (simp add: unat_gt_0 word_greater_zero_iff)
  moreover have "max_shots config \<noteq> 0 \<longrightarrow> limit \<le> max_shots config" "qm' \<noteq> 0 \<longrightarrow> limit \<le> qm'"
    by (auto simp: limit_def min_nonzero_def)
  moreover have "shot_threshold config \<noteq> 0 \<longrightarrow> min (shot_threshold config) limit < requested"
    using thr by (auto simp: threshold_def min_def not_le not_less split: if_splits)
  moreover have "0 < limit" using lim by (simp add: word_greater_zero_iff)
  ultimately show ?thesis
    using res req ch n by (auto simp: qm'_def)
qed

text \<open>
  C29: When \<^verbatim>\<open>compute_split_config\<close> decides to split, the slice size is positive, respects the
  policy's and the QPU's maximum, the number of children is the least one whose slices can hold all
  requested shots, does not exceed the configured maximum of children, and only a task above the
  threshold is split.
\<close>

theorem split_decision_sound:
  assumes "split_decision tm qm has config = (rc, config', True)"
  shows "rc = QHW_SCHED_OK \<and> has \<and>
    metadata_get_u64 tm QHW_SCHED_META_SHOTS = Some (requested_shots config') \<and>
    0 < slice_shots config' \<and>
    (max_shots config \<noteq> 0 \<longrightarrow> slice_shots config' \<le> max_shots config) \<and>
    (\<forall>v. metadata_get_u64 qm QHW_SCHED_META_MAX_SHOTS = Some v \<longrightarrow> v \<noteq> 0 \<longrightarrow>
         slice_shots config' \<le> v) \<and>
    unat (slice_count config') =
      ceil_div (unat (requested_shots config')) (unat (slice_shots config')) \<and>
    0 < slice_count config' \<and>
    (max_children config \<noteq> 0 \<longrightarrow> slice_count config' \<le> max_children config) \<and>
    (shot_threshold config \<noteq> 0 \<longrightarrow>
       min (shot_threshold config) (slice_shots config') < requested_shots config')"
  by (rule split_decision_facts) (rule assms)

definition shots_kv :: "u64 \<Rightarrow> u64 \<Rightarrow> qhw_sched_kv" where
  "shots_kv key v = \<lparr>kv_key = key, kv_type = QHW_SCHED_VALUE_U64, kv_flags = 0, kv_bits = v\<rparr>"

theorem split_decision_sound_witness:
  "split_decision (KvArr [shots_kv QHW_SCHED_META_SHOTS 250])
     (KvArr [shots_kv QHW_SCHED_META_MAX_SHOTS 100]) True qhw_sched_split_config_init =
   (QHW_SCHED_OK, qhw_sched_split_config_init
      \<lparr>requested_shots := 250, slice_shots := 100, slice_count := 3\<rparr>, True) \<and>
   ceil_div 250 100 = 3"
proof -
  have "split_decision (KvArr [shots_kv QHW_SCHED_META_SHOTS 250])
     (KvArr [shots_kv QHW_SCHED_META_MAX_SHOTS 100]) True qhw_sched_split_config_init =
   (QHW_SCHED_OK, qhw_sched_split_config_init
      \<lparr>requested_shots := 250, slice_shots := 100, slice_count := 3\<rparr>, True)"
    by code_simp
  from this split_decision_sound [OF this] show ?thesis by simp
qed

text \<open>
  Parsing the split options keeps the last value of every option that occurs, leaves the other
  fields alone, and fails exactly when some split option does not carry an unsigned integer.
\<close>

theorem split_parse_options_last:
  "qhw_sched_split_config_parse_options config (KvArr opts) =
     (if \<exists>e\<in>set opts. is_split_option (kv_key e) \<and> kv_type e \<noteq> QHW_SCHED_VALUE_U64
      then (QHW_SCHED_ERR_INVALID_ARG,
            snd (qhw_sched_split_config_parse_options config
              (KvArr (takeWhile (\<lambda>e. if is_split_option (kv_key e) then kv_type e = QHW_SCHED_VALUE_U64 else True) opts))))
      else (QHW_SCHED_OK, config
        \<lparr>shot_threshold := last (shot_threshold config #
           [kv_bits e. e \<leftarrow> opts, kv_key e = QHW_SCHED_OPT_SLICE_SHOT_THRESHOLD]),
         max_shots := last (max_shots config #
           [kv_bits e. e \<leftarrow> opts, kv_key e = QHW_SCHED_OPT_SLICE_MAX_SHOTS]),
         min_remainder_shots := last (min_remainder_shots config #
           [kv_bits e. e \<leftarrow> opts, kv_key e = QHW_SCHED_OPT_SLICE_MIN_REMAINDER_SHOTS]),
         max_children := last (max_children config #
           [kv_bits e. e \<leftarrow> opts, kv_key e = QHW_SCHED_OPT_SLICE_MAX_CHILDREN])\<rparr>))"
proof -
  have "split_parse_loop config opts =
     (if \<exists>e\<in>set opts. is_split_option (kv_key e) \<and> kv_type e \<noteq> QHW_SCHED_VALUE_U64
      then (QHW_SCHED_ERR_INVALID_ARG,
            snd (split_parse_loop config
              (takeWhile (\<lambda>e. if is_split_option (kv_key e) then kv_type e = QHW_SCHED_VALUE_U64 else True) opts)))
      else (QHW_SCHED_OK, config
        \<lparr>shot_threshold := last (shot_threshold config #
           [kv_bits e. e \<leftarrow> opts, kv_key e = QHW_SCHED_OPT_SLICE_SHOT_THRESHOLD]),
         max_shots := last (max_shots config #
           [kv_bits e. e \<leftarrow> opts, kv_key e = QHW_SCHED_OPT_SLICE_MAX_SHOTS]),
         min_remainder_shots := last (min_remainder_shots config #
           [kv_bits e. e \<leftarrow> opts, kv_key e = QHW_SCHED_OPT_SLICE_MIN_REMAINDER_SHOTS]),
         max_children := last (max_children config #
           [kv_bits e. e \<leftarrow> opts, kv_key e = QHW_SCHED_OPT_SLICE_MAX_CHILDREN])\<rparr>))"
  proof (induction opts arbitrary: config)
    case (Cons e es)
    show ?case
    proof (cases "is_split_option (kv_key e)")
      case True
      then show ?thesis
        by (auto simp: Cons.IH set_config_u64_def is_split_option_def)
    next
      case False
      then show ?thesis by (auto simp: Cons.IH is_split_option_def)
    qed
  qed simp
  then show ?thesis by (simp add: qhw_sched_split_config_parse_options_def)
qed

end
