(* ===== verification/Indexed_Heap.thy ===== *)
theory Indexed_Heap
  imports Data_Structures "HOL-Library.Monad_Syntax"
begin

section \<open>Heaps of objects that know their position\<close>

text \<open>
  The policies keep heaps of pointers to objects of an arena. The heap calls back to compare two
  objects and to store the new position of an object it moved; \<^verbatim>\<open>qhw_heap_remove_at\<close> and
  \<^verbatim>\<open>qhw_heap_reheapify_at\<close> are then called with the stored position. The ready queues, the deadline
  refresh queue and the heap of groups of the ordered policy share this scheme, each with its own index
  field. This theory gives the comparison and the index callback over an arena, the invariant that the
  stored positions are right, and its preservation by every heap operation.
\<close>

text \<open>The comparison on pointers, and the sequence of writes of the index callback.\<close>

definition items_compare :: "('a \<Rightarrow> 'a \<Rightarrow> int) \<Rightarrow> 'a arena \<Rightarrow> heap_cmp" where
  "items_compare f A p q = (case (cells A p, cells A q) of (Some l, Some r) \<Rightarrow> f l r | _ \<Rightarrow> 0)"

fun write_indices :: "(nat \<Rightarrow> 'a \<Rightarrow> 'a) \<Rightarrow> index_updates \<Rightarrow> 'a arena \<Rightarrow> 'a arena option" where
  "write_indices f [] A = Some A"
| "write_indices f ((p, i) # us) A = do {
     t \<leftarrow> cells A p;
     write_indices f us (A\<lparr>cells := (cells A)(p \<mapsto> f i t)\<rparr>)
   }"

definition index_at :: "('a \<Rightarrow> nat) \<Rightarrow> 'a arena \<Rightarrow> ptr \<Rightarrow> nat" where
  "index_at get A p = (case cells A p of Some t \<Rightarrow> get t | None \<Rightarrow> 0)"

definition heap_ok ::
  "('h, 'l, 'q) ghost \<Rightarrow> ('a \<Rightarrow> nat) \<Rightarrow> ('a \<Rightarrow> 'a \<Rightarrow> int) \<Rightarrow> 'a arena \<Rightarrow> 'q \<Rightarrow> bool" where
  "heap_ok G get f A q \<longleftrightarrow>
     hp_ok G (items_compare f A) q \<and> cmp_order (items_compare f A) (set (hp_items G q)) \<and>
     distinct (hp_items G q) \<and> set (hp_items G q) \<subseteq> dom (cells A) \<and>
     indices_ok (index_at get A) (hp_items G q)"

text \<open>An arena in which only index fields of the objects in \<^verbatim>\<open>S\<close> changed.\<close>

definition moved :: "(nat \<Rightarrow> 'a \<Rightarrow> 'a) \<Rightarrow> ptr set \<Rightarrow> 'a arena \<Rightarrow> 'a arena \<Rightarrow> bool" where
  "moved put S A A' \<longleftrightarrow> brk A' = brk A \<and> (\<forall>p. p \<notin> S \<longrightarrow> cells A' p = cells A p) \<and>
     (\<forall>p. map_option (put 0) (cells A' p) = map_option (put 0) (cells A p))"

lemma apply_updates_Nil [simp]: "apply_updates [] g = g"
  by (simp add: apply_updates_def)

lemma apply_updates_Cons [simp]: "apply_updates ((p, i) # us) g = apply_updates us (g(p := i))"
  by (simp add: apply_updates_def)

lemma apply_updates_other: "p \<notin> fst ` set us \<Longrightarrow> apply_updates us g p = g p"
  by (induction us arbitrary: g) auto

lemma apply_updates_cong: "(\<And>p. p \<in> S \<Longrightarrow> g p = g' p) \<Longrightarrow> p \<in> S \<Longrightarrow> apply_updates us g p = apply_updates us g' p"
proof (induction us arbitrary: g g')
  case (Cons u us)
  obtain k i where u: "u = (k, i)" by force
  show ?case unfolding u apply_updates_Cons by (rule Cons.IH) (use Cons.prems in auto)
qed simp

lemma moved_refl [simp]: "moved put S A A"
  by (simp add: moved_def)

lemma moved_dom: "moved put S A A' \<Longrightarrow> cells A' p = None \<longleftrightarrow> cells A p = None"
  by (metis moved_def map_option_is_None)

lemma moved_arena_ok: "moved put S A A' \<Longrightarrow> arena_ok A \<Longrightarrow> arena_ok A'"
  using moved_dom [of put S A A'] by (auto simp: moved_def arena_ok_def)

lemma cmp_order_cong:
  assumes "\<And>x y. x \<in> S \<Longrightarrow> y \<in> S \<Longrightarrow> cmp x y = cmp' x y"
  shows "cmp_order cmp S = cmp_order cmp' S"
  unfolding cmp_order_def by (intro conj_cong ball_cong) (simp_all add: assms)

text \<open>The interface of an index field: reading, writing, and the laws of a field.\<close>

locale indexed_heap = datastructures D G
  for D :: "('h, 'l, 'q) ds" and G :: "('h, 'l, 'q) ghost" +
  fixes get :: "'a \<Rightarrow> nat" and put :: "nat \<Rightarrow> 'a \<Rightarrow> 'a"
  assumes get_put [simp]: "get (put i t) = i"
    and put_put [simp]: "put i (put j t) = put i t"
    and put_get [simp]: "put (get t) t = t"
begin

definition reindex :: "(ptr \<Rightarrow> nat) \<Rightarrow> 'a arena \<Rightarrow> 'a arena" where
  "reindex ix A = A\<lparr>cells := \<lambda>p. map_option (put (ix p)) (cells A p)\<rparr>"

lemma reindex_simps [simp]:
  "cells (reindex ix A) p = map_option (put (ix p)) (cells A p)" "brk (reindex ix A) = brk A"
  "dom (cells (reindex ix A)) = dom (cells A)"
  by (auto simp: reindex_def)

lemma index_at_reindex: "p \<in> dom (cells A) \<Longrightarrow> index_at get (reindex ix A) p = ix p"
  by (auto simp: index_at_def)

lemma write_indices_eq:
  "fst ` set us \<subseteq> dom (cells A) \<Longrightarrow>
   write_indices put us A = Some (reindex (apply_updates us (index_at get A)) A)"
proof (induction us arbitrary: A)
  case Nil
  have "map_option (put (index_at get A p)) (cells A p) = cells A p" for p
    by (cases "cells A p") (simp_all add: index_at_def)
  then show ?case by (simp add: reindex_def)
next
  case (Cons u us)
  obtain p i where u: "u = (p, i)" by force
  obtain t where t: "cells A p = Some t" using Cons.prems u by auto
  let ?A = "A\<lparr>cells := (cells A)(p \<mapsto> put i t)\<rparr>"
  have "index_at get ?A = (index_at get A)(p := i)" by (auto simp: index_at_def)
  moreover have "fst ` set us \<subseteq> dom (cells ?A)" using Cons.prems by auto
  ultimately have "write_indices put us ?A = Some (reindex (apply_updates us ((index_at get A)(p := i))) ?A)"
    by (metis Cons.IH)
  moreover have "reindex ix ?A = reindex ix A" for ix
    using t by (auto simp: reindex_def intro!: arg_cong [where f = "\<lambda>c. A\<lparr>cells := c\<rparr>"])
  ultimately show ?case using t u by simp
qed

lemma moved_reindex:
  assumes "fst ` set us \<subseteq> S"
  shows "moved put S A (reindex (apply_updates us (index_at get A)) A)"
proof -
  have "cells (reindex (apply_updates us (index_at get A)) A) p = cells A p" if "p \<notin> S" for p
  proof -
    have "apply_updates us (index_at get A) p = index_at get A p"
      by (rule apply_updates_other) (use that assms in blast)
    then show ?thesis by (cases "cells A p") (simp_all add: index_at_def)
  qed
  then show ?thesis by (simp add: moved_def option.map_comp o_def)
qed

definition stable :: "('a \<Rightarrow> 'a \<Rightarrow> int) \<Rightarrow> bool" where
  "stable f \<longleftrightarrow> (\<forall>i j x y. f (put i x) (put j y) = f x y)"

lemma compare_reindex: "stable f \<Longrightarrow> items_compare f (reindex ix A) = items_compare f A"
  by (auto simp: fun_eq_iff items_compare_def stable_def split: option.splits)

lemma heap_ok_reindex:
  assumes "stable f" "hp_ok G (items_compare f A) q" "cmp_order (items_compare f A) (set (hp_items G q))"
    "distinct (hp_items G q)" "set (hp_items G q) \<subseteq> dom (cells A)" "indices_ok ix (hp_items G q)"
  shows "heap_ok G get f (reindex ix A) q"
proof -
  have "index_at get (reindex ix A) (hp_items G q ! i) = ix (hp_items G q ! i)"
    if "i < length (hp_items G q)" for i
    by (rule index_at_reindex) (use assms(5) that nth_mem in auto)
  then have "indices_ok (index_at get (reindex ix A)) (hp_items G q)"
    using assms(6) by (auto simp: indices_ok_def)
  then show ?thesis using assms by (simp add: heap_ok_def compare_reindex)
qed

lemma after_move:
  assumes st: "stable f" and ok: "hp_ok G (items_compare f A) q'"
    "cmp_order (items_compare f A) (set (hp_items G q'))" "distinct (hp_items G q')"
    and us: "fst ` set us \<subseteq> S" and S: "S \<subseteq> dom (cells A)" "set (hp_items G q') \<subseteq> S"
    and ix: "indices_ok (apply_updates us (index_at get A)) (hp_items G q')"
  shows "\<exists>A'. write_indices put us A = Some A' \<and> moved put S A A' \<and> heap_ok G get f A' q'"
proof -
  let ?A = "reindex (apply_updates us (index_at get A)) A"
  have "heap_ok G get f ?A q'" by (rule heap_ok_reindex) (use assms in auto)
  moreover have "write_indices put us A = Some ?A" by (rule write_indices_eq) (use us S in auto)
  ultimately show ?thesis using moved_reindex [OF us] by blast
qed

lemma push_ok:
  assumes ok: "heap_ok G get f A q" and st: "stable f" and p: "p \<notin> set (hp_items G q)" "p \<in> dom (cells A)"
    and ord: "cmp_order (items_compare f A) (insert p (set (hp_items G q)))"
    and call: "heap_push D (items_compare f A) q p m = (b, q', us, m')"
  shows "\<exists>A'. write_indices put us A = Some A' \<and> moved put (insert p (set (hp_items G q))) A A' \<and>
    heap_ok G get f A' q' \<and>
    (if b then mset (hp_items G q') = add_mset p (mset (hp_items G q))
     else A' = A \<and> hp_items G q' = hp_items G q)"
proof -
  have h: "hp_ok G (items_compare f A) q" "distinct (hp_items G q)"
    "indices_ok (index_at get A) (hp_items G q)" "set (hp_items G q) \<subseteq> dom (cells A)"
    using ok by (simp_all add: heap_ok_def)
  show ?thesis
  proof (cases b)
    case True
    with call have call': "heap_push D (items_compare f A) q p m = (True, q', us, m')" by simp
    note push = hp_push_ok [OF h(1) ord p(1) h(2) call', of "index_at get A"]
    then have ms: "mset (hp_items G q') = add_mset p (mset (hp_items G q))" by simp
    then have set': "set (hp_items G q') = insert p (set (hp_items G q))"
      by (metis set_mset_add_mset_insert set_mset_mset)
    have "distinct (hp_items G q')"
      using ms h(2) p(1) by (metis distinct.simps(2) mset.simps(2) mset_eq_imp_distinct_iff)
    then have "\<exists>A'. write_indices put us A = Some A' \<and> moved put (insert p (set (hp_items G q))) A A' \<and>
        heap_ok G get f A' q'"
      by (intro after_move [OF st]) (use push set' ord h p in auto)
    then show ?thesis using True ms by auto
  next
    case False
    with call have call': "heap_push D (items_compare f A) q p m = (False, q', us, m')" by simp
    show ?thesis using hp_push_fail [OF h(1) p(1) call'] False ok by (simp add: heap_ok_def)
  qed
qed

lemma items_diff:
  assumes "distinct (hp_items G q)" "mset (hp_items G q') = mset (hp_items G q) - {#p#}"
  shows "distinct (hp_items G q')" "set (hp_items G q') = set (hp_items G q) - {p}"
proof -
  have "mset (hp_items G q') = mset (remove1 p (hp_items G q))" using assms(2) by simp
  then have "distinct (hp_items G q')" "set (hp_items G q') = set (remove1 p (hp_items G q))"
    using assms(1) by (metis distinct_remove1 mset_eq_imp_distinct_iff, metis mset_eq_setD)
  then show "distinct (hp_items G q')" "set (hp_items G q') = set (hp_items G q) - {p}"
    using assms(1) by (simp_all add: set_remove1_eq)
qed

lemma pop_ok:
  assumes ok: "heap_ok G get f A q" and st: "stable f"
    and call: "heap_pop D (items_compare f A) q = (r, q', us)"
  shows "\<exists>A'. write_indices put us A = Some A' \<and> moved put (set (hp_items G q)) A A' \<and>
    heap_ok G get f A' q' \<and> r = heap_peek D q \<and>
    (case r of
       None \<Rightarrow> hp_items G q = [] \<and> hp_items G q' = []
     | Some p \<Rightarrow> p \<in> set (hp_items G q) \<and> (\<forall>x \<in> set (hp_items G q). items_compare f A p x \<le> 0) \<and>
         mset (hp_items G q') = mset (hp_items G q) - {#p#})"
proof -
  have h: "hp_ok G (items_compare f A) q" "cmp_order (items_compare f A) (set (hp_items G q))"
    "distinct (hp_items G q)" "indices_ok (index_at get A) (hp_items G q)"
    "set (hp_items G q) \<subseteq> dom (cells A)"
    using ok by (simp_all add: heap_ok_def)
  show ?thesis
  proof (cases "hp_items G q = []")
    case True
    then show ?thesis using hp_pop_none [OF True call] hp_peek_none [OF True] h
      by (auto simp: heap_ok_def indices_ok_def cmp_order_def)
  next
    case False
    note pop = hp_pop_some [OF h(1,2) False h(3) call, of "index_at get A"]
    from hp_peek_some [OF h(1,2) False] obtain p where
      p: "heap_peek D q = Some p" "p \<in> set (hp_items G q)" "\<forall>x \<in> set (hp_items G q). items_compare f A p x \<le> 0"
      by blast
    then have r: "r = Some p" and ms: "mset (hp_items G q') = mset (hp_items G q) - {#p#}" using pop by auto
    note d = items_diff [OF h(3) ms]
    have "\<exists>A'. write_indices put us A = Some A' \<and> moved put (set (hp_items G q)) A A' \<and> heap_ok G get f A' q'"
      by (rule after_move [OF st])
        (use pop h d cmp_order_subset [OF h(2), of "set (hp_items G q')"] in auto)
    then show ?thesis using r p ms by auto
  qed
qed

text \<open>
  The object at position \<^verbatim>\<open>i\<close> may have changed since the heap was last in order; the others compare as
  they did.
\<close>

lemma remove_at_ok:
  assumes hp: "hp_ok G cmp q" and dist: "distinct (hp_items G q)" and dom: "set (hp_items G q) \<subseteq> dom (cells A)"
    and ix: "indices_ok (index_at get A) (hp_items G q)" and p: "p \<in> set (hp_items G q)" "index_at get A p = i"
    and agree: "cmp_agree cmp (items_compare f A) (set (hp_items G q) - {p})"
    and ord: "cmp_order (items_compare f A) (set (hp_items G q) - {p})" and st: "stable f"
    and call: "heap_remove_at D (items_compare f A) q i = (r, q', us)"
  shows "\<exists>A'. write_indices put us A = Some A' \<and> moved put (set (hp_items G q)) A A' \<and>
    heap_ok G get f A' q' \<and> r = Some p \<and> mset (hp_items G q') = mset (hp_items G q) - {#p#}"
proof -
  have i: "i < length (hp_items G q)" "hp_items G q ! i = p"
    using ix p unfolding indices_ok_def by (metis in_set_conv_nth)+
  note rem = hp_remove_at [OF hp i(1) dist, unfolded i(2), OF agree ord call, of "index_at get A"]
  then have ms: "mset (hp_items G q') = mset (hp_items G q) - {#p#}" by simp
  note d = items_diff [OF dist ms]
  have "\<exists>A'. write_indices put us A = Some A' \<and> moved put (set (hp_items G q)) A A' \<and> heap_ok G get f A' q'"
    by (rule after_move [OF st]) (use rem d ix dom ord in auto)
  then show ?thesis using rem ms by auto
qed

lemma reheapify_ok:
  assumes hp: "hp_ok G cmp q" and dist: "distinct (hp_items G q)" and dom: "set (hp_items G q) \<subseteq> dom (cells A)"
    and ix: "indices_ok (index_at get A) (hp_items G q)" and p: "p \<in> set (hp_items G q)" "index_at get A p = i"
    and agree: "cmp_agree cmp (items_compare f A) (set (hp_items G q) - {p})"
    and ord: "cmp_order (items_compare f A) (set (hp_items G q))" and st: "stable f"
    and call: "heap_reheapify_at D (items_compare f A) q i = (b, q', us)"
  shows "\<exists>A'. write_indices put us A = Some A' \<and> moved put (set (hp_items G q)) A A' \<and>
    heap_ok G get f A' q' \<and> b \<and> mset (hp_items G q') = mset (hp_items G q)"
proof -
  have i: "i < length (hp_items G q)" "hp_items G q ! i = p"
    using ix p unfolding indices_ok_def by (metis in_set_conv_nth)+
  note reh = hp_reheapify_at [OF hp i(1) dist, unfolded i(2), OF agree ord call, of "index_at get A"]
  then have ms: "mset (hp_items G q') = mset (hp_items G q)" by simp
  then have d: "distinct (hp_items G q')" "set (hp_items G q') = set (hp_items G q)"
    using dist by (metis mset_eq_imp_distinct_iff, metis mset_eq_setD)
  have "\<exists>A'. write_indices put us A = Some A' \<and> moved put (set (hp_items G q)) A A' \<and> heap_ok G get f A' q'"
    by (rule after_move [OF st]) (use reh d ix dom ord in auto)
  then show ?thesis using reh ms by auto
qed

end

end
