(* ===== verification/Ready_Queue.thy ===== *)
theory Ready_Queue
  imports Split_Config Runtime Indexed_Heap
begin

unbundle bit_operations_syntax

section \<open>Ready queues\<close>

text \<open>
  \<^verbatim>\<open>src/policy/qhw_ready_queue.c\<close>: the queue of ready tasks that the FIFO, priority and ordered
  policies keep. A queue is a list in arrival order or a heap over a comparison, with a hash table
  from task ids to the queued items.

  The items live in an arena that belongs to the policy, because an item of one queue may be referred
  to by other structures of the policy (the deadline refresh heap). The comparison is stored with its
  user data applied: no policy changes that data after the queue is created. The heap compares the
  items as they are when it is called, and writes their positions back through the index callback.
\<close>

subsection \<open>Items and queues\<close>

datatype qhw_ready_queue_kind = QHW_READY_QUEUE_FIFO | QHW_READY_QUEUE_HEAP

abbreviation (input) QHW_READY_QUEUE_F_ESTIMATE_COST :: u32 where "QHW_READY_QUEUE_F_ESTIMATE_COST \<equiv> 1"
abbreviation (input) QHW_READY_QUEUE_BUCKETS :: nat where "QHW_READY_QUEUE_BUCKETS \<equiv> 4096"

record qhw_ready_task =
  rt_desc :: qhw_sched_task_desc
  base_priority :: i64
  effective_priority :: i64
  rt_estimated_cost :: u64
  next_refresh_ns :: u64
  seq :: u64
  heap_index :: nat
  refresh_heap_index :: nat

type_synonym items = "qhw_ready_task arena"

record ('h, 'l, 'q) qhw_ready_queue =
  rq_kind :: qhw_ready_queue_kind
  rq_compare :: "(qhw_ready_task \<Rightarrow> qhw_ready_task \<Rightarrow> int) option"
  rq_flags :: u32
  rq_fifo :: 'l
  rq_heap :: "'q option"
  rq_by_id :: 'h
  rq_next_seq :: u64

definition ready_heap_compare :: "('h, 'l, 'q) qhw_ready_queue \<Rightarrow> items \<Rightarrow> heap_cmp" where
  "ready_heap_compare rq A = items_compare (case rq_compare rq of Some f \<Rightarrow> f | None \<Rightarrow> (\<lambda>_ _. 0)) A"

definition ready_heap_update_index :: "index_updates \<Rightarrow> items \<Rightarrow> items option" where
  "ready_heap_update_index = write_indices (\<lambda>i t. t\<lparr>heap_index := i\<rparr>)"

subsection \<open>Operations\<close>

definition qhw_ready_queue_init ::
  "('h, 'l, 'q) ds \<Rightarrow> qhw_ready_queue_kind \<Rightarrow> u32 \<Rightarrow> (qhw_ready_task \<Rightarrow> qhw_ready_task \<Rightarrow> int) option \<Rightarrow>
   mem \<Rightarrow> qhw_sched_rc \<times> ('h, 'l, 'q) qhw_ready_queue option \<times> mem" where
  "qhw_ready_queue_init D kind flags compare m =
     (if kind = QHW_READY_QUEUE_HEAP \<and> compare = None then (QHW_SCHED_ERR_INVALID_ARG, None, m)
      else
        case hash_table_init D QHW_READY_QUEUE_BUCKETS m of
          (None, m) \<Rightarrow> (QHW_SCHED_ERR_NO_MEMORY, None, m)
        | (Some h, m) \<Rightarrow>
            let rq = \<lparr>rq_kind = kind, rq_compare = compare, rq_flags = flags, rq_fifo = list_init D,
                      rq_heap = None, rq_by_id = h, rq_next_seq = 1\<rparr>
            in if kind = QHW_READY_QUEUE_HEAP then
                 (case heap_init D m of
                    (None, m) \<Rightarrow> (QHW_SCHED_ERR_NO_MEMORY, None, m)
                  | (Some q, m) \<Rightarrow> (QHW_SCHED_OK, Some (rq\<lparr>rq_heap := Some q\<rparr>), m))
               else (QHW_SCHED_OK, Some rq, m))"

text \<open>The two loops of the destructor, over the items that are left.\<close>

partial_function (option) drain_heap ::
  "('h, 'l, 'q) ds \<Rightarrow> ('h, 'l, 'q) qhw_ready_queue \<Rightarrow> 'q \<Rightarrow> items \<Rightarrow> items option" where
  "drain_heap D rq q A =
     (case heap_pop D (ready_heap_compare rq A) q of
        (None, q, us) \<Rightarrow> ready_heap_update_index us A
      | (Some p, q, us) \<Rightarrow> do {
          A \<leftarrow> ready_heap_update_index us A;
          A \<leftarrow> arena_free p A;
          drain_heap D rq q A
        })"

partial_function (option) drain_fifo :: "('h, 'l, 'q) ds \<Rightarrow> 'l \<Rightarrow> items \<Rightarrow> items option" where
  "drain_fifo D l A =
     (case list_next D l None of
        None \<Rightarrow> Some A
      | Some _ \<Rightarrow>
          (case list_pop_front D l of
             (None, l) \<Rightarrow> None
           | (Some p, l) \<Rightarrow> do {
               A \<leftarrow> arena_free p A;
               drain_fifo D l A
             }))"

definition qhw_ready_queue_fini ::
  "('h, 'l, 'q) ds \<Rightarrow> ('h, 'l, 'q) qhw_ready_queue \<Rightarrow> items \<Rightarrow> items option" where
  "qhw_ready_queue_fini D rq A =
     (if rq_kind rq = QHW_READY_QUEUE_HEAP then do {
        q \<leftarrow> rq_heap rq;
        drain_heap D rq q A
      }
      else drain_fifo D (rq_fifo rq) A)"

text \<open>A new item; \<^verbatim>\<open>invalid\<close> is the index of an item that is in no heap.\<close>

definition new_ready_task :: "('h, 'l, 'q) qhw_ready_queue \<Rightarrow> nat \<Rightarrow> qhw_sched_task_desc \<Rightarrow> qhw_ready_task" where
  "new_ready_task rq invalid task =
     \<lparr>rt_desc = task, base_priority = priority task, effective_priority = priority task,
      rt_estimated_cost =
        (if rq_flags rq AND QHW_READY_QUEUE_F_ESTIMATE_COST \<noteq> 0
         then qhw_policy_task_estimated_cost task else 1),
      next_refresh_ns = UINT64_MAX, seq = rq_next_seq rq, heap_index = 0,
      refresh_heap_index = invalid\<rparr>"

definition qhw_ready_queue_insert ::
  "('h, 'l, 'q) ds \<Rightarrow> ('h, 'l, 'q) qhw_ready_queue \<Rightarrow> items \<Rightarrow> qhw_sched_task_desc \<Rightarrow> mem \<Rightarrow>
   (qhw_sched_rc \<times> ('h, 'l, 'q) qhw_ready_queue \<times> items \<times> mem) option" where
  "qhw_ready_queue_insert D rq A task m =
     (if hash_table_find D (rq_by_id rq) (task_id task) \<noteq> None
      then Some (QHW_SCHED_ERR_EXISTS, rq, A, m)
      else
        case mem_alloc m of
          (False, m) \<Rightarrow> Some (QHW_SCHED_ERR_NO_MEMORY, rq, A, m)
        | (True, m) \<Rightarrow>
            let (p, A) = arena_alloc (new_ready_task rq (heap_invalid_index D) task) A;
                rq = rq\<lparr>rq_next_seq := rq_next_seq rq + 1\<rparr>;
                (ins, h, m) = hash_table_insert D (rq_by_id rq) (task_id task) p m;
                rq = rq\<lparr>rq_by_id := h\<rparr>
            in if \<not> ins then do {
                 A \<leftarrow> arena_free p A;
                 Some (QHW_SCHED_ERR_NO_MEMORY, rq, A, m)
               }
               else if rq_kind rq = QHW_READY_QUEUE_HEAP then do {
                 q \<leftarrow> rq_heap rq;
                 let (ok, q, us, m) = heap_push D (ready_heap_compare rq A) q p m;
                 let rq = rq\<lparr>rq_heap := Some q\<rparr>;
                 A \<leftarrow> ready_heap_update_index us A;
                 if \<not> ok then do {
                   let rq = rq\<lparr>rq_by_id := snd (hash_table_remove D (rq_by_id rq) (task_id task))\<rparr>;
                   A \<leftarrow> arena_free p A;
                   Some (QHW_SCHED_ERR_NO_MEMORY, rq, A, m)
                 }
                 else Some (QHW_SCHED_OK, rq, A, m)
               }
               else Some (QHW_SCHED_OK, rq\<lparr>rq_fifo := list_push_back D (rq_fifo rq) p\<rparr>, A, m))"

text \<open>Taking the next item out of its list or heap.\<close>

definition ready_take ::
  "('h, 'l, 'q) ds \<Rightarrow> ('h, 'l, 'q) qhw_ready_queue \<Rightarrow> items \<Rightarrow>
   (ptr option \<times> ('h, 'l, 'q) qhw_ready_queue \<times> items) option" where
  "ready_take D rq A =
     (if rq_kind rq = QHW_READY_QUEUE_HEAP then do {
        q \<leftarrow> rq_heap rq;
        let (task, q, us) = heap_pop D (ready_heap_compare rq A) q;
        A \<leftarrow> ready_heap_update_index us A;
        Some (task, rq\<lparr>rq_heap := Some q\<rparr>, A)
      }
      else
        let (node, l) = list_pop_front D (rq_fifo rq)
        in Some (node, rq\<lparr>rq_fifo := l\<rparr>, A))"

definition qhw_ready_queue_pop ::
  "('h, 'l, 'q) ds \<Rightarrow> ('h, 'l, 'q) qhw_ready_queue \<Rightarrow> items \<Rightarrow>
   (qhw_sched_rc \<times> u64 option \<times> ('h, 'l, 'q) qhw_ready_queue \<times> items) option" where
  "qhw_ready_queue_pop D rq A = do {
     (task, rq, A) \<leftarrow> ready_take D rq A;
     case task of
       None \<Rightarrow> Some (QHW_SCHED_ERR_NOT_FOUND, None, rq, A)
     | Some p \<Rightarrow> do {
         t \<leftarrow> cells A p;
         let rq = rq\<lparr>rq_by_id := snd (hash_table_remove D (rq_by_id rq) (task_id (rt_desc t)))\<rparr>;
         A \<leftarrow> arena_free p A;
         Some (QHW_SCHED_OK, Some (task_id (rt_desc t)), rq, A)
       }
   }"

definition qhw_ready_queue_peek ::
  "('h, 'l, 'q) ds \<Rightarrow> ('h, 'l, 'q) qhw_ready_queue \<Rightarrow> ptr option option" where
  "qhw_ready_queue_peek D rq =
     (if rq_kind rq = QHW_READY_QUEUE_HEAP then do {
        q \<leftarrow> rq_heap rq;
        Some (heap_peek D q)
      }
      else Some (list_next D (rq_fifo rq) None))"

definition qhw_ready_queue_find :: "('h, 'l, 'q) ds \<Rightarrow> ('h, 'l, 'q) qhw_ready_queue \<Rightarrow> u64 \<Rightarrow> ptr option" where
  "qhw_ready_queue_find D rq tid = hash_table_find D (rq_by_id rq) tid"

definition qhw_ready_queue_remove ::
  "('h, 'l, 'q) ds \<Rightarrow> ('h, 'l, 'q) qhw_ready_queue \<Rightarrow> items \<Rightarrow> u64 \<Rightarrow>
   (qhw_sched_rc \<times> ('h, 'l, 'q) qhw_ready_queue \<times> items) option" where
  "qhw_ready_queue_remove D rq A tid =
     (case hash_table_find D (rq_by_id rq) tid of
        None \<Rightarrow> Some (QHW_SCHED_ERR_NOT_FOUND, rq, A)
      | Some p \<Rightarrow> do {
          t \<leftarrow> cells A p;
          (found, rq, A) \<leftarrow>
            (if rq_kind rq = QHW_READY_QUEUE_HEAP then do {
               q \<leftarrow> rq_heap rq;
               let (r, q, us) = heap_remove_at D (ready_heap_compare rq A) q (heap_index t);
               A \<leftarrow> ready_heap_update_index us A;
               Some (r = Some p, rq\<lparr>rq_heap := Some q\<rparr>, A)
             }
             else Some (True, rq\<lparr>rq_fifo := list_remove D (rq_fifo rq) p\<rparr>, A));
          if \<not> found then Some (QHW_SCHED_ERR_STATE, rq, A)
          else do {
            let rq = rq\<lparr>rq_by_id := snd (hash_table_remove D (rq_by_id rq) tid)\<rparr>;
            A \<leftarrow> arena_free p A;
            Some (QHW_SCHED_OK, rq, A)
          }
        })"

definition qhw_ready_queue_reorder ::
  "('h, 'l, 'q) ds \<Rightarrow> ('h, 'l, 'q) qhw_ready_queue \<Rightarrow> items \<Rightarrow> ptr \<Rightarrow>
   (qhw_sched_rc \<times> ('h, 'l, 'q) qhw_ready_queue \<times> items) option" where
  "qhw_ready_queue_reorder D rq A p =
     (if rq_kind rq \<noteq> QHW_READY_QUEUE_HEAP then Some (QHW_SCHED_OK, rq, A)
      else do {
        t \<leftarrow> cells A p;
        q \<leftarrow> rq_heap rq;
        let (ok, q, us) = heap_reheapify_at D (ready_heap_compare rq A) q (heap_index t);
        A \<leftarrow> ready_heap_update_index us A;
        Some (if ok then QHW_SCHED_OK else QHW_SCHED_ERR_STATE, rq\<lparr>rq_heap := Some q\<rparr>, A)
      })"

subsection \<open>Invariant\<close>

definition rq_elems :: "('h, 'l, 'q) ghost \<Rightarrow> ('h, 'l, 'q) qhw_ready_queue \<Rightarrow> ptr list" where
  "rq_elems G rq =
     (case rq_kind rq of
        QHW_READY_QUEUE_FIFO \<Rightarrow> l_elems G (rq_fifo rq)
      | QHW_READY_QUEUE_HEAP \<Rightarrow> (case rq_heap rq of None \<Rightarrow> [] | Some q \<Rightarrow> hp_items G q))"

text \<open>A comparison that orders all items and does not look at their heap position.\<close>

definition compare_ok :: "(qhw_ready_task \<Rightarrow> qhw_ready_task \<Rightarrow> int) \<Rightarrow> bool" where
  "compare_ok f \<longleftrightarrow>
     (\<forall>x y. (f x y < 0 \<longleftrightarrow> 0 < f y x) \<and> (f x y \<le> 0 \<or> f y x \<le> 0)) \<and>
     (\<forall>x y z. f x y \<le> 0 \<longrightarrow> f y z \<le> 0 \<longrightarrow> f x z \<le> 0) \<and>
     (\<forall>x y i j. f (x\<lparr>heap_index := i\<rparr>) (y\<lparr>heap_index := j\<rparr>) = f x y)"

definition shape_ok :: "('h, 'l, 'q) ghost \<Rightarrow> ('h, 'l, 'q) qhw_ready_queue \<Rightarrow> items \<Rightarrow> bool" where
  "shape_ok G rq A =
     (case rq_kind rq of
        QHW_READY_QUEUE_FIFO \<Rightarrow> l_inv G (rq_fifo rq)
      | QHW_READY_QUEUE_HEAP \<Rightarrow>
          (case (rq_compare rq, rq_heap rq) of
             (Some f, Some q) \<Rightarrow> compare_ok f \<and> heap_ok G heap_index f A q
           | _ \<Rightarrow> False))"

lemma shape_simps [simp]:
  "rq_elems G (rq\<lparr>rq_next_seq := n\<rparr>) = rq_elems G rq" "rq_elems G (rq\<lparr>rq_by_id := h\<rparr>) = rq_elems G rq"
  "shape_ok G (rq\<lparr>rq_next_seq := n\<rparr>) A = shape_ok G rq A" "shape_ok G (rq\<lparr>rq_by_id := h\<rparr>) A = shape_ok G rq A"
  by (auto simp: rq_elems_def shape_ok_def split: qhw_ready_queue_kind.split option.split)

definition task_at :: "items \<Rightarrow> ptr \<Rightarrow> u64 option" where
  "task_at A p = map_option (task_id \<circ> rt_desc) (cells A p)"

definition ready_ok ::
  "('h, 'l, 'q) ds \<Rightarrow> ('h, 'l, 'q) ghost \<Rightarrow> ('h, 'l, 'q) qhw_ready_queue \<Rightarrow> items \<Rightarrow> bool" where
  "ready_ok D G rq A \<longleftrightarrow> arena_ok A \<and> ht_inv G (rq_by_id rq) \<and> shape_ok G rq A \<and>
     set (rq_elems G rq) \<subseteq> dom (cells A) \<and>
     (\<forall>k p. hash_table_find D (rq_by_id rq) k = Some p \<longleftrightarrow> p \<in> set (rq_elems G rq) \<and> task_at A p = Some k)"

text \<open>The ids in the queue.\<close>

definition rq_ids :: "('h, 'l, 'q) ds \<Rightarrow> ('h, 'l, 'q) qhw_ready_queue \<Rightarrow> u64 set" where
  "rq_ids D rq = dom (hash_table_find D (rq_by_id rq))"

definition same_setup :: "('h, 'l, 'q) qhw_ready_queue \<Rightarrow> ('h, 'l, 'q) qhw_ready_queue \<Rightarrow> bool" where
  "same_setup rq rq' \<longleftrightarrow> rq_kind rq' = rq_kind rq \<and> rq_compare rq' = rq_compare rq \<and> rq_flags rq' = rq_flags rq"

abbreviation (input) put_index :: "nat \<Rightarrow> qhw_ready_task \<Rightarrow> qhw_ready_task" where
  "put_index \<equiv> \<lambda>i t. t\<lparr>heap_index := i\<rparr>"

sublocale datastructures \<subseteq> hx: indexed_heap D G heap_index put_index
  by unfold_locales simp_all

lemma task_at_moved: "moved put_index S A A' \<Longrightarrow> task_at A' p = task_at A p"
proof -
  assume "moved put_index S A A'"
  then have *: "map_option (put_index 0) (cells A' p) = map_option (put_index 0) (cells A p)"
    by (simp add: moved_def)
  show ?thesis using arg_cong [OF *, of "map_option (task_id \<circ> rt_desc)"]
    by (simp add: task_at_def option.map_comp o_def)
qed

lemma compare_ok_order:
  assumes "compare_ok f" "S \<subseteq> dom (cells A)"
  shows "cmp_order (items_compare f A) S"
proof -
  have eq: "items_compare f A x y = f (the (cells A x)) (the (cells A y))" if xy: "x \<in> S" "y \<in> S" for x y
  proof -
    obtain a b where "cells A x = Some a" "cells A y = Some b" using xy assms(2) by blast
    then show ?thesis by (simp add: items_compare_def)
  qed
  have tr: "f a b \<le> 0 \<Longrightarrow> f b c \<le> 0 \<Longrightarrow> f a c \<le> 0" and as: "(f a b < 0) = (0 < f b a)" "f a b \<le> 0 \<or> f b a \<le> 0"
    for a b c using assms(1) unfolding compare_ok_def by blast+
  show ?thesis unfolding cmp_order_def
    by (intro conjI ballI impI) (simp_all add: eq as, rule tr)
qed

context datastructures
begin

lemma compare_ok_stable: "compare_ok f \<Longrightarrow> hx.stable f"
  by (simp add: compare_ok_def hx.stable_def)

lemma ready_distinct: "ready_ok D G rq A \<Longrightarrow> distinct (rq_elems G rq)"
  by (auto simp: ready_ok_def shape_ok_def rq_elems_def heap_ok_def l_inv_distinct
      split: qhw_ready_queue_kind.splits option.splits)

lemma ready_task_at: "ready_ok D G rq A \<Longrightarrow> p \<in> set (rq_elems G rq) \<Longrightarrow>
  \<exists>t. cells A p = Some t \<and> hash_table_find D (rq_by_id rq) (task_id (rt_desc t)) = Some p"
  by (fastforce simp: ready_ok_def task_at_def)

lemma ready_find: "ready_ok D G rq A \<Longrightarrow> hash_table_find D (rq_by_id rq) k = Some p \<Longrightarrow>
  p \<in> set (rq_elems G rq) \<and> (\<exists>t. cells A p = Some t \<and> task_id (rt_desc t) = k)"
  by (auto simp: ready_ok_def task_at_def)

lemma ready_inj:
  assumes ok: "ready_ok D G rq A"
  shows "inj_on (\<lambda>p. the (task_at A p)) (set (rq_elems G rq))"
proof (rule inj_onI)
  fix p q
  assume p: "p \<in> set (rq_elems G rq)" and q: "q \<in> set (rq_elems G rq)" and eq: "the (task_at A p) = the (task_at A q)"
  from ready_task_at [OF ok p] ready_task_at [OF ok q] eq show "p = q" by (auto simp: task_at_def)
qed

lemma rq_ids_empty: "ready_ok D G rq A \<Longrightarrow> rq_ids D rq = {} \<longleftrightarrow> rq_elems G rq = []"
proof
  assume ok: "ready_ok D G rq A"
  show "rq_elems G rq = []" if "rq_ids D rq = {}"
  proof (rule ccontr)
    assume "rq_elems G rq \<noteq> []"
    then have "hd (rq_elems G rq) \<in> set (rq_elems G rq)" by simp
    from ready_task_at [OF ok this] that show False by (auto simp: rq_ids_def)
  qed
  show "rq_ids D rq = {}" if "rq_elems G rq = []"
    using that ready_find [OF ok] by (fastforce simp: rq_ids_def)
qed

text \<open>Creation.\<close>

lemma ready_init_ok:
  assumes call: "qhw_ready_queue_init D kind flags compare m = (rc, rq, m')"
    and cmp: "\<And>f. compare = Some f \<Longrightarrow> compare_ok f" and A: "arena_ok A"
  shows "(rc = QHW_SCHED_OK) = (rq \<noteq> None) \<and>
    (\<forall>q. rq = Some q \<longrightarrow> ready_ok D G q A \<and> rq_elems G q = [] \<and> rq_ids D q = {} \<and>
       rq_kind q = kind \<and> rq_compare q = compare \<and> rq_flags q = flags)"
proof -
  have "ht_inv G h \<and> hash_table_find D h = Map.empty" if "hash_table_init D n m0 = (Some h, m1)" for h n m0 m1
    using ht_init [OF that] by auto
  moreover have "heap_ok G heap_index f A q \<and> hp_items G q = []" if "heap_init D m0 = (Some q, m1)" for f q m0 m1
    using hp_init [OF that] by (simp add: heap_ok_def cmp_order_def indices_ok_def)
  ultimately show ?thesis using call cmp A l_init
    by (auto simp: qhw_ready_queue_init_def Let_def ready_ok_def shape_ok_def rq_elems_def rq_ids_def
        split: if_splits prod.splits option.splits qhw_ready_queue_kind.splits)
qed

text \<open>
  The same queue with an arena in which only heap positions of its own items moved. The shape of the
  queue after the move is a premise.
\<close>

lemma ready_ok_moved:
  assumes ok: "ready_ok D G rq A" and mv: "moved put_index S A A'" and sh: "shape_ok G rq' A'"
    and el: "set (rq_elems G rq') = set (rq_elems G rq)" and h: "rq_by_id rq' = rq_by_id rq"
  shows "ready_ok D G rq' A'"
proof -
  have "set (rq_elems G rq') \<subseteq> dom (cells A')"
    using ok el moved_dom [OF mv] by (auto simp: ready_ok_def domIff subset_iff)
  then show ?thesis using ok sh moved_arena_ok [OF mv] by (simp add: ready_ok_def el h task_at_moved [OF mv])
qed

text \<open>Adding an item that is already linked, and taking one out of the table and the arena.\<close>

lemma ready_ok_add:
  assumes ok: "ready_ok D G rq A" and new: "hash_table_find D (rq_by_id rq) k = None"
    and h: "ht_inv G (rq_by_id rq')" "hash_table_find D (rq_by_id rq') = (hash_table_find D (rq_by_id rq))(k \<mapsto> p)"
    and el: "set (rq_elems G rq') = insert p (set (rq_elems G rq))" and sh: "shape_ok G rq' A'"
    and A': "arena_ok A'" "task_at A' p = Some k" "\<And>x. x \<in> set (rq_elems G rq) \<Longrightarrow> task_at A' x = task_at A x"
    and p: "p \<notin> set (rq_elems G rq)"
  shows "ready_ok D G rq' A'"
proof -
  have "(hash_table_find D (rq_by_id rq') j = Some x) = (x \<in> set (rq_elems G rq') \<and> task_at A' x = Some j)" for j x
  proof -
    have "\<not> (y \<in> set (rq_elems G rq) \<and> task_at A y = Some k)" for y
      using ok new unfolding ready_ok_def by (metis option.distinct(1))
    then show ?thesis using ok p A' unfolding h el ready_ok_def by (auto split: if_splits)
  qed
  moreover have "set (rq_elems G rq') \<subseteq> dom (cells A')"
    using ok A' el by (fastforce simp: ready_ok_def task_at_def subset_iff)
  ultimately show ?thesis using sh h A' by (simp add: ready_ok_def)
qed

lemma ready_ok_del:
  assumes ok: "ready_ok D G rq A" and p: "p \<in> set (rq_elems G rq)" "task_at A p = Some k"
    and h: "ht_inv G (rq_by_id rq')" "hash_table_find D (rq_by_id rq') = (hash_table_find D (rq_by_id rq))(k := None)"
    and el: "set (rq_elems G rq') = set (rq_elems G rq) - {p}" and sh: "shape_ok G rq' A'"
    and A': "arena_ok A'" "\<And>x. x \<noteq> p \<Longrightarrow> task_at A' x = task_at A x"
  shows "ready_ok D G rq' A'"
proof -
  have inj: "x = p" if "x \<in> set (rq_elems G rq)" "task_at A x = Some k" for x
    using that p ok unfolding ready_ok_def by (metis option.inject)
  have "(hash_table_find D (rq_by_id rq') j = Some x) = (x \<in> set (rq_elems G rq') \<and> task_at A' x = Some j)" for j x
  proof (cases "j = k")
    case True
    then show ?thesis using inj A' by (auto simp: h el)
  next
    case False
    then show ?thesis using ok A' p by (cases "x = p") (auto simp: h el ready_ok_def)
  qed
  moreover have "set (rq_elems G rq') \<subseteq> dom (cells A')"
  proof
    fix x
    assume "x \<in> set (rq_elems G rq')"
    then have "x \<in> set (rq_elems G rq)" "x \<noteq> p" by (auto simp: el)
    then have "task_at A' x = task_at A x" "cells A x \<noteq> None" using ok A' by (auto simp: ready_ok_def)
    then show "x \<in> dom (cells A')" by (auto simp: task_at_def)
  qed
  ultimately show ?thesis using sh h A' by (simp add: ready_ok_def)
qed

lemma heap_ok_frame:
  assumes ok: "heap_ok G get f A q" and same: "\<And>x. x \<in> set (hp_items G q) \<Longrightarrow> cells A' x = cells A x"
  shows "heap_ok G get f A' q"
proof -
  let ?S = "set (hp_items G q)"
  have eq: "items_compare f A x y = items_compare f A' x y" if "x \<in> ?S" "y \<in> ?S" for x y
    using that same by (simp add: items_compare_def)
  have "hp_ok G (items_compare f A') q"
    by (rule hp_cong [of "items_compare f A"]) (use ok eq in \<open>simp_all add: heap_ok_def cmp_agree_def\<close>)
  moreover have "cmp_order (items_compare f A') ?S"
    using ok cmp_order_cong [of ?S "items_compare f A" "items_compare f A'"] eq by (simp add: heap_ok_def)
  moreover have "indices_ok (index_at get A') (hp_items G q)"
    using ok same by (simp add: heap_ok_def indices_ok_def index_at_def)
  moreover have "?S \<subseteq> dom (cells A')" using ok same by (force simp: heap_ok_def)
  ultimately show ?thesis using ok by (simp add: heap_ok_def)
qed

subsection \<open>Contracts of the operations\<close>

text \<open>
  Only heap positions of the queue's own items may change besides what an operation says: \<^verbatim>\<open>others\<close>
  covers every pointer but the one that is added or freed.
\<close>

definition others_kept :: "ptr \<Rightarrow> ptr set \<Rightarrow> items \<Rightarrow> items \<Rightarrow> bool" where
  "others_kept p S A A' \<longleftrightarrow> (\<forall>x. x \<noteq> p \<longrightarrow> x \<notin> S \<longrightarrow> cells A' x = cells A x) \<and>
     (\<forall>x. x \<noteq> p \<longrightarrow> map_option (put_index 0) (cells A' x) = map_option (put_index 0) (cells A x))"

lemma others_kept_task_at: "others_kept p S A A' \<Longrightarrow> x \<noteq> p \<Longrightarrow> task_at A' x = task_at A x"
proof -
  assume "others_kept p S A A'" "x \<noteq> p"
  then have *: "map_option (put_index 0) (cells A' x) = map_option (put_index 0) (cells A x)"
    by (simp add: others_kept_def)
  show ?thesis using arg_cong [OF *, of "map_option (task_id \<circ> rt_desc)"]
    by (simp add: task_at_def option.map_comp o_def)
qed

definition inserted ::
  "qhw_sched_task_desc \<Rightarrow> ('h, 'l, 'q) qhw_ready_queue \<Rightarrow> items \<Rightarrow> ('h, 'l, 'q) qhw_ready_queue \<Rightarrow> items \<Rightarrow> bool" where
  "inserted task rq A rq' A' \<longleftrightarrow>
     hash_table_find D (rq_by_id rq) (task_id task) = None \<and>
     hash_table_find D (rq_by_id rq') = (hash_table_find D (rq_by_id rq))(task_id task \<mapsto> brk A) \<and>
     set (rq_elems G rq') = insert (brk A) (set (rq_elems G rq)) \<and>
     (rq_kind rq = QHW_READY_QUEUE_FIFO \<longrightarrow> rq_elems G rq' = rq_elems G rq @ [brk A]) \<and>
     map_option (put_index 0) (cells A' (brk A)) = Some (new_ready_task rq (heap_invalid_index D) task) \<and>
     others_kept (brk A) (set (rq_elems G rq)) A A'"

lemma inserted_task_at: "inserted task rq A rq' A' \<Longrightarrow> task_at A' (brk A) = Some (task_id task)"
proof -
  assume "inserted task rq A rq' A'"
  then have *: "map_option (put_index 0) (cells A' (brk A)) = Some (new_ready_task rq (heap_invalid_index D) task)"
    by (simp add: inserted_def)
  show ?thesis using arg_cong [OF *, of "map_option (task_id \<circ> rt_desc)"]
    by (simp add: task_at_def option.map_comp o_def new_ready_task_def)
qed

lemma put_index_new [simp]: "put_index 0 (new_ready_task rq i task) = new_ready_task rq i task"
  by (simp add: new_ready_task_def)

lemma arena_alloc_free:
  "arena_ok A \<Longrightarrow> arena_free (brk A) (A\<lparr>cells := (cells A)(brk A \<mapsto> x), brk := Suc (brk A)\<rparr>) =
     Some (A\<lparr>brk := Suc (brk A)\<rparr>)"
  by (simp add: arena_free_def arena_fresh fun_upd_idem)

lemma ready_ok_brk: "ready_ok D G rq A \<Longrightarrow> ready_ok D G rq (A\<lparr>brk := Suc (brk A)\<rparr>)"
proof -
  have "cells (A\<lparr>brk := b\<rparr>) = cells A" for b by simp
  then have "items_compare f (A\<lparr>brk := b\<rparr>) = items_compare f A" "index_at get (A\<lparr>brk := b\<rparr>) = index_at get A" for f b get
    by (auto simp: items_compare_def index_at_def fun_eq_iff)
  then show "ready_ok D G rq A \<Longrightarrow> ?thesis"
    by (auto simp: ready_ok_def shape_ok_def heap_ok_def task_at_def arena_ok_def less_Suc_eq
        split: qhw_ready_queue_kind.splits option.splits)
qed

lemma ready_insert_ok:
  assumes ok: "ready_ok D G rq A"
  shows "succeeds (qhw_ready_queue_insert D rq A task m) (\<lambda>(rc, rq', A', m').
    ready_ok D G rq' A' \<and> same_setup rq rq' \<and>
    (if rc = QHW_SCHED_OK then inserted task rq A rq' A'
     else hash_table_find D (rq_by_id rq') = hash_table_find D (rq_by_id rq) \<and>
       rq_elems G rq' = rq_elems G rq \<and> cells A' = cells A))"
proof -
  let ?k = "task_id task" and ?p = "brk A" and ?t = "new_ready_task rq (heap_invalid_index D) task"
  let ?A = "A\<lparr>cells := (cells A)(?p \<mapsto> ?t), brk := Suc ?p\<rparr>"
  have aok: "arena_ok A" and hok: "ht_inv G (rq_by_id rq)" using ok by (simp_all add: ready_ok_def)
  have fresh: "?p \<notin> set (rq_elems G rq)" using ok arena_fresh [OF aok] by (auto simp: ready_ok_def)
  obtain b m1 where al: "mem_alloc m = (b, m1)" by force
  obtain ins h' m2 where hi: "hash_table_insert D (rq_by_id rq) ?k ?p m1 = (ins, h', m2)" by (metis prod_cases3)
  show ?thesis
  proof (cases "hash_table_find D (rq_by_id rq) ?k = None \<and> b \<and> ins")
    case False
    have "ready_ok D G (rq\<lparr>rq_next_seq := rq_next_seq rq + 1, rq_by_id := h'\<rparr>) (A\<lparr>brk := Suc ?p\<rparr>)
        \<and> hash_table_find D h' = hash_table_find D (rq_by_id rq)"
      if "hash_table_find D (rq_by_id rq) ?k = None" "\<not> ins"
      using ht_insert [OF hok that(1) hi] that ready_ok_brk [OF ok]
      by (auto simp: ready_ok_def fun_upd_idem)
    then show ?thesis using False al hi ok aok
      by (cases b) (auto simp: qhw_ready_queue_insert_def arena_alloc_def arena_alloc_free Let_def same_setup_def)
  next
    case True
    then have new: "hash_table_find D (rq_by_id rq) ?k = None" and b: b ins by simp_all
    have h': "ht_inv G h'" "hash_table_find D h' = (hash_table_find D (rq_by_id rq))(?k \<mapsto> ?p)"
      using ht_insert [OF hok new hi] b by simp_all
    have at: "task_at ?A ?p = Some ?k" by (simp add: task_at_def new_ready_task_def)
    have keep: "task_at ?A x = task_at A x" if "x \<in> set (rq_elems G rq)" for x
      using that fresh by (auto simp: task_at_def)
    show ?thesis
    proof (cases "rq_kind rq")
      case QHW_READY_QUEUE_FIFO
      let ?rq = "rq\<lparr>rq_next_seq := rq_next_seq rq + 1, rq_by_id := h', rq_fifo := list_push_back D (rq_fifo rq) ?p\<rparr>"
      have l: "l_inv G (rq_fifo ?rq) \<and> rq_elems G ?rq = rq_elems G rq @ [?p]"
        using l_push_back [of "rq_fifo rq" ?p] ok fresh QHW_READY_QUEUE_FIFO
        by (simp add: ready_ok_def shape_ok_def rq_elems_def)
      have "ready_ok D G ?rq ?A"
        by (rule ready_ok_add [OF ok new]) (use h' l fresh at keep aok QHW_READY_QUEUE_FIFO in \<open>auto simp: shape_ok_def\<close>)
      moreover have "inserted task rq A ?rq ?A"
        using h' l new by (auto simp: inserted_def others_kept_def)
      ultimately show ?thesis using True al hi QHW_READY_QUEUE_FIFO
        by (simp add: qhw_ready_queue_insert_def arena_alloc_def Let_def same_setup_def)
    next
      case QHW_READY_QUEUE_HEAP
      then obtain f q where fq: "rq_compare rq = Some f" "rq_heap rq = Some q" "compare_ok f" "heap_ok G heap_index f A q"
        using ok by (auto simp: ready_ok_def shape_ok_def split: option.splits)
      have el: "rq_elems G rq = hp_items G q" using fq QHW_READY_QUEUE_HEAP by (simp add: rq_elems_def)
      have dom: "insert ?p (set (hp_items G q)) \<subseteq> dom (cells ?A)" using fq(4) by (auto simp: heap_ok_def)
      have hk: "heap_ok G heap_index f ?A q" by (rule heap_ok_frame [OF fq(4)]) (use fresh el in auto)
      obtain pushed q' us m3 where push: "heap_push D (items_compare f ?A) q ?p m2 = (pushed, q', us, m3)"
        by (metis prod_cases4)
      from hx.push_ok [OF hk compare_ok_stable [OF fq(3)] _ _ compare_ok_order [OF fq(3) dom] push] fresh el obtain A' where
        A': "ready_heap_update_index us ?A = Some A'" "moved put_index (insert ?p (set (hp_items G q))) ?A A'"
          "heap_ok G heap_index f A' q'"
        and res: "if pushed then mset (hp_items G q') = add_mset ?p (mset (hp_items G q))
            else A' = ?A \<and> hp_items G q' = hp_items G q"
        by (auto simp: ready_heap_update_index_def)
      let ?rq = "rq\<lparr>rq_next_seq := rq_next_seq rq + 1, rq_by_id := h', rq_heap := Some q'\<rparr>"
      have cmp: "ready_heap_compare (rq\<lparr>rq_next_seq := n, rq_by_id := h\<rparr>) B = items_compare f B" for n h B
        using fq(1) by (simp add: ready_heap_compare_def)
      show ?thesis
      proof (cases pushed)
        case True
        have el': "rq_elems G ?rq = hp_items G q'" using QHW_READY_QUEUE_HEAP by (simp add: rq_elems_def)
        have set': "set (hp_items G q') = insert ?p (set (hp_items G q))"
          using res True by (metis set_mset_add_mset_insert set_mset_mset)
        have "ready_ok D G ?rq A'"
          by (rule ready_ok_add [OF ok new])
            (use h' el el' set' fresh at keep fq A' QHW_READY_QUEUE_HEAP task_at_moved [OF A'(2)] aok
              moved_arena_ok [OF A'(2)] in \<open>auto simp: shape_ok_def\<close>)
        moreover have "inserted task rq A ?rq A'"
          using h' el el' set' new QHW_READY_QUEUE_HEAP A'(2)
          by (auto simp: inserted_def others_kept_def moved_def)
        ultimately show ?thesis using \<open>_ \<and> b \<and> ins\<close> al hi QHW_READY_QUEUE_HEAP fq push A'(1) True
          by (simp add: qhw_ready_queue_insert_def arena_alloc_def Let_def same_setup_def cmp)
      next
        case False
        then have A'eq: "A' = ?A" and same: "hp_items G q' = hp_items G q" using res by auto
        obtain r h2 where rm: "hash_table_remove D h' ?k = (r, h2)" by force
        have h2: "ht_inv G h2" "hash_table_find D h2 = hash_table_find D (rq_by_id rq)"
          using ht_remove_fun [OF h'(1) rm] new by (simp_all add: h' fun_upd_idem)
        let ?rq2 = "?rq\<lparr>rq_by_id := h2\<rparr>"
        have "heap_ok G heap_index f (A\<lparr>brk := Suc ?p\<rparr>) q'"
          by (rule heap_ok_frame [OF A'(3)]) (use A'eq same fresh el in auto)
        then have "ready_ok D G ?rq2 (A\<lparr>brk := Suc ?p\<rparr>)"
          using ready_ok_brk [OF ok] h2 fq QHW_READY_QUEUE_HEAP same
          by (simp add: ready_ok_def shape_ok_def rq_elems_def)
        then show ?thesis using \<open>_ \<and> b \<and> ins\<close> al hi QHW_READY_QUEUE_HEAP fq push A'(1) False rm h2 A'eq same aok
          by (simp add: qhw_ready_queue_insert_def arena_alloc_def Let_def same_setup_def cmp arena_alloc_free rq_elems_def)
      qed
    qed
  qed
qed

text \<open>The item that is next: the oldest of a list, a least one of a heap.\<close>

definition rq_first :: "('h, 'l, 'q) qhw_ready_queue \<Rightarrow> items \<Rightarrow> ptr \<Rightarrow> bool" where
  "rq_first rq A p \<longleftrightarrow> p \<in> set (rq_elems G rq) \<and> qhw_ready_queue_peek D rq = Some (Some p) \<and>
     (case rq_kind rq of
        QHW_READY_QUEUE_FIFO \<Rightarrow> p = hd (rq_elems G rq)
      | QHW_READY_QUEUE_HEAP \<Rightarrow> (\<forall>x \<in> set (rq_elems G rq). ready_heap_compare rq A p x \<le> 0))"

lemma ready_peek_ok:
  assumes ok: "ready_ok D G rq A"
  shows "succeeds (qhw_ready_queue_peek D rq) (\<lambda>r. case r of
    None \<Rightarrow> rq_elems G rq = [] | Some p \<Rightarrow> rq_first rq A p)"
proof (cases "rq_kind rq")
  case QHW_READY_QUEUE_FIFO
  then have "list_next D (rq_fifo rq) None = (case rq_elems G rq of [] \<Rightarrow> None | p # ps \<Rightarrow> Some p)"
    using ok by (simp add: ready_ok_def shape_ok_def rq_elems_def l_next_head)
  then show ?thesis using QHW_READY_QUEUE_FIFO
    by (auto simp: qhw_ready_queue_peek_def rq_first_def split: list.splits)
next
  case QHW_READY_QUEUE_HEAP
  then obtain f q where fq: "rq_compare rq = Some f" "rq_heap rq = Some q" "heap_ok G heap_index f A q"
    using ok by (auto simp: ready_ok_def shape_ok_def split: option.splits)
  have el: "rq_elems G rq = hp_items G q" using fq QHW_READY_QUEUE_HEAP by (simp add: rq_elems_def)
  have cmp: "ready_heap_compare rq A = items_compare f A" using fq by (simp add: ready_heap_compare_def)
  have pk: "qhw_ready_queue_peek D rq = Some (heap_peek D q)"
    using fq QHW_READY_QUEUE_HEAP by (simp add: qhw_ready_queue_peek_def)
  show ?thesis
  proof (cases "hp_items G q = []")
    case True
    then show ?thesis using pk el by (simp add: hp_peek_none)
  next
    case False
    then show ?thesis using pk el cmp QHW_READY_QUEUE_HEAP hp_peek_some [of "items_compare f A" q] fq(3)
      by (auto simp: rq_first_def heap_ok_def)
  qed
qed

text \<open>Unlinking an item leaves the queue without it, but still in the table and in the arena.\<close>

definition unlinked ::
  "ptr \<Rightarrow> ('h, 'l, 'q) qhw_ready_queue \<Rightarrow> items \<Rightarrow> ('h, 'l, 'q) qhw_ready_queue \<Rightarrow> items \<Rightarrow> bool" where
  "unlinked p rq A rq' A' \<longleftrightarrow> same_setup rq rq' \<and> rq_by_id rq' = rq_by_id rq \<and> shape_ok G rq' A' \<and>
     moved put_index (set (rq_elems G rq)) A A' \<and> set (rq_elems G rq') = set (rq_elems G rq) - {p} \<and>
     (rq_kind rq = QHW_READY_QUEUE_FIFO \<longrightarrow> rq_elems G rq' = remove1 p (rq_elems G rq))"

definition removed ::
  "u64 \<Rightarrow> ptr \<Rightarrow> ('h, 'l, 'q) qhw_ready_queue \<Rightarrow> items \<Rightarrow> ('h, 'l, 'q) qhw_ready_queue \<Rightarrow> items \<Rightarrow> bool" where
  "removed k p rq A rq' A' \<longleftrightarrow>
     p \<in> set (rq_elems G rq) \<and> task_at A p = Some k \<and> cells A' p = None \<and>
     hash_table_find D (rq_by_id rq') = (hash_table_find D (rq_by_id rq))(k := None) \<and>
     set (rq_elems G rq') = set (rq_elems G rq) - {p} \<and>
     (rq_kind rq = QHW_READY_QUEUE_FIFO \<longrightarrow> rq_elems G rq' = remove1 p (rq_elems G rq)) \<and>
     others_kept p (set (rq_elems G rq)) A A'"

lemma shape_ok_free:
  assumes "shape_ok G rq A" "p \<notin> set (rq_elems G rq)"
  shows "shape_ok G rq (A\<lparr>cells := (cells A)(p := None)\<rparr>)"
  using assms
  by (auto simp: shape_ok_def rq_elems_def intro: heap_ok_frame [of heap_index _ A]
      split: qhw_ready_queue_kind.splits option.splits)

lemma finish_removal:
  assumes ok: "ready_ok D G rq A" and p: "p \<in> set (rq_elems G rq)" "task_at A p = Some k"
    and un: "unlinked p rq A rq1 A1"
  defines "rq' \<equiv> rq1\<lparr>rq_by_id := snd (hash_table_remove D (rq_by_id rq1) k)\<rparr>"
  shows "\<exists>A'. arena_free p A1 = Some A' \<and> ready_ok D G rq' A' \<and> same_setup rq rq' \<and> removed k p rq A rq' A'"
proof -
  have mv: "moved put_index (set (rq_elems G rq)) A A1" using un by (simp add: unlinked_def)
  obtain r h where rm: "hash_table_remove D (rq_by_id rq) k = (r, h)" by force
  have hok: "ht_inv G (rq_by_id rq)" using ok by (simp add: ready_ok_def)
  have h: "ht_inv G h" "hash_table_find D h = (hash_table_find D (rq_by_id rq))(k := None)"
    using ht_remove_fun [OF hok rm] by simp_all
  have rq': "rq' = rq1\<lparr>rq_by_id := h\<rparr>" using un rm by (simp add: rq'_def unlinked_def)
  obtain t where t: "cells A1 p = Some t" using p(2) task_at_moved [OF mv, of p] by (auto simp: task_at_def)
  let ?A = "A1\<lparr>cells := (cells A1)(p := None)\<rparr>"
  have free: "arena_free p A1 = Some ?A" using t by (simp add: arena_free_def)
  have "arena_ok A1" using moved_arena_ok [OF mv] ok by (simp add: ready_ok_def)
  then have "arena_ok ?A" using t by simp
  moreover have "task_at ?A x = task_at A x" if "x \<noteq> p" for x
    using that task_at_moved [OF mv, of x] by (simp add: task_at_def)
  moreover have "shape_ok G rq' ?A" using un shape_ok_free [of rq1 A1 p] by (simp add: rq' unlinked_def)
  ultimately have "ready_ok D G rq' ?A"
    by (intro ready_ok_del [OF ok p]) (use h un in \<open>simp_all add: rq' unlinked_def\<close>)
  moreover have "removed k p rq A rq' ?A" using un mv p h
    by (auto simp: removed_def rq' unlinked_def others_kept_def moved_def)
  moreover have "same_setup rq rq'" using un by (simp add: rq' unlinked_def same_setup_def)
  ultimately show ?thesis using free by blast
qed

lemma ready_take_ok:
  assumes ok: "ready_ok D G rq A"
  shows "succeeds (ready_take D rq A) (\<lambda>(r, rq', A'). case r of
      None \<Rightarrow> rq_elems G rq = [] \<and> ready_ok D G rq' A' \<and> rq_by_id rq' = rq_by_id rq \<and> same_setup rq rq' \<and>
        rq_elems G rq' = [] \<and> cells A' = cells A
    | Some p \<Rightarrow> rq_first rq A p \<and> unlinked p rq A rq' A')"
proof (cases "rq_kind rq")
  case QHW_READY_QUEUE_FIFO
  obtain r l where pop: "list_pop_front D (rq_fifo rq) = (r, l)" by force
  have li: "l_inv G (rq_fifo rq)" and el: "rq_elems G rq = l_elems G (rq_fifo rq)"
    using ok QHW_READY_QUEUE_FIFO by (simp_all add: ready_ok_def shape_ok_def rq_elems_def)
  note l = l_pop_front [OF li pop]
  have el': "rq_elems G (rq\<lparr>rq_fifo := l\<rparr>) = tl (rq_elems G rq)" "shape_ok G (rq\<lparr>rq_fifo := l\<rparr>) B" for B
    using l el QHW_READY_QUEUE_FIFO by (simp_all add: rq_elems_def shape_ok_def)
  have run: "ready_take D rq A = Some (r, rq\<lparr>rq_fifo := l\<rparr>, A)"
    using QHW_READY_QUEUE_FIFO pop by (simp add: ready_take_def)
  show ?thesis
  proof (cases "rq_elems G rq")
    case Nil
    then show ?thesis using run l el el' ok by (simp add: ready_ok_def same_setup_def)
  next
    case (Cons p ps)
    then have "rq_first rq A p" using ready_peek_ok [OF ok] QHW_READY_QUEUE_FIFO l_next_head [OF li] el
      by (simp add: rq_first_def qhw_ready_queue_peek_def)
    moreover have "unlinked p rq A (rq\<lparr>rq_fifo := l\<rparr>) A"
      using el' Cons ready_distinct [OF ok] by (auto simp: unlinked_def same_setup_def)
    moreover have "r = Some p" using l Cons el by (metis list.simps(5))
    ultimately show ?thesis using run by simp
  qed
next
  case QHW_READY_QUEUE_HEAP
  then obtain f q where fq: "rq_compare rq = Some f" "rq_heap rq = Some q" "heap_ok G heap_index f A q" "compare_ok f"
    using ok by (auto simp: ready_ok_def shape_ok_def split: option.splits)
  have el: "rq_elems G rq = hp_items G q" using fq QHW_READY_QUEUE_HEAP by (simp add: rq_elems_def)
  have cmp: "ready_heap_compare rq A = items_compare f A" using fq by (simp add: ready_heap_compare_def)
  obtain r q' us where pop: "heap_pop D (items_compare f A) q = (r, q', us)" by (metis prod_cases3)
  from hx.pop_ok [OF fq(3) compare_ok_stable [OF fq(4)] pop] obtain A' where
    A': "ready_heap_update_index us A = Some A'" "moved put_index (set (hp_items G q)) A A'"
      "heap_ok G heap_index f A' q'" "r = heap_peek D q"
    and res: "case r of
       None \<Rightarrow> hp_items G q = [] \<and> hp_items G q' = []
     | Some p \<Rightarrow> p \<in> set (hp_items G q) \<and> (\<forall>x \<in> set (hp_items G q). items_compare f A p x \<le> 0) \<and>
         mset (hp_items G q') = mset (hp_items G q) - {#p#}"
    by (auto simp: ready_heap_update_index_def)
  let ?rq = "rq\<lparr>rq_heap := Some q'\<rparr>"
  have run: "ready_take D rq A = Some (r, ?rq, A')"
    using QHW_READY_QUEUE_HEAP fq cmp pop A' by (simp add: ready_take_def)
  have el': "rq_elems G ?rq = hp_items G q'" "shape_ok G ?rq A'"
    using QHW_READY_QUEUE_HEAP fq A' by (simp_all add: rq_elems_def shape_ok_def)
  have dist: "distinct (hp_items G q)" using fq by (simp add: heap_ok_def)
  show ?thesis
  proof (cases r)
    case None
    then have "cells A' = cells A" using A'(2) res by (auto simp: moved_def)
    moreover have "ready_ok D G ?rq A'"
      by (rule ready_ok_moved [OF ok A'(2)]) (use el el' res None in simp_all)
    ultimately show ?thesis using run None res el el' by (simp add: same_setup_def)
  next
    case (Some p)
    then have "rq_first rq A p" using res el cmp A'(4) QHW_READY_QUEUE_HEAP fq
      by (simp add: rq_first_def qhw_ready_queue_peek_def)
    moreover have "unlinked p rq A ?rq A'"
      using el el' A'(2) res Some QHW_READY_QUEUE_HEAP hx.items_diff [OF dist, of q' p]
      by (simp add: unlinked_def same_setup_def)
    ultimately show ?thesis using run Some by simp
  qed
qed

lemma ready_pop_ok:
  assumes ok: "ready_ok D G rq A"
  shows "succeeds (qhw_ready_queue_pop D rq A) (\<lambda>(rc, tid, rq', A'). ready_ok D G rq' A' \<and> same_setup rq rq' \<and>
    (if rc = QHW_SCHED_OK
     then \<exists>k p. tid = Some k \<and> rq_first rq A p \<and> removed k p rq A rq' A'
     else rc = QHW_SCHED_ERR_NOT_FOUND \<and> rq_elems G rq = [] \<and> rq_elems G rq' = [] \<and>
       rq_by_id rq' = rq_by_id rq \<and> cells A' = cells A))"
proof -
  from ready_take_ok [OF ok] obtain r rq1 A1 where tk: "ready_take D rq A = Some (r, rq1, A1)"
    and res: "case r of
      None \<Rightarrow> rq_elems G rq = [] \<and> ready_ok D G rq1 A1 \<and> rq_by_id rq1 = rq_by_id rq \<and> same_setup rq rq1 \<and>
        rq_elems G rq1 = [] \<and> cells A1 = cells A
    | Some p \<Rightarrow> rq_first rq A p \<and> unlinked p rq A rq1 A1"
    by (auto simp: succeeds_iff)
  show ?thesis
  proof (cases r)
    case None
    then show ?thesis using tk res by (simp add: qhw_ready_queue_pop_def)
  next
    case (Some p)
    then have first: "rq_first rq A p" and un: "unlinked p rq A rq1 A1" using res by simp_all
    have p: "p \<in> set (rq_elems G rq)" using first by (simp add: rq_first_def)
    have mv: "moved put_index (set (rq_elems G rq)) A A1" using un by (simp add: unlinked_def)
    obtain t where t: "cells A1 p = Some t" "task_at A p = Some (task_id (rt_desc t))"
      using ready_task_at [OF ok p] task_at_moved [OF mv, of p] by (auto simp: task_at_def)
    from finish_removal [OF ok p t(2) un] show ?thesis
      using tk Some t(1) first by (auto simp: qhw_ready_queue_pop_def Let_def)
  qed
qed

lemma ready_remove_ok:
  assumes ok: "ready_ok D G rq A"
  shows "succeeds (qhw_ready_queue_remove D rq A k) (\<lambda>(rc, rq', A'). ready_ok D G rq' A' \<and> same_setup rq rq' \<and>
    (if k \<in> rq_ids D rq then rc = QHW_SCHED_OK \<and> (\<exists>p. removed k p rq A rq' A')
     else rc = QHW_SCHED_ERR_NOT_FOUND \<and> rq' = rq \<and> A' = A))"
proof (cases "hash_table_find D (rq_by_id rq) k")
  case None
  then show ?thesis using ok by (auto simp: qhw_ready_queue_remove_def rq_ids_def same_setup_def)
next
  case (Some p)
  then obtain t where p: "p \<in> set (rq_elems G rq)" and t: "cells A p = Some t" "task_id (rt_desc t) = k"
    using ready_find [OF ok] by blast
  have at: "task_at A p = Some k" using t by (simp add: task_at_def)
  have k: "k \<in> rq_ids D rq" using Some by (auto simp: rq_ids_def)
  show ?thesis
  proof (cases "rq_kind rq")
    case QHW_READY_QUEUE_FIFO
    let ?rq = "rq\<lparr>rq_fifo := list_remove D (rq_fifo rq) p\<rparr>"
    have li: "l_inv G (rq_fifo rq)" and el: "rq_elems G rq = l_elems G (rq_fifo rq)"
      using ok QHW_READY_QUEUE_FIFO by (simp_all add: ready_ok_def shape_ok_def rq_elems_def)
    have "p \<in> set (l_elems G (rq_fifo rq))" using p el by simp
    note l = l_remove [OF li this]
    have "unlinked p rq A ?rq A"
      using l el QHW_READY_QUEUE_FIFO ready_distinct [OF ok]
      by (simp add: unlinked_def same_setup_def rq_elems_def shape_ok_def set_remove1_eq)
    from finish_removal [OF ok p at this] show ?thesis
      using Some t k QHW_READY_QUEUE_FIFO by (auto simp: qhw_ready_queue_remove_def Let_def)
  next
    case QHW_READY_QUEUE_HEAP
    then obtain f q where fq: "rq_compare rq = Some f" "rq_heap rq = Some q" "heap_ok G heap_index f A q" "compare_ok f"
      using ok by (auto simp: ready_ok_def shape_ok_def split: option.splits)
    have el: "rq_elems G rq = hp_items G q" using fq QHW_READY_QUEUE_HEAP by (simp add: rq_elems_def)
    have cmp: "ready_heap_compare rq A = items_compare f A" using fq by (simp add: ready_heap_compare_def)
    have hk: "hp_ok G (items_compare f A) q" "distinct (hp_items G q)" "set (hp_items G q) \<subseteq> dom (cells A)"
      "indices_ok (index_at heap_index A) (hp_items G q)" using fq by (simp_all add: heap_ok_def)
    obtain r q' us where rem: "heap_remove_at D (items_compare f A) q (heap_index t) = (r, q', us)"
      by (metis prod_cases3)
    have "index_at heap_index A p = heap_index t" using t by (simp add: index_at_def)
    moreover have "cmp_order (items_compare f A) (set (hp_items G q) - {p})"
      by (rule compare_ok_order [OF fq(4)]) (use hk in auto)
    ultimately obtain A' where
      A': "ready_heap_update_index us A = Some A'" "moved put_index (set (hp_items G q)) A A'"
        "heap_ok G heap_index f A' q'" "r = Some p" "mset (hp_items G q') = mset (hp_items G q) - {#p#}"
      using hx.remove_at_ok [OF hk, of p "heap_index t" f r q' us] p el compare_ok_stable [OF fq(4)] rem
      by (auto simp: ready_heap_update_index_def cmp_agree_def)
    have "unlinked p rq A (rq\<lparr>rq_heap := Some q'\<rparr>) A'"
      using QHW_READY_QUEUE_HEAP fq A' el hx.items_diff [OF hk(2) A'(5)]
      by (simp add: unlinked_def same_setup_def rq_elems_def shape_ok_def)
    from finish_removal [OF ok p at this] show ?thesis
      using Some t k QHW_READY_QUEUE_HEAP fq cmp rem A' by (auto simp: qhw_ready_queue_remove_def Let_def)
  qed
qed

text \<open>Destruction ends and frees exactly the items of the queue.\<close>

lemma drain_fifo_ok:
  "l_inv G l \<Longrightarrow> set (l_elems G l) \<subseteq> dom (cells A) \<Longrightarrow>
   succeeds (drain_fifo D l A) (\<lambda>A'. brk A' = brk A \<and>
     (\<forall>p. cells A' p = (if p \<in> set (l_elems G l) then None else cells A p)))"
proof (induction "length (l_elems G l)" arbitrary: l A)
  case 0
  then show ?case by (subst drain_fifo.simps) (simp add: l_next_head)
next
  case (Suc n)
  obtain p ps where el: "l_elems G l = p # ps" using Suc.hyps(2) by (cases "l_elems G l") auto
  obtain r l' where pop: "list_pop_front D l = (r, l')" by force
  have l': "l_inv G l'" "l_elems G l' = ps" "r = Some p" using l_pop_front [OF Suc.prems(1) pop] el by simp_all
  have p: "p \<notin> set ps" using l_inv_distinct [OF Suc.prems(1)] el by simp
  let ?A = "A\<lparr>cells := (cells A)(p := None)\<rparr>"
  have free: "arena_free p A = Some ?A" using Suc.prems(2) el by (auto simp: arena_free_def)
  have "succeeds (drain_fifo D l' ?A) (\<lambda>A'. brk A' = brk ?A \<and>
     (\<forall>x. cells A' x = (if x \<in> set (l_elems G l') then None else cells ?A x)))"
    by (rule Suc.hyps(1)) (use Suc l' el p in auto)
  then show ?case using pop free l' el l_next_head [OF Suc.prems(1)]
    by (subst drain_fifo.simps) (auto elim!: succeeds_mono)
qed

lemma drain_heap_ok:
  assumes "rq_compare rq = Some f" "compare_ok f"
  shows "heap_ok G heap_index f A q \<Longrightarrow>
   succeeds (drain_heap D rq q A) (\<lambda>A'. brk A' = brk A \<and>
     (\<forall>p. cells A' p = (if p \<in> set (hp_items G q) then None else cells A p)))"
proof (induction "length (hp_items G q)" arbitrary: q A)
  case 0
  have cmp: "ready_heap_compare rq A = items_compare f A" using assms by (simp add: ready_heap_compare_def)
  obtain r q' us where pop: "heap_pop D (items_compare f A) q = (r, q', us)" by (metis prod_cases3)
  from hp_pop_none [OF _ pop] 0 show ?case
    by (subst drain_heap.simps) (simp add: cmp pop ready_heap_update_index_def)
next
  case (Suc n)
  have cmp: "ready_heap_compare rq A = items_compare f A" using assms by (simp add: ready_heap_compare_def)
  obtain r q' us where pop: "heap_pop D (items_compare f A) q = (r, q', us)" by (metis prod_cases3)
  from hx.pop_ok [OF Suc.prems compare_ok_stable [OF assms(2)] pop] obtain A1 where
    A1: "ready_heap_update_index us A = Some A1" "moved put_index (set (hp_items G q)) A A1"
      "heap_ok G heap_index f A1 q'"
    and res: "case r of
       None \<Rightarrow> hp_items G q = [] \<and> hp_items G q' = []
     | Some p \<Rightarrow> p \<in> set (hp_items G q) \<and> (\<forall>x \<in> set (hp_items G q). items_compare f A p x \<le> 0) \<and>
         mset (hp_items G q') = mset (hp_items G q) - {#p#}"
    by (auto simp: ready_heap_update_index_def)
  obtain p where p: "r = Some p" "p \<in> set (hp_items G q)" "mset (hp_items G q') = mset (hp_items G q) - {#p#}"
    using res Suc.hyps(2) by (cases r) auto
  have dist: "distinct (hp_items G q)" "set (hp_items G q) \<subseteq> dom (cells A)" using Suc.prems by (simp_all add: heap_ok_def)
  note d = hx.items_diff [OF dist(1) p(3)]
  have len: "n = length (hp_items G q')"
    using arg_cong [OF p(3), of size] p(2) Suc.hyps(2) by (simp add: size_Diff_singleton)
  have "cells A1 p \<noteq> None" using moved_dom [OF A1(2), of p] dist(2) p(2) by auto
  then have free: "arena_free p A1 = Some (A1\<lparr>cells := (cells A1)(p := None)\<rparr>)"
    by (auto simp: arena_free_def)
  let ?A = "A1\<lparr>cells := (cells A1)(p := None)\<rparr>"
  have "heap_ok G heap_index f ?A q'" by (rule heap_ok_frame [OF A1(3)]) (use d in auto)
  from Suc.hyps(1) [OF len this] have "succeeds (drain_heap D rq q' ?A) (\<lambda>A'. brk A' = brk A1 \<and>
      (\<forall>x. cells A' x = (if x \<in> set (hp_items G q) - {p} then None else cells ?A x)))"
    using d by simp
  then show ?case using A1 p
    by (subst drain_heap.simps) (auto simp: cmp pop free moved_def elim!: succeeds_mono)
qed

lemma ready_fini_ok:
  assumes ok: "ready_ok D G rq A"
  shows "succeeds (qhw_ready_queue_fini D rq A) (\<lambda>A'. brk A' = brk A \<and>
    (\<forall>p. cells A' p = (if p \<in> set (rq_elems G rq) then None else cells A p)))"
proof (cases "rq_kind rq")
  case QHW_READY_QUEUE_FIFO
  then show ?thesis using ok drain_fifo_ok [of "rq_fifo rq" A]
    by (simp add: qhw_ready_queue_fini_def ready_ok_def shape_ok_def rq_elems_def)
next
  case QHW_READY_QUEUE_HEAP
  then obtain f q where fq: "rq_compare rq = Some f" "rq_heap rq = Some q" "compare_ok f" "heap_ok G heap_index f A q"
    using ok by (auto simp: ready_ok_def shape_ok_def split: option.splits)
  then show ?thesis using QHW_READY_QUEUE_HEAP drain_heap_ok [OF fq(1,3,4)]
    by (simp add: qhw_ready_queue_fini_def rq_elems_def)
qed

end

end
