(* ===== verification/Order_Key.thy ===== *)
theory Order_Key
  imports Ready_Queue Deadline_Boost "HOL-Library.List_Lexorder"
begin

section \<open>Order keys\<close>

text \<open>
  \<^verbatim>\<open>policy/qhw_order_key.c\<close>: the configured list of sort keys of the ordered policy, its options, and
  the comparison of two ready tasks. The array \<^verbatim>\<open>keys\<close> with its \<^verbatim>\<open>key_count\<close> is the list of the keys in
  use. The comparison is shown to be the lexicographic order of key vectors, hence a total order in which
  only tasks with the same identifier tie.
\<close>

abbreviation (input) QHW_ORDER_KEY_MAX :: nat where "QHW_ORDER_KEY_MAX \<equiv> 8"

record qhw_order_config =
  order_keys :: "u64 list"
  order_boost :: qhw_deadline_boost_config
  order_now_ns :: u64
  order_use_static_now :: bool

definition order_key_supported :: "u64 \<Rightarrow> bool" where
  "order_key_supported key \<longleftrightarrow>
     key = QHW_SCHED_ORDER_PRIORITY \<or> key = QHW_SCHED_ORDER_SJF \<or> key = QHW_SCHED_ORDER_LJF \<or>
     key = QHW_SCHED_ORDER_FIFO \<or> key = QHW_SCHED_ORDER_ROUND_ROBIN"

definition order_config_append_key :: "qhw_order_config \<Rightarrow> u64 \<Rightarrow> qhw_sched_rc \<times> qhw_order_config" where
  "order_config_append_key config key =
     (if \<not> order_key_supported key then (QHW_SCHED_ERR_UNSUPPORTED, config)
      else if QHW_ORDER_KEY_MAX \<le> length (order_keys config) then (QHW_SCHED_ERR_UNSUPPORTED, config)
      else (QHW_SCHED_OK, config\<lparr>order_keys := order_keys config @ [key]\<rparr>))"

definition parse_order_key :: "qhw_order_config \<Rightarrow> qhw_sched_kv \<Rightarrow> qhw_sched_rc \<times> qhw_order_config" where
  "parse_order_key config option =
     (if kv_type option \<noteq> QHW_SCHED_VALUE_U64 then (QHW_SCHED_ERR_INVALID_ARG, config)
      else order_config_append_key config (kv_bits option))"

definition order_parse_now_option :: "qhw_order_config \<Rightarrow> qhw_sched_kv \<Rightarrow> qhw_sched_rc \<times> qhw_order_config" where
  "order_parse_now_option config option =
     (if kv_type option \<noteq> QHW_SCHED_VALUE_U64 then (QHW_SCHED_ERR_INVALID_ARG, config)
      else (QHW_SCHED_OK, config\<lparr>order_now_ns := kv_bits option, order_use_static_now := True\<rparr>))"

definition compare_i64_desc :: "i64 \<Rightarrow> i64 \<Rightarrow> int" where
  "compare_i64_desc left right = (if left = right then 0 else if sint right < sint left then - 1 else 1)"

definition compare_u64_asc :: "u64 \<Rightarrow> u64 \<Rightarrow> int" where
  "compare_u64_asc left right = (if left = right then 0 else if left < right then - 1 else 1)"

definition qhw_order_config_init :: qhw_order_config where
  "qhw_order_config_init = \<lparr>order_keys = [QHW_SCHED_ORDER_PRIORITY, QHW_SCHED_ORDER_FIFO],
     order_boost = qhw_deadline_boost_config_init, order_now_ns = 0, order_use_static_now = False\<rparr>"

fun order_parse_loop ::
  "qhw_order_config \<Rightarrow> bool \<Rightarrow> qhw_sched_kv list \<Rightarrow> qhw_sched_rc \<times> qhw_order_config" where
  "order_parse_loop config saw_order_key [] = (QHW_SCHED_OK, config)"
| "order_parse_loop config saw_order_key (option # rest) =
     (if kv_key option = QHW_SCHED_OPT_ORDER_KEY then
        (let config = (if \<not> saw_order_key then config\<lparr>order_keys := []\<rparr> else config);
             (rc, config) = parse_order_key config option
         in if rc \<noteq> QHW_SCHED_OK then (rc, config) else order_parse_loop config True rest)
      else if kv_key option = QHW_SCHED_OPT_DEADLINE_NOW_NS then
        (let (rc, config) = order_parse_now_option config option
         in if rc \<noteq> QHW_SCHED_OK then (rc, config) else order_parse_loop config saw_order_key rest)
      else order_parse_loop config saw_order_key rest)"

definition qhw_order_config_parse_options ::
  "qhw_order_config \<Rightarrow> kv_ref \<Rightarrow> qhw_sched_rc \<times> qhw_order_config" where
  "qhw_order_config_parse_options config options =
     (if 0 < kv_count options \<and> kv_is_null options then (QHW_SCHED_ERR_INVALID_ARG, config)
      else
        let (rc, boost) = qhw_deadline_boost_config_parse_options (order_boost config) options;
            config = config\<lparr>order_boost := boost\<rparr>
        in if rc \<noteq> QHW_SCHED_OK then (rc, config)
           else
             let (rc, config) = order_parse_loop config False (kv_entries options)
             in if rc \<noteq> QHW_SCHED_OK then (rc, config)
                else if order_keys config = [] then (QHW_SCHED_ERR_INVALID_ARG, config)
                else (QHW_SCHED_OK, config))"

definition qhw_order_config_uses_cost :: "qhw_order_config \<Rightarrow> bool" where
  "qhw_order_config_uses_cost config \<longleftrightarrow>
     list_ex (\<lambda>key. key = QHW_SCHED_ORDER_SJF \<or> key = QHW_SCHED_ORDER_LJF) (order_keys config)"

definition qhw_order_config_uses_round_robin :: "qhw_order_config \<Rightarrow> bool" where
  "qhw_order_config_uses_round_robin config \<longleftrightarrow>
     list_ex (\<lambda>key. key = QHW_SCHED_ORDER_ROUND_ROBIN) (order_keys config)"

definition qhw_order_now_ns :: "qhw_order_config \<Rightarrow> clock \<Rightarrow> u64 \<times> clock" where
  "qhw_order_now_ns config c =
     (if order_use_static_now config then (order_now_ns config, c) else qhw_deadline_boost_now_ns c)"

definition qhw_order_refresh_task ::
  "qhw_order_config \<Rightarrow> qhw_ready_task \<Rightarrow> clock \<Rightarrow> qhw_sched_rc \<times> qhw_ready_task \<times> clock" where
  "qhw_order_refresh_task config task c =
     (let (now, c) = qhw_order_now_ns config c;
          (rc, result) = qhw_deadline_boost_compute (order_boost config) (base_priority task)
            (deadline_ns (rt_desc task)) (estimated_runtime_ns (rt_desc task)) now
      in if rc \<noteq> QHW_SCHED_OK then (rc, task, c)
         else (QHW_SCHED_OK,
           task\<lparr>effective_priority := br_effective_priority result,
                next_refresh_ns := br_next_refresh_ns result\<rparr>, c))"

definition order_key_compare ::
  "u64 \<Rightarrow> qhw_ready_task \<Rightarrow> qhw_ready_task \<Rightarrow> u64 \<Rightarrow> u64 \<Rightarrow> int" where
  "order_key_compare key left right left_ticket right_ticket =
     (if key = QHW_SCHED_ORDER_PRIORITY
      then compare_i64_desc (effective_priority left) (effective_priority right)
      else if key = QHW_SCHED_ORDER_SJF
      then compare_u64_asc (rt_estimated_cost left) (rt_estimated_cost right)
      else if key = QHW_SCHED_ORDER_LJF
      then compare_u64_asc (rt_estimated_cost right) (rt_estimated_cost left)
      else if key = QHW_SCHED_ORDER_ROUND_ROBIN then compare_u64_asc left_ticket right_ticket
      else if key = QHW_SCHED_ORDER_FIFO then compare_u64_asc (seq left) (seq right)
      else 0)"

fun order_compare_loop ::
  "u64 list \<Rightarrow> qhw_ready_task \<Rightarrow> qhw_ready_task \<Rightarrow> u64 \<Rightarrow> u64 \<Rightarrow> int" where
  "order_compare_loop [] left right left_ticket right_ticket =
     compare_u64_asc (task_id (rt_desc left)) (task_id (rt_desc right))"
| "order_compare_loop (key # keys) left right left_ticket right_ticket =
     (let cmp = order_key_compare key left right left_ticket right_ticket
      in if cmp \<noteq> 0 then cmp else order_compare_loop keys left right left_ticket right_ticket)"

definition qhw_order_compare_groups ::
  "qhw_order_config \<Rightarrow> qhw_ready_task \<Rightarrow> qhw_ready_task \<Rightarrow> u64 \<Rightarrow> u64 \<Rightarrow> int" where
  "qhw_order_compare_groups config left right left_ticket right_ticket =
     order_compare_loop (order_keys config) left right left_ticket right_ticket"

definition qhw_order_compare :: "qhw_order_config \<Rightarrow> qhw_ready_task \<Rightarrow> qhw_ready_task \<Rightarrow> int" where
  "qhw_order_compare config left right = qhw_order_compare_groups config left right 0 0"

subsection \<open>Comparison by vectors\<close>

text \<open>
  Three-way comparison of integer vectors in lexicographic order, and the vector of a task: one component
  per configured key, smaller meaning earlier, and the task identifier last.
\<close>

definition vec_compare :: "int list \<Rightarrow> int list \<Rightarrow> int" where
  "vec_compare x y = (if x < y then - 1 else if x = y then 0 else 1)"

definition key_rank :: "u64 \<Rightarrow> qhw_ready_task \<Rightarrow> u64 \<Rightarrow> int" where
  "key_rank key t ticket =
     (if key = QHW_SCHED_ORDER_PRIORITY then - sint (effective_priority t)
      else if key = QHW_SCHED_ORDER_SJF then uint (rt_estimated_cost t)
      else if key = QHW_SCHED_ORDER_LJF then - uint (rt_estimated_cost t)
      else if key = QHW_SCHED_ORDER_ROUND_ROBIN then uint ticket
      else if key = QHW_SCHED_ORDER_FIFO then uint (seq t)
      else 0)"

definition order_vector :: "u64 list \<Rightarrow> qhw_ready_task \<Rightarrow> u64 \<Rightarrow> int list" where
  "order_vector keys t ticket = map (\<lambda>key. key_rank key t ticket) keys @ [uint (task_id (rt_desc t))]"

lemma vec_compare_Cons:
  "vec_compare (x # xs) (y # ys) = (if x < y then - 1 else if y < x then 1 else vec_compare xs ys)"
  by (simp add: vec_compare_def)

lemma vec_compare_simps [simp]:
  "vec_compare x y = 0 \<longleftrightarrow> x = y" "vec_compare x y < 0 \<longleftrightarrow> x < y" "vec_compare x y \<le> 0 \<longleftrightarrow> x \<le> y"
  "0 < vec_compare x y \<longleftrightarrow> y < x"
  by (auto simp: vec_compare_def)

lemma sint_eq_i64: "sint (x :: i64) = sint y \<longleftrightarrow> x = y"
  by (auto intro: signed_word_eqI)

lemma compare_u64_asc_vec: "compare_u64_asc a b = vec_compare [uint a] [uint b]"
  by (auto simp: compare_u64_asc_def vec_compare_def word_less_def word_uint_eq_iff)

lemma compare_u64_asc_rank: "compare_u64_asc a b = (if uint a < uint b then - 1 else if uint b < uint a then 1 else 0)"
  by (auto simp: compare_u64_asc_def word_less_def word_uint_eq_iff)

lemma compare_i64_desc_rank: "compare_i64_desc a b = (if sint b < sint a then - 1 else if sint a < sint b then 1 else 0)"
  using sint_eq_i64 [of a b] by (auto simp: compare_i64_desc_def)

lemma order_key_compare_rank:
  "order_key_compare key l r lt rt =
   (if key_rank key l lt < key_rank key r rt then - 1 else if key_rank key r rt < key_rank key l lt then 1 else 0)"
  by (simp add: order_key_compare_def key_rank_def compare_i64_desc_rank compare_u64_asc_rank)

lemma order_compare_loop_vec:
  "order_compare_loop keys l r lt rt = vec_compare (order_vector keys l lt) (order_vector keys r rt)"
  by (induction keys)
    (simp_all add: order_vector_def compare_u64_asc_vec order_key_compare_rank vec_compare_Cons)

text \<open>A comparison of vectors that do not mention the heap position is fit for the ready queue's heap.\<close>

lemma vec_compare_ok:
  assumes "\<And>t i. f (t\<lparr>heap_index := i\<rparr>) = f t"
  shows "compare_ok (\<lambda>l r. vec_compare (f l) (f r))"
  by (auto simp: compare_ok_def assms)

lemma order_compare_vec:
  "qhw_order_compare config l r = vec_compare (order_vector (order_keys config) l 0) (order_vector (order_keys config) r 0)"
  by (simp add: qhw_order_compare_def qhw_order_compare_groups_def order_compare_loop_vec)

lemma key_rank_index [simp]:
  "key_rank key (t\<lparr>heap_index := i\<rparr>) ticket = key_rank key t ticket"
  "key_rank key (t\<lparr>refresh_heap_index := j\<rparr>) ticket = key_rank key t ticket"
  "key_rank key (t\<lparr>next_refresh_ns := n\<rparr>) ticket = key_rank key t ticket"
  by (simp_all add: key_rank_def)

lemma order_compare_ok: "compare_ok (qhw_order_compare config)"
proof -
  have "qhw_order_compare config = (\<lambda>l r. vec_compare (order_vector (order_keys config) l 0) (order_vector (order_keys config) r 0))"
    by (simp add: fun_eq_iff order_compare_vec)
  then show ?thesis by (simp add: vec_compare_ok order_vector_def)
qed

subsection \<open>Options\<close>

definition given_keys :: "qhw_sched_kv list \<Rightarrow> u64 list" where
  "given_keys opts = map kv_bits (filter (\<lambda>opt. kv_key opt = QHW_SCHED_OPT_ORDER_KEY) opts)"

lemma order_parse_loop_keys:
  assumes "order_parse_loop config saw opts = (QHW_SCHED_OK, config')"
    and "saw \<Longrightarrow> length (order_keys config) \<le> 8" "saw \<Longrightarrow> order_keys config \<noteq> []"
  shows "order_keys config' = (if given_keys opts = [] then order_keys config
      else (if saw then order_keys config else []) @ given_keys opts) \<and>
    (given_keys opts \<noteq> [] \<longrightarrow> length (order_keys config') \<le> 8) \<and> (\<forall>k \<in> set (given_keys opts). order_key_supported k) \<and>
    order_boost config' = order_boost config"
  using assms
proof (induction config saw opts rule: order_parse_loop.induct)
  case (2 config saw opt rest)
  show ?case
  proof (cases "kv_key opt = QHW_SCHED_OPT_ORDER_KEY")
    case True
    let ?c = "if \<not> saw then config\<lparr>order_keys := []\<rparr> else config"
    obtain rc c where pk: "parse_order_key ?c opt = (rc, c)" by force
    have rc: "rc = QHW_SCHED_OK" "order_parse_loop c True rest = (QHW_SCHED_OK, config')"
      using 2(4) True pk by (simp_all add: Let_def split: if_splits)
    have c: "c = ?c\<lparr>order_keys := order_keys ?c @ [kv_bits opt]\<rparr>" "order_key_supported (kv_bits opt)" "length (order_keys c) \<le> 8"
      using pk rc by (auto simp: parse_order_key_def order_config_append_key_def split: if_splits)
    have "order_keys c \<noteq> []" using c(1) by simp
    with 2(1) [OF True refl pk [symmetric]] rc c(3) c(2) show ?thesis
      using True by (auto simp: given_keys_def c(1))
  next
    case F: False
    then have gk: "given_keys (opt # rest) = given_keys rest" by (simp add: given_keys_def)
    show ?thesis
    proof (cases "kv_key opt = QHW_SCHED_OPT_DEADLINE_NOW_NS")
      case True
      obtain rc c where pn: "order_parse_now_option config opt = (rc, c)" by force
      have rc: "rc = QHW_SCHED_OK" "order_parse_loop c saw rest = (QHW_SCHED_OK, config')"
        using 2(4) True pn by (simp_all add: Let_def split: if_splits)
      have "order_keys c = order_keys config" "order_boost c = order_boost config"
        using pn rc(1) by (auto simp: order_parse_now_option_def split: if_splits)
      then show ?thesis using 2(2) [OF F True pn [symmetric]] rc 2(5,6) unfolding gk by (cases saw) auto
    next
      case False
      then show ?thesis using 2(3) [OF F False] 2(4-6) F unfolding gk by (cases saw) auto
    qed
  qed
qed (simp add: given_keys_def)

end
