(* ===== verification/Deadline_Refresh.thy ===== *)
theory Deadline_Refresh
  imports Order_Key
begin

section \<open>Deadline refresh queue\<close>

text \<open>
  \<^verbatim>\<open>policy/qhw_deadline_refresh.c\<close>: a second heap over the ready tasks, ordered by the time at which a
  task's deadline boost has to be computed again. A ready task can be in both heaps; its
  \<^verbatim>\<open>refresh_heap_index\<close> is \<^verbatim>\<open>QHW_HEAP_INVALID_INDEX\<close> while it is not in this one. \<^verbatim>\<open>qhw_heap_fini\<close> releases
  the heap's array, which the model does not track, so \<^verbatim>\<open>qhw_deadline_refresh_fini\<close> has no effect here.
\<close>

record 'q qhw_deadline_refresh_queue =
  dr_heap :: 'q

definition refresh_compare :: "qhw_ready_task \<Rightarrow> qhw_ready_task \<Rightarrow> int" where
  "refresh_compare left right =
     (if next_refresh_ns left \<noteq> next_refresh_ns right
      then (if next_refresh_ns left < next_refresh_ns right then - 1 else 1)
      else if seq left \<noteq> seq right then (if seq left < seq right then - 1 else 1)
      else if task_id (rt_desc left) = task_id (rt_desc right) then 0
      else if task_id (rt_desc left) < task_id (rt_desc right) then - 1 else 1)"

definition refresh_update_index :: "index_updates \<Rightarrow> items \<Rightarrow> items option" where
  "refresh_update_index = write_indices (\<lambda>i t. t\<lparr>refresh_heap_index := i\<rparr>)"

definition item_write :: "ptr \<Rightarrow> (qhw_ready_task \<Rightarrow> qhw_ready_task) \<Rightarrow> items \<Rightarrow> items option" where
  "item_write p f A = do {
     t \<leftarrow> cells A p;
     Some (A\<lparr>cells := (cells A)(p \<mapsto> f t)\<rparr>)
   }"

definition qhw_deadline_refresh_init ::
  "('h, 'l, 'q) ds \<Rightarrow> mem \<Rightarrow> qhw_sched_rc \<times> 'q qhw_deadline_refresh_queue option \<times> mem" where
  "qhw_deadline_refresh_init D m =
     (case heap_init D m of
        (None, m) \<Rightarrow> (QHW_SCHED_ERR_NO_MEMORY, None, m)
      | (Some q, m) \<Rightarrow> (QHW_SCHED_OK, Some \<lparr>dr_heap = q\<rparr>, m))"

definition qhw_deadline_refresh_insert ::
  "('h, 'l, 'q) ds \<Rightarrow> 'q qhw_deadline_refresh_queue \<Rightarrow> items \<Rightarrow> ptr \<Rightarrow> mem \<Rightarrow>
   (qhw_sched_rc \<times> 'q qhw_deadline_refresh_queue \<times> items \<times> mem) option" where
  "qhw_deadline_refresh_insert D rf A p m = do {
     A \<leftarrow> item_write p (\<lambda>t. t\<lparr>refresh_heap_index := heap_invalid_index D\<rparr>) A;
     t \<leftarrow> cells A p;
     if next_refresh_ns t = QHW_DEADLINE_BOOST_NEVER then Some (QHW_SCHED_OK, rf, A, m)
     else do {
       let (ok, q, us, m) = heap_push D (items_compare refresh_compare A) (dr_heap rf) p m;
       A \<leftarrow> refresh_update_index us A;
       if \<not> ok then do {
         A \<leftarrow> item_write p (\<lambda>t. t\<lparr>refresh_heap_index := heap_invalid_index D\<rparr>) A;
         Some (QHW_SCHED_ERR_NO_MEMORY, rf\<lparr>dr_heap := q\<rparr>, A, m)
       }
       else Some (QHW_SCHED_OK, rf\<lparr>dr_heap := q\<rparr>, A, m)
     }
   }"

definition qhw_deadline_refresh_remove ::
  "('h, 'l, 'q) ds \<Rightarrow> 'q qhw_deadline_refresh_queue \<Rightarrow> items \<Rightarrow> ptr option \<Rightarrow>
   ('q qhw_deadline_refresh_queue \<times> items) option" where
  "qhw_deadline_refresh_remove D rf A task =
     (case task of
        None \<Rightarrow> Some (rf, A)
      | Some p \<Rightarrow> do {
          t \<leftarrow> cells A p;
          if refresh_heap_index t = heap_invalid_index D then Some (rf, A)
          else do {
            let (r, q, us) = heap_remove_at D (items_compare refresh_compare A) (dr_heap rf) (refresh_heap_index t);
            A \<leftarrow> refresh_update_index us A;
            A \<leftarrow> item_write p (\<lambda>t. t\<lparr>refresh_heap_index := heap_invalid_index D,
              next_refresh_ns := QHW_DEADLINE_BOOST_NEVER\<rparr>) A;
            Some (rf\<lparr>dr_heap := q\<rparr>, A)
          }
        })"

definition qhw_deadline_refresh_pop_expired ::
  "('h, 'l, 'q) ds \<Rightarrow> 'q qhw_deadline_refresh_queue \<Rightarrow> items \<Rightarrow> u64 \<Rightarrow>
   (ptr option \<times> 'q qhw_deadline_refresh_queue \<times> items) option" where
  "qhw_deadline_refresh_pop_expired D rf A now =
     (case heap_peek D (dr_heap rf) of
        None \<Rightarrow> Some (None, rf, A)
      | Some p \<Rightarrow> do {
          t \<leftarrow> cells A p;
          if now < next_refresh_ns t then Some (None, rf, A)
          else do {
            let (task, q, us) = heap_pop D (items_compare refresh_compare A) (dr_heap rf);
            A \<leftarrow> refresh_update_index us A;
            A \<leftarrow> (case task of
              None \<Rightarrow> Some A
            | Some p \<Rightarrow> item_write p (\<lambda>t. t\<lparr>refresh_heap_index := heap_invalid_index D,
                next_refresh_ns := QHW_DEADLINE_BOOST_NEVER\<rparr>) A);
            Some (task, rf\<lparr>dr_heap := q\<rparr>, A)
          }
        })"

subsection \<open>Objects that look the same to a heap\<close>

text \<open>
  Two stores that a heap cannot tell apart: every object has the same position in both and compares the
  same with everything.
\<close>

definition same_for :: "('a \<Rightarrow> nat) \<Rightarrow> ('a \<Rightarrow> 'a \<Rightarrow> int) \<Rightarrow> 'a arena \<Rightarrow> 'a arena \<Rightarrow> bool" where
  "same_for get f A A' \<longleftrightarrow> brk A' = brk A \<and>
     (\<forall>p. rel_option (\<lambda>t t'. get t' = get t \<and> (\<forall>u. f t' u = f t u \<and> f u t' = f u t)) (cells A p) (cells A' p))"

lemma same_for_refl [simp]: "same_for get f A A"
  by (auto simp: same_for_def intro: option.rel_refl)

lemma same_for_cells:
  "same_for get f A A' \<Longrightarrow> cells A p = Some t \<Longrightarrow>
   \<exists>t'. cells A' p = Some t' \<and> get t' = get t \<and> (\<forall>u. f t' u = f t u \<and> f u t' = f u t)"
  unfolding same_for_def by (elim conjE allE [of _ p]) (simp add: option_rel_Some1)

lemma same_for_None: "same_for get f A A' \<Longrightarrow> cells A' p = None \<longleftrightarrow> cells A p = None"
  unfolding same_for_def by (elim conjE allE [of _ p]) (auto elim: option.rel_cases)

lemma same_for_dom: "same_for get f A A' \<Longrightarrow> dom (cells A') = dom (cells A)"
  using same_for_None [of get f A A'] by (auto simp: dom_def)

lemma same_for_trans: "same_for get f A A' \<Longrightarrow> same_for get f A' A'' \<Longrightarrow> same_for get f A A''"
  unfolding same_for_def
  by (intro conjI allI; (elim conjE)?; (erule_tac x = p in allE)+; auto simp: option_rel_Some1 elim!: option.rel_cases)

lemma same_for_upd:
  assumes "cells A p = Some t" "get t' = get t" "\<And>u. f t' u = f t u" "\<And>u. f u t' = f u t"
  shows "same_for get f A (A\<lparr>cells := (cells A)(p \<mapsto> t')\<rparr>)"
  using assms by (auto simp: same_for_def intro: option.rel_refl)

context datastructures
begin

lemma heap_ok_same:
  assumes ok: "heap_ok G get f A q" and same: "same_for get f A A'"
  shows "heap_ok G get f A' q"
proof -
  have eq: "items_compare f A' x y = items_compare f A x y" for x y
    using same_for_cells [OF same, of x] same_for_cells [OF same, of y]
      same_for_None [OF same, of x] same_for_None [OF same, of y]
    by (cases "cells A x"; cases "cells A y") (auto simp: items_compare_def)
  then have "items_compare f A' = items_compare f A" by (simp add: fun_eq_iff)
  moreover have "index_at get A' x = index_at get A x" for x
    using same_for_cells [OF same, of x] same_for_None [OF same, of x]
    by (cases "cells A x") (auto simp: index_at_def)
  then have "index_at get A' = index_at get A" by (simp add: fun_eq_iff)
  ultimately show ?thesis using ok same_for_dom [OF same] by (simp add: heap_ok_def)
qed

end

subsection \<open>The queue's invariant\<close>

abbreviation (input) put_refresh :: "nat \<Rightarrow> qhw_ready_task \<Rightarrow> qhw_ready_task" where
  "put_refresh \<equiv> \<lambda>i t. t\<lparr>refresh_heap_index := i\<rparr>"

sublocale datastructures \<subseteq> rx: indexed_heap D G refresh_heap_index put_refresh
  by unfold_locales simp_all

definition pending :: "('h, 'l, 'q) ghost \<Rightarrow> 'q qhw_deadline_refresh_queue \<Rightarrow> ptr set" where
  "pending G rf = set (hp_items G (dr_heap rf))"

text \<open>Over a set of ready items: the index of an item is valid exactly while it is in the heap.\<close>

definition refresh_ok ::
  "('h, 'l, 'q) ds \<Rightarrow> ('h, 'l, 'q) ghost \<Rightarrow> 'q qhw_deadline_refresh_queue \<Rightarrow> items \<Rightarrow> ptr set \<Rightarrow> bool" where
  "refresh_ok D G rf A S \<longleftrightarrow>
     heap_ok G refresh_heap_index refresh_compare A (dr_heap rf) \<and> pending G rf \<subseteq> S \<and>
     (\<forall>p \<in> S. \<exists>t. cells A p = Some t \<and> (refresh_heap_index t \<noteq> heap_invalid_index D \<longleftrightarrow> p \<in> pending G rf))"

lemma refresh_compare_vec:
  "refresh_compare l r = vec_compare [uint (next_refresh_ns l), uint (seq l), uint (task_id (rt_desc l))]
     [uint (next_refresh_ns r), uint (seq r), uint (task_id (rt_desc r))]"
  by (auto simp: refresh_compare_def vec_compare_def word_less_def word_uint_eq_iff)

lemma refresh_compare_ok: "compare_ok refresh_compare"
  using vec_compare_ok [of "\<lambda>t. [uint (next_refresh_ns t), uint (seq t), uint (task_id (rt_desc t))]"]
  by (simp add: refresh_compare_vec [abs_def])

lemmas refresh_order = compare_ok_order [OF refresh_compare_ok]

lemma moved_cells: "moved put S A A' \<Longrightarrow> cells A p = Some t \<Longrightarrow> \<exists>t'. cells A' p = Some t' \<and> put 0 t' = put 0 t"
  unfolding moved_def by (elim conjE, elim allE [of _ p])+ auto

text \<open>What an operation may do to the items: move positions in this heap, and reset one item's refresh time.\<close>

definition reset_refresh :: "ptr \<Rightarrow> items \<Rightarrow> items" where
  "reset_refresh p A = A\<lparr>cells := (cells A)(p := map_option (\<lambda>t. t\<lparr>next_refresh_ns := QHW_DEADLINE_BOOST_NEVER\<rparr>) (cells A p))\<rparr>"

context datastructures
begin

lemma refresh_stable: "rx.stable refresh_compare"
  by (simp add: rx.stable_def refresh_compare_def)

lemma refresh_ok_same:
  assumes "refresh_ok D G rf A S" "same_for refresh_heap_index refresh_compare A A'"
  shows "refresh_ok D G rf A' S"
  using assms heap_ok_same [OF _ assms(2)] same_for_cells [OF assms(2)]
  unfolding refresh_ok_def by metis

lemma refresh_okE:
  assumes "refresh_ok D G rf A S" "p \<in> S"
  obtains t where "cells A p = Some t" "refresh_heap_index t \<noteq> heap_invalid_index D \<longleftrightarrow> p \<in> pending G rf"
  using assms that by (fastforce simp: refresh_ok_def)

lemma refresh_ok_dom: "refresh_ok D G rf A S \<Longrightarrow> S \<subseteq> dom (cells A)"
  by (auto simp: refresh_ok_def)

text \<open>Positions in the heap are valid indices; items outside keep the index they had.\<close>

lemma heap_index_valid:
  assumes ok: "heap_ok G refresh_heap_index refresh_compare A q" and p: "p \<in> set (hp_items G q)" "cells A p = Some t"
  shows "refresh_heap_index t < heap_invalid_index D"
proof -
  obtain i where i: "i < length (hp_items G q)" "hp_items G q ! i = p" using p(1) by (metis in_set_conv_nth)
  have "index_at refresh_heap_index A p = i" using ok i by (auto simp: heap_ok_def indices_ok_def)
  then have "refresh_heap_index t = i" using p(2) by (simp add: index_at_def)
  moreover have "length (hp_items G q) \<le> heap_invalid_index D" using ok hp_size by (auto simp: heap_ok_def)
  ultimately show ?thesis using i by simp
qed

lemma heap_ok_outside:
  assumes "heap_ok G get f A q" "p \<notin> set (hp_items G q)"
  shows "heap_ok G get f (A\<lparr>cells := (cells A)(p := x)\<rparr>) q"
  by (rule heap_ok_frame [OF assms(1)]) (use assms(2) in auto)

lemma refresh_init_ok:
  assumes "qhw_deadline_refresh_init D m = (rc, r, m')" "S \<subseteq> dom (cells A)"
    and "\<And>p t. p \<in> S \<Longrightarrow> cells A p = Some t \<Longrightarrow> refresh_heap_index t = heap_invalid_index D"
  shows "(rc = QHW_SCHED_OK) = (r \<noteq> None) \<and> (rc = QHW_SCHED_OK \<or> rc = QHW_SCHED_ERR_NO_MEMORY) \<and>
    (\<forall>rf. r = Some rf \<longrightarrow> refresh_ok D G rf A S \<and> pending G rf = {})"
proof (cases "heap_init D m")
  case (Pair q m1)
  show ?thesis
  proof (cases q)
    case None
    then show ?thesis using Pair assms(1) by (simp add: qhw_deadline_refresh_init_def)
  next
    case (Some q')
    note h = hp_init [OF Pair [unfolded Some], of "items_compare refresh_compare A"]
    have "refresh_ok D G \<lparr>dr_heap = q'\<rparr> A S"
      using h assms(2,3) by (fastforce simp: refresh_ok_def pending_def heap_ok_def cmp_order_def indices_ok_def)
    then show ?thesis using Pair Some assms(1) h by (auto simp: qhw_deadline_refresh_init_def pending_def)
  qed
qed

lemma refresh_insert_ok:
  assumes ok: "refresh_ok D G rf A S" and p: "p \<in> S" "p \<notin> pending G rf" and t: "cells A p = Some t"
  shows "succeeds (qhw_deadline_refresh_insert D rf A p m) (\<lambda>(rc, rf', A', m').
    refresh_ok D G rf' A' S \<and> moved put_refresh S A A' \<and>
    (if rc = QHW_SCHED_OK
     then pending G rf' = (if next_refresh_ns t = QHW_DEADLINE_BOOST_NEVER then pending G rf else insert p (pending G rf))
     else rc = QHW_SCHED_ERR_NO_MEMORY \<and> pending G rf' = pending G rf))"
proof -
  let ?q = "dr_heap rf" and ?t = "t\<lparr>refresh_heap_index := heap_invalid_index D\<rparr>"
  have ti: "refresh_heap_index t = heap_invalid_index D" using ok p t by (auto simp: refresh_ok_def)
  then have same: "?t = t" by simp
  have A1: "item_write p (\<lambda>t. t\<lparr>refresh_heap_index := heap_invalid_index D\<rparr>) A = Some A"
    using t same by (simp add: item_write_def fun_upd_idem)
  have hk: "heap_ok G refresh_heap_index refresh_compare A ?q" using ok by (simp add: refresh_ok_def)
  show ?thesis
  proof (cases "next_refresh_ns t = QHW_DEADLINE_BOOST_NEVER")
    case True
    then show ?thesis using A1 t ok by (simp add: qhw_deadline_refresh_insert_def)
  next
    case False
    have pq: "p \<notin> set (hp_items G ?q)" "p \<in> dom (cells A)" using p t by (auto simp: pending_def)
    have sub: "set (hp_items G ?q) \<subseteq> S" using ok by (simp add: refresh_ok_def pending_def)
    have dom: "insert p (set (hp_items G ?q)) \<subseteq> dom (cells A)" using hk pq by (auto simp: heap_ok_def)
    obtain b q' us m1 where push: "heap_push D (items_compare refresh_compare A) ?q p m = (b, q', us, m1)"
      by (metis prod_cases4)
    from rx.push_ok [OF hk refresh_stable pq refresh_order [OF dom] push] obtain A' where
      A': "refresh_update_index us A = Some A'" "moved put_refresh (insert p (set (hp_items G ?q))) A A'"
        "heap_ok G refresh_heap_index refresh_compare A' q'"
      and res: "if b then mset (hp_items G q') = add_mset p (mset (hp_items G ?q))
        else A' = A \<and> hp_items G q' = hp_items G ?q"
      by (auto simp: refresh_update_index_def)
    have mv: "moved put_refresh S A A'" using A'(2) sub p(1) by (auto simp: moved_def)
    show ?thesis
    proof (cases b)
      case True
      then have items: "set (hp_items G q') = insert p (set (hp_items G ?q))"
        using res by (metis set_mset_add_mset_insert set_mset_mset)
      have "\<exists>t'. cells A' x = Some t' \<and> (refresh_heap_index t' \<noteq> heap_invalid_index D \<longleftrightarrow> x \<in> set (hp_items G q'))"
        if xS: "x \<in> S" for x
      proof -
        obtain tx where tx: "cells A x = Some tx"
          "refresh_heap_index tx \<noteq> heap_invalid_index D \<longleftrightarrow> x \<in> pending G rf"
          by (rule refresh_okE [OF ok xS])
        show ?thesis
        proof (cases "x \<in> set (hp_items G q')")
          case True
          obtain t' where "cells A' x = Some t'" using moved_cells [OF A'(2) tx(1)] by blast
          then show ?thesis using heap_index_valid [OF A'(3) True] True by fastforce
        next
          case False
          then have "cells A' x = cells A x" using A'(2) items by (auto simp: moved_def)
          then show ?thesis using tx False items by (auto simp: pending_def)
        qed
      qed
      then have "refresh_ok D G (rf\<lparr>dr_heap := q'\<rparr>) A' S"
        using A'(3) items sub p(1) by (simp add: refresh_ok_def pending_def)
      then show ?thesis using A1 t \<open>_ \<noteq> QHW_DEADLINE_BOOST_NEVER\<close> push A'(1) True items mv
        by (simp add: qhw_deadline_refresh_insert_def pending_def)
    next
      case F: False
      then have "refresh_ok D G (rf\<lparr>dr_heap := q'\<rparr>) A S"
        using ok A'(3) res by (simp add: refresh_ok_def pending_def)
      then show ?thesis using A1 t False push A'(1) F res
        by (simp add: qhw_deadline_refresh_insert_def pending_def)
    qed
  qed
qed

lemma refresh_unlinked:
  assumes ok: "refresh_ok D G rf A S" and p: "p \<in> pending G rf"
    and mv: "moved put_refresh (pending G rf) A A1" and hk: "heap_ok G refresh_heap_index refresh_compare A1 q'"
    and items: "mset (hp_items G q') = mset (hp_items G (dr_heap rf)) - {#p#}"
  shows "\<exists>A'. item_write p (\<lambda>t. t\<lparr>refresh_heap_index := heap_invalid_index D,
        next_refresh_ns := QHW_DEADLINE_BOOST_NEVER\<rparr>) A1 = Some A' \<and>
    refresh_ok D G (rf\<lparr>dr_heap := q'\<rparr>) A' S \<and> pending G (rf\<lparr>dr_heap := q'\<rparr>) = pending G rf - {p} \<and>
    moved put_refresh S (reset_refresh p A) A'"
proof -
  have sub: "pending G rf \<subseteq> S" using ok by (simp add: refresh_ok_def)
  then have pS: "p \<in> S" using p by blast
  obtain t where t: "cells A p = Some t" by (rule refresh_okE [OF ok pS])
  obtain t1 where t1: "cells A1 p = Some t1" "t1\<lparr>refresh_heap_index := 0\<rparr> = t\<lparr>refresh_heap_index := 0\<rparr>"
    using moved_cells [OF mv t] by auto
  let ?t = "t1\<lparr>refresh_heap_index := heap_invalid_index D, next_refresh_ns := QHW_DEADLINE_BOOST_NEVER\<rparr>"
  let ?A = "A1\<lparr>cells := (cells A1)(p \<mapsto> ?t)\<rparr>"
  have "distinct (hp_items G (dr_heap rf))" using ok by (simp add: refresh_ok_def heap_ok_def)
  then have set': "set (hp_items G q') = pending G rf - {p}" using rx.items_diff [OF _ items] by (simp add: pending_def)
  have wr: "item_write p (\<lambda>t. t\<lparr>refresh_heap_index := heap_invalid_index D,
        next_refresh_ns := QHW_DEADLINE_BOOST_NEVER\<rparr>) A1 = Some ?A"
    using t1 by (simp add: item_write_def)
  have hk': "heap_ok G refresh_heap_index refresh_compare ?A q'"
    by (rule heap_ok_outside [OF hk]) (simp add: set')
  have "\<exists>t'. cells ?A x = Some t' \<and> (refresh_heap_index t' \<noteq> heap_invalid_index D \<longleftrightarrow> x \<in> pending G rf - {p})"
    if xS: "x \<in> S" for x
  proof -
    obtain tx where tx: "cells A x = Some tx" "refresh_heap_index tx \<noteq> heap_invalid_index D \<longleftrightarrow> x \<in> pending G rf"
      by (rule refresh_okE [OF ok xS])
    consider "x = p" | "x \<noteq> p" "x \<in> pending G rf" | "x \<noteq> p" "x \<notin> pending G rf" by blast
    then show ?thesis
    proof cases
      case 2
      obtain t' where "cells ?A x = Some t'" using moved_cells [OF mv tx(1)] 2 by auto
      then show ?thesis using heap_index_valid [OF hk', of x t'] 2 set' by auto
    next
      case 3
      then show ?thesis using tx mv by (auto simp: moved_def)
    qed simp
  qed
  then have "refresh_ok D G (rf\<lparr>dr_heap := q'\<rparr>) ?A S" using hk' sub set' by (auto simp: refresh_ok_def pending_def)
  moreover have "?t\<lparr>refresh_heap_index := 0\<rparr> = t\<lparr>refresh_heap_index := 0, next_refresh_ns := QHW_DEADLINE_BOOST_NEVER\<rparr>"
    using t1(2) by (cases t; cases t1) simp
  then have "moved put_refresh S (reset_refresh p A) ?A"
    using mv sub pS t by (auto simp: moved_def reset_refresh_def)
  ultimately show ?thesis using wr set' by (simp add: pending_def)
qed

lemma refresh_remove_ok:
  assumes ok: "refresh_ok D G rf A S" and p: "p \<in> S"
  shows "succeeds (qhw_deadline_refresh_remove D rf A (Some p)) (\<lambda>(rf', A').
    refresh_ok D G rf' A' S \<and> pending G rf' = pending G rf - {p} \<and>
    moved put_refresh S (if p \<in> pending G rf then reset_refresh p A else A) A')"
proof -
  obtain t where t: "cells A p = Some t" "refresh_heap_index t \<noteq> heap_invalid_index D \<longleftrightarrow> p \<in> pending G rf"
    by (rule refresh_okE [OF ok p])
  show ?thesis
  proof (cases "p \<in> pending G rf")
    case False
    then show ?thesis using t ok by (simp add: qhw_deadline_refresh_remove_def)
  next
    case True
    let ?q = "dr_heap rf"
    have h: "hp_ok G (items_compare refresh_compare A) ?q" "distinct (hp_items G ?q)"
      "set (hp_items G ?q) \<subseteq> dom (cells A)" "indices_ok (index_at refresh_heap_index A) (hp_items G ?q)"
      using ok by (simp_all add: refresh_ok_def heap_ok_def)
    have at: "p \<in> set (hp_items G ?q)" "index_at refresh_heap_index A p = refresh_heap_index t"
      using True t by (simp_all add: pending_def index_at_def)
    have sub: "set (hp_items G ?q) - {p} \<subseteq> dom (cells A)" using h(3) by blast
    obtain r q' us where rem: "heap_remove_at D (items_compare refresh_compare A) ?q (refresh_heap_index t) = (r, q', us)"
      by (metis prod_cases3)
    have "cmp_agree (items_compare refresh_compare A) (items_compare refresh_compare A) (set (hp_items G ?q) - {p})"
      by (simp add: cmp_agree_def)
    from rx.remove_at_ok [OF h at this refresh_order [OF sub] refresh_stable rem] obtain A1 where
      A1: "refresh_update_index us A = Some A1" "moved put_refresh (set (hp_items G ?q)) A A1"
        "heap_ok G refresh_heap_index refresh_compare A1 q'" "mset (hp_items G q') = mset (hp_items G ?q) - {#p#}"
      by (auto simp: refresh_update_index_def)
    from refresh_unlinked [OF ok True A1(2) [folded pending_def] A1(3,4)] obtain A' where
      "item_write p (\<lambda>t. t\<lparr>refresh_heap_index := heap_invalid_index D,
        next_refresh_ns := QHW_DEADLINE_BOOST_NEVER\<rparr>) A1 = Some A'"
      "refresh_ok D G (rf\<lparr>dr_heap := q'\<rparr>) A' S" "pending G (rf\<lparr>dr_heap := q'\<rparr>) = pending G rf - {p}"
      "moved put_refresh S (reset_refresh p A) A'" by blast
    then show ?thesis using t True rem A1(1) by (simp add: qhw_deadline_refresh_remove_def)
  qed
qed

lemma refresh_pop_ok:
  assumes ok: "refresh_ok D G rf A S"
  shows "succeeds (qhw_deadline_refresh_pop_expired D rf A now) (\<lambda>(r, rf', A').
    refresh_ok D G rf' A' S \<and>
    (case r of
       None \<Rightarrow> rf' = rf \<and> A' = A \<and> (\<forall>p \<in> pending G rf. \<forall>t. cells A p = Some t \<longrightarrow> now < next_refresh_ns t)
     | Some p \<Rightarrow> p \<in> pending G rf \<and> (\<exists>t. cells A p = Some t \<and> next_refresh_ns t \<le> now) \<and>
         pending G rf' = pending G rf - {p} \<and> moved put_refresh S (reset_refresh p A) A'))"
proof -
  let ?q = "dr_heap rf"
  have hk: "heap_ok G refresh_heap_index refresh_compare A ?q" using ok by (simp add: refresh_ok_def)
  have h: "hp_ok G (items_compare refresh_compare A) ?q" "cmp_order (items_compare refresh_compare A) (set (hp_items G ?q))"
    using hk by (simp_all add: heap_ok_def)
  show ?thesis
  proof (cases "hp_items G ?q = []")
    case True
    then show ?thesis using hp_peek_none [OF True] ok by (simp add: qhw_deadline_refresh_pop_expired_def pending_def)
  next
    case False
    from hp_peek_some [OF h False] obtain p where p: "heap_peek D ?q = Some p" "p \<in> set (hp_items G ?q)"
      "\<forall>x \<in> set (hp_items G ?q). items_compare refresh_compare A p x \<le> 0" by blast
    then obtain t where t: "cells A p = Some t" using hk by (auto simp: heap_ok_def)
    have least: "next_refresh_ns t \<le> next_refresh_ns tx" if "x \<in> set (hp_items G ?q)" "cells A x = Some tx" for x tx
    proof (rule ccontr)
      assume "\<not> next_refresh_ns t \<le> next_refresh_ns tx"
      then have "refresh_compare t tx = 1" by (auto simp: refresh_compare_def not_le)
      then show False using p(3) that t by (fastforce simp: items_compare_def)
    qed
    show ?thesis
    proof (cases "now < next_refresh_ns t")
      case True
      then show ?thesis using p t ok least by (fastforce simp: qhw_deadline_refresh_pop_expired_def pending_def)
    next
      case F: False
      obtain r q' us where pop: "heap_pop D (items_compare refresh_compare A) ?q = (r, q', us)" by (metis prod_cases3)
      from rx.pop_ok [OF hk refresh_stable pop] p(1) obtain A1 where
        A1: "refresh_update_index us A = Some A1" "moved put_refresh (set (hp_items G ?q)) A A1"
          "heap_ok G refresh_heap_index refresh_compare A1 q'" "r = Some p"
          "mset (hp_items G q') = mset (hp_items G ?q) - {#p#}"
        by (auto simp: refresh_update_index_def)
      have pend: "p \<in> pending G rf" using p(2) by (simp add: pending_def)
      from refresh_unlinked [OF ok pend A1(2) [folded pending_def] A1(3,5)] obtain A' where
        "item_write p (\<lambda>t. t\<lparr>refresh_heap_index := heap_invalid_index D,
          next_refresh_ns := QHW_DEADLINE_BOOST_NEVER\<rparr>) A1 = Some A'"
        "refresh_ok D G (rf\<lparr>dr_heap := q'\<rparr>) A' S" "pending G (rf\<lparr>dr_heap := q'\<rparr>) = pending G rf - {p}"
        "moved put_refresh S (reset_refresh p A) A'" by blast
      then show ?thesis using p(1) t F pop A1(1,4) pend
        by (simp add: qhw_deadline_refresh_pop_expired_def)
    qed
  qed
qed

end

end
