(* ===== verification/Boosted_Queue.thy ===== *)
theory Boosted_Queue
  imports Deadline_Refresh
begin

section \<open>A ready queue with a refresh queue over the same items\<close>

text \<open>
  The priority and the ordered policy keep each ready task in a heap ordered by effective priority and, while
  its deadline boost will change, in the refresh heap. This theory collects what both policies need: the two
  heaps do not disturb each other, an item whose keys were rewritten finds its new place, and items come and go.
\<close>

subsection \<open>Items up to their heap positions\<close>

definition core :: "qhw_ready_task \<Rightarrow> qhw_ready_task" where
  "core t = t\<lparr>heap_index := 0, refresh_heap_index := 0\<rparr>"

definition look :: "items \<Rightarrow> ptr \<Rightarrow> qhw_ready_task option" where
  "look A p = map_option core (cells A p)"

lemma core_sel [simp]:
  "rt_desc (core t) = rt_desc t" "base_priority (core t) = base_priority t"
  "effective_priority (core t) = effective_priority t" "next_refresh_ns (core t) = next_refresh_ns t"
  "seq (core t) = seq t" "rt_estimated_cost (core t) = rt_estimated_cost t"
  by (simp_all add: core_def)

lemma core_upd [simp]:
  "core (t\<lparr>next_refresh_ns := n\<rparr>) = (core t)\<lparr>next_refresh_ns := n\<rparr>"
  "core (t\<lparr>effective_priority := v\<rparr>) = (core t)\<lparr>effective_priority := v\<rparr>"
  "core (t\<lparr>base_priority := v\<rparr>) = (core t)\<lparr>base_priority := v\<rparr>"
  by (cases t; simp add: core_def)+

lemma core_put_index: "core (t\<lparr>heap_index := i\<rparr>) = core t" "core (t\<lparr>refresh_heap_index := i\<rparr>) = core t"
  by (simp_all add: core_def)

lemma core_index_cong: "t'\<lparr>heap_index := 0\<rparr> = t\<lparr>heap_index := 0\<rparr> \<Longrightarrow> core t' = core t"
  by (cases t; cases t') (simp add: core_def)

lemma core_refresh_cong: "t'\<lparr>refresh_heap_index := 0\<rparr> = t\<lparr>refresh_heap_index := 0\<rparr> \<Longrightarrow> core t' = core t"
  by (cases t; cases t') (simp add: core_def)

lemma look_moved_index: "moved put_index S A A' \<Longrightarrow> look A' = look A"
proof (rule ext)
  fix p
  assume "moved put_index S A A'"
  then have "map_option (put_index 0) (cells A' p) = map_option (put_index 0) (cells A p)" by (simp add: moved_def)
  then show "look A' p = look A p"
    by (cases "cells A p"; cases "cells A' p") (auto simp: look_def intro: core_index_cong)
qed

lemma look_moved_refresh: "moved put_refresh S A A' \<Longrightarrow> look A' = look A"
proof (rule ext)
  fix p
  assume "moved put_refresh S A A'"
  then have "map_option (put_refresh 0) (cells A' p) = map_option (put_refresh 0) (cells A p)" by (simp add: moved_def)
  then show "look A' p = look A p"
    by (cases "cells A p"; cases "cells A' p") (auto simp: look_def intro: core_refresh_cong)
qed

lemma look_reset:
  "look (reset_refresh p A) = (look A)(p := map_option (\<lambda>t. t\<lparr>next_refresh_ns := QHW_DEADLINE_BOOST_NEVER\<rparr>) (look A p))"
  by (auto simp: look_def reset_refresh_def fun_eq_iff option.map_comp o_def)

lemma look_None [simp]: "look A p = None \<longleftrightarrow> cells A p = None"
  by (simp add: look_def)

lemma task_at_look: "task_at A p = map_option (task_id \<circ> rt_desc) (look A p)"
  by (simp add: task_at_def look_def option.map_comp o_def)

subsection \<open>The two heaps do not disturb each other\<close>

text \<open>A comparison that ignores the base priority and the fields of the refresh heap.\<close>

definition refresh_free :: "(qhw_ready_task \<Rightarrow> qhw_ready_task \<Rightarrow> int) \<Rightarrow> bool" where
  "refresh_free f \<longleftrightarrow> (\<forall>x y b c i n j m. f (x\<lparr>base_priority := b, refresh_heap_index := i, next_refresh_ns := n\<rparr>)
     (y\<lparr>base_priority := c, refresh_heap_index := j, next_refresh_ns := m\<rparr>) = f x y)"

definition refresh_twin :: "qhw_ready_task \<Rightarrow> qhw_ready_task \<Rightarrow> bool" where
  "refresh_twin t t' \<longleftrightarrow> t\<lparr>base_priority := base_priority t', refresh_heap_index := refresh_heap_index t',
     next_refresh_ns := next_refresh_ns t'\<rparr> = t'"

lemma refresh_twin_refl [simp]: "refresh_twin t t"
  by (simp add: refresh_twin_def)

lemma refresh_twin_compare: "refresh_free f \<Longrightarrow> refresh_twin t t' \<Longrightarrow> f t' u = f t u \<and> f u t' = f u t"
proof -
  assume f: "refresh_free f" and tw: "refresh_twin t t'"
  have u: "u\<lparr>base_priority := base_priority u, refresh_heap_index := refresh_heap_index u, next_refresh_ns := next_refresh_ns u\<rparr> = u"
    by simp
  show ?thesis using f tw u unfolding refresh_free_def refresh_twin_def by metis
qed

definition ready_same :: "(qhw_ready_task \<Rightarrow> qhw_ready_task \<Rightarrow> int) \<Rightarrow> items \<Rightarrow> items \<Rightarrow> bool" where
  "ready_same f A A' \<longleftrightarrow> same_for heap_index f A A' \<and> (\<forall>p. task_at A' p = task_at A p)"

lemma twins_ready_same:
  assumes f: "refresh_free f" and brk: "brk A' = brk A"
    and twin: "\<And>p. rel_option refresh_twin (cells A p) (cells A' p)"
  shows "ready_same f A A'"
proof -
  have "rel_option (\<lambda>t t'. heap_index t' = heap_index t \<and> (\<forall>u. f t' u = f t u \<and> f u t' = f u t)) (cells A p) (cells A' p)" for p
  proof -
    have "heap_index t' = heap_index t" if "refresh_twin t t'" for t t'
      using arg_cong [OF that [unfolded refresh_twin_def], of heap_index] by simp
    then show ?thesis using twin [of p] refresh_twin_compare [OF f] by (auto elim!: option.rel_mono_strong)
  qed
  moreover have "task_at A' p = task_at A p" for p
  proof -
    have "rt_desc t' = rt_desc t" if "refresh_twin t t'" for t t'
      using arg_cong [OF that [unfolded refresh_twin_def], of rt_desc] by simp
    then show ?thesis using twin [of p] by (auto simp: task_at_def elim!: option.rel_cases)
  qed
  ultimately show ?thesis using brk by (simp add: ready_same_def same_for_def)
qed

lemma moved_ready_same:
  assumes f: "refresh_free f" and mv: "moved put_refresh S A A'"
  shows "ready_same f A A'"
proof (rule twins_ready_same [OF f])
  show "brk A' = brk A" using mv by (simp add: moved_def)
  have tw: "refresh_twin t t'" if "t'\<lparr>refresh_heap_index := 0\<rparr> = t\<lparr>refresh_heap_index := 0\<rparr>" for t t'
    using that by (cases t; cases t') (simp add: refresh_twin_def)
  show "rel_option refresh_twin (cells A p) (cells A' p)" for p
  proof -
    have "map_option (put_refresh 0) (cells A' p) = map_option (put_refresh 0) (cells A p)" using mv by (simp add: moved_def)
    then show ?thesis using tw by (cases "cells A p"; cases "cells A' p") auto
  qed
qed

lemma reset_ready_same: "refresh_free f \<Longrightarrow> ready_same f A (reset_refresh p A)"
  by (rule twins_ready_same)
    (auto simp: reset_refresh_def refresh_twin_def option.rel_map intro!: option.rel_refl)

lemma ready_same_trans: "ready_same f A A' \<Longrightarrow> ready_same f A' A'' \<Longrightarrow> ready_same f A A''"
  unfolding ready_same_def using same_for_trans by metis

lemma same_for_arena_ok: "same_for get f A A' \<Longrightarrow> arena_ok A \<Longrightarrow> arena_ok A'"
  using same_for_None [of get f A A'] by (auto simp: arena_ok_def same_for_def)

text \<open>Moving positions in the ready heap is invisible to the refresh heap.\<close>

lemma moved_refresh_same:
  assumes "moved put_index S A A'"
  shows "same_for refresh_heap_index refresh_compare A A'"
proof -
  have *: "refresh_heap_index t' = refresh_heap_index t \<and> (\<forall>u. refresh_compare t' u = refresh_compare t u \<and> refresh_compare u t' = refresh_compare u t)"
    if "t'\<lparr>heap_index := 0\<rparr> = t\<lparr>heap_index := 0\<rparr>" for t t'
    using that by (cases t; cases t') (simp add: refresh_compare_def)
  have "rel_option (\<lambda>t t'. refresh_heap_index t' = refresh_heap_index t \<and>
      (\<forall>u. refresh_compare t' u = refresh_compare t u \<and> refresh_compare u t' = refresh_compare u t)) (cells A p) (cells A' p)" for p
  proof -
    have "map_option (put_index 0) (cells A' p) = map_option (put_index 0) (cells A p)" using assms by (simp add: moved_def)
    then show ?thesis by (cases "cells A p"; cases "cells A' p"; simp; intro *; simp)
  qed
  then show ?thesis using assms by (simp add: same_for_def moved_def)
qed

context datastructures
begin

lemma ready_ok_same:
  assumes ok: "ready_ok D G rq A" and kind: "rq_kind rq = QHW_READY_QUEUE_HEAP" "rq_compare rq = Some f"
    and same: "ready_same f A A'"
  shows "ready_ok D G rq A'"
proof -
  obtain q where q: "rq_heap rq = Some q" "compare_ok f" "heap_ok G heap_index f A q"
    using ok kind by (auto simp: ready_ok_def shape_ok_def split: option.splits)
  have s: "same_for heap_index f A A'" and at: "\<And>p. task_at A' p = task_at A p"
    using same by (simp_all add: ready_same_def)
  have "shape_ok G rq A'" using q kind heap_ok_same [OF q(3) s] by (simp add: shape_ok_def)
  then show ?thesis using ok same_for_arena_ok [OF s] same_for_dom [OF s] at by (simp add: ready_ok_def)
qed

text \<open>
  An item whose keys were rewritten in the store (\<^verbatim>\<open>A1\<close>, everything else as in \<^verbatim>\<open>A\<close>) gets back to its place.
\<close>

lemma ready_reorder_ok:
  assumes ok: "ready_ok D G rq A" and kind: "rq_kind rq = QHW_READY_QUEUE_HEAP" and p: "p \<in> set (rq_elems G rq)"
    and t: "cells A p = Some t" and t1: "heap_index t1 = heap_index t" "task_id (rt_desc t1) = task_id (rt_desc t)"
  shows "succeeds (qhw_ready_queue_reorder D rq (A\<lparr>cells := (cells A)(p \<mapsto> t1)\<rparr>) p) (\<lambda>(rc, rq', A').
    rc = QHW_SCHED_OK \<and> ready_ok D G rq' A' \<and> same_setup rq rq' \<and> rq_by_id rq' = rq_by_id rq \<and>
    set (rq_elems G rq') = set (rq_elems G rq) \<and> moved put_index (set (rq_elems G rq)) (A\<lparr>cells := (cells A)(p \<mapsto> t1)\<rparr>) A')"
proof -
  obtain f q where fq: "rq_compare rq = Some f" "rq_heap rq = Some q" "heap_ok G heap_index f A q" "compare_ok f"
    using ok kind by (auto simp: ready_ok_def shape_ok_def split: option.splits)
  have el: "rq_elems G rq = hp_items G q" using fq kind by (simp add: rq_elems_def)
  let ?A = "A\<lparr>cells := (cells A)(p \<mapsto> t1)\<rparr>"
  have cmp: "ready_heap_compare rq ?A = items_compare f ?A" using fq by (simp add: ready_heap_compare_def)
  have hk: "hp_ok G (items_compare f A) q" "distinct (hp_items G q)" "set (hp_items G q) \<subseteq> dom (cells ?A)"
    using fq(3) by (auto simp: heap_ok_def)
  have "index_at heap_index ?A x = index_at heap_index A x" for x using t t1 by (simp add: index_at_def)
  then have ix: "indices_ok (index_at heap_index ?A) (hp_items G q)" "index_at heap_index ?A p = heap_index t1"
    using fq(3) t t1 by (simp_all add: heap_ok_def indices_ok_def index_at_def)
  have agree: "cmp_agree (items_compare f A) (items_compare f ?A) (set (hp_items G q) - {p})"
    by (simp add: cmp_agree_def items_compare_def)
  obtain b q' us where reh: "heap_reheapify_at D (items_compare f ?A) q (heap_index t1) = (b, q', us)" by (metis prod_cases3)
  from hx.reheapify_ok [OF hk ix(1) p [unfolded el] ix(2) agree compare_ok_order [OF fq(4) hk(3)] compare_ok_stable [OF fq(4)] reh]
  obtain A' where A': "ready_heap_update_index us ?A = Some A'" "moved put_index (set (hp_items G q)) ?A A'"
    "heap_ok G heap_index f A' q'" "b" "mset (hp_items G q') = mset (hp_items G q)"
    by (auto simp: ready_heap_update_index_def)
  let ?rq = "rq\<lparr>rq_heap := Some q'\<rparr>"
  have el': "rq_elems G ?rq = hp_items G q'" "set (hp_items G q') = set (hp_items G q)"
    using kind mset_eq_setD [OF A'(5)] by (simp_all add: rq_elems_def)
  have at: "task_at A' x = task_at A x" for x
    using task_at_moved [OF A'(2), of x] t t1 by (auto simp: task_at_def)
  have "arena_ok ?A" using ok t by (simp add: ready_ok_def)
  then have "arena_ok A'" using moved_arena_ok [OF A'(2)] by blast
  moreover have "set (hp_items G q') \<subseteq> dom (cells A')" using A'(3) by (simp add: heap_ok_def)
  ultimately have "ready_ok D G ?rq A'"
    using ok fq kind A'(3) el el' at by (simp add: ready_ok_def shape_ok_def)
  then show ?thesis using kind fq cmp reh A' el el' by (simp add: qhw_ready_queue_reorder_def same_setup_def)
qed

end

subsection \<open>Several ready queues and one refresh queue\<close>

text \<open>
  \<^verbatim>\<open>Q\<close> names the ready queues, which share the store of items; every item is in one of them, and the refresh
  queue holds items of all of them. The priority policy is the case of a single queue.
\<close>

type_synonym ('h, 'l, 'q) queues = "ptr \<rightharpoonup> ('h, 'l, 'q) qhw_ready_queue"

definition elems_of :: "('h, 'l, 'q) ghost \<Rightarrow> ('h, 'l, 'q) queues \<Rightarrow> ptr set" where
  "elems_of G Q = {p. \<exists>g rq. Q g = Some rq \<and> p \<in> set (rq_elems G rq)}"

definition heap_queue_ok ::
  "('h, 'l, 'q) ds \<Rightarrow> ('h, 'l, 'q) ghost \<Rightarrow> (qhw_ready_task \<Rightarrow> qhw_ready_task \<Rightarrow> int) \<Rightarrow> ('h, 'l, 'q) qhw_ready_queue \<Rightarrow>
   items \<Rightarrow> bool" where
  "heap_queue_ok D G f rq A \<longleftrightarrow> ready_ok D G rq A \<and> rq_kind rq = QHW_READY_QUEUE_HEAP \<and> rq_compare rq = Some f"

definition shared ::
  "('h, 'l, 'q) ds \<Rightarrow> ('h, 'l, 'q) ghost \<Rightarrow> (qhw_ready_task \<Rightarrow> qhw_ready_task \<Rightarrow> int) \<Rightarrow>
   ('h, 'l, 'q) queues \<Rightarrow> 'q qhw_deadline_refresh_queue \<Rightarrow> items \<Rightarrow> bool" where
  "shared D G f Q rf A \<longleftrightarrow> arena_ok A \<and> refresh_free f \<and> refresh_ok D G rf A (elems_of G Q) \<and>
     (\<forall>g rq. Q g = Some rq \<longrightarrow> heap_queue_ok D G f rq A) \<and>
     (\<forall>g h rq rq'. Q g = Some rq \<longrightarrow> Q h = Some rq' \<longrightarrow> g \<noteq> h \<longrightarrow> set (rq_elems G rq) \<inter> set (rq_elems G rq') = {})"

lemma elems_of_in: "Q g = Some rq \<Longrightarrow> p \<in> set (rq_elems G rq) \<Longrightarrow> p \<in> elems_of G Q"
  by (auto simp: elems_of_def)

lemma elems_of_single [simp]: "elems_of G [g \<mapsto> rq] = set (rq_elems G rq)"
  by (auto simp: elems_of_def)

lemma elems_of_upd: "elems_of G (Q(g \<mapsto> rq')) = set (rq_elems G rq') \<union> elems_of G (Q(g := None))"
proof (rule set_eqI)
  fix p
  show "p \<in> elems_of G (Q(g \<mapsto> rq')) \<longleftrightarrow> p \<in> set (rq_elems G rq') \<union> elems_of G (Q(g := None))"
    by (auto simp: elems_of_def)
qed

lemma elems_of_split: "Q g = Some rq \<Longrightarrow> elems_of G Q = set (rq_elems G rq) \<union> elems_of G (Q(g := None))"
  using elems_of_upd [of G Q g rq] by (metis fun_upd_triv)

lemma elems_of_same: "Q g = Some rq \<Longrightarrow> set (rq_elems G rq') = set (rq_elems G rq) \<Longrightarrow> elems_of G (Q(g \<mapsto> rq')) = elems_of G Q"
  by (simp add: elems_of_upd elems_of_split)

lemma elems_of_grown:
  "Q g = Some rq \<Longrightarrow> set (rq_elems G rq') = insert p (set (rq_elems G rq)) \<Longrightarrow>
   elems_of G (Q(g \<mapsto> rq')) = insert p (elems_of G Q)"
  by (simp add: elems_of_upd elems_of_split)

lemma sharedD:
  assumes "shared D G f Q rf A"
  shows "arena_ok A" "refresh_free f" "refresh_ok D G rf A (elems_of G Q)"
  using assms by (simp_all add: shared_def)

lemma shared_queue:
  assumes "shared D G f Q rf A" "Q g = Some rq"
  shows "ready_ok D G rq A" "rq_kind rq = QHW_READY_QUEUE_HEAP" "rq_compare rq = Some f"
  using assms by (auto simp: shared_def heap_queue_ok_def)

lemma shared_disjoint:
  "shared D G f Q rf A \<Longrightarrow> Q g = Some rq \<Longrightarrow> Q h = Some rq' \<Longrightarrow> p \<in> set (rq_elems G rq) \<Longrightarrow> p \<in> set (rq_elems G rq') \<Longrightarrow> g = h"
  unfolding shared_def by blast

lemma shared_outside:
  assumes "shared D G f Q rf A" "Q g = Some rq" "p \<in> set (rq_elems G rq)"
  shows "p \<notin> elems_of G (Q(g := None))"
proof
  assume "p \<in> elems_of G (Q(g := None))"
  then obtain h r where r: "(Q(g := None)) h = Some r" "p \<in> set (rq_elems G r)" unfolding elems_of_def by blast
  then have "h \<noteq> g" "Q h = Some r" by (simp_all split: if_splits)
  then show False using shared_disjoint [OF assms(1,2) _ assms(3) r(2)] by blast
qed

lemma elems_of_shrunk:
  assumes "shared D G f Q rf A" "Q g = Some rq" "p \<in> set (rq_elems G rq)" "set (rq_elems G rq') = set (rq_elems G rq) - {p}"
  shows "elems_of G (Q(g \<mapsto> rq')) = elems_of G Q - {p}"
proof -
  have "elems_of G (Q(g \<mapsto> rq')) = set (rq_elems G rq) - {p} \<union> elems_of G (Q(g := None))"
    by (simp only: elems_of_upd assms(4))
  moreover have "elems_of G Q = set (rq_elems G rq) \<union> elems_of G (Q(g := None))" by (rule elems_of_split [of Q, OF assms(2)])
  ultimately show ?thesis using shared_outside [OF assms(1-3)] by blast
qed

context datastructures
begin

lemma others_kept_at:
  assumes "others_kept x E A A'" "y \<noteq> x" "cells A y = Some t"
  obtains t' where "cells A' y = Some t'" "t'\<lparr>heap_index := 0\<rparr> = t\<lparr>heap_index := 0\<rparr>"
proof -
  have "map_option (put_index 0) (cells A' y) = map_option (put_index 0) (cells A y)"
    using assms(1,2) by (simp add: others_kept_def)
  then show ?thesis using that assms(3) by auto
qed

lemma heap_ok_twin:
  assumes ok: "heap_ok G get f A q"
    and same: "\<And>p t. p \<in> set (hp_items G q) \<Longrightarrow> cells A p = Some t \<Longrightarrow>
      \<exists>t'. cells A' p = Some t' \<and> get t' = get t \<and> (\<forall>u. f t' u = f t u \<and> f u t' = f u t)"
  shows "heap_ok G get f A' q"
proof -
  let ?S = "set (hp_items G q)"
  have dom: "?S \<subseteq> dom (cells A)" using ok by (simp add: heap_ok_def)
  have eq: "items_compare f A x y = items_compare f A' x y" if "x \<in> ?S" "y \<in> ?S" for x y
  proof -
    obtain tx ty where t: "cells A x = Some tx" "cells A y = Some ty" using dom \<open>x \<in> ?S\<close> \<open>y \<in> ?S\<close> by blast
    obtain tx' where x: "cells A' x = Some tx'" "\<forall>u. f tx' u = f tx u \<and> f u tx' = f u tx"
      using same [OF \<open>x \<in> ?S\<close> t(1)] by blast
    obtain ty' where y: "cells A' y = Some ty'" "\<forall>u. f ty' u = f ty u \<and> f u ty' = f u ty"
      using same [OF \<open>y \<in> ?S\<close> t(2)] by blast
    show ?thesis using t x y by (simp add: items_compare_def)
  qed
  have "hp_ok G (items_compare f A') q"
    by (rule hp_cong [of "items_compare f A"]) (use ok eq in \<open>simp_all add: heap_ok_def cmp_agree_def\<close>)
  moreover have "cmp_order (items_compare f A') ?S"
    using ok cmp_order_cong [of ?S "items_compare f A" "items_compare f A'"] eq by (simp add: heap_ok_def)
  moreover have "index_at get A' x = index_at get A x" if x: "x \<in> ?S" for x
  proof -
    obtain t where "cells A x = Some t" using dom x by blast
    then show ?thesis using same [OF x] by (auto simp: index_at_def)
  qed
  then have "indices_ok (index_at get A') (hp_items G q)" using ok by (simp add: heap_ok_def indices_ok_def)
  moreover have "?S \<subseteq> dom (cells A')" using dom same by blast
  ultimately show ?thesis using ok by (simp add: heap_ok_def)
qed

lemma index_twin:
  "t'\<lparr>heap_index := 0\<rparr> = t\<lparr>heap_index := 0\<rparr> \<Longrightarrow> refresh_heap_index t' = refresh_heap_index t \<and>
   (\<forall>u. refresh_compare t' u = refresh_compare t u \<and> refresh_compare u t' = refresh_compare u t)"
  by (cases t; cases t') (simp add: refresh_compare_def)

lemma refresh_ok_others:
  assumes ok: "refresh_ok D G rf A S" and oth: "others_kept x E A A'" and x: "x \<notin> pending G rf"
  shows "refresh_ok D G rf A' (S - {x})"
proof -
  have "heap_ok G refresh_heap_index refresh_compare A' (dr_heap rf)"
  proof (rule heap_ok_twin)
    show "heap_ok G refresh_heap_index refresh_compare A (dr_heap rf)" using ok by (simp add: refresh_ok_def)
    fix p t
    assume p: "p \<in> set (hp_items G (dr_heap rf))" "cells A p = Some t"
    then have "p \<noteq> x" using x by (auto simp: pending_def)
    then obtain t' where "cells A' p = Some t'" "t'\<lparr>heap_index := 0\<rparr> = t\<lparr>heap_index := 0\<rparr>"
      using others_kept_at [OF oth _ p(2)] by blast
    then show "\<exists>t'. cells A' p = Some t' \<and> refresh_heap_index t' = refresh_heap_index t \<and>
        (\<forall>u. refresh_compare t' u = refresh_compare t u \<and> refresh_compare u t' = refresh_compare u t)"
      using index_twin by blast
  qed
  moreover have "\<exists>t. cells A' p = Some t \<and> (refresh_heap_index t \<noteq> heap_invalid_index D \<longleftrightarrow> p \<in> pending G rf)"
    if p: "p \<in> S" "p \<noteq> x" for p
  proof -
    obtain t where t: "cells A p = Some t" "refresh_heap_index t \<noteq> heap_invalid_index D \<longleftrightarrow> p \<in> pending G rf"
      by (rule refresh_okE [OF ok p(1)])
    obtain t' where "cells A' p = Some t'" "t'\<lparr>heap_index := 0\<rparr> = t\<lparr>heap_index := 0\<rparr>"
      using others_kept_at [OF oth p(2) t(1)] by blast
    then show ?thesis using t index_twin [of t' t] by simp
  qed
  ultimately show ?thesis using ok x by (auto simp: refresh_ok_def)
qed

lemma refresh_ok_insert:
  "refresh_ok D G rf A S \<Longrightarrow> cells A x = Some t \<Longrightarrow> refresh_heap_index t = heap_invalid_index D \<Longrightarrow>
   x \<notin> pending G rf \<Longrightarrow> refresh_ok D G rf A (insert x S)"
  by (auto simp: refresh_ok_def)

lemma refresh_ok_cells: "cells A' = cells A \<Longrightarrow> refresh_ok D G rf A' S = refresh_ok D G rf A S"
  by (simp add: refresh_ok_def heap_ok_def items_compare_def [abs_def] index_at_def [abs_def] cong: option.case_cong)

lemma others_kept_look: "others_kept x E A A' \<Longrightarrow> y \<noteq> x \<Longrightarrow> look A' y = look A y"
proof -
  assume "others_kept x E A A'" "y \<noteq> x"
  then have "map_option (put_index 0) (cells A' y) = map_option (put_index 0) (cells A y)" by (simp add: others_kept_def)
  then show "look A' y = look A y"
    by (cases "cells A y"; cases "cells A' y") (auto simp: look_def intro: core_index_cong)
qed

lemma ready_ok_frame:
  assumes ok: "ready_ok D G rq A" and A': "arena_ok A'" and same: "\<And>x. x \<in> set (rq_elems G rq) \<Longrightarrow> cells A' x = cells A x"
  shows "ready_ok D G rq A'"
proof -
  have "shape_ok G rq A'"
    using ok same by (auto simp: ready_ok_def shape_ok_def rq_elems_def intro: heap_ok_frame [of heap_index _ A]
        split: qhw_ready_queue_kind.splits option.splits)
  moreover have "set (rq_elems G rq) \<subseteq> dom (cells A')" using ok same by (force simp: ready_ok_def)
  ultimately show ?thesis using ok A' same by (simp add: ready_ok_def task_at_def cong: conj_cong)
qed

text \<open>One queue changed, the items of the others did not.\<close>

lemma shared_step:
  assumes sh: "shared D G f Q rf A" and g: "Q g = Some rq" and ok: "ready_ok D G rq' A'" "same_setup rq rq'"
    and rok: "refresh_ok D G rf' A' (elems_of G (Q(g \<mapsto> rq')))"
    and el: "set (rq_elems G rq') \<subseteq> insert p (set (rq_elems G rq))" "p \<notin> elems_of G (Q(g := None))"
    and others: "\<And>x. x \<noteq> p \<Longrightarrow> x \<notin> set (rq_elems G rq) \<Longrightarrow> cells A' x = cells A x"
  shows "shared D G f (Q(g \<mapsto> rq')) rf' A'"
proof -
  have other: "ready_ok D G r A' \<and> set (rq_elems G rq') \<inter> set (rq_elems G r) = {}" if r: "Q h = Some r" "h \<noteq> g" for h r
  proof
    have "(Q(g := None)) h = Some r" using r by simp
    then have p: "p \<notin> set (rq_elems G r)" using el(2) unfolding elems_of_def by blast
    have d: "x \<notin> set (rq_elems G rq)" if "x \<in> set (rq_elems G r)" for x
      using shared_disjoint [OF sh g r(1) _ that] r(2) by blast
    have "cells A' x = cells A x" if "x \<in> set (rq_elems G r)" for x by (rule others) (use that p d in blast)+
    then show "ready_ok D G r A'"
      by (intro ready_ok_frame [OF shared_queue(1) [OF sh r(1)]]) (use ok(1) in \<open>simp_all add: ready_ok_def\<close>)
    show "set (rq_elems G rq') \<inter> set (rq_elems G r) = {}" using el(1) p d by auto
  qed
  have "heap_queue_ok D G f rq' A'" using ok shared_queue [OF sh g] by (simp add: heap_queue_ok_def same_setup_def)
  moreover have "heap_queue_ok D G f r A'" if "Q h = Some r" "h \<noteq> g" for h r
    using other [OF that] shared_queue [OF sh that(1)] by (simp add: heap_queue_ok_def)
  moreover have "set (rq_elems G r) \<inter> set (rq_elems G r') = {}" if "Q h = Some r" "Q i = Some r'" "h \<noteq> i" for h i r r'
    using shared_disjoint [OF sh that(1,2)] that(3) by blast
  moreover have "set (rq_elems G rq') \<inter> set (rq_elems G r) = {}" if "Q h = Some r" "h \<noteq> g" for h r
    using other [OF that] by blast
  moreover have "arena_ok A'" using ok(1) by (simp add: ready_ok_def)
  ultimately show ?thesis using rok sharedD(2) [OF sh] by (simp add: shared_def Int_commute)
qed

text \<open>No queue changed, and the items only in what the ready heaps cannot see.\<close>

lemma shared_same:
  assumes sh: "shared D G f Q rf A" and same: "ready_same f A A'" and rok: "refresh_ok D G rf' A' (elems_of G Q)"
  shows "shared D G f Q rf' A'"
proof -
  have "ready_ok D G rq A'" if "Q g = Some rq" for g rq
    by (rule ready_ok_same [OF shared_queue [OF sh that] same])
  moreover have "arena_ok A'" using same_for_arena_ok sharedD(1) [OF sh] same by (auto simp: ready_same_def)
  ultimately show ?thesis using sh rok by (auto simp: shared_def heap_queue_ok_def)
qed

lemma shared_elem:
  assumes "shared D G f Q rf A" "p \<in> elems_of G Q"
  obtains g rq t where "Q g = Some rq" "p \<in> set (rq_elems G rq)" "cells A p = Some t"
    "hash_table_find D (rq_by_id rq) (task_id (rt_desc t)) = Some p"
  using assms ready_task_at [OF shared_queue(1) [OF assms(1)]] by (fastforce simp: elems_of_def)

lemma shared_fresh:
  assumes sh: "shared D G f Q rf A"
  shows "cells A (brk A) = None" "brk A \<notin> elems_of G Q" "brk A \<notin> elems_of G (Q(g := None))" "brk A \<notin> pending G rf"
proof -
  show new: "cells A (brk A) = None" using arena_fresh sharedD(1) [OF sh] by blast
  have "cells A x \<noteq> None" if "x \<in> elems_of G Q" for x using shared_elem [OF sh that] by (metis option.distinct(1))
  then show out: "brk A \<notin> elems_of G Q" using new by blast
  then show "brk A \<notin> elems_of G (Q(g := None))" by (auto simp: elems_of_def split: if_splits)
  show "brk A \<notin> pending G rf" using sharedD(3) [OF sh] out by (auto simp: refresh_ok_def)
qed

lemma shared_insert:
  assumes sh: "shared D G f Q rf A" and g: "Q g = Some rq"
  shows "succeeds (qhw_ready_queue_insert D rq A task m) (\<lambda>(rc, rq', A', m'). shared D G f (Q(g \<mapsto> rq')) rf A' \<and> same_setup rq rq' \<and>
    (if rc = QHW_SCHED_OK
     then inserted task rq A rq' A' \<and> brk A \<notin> pending G rf \<and> cells A (brk A) = None \<and>
       look A' = (look A)(brk A \<mapsto> core (new_ready_task rq (heap_invalid_index D) task))
     else hash_table_find D (rq_by_id rq') = hash_table_find D (rq_by_id rq) \<and> rq_elems G rq' = rq_elems G rq \<and>
       cells A' = cells A))"
proof -
  have ok: "ready_ok D G rq A" and rok: "refresh_ok D G rf A (elems_of G Q)" using shared_queue [OF sh g] sharedD [OF sh] by simp_all
  note fresh = shared_fresh [OF sh]
  show ?thesis
  proof (rule succeeds_mono [OF ready_insert_ok [OF ok]], clarify, goal_cases)
    case (1 rc rq' A' m')
    show ?case
    proof (cases "rc = QHW_SCHED_OK")
      case True
      then have ins: "inserted task rq A rq' A'" using 1 by simp
      then have el: "set (rq_elems G rq') = insert (brk A) (set (rq_elems G rq))"
        and oth: "others_kept (brk A) (set (rq_elems G rq)) A A'" by (simp_all add: inserted_def)
      obtain t where t: "cells A' (brk A) = Some t" "t\<lparr>heap_index := 0\<rparr> = new_ready_task rq (heap_invalid_index D) task"
      proof -
        have "map_option (put_index 0) (cells A' (brk A)) = Some (new_ready_task rq (heap_invalid_index D) task)"
          using ins by (simp add: inserted_def)
        then show ?thesis using that by (cases "cells A' (brk A)") simp_all
      qed
      have "refresh_heap_index t = heap_invalid_index D"
        using arg_cong [OF t(2), of refresh_heap_index] by (simp add: new_ready_task_def)
      moreover have "refresh_ok D G rf A' (elems_of G Q)" using refresh_ok_others [OF rok oth fresh(4)] fresh(2) by simp
      ultimately have "refresh_ok D G rf A' (elems_of G (Q(g \<mapsto> rq')))"
        unfolding elems_of_grown [of Q g rq, OF g el] by (intro refresh_ok_insert [OF _ t(1) _ fresh(4)])
      then have "shared D G f (Q(g \<mapsto> rq')) rf A'"
        by (rule shared_step [OF sh g, rotated 2]) (use 1 el oth fresh in \<open>auto simp: others_kept_def\<close>)
      moreover have "core t = core (new_ready_task rq (heap_invalid_index D) task)"
        using arg_cong [OF t(2), of core] by (simp add: core_put_index)
      then have "look A' (brk A) = Some (core (new_ready_task rq (heap_invalid_index D) task))" using t(1) by (simp add: look_def)
      then have "look A' = (look A)(brk A \<mapsto> core (new_ready_task rq (heap_invalid_index D) task))"
        using others_kept_look [OF oth] by (intro ext) simp
      ultimately show ?thesis using True 1 ins fresh by simp
    next
      case False
      then have el: "rq_elems G rq' = rq_elems G rq" and same: "cells A' = cells A" using 1 by simp_all
      have "refresh_ok D G rf A' (elems_of G (Q(g \<mapsto> rq')))"
        using rok refresh_ok_cells [OF same] elems_of_same [of Q g rq G rq', OF g] el by simp
      then have "shared D G f (Q(g \<mapsto> rq')) rf A'"
        by (rule shared_step [OF sh g, rotated 2]) (use 1 el same fresh in auto)
      then show ?thesis using False 1 by simp
    qed
  qed
qed

lemma removed_look: "removed k p rq A rq' A' \<Longrightarrow> look A' = (look A)(p := None)"
  using others_kept_look [of p _ A A'] by (auto simp: removed_def fun_eq_iff look_def)

lemma shared_removed:
  assumes sh: "shared D G f Q rf A" and g: "Q g = Some rq" and ok: "ready_ok D G rq' A'" "same_setup rq rq'"
    and rem: "removed k p rq A rq' A'" and p: "p \<notin> pending G rf"
  shows "shared D G f (Q(g \<mapsto> rq')) rf A'"
proof -
  have r: "p \<in> set (rq_elems G rq)" "set (rq_elems G rq') = set (rq_elems G rq) - {p}"
    "others_kept p (set (rq_elems G rq)) A A'" using rem by (simp_all add: removed_def)
  have "refresh_ok D G rf A' (elems_of G Q - {p})" by (rule refresh_ok_others [OF sharedD(3) [OF sh] r(3) p])
  then have "refresh_ok D G rf A' (elems_of G (Q(g \<mapsto> rq')))" using elems_of_shrunk [OF sh g r(1,2)] by simp
  moreover have "p \<notin> elems_of G (Q(g := None))" by (rule shared_outside [OF sh g r(1)])
  ultimately show ?thesis by (intro shared_step [OF sh g ok]) (use r in \<open>auto simp: others_kept_def\<close>)
qed

lemma shared_remove:
  assumes sh: "shared D G f Q rf A" and g: "Q g = Some rq" and k: "hash_table_find D (rq_by_id rq) k = Some p"
    and p: "p \<notin> pending G rf"
  shows "succeeds (qhw_ready_queue_remove D rq A k) (\<lambda>(rc, rq', A'). rc = QHW_SCHED_OK \<and> shared D G f (Q(g \<mapsto> rq')) rf A' \<and>
    same_setup rq rq' \<and> removed k p rq A rq' A')"
proof -
  have ok: "ready_ok D G rq A" by (rule shared_queue(1) [OF sh g])
  have ids: "k \<in> rq_ids D rq" using k by (auto simp: rq_ids_def)
  have uniq: "p' = p" if "removed k p' rq A rq' A'" for p' rq' A'
  proof -
    have "hash_table_find D (rq_by_id rq) k = Some p'" using that ok by (simp add: removed_def ready_ok_def)
    then show ?thesis using k by simp
  qed
  show ?thesis
    by (rule succeeds_mono [OF ready_remove_ok [OF ok, of k]]) (use ids uniq shared_removed [OF sh g _ _ _ p] in fastforce)
qed

lemma shared_pop:
  assumes sh: "shared D G f Q rf A" and g: "Q g = Some rq" and first: "qhw_ready_queue_peek D rq = Some (Some p)"
    and p: "p \<notin> pending G rf"
  shows "succeeds (qhw_ready_queue_pop D rq A) (\<lambda>(rc, tid, rq', A'). rc = QHW_SCHED_OK \<and> shared D G f (Q(g \<mapsto> rq')) rf A' \<and>
    same_setup rq rq' \<and> rq_first rq A p \<and> (\<exists>k. tid = Some k \<and> removed k p rq A rq' A'))"
proof -
  have ok: "ready_ok D G rq A" by (rule shared_queue(1) [OF sh g])
  have ne: "rq_elems G rq \<noteq> []" using ready_peek_ok [OF ok] first by (auto simp: rq_first_def)
  have uniq: "p' = p" if "rq_first rq A p'" for p' using that first by (simp add: rq_first_def)
  show ?thesis
    by (rule succeeds_mono [OF ready_pop_ok [OF ok]]) (use ne uniq shared_removed [OF sh g _ _ _ p] in \<open>fastforce split: if_splits\<close>)
qed

lemma shared_refresh_remove:
  assumes sh: "shared D G f Q rf A" and p: "p \<in> elems_of G Q"
  shows "succeeds (qhw_deadline_refresh_remove D rf A (Some p)) (\<lambda>(rf', A'). shared D G f Q rf' A' \<and>
    pending G rf' = pending G rf - {p} \<and>
    look A' = (if p \<in> pending G rf
      then (look A)(p := map_option (\<lambda>t. t\<lparr>next_refresh_ns := QHW_DEADLINE_BOOST_NEVER\<rparr>) (look A p)) else look A))"
proof -
  note free = sharedD(2) [OF sh]
  show ?thesis
  proof (rule succeeds_mono [OF refresh_remove_ok [OF sharedD(3) [OF sh] p]], clarify, goal_cases)
    case (1 rf' A')
    let ?A = "if p \<in> pending G rf then reset_refresh p A else A"
    have "ready_same f A ?A" using reset_ready_same [OF free] by (simp add: ready_same_def)
    then have "ready_same f A A'" using ready_same_trans moved_ready_same [OF free 1(3)] by blast
    then show ?case using 1 shared_same [OF sh] look_moved_refresh [OF 1(3)] by (simp add: look_reset)
  qed
qed

lemma shared_refresh_insert:
  assumes sh: "shared D G f Q rf A" and p: "p \<in> elems_of G Q" "p \<notin> pending G rf" and t: "look A p = Some t"
  shows "succeeds (qhw_deadline_refresh_insert D rf A p m) (\<lambda>(rc, rf', A', m'). shared D G f Q rf' A' \<and>
    look A' = look A \<and> rc \<in> {QHW_SCHED_OK, QHW_SCHED_ERR_NO_MEMORY} \<and>
    pending G rf' = (if rc = QHW_SCHED_OK \<and> next_refresh_ns t \<noteq> QHW_DEADLINE_BOOST_NEVER then insert p (pending G rf) else pending G rf))"
proof -
  obtain t0 where t0: "cells A p = Some t0" "next_refresh_ns t0 = next_refresh_ns t" using t by (auto simp: look_def)
  show ?thesis
  proof (rule succeeds_mono [OF refresh_insert_ok [OF sharedD(3) [OF sh] p t0(1)]], clarify, goal_cases)
    case (1 rc rf' A' m')
    have "ready_same f A A'" by (rule moved_ready_same [OF sharedD(2) [OF sh] 1(2)])
    then show ?case using 1 shared_same [OF sh] look_moved_refresh [OF 1(2)] t0 by (auto split: if_splits)
  qed
qed

lemma shared_refresh_pop:
  assumes sh: "shared D G f Q rf A"
  shows "succeeds (qhw_deadline_refresh_pop_expired D rf A now) (\<lambda>(r, rf', A'). shared D G f Q rf' A' \<and>
    (case r of
       None \<Rightarrow> rf' = rf \<and> A' = A \<and> (\<forall>p \<in> pending G rf. \<forall>t. look A p = Some t \<longrightarrow> now < next_refresh_ns t)
     | Some p \<Rightarrow> p \<in> pending G rf \<and> p \<in> elems_of G Q \<and> (\<exists>t. look A p = Some t \<and> next_refresh_ns t \<le> now) \<and>
         pending G rf' = pending G rf - {p} \<and>
         look A' = (look A)(p := map_option (\<lambda>t. t\<lparr>next_refresh_ns := QHW_DEADLINE_BOOST_NEVER\<rparr>) (look A p))))"
proof -
  note free = sharedD(2) [OF sh] and rok = sharedD(3) [OF sh]
  have sub: "pending G rf \<subseteq> elems_of G Q" using rok by (simp add: refresh_ok_def)
  show ?thesis
  proof (rule succeeds_mono [OF refresh_pop_ok [OF rok]], clarify, goal_cases)
    case (1 r rf' A')
    show ?case
    proof (cases r)
      case None
      then show ?thesis using 1 sh by (auto simp: look_def)
    next
      case (Some p)
      then have mv: "moved put_refresh (elems_of G Q) (reset_refresh p A) A'" using 1 by simp
      have "ready_same f A A'"
        by (rule ready_same_trans [OF reset_ready_same [OF free] moved_ready_same [OF free mv]])
      then show ?thesis using 1 Some shared_same [OF sh] look_moved_refresh [OF mv] sub by (auto simp: look_reset look_def)
    qed
  qed
qed

text \<open>New keys for an item that is not in the refresh heap.\<close>

lemma shared_twin:
  assumes sh: "shared D G f Q rf A" and t: "cells A p = Some t" and tw: "refresh_twin t t'"
    and keep: "refresh_heap_index t' = refresh_heap_index t" "next_refresh_ns t' = next_refresh_ns t \<or> p \<notin> pending G rf"
    and p: "p \<in> elems_of G Q"
  shows "shared D G f Q rf (A\<lparr>cells := (cells A)(p \<mapsto> t')\<rparr>)"
proof -
  let ?A = "A\<lparr>cells := (cells A)(p \<mapsto> t')\<rparr>"
  note rok = sharedD(3) [OF sh]
  have "ready_same f A ?A"
    by (rule twins_ready_same [OF sharedD(2) [OF sh]]) (use t tw in \<open>simp_all add: option.rel_refl\<close>)
  moreover have "refresh_ok D G rf ?A (elems_of G Q)"
  proof (cases "p \<in> pending G rf")
    case True
    have eq: "seq t' = seq t" "rt_desc t' = rt_desc t"
      using arg_cong [OF tw [unfolded refresh_twin_def], of seq] arg_cong [OF tw [unfolded refresh_twin_def], of rt_desc] by simp_all
    show ?thesis
      by (rule refresh_ok_same [OF rok same_for_upd]) (use t keep True eq in \<open>simp_all add: refresh_compare_vec\<close>)
  next
    case False
    then have "heap_ok G refresh_heap_index refresh_compare ?A (dr_heap rf)"
      by (intro heap_ok_outside) (use rok in \<open>simp_all add: refresh_ok_def pending_def\<close>)
    moreover obtain u where "cells A p = Some u" "refresh_heap_index u \<noteq> heap_invalid_index D \<longleftrightarrow> p \<in> pending G rf"
      by (rule refresh_okE [OF rok p])
    ultimately show ?thesis using rok t keep(1) False by (simp add: refresh_ok_def)
  qed
  ultimately show ?thesis by (rule shared_same [OF sh])
qed

lemma shared_rewrite:
  fixes v :: i64 and n :: u64
  assumes sh: "shared D G f Q rf A" and g: "Q g = Some rq" and p: "p \<in> set (rq_elems G rq)" "p \<notin> pending G rf"
    and t: "cells A p = Some t"
  defines "t' \<equiv> t\<lparr>effective_priority := v, next_refresh_ns := n\<rparr>"
  defines "A1 \<equiv> A\<lparr>cells := (cells A)(p \<mapsto> t')\<rparr>"
  shows "succeeds (if effective_priority t \<noteq> v then qhw_ready_queue_reorder D rq A1 p else Some (QHW_SCHED_OK, rq, A1))
    (\<lambda>(rc, rq', A'). rc = QHW_SCHED_OK \<and> shared D G f (Q(g \<mapsto> rq')) rf A' \<and> same_setup rq rq' \<and> rq_by_id rq' = rq_by_id rq \<and>
      set (rq_elems G rq') = set (rq_elems G rq) \<and> look A' = (look A)(p \<mapsto> core t'))"
proof -
  note rok = sharedD(3) [OF sh]
  have look1: "look A1 = (look A)(p \<mapsto> core t')" by (auto simp: look_def A1_def fun_eq_iff)
  have pQ: "p \<in> elems_of G Q" by (rule elems_of_in [of Q g rq, OF g p(1)])
  show ?thesis
  proof (cases "effective_priority t = v")
    case True
    then have "t' = t\<lparr>next_refresh_ns := n\<rparr>" by (simp add: t'_def)
    then have "shared D G f Q rf A1" unfolding A1_def
      by (intro shared_twin [OF sh t]) (use p pQ in \<open>simp_all add: refresh_twin_def\<close>)
    moreover have "Q(g \<mapsto> rq) = Q" using g by auto
    ultimately show ?thesis using True look1 by (simp add: same_setup_def)
  next
    case False
    have "heap_ok G refresh_heap_index refresh_compare A1 (dr_heap rf)"
      unfolding A1_def by (rule heap_ok_outside) (use rok p in \<open>simp_all add: refresh_ok_def pending_def\<close>)
    then have rok1: "refresh_ok D G rf A1 (elems_of G Q)"
      using rok t by (auto simp: refresh_ok_def A1_def t'_def)
    have "succeeds (qhw_ready_queue_reorder D rq A1 p) (\<lambda>(rc, rq', A').
        rc = QHW_SCHED_OK \<and> ready_ok D G rq' A' \<and> same_setup rq rq' \<and> rq_by_id rq' = rq_by_id rq \<and>
        set (rq_elems G rq') = set (rq_elems G rq) \<and> moved put_index (set (rq_elems G rq)) A1 A')"
      unfolding A1_def by (rule ready_reorder_ok [OF shared_queue(1,2) [OF sh g] p(1) t]) (simp_all add: t'_def)
    then have "succeeds (qhw_ready_queue_reorder D rq A1 p) (\<lambda>(rc, rq', A').
        rc = QHW_SCHED_OK \<and> shared D G f (Q(g \<mapsto> rq')) rf A' \<and> same_setup rq rq' \<and> rq_by_id rq' = rq_by_id rq \<and>
        set (rq_elems G rq') = set (rq_elems G rq) \<and> look A' = (look A)(p \<mapsto> core t'))"
    proof (rule succeeds_mono, clarify, goal_cases)
      case (1 rc rq' A')
      have "refresh_ok D G rf A' (elems_of G (Q(g \<mapsto> rq')))"
        using refresh_ok_same [OF rok1 moved_refresh_same [OF 1(6)]] elems_of_same [of Q g rq G rq', OF g 1(5)] by simp
      then have "shared D G f (Q(g \<mapsto> rq')) rf A'"
        by (rule shared_step [OF sh g 1(2,3), of _ "brk A"])
          (use 1 p shared_fresh [OF sh] in \<open>auto simp: moved_def A1_def\<close>)
      then show ?case using 1 look_moved_index [OF 1(6)] look1 by simp
    qed
    then show ?thesis using False by simp
  qed
qed

text \<open>
  The first calls by which the policies recompute the boost of an item: take it out of the refresh heap, write the
  new keys \<^verbatim>\<open>v\<close> and \<^verbatim>\<open>n\<close>, and restore the order of its ready queue if the effective priority changed.
\<close>

lemma shared_refresh_steps:
  assumes sh: "shared D G f Q rf A" and g: "Q g = Some rq" and p: "p \<in> set (rq_elems G rq)" and t: "look A p = Some t"
  obtains u rf1 A1 u1 where "cells A p = Some u" "effective_priority u = effective_priority t" "rt_desc u = rt_desc t"
    "qhw_deadline_refresh_remove D rf A (Some p) = Some (rf1, A1)" "cells A1 p = Some u1"
    "rt_desc u1 = rt_desc t" "base_priority u1 = base_priority t" "pending G rf1 = pending G rf - {p}"
    "\<And>v n. succeeds (if effective_priority u \<noteq> v
        then qhw_ready_queue_reorder D rq (A1\<lparr>cells := (cells A1)(p \<mapsto> u1\<lparr>effective_priority := v, next_refresh_ns := n\<rparr>)\<rparr>) p
        else Some (QHW_SCHED_OK, rq, A1\<lparr>cells := (cells A1)(p \<mapsto> u1\<lparr>effective_priority := v, next_refresh_ns := n\<rparr>)\<rparr>))
       (\<lambda>(rc, rq', A2). rc = QHW_SCHED_OK \<and> shared D G f (Q(g \<mapsto> rq')) rf1 A2 \<and> rq_by_id rq' = rq_by_id rq \<and>
         set (rq_elems G rq') = set (rq_elems G rq) \<and> look A2 = (look A)(p \<mapsto> t\<lparr>effective_priority := v, next_refresh_ns := n\<rparr>))"
proof -
  obtain u where u: "cells A p = Some u" "core u = t" using t by (auto simp: look_def)
  have pQ: "p \<in> elems_of G Q" by (rule elems_of_in [of Q g rq, OF g p])
  obtain rf1 A1 where rem: "qhw_deadline_refresh_remove D rf A (Some p) = Some (rf1, A1)"
    and st: "shared D G f Q rf1 A1" "pending G rf1 = pending G rf - {p}"
      "look A1 = (if p \<in> pending G rf
      then (look A)(p := map_option (\<lambda>t. t\<lparr>next_refresh_ns := QHW_DEADLINE_BOOST_NEVER\<rparr>) (look A p)) else look A)"
    using shared_refresh_remove [OF sh pQ] by (elim succeeds_tupleE) blast
  have "\<exists>k. look A1 p = Some (t\<lparr>next_refresh_ns := k\<rparr>)"
  proof (cases "p \<in> pending G rf")
    case False
    then have "look A1 p = Some (t\<lparr>next_refresh_ns := next_refresh_ns t\<rparr>)" using st(3) t by simp
    then show ?thesis by blast
  qed (use st(3) t in auto)
  then obtain u1 k where u1: "cells A1 p = Some u1" "core u1 = t\<lparr>next_refresh_ns := k\<rparr>" by (auto simp: look_def)
  have sel: "rt_desc u1 = rt_desc t" "base_priority u1 = base_priority t" "effective_priority u1 = effective_priority t"
    "effective_priority u = effective_priority t" "rt_desc u = rt_desc t"
    using arg_cong [OF u1(2), of rt_desc] arg_cong [OF u1(2), of base_priority] arg_cong [OF u1(2), of effective_priority]
      arg_cong [OF u(2), of rt_desc] arg_cong [OF u(2), of effective_priority] by simp_all
  have np: "p \<notin> pending G rf1" using st(2) by simp
  have lk: "(look A1)(p := x) = (look A)(p := x)" for x using st(3) by auto
  show ?thesis
    by (rule that [OF u(1) sel(4,5) rem u1(1) sel(1,2) st(2)])
      (rule succeeds_mono [OF shared_rewrite [OF st(1) g p np u1(1), unfolded sel(3), folded sel(4)]], auto simp: u1(2) lk)
qed

end

subsection \<open>One ready queue\<close>

definition boosted ::
  "('h, 'l, 'q) ds \<Rightarrow> ('h, 'l, 'q) ghost \<Rightarrow> (qhw_ready_task \<Rightarrow> qhw_ready_task \<Rightarrow> int) \<Rightarrow>
   ('h, 'l, 'q) qhw_ready_queue \<Rightarrow> 'q qhw_deadline_refresh_queue \<Rightarrow> items \<Rightarrow> bool" where
  "boosted D G f rq rf A \<longleftrightarrow> ready_ok D G rq A \<and> rq_kind rq = QHW_READY_QUEUE_HEAP \<and> rq_compare rq = Some f \<and>
     refresh_free f \<and> refresh_ok D G rf A (set (rq_elems G rq))"

lemma boosted_cong:
  "boosted D G f rq rf A \<Longrightarrow> ready_ok D G rq' A' \<Longrightarrow> same_setup rq rq' \<Longrightarrow>
   refresh_ok D G rf' A' (set (rq_elems G rq')) \<Longrightarrow> boosted D G f rq' rf' A'"
  by (simp add: boosted_def same_setup_def)

lemma boosted_shared: "boosted D G f rq rf A \<longleftrightarrow> shared D G f [0 \<mapsto> rq] rf A"
  by (auto simp: boosted_def shared_def heap_queue_ok_def ready_ok_def split: if_splits)

context datastructures
begin

lemma boosted_elems: "boosted D G f rq rf A \<Longrightarrow> p \<in> set (rq_elems G rq) \<Longrightarrow>
  \<exists>t. cells A p = Some t \<and> hash_table_find D (rq_by_id rq) (task_id (rt_desc t)) = Some p"
  using ready_task_at by (simp add: boosted_def)

lemmas boosted_insert = shared_insert [where Q = "[0 \<mapsto> rq]" and g = 0 and rq = rq for rq, simplified, folded boosted_shared]
lemmas boosted_remove = shared_remove [where Q = "[0 \<mapsto> rq]" and g = 0 and rq = rq for rq, simplified, folded boosted_shared]
lemmas boosted_pop = shared_pop [where Q = "[0 \<mapsto> rq]" and g = 0 and rq = rq for rq, simplified, folded boosted_shared]
lemmas boosted_refresh_remove = shared_refresh_remove [where Q = "[0 \<mapsto> rq]" for rq, simplified, folded boosted_shared]
lemmas boosted_refresh_insert = shared_refresh_insert [where Q = "[0 \<mapsto> rq]" for rq, simplified, folded boosted_shared]
lemmas boosted_refresh_pop = shared_refresh_pop [where Q = "[0 \<mapsto> rq]" for rq, simplified, folded boosted_shared]
lemmas boosted_twin = shared_twin [where Q = "[0 \<mapsto> rq]" for rq, simplified, folded boosted_shared]

lemma boosted_rewrite:
  fixes v :: i64 and n :: u64
  assumes b: "boosted D G f rq rf A" and p: "p \<in> set (rq_elems G rq)" "p \<notin> pending G rf" and t: "cells A p = Some t"
  defines "t' \<equiv> t\<lparr>effective_priority := v, next_refresh_ns := n\<rparr>"
  defines "A1 \<equiv> A\<lparr>cells := (cells A)(p \<mapsto> t')\<rparr>"
  shows "succeeds (if effective_priority t \<noteq> v then qhw_ready_queue_reorder D rq A1 p else Some (QHW_SCHED_OK, rq, A1))
    (\<lambda>(rc, rq', A'). rc = QHW_SCHED_OK \<and> boosted D G f rq' rf A' \<and> same_setup rq rq' \<and> rq_by_id rq' = rq_by_id rq \<and>
      set (rq_elems G rq') = set (rq_elems G rq) \<and> look A' = (look A)(p \<mapsto> core t'))"
  using shared_rewrite [OF b [unfolded boosted_shared] fun_upd_same p t, of v n]
  by (simp only: t'_def A1_def boosted_shared fun_upd_upd)

end

end
