(* ===== verification/Task_Table.thy ===== *)
theory Task_Table
  imports Split_Config Data_Structures
begin

section \<open>Task table\<close>

text \<open>
  \<^verbatim>\<open>src/qhw_task.c\<close> and the task records of \<^verbatim>\<open>src/qhw_scheduler_internal.h\<close>: the records live in an
  arena, a hash table maps task ids to record pointers and an intrusive list keeps them in enqueue
  order. A record owns a copy of the caller's metadata; the copy is the \<^verbatim>\<open>metadata\<close> field of its
  descriptor. Operations that allocate take the allocator script and return the rest of it.
\<close>

subsection \<open>State\<close>

record qhw_task_record =
  desc :: qhw_sched_task_desc
  state :: qhw_sched_task_state
  enqueue_seq :: u64
  child_count :: u64
  completed_child_count :: u64
  failed_child_count :: u64
  cancelled_child_count :: u64

record ('h, 'l) qhw_task_table =
  by_id :: 'h
  enqueue_order :: 'l
  tt_count :: u64
  records :: "qhw_task_record arena"

abbreviation (input) QHW_TASK_BUCKETS :: nat where "QHW_TASK_BUCKETS \<equiv> 1024"

subsection \<open>Operations\<close>

definition qhw_task_table_init ::
  "('h, 'l, 'q) ds \<Rightarrow> mem \<Rightarrow> qhw_sched_rc \<times> ('h, 'l) qhw_task_table option \<times> mem" where
  "qhw_task_table_init D m =
     (case hash_table_init D QHW_TASK_BUCKETS m of
        (None, m) \<Rightarrow> (QHW_SCHED_ERR_NO_MEMORY, None, m)
      | (Some h, m) \<Rightarrow>
          (QHW_SCHED_OK,
           Some \<lparr>by_id = h, enqueue_order = list_init D, tt_count = 0, records = arena_empty\<rparr>, m))"

definition new_task_record ::
  "qhw_sched_task_desc \<Rightarrow> u64 \<Rightarrow> qhw_sched_task_state \<Rightarrow> qhw_task_record" where
  "new_task_record task seq st = \<lparr>desc = task, state = st, enqueue_seq = seq, child_count = 0,
     completed_child_count = 0, failed_child_count = 0, cancelled_child_count = 0\<rparr>"

text \<open>Freeing a record that is not linked: the early error returns of the insertion.\<close>

definition task_record_drop ::
  "('h, 'l) qhw_task_table \<Rightarrow> ptr \<Rightarrow> ('h, 'l) qhw_task_table option" where
  "task_record_drop tt p = do {
     recs \<leftarrow> arena_free p (records tt);
     Some (tt\<lparr>records := recs\<rparr>)
   }"

text \<open>The end of the insertion: link the record into the hash table and the list.\<close>

definition task_table_link ::
  "('h, 'l, 'q) ds \<Rightarrow> ('h, 'l) qhw_task_table \<Rightarrow> u64 \<Rightarrow> ptr \<Rightarrow> mem \<Rightarrow>
   (qhw_sched_rc \<times> ('h, 'l) qhw_task_table \<times> mem) option" where
  "task_table_link D tt tid p m =
     (case hash_table_insert D (by_id tt) tid p m of
        (ins, h, m) \<Rightarrow>
          if \<not> ins then do {
            tt \<leftarrow> task_record_drop (tt\<lparr>by_id := h\<rparr>) p;
            Some (QHW_SCHED_ERR_NO_MEMORY, tt, m)
          }
          else Some (QHW_SCHED_OK,
            tt\<lparr>by_id := h, enqueue_order := list_push_back D (enqueue_order tt) p,
               tt_count := tt_count tt + 1\<rparr>, m))"

definition qhw_task_table_insert_state ::
  "('h, 'l, 'q) ds \<Rightarrow> ('h, 'l) qhw_task_table \<Rightarrow> qhw_sched_task_desc \<Rightarrow> u64 \<Rightarrow>
   qhw_sched_task_state \<Rightarrow> mem \<Rightarrow> (qhw_sched_rc \<times> ('h, 'l) qhw_task_table \<times> mem) option" where
  "qhw_task_table_insert_state D tt task seq st m =
     (if task_id task = QHW_SCHED_INVALID_TASK_ID then Some (QHW_SCHED_ERR_INVALID_ARG, tt, m)
      else
        let (got, m) = mem_alloc m in
        if \<not> got then Some (QHW_SCHED_ERR_NO_MEMORY, tt, m)
        else
          let (p, recs) = arena_alloc (new_task_record task seq st) (records tt);
              tt = tt\<lparr>records := recs\<rparr>
          in if hash_table_find D (by_id tt) (task_id task) \<noteq> None then do {
               tt \<leftarrow> task_record_drop tt p;
               Some (QHW_SCHED_ERR_EXISTS, tt, m)
             }
             else if kv_count (metadata task) > 0 then
               if kv_is_null (metadata task) \<or> kv_count (metadata task) > SIZE_MAX div sizeof_kv
               then do {
                 tt \<leftarrow> task_record_drop tt p;
                 Some (QHW_SCHED_ERR_INVALID_ARG, tt, m)
               }
               else
                 let (got, m) = mem_alloc m in
                 if \<not> got then do {
                   tt \<leftarrow> task_record_drop tt p;
                   Some (QHW_SCHED_ERR_NO_MEMORY, tt, m)
                 }
                 else do {
                   recs \<leftarrow> arena_put p
                     (new_task_record
                        (task\<lparr>metadata := KvArr (kv_entries (metadata task))\<rparr>) seq st) (records tt);
                   task_table_link D (tt\<lparr>records := recs\<rparr>) (task_id task) p m
                 }
             else do {
               recs \<leftarrow> arena_put p
                 (new_task_record (task\<lparr>metadata := KvNull 0\<rparr>) seq st) (records tt);
               task_table_link D (tt\<lparr>records := recs\<rparr>) (task_id task) p m
             })"

definition qhw_task_table_insert ::
  "('h, 'l, 'q) ds \<Rightarrow> ('h, 'l) qhw_task_table \<Rightarrow> qhw_sched_task_desc \<Rightarrow> u64 \<Rightarrow> mem \<Rightarrow>
   (qhw_sched_rc \<times> ('h, 'l) qhw_task_table \<times> mem) option" where
  "qhw_task_table_insert D tt task seq m =
     qhw_task_table_insert_state D tt task seq QHW_SCHED_TASK_QUEUED m"

definition qhw_task_table_remove ::
  "('h, 'l, 'q) ds \<Rightarrow> ('h, 'l) qhw_task_table \<Rightarrow> u64 \<Rightarrow> ('h, 'l) qhw_task_table option" where
  "qhw_task_table_remove D tt tid =
     (case hash_table_remove D (by_id tt) tid of
        (None, h) \<Rightarrow> Some (tt\<lparr>by_id := h\<rparr>)
      | (Some p, h) \<Rightarrow> do {
          tt \<leftarrow> task_record_drop
            (tt\<lparr>by_id := h, enqueue_order := list_remove D (enqueue_order tt) p\<rparr>) p;
          Some (if tt_count tt > 0 then tt\<lparr>tt_count := tt_count tt - 1\<rparr> else tt)
        })"

text \<open>Destroying the table frees every record the hash table holds, in the order of the traversal.\<close>

fun task_records_free :: "qhw_task_record arena \<Rightarrow> ptr list \<Rightarrow> qhw_task_record arena option" where
  "task_records_free recs [] = Some recs"
| "task_records_free recs (p # ps) = do {
     recs \<leftarrow> arena_free p recs;
     task_records_free recs ps
   }"

definition qhw_task_table_fini ::
  "('h, 'l, 'q) ds \<Rightarrow> ('h, 'l) qhw_task_table \<Rightarrow> ('h, 'l) qhw_task_table option" where
  "qhw_task_table_fini D tt = do {
     recs \<leftarrow> task_records_free (records tt) (hash_table_fini D (by_id tt));
     Some (tt\<lparr>records := recs, tt_count := 0\<rparr>)
   }"

definition qhw_task_table_find ::
  "('h, 'l, 'q) ds \<Rightarrow> ('h, 'l) qhw_task_table \<Rightarrow> u64 \<Rightarrow> ptr option" where
  "qhw_task_table_find D tt tid = hash_table_find D (by_id tt) tid"

text \<open>Reading and writing a record through a pointer that \<^verbatim>\<open>qhw_task_table_find\<close> returned.\<close>

definition record_read :: "('h, 'l) qhw_task_table \<Rightarrow> ptr \<Rightarrow> qhw_task_record option" where
  "record_read tt p = cells (records tt) p"

definition record_write ::
  "('h, 'l) qhw_task_table \<Rightarrow> ptr \<Rightarrow> (qhw_task_record \<Rightarrow> qhw_task_record) \<Rightarrow>
   ('h, 'l) qhw_task_table option" where
  "record_write tt p f = do {
     r \<leftarrow> record_read tt p;
     recs \<leftarrow> arena_put p (f r) (records tt);
     Some (tt\<lparr>records := recs\<rparr>)
   }"

definition qhw_task_table_set_state ::
  "('h, 'l, 'q) ds \<Rightarrow> ('h, 'l) qhw_task_table \<Rightarrow> u64 \<Rightarrow> qhw_sched_task_state \<Rightarrow>
   (qhw_sched_rc \<times> ('h, 'l) qhw_task_table) option" where
  "qhw_task_table_set_state D tt tid st =
     (case qhw_task_table_find D tt tid of
        None \<Rightarrow> Some (QHW_SCHED_ERR_NOT_FOUND, tt)
      | Some p \<Rightarrow> do {
          tt \<leftarrow> record_write tt p (\<lambda>r. r\<lparr>state := st\<rparr>);
          Some (QHW_SCHED_OK, tt)
        })"

partial_function (option) for_each_queued_loop ::
  "('h, 'l, 'q) ds \<Rightarrow> ('h, 'l) qhw_task_table \<Rightarrow>
   (qhw_task_record \<Rightarrow> 's \<Rightarrow> (qhw_sched_rc \<times> 's) option) \<Rightarrow> ptr option \<Rightarrow> 's \<Rightarrow>
   (qhw_sched_rc \<times> 's) option" where
  "for_each_queued_loop D tt fn node s =
     (case node of
        None \<Rightarrow> Some (QHW_SCHED_OK, s)
      | Some p \<Rightarrow> do {
          r \<leftarrow> record_read tt p;
          let following = list_next D (enqueue_order tt) (Some p);
          if state r \<noteq> QHW_SCHED_TASK_QUEUED then for_each_queued_loop D tt fn following s
          else do {
            (rc, s) \<leftarrow> fn r s;
            if rc \<noteq> QHW_SCHED_OK then Some (rc, s)
            else for_each_queued_loop D tt fn following s
          }
        })"

definition qhw_task_table_for_each_queued ::
  "('h, 'l, 'q) ds \<Rightarrow> ('h, 'l) qhw_task_table \<Rightarrow>
   (qhw_task_record \<Rightarrow> 's \<Rightarrow> (qhw_sched_rc \<times> 's) option) \<Rightarrow> 's \<Rightarrow> (qhw_sched_rc \<times> 's) option" where
  "qhw_task_table_for_each_queued D tt fn s =
     for_each_queued_loop D tt fn (list_next D (enqueue_order tt) None) s"

subsection \<open>Abstract view\<close>

text \<open>
  A table stands for a finite map from task ids to records together with the enqueue order of the
  ids. The invariant ties the hash table, the list, the counter and the arena together: the list
  holds exactly the records the hash table finds, no record is leaked.
\<close>

definition tt_task :: "('h, 'l, 'q) ds \<Rightarrow> ('h, 'l) qhw_task_table \<Rightarrow> u64 \<rightharpoonup> qhw_task_record" where
  "tt_task D tt tid =
     (case hash_table_find D (by_id tt) tid of None \<Rightarrow> None | Some p \<Rightarrow> cells (records tt) p)"

definition record_id :: "('h, 'l) qhw_task_table \<Rightarrow> ptr \<Rightarrow> u64" where
  "record_id tt p = task_id (desc (the (cells (records tt) p)))"

definition tt_order :: "('h, 'l, 'q) ghost \<Rightarrow> ('h, 'l) qhw_task_table \<Rightarrow> u64 list" where
  "tt_order G tt = map (record_id tt) (l_elems G (enqueue_order tt))"

definition table_ok :: "('h, 'l, 'q) ds \<Rightarrow> ('h, 'l, 'q) ghost \<Rightarrow> ('h, 'l) qhw_task_table \<Rightarrow> bool" where
  "table_ok D G tt \<longleftrightarrow>
     ht_inv G (by_id tt) \<and> l_inv G (enqueue_order tt) \<and> arena_ok (records tt) \<and>
     (\<forall>tid p. hash_table_find D (by_id tt) tid = Some p \<longrightarrow>
        (\<exists>r. cells (records tt) p = Some r \<and> task_id (desc r) = tid \<and> tid \<noteq> 0)) \<and>
     set (l_elems G (enqueue_order tt)) = ran (hash_table_find D (by_id tt)) \<and>
     dom (cells (records tt)) = ran (hash_table_find D (by_id tt)) \<and>
     unat (tt_count tt) = length (l_elems G (enqueue_order tt))"

text \<open>The record an insertion stores: the metadata is copied, an empty one becomes a null pointer.\<close>

definition owned_metadata :: "kv_ref \<Rightarrow> kv_ref" where
  "owned_metadata m = (if kv_count m > 0 then KvArr (kv_entries m) else KvNull 0)"

definition stored_record ::
  "qhw_sched_task_desc \<Rightarrow> u64 \<Rightarrow> qhw_sched_task_state \<Rightarrow> qhw_task_record" where
  "stored_record task seq st =
     new_task_record (task\<lparr>metadata := owned_metadata (metadata task)\<rparr>) seq st"

text \<open>What a traversal has to compute: the callback on each record in turn until one fails.\<close>

fun run_all ::
  "('r \<Rightarrow> 's \<Rightarrow> (qhw_sched_rc \<times> 's) option) \<Rightarrow> 'r list \<Rightarrow> 's \<Rightarrow> (qhw_sched_rc \<times> 's) option" where
  "run_all fn [] s = Some (QHW_SCHED_OK, s)"
| "run_all fn (r # rs) s = do {
     (rc, s) \<leftarrow> fn r s;
     if rc \<noteq> QHW_SCHED_OK then Some (rc, s) else run_all fn rs s
   }"

definition tt_queued ::
  "('h, 'l, 'q) ds \<Rightarrow> ('h, 'l, 'q) ghost \<Rightarrow> ('h, 'l) qhw_task_table \<Rightarrow> qhw_task_record list" where
  "tt_queued D G tt =
     filter (\<lambda>r. state r = QHW_SCHED_TASK_QUEUED) (map (\<lambda>i. the (tt_task D tt i)) (tt_order G tt))"

subsection \<open>The operations on the abstract view\<close>

lemma distinct_nonzero_u64_length:
  assumes "distinct xs" "(0 :: u64) \<notin> set xs"
  shows "length xs \<le> 18446744073709551615"
proof -
  have "length xs = card (set xs)" using assms(1) by (simp add: distinct_card)
  also have "\<dots> \<le> card (UNIV - {0 :: u64})" using assms(2) by (intro card_mono) auto
  also have "\<dots> = 18446744073709551615" by (simp add: card_Diff_singleton card_word)
  finally show ?thesis .
qed

context datastructures
begin

lemma table_ok_find:
  assumes "table_ok D G tt" "hash_table_find D (by_id tt) tid = Some p"
  obtains r where "cells (records tt) p = Some r" "task_id (desc r) = tid" "tid \<noteq> 0"
    "tt_task D tt tid = Some r" "p \<in> set (l_elems G (enqueue_order tt))"
proof -
  from assms obtain r where "cells (records tt) p = Some r" "task_id (desc r) = tid" "tid \<noteq> 0"
    unfolding table_ok_def by blast
  moreover from this assms have "tt_task D tt tid = Some r" by (simp add: tt_task_def)
  moreover from assms have "p \<in> set (l_elems G (enqueue_order tt))"
    by (auto simp: table_ok_def ran_def)
  ultimately show thesis using that by blast
qed

lemma table_ok_find_inj:
  "table_ok D G tt \<Longrightarrow> hash_table_find D (by_id tt) a = Some p \<Longrightarrow>
   hash_table_find D (by_id tt) b = Some p \<Longrightarrow> a = b"
  by (metis option.inject table_ok_find)

lemma table_ok_elem:
  assumes "table_ok D G tt" "p \<in> set (l_elems G (enqueue_order tt))"
  shows "hash_table_find D (by_id tt) (record_id tt p) = Some p"
proof -
  from assms obtain tid where "hash_table_find D (by_id tt) tid = Some p"
    by (auto simp: table_ok_def ran_def)
  with assms(1) show ?thesis by (auto simp: record_id_def elim!: table_ok_find)
qed

lemma tt_task_None_iff:
  "table_ok D G tt \<Longrightarrow> tt_task D tt tid = None \<longleftrightarrow> hash_table_find D (by_id tt) tid = None"
  by (auto simp: tt_task_def table_ok_def split: option.splits) force

lemma tt_task_id: "table_ok D G tt \<Longrightarrow> tt_task D tt tid = Some r \<Longrightarrow> task_id (desc r) = tid \<and> tid \<noteq> 0"
  by (force simp: tt_task_def table_ok_def split: option.splits)

lemma distinct_tt_order:
  assumes "table_ok D G tt"
  shows "distinct (tt_order G tt)"
  unfolding tt_order_def distinct_map
proof
  show "distinct (l_elems G (enqueue_order tt))" using assms l_inv_distinct by (simp add: table_ok_def)
  show "inj_on (record_id tt) (set (l_elems G (enqueue_order tt)))"
    by (metis assms inj_onI option.inject table_ok_elem)
qed

lemma set_tt_order:
  assumes "table_ok D G tt"
  shows "set (tt_order G tt) = dom (tt_task D tt)"
proof
  show "set (tt_order G tt) \<subseteq> dom (tt_task D tt)"
  proof
    fix tid
    assume "tid \<in> set (tt_order G tt)"
    then have "hash_table_find D (by_id tt) tid \<noteq> None"
      using table_ok_elem [OF assms] by (auto simp: tt_order_def)
    then show "tid \<in> dom (tt_task D tt)" using tt_task_None_iff [OF assms] by (simp add: domIff)
  qed
next
  show "dom (tt_task D tt) \<subseteq> set (tt_order G tt)"
  proof
    fix tid
    assume "tid \<in> dom (tt_task D tt)"
    then obtain p where "hash_table_find D (by_id tt) tid = Some p"
      by (auto simp: tt_task_def split: option.splits)
    then show "tid \<in> set (tt_order G tt)"
      using assms by (force simp: tt_order_def record_id_def elim!: table_ok_find)
  qed
qed

lemma finite_tt_task: "table_ok D G tt \<Longrightarrow> finite (dom (tt_task D tt))"
  by (metis List.finite_set set_tt_order)

lemma tt_count_card:
  "table_ok D G tt \<Longrightarrow> unat (tt_count tt) = card (dom (tt_task D tt))"
  by (metis distinct_card distinct_tt_order length_map set_tt_order table_ok_def tt_order_def)

lemma table_init_ok:
  assumes "qhw_task_table_init D m = (rc, r, m')"
  shows "case r of None \<Rightarrow> rc = QHW_SCHED_ERR_NO_MEMORY
    | Some tt \<Rightarrow> rc = QHW_SCHED_OK \<and> table_ok D G tt \<and> tt_task D tt = Map.empty \<and> tt_order G tt = []"
  using assms l_init
  by (auto simp: qhw_task_table_init_def table_ok_def tt_task_def tt_order_def fun_eq_iff ran_def
      split: prod.splits option.splits dest!: ht_init)

lemma record_write_ok:
  assumes ok: "table_ok D G tt" and find: "hash_table_find D (by_id tt) tid = Some p"
    and r: "tt_task D tt tid = Some r" and id: "task_id (desc (f r)) = tid"
  shows "succeeds (record_write tt p f) (\<lambda>tt'. table_ok D G tt' \<and>
    tt_task D tt' = (tt_task D tt)(tid \<mapsto> f r) \<and> tt_order G tt' = tt_order G tt \<and>
    by_id tt' = by_id tt)"
proof -
  let ?tt = "tt\<lparr>records := (records tt)\<lparr>cells := (cells (records tt))(p \<mapsto> f r)\<rparr>\<rparr>"
  from table_ok_find [OF ok find] r have cell: "cells (records tt) p = Some r" and tid: "tid \<noteq> 0"
    by (metis, metis)
  then have eq: "record_write tt p f = Some ?tt"
    by (simp add: record_write_def record_read_def arena_put_def)
  have others: "q \<noteq> p" if "hash_table_find D (by_id tt) j = Some q" "j \<noteq> tid" for j q
    using table_ok_find_inj [OF ok find] that by blast
  have "dom (cells (records ?tt)) = dom (cells (records tt))" using cell by (auto simp: domIff)
  moreover have "\<exists>r. cells (records ?tt) q = Some r \<and> task_id (desc r) = j \<and> j \<noteq> 0"
    if "hash_table_find D (by_id tt) j = Some q" for j q
    using that others [OF that] find id tid table_ok_find [OF ok that] by (cases "j = tid") auto
  moreover have "arena_ok (records ?tt)" using ok cell by (simp add: table_ok_def)
  ultimately have "table_ok D G ?tt" using ok by (simp add: table_ok_def)
  moreover have "tt_task D ?tt = (tt_task D tt)(tid \<mapsto> f r)"
    using find others by (auto simp: tt_task_def fun_eq_iff split: option.splits)
  moreover have "tt_order G ?tt = tt_order G tt"
  proof -
    have "record_id tt p = tid" using table_ok_find [OF ok find] by (metis option.sel record_id_def)
    then show ?thesis using id by (auto simp: tt_order_def record_id_def)
  qed
  ultimately show ?thesis by (simp add: eq)
qed

lemma set_state_ok:
  assumes ok: "table_ok D G tt"
  shows "succeeds (qhw_task_table_set_state D tt tid st) (\<lambda>(rc, tt').
    table_ok D G tt' \<and> tt_order G tt' = tt_order G tt \<and> by_id tt' = by_id tt \<and>
    (case tt_task D tt tid of
       None \<Rightarrow> rc = QHW_SCHED_ERR_NOT_FOUND \<and> tt' = tt
     | Some r \<Rightarrow> rc = QHW_SCHED_OK \<and> tt_task D tt' = (tt_task D tt)(tid \<mapsto> r\<lparr>state := st\<rparr>)))"
proof (cases "hash_table_find D (by_id tt) tid")
  case None
  then show ?thesis using ok
    by (simp add: qhw_task_table_set_state_def qhw_task_table_find_def tt_task_def)
next
  case (Some p)
  then obtain r where r: "tt_task D tt tid = Some r" "task_id (desc r) = tid"
    using ok by (metis table_ok_find)
  show ?thesis
    using record_write_ok [OF ok Some r(1), of "\<lambda>r. r\<lparr>state := st\<rparr>"] r Some
    by (auto simp: qhw_task_table_set_state_def qhw_task_table_find_def elim!: succeeds_mono)
qed

text \<open>A record allocated and freed again leaves the table as it was.\<close>

lemma drop_fresh:
  assumes ok: "table_ok D G tt" and h: "ht_inv G h" "hash_table_find D h = hash_table_find D (by_id tt)"
  shows "succeeds (task_record_drop
      (tt\<lparr>records := (records tt)\<lparr>cells := (cells (records tt))(brk (records tt) \<mapsto> r),
           brk := Suc (brk (records tt))\<rparr>, by_id := h\<rparr>) (brk (records tt)))
    (\<lambda>tt'. table_ok D G tt' \<and> tt_task D tt' = tt_task D tt \<and> tt_order G tt' = tt_order G tt)"
proof -
  let ?tt = "tt\<lparr>records := (records tt)\<lparr>brk := Suc (brk (records tt))\<rparr>, by_id := h\<rparr>"
  have "cells (records tt) (brk (records tt)) = None"
    using ok by (simp add: table_ok_def arena_fresh)
  then have "(cells (records tt))(brk (records tt) := None) = cells (records tt)" by auto
  then have "(records tt)\<lparr>brk := Suc (brk (records tt)),
      cells := (cells (records tt))(brk (records tt) := None)\<rparr> = (records tt)\<lparr>brk := Suc (brk (records tt))\<rparr>"
    by simp
  then have "task_record_drop
      (tt\<lparr>records := (records tt)\<lparr>cells := (cells (records tt))(brk (records tt) \<mapsto> r),
           brk := Suc (brk (records tt))\<rparr>, by_id := h\<rparr>) (brk (records tt)) = Some ?tt"
    by (simp add: task_record_drop_def arena_free_def)
  moreover have "arena_ok (records ?tt)" using ok by (auto simp: table_ok_def arena_ok_def less_Suc_eq)
  then have "table_ok D G ?tt" using ok h by (simp add: table_ok_def)
  ultimately show ?thesis
    by (simp add: tt_task_def tt_order_def record_id_def fun_eq_iff h split: option.splits)
qed

lemma drop_fresh_same:
  assumes ok: "table_ok D G tt"
  shows "succeeds (task_record_drop
      (tt\<lparr>records := (records tt)\<lparr>cells := (cells (records tt))(brk (records tt) \<mapsto> r),
           brk := Suc (brk (records tt))\<rparr>\<rparr>) (brk (records tt)))
    (\<lambda>tt'. table_ok D G tt' \<and> tt_task D tt' = tt_task D tt \<and> tt_order G tt' = tt_order G tt)"
  using drop_fresh [OF ok, of "by_id tt" r] ok by (simp add: table_ok_def)

lemma link_ok:
  fixes tt :: "('h, 'l) qhw_task_table" and r :: qhw_task_record
  defines "tt1 \<equiv> tt\<lparr>records := (records tt)\<lparr>cells := (cells (records tt))(brk (records tt) \<mapsto> r),
           brk := Suc (brk (records tt))\<rparr>\<rparr>"
  assumes ok: "table_ok D G tt" and new: "hash_table_find D (by_id tt) tid = None"
    and id: "task_id (desc r) = tid" "tid \<noteq> 0"
  shows "succeeds (task_table_link D tt1 tid (brk (records tt)) m) (\<lambda>(rc, tt', m').
    table_ok D G tt' \<and>
    (rc = QHW_SCHED_OK \<and> tt_task D tt' = (tt_task D tt)(tid \<mapsto> r) \<and>
       tt_order G tt' = tt_order G tt @ [tid] \<or>
     rc = QHW_SCHED_ERR_NO_MEMORY \<and> tt_task D tt' = tt_task D tt \<and> tt_order G tt' = tt_order G tt))"
proof -
  let ?p = "brk (records tt)"
  obtain b h m' where ins: "hash_table_insert D (by_id tt) tid ?p m = (b, h, m')"
    by (metis surj_pair)
  have hinv: "ht_inv G (by_id tt)" using ok by (simp add: table_ok_def)
  note h = ht_insert [OF hinv new ins]
  have fresh: "cells (records tt) ?p = None" using ok by (simp add: table_ok_def arena_fresh)
  show ?thesis
  proof (cases b)
    case False
    have "hash_table_find D h = hash_table_find D (by_id tt)" using h new False by auto
    from drop_fresh [OF ok conjunct1 [OF h] this, of r] show ?thesis
      using False by (auto simp: task_table_link_def ins tt1_def elim!: succeeds_mono)
  next
    case True
    let ?tt = "tt1\<lparr>by_id := h, enqueue_order := list_push_back D (enqueue_order tt) ?p,
      tt_count := tt_count tt + 1\<rparr>"
    have eq: "task_table_link D tt1 tid ?p m = Some (QHW_SCHED_OK, ?tt, m')"
      using True ins by (simp add: task_table_link_def tt1_def)
    have find: "hash_table_find D h = (hash_table_find D (by_id tt))(tid \<mapsto> ?p)" using h True by simp
    have ran: "ran (hash_table_find D h) = insert ?p (ran (hash_table_find D (by_id tt)))"
      using new find by (simp add: ran_map_upd)
    have notin: "?p \<notin> set (l_elems G (enqueue_order tt))"
      using ok fresh by (auto simp: table_ok_def)
    with ok have push: "l_inv G (enqueue_order ?tt)"
      "l_elems G (enqueue_order ?tt) = l_elems G (enqueue_order tt) @ [?p]"
      using l_push_back by (simp_all add: table_ok_def)
    have order: "tt_order G ?tt = tt_order G tt @ [tid]"
      using notin push(2) id by (auto simp: tt_order_def record_id_def tt1_def)
    have "distinct (tt_order G ?tt)" "0 \<notin> set (tt_order G ?tt)"
      using distinct_tt_order [OF ok] set_tt_order [OF ok] tt_task_id [OF ok] id new
        tt_task_None_iff [OF ok, of tid] by (auto simp: order domIff)
    then have "length (tt_order G tt @ [tid]) \<le> 18446744073709551615"
      unfolding order by (rule distinct_nonzero_u64_length)
    then have "unat (tt_count tt) \<noteq> unat UINT64_MAX"
      using ok by (simp add: table_ok_def tt_order_def)
    then have "tt_count tt \<noteq> UINT64_MAX" by metis
    then have cnt: "unat (tt_count ?tt) = length (l_elems G (enqueue_order ?tt))"
      using ok push by (simp add: unat_u64_Suc table_ok_def)
    have "\<exists>r. cells (records ?tt) q = Some r \<and> task_id (desc r) = j \<and> j \<noteq> 0"
      if "hash_table_find D h j = Some q" for j q
    proof (cases "j = tid")
      case True
      then show ?thesis using that id find by (simp add: tt1_def)
    next
      case False
      then have "hash_table_find D (by_id tt) j = Some q" using that find by simp
      then obtain r' where "cells (records tt) q = Some r'" "task_id (desc r') = j" "j \<noteq> 0"
        by (metis ok table_ok_find)
      then show ?thesis using fresh by (auto simp: tt1_def)
    qed
    then have "table_ok D G ?tt"
      using ok h push ran cnt by (auto simp: table_ok_def tt1_def)
    moreover have "tt_task D ?tt = (tt_task D tt)(tid \<mapsto> r)"
    proof
      fix j
      show "tt_task D ?tt j = ((tt_task D tt)(tid \<mapsto> r)) j"
        using ok find fresh
        by (cases "hash_table_find D (by_id tt) j")
          (auto simp: tt_task_def tt1_def elim!: table_ok_find [rotated])
    qed
    ultimately show ?thesis using order by (simp add: eq)
  qed
qed

lemma put_fresh:
  assumes "arena_ok a"
  shows "arena_put (brk a) r (a\<lparr>cells := (cells a)(brk a \<mapsto> x), brk := Suc (brk a)\<rparr>) =
    Some (a\<lparr>cells := (cells a)(brk a \<mapsto> r), brk := Suc (brk a)\<rparr>)"
  using assms by (simp add: arena_put_def)

lemma insert_state_ok:
  assumes ok: "table_ok D G tt"
  shows "succeeds (qhw_task_table_insert_state D tt task seq st m) (\<lambda>(rc, tt', m').
    table_ok D G tt' \<and>
    (if rc = QHW_SCHED_OK then
       task_id task \<noteq> 0 \<and> tt_task D tt (task_id task) = None \<and>
       tt_task D tt' = (tt_task D tt)(task_id task \<mapsto> stored_record task seq st) \<and>
       tt_order G tt' = tt_order G tt @ [task_id task]
     else
       rc \<in> {QHW_SCHED_ERR_INVALID_ARG, QHW_SCHED_ERR_NO_MEMORY, QHW_SCHED_ERR_EXISTS} \<and>
       tt_task D tt' = tt_task D tt \<and> tt_order G tt' = tt_order G tt))"
proof (cases "task_id task = 0")
  case True
  then show ?thesis using ok by (simp add: qhw_task_table_insert_state_def)
next
  case False
  note id = False
  obtain b m1 where m1: "mem_alloc m = (b, m1)" by force
  obtain b2 m2 where m2: "mem_alloc m1 = (b2, m2)" by force
  have arena: "arena_ok (records tt)" using ok by (simp add: table_ok_def)
  note defs = qhw_task_table_insert_state_def m1 m2 Let_def arena_alloc_def put_fresh [OF arena]
  note dropped = drop_fresh_same [OF ok, of "new_task_record task seq st"]
  show ?thesis
  proof (cases "b \<and> hash_table_find D (by_id tt) (task_id task) = None")
    case False
    then show ?thesis using ok id
      by (auto simp: defs intro!: succeeds_mono [OF dropped])
  next
    case True
    then have new: "hash_table_find D (by_id tt) (task_id task) = None" and b by auto
    then have none: "tt_task D tt (task_id task) = None" using tt_task_None_iff [OF ok] by simp
    show ?thesis
    proof (cases "kv_count (metadata task) > 0")
      case True
      have stored: "stored_record task seq st =
          new_task_record (task\<lparr>metadata := KvArr (kv_entries (metadata task))\<rparr>) seq st"
        using True by (simp add: stored_record_def owned_metadata_def)
      show ?thesis
        using link_ok [OF ok new, of "stored_record task seq st" m2] ok id new none \<open>b\<close> True
        by (auto simp: defs stored new_task_record_def intro!: succeeds_mono [OF dropped [unfolded new_task_record_def]]
            elim!: succeeds_mono)
    next
      case False
      have stored: "stored_record task seq st =
          new_task_record (task\<lparr>metadata := KvNull 0\<rparr>) seq st"
        using False by (simp add: stored_record_def owned_metadata_def)
      show ?thesis
        using link_ok [OF ok new, of "stored_record task seq st" m1] ok id new none \<open>b\<close> False
        by (auto simp: defs stored new_task_record_def elim!: succeeds_mono)
    qed
  qed
qed

lemma insert_ok:
  assumes ok: "table_ok D G tt"
  shows "succeeds (qhw_task_table_insert D tt task seq m) (\<lambda>(rc, tt', m').
    table_ok D G tt' \<and>
    (if rc = QHW_SCHED_OK then
       task_id task \<noteq> 0 \<and> tt_task D tt (task_id task) = None \<and>
       tt_task D tt' =
         (tt_task D tt)(task_id task \<mapsto> stored_record task seq QHW_SCHED_TASK_QUEUED) \<and>
       tt_order G tt' = tt_order G tt @ [task_id task]
     else
       rc \<in> {QHW_SCHED_ERR_INVALID_ARG, QHW_SCHED_ERR_NO_MEMORY, QHW_SCHED_ERR_EXISTS} \<and>
       tt_task D tt' = tt_task D tt \<and> tt_order G tt' = tt_order G tt))"
  unfolding qhw_task_table_insert_def by (rule insert_state_ok) (rule ok)

lemma remove_ok:
  assumes ok: "table_ok D G tt"
  shows "succeeds (qhw_task_table_remove D tt tid) (\<lambda>tt'. table_ok D G tt' \<and>
    tt_task D tt' = (tt_task D tt)(tid := None) \<and> tt_order G tt' = remove1 tid (tt_order G tt))"
proof -
  obtain r h where rem: "hash_table_remove D (by_id tt) tid = (r, h)" by force
  have hinv: "ht_inv G (by_id tt)" and linv: "l_inv G (enqueue_order tt)"
    using ok by (simp_all add: table_ok_def)
  note h = ht_remove_fun [OF hinv rem]
  show ?thesis
  proof (cases r)
    case None
    then have none: "hash_table_find D (by_id tt) tid = None" using h(1) by simp
    then have find: "hash_table_find D h = hash_table_find D (by_id tt)" using h(3) by auto
    let ?tt = "tt\<lparr>by_id := h\<rparr>"
    have "table_ok D G ?tt" using ok h(2) find by (simp add: table_ok_def)
    moreover have task: "tt_task D ?tt = tt_task D tt" by (simp add: tt_task_def fun_eq_iff find split: option.splits)
    moreover have "tt_order G ?tt = tt_order G tt" by (simp add: tt_order_def record_id_def)
    moreover have "tt_task D tt tid = None" using none tt_task_None_iff [OF ok] by simp
    then have "tid \<notin> set (tt_order G tt)" "(tt_task D tt)(tid := None) = tt_task D tt"
      using set_tt_order [OF ok] by (auto simp: domIff)
    ultimately show ?thesis using None rem
      by (simp add: qhw_task_table_remove_def remove1_idem)
  next
    case (Some p)
    then have found: "hash_table_find D (by_id tt) tid = Some p" using h(1) by simp
    obtain rcd where cell: "cells (records tt) p = Some rcd" "task_id (desc rcd) = tid"
      and pin: "p \<in> set (l_elems G (enqueue_order tt))"
      using table_ok_find [OF ok found] by metis
    let ?tt = "tt\<lparr>by_id := h, enqueue_order := list_remove D (enqueue_order tt) p,
      records := (records tt)\<lparr>cells := (cells (records tt))(p := None)\<rparr>,
      tt_count := tt_count tt - 1\<rparr>"
    have len: "0 < unat (tt_count tt)" using ok pin by (auto simp: table_ok_def length_pos_if_in_set)
    then have pos: "tt_count tt > 0" by (simp add: word_less_nat_alt)
    have eq: "qhw_task_table_remove D tt tid = Some ?tt"
      using cell pos Some rem by (simp add: qhw_task_table_remove_def task_record_drop_def arena_free_def)
    have others: "q \<noteq> p" if "hash_table_find D (by_id tt) j = Some q" "j \<noteq> tid" for j q
      using table_ok_find_inj [OF ok found] that by blast
    have ran: "ran (hash_table_find D h) = ran (hash_table_find D (by_id tt)) - {p}"
      unfolding h(3) by (rule ran_upd_None) (use found others in auto)
    have dist: "distinct (l_elems G (enqueue_order tt))" using linv by (rule l_inv_distinct)
    have els: "l_inv G (list_remove D (enqueue_order tt) p)"
      "l_elems G (list_remove D (enqueue_order tt) p) = remove1 p (l_elems G (enqueue_order tt))"
      using l_remove [OF linv pin] by simp_all
    have cnt: "unat (tt_count ?tt) = length (l_elems G (enqueue_order ?tt))"
      using len ok pin els by (simp add: table_ok_def unat_u64_pred length_remove1)
    have "\<exists>r. cells (records ?tt) q = Some r \<and> task_id (desc r) = j \<and> j \<noteq> 0"
      if "hash_table_find D h j = Some q" for j q
    proof -
      have "j \<noteq> tid" "hash_table_find D (by_id tt) j = Some q"
        using that h(3) by (auto split: if_splits)
      then show ?thesis using others by (auto elim!: table_ok_find [OF ok])
    qed
    moreover have "dom (cells (records ?tt)) = ran (hash_table_find D h)"
      using ok ran by (simp add: table_ok_def)
    moreover have "set (l_elems G (enqueue_order ?tt)) = ran (hash_table_find D h)"
      using ok ran dist by (simp add: table_ok_def els(2) set_remove1_eq)
    moreover have "arena_ok (records ?tt)" using ok cell by (simp add: table_ok_def)
    ultimately have "table_ok D G ?tt" using els(1) cnt h(2) by (simp add: table_ok_def)
    moreover have "tt_task D ?tt = (tt_task D tt)(tid := None)"
      using h(3) others by (auto simp: tt_task_def fun_eq_iff split: option.splits)
    moreover have "tt_order G ?tt = remove1 tid (tt_order G tt)"
    proof -
      have "inj_on (record_id tt) (set (l_elems G (enqueue_order tt)))"
        by (metis ok inj_onI option.inject table_ok_elem)
      then have "map (record_id tt) (remove1 p (l_elems G (enqueue_order tt))) =
          remove1 (record_id tt p) (tt_order G tt)"
        using pin by (simp add: tt_order_def map_remove1_inj insert_absorb)
      moreover have "record_id tt p = tid" using cell by (simp add: record_id_def)
      moreover have "p \<notin> set (remove1 p (l_elems G (enqueue_order tt)))"
        using dist by (simp add: set_remove1_eq)
      then have "map (record_id ?tt) (remove1 p (l_elems G (enqueue_order tt))) =
          map (record_id tt) (remove1 p (l_elems G (enqueue_order tt)))"
        by (auto simp: record_id_def)
      ultimately show ?thesis using els(2) by (simp add: tt_order_def)
    qed
    ultimately show ?thesis by (simp add: eq)
  qed
qed

lemma for_each_loop_run:
  assumes ok: "table_ok D G tt" and "l_elems G (enqueue_order tt) = xs @ ys"
  shows "for_each_queued_loop D tt fn (case ys of [] \<Rightarrow> None | y # _ \<Rightarrow> Some y) s =
    run_all fn (filter (\<lambda>r. state r = QHW_SCHED_TASK_QUEUED) (map (\<lambda>p. the (cells (records tt) p)) ys)) s"
  using assms(2)
proof (induction ys arbitrary: xs s)
  case Nil
  then show ?case by (simp add: for_each_queued_loop.simps)
next
  case (Cons p ys)
  have linv: "l_inv G (enqueue_order tt)" using ok by (simp add: table_ok_def)
  have "p \<in> set (l_elems G (enqueue_order tt))" using Cons.prems by simp
  then obtain r where r: "cells (records tt) p = Some r"
    using ok by (metis domD table_ok_def)
  note IH = Cons.IH [of "xs @ [p]"]
  show ?case
    using IH Cons.prems l_next [OF linv Cons.prems] r
    by (subst for_each_queued_loop.simps)
      (auto simp: record_read_def Let_def split: Option.bind_splits)
qed

lemma for_each_queued_run:
  assumes ok: "table_ok D G tt"
  shows "qhw_task_table_for_each_queued D tt fn s = run_all fn (tt_queued D G tt) s"
proof -
  have "map (\<lambda>i. the (tt_task D tt i)) (tt_order G tt) =
      map (\<lambda>p. the (cells (records tt) p)) (l_elems G (enqueue_order tt))"
    using table_ok_elem [OF ok] by (auto simp: tt_order_def tt_task_def)
  moreover have "l_inv G (enqueue_order tt)" using ok by (simp add: table_ok_def)
  ultimately show ?thesis
    using for_each_loop_run [OF ok, of "[]" "l_elems G (enqueue_order tt)"]
    by (simp add: qhw_task_table_for_each_queued_def tt_queued_def l_next_head)
qed

lemma set_tt_queued:
  assumes ok: "table_ok D G tt"
  shows "set (tt_queued D G tt) =
    {r. \<exists>tid. tt_task D tt tid = Some r \<and> state r = QHW_SCHED_TASK_QUEUED}"
  using set_tt_order [OF ok] by (force simp: tt_queued_def)

lemma distinct_tt_queued:
  assumes ok: "table_ok D G tt"
  shows "distinct (map (\<lambda>r. task_id (desc r)) (tt_queued D G tt))"
proof -
  have "map (\<lambda>r. task_id (desc r)) (tt_queued D G tt) =
      filter (\<lambda>i. state (the (tt_task D tt i)) = QHW_SCHED_TASK_QUEUED) (tt_order G tt)"
  proof -
    have "\<forall>i \<in> set (tt_order G tt). task_id (desc (the (tt_task D tt i))) = i"
      using set_tt_order [OF ok] tt_task_id [OF ok] by auto
    then show ?thesis
      unfolding tt_queued_def filter_map map_map comp_def by (auto intro!: map_idI)
  qed
  then show ?thesis using distinct_tt_order [OF ok] by simp
qed

lemma find_eq_task:
  "table_ok D G tt \<Longrightarrow> qhw_task_table_find D tt tid = None \<longleftrightarrow> tt_task D tt tid = None"
  by (simp add: qhw_task_table_find_def tt_task_None_iff)

lemma find_read:
  assumes "table_ok D G tt" "qhw_task_table_find D tt tid = Some p"
  obtains r where "record_read tt p = Some r" "tt_task D tt tid = Some r" "task_id (desc r) = tid"
  using assms by (metis qhw_task_table_find_def record_read_def table_ok_find)

lemma task_records_free_ok:
  assumes "distinct ps" "set ps \<subseteq> dom (cells recs)"
  shows "succeeds (task_records_free recs ps) (\<lambda>recs'. dom (cells recs') = dom (cells recs) - set ps)"
  using assms
proof (induction ps arbitrary: recs)
  case (Cons p ps)
  let ?recs = "recs\<lparr>cells := (cells recs)(p := None)\<rparr>"
  have "arena_free p recs = Some ?recs"
    using Cons.prems by (auto simp: arena_free_def split: option.splits)
  moreover have "succeeds (task_records_free ?recs ps)
      (\<lambda>recs'. dom (cells recs') = dom (cells ?recs) - set ps)"
    using Cons.prems by (intro Cons.IH) auto
  ultimately show ?case by (auto elim!: succeeds_mono)
qed simp

lemma fini_ok:
  assumes ok: "table_ok D G tt"
  shows "succeeds (qhw_task_table_fini D tt) (\<lambda>tt'. cells (records tt') = Map.empty \<and> tt_count tt' = 0)"
proof -
  have "ht_inv G (by_id tt)" using ok by (simp add: table_ok_def)
  then obtain ks where ks: "distinct ks" "set ks = dom (hash_table_find D (by_id tt))"
      "hash_table_fini D (by_id tt) = map (\<lambda>k. the (hash_table_find D (by_id tt) k)) ks"
    using ht_fini by blast
  have "inj_on (\<lambda>k. the (hash_table_find D (by_id tt) k)) (set ks)"
  proof (rule inj_onI)
    fix a b
    assume "a \<in> set ks" "b \<in> set ks"
      "the (hash_table_find D (by_id tt) a) = the (hash_table_find D (by_id tt) b)"
    then obtain p where "hash_table_find D (by_id tt) a = Some p" "hash_table_find D (by_id tt) b = Some p"
      using ks(2) by auto
    then show "a = b" by (rule table_ok_find_inj [OF ok])
  qed
  then have "distinct (hash_table_fini D (by_id tt))" using ks by (simp add: distinct_map)
  moreover have "set (hash_table_fini D (by_id tt)) = dom (cells (records tt))"
  proof -
    have "set (hash_table_fini D (by_id tt)) = ran (hash_table_find D (by_id tt))"
      unfolding ks(3) set_map ks(2) by (rule image_the_dom)
    then show ?thesis using ok by (simp add: table_ok_def)
  qed
  ultimately show ?thesis
    using task_records_free_ok [of "hash_table_fini D (by_id tt)" "records tt"]
    by (auto simp: qhw_task_table_fini_def elim!: succeeds_mono)
qed

end

end
