(* ===== verification/Qpu.thy ===== *)
theory Qpu
  imports Runtime Split_Config
begin

section \<open>QPU object\<close>

text \<open>
  \<^verbatim>\<open>src/qhw_qpu.c\<close> and the runtime counters \<^verbatim>\<open>qpu_runtime_task_*\<close> of \<^verbatim>\<open>src/qhw_scheduler.c\<close>. The QPU
  owns a copy of the profile's metadata, which is the \<^verbatim>\<open>qp_metadata\<close> of its profile here. A released
  object that is freed is \<^term>\<open>None\<close> inside the result of \<^verbatim>\<open>qhw_qpu_release\<close>.
\<close>

record qhw_sched_qpu =
  profile :: qhw_sched_qpu_profile
  runtime :: qhw_sched_qpu_runtime
  qpu_lock :: qhw_mutex
  refcount :: u64

definition zero_runtime :: qhw_sched_qpu_runtime where
  "zero_runtime = \<lparr>qr_struct_size = 0, queued_count = 0, completed_count = 0, failed_count = 0,
     cancelled_count = 0, running_task_id = 0\<rparr>"

subsection \<open>Life cycle\<close>

definition qhw_sched_qpu_create ::
  "qhw_sched_qpu_profile option \<Rightarrow> env \<Rightarrow> (qhw_sched_rc \<times> qhw_sched_qpu option \<times> env) option" where
  "qhw_sched_qpu_create prof e =
     (case prof of
        None \<Rightarrow> Some (QHW_SCHED_ERR_INVALID_ARG, None, e)
      | Some pr \<Rightarrow>
          if qpu_id pr = 0 then Some (QHW_SCHED_ERR_INVALID_ARG, None, e)
          else if kv_count (qp_metadata pr) > 0 \<and> kv_is_null (qp_metadata pr)
          then Some (QHW_SCHED_ERR_INVALID_ARG, None, e)
          else if kv_count (qp_metadata pr) > SIZE_MAX div sizeof_kv
          then Some (QHW_SCHED_ERR_INVALID_ARG, None, e)
          else
            let (got, e) = env_alloc e in
            if \<not> got then Some (QHW_SCHED_ERR_NO_MEMORY, None, e)
            else
              let (rc, l, e) = qhw_thread_init QHW_SCHED_THREAD_SAFE zero_mutex e in
              if rc \<noteq> QHW_SCHED_OK then Some (rc, None, e)
              else
                let qpu = \<lparr>profile = pr,
                      runtime = zero_runtime\<lparr>qr_struct_size := sizeof_qpu_runtime\<rparr>,
                      qpu_lock = l, refcount = 1\<rparr>
                in if kv_count (qp_metadata pr) > 0 then
                     let (got, e) = env_alloc e in
                     if \<not> got then do {
                       _ \<leftarrow> ops_destroy (qpu_lock qpu);
                       Some (QHW_SCHED_ERR_NO_MEMORY, None, e)
                     }
                     else Some (QHW_SCHED_OK,
                       Some (qpu\<lparr>profile := pr\<lparr>qp_metadata := KvArr (kv_entries (qp_metadata pr))\<rparr>\<rparr>), e)
                   else Some (QHW_SCHED_OK,
                     Some (qpu\<lparr>profile := pr\<lparr>qp_metadata := KvNull 0\<rparr>\<rparr>), e))"

definition qhw_qpu_retain :: "qhw_sched_qpu \<Rightarrow> qhw_sched_qpu option" where
  "qhw_qpu_retain qpu = do {
     l \<leftarrow> ops_lock (qpu_lock qpu);
     let qpu = qpu\<lparr>qpu_lock := l, refcount := refcount qpu + 1\<rparr>;
     l \<leftarrow> ops_unlock (qpu_lock qpu);
     Some (qpu\<lparr>qpu_lock := l\<rparr>)
   }"

definition qhw_qpu_release :: "qhw_sched_qpu \<Rightarrow> qhw_sched_qpu option option" where
  "qhw_qpu_release qpu = do {
     l \<leftarrow> ops_lock (qpu_lock qpu);
     let qpu = qpu\<lparr>qpu_lock := l, refcount := refcount qpu - 1\<rparr>;
     let destroy = (refcount qpu = 0);
     l \<leftarrow> ops_unlock (qpu_lock qpu);
     let qpu = qpu\<lparr>qpu_lock := l\<rparr>;
     if \<not> destroy then Some (Some qpu)
     else do {
       _ \<leftarrow> ops_destroy (qpu_lock qpu);
       Some None
     }
   }"

definition qhw_sched_qpu_destroy :: "qhw_sched_qpu option \<Rightarrow> qhw_sched_qpu option option" where
  "qhw_sched_qpu_destroy qpu =
     (case qpu of None \<Rightarrow> Some None | Some q \<Rightarrow> qhw_qpu_release q)"

definition qhw_sched_qpu_get_profile ::
  "qhw_sched_qpu option \<Rightarrow> qhw_sched_rc \<times> qhw_sched_qpu_profile option" where
  "qhw_sched_qpu_get_profile qpu =
     (case qpu of None \<Rightarrow> (QHW_SCHED_ERR_INVALID_ARG, None) | Some q \<Rightarrow> (QHW_SCHED_OK, Some (profile q)))"

definition qhw_sched_qpu_get_runtime ::
  "qhw_sched_qpu option \<Rightarrow> (qhw_sched_rc \<times> qhw_sched_qpu_runtime option \<times> qhw_sched_qpu option) option" where
  "qhw_sched_qpu_get_runtime qpu =
     (case qpu of
        None \<Rightarrow> Some (QHW_SCHED_ERR_INVALID_ARG, None, None)
      | Some q \<Rightarrow> do {
          l \<leftarrow> ops_lock (qpu_lock q);
          let out = runtime q;
          l \<leftarrow> ops_unlock l;
          Some (QHW_SCHED_OK, Some out, Some (q\<lparr>qpu_lock := l\<rparr>))
        })"

subsection \<open>Runtime counters\<close>

definition qpu_runtime_task_queued :: "qhw_sched_qpu \<Rightarrow> qhw_sched_qpu option" where
  "qpu_runtime_task_queued qpu = do {
     l \<leftarrow> ops_lock (qpu_lock qpu);
     let rt = (runtime qpu)\<lparr>queued_count := queued_count (runtime qpu) + 1\<rparr>;
     l \<leftarrow> ops_unlock l;
     Some (qpu\<lparr>runtime := rt, qpu_lock := l\<rparr>)
   }"

definition qpu_runtime_task_unqueued :: "qhw_sched_qpu \<Rightarrow> qhw_sched_qpu option" where
  "qpu_runtime_task_unqueued qpu = do {
     l \<leftarrow> ops_lock (qpu_lock qpu);
     let rt = (if queued_count (runtime qpu) > 0
               then (runtime qpu)\<lparr>queued_count := queued_count (runtime qpu) - 1\<rparr>
               else runtime qpu);
     l \<leftarrow> ops_unlock l;
     Some (qpu\<lparr>runtime := rt, qpu_lock := l\<rparr>)
   }"

definition qpu_runtime_task_started ::
  "qhw_sched_qpu \<Rightarrow> u64 \<Rightarrow> (qhw_sched_rc \<times> qhw_sched_qpu) option" where
  "qpu_runtime_task_started qpu tid = do {
     l \<leftarrow> ops_lock (qpu_lock qpu);
     let (rc, rt) =
       (if running_task_id (runtime qpu) \<noteq> QHW_SCHED_INVALID_TASK_ID
        then (QHW_SCHED_ERR_STATE, runtime qpu)
        else (QHW_SCHED_OK, (runtime qpu)\<lparr>running_task_id := tid\<rparr>));
     l \<leftarrow> ops_unlock l;
     Some (rc, qpu\<lparr>runtime := rt, qpu_lock := l\<rparr>)
   }"

definition qpu_runtime_task_unstarted :: "qhw_sched_qpu \<Rightarrow> u64 \<Rightarrow> qhw_sched_qpu option" where
  "qpu_runtime_task_unstarted qpu tid = do {
     l \<leftarrow> ops_lock (qpu_lock qpu);
     let rt = (if running_task_id (runtime qpu) = tid
               then (runtime qpu)\<lparr>running_task_id := QHW_SCHED_INVALID_TASK_ID\<rparr>
               else runtime qpu);
     l \<leftarrow> ops_unlock l;
     Some (qpu\<lparr>runtime := rt, qpu_lock := l\<rparr>)
   }"

definition qpu_runtime_task_finished ::
  "qhw_sched_qpu \<Rightarrow> u64 \<Rightarrow> qhw_sched_task_state \<Rightarrow> qhw_sched_qpu option" where
  "qpu_runtime_task_finished qpu tid st = do {
     l \<leftarrow> ops_lock (qpu_lock qpu);
     let rt = (if running_task_id (runtime qpu) = tid
               then (runtime qpu)\<lparr>running_task_id := QHW_SCHED_INVALID_TASK_ID\<rparr>
               else runtime qpu);
     let rt = (if st = QHW_SCHED_TASK_COMPLETED then rt\<lparr>completed_count := completed_count rt + 1\<rparr>
               else if st = QHW_SCHED_TASK_FAILED then rt\<lparr>failed_count := failed_count rt + 1\<rparr>
               else if st = QHW_SCHED_TASK_CANCELLED then rt\<lparr>cancelled_count := cancelled_count rt + 1\<rparr>
               else rt);
     l \<leftarrow> ops_unlock l;
     Some (qpu\<lparr>runtime := rt, qpu_lock := l\<rparr>)
   }"

subsection \<open>Facts\<close>

definition qpu_ok :: "qhw_sched_qpu \<Rightarrow> bool" where
  "qpu_ok q \<longleftrightarrow> lock_free (qpu_lock q) \<and> lock_ops (qpu_lock q) = Lock_mutex \<and> 0 < refcount q"

lemma qpu_ok_lock_free [simp]: "qpu_ok q \<Longrightarrow> lock_free (qpu_lock q)"
  by (simp add: qpu_ok_def)

lemma qpu_ok_update [simp]: "qpu_ok (q\<lparr>runtime := rt\<rparr>) = qpu_ok q" "qpu_ok (q\<lparr>profile := pr\<rparr>) = qpu_ok q"
  by (simp_all add: qpu_ok_def)

lemma qpu_lock_same [simp]: "q\<lparr>runtime := rt, qpu_lock := qpu_lock q\<rparr> = q\<lparr>runtime := rt\<rparr>"
  by simp

lemma queued_eq [simp]:
  "qpu_ok q \<Longrightarrow> qpu_runtime_task_queued q =
     Some (q\<lparr>runtime := (runtime q)\<lparr>queued_count := queued_count (runtime q) + 1\<rparr>\<rparr>)"
  by (simp add: qpu_runtime_task_queued_def Let_def)

lemma unqueued_eq [simp]:
  "qpu_ok q \<Longrightarrow> qpu_runtime_task_unqueued q =
     Some (q\<lparr>runtime := (runtime q)\<lparr>queued_count :=
       (if queued_count (runtime q) > 0 then queued_count (runtime q) - 1 else 0)\<rparr>\<rparr>)"
  by (auto simp: qpu_runtime_task_unqueued_def Let_def word_greater_zero_iff)

lemma started_eq [simp]:
  "qpu_ok q \<Longrightarrow> qpu_runtime_task_started q tid =
     Some (if running_task_id (runtime q) \<noteq> 0 then (QHW_SCHED_ERR_STATE, q)
           else (QHW_SCHED_OK, q\<lparr>runtime := (runtime q)\<lparr>running_task_id := tid\<rparr>\<rparr>))"
  by (auto simp: qpu_runtime_task_started_def Let_def)

lemma unstarted_eq [simp]:
  "qpu_ok q \<Longrightarrow> qpu_runtime_task_unstarted q tid =
     Some (q\<lparr>runtime := (runtime q)\<lparr>running_task_id :=
       (if running_task_id (runtime q) = tid then 0 else running_task_id (runtime q))\<rparr>\<rparr>)"
  by (auto simp: qpu_runtime_task_unstarted_def Let_def)

text \<open>The counters after a task has reached the terminal state \<^verbatim>\<open>st\<close>.\<close>

definition finished_runtime ::
  "qhw_sched_qpu_runtime \<Rightarrow> u64 \<Rightarrow> qhw_sched_task_state \<Rightarrow> qhw_sched_qpu_runtime" where
  "finished_runtime rt tid st = rt
     \<lparr>running_task_id := (if running_task_id rt = tid then 0 else running_task_id rt),
      completed_count := completed_count rt + of_bool (st = QHW_SCHED_TASK_COMPLETED),
      failed_count := failed_count rt + of_bool (st = QHW_SCHED_TASK_FAILED),
      cancelled_count := cancelled_count rt + of_bool (st = QHW_SCHED_TASK_CANCELLED)\<rparr>"

lemma finished_eq [simp]:
  "qpu_ok q \<Longrightarrow> qpu_runtime_task_finished q tid st =
     Some (q\<lparr>runtime := finished_runtime (runtime q) tid st\<rparr>)"
  by (cases st) (auto simp: qpu_runtime_task_finished_def finished_runtime_def Let_def)

lemma retain_eq [simp]:
  "qpu_ok q \<Longrightarrow> qhw_qpu_retain q = Some (q\<lparr>refcount := refcount q + 1\<rparr>)"
  by (simp add: qhw_qpu_retain_def Let_def)

lemma qpu_create_ok:
  "succeeds (qhw_sched_qpu_create prof e) (\<lambda>(rc, q, e').
     case q of None \<Rightarrow> rc \<noteq> QHW_SCHED_OK
     | Some q \<Rightarrow> rc = QHW_SCHED_OK \<and> qpu_ok q \<and> refcount q = 1 \<and>
         runtime q = zero_runtime\<lparr>qr_struct_size := sizeof_qpu_runtime\<rparr>)"
proof (cases prof)
  case (Some pr)
  obtain got e1 where 1: "env_alloc e = (got, e1)" by force
  obtain rc l e2 where 2: "qhw_thread_init QHW_SCHED_THREAD_SAFE zero_mutex e1 = (rc, l, e2)"
    by (metis prod_cases3)
  obtain got' e3 where 3: "env_alloc e2 = (got', e3)" by force
  have "rc = QHW_SCHED_OK \<Longrightarrow> lock_ops l = Lock_mutex \<and> live l \<and> \<not> held l"
    using 2 by (auto simp: qhw_thread_init_def split: if_splits prod.splits)
  then show ?thesis using Some 1 2 3
    by (auto simp: qhw_sched_qpu_create_def Let_def qpu_ok_def lock_free_def ops_destroy_def
        mutex_destroy_def)
qed (simp add: qhw_sched_qpu_create_def)

end
