(* ===== verification/Plugin.thy ===== *)
theory Plugin
  imports Qpu
begin

unbundle bit_operations_syntax

section \<open>Policy plugins and the plugin registry\<close>

text \<open>
  The plugin descriptor of \<^verbatim>\<open>include/qhw_scheduler/qhw_scheduler_plugin.h\<close>, its validation and the
  registry of \<^verbatim>\<open>src/qhw_plugin.c\<close>, and the contract a scheduling policy has to satisfy.

  A callback of the descriptor is a function pointer that may be null. It receives the policy state
  behind \<^verbatim>\<open>void *policy_state\<close> (\<^term>\<open>None\<close> for a null pointer) and returns it updated, together with
  its return code, its out-parameter and the environment; no result at all stands for undefined
  behaviour or a call that does not return.
\<close>

subsection \<open>Descriptor\<close>

record 'p qhw_sched_plugin_desc =
  pd_struct_size :: nat
  pd_abi_version :: u32
  pd_name :: "string option"
  pd_version :: "string option"
  pd_description :: "string option"
  pd_capabilities :: u64
  pd_thread_flags :: u64
  pd_init :: "(kv_ref \<Rightarrow> env \<Rightarrow> (qhw_sched_rc \<times> 'p option \<times> env) option) option"
  pd_fini :: "('p option \<Rightarrow> env \<Rightarrow> env option) option"
  pd_on_task_submit ::
    "('p option \<Rightarrow> qhw_sched_task_desc \<Rightarrow> env \<Rightarrow> (qhw_sched_rc \<times> 'p option \<times> env) option) option"
  pd_select_next ::
    "('p option \<Rightarrow> qhw_sched_assignment \<Rightarrow> env \<Rightarrow>
      (qhw_sched_rc \<times> qhw_sched_assignment \<times> 'p option \<times> env) option) option"
  pd_get_split_config ::
    "('p option \<Rightarrow> qhw_sched_split_config \<Rightarrow> env \<Rightarrow>
      (qhw_sched_rc \<times> qhw_sched_split_config \<times> 'p option \<times> env) option) option"
  pd_on_task_priority_changed ::
    "('p option \<Rightarrow> u64 \<Rightarrow> i64 \<Rightarrow> env \<Rightarrow> (qhw_sched_rc \<times> 'p option \<times> env) option) option"
  pd_on_task_started ::
    "('p option \<Rightarrow> u64 \<Rightarrow> env \<Rightarrow> (qhw_sched_rc \<times> 'p option \<times> env) option) option"
  pd_on_task_finished ::
    "('p option \<Rightarrow> u64 \<Rightarrow> qhw_sched_task_state \<Rightarrow> env \<Rightarrow>
      (qhw_sched_rc \<times> 'p option \<times> env) option) option"

text \<open>The descriptor of a scheduler without a policy: all zero.\<close>

definition zero_plugin_desc :: "'p qhw_sched_plugin_desc" where
  "zero_plugin_desc = \<lparr>pd_struct_size = 0, pd_abi_version = 0, pd_name = None, pd_version = None,
     pd_description = None, pd_capabilities = 0, pd_thread_flags = 0, pd_init = None, pd_fini = None,
     pd_on_task_submit = None, pd_select_next = None, pd_get_split_config = None,
     pd_on_task_priority_changed = None, pd_on_task_started = None, pd_on_task_finished = None\<rparr>"

abbreviation (input) QHW_SCHED_ABI_VERSION :: u32 where "QHW_SCHED_ABI_VERSION \<equiv> 1"
abbreviation (input) QHW_SCHED_PLUGIN_THREAD_SAFE :: u64 where "QHW_SCHED_PLUGIN_THREAD_SAFE \<equiv> 1"
abbreviation (input) QHW_SCHED_PLUGIN_THREAD_USER :: u64 where "QHW_SCHED_PLUGIN_THREAD_USER \<equiv> 2"
abbreviation (input) QHW_SCHED_PLUGIN_THREAD_ALL :: u64 where "QHW_SCHED_PLUGIN_THREAD_ALL \<equiv> 3"
abbreviation (input) sizeof_plugin_desc :: nat where "sizeof_plugin_desc \<equiv> 120"
abbreviation (input) abi_size :: nat where "abi_size \<equiv> 12"

subsection \<open>Validation\<close>

definition threading_to_plugin_flag :: "u32 \<Rightarrow> u64" where
  "threading_to_plugin_flag mode =
     (if mode = QHW_SCHED_THREAD_SAFE then QHW_SCHED_PLUGIN_THREAD_SAFE
      else if mode = QHW_SCHED_THREAD_USER then QHW_SCHED_PLUGIN_THREAD_USER
      else 0)"

definition validate_plugin_desc :: "u32 \<Rightarrow> 'p qhw_sched_plugin_desc option \<Rightarrow> qhw_sched_rc" where
  "validate_plugin_desc mode desc =
     (case desc of
        None \<Rightarrow> QHW_SCHED_ERR_PLUGIN
      | Some d \<Rightarrow>
          if pd_struct_size d < abi_size then QHW_SCHED_ERR_PLUGIN
          else if pd_abi_version d \<noteq> QHW_SCHED_ABI_VERSION \<or>
            pd_struct_size d < sizeof_plugin_desc \<or>
            pd_name d = None \<or>
            Option.is_none (pd_init d) \<or> Option.is_none (pd_fini d) \<or>
            Option.is_none (pd_on_task_submit d) \<or> Option.is_none (pd_select_next d) \<or>
            Option.is_none (pd_get_split_config d) \<or>
            Option.is_none (pd_on_task_priority_changed d) \<or>
            Option.is_none (pd_on_task_started d) \<or> Option.is_none (pd_on_task_finished d)
          then QHW_SCHED_ERR_PLUGIN
          else if pd_capabilities d \<noteq> 0 then QHW_SCHED_ERR_PLUGIN
          else if pd_thread_flags d = 0 \<or>
            pd_thread_flags d AND NOT QHW_SCHED_PLUGIN_THREAD_ALL \<noteq> 0
          then QHW_SCHED_ERR_PLUGIN
          else if pd_thread_flags d AND threading_to_plugin_flag mode = 0 then QHW_SCHED_ERR_PLUGIN
          else QHW_SCHED_OK)"

subsection \<open>Registry\<close>

text \<open>
  The array of plugins is a list of the \<^verbatim>\<open>count\<close> slots in use and the capacity of the allocation. The
  capacity is a natural number: an array whose doubled size in bytes exceeds \<^verbatim>\<open>size_t\<close> does not fit
  in memory before the doubling. The names in the registry are never null (\<^verbatim>\<open>registry_ok\<close>), so
  comparing the optional strings is \<^verbatim>\<open>strcmp\<close>.
\<close>

record 'p qhw_sched_plugin =
  pl_desc :: "'p qhw_sched_plugin_desc"
  pl_path :: "string option"
  pl_dl_handle :: "ptr option"

record 'p qhw_plugin_registry =
  items :: "'p qhw_sched_plugin list"
  capacity :: nat

definition empty_registry :: "'p qhw_plugin_registry" where
  "empty_registry = \<lparr>items = [], capacity = 0\<rparr>"

definition qhw_strdup :: "string option \<Rightarrow> env \<Rightarrow> string option \<times> env" where
  "qhw_strdup str e =
     (case str of
        None \<Rightarrow> (None, e)
      | Some s \<Rightarrow> (case env_alloc e of (got, e) \<Rightarrow> if \<not> got then (None, e) else (Some s, e)))"

text \<open>The second component of the result is the sequence of handles passed to \<^verbatim>\<open>dlclose\<close>.\<close>

definition qhw_plugin_registry_fini :: "'p qhw_plugin_registry \<Rightarrow> 'p qhw_plugin_registry \<times> ptr list" where
  "qhw_plugin_registry_fini reg =
     (empty_registry, List.map_filter pl_dl_handle (items reg))"

text \<open>Growing the array when it is full.\<close>

definition registry_grow :: "'p qhw_plugin_registry \<Rightarrow> env \<Rightarrow> bool \<times> 'p qhw_plugin_registry \<times> env" where
  "registry_grow reg e =
     (if length (items reg) = capacity reg then
        (case env_alloc e of (got, e) \<Rightarrow>
           if \<not> got then (False, reg, e)
           else (True, reg\<lparr>capacity := (if capacity reg = 0 then 4 else capacity reg * 2)\<rparr>, e))
      else (True, reg, e))"

definition qhw_plugin_registry_add ::
  "'p qhw_plugin_registry \<Rightarrow> 'p qhw_sched_plugin_desc \<Rightarrow> string option \<Rightarrow> ptr option \<Rightarrow> env \<Rightarrow>
   qhw_sched_rc \<times> 'p qhw_plugin_registry \<times> env" where
  "qhw_plugin_registry_add reg desc path dl_handle e =
     (if pd_name desc = None then (QHW_SCHED_ERR_INVALID_ARG, reg, e)
      else if list_ex (\<lambda>it. pd_name (pl_desc it) = pd_name desc) (items reg)
      then (QHW_SCHED_ERR_EXISTS, reg, e)
      else
        case registry_grow reg e of
          (got, reg, e) \<Rightarrow>
            if \<not> got then (QHW_SCHED_ERR_NO_MEMORY, reg, e)
            else
              (case qhw_strdup path e of
                 (copy, e) \<Rightarrow>
                   if path \<noteq> None \<and> copy = None then (QHW_SCHED_ERR_NO_MEMORY, reg, e)
                   else (QHW_SCHED_OK,
                     reg\<lparr>items := items reg @
                       [\<lparr>pl_desc = desc, pl_path = copy, pl_dl_handle = dl_handle\<rparr>]\<rparr>, e)))"

definition qhw_plugin_registry_find ::
  "'p qhw_plugin_registry \<Rightarrow> string option \<Rightarrow> 'p qhw_sched_plugin option" where
  "qhw_plugin_registry_find reg nm =
     (if nm = None then None else List.find (\<lambda>it. pd_name (pl_desc it) = nm) (items reg))"

subsection \<open>Facts\<close>

definition desc_complete :: "'p qhw_sched_plugin_desc \<Rightarrow> bool" where
  "desc_complete d \<longleftrightarrow> pd_name d \<noteq> None \<and> pd_init d \<noteq> None \<and> pd_fini d \<noteq> None \<and>
     pd_on_task_submit d \<noteq> None \<and> pd_select_next d \<noteq> None \<and> pd_get_split_config d \<noteq> None \<and>
     pd_on_task_priority_changed d \<noteq> None \<and> pd_on_task_started d \<noteq> None \<and>
     pd_on_task_finished d \<noteq> None"

definition registry_ok :: "'p qhw_plugin_registry \<Rightarrow> bool" where
  "registry_ok reg \<longleftrightarrow> length (items reg) \<le> capacity reg \<and>
     distinct (map (\<lambda>it. pd_name (pl_desc it)) (items reg)) \<and>
     (\<forall>it \<in> set (items reg). desc_complete (pl_desc it))"

lemma validate_complete: "validate_plugin_desc mode (Some d) = QHW_SCHED_OK \<Longrightarrow> desc_complete d"
  by (auto simp: validate_plugin_desc_def desc_complete_def Option.is_none_def split: if_splits)

lemma registry_ok_empty [simp]: "registry_ok empty_registry"
  by (simp add: registry_ok_def empty_registry_def)

lemma registry_grow_room:
  assumes "registry_ok reg" "registry_grow reg e = (b, reg', e')"
  shows "registry_ok reg' \<and> items reg' = items reg \<and>
    (b \<longrightarrow> length (items reg') < capacity reg')"
  using assms
  by (auto simp: registry_grow_def registry_ok_def env_alloc_def split: if_splits prod.splits)

lemma registry_add_ok:
  assumes ok: "registry_ok reg" and d: "desc_complete desc"
    and add: "qhw_plugin_registry_add reg desc path h e = (rc, reg', e')"
  shows "registry_ok reg' \<and>
    (if rc = QHW_SCHED_OK then
       items reg' = items reg @ [\<lparr>pl_desc = desc, pl_path = path, pl_dl_handle = h\<rparr>] \<and>
       (\<forall>it \<in> set (items reg). pd_name (pl_desc it) \<noteq> pd_name desc)
     else items reg' = items reg)"
proof -
  obtain b reg1 e1 where g: "registry_grow reg e = (b, reg1, e1)" by (metis prod_cases3)
  obtain copy e2 where s: "qhw_strdup path e1 = (copy, e2)" by force
  have "copy = None \<or> copy = path"
    using s by (auto simp: qhw_strdup_def env_alloc_def split: option.splits prod.splits if_splits)
  moreover have "pd_name desc \<noteq> None" using d by (simp add: desc_complete_def)
  ultimately show ?thesis
    using registry_grow_room [OF ok g] ok d add g s
    by (auto simp: qhw_plugin_registry_add_def list_ex_iff registry_ok_def split: if_splits) blast+
qed

lemma registry_find_ok:
  "registry_ok reg \<Longrightarrow> qhw_plugin_registry_find reg nm = Some it \<Longrightarrow>
   it \<in> set (items reg) \<and> pd_name (pl_desc it) = nm \<and> desc_complete (pl_desc it)"
  by (auto simp: qhw_plugin_registry_find_def registry_ok_def find_Some_iff split: if_splits)

subsection \<open>Contract of a policy\<close>

text \<open>
  What the scheduler core relies on when it calls the active policy: every call returns, the policy
  keeps its own invariant, and the set of ready task ids changes the way the call says. A submit that
  fails leaves the set alone; a selection returns a ready task and takes it out; a policy only answers
  \<^verbatim>\<open>NOT_FOUND\<close> when nothing is ready; after \<^verbatim>\<open>on_task_finished\<close> the task is not ready.
\<close>

locale policy_plugin =
  fixes P :: "'p qhw_sched_plugin_desc" and pinv :: "'p \<Rightarrow> bool" and ready :: "'p \<Rightarrow> u64 set"
  assumes complete: "desc_complete P"
    and init_law:
      "pd_init P = Some f \<Longrightarrow> succeeds (f opts e) (\<lambda>(rc, st, e').
         rc = QHW_SCHED_OK \<longrightarrow> (\<exists>s. st = Some s \<and> pinv s \<and> ready s = {}))"
    and fini_law: "pd_fini P = Some g \<Longrightarrow> pinv s \<Longrightarrow> succeeds (g (Some s) e) (\<lambda>e'. True)"
    and submit_law:
      "pd_on_task_submit P = Some sub \<Longrightarrow> pinv s \<Longrightarrow> task_id d \<noteq> 0 \<Longrightarrow> task_id d \<notin> ready s \<Longrightarrow>
       succeeds (sub (Some s) d e) (\<lambda>(rc, st, e'). \<exists>s'. st = Some s' \<and> pinv s' \<and>
         ready s' = (if rc = QHW_SCHED_OK then insert (task_id d) (ready s) else ready s))"
    and select_law:
      "pd_select_next P = Some sel \<Longrightarrow> pinv s \<Longrightarrow>
       succeeds (sel (Some s) a e) (\<lambda>(rc, a', st, e'). \<exists>s'. st = Some s' \<and> pinv s' \<and>
         (if rc = QHW_SCHED_OK
          then as_task_id a' \<in> ready s \<and> ready s' = ready s - {as_task_id a'}
          else ready s' = ready s) \<and>
         (rc = QHW_SCHED_ERR_NOT_FOUND \<longrightarrow> ready s = {}))"
    and split_law:
      "pd_get_split_config P = Some spl \<Longrightarrow> pinv s \<Longrightarrow>
       succeeds (spl (Some s) c e) (\<lambda>(rc, c', st, e'). \<exists>s'. st = Some s' \<and> pinv s' \<and> ready s' = ready s)"
    and priority_law:
      "pd_on_task_priority_changed P = Some pri \<Longrightarrow> pinv s \<Longrightarrow> tid \<in> ready s \<Longrightarrow>
       succeeds (pri (Some s) tid v e) (\<lambda>(rc, st, e'). \<exists>s'. st = Some s' \<and> pinv s' \<and> ready s' = ready s)"
    and started_law:
      "pd_on_task_started P = Some sta \<Longrightarrow> pinv s \<Longrightarrow> tid \<notin> ready s \<Longrightarrow>
       succeeds (sta (Some s) tid e) (\<lambda>(rc, st, e'). \<exists>s'. st = Some s' \<and> pinv s' \<and> ready s' = ready s)"
    and finished_law:
      "pd_on_task_finished P = Some fin \<Longrightarrow> pinv s \<Longrightarrow>
       succeeds (fin (Some s) tid ts e) (\<lambda>(rc, st, e'). \<exists>s'. st = Some s' \<and> pinv s' \<and>
         ready s' = ready s - {tid})"

end
