(* ===== verification/Scheduler.thy ===== *)
theory Scheduler
  imports Task_Table Plugin
begin

section \<open>Scheduler core: state and internal operations\<close>

text \<open>
  \<^verbatim>\<open>src/qhw_scheduler.c\<close> and the scheduler-level functions of \<^verbatim>\<open>src/qhw_plugin.c\<close>. The state \<^verbatim>\<open>sys\<close> is
  one scheduler, the QPU it points to, the environment, and the list of \<^verbatim>\<open>dlopen\<close> handles that are
  open. Functions of the public interface take a flag saying whether the scheduler handle is null, and
  nullable arguments as options. Addresses of members (\<^verbatim>\<open>&sched->tasks\<close> and the like) are never null
  and their null checks are not modelled.

  A user callback is a function of the number of callbacks made before, so it may answer differently
  on each call. \<^verbatim>\<open>split_task\<close> fills the array of children in place: its result gives the new content by
  index, so the length of the array cannot change.
\<close>

subsection \<open>State\<close>

record qhw_sched_callbacks =
  cb_struct_size :: nat
  split_task ::
    "(nat \<Rightarrow> qhw_sched_task_desc \<Rightarrow> qhw_sched_split_config \<Rightarrow> qhw_sched_task_desc list \<Rightarrow>
      qhw_sched_rc \<times> (nat \<Rightarrow> qhw_sched_task_desc)) option"
  estimate_cost ::
    "(nat \<Rightarrow> qhw_sched_task_desc \<Rightarrow> qhw_sched_qpu_profile \<Rightarrow> qhw_sched_rc \<times> u64) option"

abbreviation (input) sizeof_callbacks :: nat where "sizeof_callbacks \<equiv> 32"

definition zero_callbacks :: qhw_sched_callbacks where
  "zero_callbacks = \<lparr>cb_struct_size = 0, split_task = None, estimate_cost = None\<rparr>"

record qhw_sched_attr =
  attr_threading :: u32
  attr_allocator :: "qhw_sched_allocator option"

record ('h, 'l, 'p) qhw_sched =
  threading :: u32
  lock :: qhw_mutex
  allocator :: qhw_allocator
  last_error :: qhw_sched_error
  tasks :: "('h, 'l) qhw_task_table"
  plugins :: "'p qhw_plugin_registry"
  policy_desc :: "'p qhw_sched_plugin_desc"
  policy_state :: "'p option"
  callbacks :: qhw_sched_callbacks
  enqueue_seq_next :: u64

record ('h, 'l, 'p) sys =
  sched :: "('h, 'l, 'p) qhw_sched"
  qpu :: qhw_sched_qpu
  env :: env
  open_handles :: "ptr list"

text \<open>Updating the parts of the state that the operations touch.\<close>

definition upd_tasks :: "('h, 'l) qhw_task_table \<Rightarrow> ('h, 'l, 'p) sys \<Rightarrow> ('h, 'l, 'p) sys" where
  "upd_tasks tt s = s\<lparr>sched := (sched s)\<lparr>tasks := tt\<rparr>\<rparr>"

definition upd_mem :: "mem \<Rightarrow> ('h, 'l, 'p) sys \<Rightarrow> ('h, 'l, 'p) sys" where
  "upd_mem m s = s\<lparr>env := (env s)\<lparr>env_mem := m\<rparr>\<rparr>"

definition upd_policy :: "'p option \<Rightarrow> env \<Rightarrow> ('h, 'l, 'p) sys \<Rightarrow> ('h, 'l, 'p) sys" where
  "upd_policy st e s = s\<lparr>sched := (sched s)\<lparr>policy_state := st\<rparr>, env := e\<rparr>"

definition upd_seq :: "u64 \<Rightarrow> ('h, 'l, 'p) sys \<Rightarrow> ('h, 'l, 'p) sys" where
  "upd_seq q s = s\<lparr>sched := (sched s)\<lparr>enqueue_seq_next := q\<rparr>\<rparr>"

definition sched_lock :: "('h, 'l, 'p) sys \<Rightarrow> ('h, 'l, 'p) sys option" where
  "sched_lock s = do {
     l \<leftarrow> ops_lock (lock (sched s));
     Some (s\<lparr>sched := (sched s)\<lparr>lock := l\<rparr>\<rparr>)
   }"

definition sched_unlock :: "('h, 'l, 'p) sys \<Rightarrow> ('h, 'l, 'p) sys option" where
  "sched_unlock s = do {
     l \<leftarrow> ops_unlock (lock (sched s));
     Some (s\<lparr>sched := (sched s)\<lparr>lock := l\<rparr>\<rparr>)
   }"

text \<open>Leaving a public function: unlock and return the code.\<close>

definition unlock_return :: "'r \<Rightarrow> ('h, 'l, 'p) sys \<Rightarrow> ('r \<times> ('h, 'l, 'p) sys) option" where
  "unlock_return r s = do { s \<leftarrow> sched_unlock s; Some (r, s) }"

subsection \<open>Small helpers\<close>

definition get_threading :: "qhw_sched_attr option \<Rightarrow> u32" where
  "get_threading attr =
     (case attr of None \<Rightarrow> QHW_SCHED_THREAD_SAFE
      | Some a \<Rightarrow> if attr_threading a = 0 then QHW_SCHED_THREAD_SAFE else attr_threading a)"

definition task_state_is_terminal :: "qhw_sched_task_state \<Rightarrow> bool" where
  "task_state_is_terminal st \<longleftrightarrow>
     st = QHW_SCHED_TASK_COMPLETED \<or> st = QHW_SCHED_TASK_FAILED \<or> st = QHW_SCHED_TASK_CANCELLED"

definition policy_is_active :: "('h, 'l, 'p) sys \<Rightarrow> bool" where
  "policy_is_active s \<longleftrightarrow> \<not> Option.is_none (pd_select_next (policy_desc (sched s)))"

subsection \<open>Splitting\<close>

definition get_policy_split_config ::
  "('h, 'l, 'p) sys \<Rightarrow> (qhw_sched_rc \<times> qhw_sched_split_config \<times> ('h, 'l, 'p) sys) option" where
  "get_policy_split_config s =
     (case pd_get_split_config (policy_desc (sched s)) of
        None \<Rightarrow> Some (QHW_SCHED_OK, qhw_sched_split_config_init, s)
      | Some f \<Rightarrow> do {
          (rc, config, st, e) \<leftarrow> f (policy_state (sched s)) qhw_sched_split_config_init (env s);
          Some (rc, config, upd_policy st e s)
        })"

definition compute_split_config ::
  "('h, 'l, 'p) sys \<Rightarrow> qhw_sched_task_desc \<Rightarrow>
   (qhw_sched_rc \<times> qhw_sched_split_config \<times> bool \<times> ('h, 'l, 'p) sys) option" where
  "compute_split_config s task = do {
     (rc, config, s) \<leftarrow> get_policy_split_config s;
     if rc \<noteq> QHW_SCHED_OK then Some (rc, config, False, s)
     else
       let (rc, config, should) =
         split_decision (metadata task) (qp_metadata (profile (qpu s)))
           (\<not> Option.is_none (split_task (callbacks (sched s)))) config
       in Some (rc, config, should, s)
   }"

text \<open>
  The loop of \<^verbatim>\<open>validate_child_tasks\<close>: index of the child, the two hash tables of ids and slice indices
  seen so far, and the shots counted so far. The value stored in the tables is the child's position.
\<close>

fun validate_children_loop ::
  "('h, 'l, 'q) ds \<Rightarrow> ('h, 'l) qhw_task_table \<Rightarrow> u64 \<Rightarrow> qhw_sched_split_config \<Rightarrow> u64 \<Rightarrow>
   qhw_sched_task_desc list \<Rightarrow> nat \<Rightarrow> 'h \<Rightarrow> 'h \<Rightarrow> u64 \<Rightarrow> mem \<Rightarrow> qhw_sched_rc \<times> u64 \<times> mem" where
  "validate_children_loop D tt pid config n [] i seen seen_slices total_shots m = (QHW_SCHED_OK, total_shots, m)"
| "validate_children_loop D tt pid config n (c # cs) i seen seen_slices total_shots m =
     (if task_id c = QHW_SCHED_INVALID_TASK_ID \<or> task_id c = pid \<or> parent_task_id c \<noteq> pid \<or>
        qhw_task_table_find D tt (task_id c) \<noteq> None \<or>
        hash_table_find D seen (task_id c) \<noteq> None
      then (QHW_SCHED_ERR_INVALID_ARG, total_shots, m)
      else
        case (metadata_get_u64 (metadata c) QHW_SCHED_META_SLICE_INDEX,
              metadata_get_u64 (metadata c) QHW_SCHED_META_SLICE_COUNT) of
          (Some slice_index, Some slices) \<Rightarrow>
            if slices \<noteq> n \<or> n \<le> slice_index \<or>
               hash_table_find D seen_slices slice_index \<noteq> None
            then (QHW_SCHED_ERR_INVALID_ARG, total_shots, m)
            else
              (case metadata_get_u64 (metadata c) QHW_SCHED_META_SHOTS of
                 None \<Rightarrow> (QHW_SCHED_ERR_INVALID_ARG, total_shots, m)
               | Some shots \<Rightarrow>
                   if shots = 0 \<or> slice_shots config < shots \<or>
                      requested_shots config - total_shots < shots
                   then (QHW_SCHED_ERR_INVALID_ARG, total_shots, m)
                   else
                     (case hash_table_insert D seen_slices slice_index i m of
                        (ins, seen_slices, m) \<Rightarrow>
                          if \<not> ins then (QHW_SCHED_ERR_NO_MEMORY, total_shots, m)
                          else
                            (case hash_table_insert D seen (task_id c) i m of
                               (ins, seen, m) \<Rightarrow>
                                 if \<not> ins then (QHW_SCHED_ERR_NO_MEMORY, total_shots + shots, m)
                                 else validate_children_loop D tt pid config n cs (Suc i)
                                   seen seen_slices (total_shots + shots) m)))
        | _ \<Rightarrow> (QHW_SCHED_ERR_INVALID_ARG, total_shots, m))"

definition validate_child_tasks ::
  "('h, 'l, 'q) ds \<Rightarrow> ('h, 'l) qhw_task_table \<Rightarrow> qhw_sched_task_desc \<Rightarrow> qhw_sched_task_desc list \<Rightarrow>
   qhw_sched_split_config \<Rightarrow> u64 \<Rightarrow> mem \<Rightarrow> qhw_sched_rc \<times> mem" where
  "validate_child_tasks D tt parent children config n m =
     (if n \<noteq> slice_count config \<or> 9223372036854775807 < n then (QHW_SCHED_ERR_UNSUPPORTED, m)
      else
        case hash_table_init D (unat n * 2 + 1) m of
          (None, m) \<Rightarrow> (QHW_SCHED_ERR_NO_MEMORY, m)
        | (Some seen, m) \<Rightarrow>
            (case hash_table_init D (unat n * 2 + 1) m of
               (None, m) \<Rightarrow> (QHW_SCHED_ERR_NO_MEMORY, m)
             | (Some seen_slices, m) \<Rightarrow>
                 (case validate_children_loop D tt (task_id parent) config n children 0
                         seen seen_slices 0 m of
                    (rc, total_shots, m) \<Rightarrow>
                      (if rc = QHW_SCHED_OK \<and> total_shots \<noteq> requested_shots config
                       then QHW_SCHED_ERR_INVALID_ARG else rc, m))))"

subsection \<open>Assignments and cost estimates\<close>

definition fill_assignment_from_record :: "qhw_task_record \<Rightarrow> qhw_sched_assignment" where
  "fill_assignment_from_record r =
     (let md = metadata (desc r);
          a = zero_assignment\<lparr>as_struct_size := sizeof_assignment,
            as_task_id := task_id (desc r), as_parent_task_id := parent_task_id (desc r),
            as_slice_count := 1\<rparr>;
          a = (case metadata_get_u64 md QHW_SCHED_META_SLICE_INDEX of
                 None \<Rightarrow> a | Some v \<Rightarrow> a\<lparr>as_slice_index := v\<rparr>);
          a = (case metadata_get_u64 md QHW_SCHED_META_SLICE_COUNT of
                 None \<Rightarrow> a | Some v \<Rightarrow> a\<lparr>as_slice_count := v\<rparr>)
      in a\<lparr>as_payload := payload (desc r), as_payload_size := payload_size (desc r),
           as_estimated_runtime_ns := estimated_runtime_ns (desc r),
           as_estimated_cost := estimated_cost (desc r)\<rparr>)"

definition estimate_task_cost ::
  "qhw_sched_callbacks \<Rightarrow> qhw_sched_qpu_profile \<Rightarrow> qhw_sched_task_desc \<Rightarrow> env \<Rightarrow>
   qhw_sched_rc \<times> qhw_sched_task_desc \<times> env" where
  "estimate_task_cost cbs prof task e =
     (case estimate_cost cbs of
        Some f \<Rightarrow>
          let (rc, cost) = f (env_calls e) task prof;
              e = e\<lparr>env_calls := Suc (env_calls e)\<rparr>
          in if rc \<noteq> QHW_SCHED_OK then (rc, task, e)
             else if cost = 0 then (QHW_SCHED_ERR_INVALID_ARG, task, e)
             else (QHW_SCHED_OK, task\<lparr>estimated_cost := cost\<rparr>, e)
      | None \<Rightarrow>
          (QHW_SCHED_OK, task\<lparr>estimated_cost := qhw_policy_task_estimated_cost task\<rparr>, e))"

fun estimate_child_costs ::
  "qhw_sched_callbacks \<Rightarrow> qhw_sched_qpu_profile \<Rightarrow> qhw_sched_task_desc list \<Rightarrow> env \<Rightarrow>
   qhw_sched_rc \<times> qhw_sched_task_desc list \<times> env" where
  "estimate_child_costs cbs prof [] e = (QHW_SCHED_OK, [], e)"
| "estimate_child_costs cbs prof (c # cs) e =
     (case estimate_task_cost cbs prof c e of
        (rc, estimated, e) \<Rightarrow>
          if rc \<noteq> QHW_SCHED_OK then (rc, c # cs, e)
          else (case estimate_child_costs cbs prof cs e of
                  (rc, cs, e) \<Rightarrow> (rc, estimated # cs, e)))"

subsection \<open>Queueing\<close>

definition enqueue_task_locked ::
  "('h, 'l, 'q) ds \<Rightarrow> ('h, 'l, 'p) sys \<Rightarrow> qhw_sched_task_desc \<Rightarrow>
   (qhw_sched_rc \<times> ('h, 'l, 'p) sys) option" where
  "enqueue_task_locked D s task = do {
     let seq = enqueue_seq_next (sched s);
     let s = upd_seq (seq + 1) s;
     (rc, tt, m) \<leftarrow> qhw_task_table_insert D (tasks (sched s)) task seq (env_mem (env s));
     let s = upd_mem m (upd_tasks tt s);
     if rc \<noteq> QHW_SCHED_OK then Some (rc, s)
     else do {
       q \<leftarrow> qpu_runtime_task_queued (qpu s);
       let s = s\<lparr>qpu := q\<rparr>;
       case pd_on_task_submit (policy_desc (sched s)) of
         None \<Rightarrow> Some (QHW_SCHED_OK, s)
       | Some f \<Rightarrow> do {
           p \<leftarrow> qhw_task_table_find D (tasks (sched s)) (task_id task);
           r \<leftarrow> record_read (tasks (sched s)) p;
           (rc, st, e) \<leftarrow> f (policy_state (sched s)) (desc r) (env s);
           let s = upd_policy st e s;
           if rc \<noteq> QHW_SCHED_OK then do {
             q \<leftarrow> qpu_runtime_task_unqueued (qpu s);
             let s = s\<lparr>qpu := q\<rparr>;
             tt \<leftarrow> qhw_task_table_remove D (tasks (sched s)) (task_id task);
             Some (rc, upd_tasks tt s)
           }
           else Some (rc, s)
         }
     }
   }"

definition remove_queued_task_locked ::
  "('h, 'l, 'q) ds \<Rightarrow> ('h, 'l, 'p) sys \<Rightarrow> u64 \<Rightarrow> ('h, 'l, 'p) sys option" where
  "remove_queued_task_locked D s tid = do {
     s \<leftarrow> (case pd_on_task_finished (policy_desc (sched s)) of
             None \<Rightarrow> Some s
           | Some f \<Rightarrow> do {
               (rc, st, e) \<leftarrow> f (policy_state (sched s)) tid QHW_SCHED_TASK_CANCELLED (env s);
               Some (upd_policy st e s)
             });
     q \<leftarrow> qpu_runtime_task_unqueued (qpu s);
     let s = s\<lparr>qpu := q\<rparr>;
     tt \<leftarrow> qhw_task_table_remove D (tasks (sched s)) tid;
     Some (upd_tasks tt s)
   }"

text \<open>Enqueueing the children in order; \<^verbatim>\<open>done\<close> holds the ones enqueued, the latest first.\<close>

fun remove_children ::
  "('h, 'l, 'q) ds \<Rightarrow> ('h, 'l, 'p) sys \<Rightarrow> qhw_sched_task_desc list \<Rightarrow> ('h, 'l, 'p) sys option" where
  "remove_children D s [] = Some s"
| "remove_children D s (c # cs) = do {
     s \<leftarrow> remove_queued_task_locked D s (task_id c);
     remove_children D s cs
   }"

fun enqueue_children ::
  "('h, 'l, 'q) ds \<Rightarrow> ('h, 'l, 'p) sys \<Rightarrow> qhw_sched_task_desc list \<Rightarrow> qhw_sched_task_desc list \<Rightarrow>
   (qhw_sched_rc \<times> ('h, 'l, 'p) sys) option" where
  "enqueue_children D s dn [] = Some (QHW_SCHED_OK, s)"
| "enqueue_children D s dn (c # cs) = do {
     (rc, s) \<leftarrow> enqueue_task_locked D s c;
     if rc \<noteq> QHW_SCHED_OK then do {
       s \<leftarrow> remove_children D s dn;
       Some (rc, s)
     }
     else enqueue_children D s (c # dn) cs
   }"

definition submit_split_task_locked ::
  "('h, 'l, 'q) ds \<Rightarrow> ('h, 'l, 'p) sys \<Rightarrow> qhw_sched_task_desc \<Rightarrow> qhw_sched_task_desc list \<Rightarrow> u64 \<Rightarrow>
   (qhw_sched_rc \<times> ('h, 'l, 'p) sys) option" where
  "submit_split_task_locked D s parent children n = do {
     let seq = enqueue_seq_next (sched s);
     let s = upd_seq (seq + 1) s;
     (rc, tt, m) \<leftarrow> qhw_task_table_insert_state D (tasks (sched s)) parent seq
       QHW_SCHED_TASK_WAITING (env_mem (env s));
     let s = upd_mem m (upd_tasks tt s);
     if rc \<noteq> QHW_SCHED_OK then Some (rc, s)
     else do {
       p \<leftarrow> qhw_task_table_find D (tasks (sched s)) (task_id parent);
       tt \<leftarrow> record_write (tasks (sched s)) p (\<lambda>r. r\<lparr>child_count := n\<rparr>);
       let s = upd_tasks tt s;
       (rc, s) \<leftarrow> enqueue_children D s [] children;
       if rc \<noteq> QHW_SCHED_OK then do {
         tt \<leftarrow> qhw_task_table_remove D (tasks (sched s)) (task_id parent);
         Some (rc, upd_tasks tt s)
       }
       else Some (QHW_SCHED_OK, s)
     }
   }"

definition update_parent_after_child_locked ::
  "('h, 'l, 'q) ds \<Rightarrow> ('h, 'l, 'p) sys \<Rightarrow> qhw_task_record \<Rightarrow> qhw_sched_task_state \<Rightarrow>
   ('h, 'l, 'p) sys option" where
  "update_parent_after_child_locked D s child st =
     (if parent_task_id (desc child) = QHW_SCHED_INVALID_TASK_ID then Some s
      else
        case qhw_task_table_find D (tasks (sched s)) (parent_task_id (desc child)) of
          None \<Rightarrow> Some s
        | Some p \<Rightarrow> do {
            parent \<leftarrow> record_read (tasks (sched s)) p;
            if state parent \<noteq> QHW_SCHED_TASK_WAITING then Some s
            else do {
              let parent =
                (if st = QHW_SCHED_TASK_COMPLETED
                 then parent\<lparr>completed_child_count := completed_child_count parent + 1\<rparr>
                 else if st = QHW_SCHED_TASK_FAILED
                 then parent\<lparr>failed_child_count := failed_child_count parent + 1\<rparr>
                 else if st = QHW_SCHED_TASK_CANCELLED
                 then parent\<lparr>cancelled_child_count := cancelled_child_count parent + 1\<rparr>
                 else parent);
              tt \<leftarrow> record_write (tasks (sched s)) p (\<lambda>_. parent);
              let s = upd_tasks tt s;
              let terminal_count = completed_child_count parent + failed_child_count parent +
                cancelled_child_count parent;
              if terminal_count < child_count parent then Some s
              else do {
                let parent_state =
                  (if failed_child_count parent > 0 then QHW_SCHED_TASK_FAILED
                   else if cancelled_child_count parent > 0 then QHW_SCHED_TASK_CANCELLED
                   else QHW_SCHED_TASK_COMPLETED);
                (rc, tt) \<leftarrow> qhw_task_table_set_state D (tasks (sched s)) (task_id (desc parent))
                  parent_state;
                Some (upd_tasks tt s)
              }
            }
          })"

end
