(* ===== verification/Sched_Api.thy ===== *)
theory Sched_Api
  imports Scheduler
begin

section \<open>Scheduler core: public operations\<close>

text \<open>
  The functions of the public interface in \<^verbatim>\<open>src/qhw_scheduler.c\<close> and \<^verbatim>\<open>src/qhw_plugin.c\<close>, in their
  order. \<^verbatim>\<open>qhw_sched_submit_task\<close> releases the scheduler lock while it calls the user's callbacks; its
  argument \<^verbatim>\<open>interf\<close> is what other threads do to the state in that window.
\<close>

subsection \<open>Life cycle\<close>

text \<open>
  Creation: \<^verbatim>\<open>policy_null\<close> says that the policy name is null. The new scheduler is returned together
  with the retained QPU.
\<close>

definition qhw_sched_create ::
  "('h, 'l, 'q) ds \<Rightarrow> bool \<Rightarrow> qhw_sched_attr option \<Rightarrow> qhw_sched_qpu option \<Rightarrow> kv_ref \<Rightarrow> env \<Rightarrow>
   (qhw_sched_rc \<times> ('h, 'l, 'p) sys option \<times> env) option" where
  "qhw_sched_create D policy_null attr q options e =
     (case q of
        None \<Rightarrow> Some (QHW_SCHED_ERR_INVALID_ARG, None, e)
      | Some q \<Rightarrow>
          if kv_count options > 0 \<and> kv_is_null options then Some (QHW_SCHED_ERR_INVALID_ARG, None, e)
          else if \<not> policy_null \<or> kv_count options > 0 then Some (QHW_SCHED_ERR_UNSUPPORTED, None, e)
          else
            let (got, e) = env_alloc e in
            if \<not> got then Some (QHW_SCHED_ERR_NO_MEMORY, None, e)
            else
              (case qhw_allocator_init (case attr of None \<Rightarrow> None | Some a \<Rightarrow> attr_allocator a) of
                 (rc, None) \<Rightarrow> Some (rc, None, e)
               | (rc, Some al) \<Rightarrow>
                   let mode = get_threading attr;
                       (rc, l, e) = qhw_thread_init mode zero_mutex e
                   in if rc \<noteq> QHW_SCHED_OK then Some (rc, None, e)
                      else
                        (case qhw_task_table_init D (env_mem e) of
                           (rc, None, m) \<Rightarrow> do {
                             _ \<leftarrow> ops_destroy l;
                             Some (rc, None, e\<lparr>env_mem := m\<rparr>)
                           }
                         | (rc, Some tt, m) \<Rightarrow> do {
                             q \<leftarrow> qhw_qpu_retain q;
                             Some (QHW_SCHED_OK,
                               Some \<lparr>sched = \<lparr>threading = mode, lock = l, allocator = al,
                                  last_error = qhw_error_set QHW_SCHED_OK (Some ''''),
                                  tasks = tt, plugins = empty_registry,
                                  policy_desc = zero_plugin_desc, policy_state = None,
                                  callbacks = zero_callbacks, enqueue_seq_next = 1\<rparr>,
                                 qpu = q, env = e\<lparr>env_mem := m\<rparr>, open_handles = []\<rparr>,
                               e\<lparr>env_mem := m\<rparr>)
                           })))"

text \<open>
  Destruction returns what is left: the QPU unless its last reference is gone, the environment, the
  handles still open and the arena of task records.
\<close>

definition qhw_sched_destroy ::
  "('h, 'l, 'q) ds \<Rightarrow> ('h, 'l, 'p) sys option \<Rightarrow>
   (qhw_sched_qpu option \<times> env \<times> ptr list \<times> qhw_task_record arena) option option" where
  "qhw_sched_destroy D sys =
     (case sys of
        None \<Rightarrow> Some None
      | Some s \<Rightarrow> do {
          e \<leftarrow> (case pd_fini (policy_desc (sched s)) of
                  None \<Rightarrow> Some (env s)
                | Some f \<Rightarrow> f (policy_state (sched s)) (env s));
          let (reg, closed) = qhw_plugin_registry_fini (plugins (sched s));
          let handles = fold remove1 closed (open_handles s);
          tt \<leftarrow> qhw_task_table_fini D (tasks (sched s));
          q \<leftarrow> qhw_qpu_release (qpu s);
          _ \<leftarrow> ops_destroy (lock (sched s));
          Some (Some (q, e, handles, records tt))
        })"

definition qhw_sched_get_threading :: "('h, 'l, 'p) sys option \<Rightarrow> u32" where
  "qhw_sched_get_threading sys = (case sys of None \<Rightarrow> 0 | Some s \<Rightarrow> threading (sched s))"

definition qhw_sched_set_callbacks ::
  "bool \<Rightarrow> ('h, 'l, 'p) sys \<Rightarrow> qhw_sched_callbacks option \<Rightarrow>
   (qhw_sched_rc \<times> ('h, 'l, 'p) sys) option" where
  "qhw_sched_set_callbacks sched_null s cbs =
     (if sched_null then Some (QHW_SCHED_ERR_INVALID_ARG, s)
      else do {
        s \<leftarrow> sched_lock s;
        case cbs of
          None \<Rightarrow>
            unlock_return QHW_SCHED_OK (s\<lparr>sched := (sched s)\<lparr>callbacks := zero_callbacks\<rparr>\<rparr>)
        | Some c \<Rightarrow>
            if cb_struct_size c < sizeof_callbacks then unlock_return QHW_SCHED_ERR_INVALID_ARG s
            else unlock_return QHW_SCHED_OK (s\<lparr>sched := (sched s)\<lparr>callbacks := c\<rparr>\<rparr>)
      })"

subsection \<open>Submission\<close>

text \<open>The path of a task that is not split, entered with the lock held.\<close>

definition submit_whole_task ::
  "('h, 'l, 'q) ds \<Rightarrow> (('h, 'l, 'p) sys \<Rightarrow> ('h, 'l, 'p) sys) \<Rightarrow> ('h, 'l, 'p) sys \<Rightarrow>
   qhw_sched_task_desc \<Rightarrow> (qhw_sched_rc \<times> ('h, 'l, 'p) sys) option" where
  "submit_whole_task D interf s task = do {
     let cbs = callbacks (sched s);
     (rc, estimated, s) \<leftarrow>
       (if \<not> Option.is_none (estimate_cost cbs) then do {
          s \<leftarrow> sched_unlock s;
          let (rc, estimated, e) = estimate_task_cost cbs (profile (qpu s)) task (env s);
          let s = interf (s\<lparr>env := e\<rparr>);
          s \<leftarrow> sched_lock s;
          let rc = (if rc = QHW_SCHED_OK \<and>
                      qhw_task_table_find D (tasks (sched s)) (task_id task) \<noteq> None
                    then QHW_SCHED_ERR_EXISTS else rc);
          if rc \<noteq> QHW_SCHED_OK then Some (rc, estimated, s)
          else do {
            (rc, latest_config, latest_should_split, s) \<leftarrow> compute_split_config s task;
            Some (if rc = QHW_SCHED_OK \<and> latest_should_split then QHW_SCHED_ERR_STATE else rc,
                  estimated, s)
          }
        }
        else
          let (rc, estimated, e) = estimate_task_cost cbs (profile (qpu s)) task (env s)
          in Some (rc, estimated, s\<lparr>env := e\<rparr>));
     if rc = QHW_SCHED_OK then do {
       (rc, s) \<leftarrow> enqueue_task_locked D s estimated;
       unlock_return rc s
     }
     else unlock_return rc s
   }"

text \<open>The path of a task that is split, entered with the lock held.\<close>

definition submit_split_task ::
  "('h, 'l, 'q) ds \<Rightarrow> (('h, 'l, 'p) sys \<Rightarrow> ('h, 'l, 'p) sys) \<Rightarrow> ('h, 'l, 'p) sys \<Rightarrow>
   qhw_sched_task_desc \<Rightarrow> qhw_sched_split_config \<Rightarrow> (qhw_sched_rc \<times> ('h, 'l, 'p) sys) option" where
  "submit_split_task D interf s task config =
     (let cbs = callbacks (sched s); n = slice_count config in
      if SIZE_MAX div sizeof_task_desc < unat n then unlock_return QHW_SCHED_ERR_UNSUPPORTED s
      else
        let (got, e) = env_alloc (env s); s = s\<lparr>env := e\<rparr> in
        if \<not> got then unlock_return QHW_SCHED_ERR_NO_MEMORY s
        else do {
          let children = replicate (unat n)
            (task\<lparr>task_id := QHW_SCHED_INVALID_TASK_ID, parent_task_id := task_id task\<rparr>);
          s \<leftarrow> sched_unlock s;
          splitter \<leftarrow> split_task cbs;
          let (rc, filled) = splitter (env_calls (env s)) task config children;
          let e = (env s)\<lparr>env_calls := Suc (env_calls (env s))\<rparr>;
          let children = map filled [0..<unat n];
          let (rc, children, e) =
            (if rc = QHW_SCHED_OK then estimate_child_costs cbs (profile (qpu s)) children e
             else (rc, children, e));
          let s = interf (s\<lparr>env := e\<rparr>);
          s \<leftarrow> sched_lock s;
          let rc = (if rc = QHW_SCHED_OK \<and>
                      qhw_task_table_find D (tasks (sched s)) (task_id task) \<noteq> None
                    then QHW_SCHED_ERR_EXISTS else rc);
          (rc, s) \<leftarrow>
            (if rc \<noteq> QHW_SCHED_OK then Some (rc, s)
             else do {
               (rc, latest, latest_should_split, s) \<leftarrow> compute_split_config s task;
               if rc \<noteq> QHW_SCHED_OK then Some (rc, s)
               else if \<not> latest_should_split \<or> slice_count latest \<noteq> slice_count config \<or>
                 slice_shots latest \<noteq> slice_shots config
               then Some (QHW_SCHED_ERR_STATE, s)
               else
                 let (rc, m) = validate_child_tasks D (tasks (sched s)) task children config n
                   (env_mem (env s));
                     s = upd_mem m s
                 in if rc \<noteq> QHW_SCHED_OK then Some (rc, s)
                    else submit_split_task_locked D s task children n
             });
          unlock_return rc s
        })"

definition qhw_sched_submit_task ::
  "('h, 'l, 'q) ds \<Rightarrow> (('h, 'l, 'p) sys \<Rightarrow> ('h, 'l, 'p) sys) \<Rightarrow> bool \<Rightarrow> ('h, 'l, 'p) sys \<Rightarrow>
   qhw_sched_task_desc option \<Rightarrow> (qhw_sched_rc \<times> ('h, 'l, 'p) sys) option" where
  "qhw_sched_submit_task D interf sched_null s task_arg =
     (case task_arg of
        None \<Rightarrow> Some (QHW_SCHED_ERR_INVALID_ARG, s)
      | Some task \<Rightarrow>
          if sched_null then Some (QHW_SCHED_ERR_INVALID_ARG, s)
          else do {
            s \<leftarrow> sched_lock s;
            if qhw_task_table_find D (tasks (sched s)) (task_id task) \<noteq> None
            then unlock_return QHW_SCHED_ERR_EXISTS s
            else do {
              (rc, config, should_split, s) \<leftarrow> compute_split_config s task;
              if rc \<noteq> QHW_SCHED_OK then unlock_return rc s
              else if \<not> should_split then submit_whole_task D interf s task
              else submit_split_task D interf s task config
            }
          })"

subsection \<open>Selection and notifications\<close>

definition qhw_sched_select_next ::
  "('h, 'l, 'q) ds \<Rightarrow> bool \<Rightarrow> ('h, 'l, 'p) sys \<Rightarrow> qhw_sched_assignment option \<Rightarrow>
   ((qhw_sched_rc \<times> qhw_sched_assignment option) \<times> ('h, 'l, 'p) sys) option" where
  "qhw_sched_select_next D sched_null s out =
     (case out of
        None \<Rightarrow> Some ((QHW_SCHED_ERR_INVALID_ARG, None), s)
      | Some a \<Rightarrow>
          if sched_null then Some ((QHW_SCHED_ERR_INVALID_ARG, Some a), s)
          else do {
            s \<leftarrow> sched_lock s;
            case pd_select_next (policy_desc (sched s)) of
              None \<Rightarrow> unlock_return (QHW_SCHED_ERR_NOT_FOUND, Some a) s
            | Some f \<Rightarrow> do {
                (rc, a, st, e) \<leftarrow> f (policy_state (sched s)) a (env s);
                let s = upd_policy st e s;
                if rc \<noteq> QHW_SCHED_OK then unlock_return (rc, Some a) s
                else
                  case qhw_task_table_find D (tasks (sched s)) (as_task_id a) of
                    None \<Rightarrow> unlock_return (QHW_SCHED_ERR_NOT_FOUND, Some a) s
                  | Some p \<Rightarrow> do {
                      r \<leftarrow> record_read (tasks (sched s)) p;
                      if state r \<noteq> QHW_SCHED_TASK_QUEUED
                      then unlock_return (QHW_SCHED_ERR_STATE, Some a) s
                      else do {
                        (rc, tt) \<leftarrow> qhw_task_table_set_state D (tasks (sched s)) (as_task_id a)
                          QHW_SCHED_TASK_ASSIGNED;
                        let s = upd_tasks tt s;
                        if rc \<noteq> QHW_SCHED_OK then unlock_return (rc, Some a) s
                        else do {
                          q \<leftarrow> qpu_runtime_task_unqueued (qpu s);
                          let s = s\<lparr>qpu := q\<rparr>;
                          r \<leftarrow> record_read (tasks (sched s)) p;
                          unlock_return (rc, Some (fill_assignment_from_record r)) s
                        }
                      }
                    }
              }
          })"

definition qhw_sched_task_update_priority ::
  "('h, 'l, 'q) ds \<Rightarrow> bool \<Rightarrow> ('h, 'l, 'p) sys \<Rightarrow> u64 \<Rightarrow> i64 \<Rightarrow>
   (qhw_sched_rc \<times> ('h, 'l, 'p) sys) option" where
  "qhw_sched_task_update_priority D sched_null s tid prio =
     (if sched_null then Some (QHW_SCHED_ERR_INVALID_ARG, s)
      else do {
        s \<leftarrow> sched_lock s;
        case qhw_task_table_find D (tasks (sched s)) tid of
          None \<Rightarrow> unlock_return QHW_SCHED_ERR_NOT_FOUND s
        | Some p \<Rightarrow> do {
            r \<leftarrow> record_read (tasks (sched s)) p;
            if state r \<noteq> QHW_SCHED_TASK_QUEUED then unlock_return QHW_SCHED_ERR_STATE s
            else do {
              let old_priority = priority (desc r);
              tt \<leftarrow> record_write (tasks (sched s)) p (\<lambda>r. r\<lparr>desc := (desc r)\<lparr>priority := prio\<rparr>\<rparr>);
              let s = upd_tasks tt s;
              case pd_on_task_priority_changed (policy_desc (sched s)) of
                None \<Rightarrow> unlock_return QHW_SCHED_OK s
              | Some f \<Rightarrow> do {
                  (rc, st, e) \<leftarrow> f (policy_state (sched s)) tid prio (env s);
                  let s = upd_policy st e s;
                  if rc \<noteq> QHW_SCHED_OK then do {
                    tt \<leftarrow> record_write (tasks (sched s)) p
                      (\<lambda>r. r\<lparr>desc := (desc r)\<lparr>priority := old_priority\<rparr>\<rparr>);
                    unlock_return rc (upd_tasks tt s)
                  }
                  else unlock_return rc s
                }
            }
          }
      })"

definition qhw_sched_task_started ::
  "('h, 'l, 'q) ds \<Rightarrow> bool \<Rightarrow> ('h, 'l, 'p) sys \<Rightarrow> u64 \<Rightarrow> (qhw_sched_rc \<times> ('h, 'l, 'p) sys) option" where
  "qhw_sched_task_started D sched_null s tid =
     (if sched_null then Some (QHW_SCHED_ERR_INVALID_ARG, s)
      else do {
        s \<leftarrow> sched_lock s;
        case qhw_task_table_find D (tasks (sched s)) tid of
          None \<Rightarrow> unlock_return QHW_SCHED_ERR_NOT_FOUND s
        | Some p \<Rightarrow> do {
            r \<leftarrow> record_read (tasks (sched s)) p;
            if state r \<noteq> QHW_SCHED_TASK_ASSIGNED \<and>
               (state r \<noteq> QHW_SCHED_TASK_QUEUED \<or> policy_is_active s)
            then unlock_return QHW_SCHED_ERR_STATE s
            else do {
              let old_state = state r;
              (rc, q) \<leftarrow> qpu_runtime_task_started (qpu s) tid;
              let s = s\<lparr>qpu := q\<rparr>;
              if rc \<noteq> QHW_SCHED_OK then unlock_return rc s
              else do {
                (rc, tt) \<leftarrow> qhw_task_table_set_state D (tasks (sched s)) tid QHW_SCHED_TASK_RUNNING;
                let s = upd_tasks tt s;
                (rc, s) \<leftarrow>
                  (if rc = QHW_SCHED_OK then do {
                     q \<leftarrow> (if old_state = QHW_SCHED_TASK_QUEUED then qpu_runtime_task_unqueued (qpu s)
                           else Some (qpu s));
                     let s = s\<lparr>qpu := q\<rparr>;
                     case pd_on_task_started (policy_desc (sched s)) of
                       None \<Rightarrow> Some (rc, s)
                     | Some f \<Rightarrow> do {
                         (rc, st, e) \<leftarrow> f (policy_state (sched s)) tid (env s);
                         Some (rc, upd_policy st e s)
                       }
                   }
                   else Some (rc, s));
                if rc \<noteq> QHW_SCHED_OK then do {
                  (rc', tt) \<leftarrow> qhw_task_table_set_state D (tasks (sched s)) tid old_state;
                  let s = upd_tasks tt s;
                  q \<leftarrow> (if old_state = QHW_SCHED_TASK_QUEUED then qpu_runtime_task_queued (qpu s)
                        else Some (qpu s));
                  q \<leftarrow> qpu_runtime_task_unstarted q tid;
                  unlock_return rc (s\<lparr>qpu := q\<rparr>)
                }
                else unlock_return rc s
              }
            }
          }
      })"

definition finish_task ::
  "('h, 'l, 'q) ds \<Rightarrow> bool \<Rightarrow> ('h, 'l, 'p) sys \<Rightarrow> u64 \<Rightarrow> qhw_sched_task_state \<Rightarrow>
   (qhw_sched_rc \<times> ('h, 'l, 'p) sys) option" where
  "finish_task D sched_null s tid st =
     (if sched_null then Some (QHW_SCHED_ERR_INVALID_ARG, s)
      else do {
        s \<leftarrow> sched_lock s;
        case qhw_task_table_find D (tasks (sched s)) tid of
          None \<Rightarrow> unlock_return QHW_SCHED_ERR_NOT_FOUND s
        | Some p \<Rightarrow> do {
            r \<leftarrow> record_read (tasks (sched s)) p;
            if task_state_is_terminal (state r) then unlock_return QHW_SCHED_ERR_STATE s
            else if state r = QHW_SCHED_TASK_WAITING then unlock_return QHW_SCHED_ERR_STATE s
            else if st = QHW_SCHED_TASK_COMPLETED \<and> state r \<noteq> QHW_SCHED_TASK_RUNNING
            then unlock_return QHW_SCHED_ERR_STATE s
            else do {
              let old_state = state r;
              (rc, tt) \<leftarrow> qhw_task_table_set_state D (tasks (sched s)) tid st;
              let s = upd_tasks tt s;
              if rc \<noteq> QHW_SCHED_OK then unlock_return rc s
              else do {
                q \<leftarrow> (if old_state = QHW_SCHED_TASK_QUEUED then qpu_runtime_task_unqueued (qpu s)
                      else Some (qpu s));
                q \<leftarrow> qpu_runtime_task_finished q tid st;
                let s = s\<lparr>qpu := q\<rparr>;
                r \<leftarrow> record_read (tasks (sched s)) p;
                s \<leftarrow> update_parent_after_child_locked D s r st;
                (notify_rc, s) \<leftarrow>
                  (case pd_on_task_finished (policy_desc (sched s)) of
                     None \<Rightarrow> Some (QHW_SCHED_OK, s)
                   | Some f \<Rightarrow> do {
                       (rc, pst, e) \<leftarrow> f (policy_state (sched s)) tid st (env s);
                       Some (rc, upd_policy pst e s)
                     });
                unlock_return (if notify_rc \<noteq> QHW_SCHED_OK then notify_rc else rc) s
              }
            }
          }
      })"

definition qhw_sched_task_completed ::
  "('h, 'l, 'q) ds \<Rightarrow> bool \<Rightarrow> ('h, 'l, 'p) sys \<Rightarrow> u64 \<Rightarrow> (qhw_sched_rc \<times> ('h, 'l, 'p) sys) option" where
  "qhw_sched_task_completed D sched_null s tid =
     finish_task D sched_null s tid QHW_SCHED_TASK_COMPLETED"

definition qhw_sched_task_failed ::
  "('h, 'l, 'q) ds \<Rightarrow> bool \<Rightarrow> ('h, 'l, 'p) sys \<Rightarrow> u64 \<Rightarrow> (qhw_sched_rc \<times> ('h, 'l, 'p) sys) option" where
  "qhw_sched_task_failed D sched_null s tid = finish_task D sched_null s tid QHW_SCHED_TASK_FAILED"

definition qhw_sched_task_cancelled ::
  "('h, 'l, 'q) ds \<Rightarrow> bool \<Rightarrow> ('h, 'l, 'p) sys \<Rightarrow> u64 \<Rightarrow> (qhw_sched_rc \<times> ('h, 'l, 'p) sys) option" where
  "qhw_sched_task_cancelled D sched_null s tid =
     finish_task D sched_null s tid QHW_SCHED_TASK_CANCELLED"

subsection \<open>Queries\<close>

definition qhw_sched_task_get_state ::
  "('h, 'l, 'q) ds \<Rightarrow> bool \<Rightarrow> bool \<Rightarrow> ('h, 'l, 'p) sys \<Rightarrow> u64 \<Rightarrow>
   ((qhw_sched_rc \<times> qhw_sched_task_state option) \<times> ('h, 'l, 'p) sys) option" where
  "qhw_sched_task_get_state D sched_null out_null s tid =
     (if sched_null \<or> out_null then Some ((QHW_SCHED_ERR_INVALID_ARG, None), s)
      else do {
        s \<leftarrow> sched_lock s;
        case qhw_task_table_find D (tasks (sched s)) tid of
          None \<Rightarrow> unlock_return (QHW_SCHED_ERR_NOT_FOUND, None) s
        | Some p \<Rightarrow> do {
            r \<leftarrow> record_read (tasks (sched s)) p;
            unlock_return (QHW_SCHED_OK, Some (state r)) s
          }
      })"

definition qhw_sched_task_count :: "bool \<Rightarrow> ('h, 'l, 'p) sys \<Rightarrow> (u64 \<times> ('h, 'l, 'p) sys) option" where
  "qhw_sched_task_count sched_null s =
     (if sched_null then Some (0, s)
      else do {
        s \<leftarrow> sched_lock s;
        unlock_return (tt_count (tasks (sched s))) s
      })"

text \<open>The message of the last error is the scheduler's buffer, read without the lock.\<close>

definition qhw_sched_last_error :: "('h, 'l, 'p) sys option \<Rightarrow> string" where
  "qhw_sched_last_error sys =
     (case sys of None \<Rightarrow> ''scheduler handle is NULL'' | Some s \<Rightarrow> err_message (last_error (sched s)))"

subsection \<open>Policies\<close>

text \<open>
  What the dynamic loader answers for a path: the handle of \<^verbatim>\<open>dlopen\<close>, the descriptor function found by
  \<^verbatim>\<open>dlsym\<close> (\<^term>\<open>None\<close> if there is none; the descriptor it returns may be a null pointer), and the
  message of \<^verbatim>\<open>dlerror\<close>.
\<close>

record 'p dl_answer =
  dl_handle :: "ptr option"
  dl_descriptor :: "'p qhw_sched_plugin_desc option option"
  dl_message :: "string option"

definition set_last_error :: "string option \<Rightarrow> ('h, 'l, 'p) sys \<Rightarrow> ('h, 'l, 'p) sys" where
  "set_last_error msg s =
     s\<lparr>sched := (sched s)\<lparr>last_error := qhw_error_set QHW_SCHED_ERR_PLUGIN msg\<rparr>\<rparr>"

definition dlclose :: "ptr \<Rightarrow> ('h, 'l, 'p) sys \<Rightarrow> ('h, 'l, 'p) sys" where
  "dlclose h s = s\<lparr>open_handles := remove1 h (open_handles s)\<rparr>"

definition qhw_sched_load_plugin ::
  "bool \<Rightarrow> ('h, 'l, 'p) sys \<Rightarrow> string option \<Rightarrow> (string \<Rightarrow> 'p dl_answer) \<Rightarrow>
   (qhw_sched_rc \<times> ('h, 'l, 'p) sys) option" where
  "qhw_sched_load_plugin sched_null s path_arg loader =
     (case path_arg of
        None \<Rightarrow> Some (QHW_SCHED_ERR_INVALID_ARG, s)
      | Some path \<Rightarrow>
          if sched_null then Some (QHW_SCHED_ERR_INVALID_ARG, s)
          else
            (case dl_handle (loader path) of
               None \<Rightarrow> Some (QHW_SCHED_ERR_PLUGIN, set_last_error (dl_message (loader path)) s)
             | Some handle \<Rightarrow>
                 let s = s\<lparr>open_handles := handle # open_handles s\<rparr> in
                 (case dl_descriptor (loader path) of
                    None \<Rightarrow>
                      Some (QHW_SCHED_ERR_PLUGIN,
                        dlclose handle (set_last_error (dl_message (loader path)) s))
                  | Some d \<Rightarrow>
                      if validate_plugin_desc (threading (sched s)) d \<noteq> QHW_SCHED_OK
                      then Some (QHW_SCHED_ERR_PLUGIN,
                        dlclose handle
                          (set_last_error (Some ''invalid scheduler plugin descriptor'') s))
                      else do {
                        s \<leftarrow> sched_lock s;
                        d \<leftarrow> d;
                        let (rc, reg, e) = qhw_plugin_registry_add (plugins (sched s)) d
                          (Some path) (Some handle) (env s);
                        let s = s\<lparr>sched := (sched s)\<lparr>plugins := reg\<rparr>, env := e\<rparr>;
                        s \<leftarrow> sched_unlock s;
                        Some (rc, if rc \<noteq> QHW_SCHED_OK then dlclose handle s else s)
                      })))"

record qhw_sched_policy_info =
  pi_struct_size :: nat
  pi_name :: "string option"
  pi_version :: "string option"
  pi_description :: "string option"
  pi_capabilities :: u64
  pi_thread_flags :: u64
  pi_plugin_path :: "string option"

abbreviation (input) sizeof_policy_info :: nat where "sizeof_policy_info \<equiv> 56"

definition policy_info :: "'p qhw_sched_plugin \<Rightarrow> qhw_sched_policy_info" where
  "policy_info it = \<lparr>pi_struct_size = sizeof_policy_info, pi_name = pd_name (pl_desc it), pi_version = pd_version (pl_desc it),
     pi_description = pd_description (pl_desc it), pi_capabilities = pd_capabilities (pl_desc it),
     pi_thread_flags = pd_thread_flags (pl_desc it), pi_plugin_path = pl_path it\<rparr>"

definition qhw_sched_list_policies ::
  "bool \<Rightarrow> bool \<Rightarrow> ('h, 'l, 'p) sys \<Rightarrow>
   ((qhw_sched_rc \<times> qhw_sched_policy_info list option) \<times> ('h, 'l, 'p) sys) option" where
  "qhw_sched_list_policies sched_null out_null s =
     (if sched_null \<or> out_null then Some ((QHW_SCHED_ERR_INVALID_ARG, None), s)
      else do {
        s \<leftarrow> sched_lock s;
        if items (plugins (sched s)) = [] then unlock_return (QHW_SCHED_OK, Some []) s
        else
          let (got, e) = env_alloc (env s); s = s\<lparr>env := e\<rparr> in
          if \<not> got then unlock_return (QHW_SCHED_ERR_NO_MEMORY, None) s
          else unlock_return (QHW_SCHED_OK, Some (map policy_info (items (plugins (sched s))))) s
      })"

definition replay_queued_task ::
  "'p qhw_sched_plugin_desc \<Rightarrow> qhw_task_record \<Rightarrow> 'p option \<times> env \<Rightarrow>
   (qhw_sched_rc \<times> 'p option \<times> env) option" where
  "replay_queued_task d r ctx = do {
     f \<leftarrow> pd_on_task_submit d;
     f (fst ctx) (desc r) (snd ctx)
   }"

definition qhw_sched_set_policy ::
  "('h, 'l, 'q) ds \<Rightarrow> bool \<Rightarrow> ('h, 'l, 'p) sys \<Rightarrow> string option \<Rightarrow> kv_ref \<Rightarrow>
   (qhw_sched_rc \<times> ('h, 'l, 'p) sys) option" where
  "qhw_sched_set_policy D sched_null s policy_name options =
     (if sched_null \<or> policy_name = None then Some (QHW_SCHED_ERR_INVALID_ARG, s)
      else do {
        s \<leftarrow> sched_lock s;
        case qhw_plugin_registry_find (plugins (sched s)) policy_name of
          None \<Rightarrow> unlock_return QHW_SCHED_ERR_NOT_FOUND s
        | Some plugin \<Rightarrow>
            if kv_count options > 0 \<and> kv_is_null options
            then unlock_return QHW_SCHED_ERR_INVALID_ARG s
            else do {
              ini \<leftarrow> pd_init (pl_desc plugin);
              (rc, st, e) \<leftarrow> ini options (env s);
              let s = s\<lparr>env := e\<rparr>;
              if rc \<noteq> QHW_SCHED_OK then unlock_return rc s
              else do {
                (rc, st, e) \<leftarrow> qhw_task_table_for_each_queued D (tasks (sched s))
                  (replay_queued_task (pl_desc plugin)) (st, env s);
                let s = s\<lparr>env := e\<rparr>;
                if rc \<noteq> QHW_SCHED_OK then do {
                  fini \<leftarrow> pd_fini (pl_desc plugin);
                  e \<leftarrow> fini st (env s);
                  unlock_return rc (s\<lparr>env := e\<rparr>)
                }
                else do {
                  e \<leftarrow> (case pd_fini (policy_desc (sched s)) of
                          None \<Rightarrow> Some (env s)
                        | Some f \<Rightarrow> f (policy_state (sched s)) (env s));
                  unlock_return QHW_SCHED_OK
                    (s\<lparr>sched := (sched s)\<lparr>policy_desc := pl_desc plugin, policy_state := st\<rparr>, env := e\<rparr>)
                }
              }
            }
      })"

end
