(* ===== verification/Sched_Inv.thy ===== *)
theory Sched_Inv
  imports Sched_Api
begin

section \<open>Invariant of the scheduler core\<close>

text \<open>
  The abstract state of a scheduler is the map from task ids to records (\<^verbatim>\<open>tt_task\<close>), the enqueue order,
  the QPU counters and the policy's set of ready ids. The invariant relates them: the counters of the
  QPU describe the map, the policy's ready set is the set of queued tasks, and a waiting parent has a
  live child for each child outcome it is still missing.
\<close>

subsection \<open>Task maps\<close>

type_synonym task_map = "u64 \<rightharpoonup> qhw_task_record"

definition ids_in :: "task_map \<Rightarrow> qhw_sched_task_state \<Rightarrow> u64 set" where
  "ids_in T st = {i. \<exists>r. T i = Some r \<and> state r = st}"

definition live_state :: "qhw_sched_task_state \<Rightarrow> bool" where
  "live_state st \<longleftrightarrow>
     st = QHW_SCHED_TASK_QUEUED \<or> st = QHW_SCHED_TASK_ASSIGNED \<or> st = QHW_SCHED_TASK_RUNNING"

definition live_children :: "task_map \<Rightarrow> u64 \<Rightarrow> u64 set" where
  "live_children T pid =
     {i. \<exists>r. T i = Some r \<and> live_state (state r) \<and> parent_task_id (desc r) = pid}"

definition outcomes :: "qhw_task_record \<Rightarrow> nat" where
  "outcomes r =
     unat (completed_child_count r) + unat (failed_child_count r) + unat (cancelled_child_count r)"

text \<open>The waiting parents outside \<^verbatim>\<open>X\<close> have enough live children.\<close>

definition waiting_ok :: "u64 set \<Rightarrow> task_map \<Rightarrow> bool" where
  "waiting_ok X T \<longleftrightarrow>
     (\<forall>pid r. T pid = Some r \<longrightarrow> state r = QHW_SCHED_TASK_WAITING \<longrightarrow> pid \<notin> X \<longrightarrow>
        outcomes r < unat (child_count r) \<and>
        unat (child_count r) \<le> outcomes r + card (live_children T pid))"

definition runtime_ok :: "qhw_sched_qpu_runtime \<Rightarrow> task_map \<Rightarrow> bool" where
  "runtime_ok rt T \<longleftrightarrow>
     unat (queued_count rt) = card (ids_in T QHW_SCHED_TASK_QUEUED) \<and>
     ids_in T QHW_SCHED_TASK_RUNNING =
       (if running_task_id rt = 0 then {} else {running_task_id rt}) \<and>
     ids_in T QHW_SCHED_TASK_UNKNOWN = {}"

definition keyed :: "task_map \<Rightarrow> bool" where
  "keyed T \<longleftrightarrow> finite (dom T) \<and> (\<forall>i r. T i = Some r \<longrightarrow> task_id (desc r) = i \<and> i \<noteq> 0)"

lemma ids_in_upd:
  "ids_in (T(i \<mapsto> r)) st = (if state r = st then insert i (ids_in T st) else ids_in T st - {i})"
  by (auto simp: ids_in_def)

lemma ids_in_del: "ids_in (T(i := None)) st = ids_in T st - {i}"
  by (auto simp: ids_in_def)

lemma ids_in_iff: "T i = Some r \<Longrightarrow> i \<in> ids_in T st \<longleftrightarrow> state r = st"
  by (auto simp: ids_in_def)

lemma ids_in_None: "T i = None \<Longrightarrow> i \<notin> ids_in T st"
  by (auto simp: ids_in_def)

lemma ids_in_dom: "ids_in T st \<subseteq> dom T"
  by (auto simp: ids_in_def)

lemma live_children_upd:
  "live_children (T(i \<mapsto> r)) pid =
     (if live_state (state r) \<and> parent_task_id (desc r) = pid then insert i (live_children T pid)
      else live_children T pid - {i})"
  by (auto simp: live_children_def)

lemma live_children_del: "live_children (T(i := None)) pid = live_children T pid - {i}"
  by (auto simp: live_children_def)

lemma live_children_None: "T i = None \<Longrightarrow> i \<notin> live_children T pid"
  by (auto simp: live_children_def)

lemma keyed_finite [simp]: "keyed T \<Longrightarrow> finite (ids_in T st)" "keyed T \<Longrightarrow> finite (live_children T pid)"
proof -
  assume "keyed T"
  then have "finite (dom T)" by (simp add: keyed_def)
  then show "finite (ids_in T st)" "finite (live_children T pid)"
    by (auto intro!: finite_subset [of _ "dom T"] simp: ids_in_def live_children_def)
qed

lemma keyed_upd: "keyed T \<Longrightarrow> task_id (desc r) = i \<Longrightarrow> i \<noteq> 0 \<Longrightarrow> keyed (T(i \<mapsto> r))"
  by (simp add: keyed_def)

lemma keyed_del: "keyed T \<Longrightarrow> keyed (T(i := None))"
  by (simp add: keyed_def)

lemma keyed_zero: "keyed T \<Longrightarrow> 0 \<notin> ids_in T st"
  by (auto simp: keyed_def ids_in_def)

lemma card_nonzero_u64: "0 \<notin> (S :: u64 set) \<Longrightarrow> card S \<le> 18446744073709551615"
proof -
  assume "0 \<notin> S"
  then have "card S \<le> card (UNIV - {0 :: u64})" by (intro card_mono) auto
  also have "\<dots> = 18446744073709551615" by (simp add: card_Diff_singleton card_word)
  finally show ?thesis .
qed

subsection \<open>QPU counters under a change of one task\<close>

lemma ids_in_keep:
  "map_option state (T i) \<noteq> Some st \<Longrightarrow> state r' \<noteq> st \<Longrightarrow> ids_in (T(i \<mapsto> r')) st = ids_in T st"
  by (auto simp: ids_in_def)

lemma ids_in_del_keep:
  "map_option state (T i) \<noteq> Some st \<Longrightarrow> ids_in (T(i := None)) st = ids_in T st"
  by (auto simp: ids_in_def)

lemma ids_in_same: "T i = Some r \<Longrightarrow> state r' = state r \<Longrightarrow> ids_in (T(i \<mapsto> r')) st = ids_in T st"
  by (auto simp: ids_in_def)

lemma unat_Suc_card:
  assumes "unat (q :: u64) = card S" "finite S" "(i :: u64) \<notin> S" "0 \<notin> insert i S"
  shows "unat (q + 1) = card (insert i S)"
proof -
  have "card (insert i S) = card S + 1" using assms by simp
  moreover have "card (insert i S) \<le> 18446744073709551615" using card_nonzero_u64 [OF assms(4)] .
  ultimately have "unat q \<noteq> unat UINT64_MAX" using assms(1) by simp
  then have "q \<noteq> UINT64_MAX" by metis
  then show ?thesis using assms by (simp add: unat_u64_Suc)
qed

definition dec0 :: "u64 \<Rightarrow> u64" where
  "dec0 q = (if q > 0 then q - 1 else 0)"

lemma unat_dec0_card:
  assumes "unat q = card S" "finite S" "i \<in> S"
  shows "unat (dec0 q) = card (S - {i})"
proof -
  have "0 < card S" using assms by (auto simp: card_gt_0_iff)
  then have "0 < unat q" using assms by simp
  then show ?thesis
    using assms by (simp add: dec0_def unat_u64_pred word_less_nat_alt card_Diff_singleton)
qed

lemma dec0_Suc: "q \<noteq> UINT64_MAX \<Longrightarrow> dec0 (q + 1) = q"
proof -
  assume "q \<noteq> UINT64_MAX"
  then have "q + 1 > 0" by (simp add: word_less_nat_alt unat_u64_Suc)
  then show ?thesis by (simp add: dec0_def)
qed

lemma runtime_ok_queued_set:
  "runtime_ok rt T \<Longrightarrow> keyed T \<Longrightarrow> T i = Some r \<Longrightarrow> state r = QHW_SCHED_TASK_QUEUED \<Longrightarrow>
   unat (dec0 (queued_count rt)) = card (ids_in T QHW_SCHED_TASK_QUEUED - {i})"
  by (rule unat_dec0_card) (auto simp: runtime_ok_def ids_in_iff)

lemma runtime_ok_insert:
  assumes "runtime_ok rt T" "keyed T" "T i = None" "i \<noteq> 0" "state r = QHW_SCHED_TASK_QUEUED"
  shows "runtime_ok (rt\<lparr>queued_count := queued_count rt + 1\<rparr>) (T(i \<mapsto> r))"
proof -
  have "unat (queued_count rt + 1) = card (insert i (ids_in T QHW_SCHED_TASK_QUEUED))"
    using assms keyed_zero [OF assms(2)]
    by (intro unat_Suc_card) (auto simp: runtime_ok_def ids_in_None)
  then show ?thesis
    using assms by (simp add: runtime_ok_def ids_in_keep ids_in_upd [where st = QHW_SCHED_TASK_QUEUED]
        del: card_insert_disjoint)
qed

lemma runtime_ok_room:
  assumes "runtime_ok rt T" "keyed T" "T i = None" "i \<noteq> 0"
  shows "queued_count rt \<noteq> UINT64_MAX"
proof
  assume "queued_count rt = UINT64_MAX"
  moreover have "unat (queued_count rt + 1) = card (insert i (ids_in T QHW_SCHED_TASK_QUEUED))"
    using assms keyed_zero [OF assms(2)]
    by (intro unat_Suc_card) (auto simp: runtime_ok_def ids_in_None)
  moreover have "0 < card (insert i (ids_in T QHW_SCHED_TASK_QUEUED))"
    using assms by (auto simp: card_gt_0_iff)
  ultimately show False by (simp add: UINT64_MAX_def)
qed

lemma runtime_ok_delete:
  assumes "runtime_ok rt T" "keyed T" "T i = Some r" "state r = QHW_SCHED_TASK_QUEUED"
  shows "runtime_ok (rt\<lparr>queued_count := dec0 (queued_count rt)\<rparr>) (T(i := None))"
  using assms runtime_ok_queued_set [OF assms]
  by (simp add: runtime_ok_def ids_in_del_keep ids_in_del [where st = QHW_SCHED_TASK_QUEUED])

lemma runtime_ok_waiting:
  assumes "runtime_ok rt T" "T i = None" "state r = QHW_SCHED_TASK_WAITING"
  shows "runtime_ok rt (T(i \<mapsto> r))"
  using assms by (simp add: runtime_ok_def ids_in_keep)

lemma runtime_ok_del_waiting:
  assumes "runtime_ok rt T" "T i = Some r" "state r = QHW_SCHED_TASK_WAITING"
  shows "runtime_ok rt (T(i := None))"
  using assms by (simp add: runtime_ok_def ids_in_del_keep)

lemma runtime_ok_same_state:
  assumes "runtime_ok rt T" "T i = Some r" "state r' = state r"
  shows "runtime_ok rt (T(i \<mapsto> r'))"
  using assms by (simp add: runtime_ok_def ids_in_same)

lemma runtime_ok_neither:
  assumes "runtime_ok rt T" "T i = Some r"
    "state r \<notin> {QHW_SCHED_TASK_QUEUED, QHW_SCHED_TASK_RUNNING}"
    "state r' \<notin> {QHW_SCHED_TASK_QUEUED, QHW_SCHED_TASK_RUNNING, QHW_SCHED_TASK_UNKNOWN}"
  shows "runtime_ok rt (T(i \<mapsto> r'))"
  using assms
  by (simp add: runtime_ok_def ids_in_keep ids_in_upd [where st = QHW_SCHED_TASK_UNKNOWN])

lemma runtime_ok_leave_queue:
  assumes "runtime_ok rt T" "keyed T" "T i = Some r" "state r = QHW_SCHED_TASK_QUEUED"
    "state r' \<notin> {QHW_SCHED_TASK_QUEUED, QHW_SCHED_TASK_RUNNING, QHW_SCHED_TASK_UNKNOWN}"
  shows "runtime_ok (rt\<lparr>queued_count := dec0 (queued_count rt)\<rparr>) (T(i \<mapsto> r'))"
  using assms runtime_ok_queued_set [OF assms(1-4)]
  by (simp add: runtime_ok_def ids_in_keep ids_in_upd [where st = QHW_SCHED_TASK_QUEUED])

lemma running_id:
  assumes "runtime_ok rt T" "keyed T" "T i = Some r"
  shows "state r = QHW_SCHED_TASK_RUNNING \<longleftrightarrow> running_task_id rt = i"
proof -
  have "state r = QHW_SCHED_TASK_RUNNING \<longleftrightarrow> i \<in> ids_in T QHW_SCHED_TASK_RUNNING"
    using assms(3) by (simp add: ids_in_iff)
  moreover have "i \<noteq> 0" using assms by (auto simp: keyed_def)
  ultimately show ?thesis using assms(1) by (auto simp: runtime_ok_def split: if_splits)
qed

lemma runtime_ok_start:
  assumes "runtime_ok rt T" "keyed T" "T i = Some r" "state r = QHW_SCHED_TASK_ASSIGNED"
    "running_task_id rt = 0" "state r' = QHW_SCHED_TASK_RUNNING"
  shows "runtime_ok (rt\<lparr>running_task_id := i\<rparr>) (T(i \<mapsto> r'))"
proof -
  have "i \<noteq> 0" using assms by (auto simp: keyed_def)
  then show ?thesis
    using assms by (simp add: runtime_ok_def ids_in_keep ids_in_upd [where st = QHW_SCHED_TASK_RUNNING])
qed

lemma runtime_ok_start_queued:
  assumes "runtime_ok rt T" "keyed T" "T i = Some r" "state r = QHW_SCHED_TASK_QUEUED"
    "running_task_id rt = 0" "state r' = QHW_SCHED_TASK_RUNNING"
  shows "runtime_ok (rt\<lparr>running_task_id := i, queued_count := dec0 (queued_count rt)\<rparr>) (T(i \<mapsto> r'))"
proof -
  have "i \<noteq> 0" using assms by (auto simp: keyed_def)
  then show ?thesis
    using assms runtime_ok_queued_set [OF assms(1-4)] by (simp add: runtime_ok_def ids_in_upd)
qed

lemma runtime_ok_finish:
  assumes "runtime_ok rt T" "keyed T" "T i = Some r" "state r \<noteq> QHW_SCHED_TASK_QUEUED"
    "state r' \<notin> {QHW_SCHED_TASK_QUEUED, QHW_SCHED_TASK_RUNNING, QHW_SCHED_TASK_UNKNOWN}"
  shows "runtime_ok (finished_runtime rt i st) (T(i \<mapsto> r'))"
proof -
  have "i \<noteq> 0" using assms by (auto simp: keyed_def)
  then show ?thesis
    using assms running_id [OF assms(1,2,3)]
    by (auto simp: runtime_ok_def finished_runtime_def ids_in_keep
        ids_in_upd [where st = QHW_SCHED_TASK_RUNNING] ids_in_upd [where st = QHW_SCHED_TASK_UNKNOWN])
qed

lemma runtime_ok_finish_queued:
  assumes "runtime_ok rt T" "keyed T" "T i = Some r" "state r = QHW_SCHED_TASK_QUEUED"
    "state r' \<notin> {QHW_SCHED_TASK_QUEUED, QHW_SCHED_TASK_RUNNING, QHW_SCHED_TASK_UNKNOWN}"
  shows "runtime_ok (finished_runtime (rt\<lparr>queued_count := dec0 (queued_count rt)\<rparr>) i st) (T(i \<mapsto> r'))"
proof -
  have "running_task_id rt \<noteq> i" using assms running_id [OF assms(1,2,3)] by auto
  then show ?thesis
    using runtime_ok_leave_queue [OF assms] by (simp add: runtime_ok_def finished_runtime_def)
qed

subsection \<open>Parents and children\<close>

text \<open>A parent after one more child outcome: the specification of the aggregation.\<close>

definition count_outcome :: "qhw_task_record \<Rightarrow> qhw_sched_task_state \<Rightarrow> qhw_task_record" where
  "count_outcome r st =
     (if st = QHW_SCHED_TASK_COMPLETED then r\<lparr>completed_child_count := completed_child_count r + 1\<rparr>
      else if st = QHW_SCHED_TASK_FAILED then r\<lparr>failed_child_count := failed_child_count r + 1\<rparr>
      else if st = QHW_SCHED_TASK_CANCELLED then r\<lparr>cancelled_child_count := cancelled_child_count r + 1\<rparr>
      else r)"

definition aggregate_state :: "qhw_task_record \<Rightarrow> qhw_sched_task_state" where
  "aggregate_state r =
     (if failed_child_count r > 0 then QHW_SCHED_TASK_FAILED
      else if cancelled_child_count r > 0 then QHW_SCHED_TASK_CANCELLED
      else QHW_SCHED_TASK_COMPLETED)"

definition parent_after :: "qhw_task_record \<Rightarrow> qhw_sched_task_state \<Rightarrow> qhw_task_record" where
  "parent_after r st =
     (let r = count_outcome r st in
      if completed_child_count r + failed_child_count r + cancelled_child_count r < child_count r
      then r else r\<lparr>state := aggregate_state r\<rparr>)"

definition parent_step :: "task_map \<Rightarrow> qhw_task_record \<Rightarrow> qhw_sched_task_state \<Rightarrow> task_map" where
  "parent_step T child st =
     (case T (parent_task_id (desc child)) of
        None \<Rightarrow> T
      | Some r \<Rightarrow>
          if state r = QHW_SCHED_TASK_WAITING
          then T(parent_task_id (desc child) \<mapsto> parent_after r st) else T)"

lemma desc_count_outcome [simp]:
  "desc (count_outcome r st) = desc r" "state (count_outcome r st) = state r"
  "child_count (count_outcome r st) = child_count r"
  by (simp_all add: count_outcome_def)

lemma desc_parent_after [simp]:
  "desc (parent_after r st) = desc r" "child_count (parent_after r st) = child_count r"
  by (simp_all add: parent_after_def Let_def)

lemma not_live_aggregate [simp]: "\<not> live_state (aggregate_state r)"
  by (simp add: aggregate_state_def live_state_def)

lemma not_live_waiting [simp]: "\<not> live_state QHW_SCHED_TASK_WAITING"
  by (simp add: live_state_def)

lemma not_live_terminal [simp]: "task_state_is_terminal st \<Longrightarrow> \<not> live_state st"
  by (auto simp: live_state_def task_state_is_terminal_def)

lemma not_live_parent_after:
  "state r = QHW_SCHED_TASK_WAITING \<Longrightarrow> \<not> live_state (state (parent_after r st))"
  by (simp add: parent_after_def Let_def)

lemma unat_plus3:
  fixes a b c :: u64
  assumes "unat a + unat b + unat c \<le> 18446744073709551615"
  shows "unat (a + b + c) = unat a + unat b + unat c"
  using assms by (simp add: unat_word_ariths)

lemma outcomes_count:
  assumes "outcomes r < unat (child_count r)" "task_state_is_terminal st"
  shows "outcomes (count_outcome r st) = outcomes r + 1"
proof -
  have "outcomes r < 18446744073709551615" using assms(1) unat_u64_le [of "child_count r"] by simp
  then have "unat (completed_child_count r) \<noteq> unat UINT64_MAX"
    "unat (failed_child_count r) \<noteq> unat UINT64_MAX" "unat (cancelled_child_count r) \<noteq> unat UINT64_MAX"
    by (simp_all add: outcomes_def)
  then have "completed_child_count r \<noteq> UINT64_MAX" "failed_child_count r \<noteq> UINT64_MAX"
    "cancelled_child_count r \<noteq> UINT64_MAX" by metis+
  then show ?thesis using assms(2)
    by (auto simp: count_outcome_def outcomes_def task_state_is_terminal_def unat_u64_Suc)
qed

lemma parent_after_open:
  assumes "outcomes r < unat (child_count r)" "task_state_is_terminal st"
    "state (parent_after r st) = QHW_SCHED_TASK_WAITING"
  shows "outcomes (parent_after r st) = outcomes r + 1 \<and>
    outcomes (parent_after r st) < unat (child_count r)"
proof -
  let ?r = "count_outcome r st"
  have n: "outcomes ?r = outcomes r + 1" using assms by (simp add: outcomes_count)
  have "unat (completed_child_count ?r + failed_child_count ?r + cancelled_child_count ?r) = outcomes ?r"
    using n assms(1) unat_u64_le [of "child_count r"] by (simp add: unat_plus3 outcomes_def)
  then show ?thesis using assms(3) n
    by (auto simp: parent_after_def Let_def word_less_nat_alt aggregate_state_def split: if_splits)
qed

lemma live_children_keep:
  assumes "\<And>r. T i = Some r \<Longrightarrow> \<not> live_state (state r)" "\<not> live_state (state r')"
  shows "live_children (T(i \<mapsto> r')) pid = live_children T pid"
  using assms by (auto simp: live_children_def)

lemma live_children_same:
  assumes "T i = Some r" "live_state (state r') = live_state (state r)"
    "parent_task_id (desc r') = parent_task_id (desc r)"
  shows "live_children (T(i \<mapsto> r')) pid = live_children T pid"
  using assms by (auto simp: live_children_def)

lemma parent_step_at:
  "parent_step T child st j =
     (if j = parent_task_id (desc child) \<and> map_option state (T j) = Some QHW_SCHED_TASK_WAITING
      then map_option (\<lambda>p. parent_after p st) (T j) else T j)"
  by (auto simp: parent_step_def split: option.splits)

lemma live_children_parent_step: "live_children (parent_step T child st) pid = live_children T pid"
proof (cases "\<exists>r. T (parent_task_id (desc child)) = Some r \<and> state r = QHW_SCHED_TASK_WAITING")
  case True
  then obtain r where r: "T (parent_task_id (desc child)) = Some r" "state r = QHW_SCHED_TASK_WAITING"
    by blast
  then show ?thesis
    using live_children_keep [of T "parent_task_id (desc child)" "parent_after r st"]
    by (simp add: parent_step_def not_live_parent_after)
qed (auto simp: parent_step_def split: option.splits)

lemma waiting_ok_insert:
  assumes "waiting_ok X T" "keyed T" "T i = None" "state r \<noteq> QHW_SCHED_TASK_WAITING"
  shows "waiting_ok X (T(i \<mapsto> r))"
proof -
  have "card (live_children T pid) \<le> card (live_children (T(i \<mapsto> r)) pid)" for pid
    using assms live_children_None [of T i] by (auto simp: live_children_upd intro!: card_mono)
  then show ?thesis using assms unfolding waiting_ok_def
    by (metis (no_types, lifting) add_le_cancel_left fun_upd_apply le_trans option.inject)
qed

lemma waiting_ok_add_parent:
  assumes "waiting_ok X T" "T i = None" "state r = QHW_SCHED_TASK_WAITING"
  shows "waiting_ok (insert i X) (T(i \<mapsto> r))"
  using assms live_children_keep [of T i r] by (auto simp: waiting_ok_def)

lemma waiting_ok_drop_parent:
  assumes "waiting_ok (insert i X) T" "T i = Some r" "state r = QHW_SCHED_TASK_WAITING"
  shows "waiting_ok X (T(i := None))"
proof -
  have "live_children (T(i := None)) pid = live_children T pid" for pid
    using assms(2,3) by (auto simp: live_children_def)
  then show ?thesis using assms by (auto simp: waiting_ok_def)
qed

lemma waiting_ok_delete_child:
  assumes "waiting_ok X T" "T i = Some r" "parent_task_id (desc r) \<in> X"
  shows "waiting_ok X (T(i := None))"
proof -
  have "live_children (T(i := None)) pid = live_children T pid" if "pid \<notin> X" for pid
    using assms(2,3) that by (auto simp: live_children_def)
  then show ?thesis using assms by (auto simp: waiting_ok_def)
qed

lemma waiting_ok_keep:
  assumes "waiting_ok X T" "T i = Some r" "live_state (state r') = live_state (state r)"
    "parent_task_id (desc r') = parent_task_id (desc r)" "state r' \<noteq> QHW_SCHED_TASK_WAITING"
  shows "waiting_ok X (T(i \<mapsto> r'))"
  using assms live_children_same [of T i r r', OF assms(2-4)] by (auto simp: waiting_ok_def)

lemma waiting_ok_exempt:
  assumes "waiting_ok X T" "T i = Some r" "state r = QHW_SCHED_TASK_WAITING"
    "state r' = QHW_SCHED_TASK_WAITING" "i \<in> X"
  shows "waiting_ok X (T(i \<mapsto> r'))"
proof -
  have "live_children (T(i \<mapsto> r')) pid = live_children T pid" for pid
    using assms(2-4) by (intro live_children_keep) auto
  then show ?thesis using assms by (auto simp: waiting_ok_def)
qed

lemma waiting_ok_close:
  assumes "waiting_ok (insert i X) T"
    and "\<And>r. T i = Some r \<Longrightarrow> state r = QHW_SCHED_TASK_WAITING \<Longrightarrow> outcomes r < unat (child_count r) \<and>
          unat (child_count r) \<le> outcomes r + card (live_children T i)"
  shows "waiting_ok X T"
  using assms by (auto simp: waiting_ok_def)

text \<open>Finishing a live task and then counting its outcome at the parent keeps the invariant.\<close>

lemma waiting_ok_finish:
  assumes ok: "waiting_ok X T" and key: "keyed T" and i: "T i = Some r" "live_state (state r)"
    and st: "task_state_is_terminal st"
  shows "waiting_ok X (parent_step (T(i \<mapsto> r\<lparr>state := st\<rparr>)) (r\<lparr>state := st\<rparr>) st)"
    (is "waiting_ok X ?T2")
proof -
  let ?T1 = "T(i \<mapsto> r\<lparr>state := st\<rparr>)" and ?pp = "parent_task_id (desc r)"
  have T1: "live_children ?T1 pid = live_children T pid - {i}" for pid
    using st by (auto simp: live_children_upd)
  have T2: "live_children ?T2 pid = live_children ?T1 pid" for pid
    by (rule live_children_parent_step)
  show ?thesis
    unfolding waiting_ok_def
  proof (intro allI impI)
    fix pid p2
    assume p2: "?T2 pid = Some p2" "state p2 = QHW_SCHED_TASK_WAITING" "pid \<notin> X"
    have T1i: "map_option state (?T1 i) = Some st" by simp
    have st': "st \<noteq> QHW_SCHED_TASK_WAITING" using st by (auto simp: task_state_is_terminal_def)
    have neq: "pid \<noteq> i"
    proof
      assume "pid = i"
      then have "?T2 pid = Some (r\<lparr>state := st\<rparr>)" using st' by (simp add: parent_step_at)
      then show False using p2 st' by auto
    qed
    show "outcomes p2 < unat (child_count p2) \<and>
      unat (child_count p2) \<le> outcomes p2 + card (live_children ?T2 pid)"
    proof (cases "pid = ?pp \<and> map_option state (T pid) = Some QHW_SCHED_TASK_WAITING")
      case True
      then obtain p where p: "T pid = Some p" "state p = QHW_SCHED_TASK_WAITING" by auto
      then have eq: "p2 = parent_after p st" using p2(1) True neq by (simp add: parent_step_at)
      have old: "outcomes p < unat (child_count p)"
        "unat (child_count p) \<le> outcomes p + card (live_children T pid)"
        using ok p p2(3) unfolding waiting_ok_def by blast+
      have "i \<in> live_children T pid" using i True by (auto simp: live_children_def)
      then have "card (live_children T pid) = card (live_children ?T2 pid) + 1"
        using key unfolding T2 T1 by (metis Suc_eq_plus1 card_Suc_Diff1 keyed_finite(2))
      then show ?thesis using old parent_after_open [OF old(1) st] p2(2) unfolding eq by simp
    next
      case False
      then have same: "T pid = Some p2" using p2(1) neq by (auto simp: parent_step_at split: if_splits)
      with False p2(2) have "pid \<noteq> ?pp" by auto
      then have "i \<notin> live_children T pid" using i by (auto simp: live_children_def)
      then have "live_children ?T2 pid = live_children T pid" unfolding T2 T1 by blast
      then show ?thesis using ok p2(2,3) same unfolding waiting_ok_def by metis
    qed
  qed
qed

end
