(* ===== verification/Sched_Core.thy ===== *)
theory Sched_Core
  imports Sched_Inv
begin

section \<open>Contracts of the internal operations\<close>

text \<open>
  The scheduler core as a client of two interfaces: the data structures, and the policies that a
  contract \<^verbatim>\<open>K\<close> accepts. \<^verbatim>\<open>cinv\<close> is the invariant while the scheduler lock is held, with the waiting
  parents of \<^verbatim>\<open>X\<close> exempt (a parent whose children are being enqueued); \<^verbatim>\<open>sched_inv\<close> is the invariant
  between calls.
\<close>

record 'p contract =
  good :: "'p qhw_sched_plugin_desc \<Rightarrow> bool"
  pinv :: "'p qhw_sched_plugin_desc \<Rightarrow> 'p \<Rightarrow> bool"
  ready :: "'p qhw_sched_plugin_desc \<Rightarrow> 'p \<Rightarrow> u64 set"

definition policy_ok ::
  "'p contract \<Rightarrow> task_map \<Rightarrow> 'p qhw_sched_plugin_desc \<Rightarrow> 'p option \<Rightarrow> bool" where
  "policy_ok K T d st \<longleftrightarrow>
     d = zero_plugin_desc \<and> st = None \<or>
     good K d \<and> (\<exists>p. st = Some p \<and> pinv K d p \<and> ready K d p = ids_in T QHW_SCHED_TASK_QUEUED)"

definition plugins_ok :: "'p contract \<Rightarrow> 'p qhw_plugin_registry \<Rightarrow> ptr list \<Rightarrow> bool" where
  "plugins_ok K reg handles \<longleftrightarrow>
     registry_ok reg \<and> (\<forall>it \<in> set (items reg). good K (pl_desc it)) \<and>
     mset handles = mset (List.map_filter pl_dl_handle (items reg))"

definition task_map_of :: "('h, 'l, 'q) ds \<Rightarrow> ('h, 'l, 'p) sys \<Rightarrow> task_map" where
  "task_map_of D s = tt_task D (tasks (sched s))"

definition order_of :: "('h, 'l, 'q) ghost \<Rightarrow> ('h, 'l, 'p) sys \<Rightarrow> u64 list" where
  "order_of G s = tt_order G (tasks (sched s))"

definition cinv ::
  "('h, 'l, 'q) ds \<Rightarrow> ('h, 'l, 'q) ghost \<Rightarrow> 'p contract \<Rightarrow> u64 set \<Rightarrow> ('h, 'l, 'p) sys \<Rightarrow> bool" where
  "cinv D G K X s \<longleftrightarrow>
     table_ok D G (tasks (sched s)) \<and> qpu_ok (qpu s) \<and>
     runtime_ok (runtime (qpu s)) (task_map_of D s) \<and> waiting_ok X (task_map_of D s) \<and>
     policy_ok K (task_map_of D s) (policy_desc (sched s)) (policy_state (sched s)) \<and>
     plugins_ok K (plugins (sched s)) (open_handles s)"

definition sched_inv ::
  "('h, 'l, 'q) ds \<Rightarrow> ('h, 'l, 'q) ghost \<Rightarrow> 'p contract \<Rightarrow> ('h, 'l, 'p) sys \<Rightarrow> bool" where
  "sched_inv D G K s \<longleftrightarrow> cinv D G K {} s \<and> lock_free (lock (sched s))"

text \<open>What the internal operations leave alone.\<close>

definition frame :: "('h, 'l, 'p) sys \<Rightarrow> ('h, 'l, 'p) sys \<Rightarrow> bool" where
  "frame s s' \<longleftrightarrow>
     lock (sched s') = lock (sched s) \<and> callbacks (sched s') = callbacks (sched s) \<and>
     plugins (sched s') = plugins (sched s) \<and> policy_desc (sched s') = policy_desc (sched s) \<and>
     threading (sched s') = threading (sched s) \<and> open_handles s' = open_handles s \<and>
     qpu_lock (qpu s') = qpu_lock (qpu s) \<and> refcount (qpu s') = refcount (qpu s) \<and>
     profile (qpu s') = profile (qpu s)"

lemma frame_refl [simp]: "frame s s"
  by (simp add: frame_def)

lemma frame_trans [trans]: "frame s s' \<Longrightarrow> frame s' s'' \<Longrightarrow> frame s s''"
  by (simp add: frame_def)

lemmas upd_defs = upd_tasks_def upd_mem_def upd_policy_def upd_seq_def

lemma sel_upd [simp]:
  "tasks (sched (upd_tasks tt s)) = tt" "qpu (upd_tasks tt s) = qpu s" "env (upd_tasks tt s) = env s"
  "policy_desc (sched (upd_tasks tt s)) = policy_desc (sched s)"
  "policy_state (sched (upd_tasks tt s)) = policy_state (sched s)"
  "plugins (sched (upd_tasks tt s)) = plugins (sched s)" "open_handles (upd_tasks tt s) = open_handles s"
  "lock (sched (upd_tasks tt s)) = lock (sched s)"
  "callbacks (sched (upd_tasks tt s)) = callbacks (sched s)"
  "sched (upd_mem m s) = sched s" "qpu (upd_mem m s) = qpu s" "open_handles (upd_mem m s) = open_handles s"
  "tasks (sched (upd_policy st e s)) = tasks (sched s)" "qpu (upd_policy st e s) = qpu s"
  "env (upd_policy st e s) = e"
  "policy_desc (sched (upd_policy st e s)) = policy_desc (sched s)"
  "policy_state (sched (upd_policy st e s)) = st"
  "plugins (sched (upd_policy st e s)) = plugins (sched s)"
  "open_handles (upd_policy st e s) = open_handles s"
  "lock (sched (upd_policy st e s)) = lock (sched s)"
  "callbacks (sched (upd_policy st e s)) = callbacks (sched s)"
  "tasks (sched (upd_seq q s)) = tasks (sched s)" "qpu (upd_seq q s) = qpu s"
  "env (upd_seq q s) = env s" "policy_desc (sched (upd_seq q s)) = policy_desc (sched s)"
  "policy_state (sched (upd_seq q s)) = policy_state (sched s)"
  "plugins (sched (upd_seq q s)) = plugins (sched s)" "open_handles (upd_seq q s) = open_handles s"
  "threading (sched (upd_tasks tt s)) = threading (sched s)"
  "threading (sched (upd_policy st e s)) = threading (sched s)"
  "threading (sched (upd_seq q s)) = threading (sched s)"
  "enqueue_seq_next (sched (upd_tasks tt s)) = enqueue_seq_next (sched s)"
  "enqueue_seq_next (sched (upd_policy st e s)) = enqueue_seq_next (sched s)"
  "lock (sched (upd_seq q s)) = lock (sched s)" "callbacks (sched (upd_seq q s)) = callbacks (sched s)"
  by (simp_all add: upd_defs)

lemma frame_upd [simp]:
  "frame s (upd_tasks tt s') = frame s s'" "frame s (upd_mem m s') = frame s s'"
  "frame s (upd_policy st e s') = frame s s'" "frame s (upd_seq q s') = frame s s'"
  "frame s (s'\<lparr>env := e\<rparr>) = frame s s'" "frame s (s'\<lparr>qpu := (qpu s')\<lparr>runtime := rt\<rparr>\<rparr>) = frame s s'"
  by (simp_all add: frame_def upd_defs)

lemma frame_upd_qpu [simp]: "frame s s' \<Longrightarrow> frame s (s'\<lparr>qpu := (qpu s)\<lparr>runtime := rt\<rparr>\<rparr>)"
  by (simp add: frame_def)

lemma frame_upd_qpu_same [simp]: "frame s s' \<Longrightarrow> frame s (s'\<lparr>qpu := qpu s\<rparr>)"
  by (simp add: frame_def)

definition enqueued ::
  "('h, 'l, 'q) ds \<Rightarrow> ('h, 'l, 'q) ghost \<Rightarrow>
   ('h, 'l, 'p) sys \<Rightarrow> qhw_sched_task_desc \<Rightarrow> ('h, 'l, 'p) sys \<Rightarrow> bool" where
  "enqueued D G s task s' \<longleftrightarrow>
     task_id task \<noteq> 0 \<and> task_map_of D s (task_id task) = None \<and>
     task_map_of D s' = (task_map_of D s)
       (task_id task \<mapsto> stored_record task (enqueue_seq_next (sched s)) QHW_SCHED_TASK_QUEUED) \<and>
     order_of G s' = order_of G s @ [task_id task] \<and>
     runtime (qpu s') = (runtime (qpu s))\<lparr>queued_count := queued_count (runtime (qpu s)) + 1\<rparr>"

definition unchanged ::
  "('h, 'l, 'q) ds \<Rightarrow> ('h, 'l, 'q) ghost \<Rightarrow>
   ('h, 'l, 'p) sys \<Rightarrow> ('h, 'l, 'p) sys \<Rightarrow> bool" where
  "unchanged D G s s' \<longleftrightarrow> task_map_of D s' = task_map_of D s \<and> order_of G s' = order_of G s \<and>
     runtime (qpu s') = runtime (qpu s)"

primrec grown ::
  "('h, 'l, 'q) ds \<Rightarrow> ('h, 'l, 'q) ghost \<Rightarrow> 'p contract \<Rightarrow>
   u64 set \<Rightarrow> ('h, 'l, 'p) sys \<Rightarrow> qhw_sched_task_desc list \<Rightarrow> ('h, 'l, 'p) sys \<Rightarrow> bool" where
  "grown D G K X s0 [] s = unchanged D G s0 s"
| "grown D G K X s0 (c # cs) s = (\<exists>s1. grown D G K X s0 cs s1 \<and> cinv D G K X s1 \<and> enqueued D G s1 c s)"

definition split_submitted ::
  "('h, 'l, 'q) ds \<Rightarrow> ('h, 'l, 'q) ghost \<Rightarrow>
   ('h, 'l, 'p) sys \<Rightarrow> qhw_sched_task_desc \<Rightarrow> qhw_sched_task_desc list \<Rightarrow> ('h, 'l, 'p) sys \<Rightarrow> bool" where
  "split_submitted D G s parent children s' \<longleftrightarrow>
     task_map_of D s (task_id parent) = None \<and>
     task_map_of D s' (task_id parent) =
       Some ((stored_record parent (enqueue_seq_next (sched s)) QHW_SCHED_TASK_WAITING)
         \<lparr>child_count := of_nat (length children)\<rparr>) \<and>
     (\<forall>c \<in> set children. task_map_of D s (task_id c) = None \<and>
        (\<exists>seq. task_map_of D s' (task_id c) = Some (stored_record c seq QHW_SCHED_TASK_QUEUED))) \<and>
     (\<forall>j. j \<notin> insert (task_id parent) (task_id ` set children) \<longrightarrow>
        task_map_of D s' j = task_map_of D s j) \<and>
     order_of G s' = order_of G s @ task_id parent # map task_id children \<and>
     runtime (qpu s') = (runtime (qpu s))
       \<lparr>queued_count := queued_count (runtime (qpu s)) + of_nat (length children)\<rparr>"

locale scheduler_core = datastructures D G
  for D :: "('h, 'l, 'q) ds" and G :: "('h, 'l, 'q) ghost" +
  fixes K :: "'p contract"
  assumes policies: "good K P \<Longrightarrow> policy_plugin P (pinv K P) (ready K P)"
begin

lemma keyed_table: "table_ok D G tt \<Longrightarrow> keyed (tt_task D tt)"
  by (auto simp: keyed_def finite_tt_task dest: tt_task_id)

lemma cinv_keyed: "cinv D G K X s \<Longrightarrow> keyed (task_map_of D s)"
  by (simp add: cinv_def task_map_of_def keyed_table)

lemma dec0_unqueued:
  "qpu_ok q \<Longrightarrow> qpu_runtime_task_unqueued q =
     Some (q\<lparr>runtime := (runtime q)\<lparr>queued_count := dec0 (queued_count (runtime q))\<rparr>\<rparr>)"
  by (simp add: dec0_def)

text \<open>
  Calls of the active policy. The active descriptor is all zero, or accepted by the contract: then
  the call returns and updates the ready set.
\<close>

lemma policy_submit:
  assumes ok: "policy_ok K T d st" and call: "pd_on_task_submit d = Some f"
    and new: "T (task_id task) = None" "task_id task \<noteq> 0" and r: "state r = QHW_SCHED_TASK_QUEUED"
  shows "succeeds (f st task e) (\<lambda>(rc, st', e').
    policy_ok K (if rc = QHW_SCHED_OK then T(task_id task \<mapsto> r) else T) d st')"
proof -
  obtain p where p: "good K d" "st = Some p" "pinv K d p" "ready K d p = ids_in T QHW_SCHED_TASK_QUEUED"
    using ok call by (auto simp: policy_ok_def zero_plugin_desc_def)
  have "task_id task \<notin> ready K d p" using p new by (simp add: ids_in_None)
  from policy_plugin.submit_law [OF policies [OF p(1)] call p(3) new(2) this, of e] show ?thesis
    unfolding p(2) by (rule succeeds_mono) (auto simp: policy_ok_def p ids_in_upd r)
qed

lemma policy_finished:
  assumes ok: "policy_ok K T d st" and call: "pd_on_task_finished d = Some f"
    and T': "ids_in T' QHW_SCHED_TASK_QUEUED = ids_in T QHW_SCHED_TASK_QUEUED - {tid}"
  shows "succeeds (f st tid ts e) (\<lambda>(rc, st', e'). policy_ok K T' d st')"
proof -
  obtain p where p: "good K d" "st = Some p" "pinv K d p" "ready K d p = ids_in T QHW_SCHED_TASK_QUEUED"
    using ok call by (auto simp: policy_ok_def zero_plugin_desc_def)
  from policy_plugin.finished_law [OF policies [OF p(1)] call p(3), of tid ts e] show ?thesis
    unfolding p(2) by (rule succeeds_mono) (auto simp: policy_ok_def p T')
qed

lemma policy_split:
  assumes ok: "policy_ok K T d st" and call: "pd_get_split_config d = Some f"
  shows "succeeds (f st c e) (\<lambda>(rc, c', st', e'). policy_ok K T d st')"
proof -
  obtain p where p: "good K d" "st = Some p" "pinv K d p" "ready K d p = ids_in T QHW_SCHED_TASK_QUEUED"
    using ok call by (auto simp: policy_ok_def zero_plugin_desc_def)
  from policy_plugin.split_law [OF policies [OF p(1)] call p(3), of c e] show ?thesis
    unfolding p(2) by (rule succeeds_mono) (auto simp: policy_ok_def p)
qed

lemma policy_priority:
  assumes ok: "policy_ok K T d st" and call: "pd_on_task_priority_changed d = Some f"
    and q: "tid \<in> ids_in T QHW_SCHED_TASK_QUEUED"
  shows "succeeds (f st tid v e) (\<lambda>(rc, st', e'). policy_ok K T d st')"
proof -
  obtain p where p: "good K d" "st = Some p" "pinv K d p" "ready K d p = ids_in T QHW_SCHED_TASK_QUEUED"
    using ok call by (auto simp: policy_ok_def zero_plugin_desc_def)
  have "tid \<in> ready K d p" using q p by simp
  from policy_plugin.priority_law [OF policies [OF p(1)] call p(3) this, of v e] show ?thesis
    unfolding p(2) by (rule succeeds_mono) (auto simp: policy_ok_def p)
qed

lemma policy_started:
  assumes ok: "policy_ok K T d st" and call: "pd_on_task_started d = Some f"
    and q: "tid \<notin> ids_in T QHW_SCHED_TASK_QUEUED"
  shows "succeeds (f st tid e) (\<lambda>(rc, st', e'). policy_ok K T d st')"
proof -
  obtain p where p: "good K d" "st = Some p" "pinv K d p" "ready K d p = ids_in T QHW_SCHED_TASK_QUEUED"
    using ok call by (auto simp: policy_ok_def zero_plugin_desc_def)
  have "tid \<notin> ready K d p" using q p by simp
  from policy_plugin.started_law [OF policies [OF p(1)] call p(3) this, of e] show ?thesis
    unfolding p(2) by (rule succeeds_mono) (auto simp: policy_ok_def p)
qed

lemma policy_select:
  assumes ok: "policy_ok K T d st" and call: "pd_select_next d = Some f"
  shows "succeeds (f st a e) (\<lambda>(rc, a', st', e').
    (if rc = QHW_SCHED_OK then as_task_id a' \<in> ids_in T QHW_SCHED_TASK_QUEUED \<and>
       (\<forall>T'. ids_in T' QHW_SCHED_TASK_QUEUED = ids_in T QHW_SCHED_TASK_QUEUED - {as_task_id a'} \<longrightarrow>
          policy_ok K T' d st')
     else policy_ok K T d st') \<and>
    (rc = QHW_SCHED_ERR_NOT_FOUND \<longrightarrow> ids_in T QHW_SCHED_TASK_QUEUED = {}))"
proof -
  obtain p where p: "good K d" "st = Some p" "pinv K d p" "ready K d p = ids_in T QHW_SCHED_TASK_QUEUED"
    using ok call by (auto simp: policy_ok_def zero_plugin_desc_def)
  from policy_plugin.select_law [OF policies [OF p(1)] call p(3), of a e] show ?thesis
    unfolding p(2) by (rule succeeds_mono) (auto simp: policy_ok_def p)
qed

lemma policy_ok_same_queue:
  "policy_ok K T d st \<Longrightarrow> ids_in T' QHW_SCHED_TASK_QUEUED = ids_in T QHW_SCHED_TASK_QUEUED \<Longrightarrow>
   policy_ok K T' d st"
  by (auto simp: policy_ok_def)

lemma policy_inactive:
  assumes "policy_ok K T d st" "\<not> desc_complete d"
  shows "policy_ok K T' d st" "d = zero_plugin_desc" "st = None"
  using assms policy_plugin.complete [OF policies, of d] by (auto simp: policy_ok_def)

lemma policy_fini:
  assumes ok: "policy_ok K T d st" and call: "pd_fini d = Some f"
  shows "succeeds (f st e) (\<lambda>e'. True)"
proof -
  obtain p where p: "good K d" "st = Some p" "pinv K d p"
    using ok call by (auto simp: policy_ok_def zero_plugin_desc_def)
  from policy_plugin.fini_law [OF policies [OF p(1)] call p(3), of e] show ?thesis
    unfolding p(2) by simp
qed

subsection \<open>Queueing\<close>

lemma find_present:
  assumes "table_ok D G tt" "tt_task D tt tid = Some r"
  obtains p where "qhw_task_table_find D tt tid = Some p" "record_read tt p = Some r"
  using assms find_eq_task [OF assms(1), of tid] find_read [OF assms(1), of tid]
  by (metis not_None_eq option.inject)

lemma stored_record_simps [simp]:
  "state (stored_record task seq st) = st" "task_id (desc (stored_record task seq st)) = task_id task"
  "parent_task_id (desc (stored_record task seq st)) = parent_task_id task"
  "child_count (stored_record task seq st) = 0" "outcomes (stored_record task seq st) = 0"
  "enqueue_seq (stored_record task seq st) = seq"
  by (simp_all add: stored_record_def new_task_record_def outcomes_def)

lemma unchanged_refl [simp]: "unchanged D G s s"
  by (simp add: unchanged_def)

lemma unchanged_trans [trans]: "unchanged D G s s' \<Longrightarrow> unchanged D G s' s'' \<Longrightarrow> unchanged D G s s''"
  by (simp add: unchanged_def)

lemma remove1_last: "x \<notin> set xs \<Longrightarrow> remove1 x (xs @ [x]) = xs"
  by (induction xs) auto

lemma enqueue_ok:
  assumes inv: "cinv D G K X s"
  shows "succeeds (enqueue_task_locked D s task) (\<lambda>(rc, s'). cinv D G K X s' \<and> frame s s' \<and>
    (if rc = QHW_SCHED_OK then enqueued D G s task s' else unchanged D G s s'))"
proof -
  let ?tt = "tasks (sched s)" and ?seq = "enqueue_seq_next (sched s)" and ?id = "task_id task"
  let ?rec = "stored_record task ?seq QHW_SCHED_TASK_QUEUED"
  have ok: "table_ok D G ?tt" and q: "qpu_ok (qpu s)" and T: "keyed (tt_task D ?tt)"
    using inv cinv_keyed [OF inv] by (simp_all add: cinv_def task_map_of_def)
  have rt: "runtime_ok (runtime (qpu s)) (tt_task D ?tt)" and w: "waiting_ok X (tt_task D ?tt)"
    and pol: "policy_ok K (tt_task D ?tt) (policy_desc (sched s)) (policy_state (sched s))"
    and reg: "plugins_ok K (plugins (sched s)) (open_handles s)"
    using inv by (simp_all add: cinv_def task_map_of_def)
  from insert_ok [OF ok, of task ?seq "env_mem (env s)"] obtain rc tt' m' where
    ins: "qhw_task_table_insert D ?tt task ?seq (env_mem (env s)) = Some (rc, tt', m')"
    and tt': "table_ok D G tt'"
    and res: "if rc = QHW_SCHED_OK then ?id \<noteq> 0 \<and> tt_task D ?tt ?id = None \<and>
        tt_task D tt' = (tt_task D ?tt)(?id \<mapsto> ?rec) \<and> tt_order G tt' = tt_order G ?tt @ [?id]
      else tt_task D tt' = tt_task D ?tt \<and> tt_order G tt' = tt_order G ?tt"
    by (auto simp: succeeds_iff split: if_splits)
  show ?thesis
  proof (cases "rc = QHW_SCHED_OK")
    case False
    then show ?thesis using ins tt' res q rt w pol reg
      by (simp add: enqueue_task_locked_def Let_def cinv_def unchanged_def task_map_of_def order_of_def)
  next
    case True
    then have id: "?id \<noteq> 0" and new: "tt_task D ?tt ?id = None"
      and task': "tt_task D tt' = (tt_task D ?tt)(?id \<mapsto> ?rec)"
      and order': "tt_order G tt' = tt_order G ?tt @ [?id]" using res by auto
    let ?rt = "(runtime (qpu s))\<lparr>queued_count := queued_count (runtime (qpu s)) + 1\<rparr>"
    have rt': "runtime_ok ?rt (tt_task D tt')"
      unfolding task' by (rule runtime_ok_insert [OF rt T new id]) simp
    have w': "waiting_ok X (tt_task D tt')"
      unfolding task' by (rule waiting_ok_insert [OF w T new]) simp
    show ?thesis
    proof (cases "pd_on_task_submit (policy_desc (sched s))")
      case None
      then have "policy_ok K (tt_task D tt') (policy_desc (sched s)) (policy_state (sched s))"
        using policy_inactive(1) [OF pol] by (simp add: desc_complete_def)
      then show ?thesis using None True ins tt' q rt' w' reg id new task' order'
        by (simp add: enqueue_task_locked_def Let_def cinv_def enqueued_def task_map_of_def order_of_def)
    next
      case (Some f)
      obtain p where find: "qhw_task_table_find D tt' ?id = Some p" "record_read tt' p = Some ?rec"
        using find_present [OF tt', of ?id ?rec] by (auto simp: task')
      let ?d = "desc ?rec"
      from policy_submit [OF pol Some, of ?d ?rec "(env s)\<lparr>env_mem := m'\<rparr>"] obtain rc2 st e where
        call: "f (policy_state (sched s)) ?d ((env s)\<lparr>env_mem := m'\<rparr>) = Some (rc2, st, e)"
        and pol': "policy_ok K (if rc2 = QHW_SCHED_OK then tt_task D tt' else tt_task D ?tt)
          (policy_desc (sched s)) st"
        using new id by (auto simp: succeeds_iff task' cong: if_cong)
      show ?thesis
      proof (cases "rc2 = QHW_SCHED_OK")
        case rc2: True
        then show ?thesis using Some True ins tt' q rt' w' reg id new task' order' find call pol'
          by (simp add: enqueue_task_locked_def Let_def cinv_def enqueued_def task_map_of_def
              order_of_def upd_mem_def)
      next
        case rc2: False
        from remove_ok [OF tt', of ?id] obtain tt'' where
          rem: "qhw_task_table_remove D tt' ?id = Some tt''" and tt'': "table_ok D G tt''"
          and task'': "tt_task D tt'' = (tt_task D tt')(?id := None)"
          and order'': "tt_order G tt'' = remove1 ?id (tt_order G tt')"
          by (auto simp: succeeds_iff)
        have "tt_task D tt'' = tt_task D ?tt" using new by (auto simp: task'' task')
        moreover have "tt_order G tt'' = tt_order G ?tt"
          using new set_tt_order [OF ok] by (auto simp: order'' order' remove1_last domIff)
        moreover have "dec0 (queued_count (runtime (qpu s)) + 1) = queued_count (runtime (qpu s))"
          by (rule dec0_Suc) (rule runtime_ok_room [OF rt T new id])
        ultimately show ?thesis
          using Some True rc2 ins q rt w pol' reg find call rem tt''
          by (simp add: enqueue_task_locked_def Let_def cinv_def unchanged_def task_map_of_def
              order_of_def upd_mem_def dec0_unqueued del: unqueued_eq)
      qed
    qed
  qed
qed

lemma remove_queued_ok:
  assumes inv: "cinv D G K X s" and r: "task_map_of D s tid = Some r" "state r = QHW_SCHED_TASK_QUEUED"
    and par: "parent_task_id (desc r) \<in> X"
  shows "succeeds (remove_queued_task_locked D s tid) (\<lambda>s'. cinv D G K X s' \<and> frame s s' \<and>
    task_map_of D s' = (task_map_of D s)(tid := None) \<and> order_of G s' = remove1 tid (order_of G s) \<and>
    runtime (qpu s') = (runtime (qpu s))\<lparr>queued_count := dec0 (queued_count (runtime (qpu s)))\<rparr>)"
proof -
  let ?tt = "tasks (sched s)" and ?T' = "(task_map_of D s)(tid := None)"
  have T: "keyed (task_map_of D s)" by (rule cinv_keyed) (rule inv)
  have ok: "table_ok D G ?tt" and q: "qpu_ok (qpu s)"
    and rt: "runtime_ok (runtime (qpu s)) (task_map_of D s)" and w: "waiting_ok X (task_map_of D s)"
    and pol: "policy_ok K (task_map_of D s) (policy_desc (sched s)) (policy_state (sched s))"
    and reg: "plugins_ok K (plugins (sched s)) (open_handles s)"
    using inv by (simp_all add: cinv_def)
  have queue: "ids_in ?T' QHW_SCHED_TASK_QUEUED = ids_in (task_map_of D s) QHW_SCHED_TASK_QUEUED - {tid}"
    by (rule ids_in_del)
  from remove_ok [OF ok, of tid] obtain tt' where rem: "qhw_task_table_remove D ?tt tid = Some tt'"
    and tt': "table_ok D G tt'" "tt_task D tt' = ?T'" "tt_order G tt' = remove1 tid (order_of G s)"
    by (auto simp: succeeds_iff task_map_of_def order_of_def)
  have rest: "runtime_ok ((runtime (qpu s))\<lparr>queued_count := dec0 (queued_count (runtime (qpu s)))\<rparr>) ?T'"
    "waiting_ok X ?T'"
    using runtime_ok_delete [OF rt T r] waiting_ok_delete_child [OF w r(1) par] by simp_all
  note facts = rem q reg dec0_unqueued remove_queued_task_locked_def cinv_def
  show ?thesis
  proof (cases "pd_on_task_finished (policy_desc (sched s))")
    case None
    then have "policy_ok K ?T' (policy_desc (sched s)) (policy_state (sched s))"
      using policy_inactive(1) [OF pol] by (simp add: desc_complete_def)
    then show ?thesis using None tt' rest
      by (simp add: facts task_map_of_def order_of_def del: unqueued_eq)
  next
    case (Some f)
    from policy_finished [OF pol Some queue, of QHW_SCHED_TASK_CANCELLED "env s"] show ?thesis
      using Some tt' rest by (auto simp: facts task_map_of_def order_of_def simp del: unqueued_eq elim!: succeeds_mono)
  qed
qed

lemma enqueued_unchanged: "enqueued D G s1 c s \<Longrightarrow> unchanged D G s s' \<Longrightarrow> enqueued D G s1 c s'"
  by (simp add: enqueued_def unchanged_def)

lemma grown_unchanged: "grown D G K X s0 dn s \<Longrightarrow> unchanged D G s s' \<Longrightarrow> grown D G K X s0 dn s'"
  by (cases dn) (auto intro: enqueued_unchanged unchanged_trans)

lemma undo_enqueued:
  assumes inv1: "cinv D G K X s1" and enq: "enqueued D G s1 c s" and inv: "cinv D G K X s"
    and par: "parent_task_id c \<in> X"
  shows "succeeds (remove_queued_task_locked D s (task_id c)) (\<lambda>s'.
    cinv D G K X s' \<and> frame s s' \<and> unchanged D G s1 s')"
proof -
  let ?r = "stored_record c (enqueue_seq_next (sched s1)) QHW_SCHED_TASK_QUEUED"
  have r: "task_map_of D s (task_id c) = Some ?r" using enq by (simp add: enqueued_def)
  have new: "task_map_of D s1 (task_id c) = None" using enq by (simp add: enqueued_def)
  have "task_id c \<notin> set (order_of G s1)"
    using new inv1 by (auto simp: order_of_def cinv_def task_map_of_def set_tt_order)
  moreover have "queued_count (runtime (qpu s1)) \<noteq> UINT64_MAX"
    using inv1 new enq cinv_keyed [OF inv1] runtime_ok_room
    by (auto simp: cinv_def enqueued_def)
  moreover have "(task_map_of D s)(task_id c := None) = task_map_of D s1"
    using enq by (auto simp: enqueued_def)
  ultimately show ?thesis
    using remove_queued_ok [OF inv r] par enq
    by (auto simp: unchanged_def enqueued_def remove1_last dec0_Suc elim!: succeeds_mono)
qed

lemma remove_children_ok:
  assumes "cinv D G K X s" "grown D G K X s0 dn s" "\<forall>c \<in> set dn. parent_task_id c \<in> X"
  shows "succeeds (remove_children D s dn) (\<lambda>s'. cinv D G K X s' \<and> frame s s' \<and> unchanged D G s0 s')"
  using assms
proof (induction dn arbitrary: s)
  case (Cons c dn)
  then obtain s1 where s1: "grown D G K X s0 dn s1" "cinv D G K X s1" "enqueued D G s1 c s" by auto
  have "succeeds (remove_queued_task_locked D s (task_id c)) (\<lambda>s'.
      succeeds (remove_children D s' dn) (\<lambda>s''. cinv D G K X s'' \<and> frame s s'' \<and> unchanged D G s0 s''))"
  proof (rule succeeds_mono [OF undo_enqueued [OF s1(2,3) Cons.prems(1)]])
    fix s'
    assume s': "cinv D G K X s' \<and> frame s s' \<and> unchanged D G s1 s'"
    then have "succeeds (remove_children D s' dn) (\<lambda>s''. cinv D G K X s'' \<and> frame s' s'' \<and> unchanged D G s0 s'')"
      using Cons.IH [of s'] grown_unchanged [OF s1(1)] Cons.prems(3) by auto
    then show "succeeds (remove_children D s' dn) (\<lambda>s''. cinv D G K X s'' \<and> frame s s'' \<and> unchanged D G s0 s'')"
      using s' by (auto elim!: succeeds_mono intro: frame_trans)
  qed (use Cons.prems in auto)
  then show ?case by simp
qed simp

lemma enqueue_children_ok:
  assumes "cinv D G K X s" "grown D G K X s0 dn s" "\<forall>c \<in> set dn \<union> set cs. parent_task_id c \<in> X"
  shows "succeeds (enqueue_children D s dn cs) (\<lambda>(rc, s'). cinv D G K X s' \<and> frame s s' \<and>
    (if rc = QHW_SCHED_OK then grown D G K X s0 (rev cs @ dn) s' else unchanged D G s0 s'))"
  using assms
proof (induction cs arbitrary: s dn)
  case (Cons c cs)
  let ?Q = "\<lambda>s (rc, s'). cinv D G K X s' \<and> frame s s' \<and>
    (if rc = QHW_SCHED_OK then grown D G K X s0 (rev cs @ c # dn) s' else unchanged D G s0 s')"
  have "succeeds (enqueue_task_locked D s c) (\<lambda>(rc, s').
    succeeds (if rc \<noteq> QHW_SCHED_OK then do { s \<leftarrow> remove_children D s' dn; Some (rc, s) }
              else enqueue_children D s' (c # dn) cs) (?Q s))"
  proof (rule succeeds_mono [OF enqueue_ok [OF Cons.prems(1), of c]], clarify)
    fix rc s'
    assume inv: "cinv D G K X s'" and fr: "frame s s'"
      and res: "if rc = QHW_SCHED_OK then enqueued D G s c s' else unchanged D G s s'"
    show "succeeds (if rc \<noteq> QHW_SCHED_OK then do { s \<leftarrow> remove_children D s' dn; Some (rc, s) }
              else enqueue_children D s' (c # dn) cs) (?Q s)"
    proof (cases "rc = QHW_SCHED_OK")
      case True
      then have "grown D G K X s0 (c # dn) s'" using Cons.prems res by auto
      from Cons.IH [OF inv this] Cons.prems(3) have "succeeds (enqueue_children D s' (c # dn) cs) (?Q s')"
        by auto
      then show ?thesis using True fr by (auto elim!: succeeds_mono intro: frame_trans)
    next
      case False
      then have "grown D G K X s0 dn s'" using Cons.prems(2) res by (auto intro: grown_unchanged)
      from remove_children_ok [OF inv this] Cons.prems(3) show ?thesis
        using False fr by (auto elim!: succeeds_mono intro: frame_trans)
    qed
  qed
  then show ?case by (auto simp: case_prod_beta' elim!: succeeds_mono split: if_splits)
qed (auto simp: unchanged_def)

subsection \<open>Split tasks\<close>

lemma grown_children:
  assumes "grown D G K X s0 cs s" "cinv D G K X s0" "\<forall>c \<in> set cs. parent_task_id c = pid"
  shows "keyed (task_map_of D s) \<and> length cs \<le> card (live_children (task_map_of D s) pid) \<and>
    (\<forall>j. j \<notin> task_id ` set cs \<longrightarrow> task_map_of D s j = task_map_of D s0 j) \<and>
    (\<forall>c \<in> set cs. task_map_of D s0 (task_id c) = None \<and>
       (\<exists>seq. task_map_of D s (task_id c) = Some (stored_record c seq QHW_SCHED_TASK_QUEUED))) \<and>
    order_of G s = order_of G s0 @ map task_id (rev cs) \<and>
    runtime (qpu s) = (runtime (qpu s0))
      \<lparr>queued_count := queued_count (runtime (qpu s0)) + of_nat (length cs)\<rparr>"
  using assms
proof (induction cs arbitrary: s)
  case Nil
  then show ?case using cinv_keyed [of X s0] by (auto simp: unchanged_def)
next
  case (Cons c cs)
  then obtain s1 where s1: "grown D G K X s0 cs s1" "enqueued D G s1 c s" by auto
  note IH = Cons.IH [OF s1(1) Cons.prems(2)]
  let ?T1 = "task_map_of D s1" and ?id = "task_id c"
  let ?r = "stored_record c (enqueue_seq_next (sched s1)) QHW_SCHED_TASK_QUEUED"
  have par: "\<forall>c \<in> set cs. parent_task_id c = pid" "parent_task_id c = pid" using Cons.prems(3) by auto
  have T: "task_map_of D s = ?T1(?id \<mapsto> ?r)" "?T1 ?id = None" "?id \<noteq> 0"
    using s1(2) by (auto simp: enqueued_def)
  have new: "?id \<notin> task_id ` set cs" using IH [OF par(1)] T(2) by auto
  then have "task_map_of D s0 ?id = None" using IH [OF par(1)] T(2) by metis
  moreover have key: "keyed (task_map_of D s)" using IH [OF par(1)] T(3) by (simp add: T keyed_upd)
  moreover have "length (c # cs) \<le> card (live_children (task_map_of D s) pid)"
  proof -
    have "live_children (task_map_of D s) pid = insert ?id (live_children ?T1 pid)"
      using par(2) by (simp add: T live_children_upd live_state_def)
    moreover have "?id \<notin> live_children ?T1 pid" by (rule live_children_None) (rule T)
    ultimately show ?thesis using IH [OF par(1)] by simp
  qed
  moreover have "order_of G s = order_of G s0 @ map task_id (rev (c # cs))"
    "runtime (qpu s) = (runtime (qpu s0))
      \<lparr>queued_count := queued_count (runtime (qpu s0)) + of_nat (length (c # cs))\<rparr>"
    using IH [OF par(1)] s1(2) by (simp_all add: enqueued_def algebra_simps)
  moreover have "task_map_of D s j = task_map_of D s0 j" if "j \<notin> task_id ` set (c # cs)" for j
    using that IH [OF par(1)] by (simp add: T)
  moreover have "\<exists>seq. task_map_of D s (task_id d) = Some (stored_record d seq QHW_SCHED_TASK_QUEUED)"
    if "d \<in> set (c # cs)" for d
    using that IH [OF par(1)] new by (auto simp: T)
  ultimately show ?case using IH [OF par(1)] by simp
qed

lemma remove_parent_ok:
  assumes inv: "cinv D G K {pid} s" and r: "task_map_of D s pid = Some r" "state r = QHW_SCHED_TASK_WAITING"
  shows "succeeds (qhw_task_table_remove D (tasks (sched s)) pid) (\<lambda>tt.
    cinv D G K {} (upd_tasks tt s) \<and> task_map_of D (upd_tasks tt s) = (task_map_of D s)(pid := None) \<and>
    order_of G (upd_tasks tt s) = remove1 pid (order_of G s))"
proof -
  let ?T' = "(task_map_of D s)(pid := None)"
  have ok: "table_ok D G (tasks (sched s))" using inv by (simp add: cinv_def)
  have "runtime_ok (runtime (qpu s)) ?T'"
    using runtime_ok_del_waiting [of "runtime (qpu s)" "task_map_of D s" pid r] r inv
    by (simp add: cinv_def)
  moreover have "waiting_ok {} ?T'"
    using waiting_ok_drop_parent [of pid "{}" "task_map_of D s" r] r inv by (simp add: cinv_def)
  moreover have "policy_ok K ?T' (policy_desc (sched s)) (policy_state (sched s))"
    by (rule policy_ok_same_queue [of "task_map_of D s"])
      (use inv r in \<open>simp_all add: cinv_def ids_in_del_keep\<close>)
  ultimately show ?thesis
    using remove_ok [OF ok, of pid] inv
    by (auto simp: cinv_def task_map_of_def order_of_def elim!: succeeds_mono)
qed

lemma submit_split_ok:
  assumes inv: "cinv D G K {} s" and n: "unat n = length children" "0 < length children"
    and par: "\<forall>c \<in> set children. parent_task_id c = task_id parent"
  shows "succeeds (submit_split_task_locked D s parent children n) (\<lambda>(rc, s').
    cinv D G K {} s' \<and> frame s s' \<and>
    (if rc = QHW_SCHED_OK then split_submitted D G s parent children s' else unchanged D G s s'))"
proof -
  let ?pid = "task_id parent" and ?seq = "enqueue_seq_next (sched s)" and ?tt = "tasks (sched s)"
  let ?r = "stored_record parent ?seq QHW_SCHED_TASK_WAITING"
  let ?m = "env_mem (env s)" and ?T = "task_map_of D s"
  let ?s1 = "\<lambda>tt m. upd_mem m (upd_tasks tt (upd_seq (?seq + 1) s))"
  have ok: "table_ok D G ?tt" using inv by (simp add: cinv_def)
  from insert_state_ok [OF ok, of parent ?seq QHW_SCHED_TASK_WAITING ?m] obtain rc tt1 m1 where
    ins: "qhw_task_table_insert_state D ?tt parent ?seq QHW_SCHED_TASK_WAITING ?m = Some (rc, tt1, m1)"
    and tt1: "table_ok D G tt1"
    and res: "if rc = QHW_SCHED_OK then ?pid \<noteq> 0 \<and> ?T ?pid = None \<and>
        tt_task D tt1 = ?T(?pid \<mapsto> ?r) \<and> tt_order G tt1 = order_of G s @ [?pid]
      else tt_task D tt1 = ?T \<and> tt_order G tt1 = order_of G s"
    by (auto simp: succeeds_iff task_map_of_def order_of_def split: if_splits)
  show ?thesis
  proof (cases "rc = QHW_SCHED_OK")
    case False
    then show ?thesis using ins tt1 res inv
      by (auto simp: submit_split_task_locked_def Let_def cinv_def unchanged_def task_map_of_def
          order_of_def)
  next
    case True
    then have id: "?pid \<noteq> 0" and new: "?T ?pid = None" and T1: "tt_task D tt1 = ?T(?pid \<mapsto> ?r)"
      and o1: "tt_order G tt1 = order_of G s @ [?pid]" using res by auto
    obtain p where find: "qhw_task_table_find D tt1 ?pid = Some p" "record_read tt1 p = Some ?r"
      using find_present [OF tt1, of ?pid ?r] by (auto simp: T1)
    let ?r2 = "?r\<lparr>child_count := n\<rparr>"
    from record_write_ok [OF tt1, of ?pid p ?r "\<lambda>r. r\<lparr>child_count := n\<rparr>"] find obtain tt2 where
      wr: "record_write tt1 p (\<lambda>r. r\<lparr>child_count := n\<rparr>) = Some tt2" and tt2: "table_ok D G tt2"
      and T2: "tt_task D tt2 = ?T(?pid \<mapsto> ?r2)" and o2: "tt_order G tt2 = order_of G s @ [?pid]"
      by (auto simp: succeeds_iff qhw_task_table_find_def T1 o1)
    define s2 where "s2 = upd_tasks tt2 (?s1 tt1 m1)"
    have map2: "task_map_of D s2 = ?T(?pid \<mapsto> ?r2)" and ord2: "order_of G s2 = order_of G s @ [?pid]"
      and rt2: "runtime (qpu s2) = runtime (qpu s)" and fr2: "frame s s2"
      by (simp_all add: s2_def task_map_of_def order_of_def T2 o2)
    have "cinv D G K {?pid} s2"
    proof -
      have "runtime_ok (runtime (qpu s)) (?T(?pid \<mapsto> ?r2))" "waiting_ok {?pid} (?T(?pid \<mapsto> ?r2))"
        using inv new waiting_ok_add_parent [of "{}" ?T ?pid ?r2]
        by (auto simp: cinv_def runtime_ok_waiting)
      moreover have "policy_ok K (?T(?pid \<mapsto> ?r2)) (policy_desc (sched s)) (policy_state (sched s))"
        by (rule policy_ok_same_queue [of ?T]) (use inv new in \<open>simp_all add: cinv_def ids_in_keep\<close>)
      ultimately show ?thesis using inv tt2 unfolding cinv_def map2
        by (simp add: s2_def)
    qed
    note inv2 = this
    have "succeeds (enqueue_children D s2 [] children) (\<lambda>(rc, s').
        cinv D G K {?pid} s' \<and> frame s2 s' \<and>
        (if rc = QHW_SCHED_OK then grown D G K {?pid} s2 (rev children) s' else unchanged D G s2 s'))"
      using enqueue_children_ok [OF inv2, of s2 "[]" children] par by (auto elim!: succeeds_mono)
    then obtain rc3 s3 where enq: "enqueue_children D s2 [] children = Some (rc3, s3)"
      and inv3: "cinv D G K {?pid} s3" and fr3: "frame s2 s3"
      and res3: "if rc3 = QHW_SCHED_OK then grown D G K {?pid} s2 (rev children) s3 else unchanged D G s2 s3"
      by (auto simp: succeeds_iff)
    have fr: "frame s s3" using fr2 fr3 by (rule frame_trans)
    have run: "submit_split_task_locked D s parent children n =
      (if rc3 \<noteq> QHW_SCHED_OK then do {
         tt \<leftarrow> qhw_task_table_remove D (tasks (sched s3)) ?pid; Some (rc3, upd_tasks tt s3) }
       else Some (QHW_SCHED_OK, s3))"
      using True ins find wr enq by (simp add: submit_split_task_locked_def Let_def s2_def)
    show ?thesis
    proof (cases "rc3 = QHW_SCHED_OK")
      case False
      then have un: "unchanged D G s2 s3" using res3 by simp
      then have at: "task_map_of D s3 ?pid = Some ?r2" by (simp add: unchanged_def map2)
      have "(task_map_of D s3)(?pid := None) = ?T" using un new by (auto simp: unchanged_def map2)
      moreover have "?pid \<notin> set (order_of G s)"
        using new set_tt_order [OF ok] by (simp add: order_of_def task_map_of_def domIff)
      then have "remove1 ?pid (order_of G s3) = order_of G s"
        using un by (simp add: unchanged_def ord2 remove1_last)
      moreover have "runtime (qpu s3) = runtime (qpu s)" using un by (simp add: unchanged_def rt2)
      ultimately show ?thesis
        using run False fr remove_parent_ok [OF inv3 at] by (auto simp: unchanged_def elim!: succeeds_mono)
    next
      case rc3: True
      then have gr: "grown D G K {?pid} s2 (rev children) s3" using res3 by simp
      note ch = grown_children [OF gr inv2, of ?pid]
      have notpid: "?pid \<notin> task_id ` set children" using ch par by (auto simp: map2)
      then have at: "task_map_of D s3 ?pid = Some ?r2" using ch par by (auto simp: map2)
      have "waiting_ok {} (task_map_of D s3)"
        by (rule waiting_ok_close [of ?pid]) (use inv3 ch par n at in \<open>auto simp: cinv_def outcomes_def
            stored_record_def new_task_record_def\<close>)
      then have "cinv D G K {} s3" using inv3 by (simp add: cinv_def)
      moreover have "split_submitted D G s parent children s3"
      proof -
        have "n = of_nat (length children)" using n(1) by (metis of_nat_unat ucast_id)
        moreover have "task_map_of D s3 j = ?T j" if "j \<notin> insert ?pid (task_id ` set children)" for j
          using that ch par by (simp add: map2)
        moreover have "task_map_of D s2 j = None \<Longrightarrow> ?T j = None" for j
          by (auto simp: map2 split: if_splits)
        ultimately show ?thesis
          using ch par at new by (auto simp: split_submitted_def ord2 rt2)
      qed
      ultimately show ?thesis using run rc3 fr by simp
    qed
  qed
qed

end

end
