(* ===== verification/Sched_Safe.thy ===== *)
theory Sched_Safe
  imports Sched_Core
begin

section \<open>Contracts of the public operations\<close>

text \<open>
  Each public operation, called in a state that satisfies \<^verbatim>\<open>sched_inv\<close>, returns (no undefined
  behaviour, no lock taken twice), restores \<^verbatim>\<open>sched_inv\<close> and changes the abstract state as stated here.
\<close>

subsection \<open>Locking\<close>

definition with_lock :: "qhw_mutex \<Rightarrow> ('h, 'l, 'p) sys \<Rightarrow> ('h, 'l, 'p) sys" where
  "with_lock l s = s\<lparr>sched := (sched s)\<lparr>lock := l\<rparr>\<rparr>"

lemma sel_with_lock [simp]:
  "tasks (sched (with_lock l s)) = tasks (sched s)" "qpu (with_lock l s) = qpu s"
  "env (with_lock l s) = env s" "policy_desc (sched (with_lock l s)) = policy_desc (sched s)"
  "policy_state (sched (with_lock l s)) = policy_state (sched s)"
  "plugins (sched (with_lock l s)) = plugins (sched s)" "open_handles (with_lock l s) = open_handles s"
  "lock (sched (with_lock l s)) = l" "callbacks (sched (with_lock l s)) = callbacks (sched s)"
  "threading (sched (with_lock l s)) = threading (sched s)"
  "enqueue_seq_next (sched (with_lock l s)) = enqueue_seq_next (sched s)"
  by (simp_all add: with_lock_def)

lemma with_lock_twice [simp]: "with_lock l (with_lock l' s) = with_lock l s"
  by (simp add: with_lock_def)

lemma view_with_lock [simp]:
  "task_map_of D (with_lock l s) = task_map_of D s" "order_of G (with_lock l s) = order_of G s"
  "cinv D G K X (with_lock l s) = cinv D G K X s"
  "policy_is_active (with_lock l s) = policy_is_active s"
  by (simp_all add: task_map_of_def order_of_def cinv_def policy_is_active_def)

lemma view_upd [simp]:
  "task_map_of D (upd_policy st e s) = task_map_of D s" "order_of G (upd_policy st e s) = order_of G s"
  "task_map_of D (upd_tasks tt s) = tt_task D tt" "order_of G (upd_tasks tt s) = tt_order G tt"
  "task_map_of D (s\<lparr>qpu := q\<rparr>) = task_map_of D s" "order_of G (s\<lparr>qpu := q\<rparr>) = order_of G s"
  "task_map_of D (s\<lparr>env := e\<rparr>) = task_map_of D s" "order_of G (s\<lparr>env := e\<rparr>) = order_of G s"
  "task_map_of D (upd_mem m s) = task_map_of D s" "order_of G (upd_mem m s) = order_of G s"
  by (simp_all add: task_map_of_def order_of_def)

lemma upd_tasks_twice [simp]: "upd_tasks tt (upd_tasks tt' s) = upd_tasks tt s"
  by (simp add: upd_tasks_def)

lemma cinv_env [simp]: "cinv D G K X (s\<lparr>env := e\<rparr>) = cinv D G K X s" "cinv D G K X (upd_mem m s) = cinv D G K X s"
  by (simp_all add: cinv_def task_map_of_def)

lemma sched_lock_ok: "lock_free (lock (sched s)) \<Longrightarrow> sched_lock s = Some (with_lock (locked (lock (sched s))) s)"
  by (simp add: sched_lock_def with_lock_def)

lemma sched_unlock_ok:
  "lock_free l \<Longrightarrow> lock (sched s) = locked l \<Longrightarrow> sched_unlock s = Some (with_lock l s)"
  by (simp add: sched_unlock_def with_lock_def)

lemma unlock_return_ok:
  "lock_free l \<Longrightarrow> lock (sched s) = locked l \<Longrightarrow> unlock_return r s = Some (r, with_lock l s)"
  by (simp add: unlock_return_def sched_unlock_ok)

lemma frame_with_lock [simp]:
  "frame (with_lock l s) s' \<Longrightarrow> frame s (with_lock (lock (sched s)) s')"
  by (simp add: frame_def)

lemma sched_inv_free [simp]: "sched_inv D G K s \<Longrightarrow> lock_free (lock (sched s))"
  by (simp add: sched_inv_def)

text \<open>Entering with the lock and leaving through the unlock.\<close>

abbreviation (input) entered :: "('h, 'l, 'p) sys \<Rightarrow> ('h, 'l, 'p) sys" where
  "entered s \<equiv> with_lock (locked (lock (sched s))) s"

lemma enter: "sched_inv D G K s \<Longrightarrow> sched_lock s = Some (entered s)"
  by (simp add: sched_lock_ok sched_inv_def)

lemma leave:
  assumes "sched_inv D G K s" "frame (entered s) s1" "cinv D G K {} s1"
  shows "unlock_return r s1 = Some (r, with_lock (lock (sched s)) s1)"
    "sched_inv D G K (with_lock (lock (sched s)) s1)" "frame s (with_lock (lock (sched s)) s1)"
proof -
  have "lock (sched s1) = locked (lock (sched s))" using assms(2) by (simp add: frame_def)
  then show "unlock_return r s1 = Some (r, with_lock (lock (sched s)) s1)"
    "sched_inv D G K (with_lock (lock (sched s)) s1)" "frame s (with_lock (lock (sched s)) s1)"
    using assms by (simp_all add: unlock_return_ok sched_inv_def)
qed

lemma leave_succeeds:
  assumes "sched_inv D G K s" "frame (entered s) s1" "cinv D G K {} s1"
    "P r (with_lock (lock (sched s)) s1)"
  shows "succeeds (unlock_return r s1) (\<lambda>(r, s'). sched_inv D G K s' \<and> frame s s' \<and> P r s')"
  using assms(4) by (simp add: leave [OF assms(1-3)])

lemma with_lock_self [simp]: "with_lock (lock (sched s)) s = s"
  by (simp add: with_lock_def)

lemma leave_same: "sched_inv D G K s \<Longrightarrow> unlock_return r (entered s) = Some (r, s)"
  by (simp add: unlock_return_ok [of "lock (sched s)"])

text \<open>A normal form for sequences of updates.\<close>

lemma sys_norm:
  "(upd_tasks tt s)\<lparr>qpu := q\<rparr> = upd_tasks tt (s\<lparr>qpu := q\<rparr>)"
  "(upd_policy st e s)\<lparr>qpu := q\<rparr> = upd_policy st e (s\<lparr>qpu := q\<rparr>)"
  "upd_tasks tt (upd_policy st e s) = upd_policy st e (upd_tasks tt s)"
  by (simp_all add: upd_defs)

lemma upd_qpu_self [simp]: "qpu s = q \<Longrightarrow> s\<lparr>qpu := q\<rparr> = s"
  by auto

definition finish_effect ::
  "('h, 'l, 'q) ds \<Rightarrow> ('h, 'l, 'q) ghost \<Rightarrow>
   ('h, 'l, 'p) sys \<Rightarrow> u64 \<Rightarrow> qhw_task_record \<Rightarrow> qhw_sched_task_state \<Rightarrow> ('h, 'l, 'p) sys \<Rightarrow> bool" where
  "finish_effect D G s tid r st s' \<longleftrightarrow>
     task_map_of D s' =
       parent_step ((task_map_of D s)(tid \<mapsto> r\<lparr>state := st\<rparr>)) (r\<lparr>state := st\<rparr>) st \<and>
     order_of G s' = order_of G s \<and>
     runtime (qpu s') = finished_runtime
       (if state r = QHW_SCHED_TASK_QUEUED
        then (runtime (qpu s))\<lparr>queued_count := dec0 (queued_count (runtime (qpu s)))\<rparr>
        else runtime (qpu s)) tid st"

definition start_allowed :: "('h, 'l, 'p) sys \<Rightarrow> qhw_task_record \<Rightarrow> bool" where
  "start_allowed s r \<longleftrightarrow> state r = QHW_SCHED_TASK_ASSIGNED \<or>
     state r = QHW_SCHED_TASK_QUEUED \<and> \<not> policy_is_active s"

text \<open>What the policy answers to a start notification: OK when it has no such callback, else what the callback returns.\<close>

definition start_answer :: "('h, 'l, 'p) sys \<Rightarrow> u64 \<Rightarrow> qhw_sched_rc option" where
  "start_answer s tid = (case pd_on_task_started (policy_desc (sched s)) of
     None \<Rightarrow> Some QHW_SCHED_OK
   | Some f \<Rightarrow> map_option fst (f (policy_state (sched s)) tid (env s)))"

definition selected ::
  "('h, 'l, 'q) ds \<Rightarrow> ('h, 'l, 'p) sys \<Rightarrow> qhw_sched_assignment \<Rightarrow> ('h, 'l, 'p) sys \<Rightarrow> bool" where
  "selected D s a s' \<longleftrightarrow> (\<exists>r. task_map_of D s (as_task_id a) = Some r \<and>
     state r = QHW_SCHED_TASK_QUEUED \<and>
     a = fill_assignment_from_record (r\<lparr>state := QHW_SCHED_TASK_ASSIGNED\<rparr>) \<and>
     task_map_of D s' =
       (task_map_of D s)(as_task_id a \<mapsto> r\<lparr>state := QHW_SCHED_TASK_ASSIGNED\<rparr>) \<and>
     runtime (qpu s') = (runtime (qpu s))\<lparr>queued_count := dec0 (queued_count (runtime (qpu s)))\<rparr>)"

context scheduler_core
begin

lemma unchanged_with_lock [simp]:
  "unchanged D G (with_lock l s) s' = unchanged D G s s'" "unchanged D G s (with_lock l s') = unchanged D G s s'"
  by (simp_all add: unchanged_def)

subsection \<open>Parent aggregation and split configuration\<close>

lemma update_parent_ok:
  assumes ok: "table_ok D G (tasks (sched s))"
  shows "succeeds (update_parent_after_child_locked D s child st) (\<lambda>s'. \<exists>tt. s' = upd_tasks tt s \<and>
    table_ok D G tt \<and> tt_task D tt = parent_step (task_map_of D s) child st \<and>
    tt_order G tt = order_of G s)"
proof -
  let ?pid = "parent_task_id (desc child)" and ?tt = "tasks (sched s)" and ?T = "task_map_of D s"
  have same: "upd_tasks ?tt s = s" by (simp add: upd_tasks_def)
  have key: "keyed ?T" using ok by (simp add: task_map_of_def keyed_table)
  show ?thesis
  proof (cases "map_option state (?T ?pid) = Some QHW_SCHED_TASK_WAITING")
    case False
    then have "parent_step ?T child st = ?T" by (auto simp: parent_step_def split: option.splits)
    moreover have "update_parent_after_child_locked D s child st = Some s"
    proof (cases "?T ?pid")
      case None
      then have "qhw_task_table_find D ?tt ?pid = None"
        using find_eq_task [OF ok] by (simp add: task_map_of_def)
      then show ?thesis by (simp add: update_parent_after_child_locked_def)
    next
      case (Some r)
      then obtain p where "qhw_task_table_find D ?tt ?pid = Some p" "record_read ?tt p = Some r"
        using find_present [OF ok, of ?pid r] by (auto simp: task_map_of_def)
      moreover have "state r \<noteq> QHW_SCHED_TASK_WAITING" using False Some by simp
      ultimately show ?thesis by (simp add: update_parent_after_child_locked_def)
    qed
    moreover have "tt_task D ?tt = ?T" "tt_order G ?tt = order_of G s"
      by (simp_all add: task_map_of_def order_of_def)
    ultimately show ?thesis using ok same by (simp only: succeeds_Some) metis
  next
    case True
    then obtain r where r: "?T ?pid = Some r" "state r = QHW_SCHED_TASK_WAITING" by auto
    then have nz: "?pid \<noteq> 0" and id: "task_id (desc r) = ?pid" using key by (auto simp: keyed_def)
    obtain p where p: "qhw_task_table_find D ?tt ?pid = Some p" "record_read ?tt p = Some r"
      using find_present [OF ok, of ?pid r] r by (auto simp: task_map_of_def)
    let ?r = "count_outcome r st"
    from record_write_ok [OF ok, of ?pid p r "\<lambda>_. ?r"] p r id obtain tt1 where
      wr: "record_write ?tt p (\<lambda>_. ?r) = Some tt1" and tt1: "table_ok D G tt1"
      "tt_task D tt1 = ?T(?pid \<mapsto> ?r)" "tt_order G tt1 = order_of G s"
      by (auto simp: succeeds_iff qhw_task_table_find_def task_map_of_def order_of_def)
    show ?thesis
    proof (cases "completed_child_count ?r + failed_child_count ?r + cancelled_child_count ?r < child_count ?r")
      case True
      then have "update_parent_after_child_locked D s child st = Some (upd_tasks tt1 s)"
        using nz p r wr by (simp add: update_parent_after_child_locked_def Let_def flip: count_outcome_def)
      moreover have "parent_step ?T child st = ?T(?pid \<mapsto> ?r)"
        using r True by (simp add: parent_step_def parent_after_def)
      ultimately show ?thesis using tt1 by auto
    next
      case False
      let ?r' = "?r\<lparr>state := aggregate_state ?r\<rparr>"
      from set_state_ok [OF tt1(1), of ?pid "aggregate_state ?r"] obtain rc tt2 where
        st2: "qhw_task_table_set_state D tt1 ?pid (aggregate_state ?r) = Some (rc, tt2)"
        and tt2: "table_ok D G tt2" "tt_task D tt2 = ?T(?pid \<mapsto> ?r')" "tt_order G tt2 = order_of G s"
        using tt1 by (auto simp: succeeds_iff)
      then have "update_parent_after_child_locked D s child st = Some (upd_tasks tt2 s)"
        using nz p r wr False id
        by (simp add: update_parent_after_child_locked_def Let_def flip: count_outcome_def aggregate_state_def)
      moreover have "parent_step ?T child st = ?T(?pid \<mapsto> ?r')"
        using r False by (simp add: parent_step_def parent_after_def Let_def)
      ultimately show ?thesis using tt2 by auto
    qed
  qed
qed

lemma compute_split_ok:
  assumes inv: "cinv D G K X s"
  shows "succeeds (compute_split_config s task) (\<lambda>(rc, config, should, s').
    cinv D G K X s' \<and> frame s s' \<and> unchanged D G s s' \<and> enqueue_seq_next (sched s') = enqueue_seq_next (sched s) \<and>
    tasks (sched s') = tasks (sched s) \<and>
    (should \<longrightarrow> (\<exists>c0. split_decision (metadata task) (qp_metadata (profile (qpu s)))
        (\<not> Option.is_none (split_task (callbacks (sched s)))) c0 = (rc, config, True))))"
proof -
  have pol: "policy_ok K (task_map_of D s) (policy_desc (sched s)) (policy_state (sched s))"
    using inv by (simp add: cinv_def)
  show ?thesis
  proof (cases "pd_get_split_config (policy_desc (sched s))")
    case None
    then show ?thesis using inv
      by (auto simp: compute_split_config_def get_policy_split_config_def split: prod.splits)
  next
    case (Some f)
    from policy_split [OF pol Some, of qhw_sched_split_config_init "env s"] obtain rc c st e where
      call: "f (policy_state (sched s)) qhw_sched_split_config_init (env s) = Some (rc, c, st, e)"
      and pol': "policy_ok K (task_map_of D s) (policy_desc (sched s)) st"
      by (auto simp: succeeds_iff)
    have "cinv D G K X (upd_policy st e s)" using inv pol' by (simp add: cinv_def)
    moreover have "frame s (upd_policy st e s)" "unchanged D G s (upd_policy st e s)"
      by (simp_all add: unchanged_def)
    ultimately show ?thesis using Some call
      by (auto simp: compute_split_config_def get_policy_split_config_def upd_policy_def split: prod.splits)
  qed
qed

subsection \<open>Finishing a task\<close>

lemma runtime_ok_parent_step: "runtime_ok rt T \<Longrightarrow> runtime_ok rt (parent_step T child st)"
proof (cases "map_option state (T (parent_task_id (desc child))) = Some QHW_SCHED_TASK_WAITING")
  case True
  assume "runtime_ok rt T"
  moreover from True obtain r where "T (parent_task_id (desc child)) = Some r"
    "state r = QHW_SCHED_TASK_WAITING" by auto
  ultimately show ?thesis
    by (auto simp: parent_step_def parent_after_def Let_def aggregate_state_def intro!: runtime_ok_neither)
qed (auto simp: parent_step_def split: option.splits)

lemma queue_parent_step:
  "ids_in (parent_step T child st) QHW_SCHED_TASK_QUEUED = ids_in T QHW_SCHED_TASK_QUEUED"
  by (auto simp: parent_step_def parent_after_def Let_def aggregate_state_def ids_in_keep
      split: option.splits)

lemma live_or:
  assumes "runtime_ok rt T" "T i = Some r"
  shows "live_state (state r) \<longleftrightarrow> \<not> task_state_is_terminal (state r) \<and> state r \<noteq> QHW_SCHED_TASK_WAITING"
proof -
  have "state r \<noteq> QHW_SCHED_TASK_UNKNOWN"
    using assms ids_in_iff [of T i r QHW_SCHED_TASK_UNKNOWN] by (simp add: runtime_ok_def)
  then show ?thesis by (cases "state r") (simp_all add: live_state_def task_state_is_terminal_def)
qed

lemma notify_finished:
  assumes pol: "policy_ok K T (policy_desc (sched s)) (policy_state (sched s))"
    and queue: "ids_in T' QHW_SCHED_TASK_QUEUED = ids_in T QHW_SCHED_TASK_QUEUED - {tid}"
  shows "succeeds (case pd_on_task_finished (policy_desc (sched s)) of
      None \<Rightarrow> Some (QHW_SCHED_OK, s)
    | Some f \<Rightarrow> do {
        (rc, pst, e) \<leftarrow> f (policy_state (sched s)) tid st (env s);
        Some (rc, upd_policy pst e s)
      }) (\<lambda>(rc, s'). \<exists>ps e. policy_ok K T' (policy_desc (sched s)) ps \<and> s' = upd_policy ps e s)"
proof (cases "pd_on_task_finished (policy_desc (sched s))")
  case None
  then have "policy_ok K T' (policy_desc (sched s)) (policy_state (sched s))"
    using policy_inactive(1) [OF pol] by (simp add: desc_complete_def)
  moreover have "s = upd_policy (policy_state (sched s)) (env s) s" by (simp add: upd_policy_def)
  ultimately show ?thesis using None by auto
next
  case (Some f)
  from policy_finished [OF pol Some queue, of st "env s"] show ?thesis
    using Some by (auto elim!: succeeds_mono) blast
qed

text \<open>The abstract effect of finishing task \<^verbatim>\<open>tid\<close> with record \<^verbatim>\<open>r\<close> in the state \<^verbatim>\<open>st\<close>.\<close>

lemma finish_accepted:
  assumes inv: "sched_inv D G K s" and r: "task_map_of D s tid = Some r" "live_state (state r)"
    and st: "task_state_is_terminal st" "st = QHW_SCHED_TASK_COMPLETED \<Longrightarrow> state r = QHW_SCHED_TASK_RUNNING"
  shows "succeeds (finish_task D False s tid st) (\<lambda>(rc, s').
    sched_inv D G K s' \<and> frame s s' \<and> finish_effect D G s tid r st s')"
proof -
  let ?T = "task_map_of D s" and ?tt = "tasks (sched s)" and ?r = "r\<lparr>state := st\<rparr>"
  let ?T1 = "?T(tid \<mapsto> ?r)"
  let ?T2 = "parent_step ?T1 ?r st" and ?d = "policy_desc (sched s)" and ?ps = "policy_state (sched s)"
  let ?rt0 = "if state r = QHW_SCHED_TASK_QUEUED
    then (runtime (qpu s))\<lparr>queued_count := dec0 (queued_count (runtime (qpu s)))\<rparr> else runtime (qpu s)"
  let ?rt = "finished_runtime ?rt0 tid st"
  have ci: "cinv D G K {} s" using inv by (simp add: sched_inv_def)
  then have ok: "table_ok D G ?tt" and q: "qpu_ok (qpu s)" and key: "keyed ?T"
    and rt: "runtime_ok (runtime (qpu s)) ?T" and w: "waiting_ok {} ?T" and pol: "policy_ok K ?T ?d ?ps"
    using cinv_keyed by (simp_all add: cinv_def)
  have st': "st \<notin> {QHW_SCHED_TASK_QUEUED, QHW_SCHED_TASK_RUNNING, QHW_SCHED_TASK_UNKNOWN}"
    using st(1) by (auto simp: task_state_is_terminal_def)
  obtain p where p: "qhw_task_table_find D ?tt tid = Some p" "record_read ?tt p = Some r"
    using find_present [OF ok, of tid r] r by (auto simp: task_map_of_def)
  from set_state_ok [OF ok, of tid st] obtain tt1 where
    set1: "qhw_task_table_set_state D ?tt tid st = Some (QHW_SCHED_OK, tt1)" and tt1: "table_ok D G tt1"
    "tt_task D tt1 = ?T1" "tt_order G tt1 = order_of G s" "by_id tt1 = by_id ?tt"
    using r by (auto simp: succeeds_iff task_map_of_def order_of_def)
  have read1: "record_read tt1 p = Some ?r"
    using find_read [OF tt1(1), of tid p] p tt1 by (auto simp: qhw_task_table_find_def)
  let ?s1 = "(upd_tasks tt1 (entered s))\<lparr>qpu := (qpu s)\<lparr>runtime := ?rt\<rparr>\<rparr>"
  from update_parent_ok [of ?s1 ?r st] obtain tt2 where
    upd: "update_parent_after_child_locked D ?s1 ?r st = Some (upd_tasks tt2 ?s1)"
    and tt2: "table_ok D G tt2" "tt_task D tt2 = ?T2" "tt_order G tt2 = order_of G s"
    using tt1 by (auto simp: succeeds_iff)
  have queue: "ids_in ?T2 QHW_SCHED_TASK_QUEUED = ids_in ?T QHW_SCHED_TASK_QUEUED - {tid}"
    using st' by (simp add: queue_parent_step ids_in_upd)
  have rt2: "runtime_ok ?rt ?T2"
  proof (rule runtime_ok_parent_step, cases "state r = QHW_SCHED_TASK_QUEUED")
    case True
    then show "runtime_ok ?rt ?T1" using runtime_ok_finish_queued [OF rt key r(1), of ?r st] st' by simp
  next
    case False
    then show "runtime_ok ?rt ?T1" using runtime_ok_finish [OF rt key r(1), of ?r st] st' by simp
  qed
  have w2: "waiting_ok {} ?T2" by (rule waiting_ok_finish [OF w key r st(1)])
  define s2 where "s2 = upd_tasks tt2 ?s1"
  have s2: "policy_desc (sched s2) = ?d" "policy_state (sched s2) = ?ps" by (simp_all add: s2_def)
  have v: "task_map_of D s2 = ?T2" "order_of G s2 = order_of G s" "runtime (qpu s2) = ?rt"
    using tt2 by (simp_all add: s2_def)
  have inv2: "frame (entered s) (upd_policy ps e s2)" "cinv D G K {} (upd_policy ps e s2)"
    if "policy_ok K ?T2 ?d ps" for ps e
    using that ci tt2 rt2 w2 q by (simp_all add: cinv_def frame_def s2_def)
  have guards: "\<not> task_state_is_terminal (state r)" "state r \<noteq> QHW_SCHED_TASK_WAITING"
    "\<not> (st = QHW_SCHED_TASK_COMPLETED \<and> state r \<noteq> QHW_SCHED_TASK_RUNNING)"
    using live_or [OF rt r(1)] r(2) st(2) by auto
  define notify where "notify = (case pd_on_task_finished (policy_desc (sched s2)) of
      None \<Rightarrow> Some (QHW_SCHED_OK, s2)
    | Some f \<Rightarrow> do {
        (rc, pst, e) \<leftarrow> f (policy_state (sched s2)) tid st (env s2);
        Some (rc, upd_policy pst e s2)
      })"
  have run: "finish_task D False s tid st = do {
      (nrc, s') \<leftarrow> notify;
      unlock_return (if nrc \<noteq> QHW_SCHED_OK then nrc else QHW_SCHED_OK) s' }"
    using enter [OF inv] p guards set1 read1 upd q
    by (cases "state r = QHW_SCHED_TASK_QUEUED")
      (simp_all add: finish_task_def Let_def notify_def s2_def dec0_unqueued
        del: unqueued_eq de_Morgan_conj split: option.split)
  have "succeeds notify (\<lambda>(nrc, s'). \<exists>ps e. policy_ok K ?T2 ?d ps \<and> s' = upd_policy ps e s2)"
    using notify_finished [of ?T s2 ?T2 tid st] pol queue by (simp add: notify_def s2)
  then obtain nrc ps e where n: "notify = Some (nrc, upd_policy ps e s2)" "policy_ok K ?T2 ?d ps"
    by (auto simp: succeeds_iff)
  show ?thesis
    by (simp add: run n finish_effect_def v leave [OF inv inv2 [OF n(2)]])
qed

lemma lookup_none:
  "sched_inv D G K s \<Longrightarrow> task_map_of D s tid = None \<Longrightarrow> qhw_task_table_find D (tasks (sched s)) tid = None"
  by (simp add: sched_inv_def cinv_def task_map_of_def find_eq_task)

lemma lookup_some:
  assumes "sched_inv D G K s" "task_map_of D s tid = Some r"
  obtains p where "qhw_task_table_find D (tasks (sched s)) tid = Some p" "record_read (tasks (sched s)) p = Some r"
  using assms find_present [of "tasks (sched s)" tid r] by (auto simp: sched_inv_def cinv_def task_map_of_def)

lemma finish_rejected:
  assumes inv: "sched_inv D G K s" and r: "task_map_of D s tid = Some r"
    and rej: "\<not> live_state (state r) \<or> st = QHW_SCHED_TASK_COMPLETED \<and> state r \<noteq> QHW_SCHED_TASK_RUNNING"
  shows "finish_task D False s tid st = Some (QHW_SCHED_ERR_STATE, s)"
proof -
  obtain p where p: "qhw_task_table_find D (tasks (sched s)) tid = Some p"
    "record_read (tasks (sched s)) p = Some r" by (rule lookup_some [OF inv r])
  have "runtime_ok (runtime (qpu s)) (task_map_of D s)" using inv by (simp add: sched_inv_def cinv_def)
  then have "task_state_is_terminal (state r) \<or> state r = QHW_SCHED_TASK_WAITING \<or>
      st = QHW_SCHED_TASK_COMPLETED \<and> state r \<noteq> QHW_SCHED_TASK_RUNNING"
    using rej live_or [of _ "task_map_of D s" tid r] r by blast
  then show ?thesis using p by (auto simp: finish_task_def enter [OF inv] leave_same [OF inv])
qed

lemma finish_missing:
  assumes inv: "sched_inv D G K s" and r: "task_map_of D s tid = None"
  shows "finish_task D False s tid st = Some (QHW_SCHED_ERR_NOT_FOUND, s)"
  using lookup_none [OF assms] by (simp add: finish_task_def enter [OF inv] leave_same [OF inv])

subsection \<open>Starting a task\<close>

lemma start_rejected:
  assumes inv: "sched_inv D G K s" and r: "task_map_of D s tid = Some r"
    and rej: "\<not> start_allowed s r \<or> running_task_id (runtime (qpu s)) \<noteq> 0"
  shows "qhw_sched_task_started D False s tid = Some (QHW_SCHED_ERR_STATE, s)"
proof -
  obtain p where p: "qhw_task_table_find D (tasks (sched s)) tid = Some p"
    "record_read (tasks (sched s)) p = Some r" by (rule lookup_some [OF inv r])
  have "qpu_ok (qpu s)" using inv by (simp add: sched_inv_def cinv_def)
  then show ?thesis using p rej
    by (auto simp: qhw_sched_task_started_def start_allowed_def enter [OF inv] leave_same [OF inv] Let_def)
qed

lemma start_missing:
  assumes inv: "sched_inv D G K s" and r: "task_map_of D s tid = None"
  shows "qhw_sched_task_started D False s tid = Some (QHW_SCHED_ERR_NOT_FOUND, s)"
  using lookup_none [OF assms] by (simp add: qhw_sched_task_started_def enter [OF inv] leave_same [OF inv])

lemma not_active_zero:
  assumes "policy_ok K T (policy_desc (sched s)) ps" "\<not> policy_is_active s"
  shows "policy_desc (sched s) = zero_plugin_desc" "ps = None" "policy_ok K T' (policy_desc (sched s)) ps"
proof -
  have "\<not> desc_complete (policy_desc (sched s))"
    using assms(2) by (simp add: policy_is_active_def desc_complete_def Option.is_none_def)
  then show "policy_desc (sched s) = zero_plugin_desc" "ps = None"
    "policy_ok K T' (policy_desc (sched s)) ps"
    using policy_inactive [OF assms(1)] by simp_all
qed

lemma start_accepted:
  assumes inv: "sched_inv D G K s" and r: "task_map_of D s tid = Some r" "start_allowed s r"
    and idle: "running_task_id (runtime (qpu s)) = 0"
  shows "succeeds (qhw_sched_task_started D False s tid) (\<lambda>(rc, s').
    sched_inv D G K s' \<and> frame s s' \<and> order_of G s' = order_of G s \<and>
    start_answer s tid = Some rc \<and> (\<not> policy_is_active s \<longrightarrow> rc = QHW_SCHED_OK) \<and>
    (if rc = QHW_SCHED_OK
     then task_map_of D s' = (task_map_of D s)(tid \<mapsto> r\<lparr>state := QHW_SCHED_TASK_RUNNING\<rparr>) \<and>
       runtime (qpu s') = (runtime (qpu s))\<lparr>running_task_id := tid,
         queued_count := (if state r = QHW_SCHED_TASK_QUEUED then dec0 (queued_count (runtime (qpu s)))
                          else queued_count (runtime (qpu s)))\<rparr>
     else task_map_of D s' = task_map_of D s \<and> runtime (qpu s') = runtime (qpu s)))"
proof -
  let ?T = "task_map_of D s" and ?tt = "tasks (sched s)" and ?r = "r\<lparr>state := QHW_SCHED_TASK_RUNNING\<rparr>"
  let ?T1 = "?T(tid \<mapsto> ?r)" and ?d = "policy_desc (sched s)" and ?ps = "policy_state (sched s)"
  let ?rt = "runtime (qpu s)"
  have ci: "cinv D G K {} s" using inv by (simp add: sched_inv_def)
  then have ok: "table_ok D G ?tt" and q: "qpu_ok (qpu s)" and key: "keyed ?T"
    and rt: "runtime_ok ?rt ?T" and w: "waiting_ok {} ?T" and pol: "policy_ok K ?T ?d ?ps"
    and reg: "plugins_ok K (plugins (sched s)) (open_handles s)"
    using cinv_keyed by (simp_all add: cinv_def)
  obtain p where p: "qhw_task_table_find D ?tt tid = Some p" "record_read ?tt p = Some r"
    by (rule lookup_some [OF inv r(1)])
  from set_state_ok [OF ok, of tid QHW_SCHED_TASK_RUNNING] obtain tt1 where
    set1: "qhw_task_table_set_state D ?tt tid QHW_SCHED_TASK_RUNNING = Some (QHW_SCHED_OK, tt1)"
    and tt1: "table_ok D G tt1" "tt_task D tt1 = ?T1" "tt_order G tt1 = order_of G s"
    using r by (auto simp: succeeds_iff task_map_of_def order_of_def)
  from set_state_ok [OF tt1(1), of tid "state r"] obtain tt2 where
    set2: "qhw_task_table_set_state D tt1 tid (state r) = Some (QHW_SCHED_OK, tt2)"
    and tt2: "table_ok D G tt2" "tt_task D tt2 = ?T" "tt_order G tt2 = order_of G s"
    using r tt1 by (auto simp: succeeds_iff fun_upd_idem)
  have w1: "waiting_ok {} ?T1"
    using waiting_ok_keep [OF w r(1), of ?r] r(2) by (auto simp: start_allowed_def live_state_def)
  show ?thesis
  proof (cases "policy_is_active s")
    case False
    note zero = not_active_zero [OF pol False]
    let ?rt' = "?rt\<lparr>running_task_id := tid, queued_count := (if state r = QHW_SCHED_TASK_QUEUED
        then dec0 (queued_count ?rt) else queued_count ?rt)\<rparr>"
    let ?s1 = "(upd_tasks tt1 (entered s))\<lparr>qpu := (qpu s)\<lparr>runtime := ?rt'\<rparr>\<rparr>"
    have "runtime_ok ?rt' ?T1"
      using runtime_ok_start [OF rt key r(1)] runtime_ok_start_queued [OF rt key r(1)] r(2) idle
      by (auto simp: start_allowed_def)
    then have "cinv D G K {} ?s1" "frame (entered s) ?s1"
      using ci tt1 w1 q zero(3) [of ?T1] by (simp_all add: cinv_def frame_def)
    note lv = leave_succeeds [OF inv this(2,1)]
    have run: "qhw_sched_task_started D False s tid = unlock_return QHW_SCHED_OK ?s1"
      using p set1 q idle r(2) zero(1) unfolding start_allowed_def
      by (cases "state r = QHW_SCHED_TASK_QUEUED")
        (simp_all add: qhw_sched_task_started_def enter [OF inv] Let_def zero_plugin_desc_def dec0_unqueued
          False sys_norm del: unqueued_eq)
    show ?thesis unfolding run by (rule lv) (use tt1 zero(1) in \<open>simp add: start_answer_def zero_plugin_desc_def\<close>)
  next
    case True
    then have asg: "state r = QHW_SCHED_TASK_ASSIGNED" using r(2) by (simp add: start_allowed_def)
    let ?rt' = "?rt\<lparr>running_task_id := tid\<rparr>"
    define s1 where "s1 = (upd_tasks tt1 (entered s))\<lparr>qpu := (qpu s)\<lparr>runtime := ?rt'\<rparr>\<rparr>"
    obtain f where f: "pd_on_task_started ?d = Some f"
      using True pol policy_plugin.complete [OF policies, of ?d]
      by (auto simp: policy_ok_def policy_is_active_def zero_plugin_desc_def desc_complete_def)
    have pol1: "policy_ok K ?T1 ?d ?ps"
      by (rule policy_ok_same_queue [OF pol]) (use r asg in \<open>simp add: ids_in_keep\<close>)
    have "tid \<notin> ids_in ?T1 QHW_SCHED_TASK_QUEUED" by (simp add: ids_in_upd)
    from policy_started [OF pol1 f this, of "env s"] obtain rc st e where
      call: "f ?ps tid (env s) = Some (rc, st, e)" and pol2: "policy_ok K ?T1 ?d st"
      by (auto simp: succeeds_iff)
    show ?thesis
    proof (cases "rc = QHW_SCHED_OK")
      case rc: True
      have "runtime_ok ?rt' ?T1" using runtime_ok_start [OF rt key r(1) asg idle] by simp
      then have "cinv D G K {} (upd_policy st e s1)" "frame (entered s) (upd_policy st e s1)"
        using ci tt1 w1 q pol2 by (simp_all add: cinv_def frame_def s1_def)
      note lv = leave_succeeds [OF inv this(2,1)]
      have run: "qhw_sched_task_started D False s tid = unlock_return QHW_SCHED_OK (upd_policy st e s1)"
        using p set1 q idle asg f call rc
        by (simp add: qhw_sched_task_started_def enter [OF inv] Let_def s1_def sys_norm)
      show ?thesis unfolding run by (rule lv) (use tt1 asg f call rc True in \<open>simp add: s1_def start_answer_def\<close>)
    next
      case rc: False
      have nz: "tid \<noteq> 0" using key r(1) by (auto simp: keyed_def)
      define s2 where "s2 = (upd_tasks tt2 (upd_policy st e s1))\<lparr>qpu := qpu s\<rparr>"
      have "policy_ok K ?T ?d st"
        by (rule policy_ok_same_queue [OF pol2]) (use r asg in \<open>simp add: ids_in_keep\<close>)
      then have "cinv D G K {} s2" "frame (entered s) s2"
        using ci tt2 by (simp_all add: cinv_def frame_def s1_def s2_def)
      note lv = leave_succeeds [OF inv this(2,1)]
      have "(qpu s)\<lparr>runtime := ?rt'\<lparr>running_task_id := 0\<rparr>\<rparr> = qpu s" using idle by simp
      then have run: "qhw_sched_task_started D False s tid = unlock_return rc s2"
        using p set1 set2 q idle asg f call rc
        by (simp add: qhw_sched_task_started_def enter [OF inv] Let_def s1_def s2_def sys_norm)
      show ?thesis unfolding run by (rule lv) (use tt2 rc f call True in \<open>simp add: s1_def s2_def start_answer_def\<close>)
    qed
  qed
qed

subsection \<open>Selecting a task\<close>

lemma select_inactive:
  assumes inv: "sched_inv D G K s" and "\<not> policy_is_active s"
  shows "qhw_sched_select_next D False s (Some a) = Some ((QHW_SCHED_ERR_NOT_FOUND, Some a), s)"
proof -
  have "pd_select_next (policy_desc (sched s)) = None"
    using assms(2) by (simp add: policy_is_active_def Option.is_none_def)
  then show ?thesis by (simp add: qhw_sched_select_next_def enter [OF inv] leave_same [OF inv])
qed

lemma as_task_id_fill [simp]: "as_task_id (fill_assignment_from_record r) = task_id (desc r)"
  by (simp add: fill_assignment_from_record_def Let_def split: option.split)

lemma select_active:
  assumes inv: "sched_inv D G K s" and act: "policy_is_active s"
  shows "succeeds (qhw_sched_select_next D False s (Some a)) (\<lambda>(res, s').
    sched_inv D G K s' \<and> frame s s' \<and> order_of G s' = order_of G s \<and>
    (if fst res = QHW_SCHED_OK then (\<exists>a'. snd res = Some a' \<and> selected D s a' s')
     else unchanged D G s s') \<and>
    (fst res = QHW_SCHED_ERR_NOT_FOUND \<longrightarrow> ids_in (task_map_of D s) QHW_SCHED_TASK_QUEUED = {}))"
proof -
  let ?T = "task_map_of D s" and ?tt = "tasks (sched s)"
  let ?d = "policy_desc (sched s)" and ?ps = "policy_state (sched s)"
  have ci: "cinv D G K {} s" using inv by (simp add: sched_inv_def)
  then have ok: "table_ok D G ?tt" and q: "qpu_ok (qpu s)" and key: "keyed ?T"
    and rt: "runtime_ok (runtime (qpu s)) ?T" and w: "waiting_ok {} ?T" and pol: "policy_ok K ?T ?d ?ps"
    using cinv_keyed by (simp_all add: cinv_def)
  obtain f where f: "pd_select_next ?d = Some f"
    using act by (auto simp: policy_is_active_def Option.is_none_def)
  from policy_select [OF pol f, of a "env s"] obtain rc a' st e where
    call: "f ?ps a (env s) = Some (rc, a', st, e)"
    and res: "if rc = QHW_SCHED_OK then as_task_id a' \<in> ids_in ?T QHW_SCHED_TASK_QUEUED \<and>
       (\<forall>T'. ids_in T' QHW_SCHED_TASK_QUEUED = ids_in ?T QHW_SCHED_TASK_QUEUED - {as_task_id a'} \<longrightarrow>
          policy_ok K T' ?d st)
     else policy_ok K ?T ?d st"
    and empty: "rc = QHW_SCHED_ERR_NOT_FOUND \<longrightarrow> ids_in ?T QHW_SCHED_TASK_QUEUED = {}"
    by (auto simp: succeeds_iff)
  show ?thesis
  proof (cases "rc = QHW_SCHED_OK")
    case False
    let ?s1 = "upd_policy st e (entered s)"
    have run: "qhw_sched_select_next D False s (Some a) = unlock_return (rc, Some a') ?s1"
      using f call False by (simp add: qhw_sched_select_next_def enter [OF inv])
    have "frame (entered s) ?s1" "cinv D G K {} ?s1" using ci res False by (simp_all add: cinv_def)
    note lv = leave_succeeds [OF inv this]
    show ?thesis unfolding run by (rule lv) (use False empty in \<open>simp add: unchanged_def\<close>)
  next
    case True
    let ?id = "as_task_id a'"
    obtain r where r: "?T ?id = Some r" "state r = QHW_SCHED_TASK_QUEUED"
      using res True by (auto simp: ids_in_def)
    let ?r = "r\<lparr>state := QHW_SCHED_TASK_ASSIGNED\<rparr>"
    let ?T1 = "?T(?id \<mapsto> ?r)"
    let ?rt = "(runtime (qpu s))\<lparr>queued_count := dec0 (queued_count (runtime (qpu s)))\<rparr>"
    obtain p where p: "qhw_task_table_find D ?tt ?id = Some p" "record_read ?tt p = Some r"
      by (rule lookup_some [OF inv r(1)])
    from set_state_ok [OF ok, of ?id QHW_SCHED_TASK_ASSIGNED] obtain tt1 where
      set1: "qhw_task_table_set_state D ?tt ?id QHW_SCHED_TASK_ASSIGNED = Some (QHW_SCHED_OK, tt1)"
      and tt1: "table_ok D G tt1" "tt_task D tt1 = ?T1" "tt_order G tt1 = order_of G s" "by_id tt1 = by_id ?tt"
      using r by (auto simp: succeeds_iff task_map_of_def order_of_def)
    have read1: "record_read tt1 p = Some ?r"
      using find_read [OF tt1(1), of ?id p] p tt1 by (auto simp: qhw_task_table_find_def)
    let ?s1 = "(upd_tasks tt1 (upd_policy st e (entered s)))\<lparr>qpu := (qpu s)\<lparr>runtime := ?rt\<rparr>\<rparr>"
    have run: "qhw_sched_select_next D False s (Some a) =
        unlock_return (QHW_SCHED_OK, Some (fill_assignment_from_record ?r)) ?s1"
      using f call True p r set1 read1 q
      by (simp add: qhw_sched_select_next_def enter [OF inv] Let_def dec0_unqueued del: unqueued_eq)
    have "policy_ok K ?T1 ?d st" using res True by (simp add: ids_in_upd)
    moreover have "runtime_ok ?rt ?T1" using runtime_ok_leave_queue [OF rt key r] by simp
    moreover have "waiting_ok {} ?T1" using waiting_ok_keep [OF w r(1), of ?r] r(2) by (simp add: live_state_def)
    ultimately have "frame (entered s) ?s1" "cinv D G K {} ?s1"
      using ci tt1 q by (simp_all add: cinv_def frame_def)
    note lv = leave_succeeds [OF inv this]
    show ?thesis
      unfolding run
    proof (rule lv)
      have "task_id (desc r) = ?id" using key r(1) by (simp add: keyed_def)
      then show "order_of G (with_lock (lock (sched s)) ?s1) = order_of G s \<and>
        (if fst (QHW_SCHED_OK, Some (fill_assignment_from_record ?r)) = QHW_SCHED_OK
         then \<exists>a'. snd (QHW_SCHED_OK, Some (fill_assignment_from_record ?r)) = Some a' \<and>
           selected D s a' (with_lock (lock (sched s)) ?s1)
         else unchanged D G s (with_lock (lock (sched s)) ?s1)) \<and>
        (fst (QHW_SCHED_OK, Some (fill_assignment_from_record ?r)) = QHW_SCHED_ERR_NOT_FOUND \<longrightarrow>
          ids_in ?T QHW_SCHED_TASK_QUEUED = {})"
        using r tt1 by (simp add: selected_def)
    qed
  qed
qed

subsection \<open>Changing a priority\<close>

lemma update_priority_missing:
  assumes inv: "sched_inv D G K s" and r: "task_map_of D s tid = None"
  shows "qhw_sched_task_update_priority D False s tid v = Some (QHW_SCHED_ERR_NOT_FOUND, s)"
  using lookup_none [OF assms]
  by (simp add: qhw_sched_task_update_priority_def enter [OF inv] leave_same [OF inv])

lemma update_priority_rejected:
  assumes inv: "sched_inv D G K s" and r: "task_map_of D s tid = Some r" "state r \<noteq> QHW_SCHED_TASK_QUEUED"
  shows "qhw_sched_task_update_priority D False s tid v = Some (QHW_SCHED_ERR_STATE, s)"
proof -
  obtain p where "qhw_task_table_find D (tasks (sched s)) tid = Some p"
    "record_read (tasks (sched s)) p = Some r" by (rule lookup_some [OF inv r(1)])
  then show ?thesis using r(2)
    by (simp add: qhw_sched_task_update_priority_def enter [OF inv] leave_same [OF inv])
qed

lemma update_priority_accepted:
  assumes inv: "sched_inv D G K s" and r: "task_map_of D s tid = Some r" "state r = QHW_SCHED_TASK_QUEUED"
  shows "succeeds (qhw_sched_task_update_priority D False s tid v) (\<lambda>(rc, s').
    sched_inv D G K s' \<and> frame s s' \<and> order_of G s' = order_of G s \<and>
    runtime (qpu s') = runtime (qpu s) \<and>
    task_map_of D s' = (if rc = QHW_SCHED_OK
      then (task_map_of D s)(tid \<mapsto> r\<lparr>desc := (desc r)\<lparr>priority := v\<rparr>\<rparr>) else task_map_of D s))"
proof -
  let ?T = "task_map_of D s" and ?tt = "tasks (sched s)"
  let ?d = "policy_desc (sched s)" and ?ps = "policy_state (sched s)"
  let ?r = "r\<lparr>desc := (desc r)\<lparr>priority := v\<rparr>\<rparr>"
  have ci: "cinv D G K {} s" using inv by (simp add: sched_inv_def)
  then have ok: "table_ok D G ?tt" and q: "qpu_ok (qpu s)" and key: "keyed ?T"
    and rt: "runtime_ok (runtime (qpu s)) ?T" and w: "waiting_ok {} ?T" and pol: "policy_ok K ?T ?d ?ps"
    using cinv_keyed by (simp_all add: cinv_def)
  have id: "task_id (desc r) = tid" using key r(1) by (simp add: keyed_def)
  obtain p where p: "qhw_task_table_find D ?tt tid = Some p" "record_read ?tt p = Some r"
    by (rule lookup_some [OF inv r(1)])
  from record_write_ok [OF ok, of tid p r "\<lambda>r. r\<lparr>desc := (desc r)\<lparr>priority := v\<rparr>\<rparr>"] p r id
  obtain tt1 where
    w1: "record_write ?tt p (\<lambda>r. r\<lparr>desc := (desc r)\<lparr>priority := v\<rparr>\<rparr>) = Some tt1"
    and tt1: "table_ok D G tt1" "tt_task D tt1 = ?T(tid \<mapsto> ?r)" "tt_order G tt1 = order_of G s"
      "by_id tt1 = by_id ?tt"
    by (auto simp: succeeds_iff qhw_task_table_find_def task_map_of_def order_of_def)
  from record_write_ok [OF tt1(1), of tid p ?r "\<lambda>r'. r'\<lparr>desc := (desc r')\<lparr>priority := priority (desc r)\<rparr>\<rparr>"] p tt1 id
  obtain tt2 where
    w2: "record_write tt1 p (\<lambda>r'. r'\<lparr>desc := (desc r')\<lparr>priority := priority (desc r)\<rparr>\<rparr>) = Some tt2"
    and tt2: "table_ok D G tt2" "tt_task D tt2 = ?T" "tt_order G tt2 = order_of G s"
    using r by (auto simp: succeeds_iff qhw_task_table_find_def fun_upd_idem)
  have rt1: "runtime_ok (runtime (qpu s)) (?T(tid \<mapsto> ?r))" by (rule runtime_ok_same_state [OF rt r(1)]) simp
  have wt1: "waiting_ok {} (?T(tid \<mapsto> ?r))" by (rule waiting_ok_keep [OF w r(1)]) (use r in simp_all)
  have queue: "ids_in (?T(tid \<mapsto> ?r)) QHW_SCHED_TASK_QUEUED = ids_in ?T QHW_SCHED_TASK_QUEUED"
    by (rule ids_in_same [of ?T tid r ?r, OF r(1)]) simp
  note pol1 = policy_ok_same_queue [OF pol queue]
  show ?thesis
  proof (cases "pd_on_task_priority_changed ?d")
    case None
    let ?s1 = "upd_tasks tt1 (entered s)"
    have run: "qhw_sched_task_update_priority D False s tid v = unlock_return QHW_SCHED_OK ?s1"
      using p r w1 None by (simp add: qhw_sched_task_update_priority_def enter [OF inv] Let_def)
    have "frame (entered s) ?s1" "cinv D G K {} ?s1" using ci tt1 rt1 wt1 pol1 by (simp_all add: cinv_def)
    note lv = leave_succeeds [OF inv this]
    show ?thesis unfolding run by (rule lv) (use tt1 in simp)
  next
    case (Some f)
    have "tid \<in> ids_in (?T(tid \<mapsto> ?r)) QHW_SCHED_TASK_QUEUED" using r by (simp add: ids_in_upd)
    from policy_priority [OF pol1 Some this, of v "env s"] obtain rc st e where
      call: "f ?ps tid v (env s) = Some (rc, st, e)" and pol2: "policy_ok K (?T(tid \<mapsto> ?r)) ?d st"
      by (auto simp: succeeds_iff)
    show ?thesis
    proof (cases "rc = QHW_SCHED_OK")
      case True
      let ?s1 = "upd_policy st e (upd_tasks tt1 (entered s))"
      have run: "qhw_sched_task_update_priority D False s tid v = unlock_return rc ?s1"
        using p r w1 Some call True by (simp add: qhw_sched_task_update_priority_def enter [OF inv] Let_def)
      have "frame (entered s) ?s1" "cinv D G K {} ?s1" using ci tt1 rt1 wt1 pol2 by (simp_all add: cinv_def)
      note lv = leave_succeeds [OF inv this]
      show ?thesis unfolding run by (rule lv) (use tt1 True in simp)
    next
      case False
      let ?s1 = "upd_tasks tt2 (upd_policy st e (upd_tasks tt1 (entered s)))"
      have run: "qhw_sched_task_update_priority D False s tid v = unlock_return rc ?s1"
        using p r w1 w2 Some call False
        by (simp add: qhw_sched_task_update_priority_def enter [OF inv] Let_def)
      have "policy_ok K ?T ?d st" by (rule policy_ok_same_queue [OF pol2]) (rule queue [symmetric])
      then have "frame (entered s) ?s1" "cinv D G K {} ?s1" using ci tt2 by (simp_all add: cinv_def)
      note lv = leave_succeeds [OF inv this]
      show ?thesis unfolding run by (rule lv) (use tt2 False in simp)
    qed
  qed
qed

subsection \<open>Queries and callbacks\<close>

lemma get_state_ok:
  assumes inv: "sched_inv D G K s"
  shows "qhw_sched_task_get_state D False False s tid = Some (case task_map_of D s tid of
      None \<Rightarrow> ((QHW_SCHED_ERR_NOT_FOUND, None), s) | Some r \<Rightarrow> ((QHW_SCHED_OK, Some (state r)), s))"
proof (cases "task_map_of D s tid")
  case None
  then show ?thesis using lookup_none [OF inv None]
    by (simp add: qhw_sched_task_get_state_def enter [OF inv] leave_same [OF inv])
next
  case (Some r)
  then obtain p where "qhw_task_table_find D (tasks (sched s)) tid = Some p"
    "record_read (tasks (sched s)) p = Some r" by (rule lookup_some [OF inv])
  with Some show ?thesis by (simp add: qhw_sched_task_get_state_def enter [OF inv] leave_same [OF inv])
qed

lemma task_count_ok:
  assumes inv: "sched_inv D G K s"
  shows "\<exists>n. qhw_sched_task_count False s = Some (n, s) \<and> unat n = card (dom (task_map_of D s))"
  using inv tt_count_card [of "tasks (sched s)"]
  by (simp add: qhw_sched_task_count_def enter [OF inv] leave_same [OF inv] sched_inv_def cinv_def task_map_of_def)

lemma set_callbacks_ok:
  assumes inv: "sched_inv D G K s"
  shows "succeeds (qhw_sched_set_callbacks False s cbs) (\<lambda>(rc, s'). sched_inv D G K s' \<and> unchanged D G s s' \<and>
    callbacks (sched s') = (if rc \<noteq> QHW_SCHED_OK then callbacks (sched s)
      else case cbs of None \<Rightarrow> zero_callbacks | Some c \<Rightarrow> c))"
proof -
  have *: "unlock_return rc ((entered s)\<lparr>sched := (sched (entered s))\<lparr>callbacks := c\<rparr>\<rparr>) =
      Some (rc, s\<lparr>sched := (sched s)\<lparr>callbacks := c\<rparr>\<rparr>)" for rc c
    using inv by (simp add: unlock_return_def sched_unlock_def with_lock_def)
  have "sched_inv D G K (s\<lparr>sched := (sched s)\<lparr>callbacks := c\<rparr>\<rparr>) \<and>
      unchanged D G s (s\<lparr>sched := (sched s)\<lparr>callbacks := c\<rparr>\<rparr>)" for c
    using inv by (simp add: sched_inv_def cinv_def task_map_of_def unchanged_def order_of_def)
  then show ?thesis using inv
    by (auto simp: qhw_sched_set_callbacks_def enter [OF inv] leave_same [OF inv] * split: option.split)
qed

end

end
