(* ===== verification/Sched_Submit.thy ===== *)
theory Sched_Submit
  imports Sched_Safe
begin

section \<open>Submitting tasks\<close>

text \<open>
  The validation of the children a split callback produced, and the contract of
  \<^verbatim>\<open>qhw_sched_submit_task\<close> under interference: while the lock is released other threads may change the
  state in any way that keeps the invariant.
\<close>

subsection \<open>Validated children\<close>

definition slice_of :: "qhw_sched_task_desc \<Rightarrow> u64" where
  "slice_of c = the (metadata_get_u64 (metadata c) QHW_SCHED_META_SLICE_INDEX)"

definition shots_of :: "qhw_sched_task_desc \<Rightarrow> u64" where
  "shots_of c = the (metadata_get_u64 (metadata c) QHW_SCHED_META_SHOTS)"

definition child_ok ::
  "('h, 'l, 'q) ds \<Rightarrow> ('h, 'l) qhw_task_table \<Rightarrow> u64 \<Rightarrow> qhw_sched_split_config \<Rightarrow> u64 \<Rightarrow>
   qhw_sched_task_desc \<Rightarrow> bool" where
  "child_ok D tt pid config n c \<longleftrightarrow>
     task_id c \<noteq> 0 \<and> task_id c \<noteq> pid \<and> parent_task_id c = pid \<and>
     qhw_task_table_find D tt (task_id c) = None \<and>
     metadata_get_u64 (metadata c) QHW_SCHED_META_SLICE_COUNT = Some n \<and>
     metadata_get_u64 (metadata c) QHW_SCHED_META_SLICE_INDEX = Some (slice_of c) \<and>
     slice_of c < n \<and>
     metadata_get_u64 (metadata c) QHW_SCHED_META_SHOTS = Some (shots_of c) \<and>
     0 < shots_of c \<and> shots_of c \<le> slice_shots config"

context datastructures
begin

lemma validate_loop_sound:
  assumes "validate_children_loop D tt pid config n cs i seen slices total_shots m = (QHW_SCHED_OK, t', m')"
    and "ht_inv G seen" "ht_inv G slices" "unat total_shots \<le> unat (requested_shots config)"
  shows "(\<forall>c \<in> set cs. child_ok D tt pid config n c) \<and>
    distinct (map task_id cs) \<and> distinct (map slice_of cs) \<and>
    (\<forall>c \<in> set cs. hash_table_find D seen (task_id c) = None \<and> hash_table_find D slices (slice_of c) = None) \<and>
    unat t' = unat total_shots + sum_list (map (\<lambda>c. unat (shots_of c)) cs) \<and>
    unat t' \<le> unat (requested_shots config)"
  using assms
proof (induction cs arbitrary: i seen slices total_shots m)
  case (Cons c cs)
  from Cons.prems(1) obtain si sh where
    idx: "metadata_get_u64 (metadata c) QHW_SCHED_META_SLICE_INDEX = Some si"
    and cnt: "metadata_get_u64 (metadata c) QHW_SCHED_META_SLICE_COUNT = Some n"
    and shots: "metadata_get_u64 (metadata c) QHW_SCHED_META_SHOTS = Some sh"
    by (auto split: if_splits option.splits)
  obtain b1 slices' m1 where ins1: "hash_table_insert D slices si i m = (b1, slices', m1)"
    by (metis prod_cases3)
  obtain b2 seen' m2 where ins2: "hash_table_insert D seen (task_id c) i m1 = (b2, seen', m2)"
    by (metis prod_cases3)
  from Cons.prems(1) idx cnt shots ins1 ins2 have
    guard: "task_id c \<noteq> 0" "task_id c \<noteq> pid" "parent_task_id c = pid"
      "qhw_task_table_find D tt (task_id c) = None" "hash_table_find D seen (task_id c) = None"
      "si < n" "hash_table_find D slices si = None" "sh \<noteq> 0" "sh \<le> slice_shots config"
      "sh \<le> requested_shots config - total_shots" "b1" "b2"
    and rest: "validate_children_loop D tt pid config n cs (Suc i) seen' slices' (total_shots + sh) m2 =
      (QHW_SCHED_OK, t', m')"
    by (auto split: if_splits simp: not_less not_le)
  have slices': "ht_inv G slices'" "hash_table_find D slices' = (hash_table_find D slices)(si \<mapsto> i)"
    using ht_insert [OF Cons.prems(3) guard(7) ins1] guard by simp_all
  have seen': "ht_inv G seen'" "hash_table_find D seen' = (hash_table_find D seen)(task_id c \<mapsto> i)"
    using ht_insert [OF Cons.prems(2) guard(5) ins2] guard by simp_all
  have le: "total_shots \<le> requested_shots config" using Cons.prems(4) by (simp add: word_le_nat_alt)
  then have "unat sh \<le> unat (requested_shots config) - unat total_shots"
    using guard(10) by (simp add: word_le_nat_alt unat_sub)
  then have sum: "unat total_shots + unat sh \<le> unat (requested_shots config)" using Cons.prems(4) by simp
  then have tot: "unat (total_shots + sh) = unat total_shots + unat sh"
    using unat_u64_le [of "requested_shots config"] by (simp add: unat_word_ariths)
  have ci: "slice_of c = si" "shots_of c = sh" using idx shots by (simp_all add: slice_of_def shots_of_def)
  have "0 < sh" using guard(8) by (simp add: word_greater_zero_iff)
  then have "child_ok D tt pid config n c" using guard idx cnt shots ci by (simp add: child_ok_def)
  moreover note IH = Cons.IH [OF rest seen'(1) slices'(1)]
  moreover have "unat (total_shots + sh) \<le> unat (requested_shots config)" using sum tot by simp
  ultimately show ?case using guard ci tot seen'(2) slices'(2)
    by (auto split: if_splits)
qed simp

text \<open>Accepted children: distinct fresh ids, the slice indices are exactly 0 to n-1, the shots add up.\<close>

lemma validate_sound:
  assumes "validate_child_tasks D tt parent cs config n m = (QHW_SCHED_OK, m')" "length cs = unat n"
  shows "(\<forall>c \<in> set cs. child_ok D tt (task_id parent) config n c) \<and> distinct (map task_id cs) \<and>
    n = slice_count config \<and>
    mset (map (\<lambda>c. unat (slice_of c)) cs) = mset [0..<unat n] \<and>
    sum_list (map (\<lambda>c. unat (shots_of c)) cs) = unat (requested_shots config)"
proof -
  from assms(1) obtain seen m1 slices m2 t m3 where
    init: "hash_table_init D (unat n * 2 + 1) m = (Some seen, m1)"
      "hash_table_init D (unat n * 2 + 1) m1 = (Some slices, m2)"
    and loop: "validate_children_loop D tt (task_id parent) config n cs 0 seen slices 0 m2 =
      (QHW_SCHED_OK, t, m3)"
    and t: "t = requested_shots config" and n: "n = slice_count config"
    by (auto simp: validate_child_tasks_def split: if_splits option.splits prod.splits)
  have "ht_inv G seen" "ht_inv G slices" using ht_init init by blast+
  note sound = validate_loop_sound [OF loop this]
  have dist: "distinct (map (\<lambda>c. unat (slice_of c)) cs)"
    using sound by (auto simp: distinct_map inj_on_def dest!: word_unat_eq_iff [THEN iffD2])
  have sub: "set (map (\<lambda>c. unat (slice_of c)) cs) \<subseteq> {0..<unat n}"
    using sound by (auto simp: child_ok_def word_less_nat_alt)
  have "card (set (map (\<lambda>c. unat (slice_of c)) cs)) = unat n"
    using dist assms(2) distinct_card [OF dist] by simp
  then have "set (map (\<lambda>c. unat (slice_of c)) cs) = {0..<unat n}"
    using sub by (intro card_subset_eq) auto
  then have "mset (map (\<lambda>c. unat (slice_of c)) cs) = mset [0..<unat n]"
    by (intro iffD1 [OF set_eq_iff_mset_eq_distinct [OF dist distinct_upt]]) (simp only: set_upt)
  then show ?thesis using sound t n by simp
qed

end

subsection \<open>Cost estimates\<close>

lemma estimate_task_cost_task:
  "estimate_task_cost cbs prof task e = (rc, task', e') \<Longrightarrow>
   \<exists>c. task' = task\<lparr>estimated_cost := c\<rparr> \<and> (rc = QHW_SCHED_OK \<longrightarrow> c \<noteq> 0)"
proof -
  have "qhw_policy_task_estimated_cost task \<noteq> 0"
    by (auto simp: qhw_policy_task_estimated_cost_def split: option.splits)
  moreover have "\<exists>c. t = t\<lparr>estimated_cost := c\<rparr>" for t :: qhw_sched_task_desc
    by (rule exI [of _ "estimated_cost t"]) simp
  ultimately show "estimate_task_cost cbs prof task e = (rc, task', e') \<Longrightarrow> ?thesis"
    unfolding estimate_task_cost_def
    by (auto simp: Let_def split: option.splits prod.splits if_splits)
qed

lemma estimate_child_costs_map:
  "estimate_child_costs cbs prof cs e = (rc, cs', e') \<Longrightarrow>
   length cs' = length cs \<and> map (estimated_cost_update (\<lambda>_. 0)) cs' = map (estimated_cost_update (\<lambda>_. 0)) cs"
proof (induction cs arbitrary: e rc cs' e')
  case (Cons c cs)
  obtain rc1 c1 e1 where 1: "estimate_task_cost cbs prof c e = (rc1, c1, e1)" by (metis prod_cases3)
  obtain rc2 cs2 e2 where 2: "estimate_child_costs cbs prof cs e1 = (rc2, cs2, e2)" by (metis prod_cases3)
  show ?case using Cons.prems 1 2 Cons.IH [OF 2] estimate_task_cost_task [OF 1] by (auto split: if_splits)
qed simp

subsection \<open>Submission under interference\<close>

definition rely ::
  "('h, 'l, 'q) ds \<Rightarrow> ('h, 'l, 'q) ghost \<Rightarrow> 'p contract \<Rightarrow>
   (('h, 'l, 'p) sys \<Rightarrow> ('h, 'l, 'p) sys) \<Rightarrow> bool" where
  "rely D G K interf \<longleftrightarrow> (\<forall>s. sched_inv D G K s \<longrightarrow> sched_inv D G K (interf s))"

definition submit_outcome ::
  "('h, 'l, 'q) ds \<Rightarrow> ('h, 'l, 'q) ghost \<Rightarrow>
   qhw_sched_task_desc \<Rightarrow> ('h, 'l, 'p) sys \<Rightarrow> qhw_sched_rc \<Rightarrow> ('h, 'l, 'p) sys \<Rightarrow> bool" where
  "submit_outcome D G task s0 rc s' \<longleftrightarrow>
     (if rc = QHW_SCHED_OK then
        (\<exists>c. c \<noteq> 0 \<and> enqueued D G s0 (task\<lparr>estimated_cost := c\<rparr>) s') \<or>
        (\<exists>(config :: qhw_sched_split_config) children. 0 < length children \<and>
           length children = unat (slice_count config) \<and>
           (\<forall>c \<in> set children. parent_task_id c = task_id task) \<and>
           distinct (map task_id children) \<and>
           mset (map (\<lambda>c. unat (slice_of c)) children) = mset [0..<length children] \<and>
           metadata_get_u64 (metadata task) QHW_SCHED_META_SHOTS = Some (requested_shots config) \<and>
           sum_list (map (\<lambda>c. unat (shots_of c)) children) = unat (requested_shots config) \<and>
           split_submitted D G s0 task children s')
      else unchanged D G s0 s')"

text \<open>The state in which a submission takes effect: the one it was called in, or what another thread left.\<close>

definition base ::
  "('h, 'l, 'q) ds \<Rightarrow> ('h, 'l, 'q) ghost \<Rightarrow> 'p contract \<Rightarrow>
   (('h, 'l, 'p) sys \<Rightarrow> ('h, 'l, 'p) sys) \<Rightarrow> ('h, 'l, 'p) sys \<Rightarrow> ('h, 'l, 'p) sys \<Rightarrow> bool" where
  "base D G K interf s s0 \<longleftrightarrow>
     unchanged D G s s0 \<or> (\<exists>s1. sched_inv D G K s1 \<and> unchanged D G s s1 \<and> unchanged D G (interf s1) s0)"

context scheduler_core
begin

lemma enqueued_with_lock [simp]:
  "enqueued D G (with_lock l s) task s' = enqueued D G s task s'" "enqueued D G s task (with_lock l s') = enqueued D G s task s'"
  "split_submitted D G (with_lock l s) task cs s' = split_submitted D G s task cs s'"
  "split_submitted D G s task cs (with_lock l s') = split_submitted D G s task cs s'"
  by (simp_all add: enqueued_def split_submitted_def)

lemma submit_outcome_with_lock [simp]:
  "submit_outcome D G task s0 rc (with_lock l s') = submit_outcome D G task s0 rc s'"
  by (simp add: submit_outcome_def)

lemma unlock_inside:
  assumes "lock_free l" "lock (sched s1) = locked l" "cinv D G K {} s1"
  shows "unlock_return r s1 = Some (r, with_lock l s1)" "sched_unlock s1 = Some (with_lock l s1)"
    "sched_inv D G K (with_lock l s1)"
  using assms by (simp_all add: unlock_return_ok sched_unlock_ok sched_inv_def)

lemma enqueue_and_leave:
  assumes inv: "cinv D G K {} s" and l: "lock_free l" "lock (sched s) = locked l"
    and task: "task' = task\<lparr>estimated_cost := c\<rparr>" "rc = QHW_SCHED_OK \<longrightarrow> c \<noteq> 0"
  shows "succeeds (if rc = QHW_SCHED_OK then do { (rc, s) \<leftarrow> enqueue_task_locked D s task'; unlock_return rc s }
      else unlock_return rc s)
    (\<lambda>(rc, s'). sched_inv D G K s' \<and> submit_outcome D G task s rc s')"
proof (cases "rc = QHW_SCHED_OK")
  case True
  from enqueue_ok [OF inv, of task'] obtain rc' s' where
    enq: "enqueue_task_locked D s task' = Some (rc', s')" and s': "cinv D G K {} s'" "frame s s'"
    and res: "if rc' = QHW_SCHED_OK then enqueued D G s task' s' else unchanged D G s s'"
    by (auto simp: succeeds_iff)
  have "lock (sched s') = locked l" using s'(2) l by (simp add: frame_def)
  note un = unlock_inside [OF l(1) this s'(1)]
  show ?thesis using True enq res task by (auto simp: un submit_outcome_def)
next
  case False
  then show ?thesis by (simp add: submit_outcome_def unlock_inside [OF l inv])
qed

lemma submit_whole_ok:
  assumes inv: "cinv D G K {} s" and l: "lock_free l" "lock (sched s) = locked l" and rel: "rely D G K interf"
  shows "succeeds (submit_whole_task D interf s task) (\<lambda>(rc, s'). sched_inv D G K s' \<and>
    (\<exists>s0. base D G K interf s s0 \<and> submit_outcome D G task s0 rc s'))"
proof -
  let ?cbs = "callbacks (sched s)"
  obtain rc task' e where est: "estimate_task_cost ?cbs (profile (qpu s)) task (env s) = (rc, task', e)"
    by (metis prod_cases3)
  obtain c where c: "task' = task\<lparr>estimated_cost := c\<rparr>" "rc = QHW_SCHED_OK \<longrightarrow> c \<noteq> 0"
    using estimate_task_cost_task [OF est] by blast
  show ?thesis
  proof (cases "estimate_cost ?cbs")
    case None
    have "succeeds (submit_whole_task D interf s task) (\<lambda>(rc, s'). sched_inv D G K s' \<and>
        submit_outcome D G task (s\<lparr>env := e\<rparr>) rc s')"
      using enqueue_and_leave [of "s\<lparr>env := e\<rparr>" l task' c task rc] inv l c None est
      by (simp add: submit_whole_task_def Let_def)
    moreover have "base D G K interf s (s\<lparr>env := e\<rparr>)" by (simp add: base_def unchanged_def)
    ultimately show ?thesis by (auto elim!: succeeds_mono)
  next
    case (Some f)
    define s1 where "s1 = (with_lock l s)\<lparr>env := e\<rparr>"
    have inv1: "sched_inv D G K s1" using inv l by (simp add: s1_def sched_inv_def)
    define s2 where "s2 = interf s1"
    have inv2: "sched_inv D G K s2" using rel inv1 by (simp add: rely_def s2_def)
    then have ci2: "cinv D G K {} (entered s2)" by (simp add: sched_inv_def)
    have un1: "unchanged D G s s1" by (simp add: s1_def unchanged_def)
    define rc1 where "rc1 = (if rc = QHW_SCHED_OK \<and> qhw_task_table_find D (tasks (sched s2)) (task_id task) \<noteq> None
        then QHW_SCHED_ERR_EXISTS else rc)"
    have okrc: "rc1 = QHW_SCHED_OK \<longrightarrow> c \<noteq> 0" using c(2) by (auto simp: rc1_def)
    from compute_split_ok [OF ci2, of task] obtain rc2 cfg should s3 where
      comp: "compute_split_config (entered s2) task = Some (rc2, cfg, should, s3)"
      and s3: "cinv D G K {} s3" "frame (entered s2) s3" "unchanged D G (entered s2) s3"
      by (auto simp: succeeds_iff)
    define rc3 where "rc3 = (if rc1 \<noteq> QHW_SCHED_OK then rc1
      else if rc2 = QHW_SCHED_OK \<and> should then QHW_SCHED_ERR_STATE else rc2)"
    define s4 where "s4 = (if rc1 \<noteq> QHW_SCHED_OK then entered s2 else s3)"
    have s4: "cinv D G K {} s4" "lock (sched s4) = locked (lock (sched s2))" "unchanged D G s2 s4"
      using ci2 s3 by (auto simp: s4_def frame_def)
    have run: "submit_whole_task D interf s task =
      (if rc3 = QHW_SCHED_OK then do { (rc, s) \<leftarrow> enqueue_task_locked D s4 task'; unlock_return rc s }
       else unlock_return rc3 s4)"
      using Some est comp unlock_inside [OF l inv] enter [OF inv2]
      by (simp add: submit_whole_task_def Let_def rc3_def rc1_def s4_def s2_def s1_def)
    have "rc3 = QHW_SCHED_OK \<longrightarrow> c \<noteq> 0" using okrc by (auto simp: rc3_def split: if_splits)
    from enqueue_and_leave [OF s4(1) sched_inv_free [OF inv2] s4(2) c(1) this]
    have "succeeds (submit_whole_task D interf s task) (\<lambda>(rc, s'). sched_inv D G K s' \<and>
        submit_outcome D G task s4 rc s')" by (simp only: run)
    moreover have "base D G K interf s s4" using inv1 un1 s4(3) by (auto simp: base_def s2_def)
    ultimately show ?thesis by (auto elim!: succeeds_mono)
  qed
qed

lemma split_locked_part:
  assumes inv: "cinv D G K {} s2'" "cinv D G K {} s3" "frame s2' s3"
    and un: "unchanged D G s2 s2'" "unchanged D G s2 s3" and lk: "lock (sched s2') = L"
    and len: "length ch = unat (slice_count config)" "0 < unat (slice_count config)"
    and shots: "metadata_get_u64 (metadata task) QHW_SCHED_META_SHOTS = Some (requested_shots config)"
  shows "succeeds (if rc3 \<noteq> QHW_SCHED_OK then Some (rc3, s2')
       else if rc4 \<noteq> QHW_SCHED_OK then Some (rc4, s3)
       else if mismatch then Some (QHW_SCHED_ERR_STATE, s3)
       else
         let (rc, m) = validate_child_tasks D (tasks (sched s3)) task ch config (slice_count config)
               (env_mem (env s3));
             s = upd_mem m s3
         in if rc \<noteq> QHW_SCHED_OK then Some (rc, s) else submit_split_task_locked D s task ch (slice_count config))
    (\<lambda>(rc, s'). cinv D G K {} s' \<and> lock (sched s') = L \<and>
      (\<exists>s0. unchanged D G s2 s0 \<and> submit_outcome D G task s0 rc s'))"
proof -
  have lk3: "lock (sched s3) = L" using inv(3) lk by (simp add: frame_def)
  obtain rc m where v: "validate_child_tasks D (tasks (sched s3)) task ch config (slice_count config)
      (env_mem (env s3)) = (rc, m)" by force
  have un': "unchanged D G s2 (upd_mem m s3)" using un(2) by (simp add: unchanged_def task_map_of_def order_of_def)
  show ?thesis
  proof (cases "rc3 = QHW_SCHED_OK \<and> rc4 = QHW_SCHED_OK \<and> \<not> mismatch \<and> rc = QHW_SCHED_OK")
    case False
    have rej: "\<exists>s0. unchanged D G s2 s0 \<and> submit_outcome D G task s0 r s'"
      if "unchanged D G s2 s'" "r \<noteq> QHW_SCHED_OK" for r s'
      using that by (auto simp: submit_outcome_def intro!: exI [of _ s'])
    from False show ?thesis using inv un un' lk lk3 v by (auto intro!: rej)
  next
    case True
    note vs = validate_sound [OF v [unfolded conjunct2 [OF conjunct2 [OF conjunct2 [OF True]]]] len(1)]
    have par: "\<forall>c \<in> set ch. parent_task_id c = task_id task" using vs by (simp add: child_ok_def)
    have "cinv D G K {} (upd_mem m s3)" using inv(2) by simp
    from submit_split_ok [OF this, of "slice_count config" ch task] len par obtain rc' s' where
      sub: "submit_split_task_locked D (upd_mem m s3) task ch (slice_count config) = Some (rc', s')"
      and s': "cinv D G K {} s'" "frame (upd_mem m s3) s'"
        "if rc' = QHW_SCHED_OK then split_submitted D G (upd_mem m s3) task ch s'
         else unchanged D G (upd_mem m s3) s'"
      by (auto simp: succeeds_iff)
    have "lock (sched s') = L" using s'(2) lk3 by (simp add: frame_def)
    moreover have "submit_outcome D G task (upd_mem m s3) rc' s'"
      unfolding submit_outcome_def using s'(3) vs par len shots
      by (auto intro!: exI [of _ config] exI [of _ ch])
    ultimately show ?thesis using True v sub s'(1) un' by auto
  qed
qed

lemma submit_split_task_ok:
  assumes inv: "cinv D G K {} s" and l: "lock_free l" "lock (sched s) = locked l" and rel: "rely D G K interf"
    and dec: "split_decision (metadata task) qm (\<not> Option.is_none (split_task (callbacks (sched s)))) c0 =
      (QHW_SCHED_OK, config, True)"
  shows "succeeds (submit_split_task D interf s task config) (\<lambda>(rc, s'). sched_inv D G K s' \<and>
    (\<exists>s0. base D G K interf s s0 \<and> submit_outcome D G task s0 rc s'))"
proof -
  let ?cbs = "callbacks (sched s)" and ?n = "slice_count config"
  note facts = split_decision_facts [OF dec]
  have "0 < ?n" using facts by blast
  then have n0: "0 < unat ?n" by (simp add: word_less_nat_alt)
  obtain splitter where sp: "split_task ?cbs = Some splitter" using facts by (auto simp: Option.is_none_def split: option.splits)
  obtain got e0 where al: "env_alloc (env s) = (got, e0)" by force
  have base0: "base D G K interf s (s\<lparr>env := e\<rparr>)" for e by (simp add: base_def unchanged_def)
  note un0 = unlock_inside [OF l inv]
  have un0': "unlock_return r (s\<lparr>env := e\<rparr>) = Some (r, with_lock l (s\<lparr>env := e\<rparr>))"
    "sched_unlock (s\<lparr>env := e\<rparr>) = Some (with_lock l (s\<lparr>env := e\<rparr>))"
    "sched_inv D G K (with_lock l (s\<lparr>env := e\<rparr>))" for r e
    using unlock_inside [of l "s\<lparr>env := e\<rparr>"] inv l by simp_all
  have early: "sched_inv D G K (with_lock l (s\<lparr>env := e\<rparr>)) \<and>
      (\<exists>s0. base D G K interf s s0 \<and> submit_outcome D G task s0 rc (with_lock l (s\<lparr>env := e\<rparr>)))"
    if "rc \<noteq> QHW_SCHED_OK" for rc e
    using that base0 [of e] un0'(3) by (auto simp: submit_outcome_def intro!: exI [of _ "s\<lparr>env := e\<rparr>"])
  show ?thesis
  proof (cases "SIZE_MAX div sizeof_task_desc < unat ?n \<or> \<not> got")
    case True
    then show ?thesis using early [of QHW_SCHED_ERR_UNSUPPORTED "env s"] early [of QHW_SCHED_ERR_NO_MEMORY e0] al
      by (auto simp: submit_split_task_def Let_def un0 un0')
  next
    case False
    define blank where "blank = replicate (unat ?n) (task\<lparr>task_id := 0, parent_task_id := task_id task\<rparr>)"
    obtain rc1 filled where spl: "splitter (env_calls e0) task config blank = (rc1, filled)" by force
    define e1 where "e1 = e0\<lparr>env_calls := Suc (env_calls e0)\<rparr>"
    define ch1 where "ch1 = map filled [0..<unat ?n]"
    obtain rc2 ch e2 where est: "(if rc1 = QHW_SCHED_OK then estimate_child_costs ?cbs (profile (qpu s)) ch1 e1
        else (rc1, ch1, e1)) = (rc2, ch, e2)" by (metis prod_cases3)
    have len: "length ch = unat ?n"
      using est estimate_child_costs_map [of ?cbs "profile (qpu s)" ch1 e1 rc2 ch e2]
      by (auto simp: ch1_def split: if_splits)
    define s1 where "s1 = (with_lock l s)\<lparr>env := e2\<rparr>"
    have inv1: "sched_inv D G K s1" using inv l by (simp add: s1_def sched_inv_def)
    define s2 where "s2 = interf s1"
    have inv2: "sched_inv D G K s2" using rel inv1 by (simp add: rely_def s2_def)
    then have ci2: "cinv D G K {} (entered s2)" by (simp add: sched_inv_def)
    define l2 where "l2 = lock (sched s2)"
    define rc3 where "rc3 = (if rc2 = QHW_SCHED_OK \<and>
        qhw_task_table_find D (tasks (sched s2)) (task_id task) \<noteq> None then QHW_SCHED_ERR_EXISTS else rc2)"
    from compute_split_ok [OF ci2, of task] obtain rc4 cfg should s3 where
      comp: "compute_split_config (entered s2) task = Some (rc4, cfg, should, s3)"
      and s3: "cinv D G K {} s3" "frame (entered s2) s3" "unchanged D G (entered s2) s3"
      by (auto simp: succeeds_iff)
    define locked_part where "locked_part =
      (if rc3 \<noteq> QHW_SCHED_OK then Some (rc3, entered s2)
       else if rc4 \<noteq> QHW_SCHED_OK then Some (rc4, s3)
       else if \<not> should \<or> slice_count cfg \<noteq> slice_count config \<or> slice_shots cfg \<noteq> slice_shots config
       then Some (QHW_SCHED_ERR_STATE, s3)
       else
         let (rc, m) = validate_child_tasks D (tasks (sched s3)) task ch config ?n (env_mem (env s3));
             s = upd_mem m s3
         in if rc \<noteq> QHW_SCHED_OK then Some (rc, s) else submit_split_task_locked D s task ch ?n)"
    have run: "submit_split_task D interf s task config = do { (rc, s) \<leftarrow> locked_part; unlock_return rc s }"
    proof -
      have "with_lock l (s\<lparr>env := e0\<rparr>)\<lparr>env := e2\<rparr> = s1" by (simp add: s1_def with_lock_def)
      then show ?thesis
        using False al sp spl est comp un0'(2) [of e0] enter [OF inv2]
        by (simp add: submit_split_task_def Let_def blank_def [symmetric] e1_def [symmetric]
            ch1_def [symmetric] locked_part_def rc3_def s2_def [symmetric] cong: if_cong)
    qed
    have lk2: "lock_free l2" "lock (sched (entered s2)) = locked l2" "lock (sched s3) = locked l2"
      using inv2 s3(2) by (simp_all add: l2_def frame_def)
    have base1: "base D G K interf s s0" if "unchanged D G s2 s0" for s0
      using that inv1 by (auto simp: base_def s1_def s2_def unchanged_def intro!: exI [of _ s1])
    have un3: "unchanged D G s2 s3" using s3(3) by simp
    have "succeeds locked_part (\<lambda>(rc, s'). cinv D G K {} s' \<and> lock (sched s') = locked l2 \<and>
      (\<exists>s0. unchanged D G s2 s0 \<and> submit_outcome D G task s0 rc s'))"
      unfolding locked_part_def by (rule split_locked_part) (use ci2 s3 un3 lk2 len n0 facts in auto)
    then obtain rc s' s0 where res: "locked_part = Some (rc, s')" "cinv D G K {} s'" "lock (sched s') = locked l2"
      "unchanged D G s2 s0" "submit_outcome D G task s0 rc s'" by (fastforce simp: succeeds_iff)
    then show ?thesis unfolding run
      by (auto simp: unlock_inside [OF lk2(1)] intro!: exI [of _ s0] base1)
  qed
qed

text \<open>
  The whole operation: it returns, keeps the invariant, and either enqueues the task (whole, or as a
  waiting parent with its children) in the state its final critical section found, or changes nothing.
\<close>

lemma base_unchanged: "unchanged D G s s' \<Longrightarrow> base D G K interf s' s0 \<Longrightarrow> base D G K interf s s0"
  unfolding base_def by (auto intro: unchanged_trans)

lemma submit_ok:
  assumes inv: "sched_inv D G K s" and rel: "rely D G K interf"
  shows "succeeds (qhw_sched_submit_task D interf False s (Some task)) (\<lambda>(rc, s'). sched_inv D G K s' \<and>
    (\<exists>s0. base D G K interf s s0 \<and> submit_outcome D G task s0 rc s'))"
proof -
  let ?Q = "\<lambda>(rc, s'). sched_inv D G K s' \<and> (\<exists>s0. base D G K interf s s0 \<and> submit_outcome D G task s0 rc s')"
  define l where "l = lock (sched s)"
  have l: "lock_free l" "lock (sched (entered s)) = locked l" using inv by (simp_all add: l_def)
  have ci: "cinv D G K {} (entered s)" using inv by (simp add: sched_inv_def)
  have rej: "?Q (rc, with_lock l s')" if "rc \<noteq> QHW_SCHED_OK" "unchanged D G s s'" "cinv D G K {} s'" for rc s'
    using that l(1) by (auto simp: submit_outcome_def base_def sched_inv_def intro!: exI [of _ s'])
  show ?thesis
  proof (cases "qhw_task_table_find D (tasks (sched s)) (task_id task) = None")
    case False
    then show ?thesis using rej [of QHW_SCHED_ERR_EXISTS "entered s"] ci
      by (auto simp: qhw_sched_submit_task_def enter [OF inv] unlock_inside [OF l])
  next
    case True
    from compute_split_ok [OF ci, of task] obtain rc cfg should s1 where
      comp: "compute_split_config (entered s) task = Some (rc, cfg, should, s1)"
      and s1: "cinv D G K {} s1" "frame (entered s) s1" "unchanged D G (entered s) s1"
      and dec: "should \<longrightarrow> (\<exists>c0. split_decision (metadata task) (qp_metadata (profile (qpu s)))
          (\<not> Option.is_none (split_task (callbacks (sched s)))) c0 = (rc, cfg, True))"
      by (fastforce simp: succeeds_iff)
    have l1: "lock (sched s1) = locked l" and cb: "callbacks (sched s1) = callbacks (sched s)"
      using s1(2) l(2) by (simp_all add: frame_def)
    have un: "unchanged D G s s1" using s1(3) by simp
    have "succeeds (if rc \<noteq> QHW_SCHED_OK then unlock_return rc s1
        else if \<not> should then submit_whole_task D interf s1 task
        else submit_split_task D interf s1 task cfg) ?Q"
    proof (cases "rc = QHW_SCHED_OK")
      case False
      then show ?thesis using rej [OF False un s1(1)] by (simp add: unlock_inside [OF l(1) l1 s1(1)])
    next
      case rc: True
      show ?thesis
      proof (cases should)
        case True
        then obtain c0 where "split_decision (metadata task) (qp_metadata (profile (qpu s)))
            (\<not> Option.is_none (split_task (callbacks (sched s1)))) c0 = (QHW_SCHED_OK, cfg, True)"
          using dec cb rc by auto
        from submit_split_task_ok [OF s1(1) l(1) l1 rel this] True rc show ?thesis
          by (auto elim!: succeeds_mono intro: base_unchanged [OF un])
      next
        case False
        then show ?thesis using submit_whole_ok [OF s1(1) l(1) l1 rel, of task] rc
          by (auto elim!: succeeds_mono intro: base_unchanged [OF un])
      qed
    qed
    then show ?thesis using True comp by (simp add: qhw_sched_submit_task_def enter [OF inv])
  qed
qed

end

end
