(* ===== verification/Sched_Lifecycle.thy ===== *)
theory Sched_Lifecycle
  imports Sched_Submit
begin

section \<open>Life cycle and policies\<close>

text \<open>
  Contracts of \<^verbatim>\<open>qhw_sched_create\<close>, \<^verbatim>\<open>qhw_sched_destroy\<close>, \<^verbatim>\<open>qhw_sched_load_plugin\<close>,
  \<^verbatim>\<open>qhw_sched_list_policies\<close> and \<^verbatim>\<open>qhw_sched_set_policy\<close>. A QPU that no scheduler has used yet is idle:
  nothing queued, nothing running.
\<close>

definition idle_qpu :: "qhw_sched_qpu \<Rightarrow> bool" where
  "idle_qpu q \<longleftrightarrow> qpu_ok q \<and> queued_count (runtime q) = 0 \<and> running_task_id (runtime q) = 0 \<and> refcount q < UINT64_MAX"

lemma ops_destroy_free [simp]: "lock_free l \<Longrightarrow> \<exists>l'. ops_destroy l = Some l'"
  by (auto simp: lock_free_def ops_destroy_def mutex_destroy_def noop_destroy_def)

lemma release_eq:
  assumes "qpu_ok q"
  shows "qhw_qpu_release q = Some (if refcount q = 1 then None else Some (q\<lparr>refcount := refcount q - 1\<rparr>))"
proof -
  have free: "lock_free (qpu_lock q)" using assms by simp
  obtain l where "ops_destroy (qpu_lock q) = Some l" using ops_destroy_free [OF free] by blast
  then show ?thesis using free by (simp add: qhw_qpu_release_def Let_def)
qed

text \<open>
  A successful change installs the plugin of that name with the state that its initialisation and the
  replay of the queued tasks, oldest first, produce; every other outcome leaves the old policy alone.
\<close>

definition replayed :: 
  "('h, 'l, 'q) ds \<Rightarrow> ('h, 'l, 'q) ghost \<Rightarrow> 'p qhw_sched_plugin_desc \<Rightarrow> kv_ref \<Rightarrow> ('h, 'l, 'p) sys \<Rightarrow> 'p option \<Rightarrow> bool" where
  "replayed D G d opts s st \<longleftrightarrow> (\<exists>ini st0 e0 e1. pd_init d = Some ini \<and> ini opts (env s) = Some (QHW_SCHED_OK, st0, e0) \<and>
     run_all (replay_queued_task d) (tt_queued D G (tasks (sched s))) (st0, e0) = Some (QHW_SCHED_OK, st, e1))"

lemma fold_remove1_mset: "mset (fold remove1 xs ys) = mset ys - mset xs"
  by (induction xs arbitrary: ys) simp_all

context scheduler_core
begin

lemma create_ok:
  assumes q: "idle_qpu q"
  shows "succeeds (qhw_sched_create D policy_null attr (Some q) options e) (\<lambda>(rc, sys, e').
    case sys of
      None \<Rightarrow> rc \<noteq> QHW_SCHED_OK
    | Some s \<Rightarrow> rc = QHW_SCHED_OK \<and> sched_inv D G K s \<and> task_map_of D s = Map.empty \<and> order_of G s = [] \<and>
        \<not> policy_is_active s \<and> items (plugins (sched s)) = [] \<and> qpu s = q\<lparr>refcount := refcount q + 1\<rparr>)"
proof (cases "qhw_allocator_init (case attr of None \<Rightarrow> None | Some a \<Rightarrow> attr_allocator a)")
  case (Pair rca al)
  let ?mode = "get_threading attr"
  obtain got e1 where 1: "env_alloc e = (got, e1)" by force
  obtain rcl l e2 where 2: "qhw_thread_init ?mode zero_mutex e1 = (rcl, l, e2)" by (metis prod_cases3)
  obtain rct tt m where 3: "qhw_task_table_init D (env_mem e2) = (rct, tt, m)" by (metis prod_cases3)
  have al: "al = None \<Longrightarrow> rca \<noteq> QHW_SCHED_OK"
    using Pair by (auto simp: qhw_allocator_init_def split: option.splits prod.splits)
  note t = table_init_ok [OF 3]
  have l: "rcl = QHW_SCHED_OK \<Longrightarrow> lock_free l" using 2 thread_init_free by simp
  then obtain l' where l': "rcl = QHW_SCHED_OK \<Longrightarrow> ops_destroy l = Some l'" using ops_destroy_free by blast
  have q': "qpu_ok q" "qpu_ok (q\<lparr>refcount := refcount q + 1\<rparr>)"
    using q by (auto simp: idle_qpu_def qpu_ok_def lock_free_def unsigned_eq_0_iff unat_word_ariths word_less_nat_alt)
  show ?thesis
  proof (cases tt)
    case None
    then show ?thesis using Pair 1 2 3 al l' t by (auto simp: qhw_sched_create_def Let_def split: option.split)
  next
    case (Some tt')
    then show ?thesis using Pair 1 2 3 al l t q q'
      by (auto simp: qhw_sched_create_def Let_def sched_inv_def cinv_def task_map_of_def order_of_def runtime_ok_def
          waiting_ok_def ids_in_def policy_ok_def plugins_ok_def idle_qpu_def empty_registry_def zero_plugin_desc_def
          registry_ok_def policy_is_active_def List.map_filter_def split: option.split)
  qed
qed

text \<open>Destruction frees every task record, closes every plugin and drops one reference of the QPU.\<close>

lemma destroy_ok:
  assumes inv: "sched_inv D G K s"
  shows "\<exists>e A. qhw_sched_destroy D (Some s) =
    Some (Some (if refcount (qpu s) = 1 then None else Some ((qpu s)\<lparr>refcount := refcount (qpu s) - 1\<rparr>), e, [], A)) \<and>
    cells A = Map.empty"
proof -
  have ok: "table_ok D G (tasks (sched s))" and q: "qpu_ok (qpu s)"
    and pol: "policy_ok K (task_map_of D s) (policy_desc (sched s)) (policy_state (sched s))"
    and reg: "plugins_ok K (plugins (sched s)) (open_handles s)" and l: "lock_free (lock (sched s))"
    using inv by (simp_all add: sched_inv_def cinv_def)
  obtain e where e: "(case pd_fini (policy_desc (sched s)) of None \<Rightarrow> Some (env s)
      | Some f \<Rightarrow> f (policy_state (sched s)) (env s)) = Some e"
    using policy_fini [OF pol] by (cases "pd_fini (policy_desc (sched s))") (fastforce simp: succeeds_iff)+
  obtain tt where tt: "qhw_task_table_fini D (tasks (sched s)) = Some tt" "cells (records tt) = Map.empty"
    using fini_ok [OF ok] by (auto simp: succeeds_iff)
  obtain l' where l': "ops_destroy (lock (sched s)) = Some l'" using ops_destroy_free [OF l] by blast
  let ?hs = "List.map_filter pl_dl_handle (items (plugins (sched s)))"
  have "fold remove1 ?hs (open_handles s) = []"
  proof -
    have "mset (open_handles s) = mset ?hs" using reg by (simp add: plugins_ok_def)
    then have "mset (fold remove1 ?hs (open_handles s)) = {#}"
      by (simp add: fold_remove1_mset)
    then show ?thesis by simp
  qed
  then show ?thesis using e tt l' release_eq [OF q]
    by (simp add: qhw_sched_destroy_def qhw_plugin_registry_fini_def Let_def)
qed

subsection \<open>Replaying the queue into a new policy\<close>

lemma replay_ok:
  assumes good: "good K d" and p: "pinv K d p"
    and ids: "distinct (map (\<lambda>r. task_id (desc r)) rs)" "\<forall>r \<in> set rs. task_id (desc r) \<noteq> 0 \<and> task_id (desc r) \<notin> ready K d p"
  shows "succeeds (run_all (replay_queued_task d) rs (Some p, e)) (\<lambda>(rc, st, e'). \<exists>p'. st = Some p' \<and> pinv K d p' \<and>
    (rc = QHW_SCHED_OK \<longrightarrow> ready K d p' = ready K d p \<union> (\<lambda>r. task_id (desc r)) ` set rs))"
  using p ids
proof (induction rs arbitrary: p e)
  case (Cons r rs)
  obtain f where f: "pd_on_task_submit d = Some f"
    using policy_plugin.complete [OF policies [OF good]] by (auto simp: desc_complete_def)
  from policy_plugin.submit_law [OF policies [OF good] f Cons.prems(1), of "desc r" e] Cons.prems(3)
  obtain rc p1 e1 where call: "f (Some p) (desc r) e = Some (rc, Some p1, e1)" and p1: "pinv K d p1"
    "ready K d p1 = (if rc = QHW_SCHED_OK then insert (task_id (desc r)) (ready K d p) else ready K d p)"
    by (auto simp: succeeds_iff)
  show ?case
  proof (cases "rc = QHW_SCHED_OK")
    case False
    then show ?thesis using call p1 f by (simp add: replay_queued_task_def)
  next
    case True
    have "\<forall>r' \<in> set rs. task_id (desc r') \<noteq> 0 \<and> task_id (desc r') \<notin> ready K d p1"
      using Cons.prems p1 True by (force simp: image_iff)
    from Cons.IH [OF p1(1) _ this] Cons.prems(2) show ?thesis
      using call p1 f True by (auto simp: replay_queued_task_def elim!: succeeds_mono)
  qed
qed simp

lemma set_policy_ok:
  assumes inv: "sched_inv D G K s"
  shows "succeeds (qhw_sched_set_policy D False s (Some nm) opts) (\<lambda>(rc, s').
    sched_inv D G K s' \<and> unchanged D G s s' \<and> plugins (sched s') = plugins (sched s) \<and>
    (if rc = QHW_SCHED_OK
     then (\<exists>it \<in> set (items (plugins (sched s))). pd_name (pl_desc it) = Some nm \<and>
       policy_desc (sched s') = pl_desc it \<and> replayed D G (pl_desc it) opts s (policy_state (sched s')))
     else policy_desc (sched s') = policy_desc (sched s) \<and> policy_state (sched s') = policy_state (sched s)))"
proof -
  let ?tt = "tasks (sched s)" and ?T = "task_map_of D s"
  have ci: "cinv D G K {} s" using inv by (simp add: sched_inv_def)
  then have ok: "table_ok D G ?tt" and key: "keyed ?T" and reg: "plugins_ok K (plugins (sched s)) (open_handles s)"
    and pol: "policy_ok K ?T (policy_desc (sched s)) (policy_state (sched s))"
    using cinv_keyed by (simp_all add: cinv_def)
  have l: "lock_free (lock (sched s))" using inv by simp
  have un: "unlock_return rc ((entered s)\<lparr>env := e\<rparr>) = Some (rc, s\<lparr>env := e\<rparr>)" for rc e
    using l by (simp add: unlock_return_def sched_unlock_def with_lock_def)
  have keep: "sched_inv D G K (s\<lparr>env := e\<rparr>) \<and> unchanged D G s (s\<lparr>env := e\<rparr>)" for e
    using inv by (simp add: sched_inv_def unchanged_def)
  show ?thesis
  proof (cases "qhw_plugin_registry_find (plugins (sched s)) (Some nm)")
    case None
    then show ?thesis using inv by (simp add: qhw_sched_set_policy_def enter [OF inv] leave_same [OF inv])
  next
    case (Some it)
    have it: "it \<in> set (items (plugins (sched s)))" "pd_name (pl_desc it) = Some nm" "good K (pl_desc it)"
      using registry_find_ok [OF _ Some] reg by (auto simp: plugins_ok_def)
    let ?d = "pl_desc it"
    obtain ini fini where f: "pd_init ?d = Some ini" "pd_fini ?d = Some fini"
      using policy_plugin.complete [OF policies [OF it(3)]] by (auto simp: desc_complete_def)
    from policy_plugin.init_law [OF policies [OF it(3)] f(1), of opts "env s"] obtain rc st0 e0 where
      init: "ini opts (env s) = Some (rc, st0, e0)"
        "rc = QHW_SCHED_OK \<longrightarrow> (\<exists>p. st0 = Some p \<and> pinv K ?d p \<and> ready K ?d p = {})"
      by (elim succeeds3E) blast
    show ?thesis
    proof (cases "kv_count opts > 0 \<and> kv_is_null opts \<or> rc \<noteq> QHW_SCHED_OK")
      case True
      then show ?thesis using Some f init inv
        by (auto simp: qhw_sched_set_policy_def enter [OF inv] leave_same [OF inv] un keep)
    next
      case False
      then obtain p0 where p0: "st0 = Some p0" "pinv K ?d p0" "ready K ?d p0 = {}" using init by auto
      have "\<forall>r \<in> set (tt_queued D G ?tt). task_id (desc r) \<noteq> 0 \<and> task_id (desc r) \<notin> ready K ?d p0"
        using key p0 by (auto simp: set_tt_queued [OF ok] keyed_def task_map_of_def)
      from replay_ok [OF it(3) p0(2) distinct_tt_queued [OF ok] this, of e0] obtain rc2 p1 e1 where
        rep: "run_all (replay_queued_task ?d) (tt_queued D G ?tt) (st0, e0) = Some (rc2, Some p1, e1)"
        and p1: "pinv K ?d p1"
          "rc2 = QHW_SCHED_OK \<longrightarrow> ready K ?d p1 = ready K ?d p0 \<union> (\<lambda>r. task_id (desc r)) ` set (tt_queued D G ?tt)"
        unfolding p0(1) by (elim succeeds3E) blast
      show ?thesis
      proof (cases "rc2 = QHW_SCHED_OK")
        case False
        from policy_plugin.fini_law [OF policies [OF it(3)] f(2) p1(1), of e1] obtain e2 where
          "fini (Some p1) e1 = Some e2" by (auto simp: succeeds_iff)
        then show ?thesis using \<open>\<not> (_ \<or> _)\<close> Some f init rep False
          by (auto simp: qhw_sched_set_policy_def enter [OF inv] for_each_queued_run [OF ok] un keep)
      next
        case True
        obtain e2 where e2: "(case pd_fini (policy_desc (sched s)) of None \<Rightarrow> Some e1
            | Some f \<Rightarrow> f (policy_state (sched s)) e1) = Some e2"
          using policy_fini [OF pol] by (cases "pd_fini (policy_desc (sched s))") (fastforce simp: succeeds_iff)+
        let ?s = "s\<lparr>sched := (sched s)\<lparr>policy_desc := ?d, policy_state := Some p1\<rparr>, env := e2\<rparr>"
        have "(\<lambda>r. task_id (desc r)) ` set (tt_queued D G ?tt) = ids_in ?T QHW_SCHED_TASK_QUEUED"
          using key by (force simp: set_tt_queued [OF ok] ids_in_def keyed_def task_map_of_def)
        then have "policy_ok K ?T ?d (Some p1)" using p1 True p0(3) it(3) by (simp add: policy_ok_def)
        then have inv': "sched_inv D G K ?s" "unchanged D G s ?s"
          using inv by (simp_all add: sched_inv_def cinv_def unchanged_def task_map_of_def order_of_def)
        have un2: "unlock_return QHW_SCHED_OK (let s1 = (entered s)\<lparr>env := e1\<rparr> in
            s1\<lparr>sched := (sched s1)\<lparr>policy_desc := ?d, policy_state := Some p1\<rparr>, env := e2\<rparr>) = Some (QHW_SCHED_OK, ?s)"
          using l by (simp add: unlock_return_def sched_unlock_def with_lock_def)
        have "replayed D G ?d opts s (Some p1)" using f init rep False True by (auto simp: replayed_def)
        then show ?thesis using False Some f init rep True e2 inv' un2 it
          by (auto simp: qhw_sched_set_policy_def enter [OF inv] for_each_queued_run [OF ok] Let_def cong: option.case_cong)
      qed
    qed
  qed
qed

lemma load_plugin_ok:
  assumes inv: "sched_inv D G K s" and trust: "\<And>d. dl_descriptor (loader path) = Some (Some d) \<Longrightarrow> good K d"
  shows "succeeds (qhw_sched_load_plugin False s (Some path) loader) (\<lambda>(rc, s').
    sched_inv D G K s' \<and> unchanged D G s s' \<and>
    policy_desc (sched s') = policy_desc (sched s) \<and> policy_state (sched s') = policy_state (sched s) \<and>
    (if rc = QHW_SCHED_OK
     then (\<exists>d h. items (plugins (sched s')) = items (plugins (sched s)) @
          [\<lparr>pl_desc = d, pl_path = Some path, pl_dl_handle = Some h\<rparr>] \<and>
        pd_name d \<notin> (\<lambda>it. pd_name (pl_desc it)) ` set (items (plugins (sched s))) \<and>
        validate_plugin_desc (threading (sched s)) (Some d) = QHW_SCHED_OK)
     else items (plugins (sched s')) = items (plugins (sched s)) \<and> open_handles s' = open_handles s))"
proof -
  have reg: "plugins_ok K (plugins (sched s)) (open_handles s)" and l: "lock_free (lock (sched s))"
    using inv by (simp_all add: sched_inv_def cinv_def)
  have err: "sched_inv D G K (set_last_error msg s) \<and> unchanged D G s (set_last_error msg s)" for msg
    using inv by (simp add: set_last_error_def sched_inv_def cinv_def unchanged_def task_map_of_def order_of_def)
  have close: "dlclose h (set_last_error msg (s\<lparr>open_handles := h # open_handles s\<rparr>)) = set_last_error msg s" for h msg
    by (simp add: dlclose_def set_last_error_def)
  show ?thesis
  proof (cases "dl_handle (loader path)")
    case None
    then show ?thesis using err by (simp add: qhw_sched_load_plugin_def set_last_error_def)
  next
    case (Some h)
    show ?thesis
    proof (cases "dl_descriptor (loader path)")
      case None
      then show ?thesis using Some err by (simp add: qhw_sched_load_plugin_def close) (simp add: set_last_error_def)
    next
      case dd: (Some dopt)
      show ?thesis
      proof (cases "validate_plugin_desc (threading (sched s)) dopt = QHW_SCHED_OK")
        case False
        then show ?thesis using Some dd err
          by (simp add: qhw_sched_load_plugin_def close) (simp add: set_last_error_def)
      next
        case True
        then obtain d where d: "dopt = Some d" by (cases dopt) (simp_all add: validate_plugin_desc_def)
        have comp: "desc_complete d" using True d validate_complete by blast
        have gd: "good K d" using trust dd d by simp
        obtain rc reg' e where add: "qhw_plugin_registry_add (plugins (sched s)) d (Some path) (Some h) (env s) = (rc, reg', e)"
          by (metis prod_cases3)
        have rok: "registry_ok (plugins (sched s))" using reg by (simp add: plugins_ok_def)
        note r = registry_add_ok [OF rok comp add]
        let ?hs = "if rc \<noteq> QHW_SCHED_OK then open_handles s else h # open_handles s"
        let ?s = "s\<lparr>sched := (sched s)\<lparr>plugins := reg'\<rparr>, env := e, open_handles := ?hs\<rparr>"
        have run: "qhw_sched_load_plugin False s (Some path) loader = Some (rc, ?s)"
          using Some dd True d add l
          by (auto simp: qhw_sched_load_plugin_def sched_lock_def sched_unlock_def Let_def dlclose_def)
        have "plugins_ok K reg' ?hs"
          using reg r gd by (auto simp: plugins_ok_def List.map_filter_def split: if_splits)
        then have "sched_inv D G K ?s" "unchanged D G s ?s"
          using inv by (simp_all add: sched_inv_def cinv_def unchanged_def task_map_of_def order_of_def)
        then show ?thesis using r True d unfolding run by auto
      qed
    qed
  qed
qed

lemma list_policies_ok:
  assumes inv: "sched_inv D G K s"
  shows "succeeds (qhw_sched_list_policies False False s) (\<lambda>((rc, out), s').
    sched_inv D G K s' \<and> unchanged D G s s' \<and>
    (if rc = QHW_SCHED_OK then out = Some (map policy_info (items (plugins (sched s))))
     else rc = QHW_SCHED_ERR_NO_MEMORY \<and> out = None))"
proof -
  obtain got e where al: "env_alloc (env s) = (got, e)" by force
  have un: "unlock_return rc ((entered s)\<lparr>env := e\<rparr>) = Some (rc, s\<lparr>env := e\<rparr>)" for rc :: "qhw_sched_rc \<times> qhw_sched_policy_info list option"
    using inv by (simp add: unlock_return_def sched_unlock_def with_lock_def)
  have "sched_inv D G K (s\<lparr>env := e\<rparr>) \<and> unchanged D G s (s\<lparr>env := e\<rparr>)"
    using inv by (simp add: sched_inv_def unchanged_def)
  then show ?thesis using al un inv
    by (auto simp: qhw_sched_list_policies_def enter [OF inv] leave_same [OF inv] Let_def)
qed

end

end
