(* ===== verification/Sched_System.thy ===== *)
theory Sched_System
  imports Sched_Lifecycle
begin

section \<open>The scheduler as a transition system\<close>

text \<open>
  The calls of the public interface as steps between scheduler states, in any order and by any number
  of threads: while a submission has released the lock to run the user's callbacks, the other threads
  may make any number of calls. Every such sequence that starts with \<^verbatim>\<open>qhw_sched_create\<close> on an idle
  QPU keeps the invariant, and task states only move along the edges of the task state machine.
\<close>

subsection \<open>Task states\<close>

text \<open>The moves of a single task; every other change of state is rejected by the code.\<close>

inductive task_move :: "qhw_sched_task_state \<Rightarrow> qhw_sched_task_state \<Rightarrow> bool" where
  assigned: "task_move QHW_SCHED_TASK_QUEUED QHW_SCHED_TASK_ASSIGNED"
| started: "st \<in> {QHW_SCHED_TASK_QUEUED, QHW_SCHED_TASK_ASSIGNED} \<Longrightarrow> task_move st QHW_SCHED_TASK_RUNNING"
| completed: "task_move QHW_SCHED_TASK_RUNNING QHW_SCHED_TASK_COMPLETED"
| stopped: "live_state st \<Longrightarrow> st' \<in> {QHW_SCHED_TASK_FAILED, QHW_SCHED_TASK_CANCELLED} \<Longrightarrow> task_move st st'"
| joined: "task_state_is_terminal st \<Longrightarrow> task_move QHW_SCHED_TASK_WAITING st"

inductive_cases task_move_from: "task_move st st'"

inductive_simps task_move_waiting: "task_move QHW_SCHED_TASK_WAITING st"

lemma task_move_terminal: "task_state_is_terminal st \<Longrightarrow> \<not> task_move st st'"
  by (auto simp: task_state_is_terminal_def live_state_def elim!: task_move_from)

lemma task_moves_terminal: "rtranclp task_move st st' \<Longrightarrow> task_state_is_terminal st \<Longrightarrow> st' = st"
  by (induction rule: converse_rtranclp_induct) (auto dest: task_move_terminal)

text \<open>From one table to a later one: no task is lost or renamed, and each moves along the state machine.\<close>

definition forward :: "task_map \<Rightarrow> task_map \<Rightarrow> bool" where
  "forward T T' \<longleftrightarrow> (\<forall>tid r. T tid = Some r \<longrightarrow>
     (\<exists>r'. T' tid = Some r' \<and> rtranclp task_move (state r) (state r') \<and>
        enqueue_seq r' = enqueue_seq r \<and> parent_task_id (desc r') = parent_task_id (desc r)))"

lemma forward_refl [simp]: "forward T T"
  by (simp add: forward_def)

lemma forward_trans [trans]: "forward T T' \<Longrightarrow> forward T' T'' \<Longrightarrow> forward T T''"
  unfolding forward_def by (metis rtranclp_trans)

lemma forward_new: "T tid = None \<Longrightarrow> forward T (T(tid \<mapsto> r))"
  by (auto simp: forward_def)

lemma forward_upd:
  "T tid = Some r \<Longrightarrow> rtranclp task_move (state r) (state r') \<Longrightarrow> enqueue_seq r' = enqueue_seq r \<Longrightarrow>
   parent_task_id (desc r') = parent_task_id (desc r) \<Longrightarrow> forward T (T(tid \<mapsto> r'))"
  by (auto simp: forward_def)

lemma enqueue_seq_parent_after [simp]: "enqueue_seq (parent_after r st) = enqueue_seq r"
  by (simp add: parent_after_def count_outcome_def Let_def)

lemma parent_after_move:
  assumes "state r = QHW_SCHED_TASK_WAITING"
  shows "rtranclp task_move (state r) (state (parent_after r st))"
proof -
  have "task_state_is_terminal (aggregate_state x)" for x
    by (simp add: aggregate_state_def task_state_is_terminal_def)
  then show ?thesis using assms by (auto simp: parent_after_def Let_def intro!: r_into_rtranclp joined)
qed

lemma forward_parent_step: "forward T (parent_step T child st)"
  using parent_after_move
  by (auto simp: parent_step_def split: option.splits intro!: forward_upd)

lemma forward_split:
  assumes "split_submitted D G s task children s'"
  shows "forward (task_map_of D s) (task_map_of D s')"
proof -
  have "task_map_of D s' tid = Some r" if "task_map_of D s tid = Some r" for tid r
    using assms that unfolding split_submitted_def
    by (cases "tid \<in> insert (task_id task) (task_id ` set children)") auto
  then show ?thesis by (auto simp: forward_def)
qed

subsection \<open>Each call keeps the invariant and moves forward\<close>

definition safe_call ::
  "('h, 'l, 'q) ds \<Rightarrow> ('h, 'l, 'q) ghost \<Rightarrow> 'p contract \<Rightarrow> ('h, 'l, 'p) sys \<Rightarrow> ('a \<times> ('h, 'l, 'p) sys) option \<Rightarrow> bool" where
  "safe_call D G K s m \<longleftrightarrow>
     succeeds m (\<lambda>(_, s'). sched_inv D G K s' \<and> forward (task_map_of D s) (task_map_of D s'))"

context scheduler_core
begin

lemma safe_same: "sched_inv D G K s \<Longrightarrow> m = Some (r, s) \<Longrightarrow> safe_call D G K s m"
  by (simp add: safe_call_def)

lemma safe_unchanged:
  "succeeds m (\<lambda>(r, s'). sched_inv D G K s' \<and> unchanged D G s s' \<and> Q r s') \<Longrightarrow> safe_call D G K s m"
  unfolding safe_call_def by (auto simp: succeeds_iff unchanged_def)

lemma safe_finish:
  assumes inv: "sched_inv D G K s" and st: "task_state_is_terminal st"
  shows "safe_call D G K s (finish_task D False s tid st)"
proof (cases "task_map_of D s tid")
  case None
  then show ?thesis using finish_missing [OF inv None] inv by (simp add: safe_call_def)
next
  case (Some r)
  show ?thesis
  proof (cases "live_state (state r) \<and> (st = QHW_SCHED_TASK_COMPLETED \<longrightarrow> state r = QHW_SCHED_TASK_RUNNING)")
    case True
    let ?T1 = "(task_map_of D s)(tid \<mapsto> r\<lparr>state := st\<rparr>)"
    have "task_move (state r) st"
      using True st by (auto simp: task_state_is_terminal_def intro: completed stopped)
    then have "forward (task_map_of D s) ?T1" by (intro forward_upd [of "task_map_of D s", OF Some]) auto
    then have "forward (task_map_of D s) (parent_step ?T1 (r\<lparr>state := st\<rparr>) st)"
      using forward_parent_step forward_trans by blast
    moreover have "succeeds (finish_task D False s tid st) (\<lambda>(rc, s'). sched_inv D G K s' \<and> frame s s' \<and>
        finish_effect D G s tid r st s')"
      by (rule finish_accepted [OF inv Some _ st]) (use True in auto)
    ultimately show ?thesis unfolding safe_call_def by (auto simp: finish_effect_def elim!: succeeds_mono)
  next
    case False
    then show ?thesis using finish_rejected [OF inv Some, of st] inv by (auto simp: safe_call_def)
  qed
qed

lemma safe_started:
  assumes inv: "sched_inv D G K s"
  shows "safe_call D G K s (qhw_sched_task_started D False s tid)"
proof (cases "task_map_of D s tid")
  case None
  then show ?thesis using start_missing [OF inv None] inv by (simp add: safe_call_def)
next
  case (Some r)
  show ?thesis
  proof (cases "start_allowed s r \<and> running_task_id (runtime (qpu s)) = 0")
    case True
    then have go: "start_allowed s r" "running_task_id (runtime (qpu s)) = 0" by simp_all
    then have "task_move (state r) QHW_SCHED_TASK_RUNNING" by (auto simp: start_allowed_def intro: started)
    then have "forward (task_map_of D s) ((task_map_of D s)(tid \<mapsto> r\<lparr>state := QHW_SCHED_TASK_RUNNING\<rparr>))"
      by (intro forward_upd [of "task_map_of D s", OF Some]) auto
    moreover obtain rc s' where "qhw_sched_task_started D False s tid = Some (rc, s')" "sched_inv D G K s'"
      "task_map_of D s' = (task_map_of D s)(tid \<mapsto> r\<lparr>state := QHW_SCHED_TASK_RUNNING\<rparr>) \<or> task_map_of D s' = task_map_of D s"
      using start_accepted [OF inv Some go] by (elim succeeds_tupleE) meson
    ultimately show ?thesis by (auto simp: safe_call_def)
  next
    case False
    then show ?thesis using start_rejected [OF inv Some] inv by (auto simp: safe_call_def)
  qed
qed

lemma safe_select:
  assumes inv: "sched_inv D G K s"
  shows "safe_call D G K s (qhw_sched_select_next D False s (Some a))"
proof (cases "policy_is_active s")
  case True
  have "forward (task_map_of D s) (task_map_of D s')" if "selected D s a' s'" for a' s'
    using that by (auto simp: selected_def intro!: forward_upd r_into_rtranclp assigned)
  then show ?thesis using select_active [OF inv True, of a]
    by (auto simp: safe_call_def unchanged_def elim!: succeeds_mono split: if_splits)
next
  case False
  then show ?thesis using select_inactive [OF inv False] inv by (simp add: safe_call_def)
qed

lemma safe_priority:
  assumes inv: "sched_inv D G K s"
  shows "safe_call D G K s (qhw_sched_task_update_priority D False s tid v)"
proof (cases "task_map_of D s tid")
  case None
  then show ?thesis using update_priority_missing [OF inv None] inv by (simp add: safe_call_def)
next
  case (Some r)
  show ?thesis
  proof (cases "state r = QHW_SCHED_TASK_QUEUED")
    case True
    have "forward (task_map_of D s) ((task_map_of D s)(tid \<mapsto> r\<lparr>desc := (desc r)\<lparr>priority := v\<rparr>\<rparr>))"
      by (rule forward_upd [of "task_map_of D s", OF Some]) simp_all
    then show ?thesis using update_priority_accepted [OF inv Some True, of v]
      by (auto simp: safe_call_def elim!: succeeds_mono split: if_splits)
  next
    case False
    then show ?thesis using update_priority_rejected [OF inv Some] inv by (simp add: safe_call_def)
  qed
qed

lemma forward_outcome:
  assumes "submit_outcome D G task s0 rc s'"
  shows "forward (task_map_of D s0) (task_map_of D s')"
proof (cases "rc = QHW_SCHED_OK")
  case True
  then show ?thesis using assms
    by (auto simp: submit_outcome_def enqueued_def intro: forward_new forward_split)
next
  case False
  then show ?thesis using assms by (simp add: submit_outcome_def unchanged_def)
qed

lemma safe_submit:
  assumes inv: "sched_inv D G K s"
    and rel: "\<And>s1. sched_inv D G K s1 \<Longrightarrow>
      sched_inv D G K (interf s1) \<and> forward (task_map_of D s1) (task_map_of D (interf s1))"
  shows "safe_call D G K s (qhw_sched_submit_task D interf False s (Some task))"
proof -
  have "rely D G K interf" using rel by (simp add: rely_def)
  note ok = submit_ok [OF inv this, of task]
  have "forward (task_map_of D s) (task_map_of D s0)" if "base D G K interf s s0" for s0
    using that rel unfolding base_def unchanged_def by (metis forward_refl)
  then show ?thesis unfolding safe_call_def
    by (intro succeeds_mono [OF ok]) (auto intro: forward_trans forward_outcome)
qed

end

subsection \<open>Steps\<close>

inductive api_step :: "('h, 'l, 'q) ds \<Rightarrow> 'p contract \<Rightarrow> ('h, 'l, 'p) sys \<Rightarrow> ('h, 'l, 'p) sys \<Rightarrow> bool"
  and api_steps :: "('h, 'l, 'q) ds \<Rightarrow> 'p contract \<Rightarrow> ('h, 'l, 'p) sys \<Rightarrow> ('h, 'l, 'p) sys \<Rightarrow> bool"
  for D K where
  steps_refl: "api_steps D K s s"
| steps_step: "api_steps D K s s1 \<Longrightarrow> api_step D K s1 s2 \<Longrightarrow> api_steps D K s s2"
| step_submit: "(\<And>s1. api_steps D K s1 (interf s1)) \<Longrightarrow>
    qhw_sched_submit_task D interf False s (Some task) = Some (rc, s') \<Longrightarrow> api_step D K s s'"
| step_select: "qhw_sched_select_next D False s (Some a) = Some (res, s') \<Longrightarrow> api_step D K s s'"
| step_priority: "qhw_sched_task_update_priority D False s tid v = Some (rc, s') \<Longrightarrow> api_step D K s s'"
| step_started: "qhw_sched_task_started D False s tid = Some (rc, s') \<Longrightarrow> api_step D K s s'"
| step_completed: "qhw_sched_task_completed D False s tid = Some (rc, s') \<Longrightarrow> api_step D K s s'"
| step_failed: "qhw_sched_task_failed D False s tid = Some (rc, s') \<Longrightarrow> api_step D K s s'"
| step_cancelled: "qhw_sched_task_cancelled D False s tid = Some (rc, s') \<Longrightarrow> api_step D K s s'"
| step_get_state: "qhw_sched_task_get_state D False False s tid = Some (res, s') \<Longrightarrow> api_step D K s s'"
| step_count: "qhw_sched_task_count False s = Some (n, s') \<Longrightarrow> api_step D K s s'"
| step_callbacks: "qhw_sched_set_callbacks False s cbs = Some (rc, s') \<Longrightarrow> api_step D K s s'"
| step_load: "(\<And>d. dl_descriptor (loader path) = Some (Some d) \<Longrightarrow> good K d) \<Longrightarrow>
    qhw_sched_load_plugin False s (Some path) loader = Some (rc, s') \<Longrightarrow> api_step D K s s'"
| step_list: "qhw_sched_list_policies False False s = Some (res, s') \<Longrightarrow> api_step D K s s'"
| step_policy: "qhw_sched_set_policy D False s (Some nm) opts = Some (rc, s') \<Longrightarrow> api_step D K s s'"
| step_outside: "api_step D K s (s\<lparr>env := e\<rparr>)"

text \<open>The states that a program can bring a scheduler into.\<close>

inductive reachable :: "('h, 'l, 'q) ds \<Rightarrow> 'p contract \<Rightarrow> ('h, 'l, 'p) sys \<Rightarrow> bool" for D K where
  created: "idle_qpu q \<Longrightarrow> qhw_sched_create D policy_null attr (Some q) opts e = Some (QHW_SCHED_OK, Some s0, e') \<Longrightarrow>
    api_steps D K s0 s \<Longrightarrow> reachable D K s"

context scheduler_core
begin

definition step_ok :: "('h, 'l, 'p) sys \<Rightarrow> ('h, 'l, 'p) sys \<Rightarrow> bool" where
  "step_ok s s' \<longleftrightarrow> (sched_inv D G K s \<longrightarrow>
     sched_inv D G K s' \<and> forward (task_map_of D s) (task_map_of D s'))"

lemma step_ok_refl [simp]: "step_ok s s"
  by (simp add: step_ok_def)

lemma safe_step: "(sched_inv D G K s \<Longrightarrow> safe_call D G K s m) \<Longrightarrow> m = Some (r, s') \<Longrightarrow> step_ok s s'"
  by (auto simp: safe_call_def step_ok_def)

lemma safe_get_state: "sched_inv D G K s \<Longrightarrow> safe_call D G K s (qhw_sched_task_get_state D False False s tid)"
  by (simp add: get_state_ok safe_call_def split: option.split)

lemma safe_count: "sched_inv D G K s \<Longrightarrow> safe_call D G K s (qhw_sched_task_count False s)"
  using task_count_ok [of s] by (auto simp: safe_call_def)

lemma safe_callbacks: "sched_inv D G K s \<Longrightarrow> safe_call D G K s (qhw_sched_set_callbacks False s cbs)"
  by (rule safe_unchanged [OF set_callbacks_ok])

lemma safe_policy: "sched_inv D G K s \<Longrightarrow> safe_call D G K s (qhw_sched_set_policy D False s (Some nm) opts)"
  by (rule safe_unchanged [OF set_policy_ok])

lemma safe_load:
  "sched_inv D G K s \<Longrightarrow> (\<And>d. dl_descriptor (loader path) = Some (Some d) \<Longrightarrow> good K d) \<Longrightarrow>
   safe_call D G K s (qhw_sched_load_plugin False s (Some path) loader)"
  by (rule safe_unchanged [OF load_plugin_ok])

lemma safe_list: "sched_inv D G K s \<Longrightarrow> safe_call D G K s (qhw_sched_list_policies False False s)"
  using list_policies_ok [of s] by (auto simp: safe_call_def unchanged_def succeeds_iff)

lemmas safe_calls = safe_finish safe_started safe_select safe_priority safe_get_state safe_count
  safe_callbacks safe_policy safe_load safe_list

lemma terminal_states [simp]:
  "task_state_is_terminal QHW_SCHED_TASK_COMPLETED" "task_state_is_terminal QHW_SCHED_TASK_FAILED"
  "task_state_is_terminal QHW_SCHED_TASK_CANCELLED"
  by (simp_all add: task_state_is_terminal_def)

lemma api_ok: "api_step D K s s' \<Longrightarrow> step_ok s s'" "api_steps D K s s' \<Longrightarrow> step_ok s s'"
proof (induction rule: api_step_api_steps.inducts)
  case (steps_step s s1 s2)
  then show ?case unfolding step_ok_def by (blast intro: forward_trans)
next
  case (step_submit interf s task rc s')
  then show ?case by (intro safe_step [OF safe_submit]) (auto simp: step_ok_def)
next
  case (step_load loader path s rc s')
  then show ?case by (intro safe_step [OF safe_load])
next
  case (step_outside s e)
  then show ?case by (simp add: step_ok_def sched_inv_def)
qed (auto simp: qhw_sched_task_completed_def qhw_sched_task_failed_def qhw_sched_task_cancelled_def
    intro: safe_step [OF safe_finish [OF _ terminal_states(1)]] safe_step [OF safe_finish [OF _ terminal_states(2)]]
      safe_step [OF safe_finish [OF _ terminal_states(3)]] safe_step [OF safe_started] safe_step [OF safe_select]
      safe_step [OF safe_priority] safe_step [OF safe_get_state] safe_step [OF safe_count]
      safe_step [OF safe_callbacks] safe_step [OF safe_policy] safe_step [OF safe_list])

lemma reachable_inv_core: "reachable D K s \<Longrightarrow> sched_inv D G K s"
proof (induction rule: reachable.induct)
  case (created q policy_null attr opts e s0 e' s)
  then have "sched_inv D G K s0" using create_ok [OF created(1), of policy_null attr opts e] by simp
  then show ?case using api_ok(2) [OF created(3)] by (simp add: step_ok_def)
qed

end

end
