(* ===== verification/Policy_Fifo.thy ===== *)
theory Policy_Fifo
  imports Ready_Queue Sched_Core
begin

section \<open>The FIFO policy\<close>

text \<open>
  \<^verbatim>\<open>src/plugins/fifo.c\<close>: the policy state, every callback of the descriptor and the descriptor itself,
  with the proof that the policy satisfies the contract of a policy and serves tasks in the order in
  which they were submitted. The last part shows that the scheduler core may be used with this policy.
\<close>

record ('h, 'l, 'q) fifo_state =
  fs_ready :: "('h, 'l, 'q) qhw_ready_queue"
  fs_items :: items
  fs_split_config :: qhw_sched_split_config

subsection \<open>Callbacks\<close>

definition fifo_init ::
  "('h, 'l, 'q) ds \<Rightarrow> kv_ref \<Rightarrow> env \<Rightarrow> (qhw_sched_rc \<times> ('h, 'l, 'q) fifo_state option \<times> env) option" where
  "fifo_init D options e =
     (let (got, e) = env_alloc e in
      if \<not> got then Some (QHW_SCHED_ERR_NO_MEMORY, None, e)
      else
        case qhw_ready_queue_init D QHW_READY_QUEUE_FIFO 0 None (env_mem e) of
          (rc, None, m) \<Rightarrow> Some (QHW_SCHED_ERR_NO_MEMORY, None, e\<lparr>env_mem := m\<rparr>)
        | (rc, Some rq, m) \<Rightarrow>
            let e = e\<lparr>env_mem := m\<rparr>;
                (rc, config) = qhw_sched_split_config_parse_options qhw_sched_split_config_init options
            in if rc \<noteq> QHW_SCHED_OK then do {
                 _ \<leftarrow> qhw_ready_queue_fini D rq arena_empty;
                 Some (QHW_SCHED_ERR_INVALID_ARG, None, e)
               }
               else Some (QHW_SCHED_OK,
                 Some \<lparr>fs_ready = rq, fs_items = arena_empty, fs_split_config = config\<rparr>, e))"

definition fifo_fini :: "('h, 'l, 'q) ds \<Rightarrow> ('h, 'l, 'q) fifo_state option \<Rightarrow> env \<Rightarrow> env option" where
  "fifo_fini D st e =
     (case st of
        None \<Rightarrow> Some e
      | Some s \<Rightarrow> do {
          _ \<leftarrow> qhw_ready_queue_fini D (fs_ready s) (fs_items s);
          Some e
        })"

definition fifo_on_task_submit ::
  "('h, 'l, 'q) ds \<Rightarrow> ('h, 'l, 'q) fifo_state option \<Rightarrow> qhw_sched_task_desc \<Rightarrow> env \<Rightarrow>
   (qhw_sched_rc \<times> ('h, 'l, 'q) fifo_state option \<times> env) option" where
  "fifo_on_task_submit D st task e =
     (case st of
        None \<Rightarrow> Some (QHW_SCHED_ERR_INVALID_ARG, None, e)
      | Some s \<Rightarrow> do {
          (rc, rq, A, m) \<leftarrow> qhw_ready_queue_insert D (fs_ready s) (fs_items s) task (env_mem e);
          Some (rc, Some (s\<lparr>fs_ready := rq, fs_items := A\<rparr>), e\<lparr>env_mem := m\<rparr>)
        })"

definition fifo_select_next ::
  "('h, 'l, 'q) ds \<Rightarrow> ('h, 'l, 'q) fifo_state option \<Rightarrow> qhw_sched_assignment \<Rightarrow> env \<Rightarrow>
   (qhw_sched_rc \<times> qhw_sched_assignment \<times> ('h, 'l, 'q) fifo_state option \<times> env) option" where
  "fifo_select_next D st out e =
     (case st of
        None \<Rightarrow> Some (QHW_SCHED_ERR_INVALID_ARG, out, None, e)
      | Some s \<Rightarrow> do {
          (rc, tid, rq, A) \<leftarrow> qhw_ready_queue_pop D (fs_ready s) (fs_items s);
          let st = Some (s\<lparr>fs_ready := rq, fs_items := A\<rparr>);
          if rc \<noteq> QHW_SCHED_OK then Some (rc, out, st, e)
          else do {
            k \<leftarrow> tid;
            Some (QHW_SCHED_OK, zero_assignment\<lparr>as_task_id := k\<rparr>, st, e)
          }
        })"

definition fifo_on_task_started ::
  "('h, 'l, 'q) fifo_state option \<Rightarrow> u64 \<Rightarrow> env \<Rightarrow>
   (qhw_sched_rc \<times> ('h, 'l, 'q) fifo_state option \<times> env) option" where
  "fifo_on_task_started st tid e = Some (QHW_SCHED_OK, st, e)"

definition fifo_get_split_config ::
  "('h, 'l, 'q) fifo_state option \<Rightarrow> qhw_sched_split_config \<Rightarrow> env \<Rightarrow>
   (qhw_sched_rc \<times> qhw_sched_split_config \<times> ('h, 'l, 'q) fifo_state option \<times> env) option" where
  "fifo_get_split_config st out e =
     (case st of
        None \<Rightarrow> Some (QHW_SCHED_ERR_INVALID_ARG, out, None, e)
      | Some s \<Rightarrow> Some (QHW_SCHED_OK, fs_split_config s, st, e))"

definition fifo_on_task_priority_changed ::
  "('h, 'l, 'q) fifo_state option \<Rightarrow> u64 \<Rightarrow> i64 \<Rightarrow> env \<Rightarrow>
   (qhw_sched_rc \<times> ('h, 'l, 'q) fifo_state option \<times> env) option" where
  "fifo_on_task_priority_changed st tid prio e = Some (QHW_SCHED_OK, st, e)"

definition fifo_on_task_finished ::
  "('h, 'l, 'q) ds \<Rightarrow> ('h, 'l, 'q) fifo_state option \<Rightarrow> u64 \<Rightarrow> qhw_sched_task_state \<Rightarrow> env \<Rightarrow>
   (qhw_sched_rc \<times> ('h, 'l, 'q) fifo_state option \<times> env) option" where
  "fifo_on_task_finished D st tid terminal_state e =
     (case st of
        None \<Rightarrow> Some (QHW_SCHED_ERR_INVALID_ARG, None, e)
      | Some s \<Rightarrow> do {
          (rc, rq, A) \<leftarrow> qhw_ready_queue_remove D (fs_ready s) (fs_items s) tid;
          Some (if rc = QHW_SCHED_ERR_NOT_FOUND then QHW_SCHED_OK else rc,
            Some (s\<lparr>fs_ready := rq, fs_items := A\<rparr>), e)
        })"

definition fifo_desc :: "('h, 'l, 'q) ds \<Rightarrow> ('h, 'l, 'q) fifo_state qhw_sched_plugin_desc" where
  "fifo_desc D = \<lparr>pd_struct_size = sizeof_plugin_desc, pd_abi_version = QHW_SCHED_ABI_VERSION,
     pd_name = Some ''fifo'', pd_version = Some ''0.1.0'',
     pd_description = Some ''FIFO scheduler policy'', pd_capabilities = 0,
     pd_thread_flags = QHW_SCHED_PLUGIN_THREAD_ALL,
     pd_init = Some (fifo_init D), pd_fini = Some (fifo_fini D),
     pd_on_task_submit = Some (fifo_on_task_submit D), pd_select_next = Some (fifo_select_next D),
     pd_get_split_config = Some fifo_get_split_config,
     pd_on_task_priority_changed = Some fifo_on_task_priority_changed,
     pd_on_task_started = Some fifo_on_task_started,
     pd_on_task_finished = Some (fifo_on_task_finished D)\<rparr>"

lemma fifo_desc_sel [simp]:
  "pd_name (fifo_desc D) = Some ''fifo''" "pd_init (fifo_desc D) = Some (fifo_init D)"
  "pd_fini (fifo_desc D) = Some (fifo_fini D)" "pd_on_task_submit (fifo_desc D) = Some (fifo_on_task_submit D)"
  "pd_select_next (fifo_desc D) = Some (fifo_select_next D)"
  "pd_get_split_config (fifo_desc D) = Some fifo_get_split_config"
  "pd_on_task_priority_changed (fifo_desc D) = Some fifo_on_task_priority_changed"
  "pd_on_task_started (fifo_desc D) = Some fifo_on_task_started"
  "pd_on_task_finished (fifo_desc D) = Some (fifo_on_task_finished D)"
  by (simp_all add: fifo_desc_def)

lemma fifo_desc_valid [simp]:
  "mode \<in> {QHW_SCHED_THREAD_SAFE, QHW_SCHED_THREAD_USER} \<Longrightarrow>
   validate_plugin_desc mode (Some (fifo_desc D)) = QHW_SCHED_OK"
  by (auto simp: fifo_desc_def validate_plugin_desc_def threading_to_plugin_flag_def)

subsection \<open>Contract\<close>

definition fifo_inv :: "('h, 'l, 'q) ds \<Rightarrow> ('h, 'l, 'q) ghost \<Rightarrow> ('h, 'l, 'q) fifo_state \<Rightarrow> bool" where
  "fifo_inv D G s \<longleftrightarrow> ready_ok D G (fs_ready s) (fs_items s) \<and> rq_kind (fs_ready s) = QHW_READY_QUEUE_FIFO"

definition fifo_ready :: "('h, 'l, 'q) ds \<Rightarrow> ('h, 'l, 'q) fifo_state \<Rightarrow> u64 set" where
  "fifo_ready D s = rq_ids D (fs_ready s)"

text \<open>The queue as a list of task ids, oldest first.\<close>

definition fifo_queue :: "('h, 'l, 'q) ghost \<Rightarrow> ('h, 'l, 'q) fifo_state \<Rightarrow> u64 list" where
  "fifo_queue G s = map (\<lambda>p. the (task_at (fs_items s) p)) (rq_elems G (fs_ready s))"

context datastructures
begin

lemma inserted_ids: "inserted task rq A rq' A' \<Longrightarrow> rq_ids D rq' = insert (task_id task) (rq_ids D rq)"
  by (auto simp: inserted_def rq_ids_def)

lemma removed_ids: "removed k p rq A rq' A' \<Longrightarrow> rq_ids D rq' = rq_ids D rq - {k}"
  by (auto simp: removed_def rq_ids_def split: if_splits)

lemma removed_member: "ready_ok D G rq A \<Longrightarrow> removed k p rq A rq' A' \<Longrightarrow> k \<in> rq_ids D rq"
  by (auto simp: removed_def rq_ids_def ready_ok_def)

text \<open>The effect of the callbacks on the queue: append, take the head, delete.\<close>

lemma fifo_submit_ok:
  assumes inv: "fifo_inv D G s"
  shows "succeeds (fifo_on_task_submit D (Some s) task e) (\<lambda>(rc, st, e'). \<exists>s'. st = Some s' \<and> fifo_inv D G s' \<and>
    (if rc = QHW_SCHED_OK
     then fifo_ready D s' = insert (task_id task) (fifo_ready D s) \<and> fifo_queue G s' = fifo_queue G s @ [task_id task]
     else fifo_ready D s' = fifo_ready D s \<and> fifo_queue G s' = fifo_queue G s))"
proof -
  let ?rq = "fs_ready s" and ?A = "fs_items s"
  have ok: "ready_ok D G ?rq ?A" and kind: "rq_kind ?rq = QHW_READY_QUEUE_FIFO" using inv by (simp_all add: fifo_inv_def)
  from ready_insert_ok [OF ok, of task "env_mem e"] obtain rc rq' A' m' where
    call: "qhw_ready_queue_insert D ?rq ?A task (env_mem e) = Some (rc, rq', A', m')"
    and ok': "ready_ok D G rq' A'" "same_setup ?rq rq'"
    and res: "if rc = QHW_SCHED_OK then inserted task ?rq ?A rq' A'
     else hash_table_find D (rq_by_id rq') = hash_table_find D (rq_by_id ?rq) \<and>
       rq_elems G rq' = rq_elems G ?rq \<and> cells A' = cells ?A"
    by (auto simp: succeeds_iff)
  have inv': "fifo_inv D G (s\<lparr>fs_ready := rq', fs_items := A'\<rparr>)"
    using ok' kind by (simp add: fifo_inv_def same_setup_def)
  show ?thesis
  proof (cases "rc = QHW_SCHED_OK")
    case False
    then show ?thesis using call res inv'
      by (auto simp: fifo_on_task_submit_def fifo_ready_def fifo_queue_def rq_ids_def task_at_def)
  next
    case True
    then have ins: "inserted task ?rq ?A rq' A'" using res by simp
    have fresh: "brk ?A \<notin> set (rq_elems G ?rq)" using ok arena_fresh by (auto simp: ready_ok_def)
    have kept: "others_kept (brk ?A) (set (rq_elems G ?rq)) ?A A'" using ins by (simp add: inserted_def)
    have "task_at A' p = task_at ?A p" if "p \<in> set (rq_elems G ?rq)" for p
      by (rule others_kept_task_at [OF kept]) (use fresh that in auto)
    moreover have "task_at A' (brk ?A) = Some (task_id task)"
      by (rule inserted_task_at [OF ins])
    ultimately have "fifo_queue G (s\<lparr>fs_ready := rq', fs_items := A'\<rparr>) = fifo_queue G s @ [task_id task]"
      using ins kind by (simp add: fifo_queue_def inserted_def)
    then show ?thesis using True call inv' inserted_ids [OF ins]
      by (auto simp: fifo_on_task_submit_def fifo_ready_def)
  qed
qed

lemma fifo_queue_removed:
  assumes ok: "ready_ok D G (fs_ready s) (fs_items s)" "rq_kind (fs_ready s) = QHW_READY_QUEUE_FIFO"
    and rem: "removed k p (fs_ready s) (fs_items s) rq' A'"
  shows "fifo_queue G (s\<lparr>fs_ready := rq', fs_items := A'\<rparr>) = remove1 k (fifo_queue G s)"
proof -
  let ?el = "rq_elems G (fs_ready s)" and ?A = "fs_items s"
  have dist: "distinct ?el" by (rule ready_distinct [OF ok(1)])
  have p: "p \<in> set ?el" "task_at ?A p = Some k" and el': "rq_elems G rq' = remove1 p ?el"
    and kept: "others_kept p (set ?el) ?A A'" using rem ok(2) by (simp_all add: removed_def)
  have inj: "inj_on (\<lambda>p. the (task_at ?A p)) (set ?el)"
    by (rule ready_inj [OF ok(1)])
  have "map (\<lambda>p. the (task_at A' p)) (remove1 p ?el) = map (\<lambda>p. the (task_at ?A p)) (remove1 p ?el)"
    using others_kept_task_at [OF kept] dist by (auto simp: set_remove1_eq)
  also have "\<dots> = remove1 k (map (\<lambda>p. the (task_at ?A p)) ?el)"
    using map_remove1_inj [of "\<lambda>p. the (task_at ?A p)" p ?el] inj p by (simp add: insert_absorb)
  finally show ?thesis by (simp add: fifo_queue_def el')
qed

lemma fifo_select_ok:
  assumes inv: "fifo_inv D G s"
  shows "succeeds (fifo_select_next D (Some s) a e) (\<lambda>(rc, a', st, e'). \<exists>s'. st = Some s' \<and> fifo_inv D G s' \<and>
    (if fifo_queue G s = []
     then rc = QHW_SCHED_ERR_NOT_FOUND \<and> fifo_ready D s = {} \<and> fifo_ready D s' = {} \<and> fifo_queue G s' = []
     else rc = QHW_SCHED_OK \<and> as_task_id a' = hd (fifo_queue G s) \<and> fifo_queue G s' = tl (fifo_queue G s) \<and>
       as_task_id a' \<in> fifo_ready D s \<and> fifo_ready D s' = fifo_ready D s - {as_task_id a'}))"
proof -
  let ?rq = "fs_ready s" and ?A = "fs_items s"
  have ok: "ready_ok D G ?rq ?A" and kind: "rq_kind ?rq = QHW_READY_QUEUE_FIFO" using inv by (simp_all add: fifo_inv_def)
  from ready_pop_ok [OF ok] obtain rc tid rq' A' where
    call: "qhw_ready_queue_pop D ?rq ?A = Some (rc, tid, rq', A')"
    and ok': "ready_ok D G rq' A'" "same_setup ?rq rq'"
    and res: "if rc = QHW_SCHED_OK
     then \<exists>k p. tid = Some k \<and> rq_first ?rq ?A p \<and> removed k p ?rq ?A rq' A'
     else rc = QHW_SCHED_ERR_NOT_FOUND \<and> rq_elems G ?rq = [] \<and> rq_elems G rq' = [] \<and>
       rq_by_id rq' = rq_by_id ?rq \<and> cells A' = cells ?A"
    by (elim succeeds4E) blast
  let ?s = "s\<lparr>fs_ready := rq', fs_items := A'\<rparr>"
  have inv': "fifo_inv D G ?s" using ok' kind by (simp add: fifo_inv_def same_setup_def)
  show ?thesis
  proof (cases "rc = QHW_SCHED_OK")
    case False
    then have "rq_elems G ?rq = []" "rq_elems G rq' = []" "rc = QHW_SCHED_ERR_NOT_FOUND" using res by simp_all
    then have "fifo_ready D s = {}" "fifo_ready D ?s = {}" "fifo_queue G s = []" "fifo_queue G ?s = []"
      using rq_ids_empty [OF ok] rq_ids_empty [OF ok'(1)] by (simp_all add: fifo_ready_def fifo_queue_def)
    then show ?thesis using call False inv' \<open>rc = QHW_SCHED_ERR_NOT_FOUND\<close> by (simp add: fifo_select_next_def)
  next
    case True
    then obtain k p where k: "tid = Some k" and first: "rq_first ?rq ?A p" and rem: "removed k p ?rq ?A rq' A'"
      using res by auto
    have ne: "rq_elems G ?rq \<noteq> []" and p: "p = hd (rq_elems G ?rq)" using first kind by (auto simp: rq_first_def)
    have at: "task_at ?A p = Some k" using rem by (simp add: removed_def)
    have hd: "hd (fifo_queue G s) = k" "fifo_queue G s \<noteq> []"
      using ne at unfolding p by (simp_all add: fifo_queue_def hd_map)
    moreover have "fifo_queue G ?s = tl (fifo_queue G s)"
      using fifo_queue_removed [OF ok kind rem] hd by (cases "fifo_queue G s") simp_all
    moreover have "fifo_ready D ?s = fifo_ready D s - {k}" "k \<in> fifo_ready D s"
      using removed_ids [OF rem] removed_member [OF ok rem] by (simp_all add: fifo_ready_def)
    ultimately show ?thesis using True call inv' k by (simp add: fifo_select_next_def)
  qed
qed

lemma fifo_finished_ok:
  assumes inv: "fifo_inv D G s"
  shows "succeeds (fifo_on_task_finished D (Some s) tid ts e) (\<lambda>(rc, st, e'). \<exists>s'. st = Some s' \<and> fifo_inv D G s' \<and>
    rc = QHW_SCHED_OK \<and> fifo_ready D s' = fifo_ready D s - {tid} \<and> fifo_queue G s' = remove1 tid (fifo_queue G s))"
proof -
  let ?rq = "fs_ready s" and ?A = "fs_items s"
  have ok: "ready_ok D G ?rq ?A" and kind: "rq_kind ?rq = QHW_READY_QUEUE_FIFO" using inv by (simp_all add: fifo_inv_def)
  from ready_remove_ok [OF ok, of tid] obtain rc rq' A' where
    call: "qhw_ready_queue_remove D ?rq ?A tid = Some (rc, rq', A')"
    and ok': "ready_ok D G rq' A'" "same_setup ?rq rq'"
    and res: "if tid \<in> rq_ids D ?rq then rc = QHW_SCHED_OK \<and> (\<exists>p. removed tid p ?rq ?A rq' A')
     else rc = QHW_SCHED_ERR_NOT_FOUND \<and> rq' = ?rq \<and> A' = ?A"
    by (elim succeeds3E) blast
  have inv': "fifo_inv D G (s\<lparr>fs_ready := rq', fs_items := A'\<rparr>)"
    using ok' kind by (simp add: fifo_inv_def same_setup_def)
  show ?thesis
  proof (cases "tid \<in> rq_ids D ?rq")
    case True
    then obtain p where "rc = QHW_SCHED_OK" and rem: "removed tid p ?rq ?A rq' A'" using res by auto
    then show ?thesis using call inv' removed_ids [OF rem] fifo_queue_removed [OF ok kind rem]
      by (simp add: fifo_on_task_finished_def fifo_ready_def)
  next
    case False
    then have same: "rq' = ?rq" "A' = ?A" "rc = QHW_SCHED_ERR_NOT_FOUND" using res by simp_all
    have "tid \<notin> set (fifo_queue G s)"
    proof
      assume "tid \<in> set (fifo_queue G s)"
      then obtain p where p: "p \<in> set (rq_elems G ?rq)" "tid = the (task_at ?A p)" by (auto simp: fifo_queue_def)
      from ready_task_at [OF ok p(1)] p(2) False show False by (auto simp: rq_ids_def task_at_def)
    qed
    then show ?thesis using call inv' False same
      by (simp add: fifo_on_task_finished_def fifo_ready_def remove1_idem)
  qed
qed

lemma fifo_init_ok:
  "succeeds (fifo_init D opts e) (\<lambda>(rc, st, e').
     rc = QHW_SCHED_OK \<longrightarrow> (\<exists>s. st = Some s \<and> fifo_inv D G s \<and> fifo_ready D s = {} \<and> fifo_queue G s = []))"
proof -
  obtain got e1 where al: "env_alloc e = (got, e1)" by force
  obtain rc rq m where ini: "qhw_ready_queue_init D QHW_READY_QUEUE_FIFO 0 None (env_mem e1) = (rc, rq, m)"
    by (metis prod_cases3)
  obtain rc2 cfg where par: "qhw_sched_split_config_parse_options qhw_sched_split_config_init opts = (rc2, cfg)" by force
  note ok = ready_init_ok [OF ini, of arena_empty]
  show ?thesis
  proof (cases rq)
    case None
    then show ?thesis using al ini by (simp add: fifo_init_def)
  next
    case (Some q)
    then have q: "ready_ok D G q arena_empty" "rq_elems G q = []" "rq_ids D q = {}" "rq_kind q = QHW_READY_QUEUE_FIFO"
      using ok by simp_all
    from ready_fini_ok [OF q(1)] obtain A where "qhw_ready_queue_fini D q arena_empty = Some A"
      by (auto simp: succeeds_iff)
    then show ?thesis using al ini par Some q
      by (simp add: fifo_init_def Let_def fifo_inv_def fifo_ready_def fifo_queue_def)
  qed
qed

lemma fifo_fini_ok: "fifo_inv D G s \<Longrightarrow> succeeds (fifo_fini D (Some s) e) (\<lambda>e'. e' = e)"
  using ready_fini_ok [of "fs_ready s" "fs_items s"] by (auto simp: fifo_inv_def fifo_fini_def succeeds_iff)

lemma fifo_policy: "policy_plugin (fifo_desc D) (fifo_inv D G) (fifo_ready D)"
proof
  show "desc_complete (fifo_desc D)" by (simp add: desc_complete_def)
qed (auto simp: fifo_get_split_config_def fifo_on_task_priority_changed_def fifo_on_task_started_def
    elim!: succeeds_mono intro!: succeeds_mono [OF fifo_init_ok] succeeds_mono [OF fifo_fini_ok]
      succeeds_mono [OF fifo_submit_ok] succeeds_mono [OF fifo_select_ok] succeeds_mono [OF fifo_finished_ok]
    split: if_splits)

end

sublocale datastructures \<subseteq> fifo: policy_plugin "fifo_desc D" "fifo_inv D G" "fifo_ready D"
  by (rule fifo_policy)

subsection \<open>The scheduler core with the FIFO policy\<close>

definition fifo_contract :: "('h, 'l, 'q) ds \<Rightarrow> ('h, 'l, 'q) ghost \<Rightarrow> ('h, 'l, 'q) fifo_state contract" where
  "fifo_contract D G = \<lparr>good = \<lambda>d. d = fifo_desc D, pinv = \<lambda>_. fifo_inv D G, ready = \<lambda>_. fifo_ready D\<rparr>"

context datastructures
begin

lemma fifo_core: "scheduler_core D G (fifo_contract D G)"
  by (rule scheduler_core.intro [OF datastructures_axioms scheduler_core_axioms.intro])
    (simp add: fifo_contract_def fifo_policy)

end

end
