(* ===== verification/Sched_Demo.thy ===== *)
theory Sched_Demo
  imports Sched_System Policy_Fifo Ref_Structures
begin

section \<open>A concrete run\<close>

text \<open>
  A run of the scheduler with the FIFO policy on the reference data structures: create a scheduler,
  load and select the policy, install a split callback, submit task 7, select it, start it, and submit
  task 10 whose 5 shots the QPU's limit of 2 splits into three children. The states of the run are the
  inputs on which the properties of the scheduler are exercised.
\<close>

type_synonym demo_sys = "(ref_table, ptr list, (ref_table, ptr list, ptr list) fifo_state) sys"

abbreviation demo_contract :: "(ref_table, ptr list, ptr list) fifo_state contract" where
  "demo_contract \<equiv> fifo_contract ref_ds ref_ghost"

interpretation ref_core: scheduler_core ref_ds ref_ghost demo_contract
  by (rule datastructures.fifo_core [OF ref.datastructures_axioms])

definition demo_env :: env where
  "demo_env = \<lparr>env_mem = [], env_clock = \<lparr>ck_supported = True, ck_last = 0, ck_coming = []\<rparr>, env_mutex = [], env_calls = 0\<rparr>"

definition demo_qpu :: qhw_sched_qpu where
  "demo_qpu = \<lparr>profile = \<lparr>qp_struct_size = 40, qpu_id = 1, num_qubits = 20, qp_flags = 0,
       qp_metadata = KvArr [shots_kv QHW_SCHED_META_MAX_SHOTS 2]\<rparr>,
     runtime = zero_runtime\<lparr>qr_struct_size := sizeof_qpu_runtime\<rparr>,
     qpu_lock = \<lparr>lock_ops = Lock_mutex, live = True, held = False\<rparr>, refcount = 1\<rparr>"

definition demo_loader :: "string \<Rightarrow> (ref_table, ptr list, ptr list) fifo_state dl_answer" where
  "demo_loader path = \<lparr>dl_handle = Some 1, dl_descriptor = Some (Some (fifo_desc ref_ds)), dl_message = None\<rparr>"

definition demo_task :: "u64 \<Rightarrow> kv_ref \<Rightarrow> qhw_sched_task_desc" where
  "demo_task tid meta = \<lparr>td_struct_size = sizeof_task_desc, task_id = tid, parent_task_id = 0, owner_id = 1,
     job_id = 0, reservation_id = 0, priority = 0, deadline_ns = 0, estimated_runtime_ns = 0,
     estimated_cost = 0, payload = 0, payload_size = 0, metadata = meta\<rparr>"

definition demo_split ::
  "nat \<Rightarrow> qhw_sched_task_desc \<Rightarrow> qhw_sched_split_config \<Rightarrow> qhw_sched_task_desc list \<Rightarrow>
   qhw_sched_rc \<times> (nat \<Rightarrow> qhw_sched_task_desc)" where
  "demo_split n task config children = (QHW_SCHED_OK, \<lambda>i. (children ! i)\<lparr>task_id := 20 + of_nat i,
     metadata := KvArr [shots_kv QHW_SCHED_META_SLICE_INDEX (of_nat i), shots_kv QHW_SCHED_META_SLICE_COUNT 3,
       shots_kv QHW_SCHED_META_SHOTS (if i = 2 then 1 else 2)]\<rparr>)"

subsection \<open>The states\<close>

definition demo_fifo :: "(ref_table, ptr list, ptr list) fifo_state" where
  "demo_fifo = \<lparr>fs_ready = \<lparr>rq_kind = QHW_READY_QUEUE_FIFO, rq_compare = None, rq_flags = 0, rq_fifo = [],
       rq_heap = None, rq_by_id = \<lparr>rt_size = 4096, rt_bucket = (\<lambda>_. [])\<rparr>, rq_next_seq = 1\<rparr>,
     fs_items = arena_empty, fs_split_config = qhw_sched_split_config_init\<rparr>"

definition demo_created :: demo_sys where
  "demo_created = \<lparr>sched = \<lparr>threading = QHW_SCHED_THREAD_SAFE,
       lock = \<lparr>lock_ops = Lock_mutex, live = True, held = False\<rparr>,
       allocator = \<lparr>al_alloc = Default_fn, al_realloc = Default_fn, al_free = Default_fn, al_user_data = 0\<rparr>,
       last_error = qhw_error_set QHW_SCHED_OK (Some ''''),
       tasks = \<lparr>by_id = \<lparr>rt_size = 1024, rt_bucket = (\<lambda>_. [])\<rparr>, enqueue_order = [], tt_count = 0,
         records = arena_empty\<rparr>,
       plugins = empty_registry, policy_desc = zero_plugin_desc, policy_state = None,
       callbacks = zero_callbacks, enqueue_seq_next = 1\<rparr>,
     qpu = demo_qpu\<lparr>refcount := 2\<rparr>, env = demo_env, open_handles = []\<rparr>"

definition demo_loaded :: demo_sys where
  "demo_loaded = demo_created\<lparr>sched := (sched demo_created)\<lparr>plugins := \<lparr>items =
       [\<lparr>pl_desc = fifo_desc ref_ds, pl_path = Some ''fifo.so'', pl_dl_handle = Some 1\<rparr>], capacity = 4\<rparr>\<rparr>,
     open_handles := [1]\<rparr>"

definition demo_policy :: demo_sys where
  "demo_policy = demo_loaded\<lparr>sched := (sched demo_loaded)
     \<lparr>policy_desc := fifo_desc ref_ds, policy_state := Some demo_fifo\<rparr>\<rparr>"

definition demo_callbacks :: qhw_sched_callbacks where
  "demo_callbacks = \<lparr>cb_struct_size = sizeof_callbacks, split_task = Some demo_split, estimate_cost = None\<rparr>"

definition demo_ready :: demo_sys where
  "demo_ready = demo_policy\<lparr>sched := (sched demo_policy)\<lparr>callbacks := demo_callbacks\<rparr>\<rparr>"

named_theorems demo_eval \<open>definitions for evaluating the run\<close>

lemmas [demo_eval] = env_alloc_def qhw_allocator_init_def qhw_thread_init_def env_mutex_init_def
  qhw_task_table_init_def rt_init_def qhw_qpu_retain_def ops_lock_def ops_unlock_def mutex_lock_def
  mutex_unlock_def Let_def get_threading_def sched_lock_def sched_unlock_def unlock_return_def

lemma demo_create:
  "qhw_sched_create ref_ds True None (Some demo_qpu) (KvArr []) demo_env = Some (QHW_SCHED_OK, Some demo_created, demo_env)"
  by (simp add: qhw_sched_create_def demo_created_def demo_qpu_def demo_env_def demo_eval)

lemma demo_load:
  "qhw_sched_load_plugin False demo_created (Some ''fifo.so'') demo_loader = Some (QHW_SCHED_OK, demo_loaded)"
  by (simp add: qhw_sched_load_plugin_def demo_loader_def qhw_plugin_registry_add_def registry_grow_def qhw_strdup_def
      empty_registry_def demo_loaded_def demo_created_def demo_env_def demo_eval)

lemma demo_set_policy:
  "qhw_sched_set_policy ref_ds False demo_loaded (Some ''fifo'') (KvArr []) = Some (QHW_SCHED_OK, demo_policy)"
  by (simp add: qhw_sched_set_policy_def qhw_plugin_registry_find_def fifo_init_def qhw_ready_queue_init_def
      qhw_sched_split_config_parse_options_def qhw_task_table_for_each_queued_def for_each_queued_loop.simps
      zero_plugin_desc_def demo_policy_def demo_loaded_def demo_created_def demo_env_def demo_fifo_def demo_eval)

lemma demo_set_callbacks:
  "qhw_sched_set_callbacks False demo_policy (Some demo_callbacks) = Some (QHW_SCHED_OK, demo_ready)"
  by (simp add: qhw_sched_set_callbacks_def demo_callbacks_def demo_ready_def demo_policy_def demo_loaded_def
      demo_created_def demo_eval)

lemmas demo_ready_defs = demo_ready_def demo_policy_def demo_loaded_def demo_created_def

definition demo_queued :: demo_sys where
  "demo_queued = snd (the (qhw_sched_submit_task ref_ds id False demo_ready (Some (demo_task 7 (KvArr [])))))"

definition demo_assigned :: demo_sys where
  "demo_assigned = snd (the (qhw_sched_select_next ref_ds False demo_queued (Some zero_assignment)))"

definition demo_running :: demo_sys where
  "demo_running = snd (the (qhw_sched_task_started ref_ds False demo_assigned 7))"

definition demo_waiting :: demo_sys where
  "demo_waiting = snd (the (qhw_sched_submit_task ref_ds id False demo_running
     (Some (demo_task 10 (KvArr [shots_kv QHW_SCHED_META_SHOTS 5])))))"

lemmas [demo_eval] = demo_ready_defs demo_callbacks_def demo_task_def demo_qpu_def demo_env_def demo_fifo_def
  upd_defs arena_alloc_def arena_empty_def arena_put_def arena_free_def
  record_read_def record_write_def new_task_record_def new_ready_task_def
  rt_find_def rt_slot_def rt_insert_def rt_remove_def
  qhw_sched_submit_task_def qhw_task_table_find_def
  compute_split_config_def get_policy_split_config_def fifo_get_split_config_def split_decision_def
  metadata_get_u64_def submit_whole_task_def estimate_task_cost_def
  qhw_policy_task_estimated_cost_def qhw_policy_metadata_get_u64_def enqueue_task_locked_def
  qhw_task_table_insert_def qhw_task_table_insert_state_def task_table_link_def
  qpu_runtime_task_queued_def fifo_on_task_submit_def qhw_ready_queue_insert_def
  qhw_sched_select_next_def fifo_select_next_def qhw_ready_queue_pop_def ready_take_def
  qhw_task_table_set_state_def qpu_runtime_task_unqueued_def fill_assignment_from_record_def
  qhw_sched_task_started_def policy_is_active_def Option.is_none_def qpu_runtime_task_started_def
  fifo_on_task_started_def zero_runtime_def

lemma demo_submit: "map_option fst (qhw_sched_submit_task ref_ds id False demo_ready (Some (demo_task 7 (KvArr [])))) = Some QHW_SCHED_OK"
  by (simp add: demo_eval)

lemma demo_select: "map_option (fst \<circ> fst) (qhw_sched_select_next ref_ds False demo_queued (Some zero_assignment)) = Some QHW_SCHED_OK"
  unfolding demo_queued_def by (simp add: demo_eval)

lemma demo_start: "map_option fst (qhw_sched_task_started ref_ds False demo_assigned 7) = Some QHW_SCHED_OK"
  unfolding demo_assigned_def demo_queued_def by (simp add: demo_eval)

lemma three [demo_eval]: "[0..<3] = [0, 1, 2]" "replicate 3 x = [x, x, x]"
  by (simp_all add: upt_rec numeral_3_eq_3)

lemmas [demo_eval] = SIZE_MAX_def UINT64_MAX_def submit_split_task_def demo_split_def shots_kv_def validate_child_tasks_def
  submit_split_task_locked_def min_nonzero_def qhw_sched_split_config_init_def

lemma demo_submit_split:
  "map_option fst (qhw_sched_submit_task ref_ds id False demo_running
     (Some (demo_task 10 (KvArr [shots_kv QHW_SCHED_META_SHOTS 5])))) = Some QHW_SCHED_OK"
  unfolding demo_running_def demo_assigned_def demo_queued_def
  by (simp add: demo_eval) (simp add: word_le_nat_alt)

subsection \<open>The invariant along the run\<close>

lemma demo_idle: "idle_qpu demo_qpu"
  by (simp add: idle_qpu_def demo_qpu_def qpu_ok_def lock_free_def zero_runtime_def UINT64_MAX_def word_less_nat_alt)

lemma demo_rely: "rely ref_ds ref_ghost demo_contract id"
  by (simp add: rely_def)

lemma demo_created_inv: "sched_inv ref_ds ref_ghost demo_contract demo_created"
  using ref_core.create_ok [OF demo_idle, of True None "KvArr []" demo_env] by (simp add: demo_create)

lemma demo_loaded_inv: "sched_inv ref_ds ref_ghost demo_contract demo_loaded"
  using ref_core.load_plugin_ok [OF demo_created_inv, of demo_loader "''fifo.so''"]
  by (simp add: demo_load demo_loader_def fifo_contract_def)

lemma demo_policy_inv: "sched_inv ref_ds ref_ghost demo_contract demo_policy"
  using ref_core.set_policy_ok [OF demo_loaded_inv, of "''fifo''" "KvArr []"] by (simp add: demo_set_policy)

lemma demo_ready_inv: "sched_inv ref_ds ref_ghost demo_contract demo_ready"
  using ref_core.set_callbacks_ok [OF demo_policy_inv, of "Some demo_callbacks"] by (simp add: demo_set_callbacks)

lemma result_inv:
  "succeeds m (\<lambda>(r, s'). sched_inv D G K s' \<and> Q r s') \<Longrightarrow> sched_inv D G K (snd (the m))"
  by (auto simp: succeeds_iff)

lemma demo_queued_inv: "sched_inv ref_ds ref_ghost demo_contract demo_queued"
  unfolding demo_queued_def by (rule result_inv [OF ref_core.submit_ok [OF demo_ready_inv demo_rely]])

lemma demo_active: "policy_is_active demo_queued"
  unfolding demo_queued_def by (simp add: demo_eval)

lemma demo_assigned_inv: "sched_inv ref_ds ref_ghost demo_contract demo_assigned"
  unfolding demo_assigned_def
  by (rule result_inv [OF ref_core.safe_select [OF demo_queued_inv, unfolded safe_call_def]])

lemma demo_running_inv: "sched_inv ref_ds ref_ghost demo_contract demo_running"
  unfolding demo_running_def
  by (rule result_inv [OF ref_core.safe_started [OF demo_assigned_inv, unfolded safe_call_def]])

lemma demo_waiting_inv: "sched_inv ref_ds ref_ghost demo_contract demo_waiting"
  unfolding demo_waiting_def by (rule result_inv [OF ref_core.submit_ok [OF demo_running_inv demo_rely]])

lemmas demo_invs = demo_created_inv demo_loaded_inv demo_policy_inv demo_ready_inv demo_queued_inv
  demo_assigned_inv demo_running_inv demo_waiting_inv

definition demo_record :: "qhw_sched_task_state \<Rightarrow> qhw_task_record" where
  "demo_record st = stored_record ((demo_task 7 (KvArr []))\<lparr>estimated_cost := 1\<rparr>) 1 st"

lemmas demo_view = task_map_of_def tt_task_def demo_record_def stored_record_def owned_metadata_def

lemma demo_queued_7: "task_map_of ref_ds demo_queued 7 = Some (demo_record QHW_SCHED_TASK_QUEUED)"
  unfolding demo_queued_def by (simp add: demo_eval demo_view)

lemma demo_assigned_7: "task_map_of ref_ds demo_assigned 7 = Some (demo_record QHW_SCHED_TASK_ASSIGNED)"
  unfolding demo_assigned_def demo_queued_def by (simp add: demo_eval demo_view)

lemma demo_running_7: "task_map_of ref_ds demo_running 7 = Some (demo_record QHW_SCHED_TASK_RUNNING)"
  unfolding demo_running_def demo_assigned_def demo_queued_def by (simp add: demo_eval demo_view)

text \<open>A scheduler without a policy that holds task 7.\<close>

definition demo_unplanned :: demo_sys where
  "demo_unplanned = snd (the (qhw_sched_submit_task ref_ds id False demo_created (Some (demo_task 7 (KvArr [])))))"

lemma demo_unplanned_inv: "sched_inv ref_ds ref_ghost demo_contract demo_unplanned"
  unfolding demo_unplanned_def by (rule result_inv [OF ref_core.submit_ok [OF demo_created_inv demo_rely]])

lemma demo_unplanned:
  "task_map_of ref_ds demo_unplanned 7 = Some (demo_record QHW_SCHED_TASK_QUEUED)"
  "\<not> policy_is_active demo_unplanned" "running_task_id (runtime (qpu demo_unplanned)) = 0"
  "start_allowed demo_unplanned (demo_record QHW_SCHED_TASK_QUEUED)"
  unfolding demo_unplanned_def by (simp_all add: start_allowed_def demo_record_def zero_plugin_desc_def zero_callbacks_def demo_eval demo_view)

lemma demo_waiting_10: "map_option state (task_map_of ref_ds demo_waiting 10) = Some QHW_SCHED_TASK_WAITING"
  unfolding demo_waiting_def demo_running_def demo_assigned_def demo_queued_def
  by (simp add: demo_eval demo_view) (simp add: word_le_nat_alt)

lemma demo_waiting_20: "map_option state (task_map_of ref_ds demo_waiting 20) = Some QHW_SCHED_TASK_QUEUED"
  unfolding demo_waiting_def demo_running_def demo_assigned_def demo_queued_def
  by (simp add: demo_eval demo_view) (simp add: word_le_nat_alt)

lemma demo_waiting_parent:
  "map_option (\<lambda>p. (state p, child_count p, outcomes p)) (task_map_of ref_ds demo_waiting 10) =
   Some (QHW_SCHED_TASK_WAITING, 3, 0)"
  unfolding demo_waiting_def demo_running_def demo_assigned_def demo_queued_def
  by (simp add: demo_eval demo_view) (simp add: word_le_nat_alt outcomes_def)

lemma demo_waiting_child:
  "map_option (\<lambda>r. (state r, parent_task_id (desc r))) (task_map_of ref_ds demo_waiting 20) =
   Some (QHW_SCHED_TASK_QUEUED, 10)"
  unfolding demo_waiting_def demo_running_def demo_assigned_def demo_queued_def
  by (simp add: demo_eval demo_view) (simp add: word_le_nat_alt)

subsection \<open>The run as a sequence of steps\<close>

lemma result_some: "succeeds m Q \<Longrightarrow> \<exists>r. m = Some (r, snd (the m))"
  by (auto simp: succeeds_iff)

lemma demo_submit_step:
  assumes "sched_inv ref_ds ref_ghost demo_contract s"
  shows "api_step ref_ds demo_contract s (snd (the (qhw_sched_submit_task ref_ds id False s (Some task))))"
proof -
  obtain r where "qhw_sched_submit_task ref_ds id False s (Some task) =
      Some (r, snd (the (qhw_sched_submit_task ref_ds id False s (Some task))))"
    using result_some [OF ref_core.submit_ok [OF assms demo_rely, of task]] by blast
  then show ?thesis by (intro step_submit [of ref_ds demo_contract id]) (simp_all add: steps_refl)
qed

lemma demo_select_step: "api_step ref_ds demo_contract demo_queued demo_assigned"
  using result_some [OF ref_core.safe_select [OF demo_queued_inv, of zero_assignment, unfolded safe_call_def]]
  unfolding demo_assigned_def by (elim exE) (rule step_select)

lemma demo_start_step: "api_step ref_ds demo_contract demo_assigned demo_running"
  using result_some [OF ref_core.safe_started [OF demo_assigned_inv, of 7, unfolded safe_call_def]]
  unfolding demo_running_def by (elim exE) (rule step_started)

lemma demo_ready_steps: "api_steps ref_ds demo_contract demo_created demo_ready"
proof -
  have 1: "api_step ref_ds demo_contract demo_created demo_loaded"
    by (rule step_load [OF _ demo_load]) (simp add: demo_loader_def fifo_contract_def)
  have 2: "api_step ref_ds demo_contract demo_loaded demo_policy" by (rule step_policy [OF demo_set_policy])
  have 3: "api_step ref_ds demo_contract demo_policy demo_ready" by (rule step_callbacks [OF demo_set_callbacks])
  show ?thesis by (rule steps_step [OF steps_step [OF steps_step [OF steps_refl 1] 2] 3])
qed

lemma demo_assigned_steps: "api_steps ref_ds demo_contract demo_created demo_assigned"
proof -
  have "api_step ref_ds demo_contract demo_ready demo_queued"
    unfolding demo_queued_def by (rule demo_submit_step [OF demo_ready_inv])
  from steps_step [OF steps_step [OF demo_ready_steps this] demo_select_step] show ?thesis .
qed

lemma demo_waiting_steps: "api_steps ref_ds demo_contract demo_running demo_waiting"
proof -
  have "api_step ref_ds demo_contract demo_running demo_waiting"
    unfolding demo_waiting_def by (rule demo_submit_step [OF demo_running_inv])
  from steps_step [OF steps_refl this] show ?thesis .
qed

lemma demo_steps: "api_steps ref_ds demo_contract demo_created demo_waiting"
proof -
  have "api_step ref_ds demo_contract demo_running demo_waiting"
    unfolding demo_waiting_def by (rule demo_submit_step [OF demo_running_inv])
  from steps_step [OF steps_step [OF demo_assigned_steps demo_start_step] this] show ?thesis .
qed

lemma demo_reachable: "reachable ref_ds demo_contract demo_waiting"
  by (rule created [OF demo_idle demo_create demo_steps])

lemma demo_assigned_reachable: "reachable ref_ds demo_contract demo_assigned"
  by (rule created [OF demo_idle demo_create demo_assigned_steps])

lemma demo_running_reachable: "reachable ref_ds demo_contract demo_running"
  by (rule created [OF demo_idle demo_create steps_step [OF demo_assigned_steps demo_start_step]])

end
