(* ===== verification/Sched_Properties.thy ===== *)
theory Sched_Properties
  imports Sched_Demo
begin

section \<open>Properties of the scheduler\<close>

text \<open>
  The contracts of the scheduler core as statements about the calls of the public interface. The
  hypothesis \<^verbatim>\<open>scheduler_core D G K\<close> says that the data structures \<^verbatim>\<open>D\<close> obey their laws and that the
  policies which \<^verbatim>\<open>K\<close> accepts keep their contract; it holds for the reference structures with the
  FIFO policy, where each property is also exercised on a state of the concrete run.
\<close>

lemmas demo_core = ref_core.scheduler_core_axioms

lemma safe_call_returns: "safe_call D G K s m \<Longrightarrow> m \<noteq> None"
  by (auto simp: safe_call_def succeeds_iff)

subsection \<open>Reachable states\<close>

text \<open>
  C1: Every state that calls of the public interface can reach, with any interleaving of other threads'
  calls while a submission runs its callbacks, satisfies the scheduler invariant: a consistent task
  table with its count of records, a counter of queued tasks and a running task of the QPU that match the table, waiting
  parents with live children, an active policy whose ready set is the set of queued tasks, a consistent plugin
  registry, and a free lock. The counters of completed, failed and cancelled tasks are not part of it.
\<close>

theorem reachable_invariant:
  assumes "scheduler_core D G K" "reachable D K s"
  shows "sched_inv D G K s"
  by (rule scheduler_core.reachable_inv_core [OF assms])

theorem reachable_invariant_witness: "sched_inv ref_ds ref_ghost demo_contract demo_waiting"
  by (rule reachable_invariant [OF demo_core demo_reachable])

text \<open>
  C3: No call on a reachable scheduler has undefined behaviour or fails to return: no dangling task
  record or queue item is read, no lock is taken twice or released twice, every loop ends.
\<close>

theorem every_call_returns:
  assumes "scheduler_core D G K" "reachable D K s" "\<forall>s1. api_steps D K s1 (interf s1)"
    "\<forall>d. dl_descriptor (loader path) = Some (Some d) \<longrightarrow> good K d"
  shows "qhw_sched_submit_task D interf False s (Some task) \<noteq> None \<and>
    qhw_sched_select_next D False s (Some a) \<noteq> None \<and>
    qhw_sched_task_update_priority D False s tid v \<noteq> None \<and>
    qhw_sched_task_started D False s tid \<noteq> None \<and>
    qhw_sched_task_completed D False s tid \<noteq> None \<and>
    qhw_sched_task_failed D False s tid \<noteq> None \<and>
    qhw_sched_task_cancelled D False s tid \<noteq> None \<and>
    qhw_sched_task_get_state D False False s tid \<noteq> None \<and>
    qhw_sched_task_count False s \<noteq> None \<and>
    qhw_sched_set_callbacks False s cbs \<noteq> None \<and>
    qhw_sched_load_plugin False s (Some path) loader \<noteq> None \<and>
    qhw_sched_list_policies False False s \<noteq> None \<and>
    qhw_sched_set_policy D False s (Some nm) opts \<noteq> None \<and>
    qhw_sched_destroy D (Some s) \<noteq> None"
proof -
  note core = scheduler_core.reachable_inv_core [OF assms(1,2)]
  note call = safe_call_returns [of D G K s]
  have interf: "sched_inv D G K (interf s1) \<and> forward (task_map_of D s1) (task_map_of D (interf s1))"
    if "sched_inv D G K s1" for s1
    using scheduler_core.api_ok(2) [OF assms(1)] assms(3) that by (auto simp: scheduler_core.step_ok_def [OF assms(1)])
  obtain e A where "qhw_sched_destroy D (Some s) =
      Some (Some (if refcount (qpu s) = 1 then None else Some ((qpu s)\<lparr>refcount := refcount (qpu s) - 1\<rparr>), e, [], A))"
    using scheduler_core.destroy_ok [OF assms(1) core] by blast
  then have "qhw_sched_destroy D (Some s) \<noteq> None" by simp
  moreover have "qhw_sched_submit_task D interf False s (Some task) \<noteq> None"
    by (rule call [OF scheduler_core.safe_submit [OF assms(1) core interf]])
  moreover have "finish_task D False s tid st \<noteq> None" if "task_state_is_terminal st" for st
    by (rule call [OF scheduler_core.safe_finish [OF assms(1) core that]])
  moreover have "qhw_sched_load_plugin False s (Some path) loader \<noteq> None"
    by (rule call [OF scheduler_core.safe_load [OF assms(1) core]]) (use assms(4) in blast)
  ultimately show ?thesis
    using call [OF scheduler_core.safe_select [OF assms(1) core]] call [OF scheduler_core.safe_priority [OF assms(1) core]]
      call [OF scheduler_core.safe_started [OF assms(1) core]] call [OF scheduler_core.safe_get_state [OF assms(1) core]]
      call [OF scheduler_core.safe_count [OF assms(1) core]] call [OF scheduler_core.safe_callbacks [OF assms(1) core]]
      call [OF scheduler_core.safe_list [OF assms(1) core]] call [OF scheduler_core.safe_policy [OF assms(1) core]]
    by (simp add: qhw_sched_task_completed_def qhw_sched_task_failed_def qhw_sched_task_cancelled_def
        scheduler_core.terminal_states [OF assms(1)])
qed

theorem every_call_returns_witness:
  "qhw_sched_select_next ref_ds False demo_waiting (Some zero_assignment) \<noteq> None \<and>
   qhw_sched_task_completed ref_ds False demo_waiting 7 \<noteq> None"
  using every_call_returns [OF demo_core demo_reachable, where interf = id and loader = demo_loader and
      path = "''fifo.so''" and a = zero_assignment and tid = 7]
  by (simp add: steps_refl demo_loader_def fifo_contract_def)

text \<open>
  C24: At most one task of a reachable scheduler is running, and it is the one the QPU records as running.
\<close>

theorem one_task_running:
  assumes "scheduler_core D G K" "reachable D K s"
    and "task_map_of D s i = Some ri" "state ri = QHW_SCHED_TASK_RUNNING"
    and "task_map_of D s j = Some rj" "state rj = QHW_SCHED_TASK_RUNNING"
  shows "i = j \<and> running_task_id (runtime (qpu s)) = i"
proof -
  have "sched_inv D G K s" by (rule scheduler_core.reachable_inv_core [OF assms(1,2)])
  then have "runtime_ok (runtime (qpu s)) (task_map_of D s)" by (simp add: sched_inv_def cinv_def)
  moreover have "i \<in> ids_in (task_map_of D s) QHW_SCHED_TASK_RUNNING" "j \<in> ids_in (task_map_of D s) QHW_SCHED_TASK_RUNNING"
    using assms by (auto simp: ids_in_def)
  ultimately show ?thesis by (auto simp: runtime_ok_def split: if_splits)
qed

theorem one_task_running_witness:
  "map_option state (task_map_of ref_ds demo_running 7) = Some QHW_SCHED_TASK_RUNNING \<and>
   running_task_id (runtime (qpu demo_running)) = 7"
  using one_task_running [OF demo_core demo_running_reachable demo_running_7 _ demo_running_7]
  by (simp add: demo_running_7 demo_record_def)

text \<open>
  In a reachable state the QPU's queued counter is the number of queued tasks in the table, and the
  active policy's ready set is exactly the set of queued tasks.
\<close>

theorem queued_count_exact:
  assumes "scheduler_core D G K" "reachable D K s"
  shows "unat (queued_count (runtime (qpu s))) = card (ids_in (task_map_of D s) QHW_SCHED_TASK_QUEUED) \<and>
    (policy_is_active s \<longrightarrow> (\<exists>p. policy_state (sched s) = Some p \<and>
       ready K (policy_desc (sched s)) p = ids_in (task_map_of D s) QHW_SCHED_TASK_QUEUED))"
proof -
  have inv: "sched_inv D G K s" by (rule scheduler_core.reachable_inv_core [OF assms])
  then have "policy_ok K (task_map_of D s) (policy_desc (sched s)) (policy_state (sched s))"
    "runtime_ok (runtime (qpu s)) (task_map_of D s)" by (simp_all add: sched_inv_def cinv_def)
  then show ?thesis
    by (auto simp: runtime_ok_def policy_ok_def policy_is_active_def zero_plugin_desc_def)
qed

text \<open>
  C4: Along any sequence of calls no task disappears, changes its parent or its enqueue number, and its
  state only moves along the edges of the task state machine; a terminal state never changes.
\<close>

theorem task_state_machine:
  assumes "scheduler_core D G K" "reachable D K s" "api_steps D K s s'" "task_map_of D s tid = Some r"
  shows "\<exists>r'. task_map_of D s' tid = Some r' \<and> rtranclp task_move (state r) (state r') \<and>
    (task_state_is_terminal (state r) \<longrightarrow> state r' = state r) \<and>
    enqueue_seq r' = enqueue_seq r \<and> parent_task_id (desc r') = parent_task_id (desc r)"
proof -
  have "sched_inv D G K s" by (rule scheduler_core.reachable_inv_core [OF assms(1,2)])
  then have "forward (task_map_of D s) (task_map_of D s')"
    using scheduler_core.api_ok(2) [OF assms(1,3)] by (simp add: scheduler_core.step_ok_def [OF assms(1)])
  then show ?thesis using assms(4) unfolding forward_def by (metis task_moves_terminal)
qed

theorem task_state_machine_witness:
  "\<exists>r'. task_map_of ref_ds demo_running 7 = Some r' \<and>
     rtranclp task_move QHW_SCHED_TASK_ASSIGNED (state r')"
proof -
  have "api_steps ref_ds demo_contract demo_assigned demo_running"
    by (rule steps_step [OF steps_refl demo_start_step])
  from task_state_machine [OF demo_core demo_assigned_reachable this demo_assigned_7]
  show ?thesis by (auto simp: demo_record_def)
qed

text \<open>
  C26: A waiting parent of a reachable scheduler has fewer counted outcomes than children and at least one
  child that is still queued, assigned or running, so its aggregation is still ahead.
\<close>

theorem waiting_parent_has_live_child:
  assumes "scheduler_core D G K" "reachable D K s"
    and "task_map_of D s pid = Some r" "state r = QHW_SCHED_TASK_WAITING"
  shows "outcomes r < unat (child_count r) \<and>
    (\<exists>c rc. task_map_of D s c = Some rc \<and> parent_task_id (desc rc) = pid \<and> live_state (state rc))"
proof -
  have "sched_inv D G K s" by (rule scheduler_core.reachable_inv_core [OF assms(1,2)])
  then have "waiting_ok {} (task_map_of D s)" by (simp add: sched_inv_def cinv_def)
  then have *: "outcomes r < unat (child_count r)"
    "unat (child_count r) \<le> outcomes r + card (live_children (task_map_of D s) pid)"
    using assms by (auto simp: waiting_ok_def)
  then have "live_children (task_map_of D s) pid \<noteq> {}" by auto
  then show ?thesis using * by (auto simp: live_children_def)
qed

theorem waiting_parent_has_live_child_witness:
  "\<exists>c rc. task_map_of ref_ds demo_waiting c = Some rc \<and> parent_task_id (desc rc) = 10 \<and> live_state (state rc)"
proof -
  obtain r where "task_map_of ref_ds demo_waiting 10 = Some r" "state r = QHW_SCHED_TASK_WAITING"
    using demo_waiting_10 by auto
  from waiting_parent_has_live_child [OF demo_core demo_reachable this] show ?thesis by blast
qed

end
