(* ===== verification/Call_Properties.thy ===== *)
theory Call_Properties
  imports Sched_Demo
begin

section \<open>What each call does\<close>

text \<open>
  The behaviour of the calls of the public interface, one property per call, on every branch. The
  hypotheses are the laws of the data structures and of the policies (\<^verbatim>\<open>scheduler_core D G K\<close>) and the
  scheduler invariant, which holds in every reachable state; the witnesses apply them to states of the
  concrete run with the reference structures and the FIFO policy.
\<close>

lemmas demo_laws = ref_core.scheduler_core_axioms

lemma parent_after_state:
  assumes "outcomes p < unat (child_count p)" "task_state_is_terminal st" "state p = QHW_SCHED_TASK_WAITING"
  shows "state (parent_after p st) =
    (if outcomes p + 1 < unat (child_count p) then QHW_SCHED_TASK_WAITING
     else if 0 < failed_child_count p \<or> st = QHW_SCHED_TASK_FAILED then QHW_SCHED_TASK_FAILED
     else if 0 < cancelled_child_count p \<or> st = QHW_SCHED_TASK_CANCELLED then QHW_SCHED_TASK_CANCELLED
     else QHW_SCHED_TASK_COMPLETED)"
proof -
  let ?r = "count_outcome p st"
  have n: "outcomes ?r = outcomes p + 1" using assms by (simp add: outcomes_count)
  have sum: "unat (completed_child_count ?r + failed_child_count ?r + cancelled_child_count ?r) = outcomes ?r"
    using n assms(1) unat_u64_le [of "child_count p"] by (simp add: unat_plus3 outcomes_def)
  have "unat (failed_child_count p) < 18446744073709551615" "unat (cancelled_child_count p) < 18446744073709551615"
    using assms(1) unat_u64_le [of "child_count p"] by (simp_all add: outcomes_def)
  then have "failed_child_count p \<noteq> UINT64_MAX" "cancelled_child_count p \<noteq> UINT64_MAX" by auto
  then have "0 < failed_child_count p + 1" "0 < cancelled_child_count p + 1"
    by (simp_all add: word_less_nat_alt unat_u64_Suc)
  then have "0 < failed_child_count ?r \<longleftrightarrow> 0 < failed_child_count p \<or> st = QHW_SCHED_TASK_FAILED"
    "0 < cancelled_child_count ?r \<longleftrightarrow> 0 < cancelled_child_count p \<or> st = QHW_SCHED_TASK_CANCELLED"
    by (simp_all add: count_outcome_def)
  then show ?thesis using sum n assms(3)
    by (simp add: parent_after_def Let_def word_less_nat_alt aggregate_state_def)
qed

subsection \<open>Submission\<close>

text \<open>
  C2: A submission is all or nothing. Other threads may change the scheduler while the cost or split callback
  runs without the lock; from the state \<^verbatim>\<open>s0\<close> they leave, an accepted task either enters the table queued,
  with a nonzero cost and at the end of the enqueue order, or as a waiting parent with exactly the children
  the slices demand, whose shots add up to the request; a refused submission changes no task, no
  enqueue order and no counter.
\<close>

theorem submit_all_or_nothing:
  assumes "scheduler_core D G K" "sched_inv D G K s" "rely D G K interf"
  shows "succeeds (qhw_sched_submit_task D interf False s (Some task)) (\<lambda>(rc, s'). sched_inv D G K s' \<and>
    (\<exists>s0. base D G K interf s s0 \<and> submit_outcome D G task s0 rc s'))"
  by (rule scheduler_core.submit_ok [OF assms])

theorem submit_all_or_nothing_witness:
  "\<exists>s0 s'. base ref_ds ref_ghost demo_contract id demo_running s0 \<and>
     submit_outcome ref_ds ref_ghost (demo_task 10 (KvArr [shots_kv QHW_SCHED_META_SHOTS 5])) s0 QHW_SCHED_OK s'"
  using submit_all_or_nothing [OF demo_laws demo_running_inv demo_rely,
      of "demo_task 10 (KvArr [shots_kv QHW_SCHED_META_SHOTS 5])"] demo_submit_split
  by (fastforce simp: succeeds_iff)

subsection \<open>Selection\<close>

text \<open>
  C5: Selection hands out a queued task and marks it assigned: the assignment is filled from its record, the
  queued counter drops by one, nothing else changes. Every other outcome leaves the tasks and counters
  alone, and the answer \<^verbatim>\<open>NOT_FOUND\<close> means that no policy is active or no task is queued.
\<close>

theorem select_next_effect:
  assumes "scheduler_core D G K" "sched_inv D G K s"
  shows "succeeds (qhw_sched_select_next D False s (Some a)) (\<lambda>(res, s').
    sched_inv D G K s' \<and> order_of G s' = order_of G s \<and>
    (if fst res = QHW_SCHED_OK then \<exists>a'. snd res = Some a' \<and> selected D s a' s' else unchanged D G s s') \<and>
    (fst res = QHW_SCHED_ERR_NOT_FOUND \<longrightarrow>
       \<not> policy_is_active s \<or> ids_in (task_map_of D s) QHW_SCHED_TASK_QUEUED = {}))"
proof (cases "policy_is_active s")
  case True
  show ?thesis by (rule succeeds_mono [OF scheduler_core.select_active [OF assms True]]) auto
next
  case False
  then show ?thesis using scheduler_core.select_inactive [OF assms] assms(2) by (simp add: unchanged_def)
qed

theorem select_next_effect_witness:
  "\<exists>a s'. qhw_sched_select_next ref_ds False demo_queued (Some zero_assignment) = Some ((QHW_SCHED_OK, Some a), s') \<and>
     selected ref_ds demo_queued a s'"
  using select_next_effect [OF demo_laws demo_queued_inv, of zero_assignment] demo_select
  by (fastforce simp: succeeds_iff)

subsection \<open>Start and finish notifications\<close>

text \<open>
  C25: A start is accepted exactly when the task is known, was assigned (or is queued and no policy is active), the QPU runs
  nothing, and the policy's callback, where there is one, answers OK; without an active policy nothing can refuse. Then
  the task becomes running, the QPU records it, and a queued task leaves the count of queued tasks. An unknown
  task and a task that may not start give \<^verbatim>\<open>NOT_FOUND\<close> and \<^verbatim>\<open>ERR_STATE\<close> and change nothing at all; when the policy
  refuses, the call returns its answer and leaves tasks and counters as they were.
\<close>

theorem start_guarded:
  assumes "scheduler_core D G K" "sched_inv D G K s"
  shows "case task_map_of D s tid of
      None \<Rightarrow> qhw_sched_task_started D False s tid = Some (QHW_SCHED_ERR_NOT_FOUND, s)
    | Some r \<Rightarrow>
        if start_allowed s r \<and> running_task_id (runtime (qpu s)) = 0
        then succeeds (qhw_sched_task_started D False s tid) (\<lambda>(rc, s'). sched_inv D G K s' \<and>
          start_answer s tid = Some rc \<and> (\<not> policy_is_active s \<longrightarrow> rc = QHW_SCHED_OK) \<and>
          (if rc = QHW_SCHED_OK
           then task_map_of D s' = (task_map_of D s)(tid \<mapsto> r\<lparr>state := QHW_SCHED_TASK_RUNNING\<rparr>) \<and>
             runtime (qpu s') = (runtime (qpu s))\<lparr>running_task_id := tid,
               queued_count := (if state r = QHW_SCHED_TASK_QUEUED then dec0 (queued_count (runtime (qpu s)))
                                else queued_count (runtime (qpu s)))\<rparr>
           else unchanged D G s s'))
        else qhw_sched_task_started D False s tid = Some (QHW_SCHED_ERR_STATE, s)"
proof (cases "task_map_of D s tid")
  case None
  then show ?thesis using scheduler_core.start_missing [OF assms] by simp
next
  case r: (Some r)
  show ?thesis
  proof (cases "start_allowed s r \<and> running_task_id (runtime (qpu s)) = 0")
    case True
    then have "start_allowed s r" "running_task_id (runtime (qpu s)) = 0" by simp_all
    note ok = scheduler_core.start_accepted [OF assms r this]
    have "succeeds (qhw_sched_task_started D False s tid) (\<lambda>(rc, s'). sched_inv D G K s' \<and>
          start_answer s tid = Some rc \<and> (\<not> policy_is_active s \<longrightarrow> rc = QHW_SCHED_OK) \<and>
          (if rc = QHW_SCHED_OK
           then task_map_of D s' = (task_map_of D s)(tid \<mapsto> r\<lparr>state := QHW_SCHED_TASK_RUNNING\<rparr>) \<and>
             runtime (qpu s') = (runtime (qpu s))\<lparr>running_task_id := tid,
               queued_count := (if state r = QHW_SCHED_TASK_QUEUED then dec0 (queued_count (runtime (qpu s)))
                                else queued_count (runtime (qpu s)))\<rparr>
           else unchanged D G s s'))"
      by (rule succeeds_mono [OF ok]) (clarsimp simp: unchanged_def split: if_split_asm)
    then show ?thesis using r True by simp
  next
    case False
    then show ?thesis using scheduler_core.start_rejected [OF assms r] r by auto
  qed
qed

theorem start_guarded_witness:
  "succeeds (qhw_sched_task_started ref_ds False demo_assigned 7)
     (\<lambda>(rc, s'). rc = QHW_SCHED_OK \<and> running_task_id (runtime (qpu s')) = 7) \<and>
   succeeds (qhw_sched_task_started ref_ds False demo_unplanned 7)
     (\<lambda>(rc, s'). rc = QHW_SCHED_OK \<and> running_task_id (runtime (qpu s')) = 7) \<and>
   qhw_sched_task_started ref_ds False demo_assigned 8 = Some (QHW_SCHED_ERR_NOT_FOUND, demo_assigned)"
proof -
  have idle: "running_task_id (runtime (qpu demo_assigned)) = 0" "task_map_of ref_ds demo_assigned 8 = None"
    unfolding demo_assigned_def demo_queued_def by (simp_all add: demo_eval demo_view)
  have "start_allowed demo_assigned (demo_record QHW_SCHED_TASK_ASSIGNED)"
    by (simp add: start_allowed_def demo_record_def)
  moreover have "start_answer demo_assigned 7 = Some QHW_SCHED_OK"
    unfolding demo_assigned_def demo_queued_def by (simp add: start_answer_def demo_eval)
  ultimately show ?thesis
    using start_guarded [OF demo_laws demo_assigned_inv, of 7] start_guarded [OF demo_laws demo_assigned_inv, of 8]
      start_guarded [OF demo_laws demo_unplanned_inv, of 7] idle demo_assigned_7 demo_unplanned
    by (auto simp: succeeds_iff)
qed

text \<open>
  C6: A completion is accepted exactly for the running task, a failure or cancellation for a queued, assigned
  or running one: the task takes the reported state, its waiting parent counts the outcome, the QPU's
  counters follow. A second report, a report about a waiting parent and an unknown task change nothing.
\<close>

theorem finish_guarded:
  assumes "scheduler_core D G K" "sched_inv D G K s" "task_state_is_terminal st"
  shows "case task_map_of D s tid of
      None \<Rightarrow> finish_task D False s tid st = Some (QHW_SCHED_ERR_NOT_FOUND, s)
    | Some r \<Rightarrow>
        if live_state (state r) \<and> (st = QHW_SCHED_TASK_COMPLETED \<longrightarrow> state r = QHW_SCHED_TASK_RUNNING)
        then succeeds (finish_task D False s tid st) (\<lambda>(rc, s').
          sched_inv D G K s' \<and> finish_effect D G s tid r st s')
        else finish_task D False s tid st = Some (QHW_SCHED_ERR_STATE, s)"
proof (cases "task_map_of D s tid")
  case None
  then show ?thesis using scheduler_core.finish_missing [OF assms(1,2)] by simp
next
  case r: (Some r)
  show ?thesis
  proof (cases "live_state (state r) \<and> (st = QHW_SCHED_TASK_COMPLETED \<longrightarrow> state r = QHW_SCHED_TASK_RUNNING)")
    case True
    have "succeeds (finish_task D False s tid st) (\<lambda>(rc, s'). sched_inv D G K s' \<and> frame s s' \<and>
        finish_effect D G s tid r st s')"
      by (rule scheduler_core.finish_accepted [OF assms(1,2) r _ assms(3)]) (use True in auto)
    then show ?thesis using r True by (auto elim!: succeeds_mono)
  next
    case False
    then show ?thesis using scheduler_core.finish_rejected [OF assms(1,2) r, of st] r by auto
  qed
qed

theorem finish_guarded_witness:
  "succeeds (finish_task ref_ds False demo_running 7 QHW_SCHED_TASK_COMPLETED) (\<lambda>(rc, s').
     finish_effect ref_ds ref_ghost demo_running 7 (demo_record QHW_SCHED_TASK_RUNNING) QHW_SCHED_TASK_COMPLETED s')"
  using finish_guarded [OF demo_laws demo_running_inv, of QHW_SCHED_TASK_COMPLETED 7] demo_running_7
  by (auto simp: task_state_is_terminal_def live_state_def demo_record_def elim!: succeeds_mono)

text \<open>
  C7: The outcome that completes a split: when the last outstanding child of a waiting parent finishes, the
  parent becomes failed if any child failed, else cancelled if any was cancelled, else completed; before
  that it stays waiting. The child's own record keeps the reported state.
\<close>

theorem parent_aggregates_children:
  assumes "scheduler_core D G K" "sched_inv D G K s" "task_state_is_terminal st"
    and "task_map_of D s tid = Some r" "live_state (state r)"
    and "st = QHW_SCHED_TASK_COMPLETED \<Longrightarrow> state r = QHW_SCHED_TASK_RUNNING"
    and "task_map_of D s (parent_task_id (desc r)) = Some p" "state p = QHW_SCHED_TASK_WAITING"
  shows "succeeds (finish_task D False s tid st) (\<lambda>(rc, s').
    map_option state (task_map_of D s' tid) = Some st \<and>
    map_option state (task_map_of D s' (parent_task_id (desc r))) = Some
      (if outcomes p + 1 < unat (child_count p) then QHW_SCHED_TASK_WAITING
       else if 0 < failed_child_count p \<or> st = QHW_SCHED_TASK_FAILED then QHW_SCHED_TASK_FAILED
       else if 0 < cancelled_child_count p \<or> st = QHW_SCHED_TASK_CANCELLED then QHW_SCHED_TASK_CANCELLED
       else QHW_SCHED_TASK_COMPLETED))"
proof -
  have ok: "succeeds (finish_task D False s tid st) (\<lambda>(rc, s'). sched_inv D G K s' \<and> frame s s' \<and>
      finish_effect D G s tid r st s')"
    by (rule scheduler_core.finish_accepted [OF assms(1,2,4,5,3)]) (use assms(6) in blast)
  have "tid \<noteq> parent_task_id (desc r)" using assms(4,5,7,8) by (auto simp: live_state_def)
  moreover have "waiting_ok {} (task_map_of D s)" using assms(2) by (simp add: sched_inv_def cinv_def)
  then have "outcomes p < unat (child_count p)" using assms(7,8) by (auto simp: waiting_ok_def)
  ultimately show ?thesis using assms(3,7,8)
    by (intro succeeds_mono [OF ok]) (auto simp: finish_effect_def parent_step_def parent_after_state)
qed

theorem parent_aggregates_children_witness:
  "succeeds (finish_task ref_ds False demo_waiting 20 QHW_SCHED_TASK_CANCELLED) (\<lambda>(rc, s').
     map_option state (task_map_of ref_ds s' 20) = Some QHW_SCHED_TASK_CANCELLED \<and>
     map_option state (task_map_of ref_ds s' 10) = Some QHW_SCHED_TASK_WAITING)"
proof -
  obtain r where r: "task_map_of ref_ds demo_waiting 20 = Some r" "state r = QHW_SCHED_TASK_QUEUED"
    "parent_task_id (desc r) = 10" using demo_waiting_child by auto
  obtain p where p: "task_map_of ref_ds demo_waiting 10 = Some p" "state p = QHW_SCHED_TASK_WAITING"
    "child_count p = 3" "outcomes p = 0" using demo_waiting_parent by auto
  show ?thesis
    using parent_aggregates_children [OF demo_laws demo_waiting_inv _ r(1), of QHW_SCHED_TASK_CANCELLED p] r p
    by (auto simp: task_state_is_terminal_def live_state_def elim!: succeeds_mono)
qed

subsection \<open>Priority updates\<close>

text \<open>
  C35: A priority update reaches exactly the queued task it names. When the policy refuses it the old priority
  is restored, so the table is as before; an unknown task and a task that is not queued give
  \<^verbatim>\<open>NOT_FOUND\<close> and \<^verbatim>\<open>ERR_STATE\<close> without any change.
\<close>

theorem priority_update_rolls_back:
  assumes "scheduler_core D G K" "sched_inv D G K s"
  shows "case task_map_of D s tid of
      None \<Rightarrow> qhw_sched_task_update_priority D False s tid v = Some (QHW_SCHED_ERR_NOT_FOUND, s)
    | Some r \<Rightarrow>
        if state r = QHW_SCHED_TASK_QUEUED
        then succeeds (qhw_sched_task_update_priority D False s tid v) (\<lambda>(rc, s'). sched_inv D G K s' \<and>
          order_of G s' = order_of G s \<and> runtime (qpu s') = runtime (qpu s) \<and>
          task_map_of D s' = (if rc = QHW_SCHED_OK
            then (task_map_of D s)(tid \<mapsto> r\<lparr>desc := (desc r)\<lparr>priority := v\<rparr>\<rparr>) else task_map_of D s))
        else qhw_sched_task_update_priority D False s tid v = Some (QHW_SCHED_ERR_STATE, s)"
proof (cases "task_map_of D s tid")
  case None
  then show ?thesis using scheduler_core.update_priority_missing [OF assms] by simp
next
  case r: (Some r)
  show ?thesis
  proof (cases "state r = QHW_SCHED_TASK_QUEUED")
    case True
    then show ?thesis using scheduler_core.update_priority_accepted [OF assms r True, of v] r
      by (auto elim!: succeeds_mono)
  next
    case False
    then show ?thesis using scheduler_core.update_priority_rejected [OF assms r] r by simp
  qed
qed

theorem priority_update_rolls_back_witness:
  "qhw_sched_task_update_priority ref_ds False demo_running 7 5 = Some (QHW_SCHED_ERR_STATE, demo_running) \<and>
   succeeds (qhw_sched_task_update_priority ref_ds False demo_queued 7 5) (\<lambda>(rc, s').
     runtime (qpu s') = runtime (qpu demo_queued))"
  using priority_update_rolls_back [OF demo_laws demo_running_inv, of 7 5]
    priority_update_rolls_back [OF demo_laws demo_queued_inv, of 7 5] demo_running_7 demo_queued_7
  by (auto simp: demo_record_def elim!: succeeds_mono)

subsection \<open>Policies\<close>

text \<open>
  C27: Changing the policy succeeds only for a registered plugin, and then installs it with the state its
  initialisation and the replay of all queued tasks in enqueue order produce. Any failure (no such plugin,
  bad options, a failing initialisation or replay) keeps the old policy and its state. No task, order or
  counter changes either way.
\<close>

theorem set_policy_replays_queue:
  assumes "scheduler_core D G K" "sched_inv D G K s"
  shows "succeeds (qhw_sched_set_policy D False s (Some nm) opts) (\<lambda>(rc, s').
    sched_inv D G K s' \<and> unchanged D G s s' \<and> plugins (sched s') = plugins (sched s) \<and>
    (if rc = QHW_SCHED_OK
     then (\<exists>it \<in> set (items (plugins (sched s))). pd_name (pl_desc it) = Some nm \<and>
       policy_desc (sched s') = pl_desc it \<and> replayed D G (pl_desc it) opts s (policy_state (sched s')))
     else policy_desc (sched s') = policy_desc (sched s) \<and> policy_state (sched s') = policy_state (sched s)))"
  by (rule scheduler_core.set_policy_ok [OF assms])

theorem set_policy_replays_queue_witness:
  "replayed ref_ds ref_ghost (fifo_desc ref_ds) (KvArr []) demo_loaded (policy_state (sched demo_policy))"
proof -
  have "items (plugins (sched demo_loaded)) = [\<lparr>pl_desc = fifo_desc ref_ds, pl_path = Some ''fifo.so'', pl_dl_handle = Some 1\<rparr>]"
    by (simp add: demo_loaded_def)
  then show ?thesis using set_policy_replays_queue [OF demo_laws demo_loaded_inv, of "''fifo''" "KvArr []"]
    by (simp add: demo_set_policy)
qed

text \<open>
  C36: Loading a plugin appends exactly one registry entry, under a name that no loaded plugin has and with a
  descriptor that passed the ABI and threading checks; every failure leaves the registry and the set of
  open library handles as they were, so nothing leaks. Tasks and the active policy are not touched.
\<close>

theorem load_plugin_appends:
  assumes "scheduler_core D G K" "sched_inv D G K s"
    and "\<And>d. dl_descriptor (loader path) = Some (Some d) \<Longrightarrow> good K d"
  shows "succeeds (qhw_sched_load_plugin False s (Some path) loader) (\<lambda>(rc, s').
    sched_inv D G K s' \<and> unchanged D G s s' \<and>
    policy_desc (sched s') = policy_desc (sched s) \<and> policy_state (sched s') = policy_state (sched s) \<and>
    (if rc = QHW_SCHED_OK
     then (\<exists>d h. items (plugins (sched s')) = items (plugins (sched s)) @
          [\<lparr>pl_desc = d, pl_path = Some path, pl_dl_handle = Some h\<rparr>] \<and>
        pd_name d \<notin> (\<lambda>it. pd_name (pl_desc it)) ` set (items (plugins (sched s))) \<and>
        validate_plugin_desc (threading (sched s)) (Some d) = QHW_SCHED_OK)
     else items (plugins (sched s')) = items (plugins (sched s)) \<and> open_handles s' = open_handles s))"
  by (rule scheduler_core.load_plugin_ok [OF assms(1,2)]) (rule assms(3))

theorem load_plugin_appends_witness:
  "succeeds (qhw_sched_load_plugin False demo_loaded (Some ''fifo.so'') demo_loader) (\<lambda>(rc, s').
     unchanged ref_ds ref_ghost demo_loaded s' \<and>
     (rc \<noteq> QHW_SCHED_OK \<longrightarrow> open_handles s' = open_handles demo_loaded))"
proof -
  have "good demo_contract d" if "dl_descriptor (demo_loader ''fifo.so'') = Some (Some d)" for d
    using that by (simp add: demo_loader_def fifo_contract_def)
  from load_plugin_appends [of ref_ds ref_ghost demo_contract demo_loaded demo_loader "''fifo.so''",
      OF demo_laws demo_loaded_inv this]
  show ?thesis by (auto elim!: succeeds_mono split: if_splits)
qed

text \<open>
  The policy listing is the registry: one entry per loaded plugin, in load order, or \<^verbatim>\<open>NO_MEMORY\<close> and no
  list; the scheduler itself does not change.
\<close>

theorem list_policies_exact:
  assumes "scheduler_core D G K" "sched_inv D G K s"
  shows "succeeds (qhw_sched_list_policies False False s) (\<lambda>((rc, out), s').
    sched_inv D G K s' \<and> unchanged D G s s' \<and>
    (if rc = QHW_SCHED_OK then out = Some (map policy_info (items (plugins (sched s))))
     else rc = QHW_SCHED_ERR_NO_MEMORY \<and> out = None))"
  by (rule scheduler_core.list_policies_ok [OF assms])

theorem list_policies_exact_witness:
  "succeeds (qhw_sched_list_policies False False demo_loaded) (\<lambda>((rc, out), s').
     rc = QHW_SCHED_OK \<longrightarrow> out = Some [policy_info \<lparr>pl_desc = fifo_desc ref_ds, pl_path = Some ''fifo.so'', pl_dl_handle = Some 1\<rparr>])"
  using list_policies_exact [OF demo_laws demo_loaded_inv]
  by (auto simp: demo_loaded_def elim!: succeeds_mono split: if_splits)

subsection \<open>Life cycle and queries\<close>

text \<open>
  C37: Creating a scheduler on an idle QPU yields, on success, a scheduler that satisfies the invariant, with no
  task, no plugin and no policy, and takes one reference of the QPU; on failure there is no scheduler.
\<close>

theorem create_establishes_invariant:
  assumes "scheduler_core D G K" "idle_qpu q"
  shows "succeeds (qhw_sched_create D policy_null attr (Some q) options e) (\<lambda>(rc, sys, e').
    case sys of
      None \<Rightarrow> rc \<noteq> QHW_SCHED_OK
    | Some s \<Rightarrow> rc = QHW_SCHED_OK \<and> sched_inv D G K s \<and> task_map_of D s = Map.empty \<and> order_of G s = [] \<and>
        \<not> policy_is_active s \<and> items (plugins (sched s)) = [] \<and> qpu s = q\<lparr>refcount := refcount q + 1\<rparr>)"
  by (rule scheduler_core.create_ok [OF assms])

theorem create_establishes_invariant_witness:
  "sched_inv ref_ds ref_ghost demo_contract demo_created \<and> qpu demo_created = demo_qpu\<lparr>refcount := 2\<rparr>"
  using create_establishes_invariant [OF demo_laws demo_idle, of True None "KvArr []" demo_env]
  unfolding demo_create by (simp add: demo_qpu_def)

text \<open>
  C38: Destroying a scheduler returns, frees every task record, closes every plugin library that is open and
  drops exactly one reference of the QPU, which is freed with the last one.
\<close>

theorem destroy_releases_everything:
  assumes "scheduler_core D G K" "sched_inv D G K s"
  shows "\<exists>e A. qhw_sched_destroy D (Some s) =
    Some (Some (if refcount (qpu s) = 1 then None else Some ((qpu s)\<lparr>refcount := refcount (qpu s) - 1\<rparr>), e, [], A)) \<and>
    cells A = Map.empty"
  by (rule scheduler_core.destroy_ok [OF assms])

theorem destroy_releases_everything_witness:
  "\<exists>e A. qhw_sched_destroy ref_ds (Some demo_created) =
     Some (Some (Some (demo_qpu\<lparr>refcount := 1\<rparr>), e, [], A)) \<and> cells A = Map.empty"
  using destroy_releases_everything [OF demo_laws demo_created_inv]
  by (simp add: demo_created_def demo_qpu_def)

text \<open>
  The queries agree with the task table and change nothing: the state query answers with the task's state
  or \<^verbatim>\<open>NOT_FOUND\<close>, and the count is the number of tasks in the table.
\<close>

theorem queries_agree_with_table:
  assumes "scheduler_core D G K" "sched_inv D G K s"
  shows "qhw_sched_task_get_state D False False s tid = Some (case task_map_of D s tid of
      None \<Rightarrow> ((QHW_SCHED_ERR_NOT_FOUND, None), s) | Some r \<Rightarrow> ((QHW_SCHED_OK, Some (state r)), s)) \<and>
    (\<exists>n. qhw_sched_task_count False s = Some (n, s) \<and> unat n = card (dom (task_map_of D s)))"
  using scheduler_core.get_state_ok [OF assms] scheduler_core.task_count_ok [OF assms] by blast

end
