(* ===== verification/Queue_Properties.thy ===== *)
theory Queue_Properties
  imports Sched_Demo
begin

section \<open>Properties of the task table, the ready queue and the FIFO policy\<close>

text \<open>
  The containers of the scheduler against their specifications: the task table as a map with an order,
  the ready queue as a set with a first element, and the FIFO policy as a list of task identifiers. The
  hypothesis \<^verbatim>\<open>datastructures D G\<close> states the laws of the external hash table, list and heap.
\<close>

lemmas ref_laws = ref.datastructures_axioms

subsection \<open>A queue with one task\<close>

definition demo_fifo_7 :: "(ref_table, ptr list, ptr list) fifo_state" where
  "demo_fifo_7 = the (policy_state (sched demo_queued))"

lemma demo_fifo_7_policy: "policy_state (sched demo_queued) = Some demo_fifo_7"
  unfolding demo_fifo_7_def demo_queued_def by (simp add: demo_eval)

lemma demo_fifo_7_inv: "fifo_inv ref_ds ref_ghost demo_fifo_7"
  using demo_queued_inv demo_active
  by (auto simp: sched_inv_def cinv_def policy_ok_def demo_fifo_7_policy fifo_contract_def policy_is_active_def
      zero_plugin_desc_def)

lemma demo_fifo_7_queue: "fifo_queue ref_ghost demo_fifo_7 = [7]"
  unfolding demo_fifo_7_def demo_queued_def by (simp add: demo_eval fifo_queue_def rq_elems_def ref_ghost_def task_at_def)

lemma demo_ready_ok: "ready_ok ref_ds ref_ghost (fs_ready demo_fifo_7) (fs_items demo_fifo_7)"
  using demo_fifo_7_inv by (simp add: fifo_inv_def)

lemma demo_ready_ids: "rq_ids ref_ds (fs_ready demo_fifo_7) = {7}"
  unfolding demo_fifo_7_def demo_queued_def by (auto simp: demo_eval rq_ids_def split: if_splits)

subsection \<open>FIFO policy\<close>

text \<open>
  C8: The FIFO policy is a queue: with the waiting tasks as a list, a submission appends at the back (or is
  refused and changes nothing), a selection takes the front and answers \<^verbatim>\<open>NOT_FOUND\<close> exactly when the list
  is empty, and a finish report removes the task wherever it stands.
\<close>

theorem fifo_refines_queue:
  assumes "datastructures D G" "fifo_inv D G s"
  shows "succeeds (fifo_on_task_submit D (Some s) task e) (\<lambda>(rc, st, e'). \<exists>s'. st = Some s' \<and> fifo_inv D G s' \<and>
      fifo_queue G s' = (if rc = QHW_SCHED_OK then fifo_queue G s @ [task_id task] else fifo_queue G s)) \<and>
    succeeds (fifo_select_next D (Some s) a e) (\<lambda>(rc, a', st, e'). \<exists>s'. st = Some s' \<and> fifo_inv D G s' \<and>
      fifo_queue G s' = tl (fifo_queue G s) \<and>
      (if fifo_queue G s = [] then rc = QHW_SCHED_ERR_NOT_FOUND
       else rc = QHW_SCHED_OK \<and> as_task_id a' = hd (fifo_queue G s))) \<and>
    succeeds (fifo_on_task_finished D (Some s) tid ts e) (\<lambda>(rc, st, e'). \<exists>s'. st = Some s' \<and> fifo_inv D G s' \<and>
      rc = QHW_SCHED_OK \<and> fifo_queue G s' = remove1 tid (fifo_queue G s))"
  using datastructures.fifo_submit_ok [OF assms, of task e] datastructures.fifo_select_ok [OF assms, of a e]
    datastructures.fifo_finished_ok [OF assms, of tid ts e]
  by (auto elim!: succeeds_mono split: if_splits)

theorem fifo_refines_queue_witness:
  "succeeds (fifo_select_next ref_ds (Some demo_fifo_7) zero_assignment demo_env) (\<lambda>(rc, a', st, e').
     rc = QHW_SCHED_OK \<and> as_task_id a' = 7)"
  using fifo_refines_queue [OF ref_laws demo_fifo_7_inv, of "demo_task 9 (KvArr [])" demo_env zero_assignment 7
      QHW_SCHED_TASK_CANCELLED]
  by (auto simp: demo_fifo_7_queue elim!: succeeds_mono)

subsection \<open>Ready queue\<close>

text \<open>
  C30: Popping the ready queue removes its first item: the front of the list, or for a heap queue an item that
  the comparison puts before or level with every other. It answers \<^verbatim>\<open>NOT_FOUND\<close> exactly when the queue is
  empty; the popped item is freed and its identifier, and only it, leaves the index.
\<close>

theorem ready_pop_takes_first:
  assumes "datastructures D G" "ready_ok D G rq A"
  shows "succeeds (qhw_ready_queue_pop D rq A) (\<lambda>(rc, tid, rq', A'). ready_ok D G rq' A' \<and>
    (if rq_ids D rq = {} then rc = QHW_SCHED_ERR_NOT_FOUND \<and> rq_ids D rq' = {} \<and> cells A' = cells A
     else rc = QHW_SCHED_OK \<and> (\<exists>p k. tid = Some k \<and> p \<in> set (rq_elems G rq) \<and> task_at A p = Some k \<and>
       cells A' p = None \<and> rq_ids D rq' = rq_ids D rq - {k} \<and>
       (case rq_kind rq of
          QHW_READY_QUEUE_FIFO \<Rightarrow> p = hd (rq_elems G rq)
        | QHW_READY_QUEUE_HEAP \<Rightarrow> (\<forall>x \<in> set (rq_elems G rq). ready_heap_compare rq A p x \<le> 0)))))"
proof -
  have empty: "rq_ids D rq = {} \<longleftrightarrow> rq_elems G rq = []" by (rule datastructures.rq_ids_empty [OF assms])
  note defs = datastructures.rq_first_def [OF assms(1)] datastructures.removed_def [OF assms(1)]
  have ids: "datastructures.removed D G k p rq A rq' A' \<Longrightarrow> rq_ids D rq' = rq_ids D rq - {k}" for k p rq' A'
    by (rule datastructures.removed_ids [OF assms(1)])
  show ?thesis
  proof (rule succeeds_mono [OF datastructures.ready_pop_ok [OF assms]], clarify, goal_cases)
    case (1 rc tid rq' A')
    show ?case
    proof (cases "rc = QHW_SCHED_OK")
      case True
      then obtain k p where "tid = Some k" and first: "datastructures.rq_first D G rq A p"
        and rem: "datastructures.removed D G k p rq A rq' A'" using 1 by auto
      then show ?thesis using True 1 ids [OF rem] empty by (auto simp: defs)
    next
      case False
      then show ?thesis using 1 empty by (auto simp: rq_ids_def)
    qed
  qed
qed

theorem ready_pop_takes_first_witness:
  "succeeds (qhw_ready_queue_pop ref_ds (fs_ready demo_fifo_7) (fs_items demo_fifo_7)) (\<lambda>(rc, tid, rq', A').
     rc = QHW_SCHED_OK \<and> rq_ids ref_ds rq' \<subset> {7})"
  using ready_pop_takes_first [OF ref_laws demo_ready_ok]
proof (rule succeeds_mono, clarify, goal_cases)
  case (1 rc tid rq' A')
  then obtain p k where "rc = QHW_SCHED_OK" "p \<in> set (rq_elems ref_ghost (fs_ready demo_fifo_7))"
    "task_at (fs_items demo_fifo_7) p = Some k" "rq_ids ref_ds rq' = {7} - {k}" by (auto simp: demo_ready_ids)
  moreover have "k \<in> rq_ids ref_ds (fs_ready demo_fifo_7)"
    using calculation demo_ready_ok by (auto simp: ready_ok_def rq_ids_def)
  ultimately show ?case by (auto simp: demo_ready_ids)
qed

text \<open>
  C33: Insertion and lookup agree: after a successful insertion the identifier is found, its item holds the
  task's descriptor with base and effective priority equal to the task's and the next sequence number, and
  every other identifier is found as before. An identifier that is present is refused with \<^verbatim>\<open>EXISTS\<close>, and a
  refused insertion changes neither index nor items.
\<close>

theorem ready_insert_then_find:
  assumes "datastructures D G" "ready_ok D G rq A"
  shows "succeeds (qhw_ready_queue_insert D rq A task m) (\<lambda>(rc, rq', A', m'). ready_ok D G rq' A' \<and>
    (task_id task \<in> rq_ids D rq \<longrightarrow> rc = QHW_SCHED_ERR_EXISTS) \<and>
    (if rc = QHW_SCHED_OK
     then (\<exists>p t. qhw_ready_queue_find D rq' (task_id task) = Some p \<and> cells A' p = Some t \<and> rt_desc t = task \<and>
         base_priority t = priority task \<and> effective_priority t = priority task \<and> seq t = rq_next_seq rq) \<and>
       (\<forall>k. k \<noteq> task_id task \<longrightarrow> qhw_ready_queue_find D rq' k = qhw_ready_queue_find D rq k)
     else qhw_ready_queue_find D rq' = qhw_ready_queue_find D rq \<and> cells A' = cells A))"
proof (cases "task_id task \<in> rq_ids D rq")
  case True
  then show ?thesis using assms(2) by (auto simp: qhw_ready_queue_insert_def rq_ids_def)
next
  case False
  note ins = datastructures.inserted_def [OF assms(1)]
  show ?thesis
  proof (rule succeeds_mono [OF datastructures.ready_insert_ok [OF assms]], clarify, goal_cases)
    case (1 rc rq' A' m')
    show ?case
    proof (cases "rc = QHW_SCHED_OK")
      case True
      then have i: "datastructures.inserted D G task rq A rq' A'" using 1 by simp
      then obtain t where t: "cells A' (brk A) = Some t" "t\<lparr>heap_index := 0\<rparr> = new_ready_task rq (heap_invalid_index D) task"
        by (auto simp: ins)
      have "rt_desc t = rt_desc (t\<lparr>heap_index := 0\<rparr>)" "base_priority t = base_priority (t\<lparr>heap_index := 0\<rparr>)"
        "effective_priority t = effective_priority (t\<lparr>heap_index := 0\<rparr>)" "seq t = seq (t\<lparr>heap_index := 0\<rparr>)"
        by simp_all
      then show ?thesis using True False 1 i t(1) unfolding t(2)
        by (auto simp: ins qhw_ready_queue_find_def new_ready_task_def)
    next
      case F: False
      then show ?thesis using False 1 by (auto simp: qhw_ready_queue_find_def fun_eq_iff)
    qed
  qed
qed

theorem ready_insert_then_find_witness:
  "succeeds (qhw_ready_queue_insert ref_ds (fs_ready demo_fifo_7) (fs_items demo_fifo_7) (demo_task 7 (KvArr [])) [])
     (\<lambda>(rc, rq', A', m'). rc = QHW_SCHED_ERR_EXISTS \<and> cells A' = cells (fs_items demo_fifo_7))"
  using ready_insert_then_find [OF ref_laws demo_ready_ok, of "demo_task 7 (KvArr [])" "[]"]
  by (auto simp: demo_ready_ids demo_task_def elim!: succeeds_mono)

subsection \<open>Task table\<close>

lemma demo_table_ok: "table_ok ref_ds ref_ghost (tasks (sched demo_queued))"
  using demo_queued_inv by (simp add: sched_inv_def cinv_def)

text \<open>
  C39: Inserting into the task table refines a map update that also extends the enqueue order: on success the
  new identifier was absent and now maps to a record with the given state and sequence number and its own
  copy of the metadata. Identifier 0, a duplicate, bad metadata and an allocation failure leave the map
  and the order as they were, with no record leaked.
\<close>

theorem table_insert_refines_map:
  assumes "datastructures D G" "table_ok D G tt"
  shows "succeeds (qhw_task_table_insert_state D tt task q st m) (\<lambda>(rc, tt', m').
    table_ok D G tt' \<and>
    (if rc = QHW_SCHED_OK then
       task_id task \<noteq> 0 \<and> tt_task D tt (task_id task) = None \<and>
       tt_task D tt' = (tt_task D tt)(task_id task \<mapsto> stored_record task q st) \<and>
       tt_order G tt' = tt_order G tt @ [task_id task]
     else
       rc \<in> {QHW_SCHED_ERR_INVALID_ARG, QHW_SCHED_ERR_NO_MEMORY, QHW_SCHED_ERR_EXISTS} \<and>
       tt_task D tt' = tt_task D tt \<and> tt_order G tt' = tt_order G tt))"
  by (rule datastructures.insert_state_ok [OF assms])

theorem table_insert_refines_map_witness:
  "succeeds (qhw_task_table_insert_state ref_ds (tasks (sched demo_queued)) (demo_task 7 (KvArr [])) 5
     QHW_SCHED_TASK_QUEUED []) (\<lambda>(rc, tt', m'). rc \<noteq> QHW_SCHED_OK \<and> tt_order ref_ghost tt' = order_of ref_ghost demo_queued)"
  using table_insert_refines_map [OF ref_laws demo_table_ok, of "demo_task 7 (KvArr [])" 5 QHW_SCHED_TASK_QUEUED "[]"]
    demo_queued_7
  by (auto simp: task_map_of_def order_of_def demo_task_def elim!: succeeds_mono split: if_splits)

text \<open>
  C40: The walk over the queued tasks ends and is the fold of its callback over the records in state queued, in
  enqueue order, stopping at the first error.
\<close>

theorem for_each_queued_is_fold:
  assumes "datastructures D G" "table_ok D G tt"
  shows "qhw_task_table_for_each_queued D tt fn s = run_all fn (tt_queued D G tt) s"
  by (rule datastructures.for_each_queued_run [OF assms])

theorem for_each_queued_is_fold_witness:
  "qhw_task_table_for_each_queued ref_ds (tasks (sched demo_queued)) (\<lambda>r xs. Some (QHW_SCHED_OK, task_id (desc r) # xs)) [] =
   Some (QHW_SCHED_OK, [7])"
proof -
  have "tt_order ref_ghost (tasks (sched demo_queued)) = [7]"
    unfolding demo_queued_def by (simp add: demo_eval tt_order_def ref_ghost_def record_id_def)
  then have "tt_queued ref_ds ref_ghost (tasks (sched demo_queued)) = [demo_record QHW_SCHED_TASK_QUEUED]"
    using demo_queued_7 by (simp add: tt_queued_def task_map_of_def demo_record_def)
  then show ?thesis
    by (simp add: for_each_queued_is_fold [OF ref_laws demo_table_ok] demo_record_def stored_record_def new_task_record_def demo_task_def)
qed

text \<open>
  Removing an identifier from the task table deletes it from the map and from the enqueue order, keeps every
  other record, and frees exactly the record that was removed, so the table stays consistent.
\<close>

theorem table_remove_refines_map:
  assumes "datastructures D G" "table_ok D G tt"
  shows "succeeds (qhw_task_table_remove D tt tid) (\<lambda>tt'. table_ok D G tt' \<and>
    tt_task D tt' = (tt_task D tt)(tid := None) \<and> tt_order G tt' = remove1 tid (tt_order G tt))"
  by (rule datastructures.remove_ok [OF assms])

theorem table_remove_refines_map_witness:
  "succeeds (qhw_task_table_remove ref_ds (tasks (sched demo_queued)) 7) (\<lambda>tt'.
     table_ok ref_ds ref_ghost tt' \<and> tt_task ref_ds tt' 7 = None)"
  using table_remove_refines_map [OF ref_laws demo_table_ok, of 7] by (auto elim!: succeeds_mono)

subsection \<open>Validation of children\<close>

text \<open>
  C28: Children that pass the validation are a partition of the request: fresh distinct identifiers, the parent's
  identifier as parent, each slice index from 0 to the count minus one exactly once, between one shot and
  the slice limit each, and shots that add up to the requested number without overflow.
\<close>

theorem validated_children_partition:
  assumes "datastructures D G" "validate_child_tasks D tt parent cs config n m = (QHW_SCHED_OK, m')"
    and "length cs = unat n"
  shows "(\<forall>c \<in> set cs. child_ok D tt (task_id parent) config n c) \<and> distinct (map task_id cs) \<and>
    n = slice_count config \<and>
    mset (map (\<lambda>c. unat (slice_of c)) cs) = mset [0..<unat n] \<and>
    sum_list (map (\<lambda>c. unat (shots_of c)) cs) = unat (requested_shots config)"
  by (rule datastructures.validate_sound [OF assms])

definition demo_child :: qhw_sched_task_desc where
  "demo_child = (demo_task 9 (KvArr [shots_kv QHW_SCHED_META_SLICE_INDEX 0, shots_kv QHW_SCHED_META_SLICE_COUNT 1,
     shots_kv QHW_SCHED_META_SHOTS 4]))\<lparr>parent_task_id := 8\<rparr>"

definition demo_config :: qhw_sched_split_config where
  "demo_config = qhw_sched_split_config_init\<lparr>requested_shots := 4, slice_shots := 4, slice_count := 1\<rparr>"

lemma demo_child_valid:
  "validate_child_tasks ref_ds (tasks (sched demo_queued)) (demo_task 8 (KvArr [])) [demo_child] demo_config 1 [] =
   (QHW_SCHED_OK, [])"
  unfolding demo_queued_def
  by (simp add: demo_eval demo_child_def demo_config_def word_le_nat_alt)

theorem validated_children_partition_witness:
  "sum_list (map (\<lambda>c. unat (shots_of c)) [demo_child]) = 4"
  using validated_children_partition [OF ref_laws demo_child_valid] by (simp add: demo_config_def)

end
