(* ===== verification/Boost_Loop.thy ===== *)
theory Boost_Loop
  imports Boosted_Queue
begin

section \<open>Recomputing the boosts that are due\<close>

text \<open>
  The loop \<^verbatim>\<open>refresh_expired\<close>, which the priority and the ordered policy run before a selection: as long as the
  first item of the refresh heap is due, it is taken out and its boost is computed anew. The interface \<^verbatim>\<open>boost_loop\<close>
  asks for the contract of one recomputation and of taking an item out; that the loop ends, and that it leaves
  boosts that are right at the time of the call, follows here for every policy.
\<close>

subsection \<open>Boosts and the times they were computed at\<close>

definition boost_at :: "qhw_deadline_boost_config \<Rightarrow> qhw_ready_task \<Rightarrow> u64 \<Rightarrow> qhw_deadline_boost_result" where
  "boost_at config t now = snd (qhw_deadline_boost_compute config (base_priority t)
     (deadline_ns (rt_desc t)) (estimated_runtime_ns (rt_desc t)) now)"

text \<open>The item after its boost was computed at the time \<^verbatim>\<open>now\<close>.\<close>

definition boosted_item :: "qhw_deadline_boost_config \<Rightarrow> u64 \<Rightarrow> qhw_ready_task \<Rightarrow> qhw_ready_task" where
  "boosted_item config now t = t\<lparr>effective_priority := br_effective_priority (boost_at config t now),
     next_refresh_ns := br_next_refresh_ns (boost_at config t now)\<rparr>"

lemma boosted_item_sel [simp]:
  "rt_desc (boosted_item config now t) = rt_desc t" "base_priority (boosted_item config now t) = base_priority t"
  "effective_priority (boosted_item config now t) = br_effective_priority (boost_at config t now)"
  "next_refresh_ns (boosted_item config now t) = br_next_refresh_ns (boost_at config t now)"
  "seq (boosted_item config now t) = seq t" "rt_estimated_cost (boosted_item config now t) = rt_estimated_cost t"
  "core (boosted_item config now t) = boosted_item config now (core t)"
  "boosted_item config now (t\<lparr>next_refresh_ns := n\<rparr>) = boosted_item config now t"
  by (simp_all add: boosted_item_def boost_at_def)

lemma boost_at_core [simp]: "boost_at config (core t) now = boost_at config t now"
  by (simp add: boost_at_def)

lemma boost_at_cong:
  "rt_desc t' = rt_desc t \<Longrightarrow> base_priority t' = base_priority t \<Longrightarrow> boost_at config t' now = boost_at config t now"
  by (simp add: boost_at_def)

text \<open>
  The boost of an item was computed at some time up to \<^verbatim>\<open>hi\<close>, and the item waits in the refresh heap unless it
  needs no refresh.
\<close>

definition timely :: "qhw_deadline_boost_config \<Rightarrow> u64 \<Rightarrow> ptr set \<Rightarrow> items \<Rightarrow> ptr \<Rightarrow> bool" where
  "timely config hi waiting A p \<longleftrightarrow> (\<exists>t since. look A p = Some t \<and> since \<le> hi \<and>
     effective_priority t = br_effective_priority (boost_at config t since) \<and>
     next_refresh_ns t = br_next_refresh_ns (boost_at config t since) \<and>
     (next_refresh_ns t = QHW_DEADLINE_BOOST_NEVER \<or> p \<in> waiting))"

text \<open>The effective priority of an item is its boosted priority at some time between \<^verbatim>\<open>lo\<close> and \<^verbatim>\<open>hi\<close>.\<close>

definition boosted_within :: "qhw_deadline_boost_config \<Rightarrow> u64 \<Rightarrow> u64 \<Rightarrow> qhw_ready_task \<Rightarrow> bool" where
  "boosted_within config lo hi t \<longleftrightarrow> (\<exists>at. lo \<le> at \<and> at \<le> hi \<and>
     effective_priority t = br_effective_priority (boost_at config t at))"

definition boost_config_ok :: "qhw_deadline_boost_config \<Rightarrow> bool" where
  "boost_config_ok config \<longleftrightarrow> (boost_enabled config \<longrightarrow> boost_thresholds_ok config)"

lemma boost_at_stable:
  assumes "boost_config_ok config" "since \<le> now" "now < br_next_refresh_ns (boost_at config t since)"
  shows "br_effective_priority (boost_at config t now) = br_effective_priority (boost_at config t since)"
proof (cases "boost_enabled config")
  case True
  then show ?thesis using assms boost_stable [of config since now] by (simp add: boost_at_def boost_config_ok_def)
next
  case False
  then show ?thesis by (simp add: boost_at_def qhw_deadline_boost_compute_def)
qed

text \<open>Items whose refresh is not due keep a boost that is right at \<^verbatim>\<open>lo\<close> or later.\<close>

lemma timely_within:
  assumes tm: "timely config hi waiting A p" and config: "boost_config_ok config"
    and lo: "lo \<le> hi" "lo < QHW_DEADLINE_BOOST_NEVER"
    and due: "\<And>t. p \<in> waiting \<Longrightarrow> look A p = Some t \<Longrightarrow> lo < next_refresh_ns t"
  shows "\<exists>t. look A p = Some t \<and> boosted_within config lo hi t"
proof -
  obtain t since where t: "look A p = Some t" "since \<le> hi"
    "effective_priority t = br_effective_priority (boost_at config t since)"
    "next_refresh_ns t = br_next_refresh_ns (boost_at config t since)"
    "next_refresh_ns t = QHW_DEADLINE_BOOST_NEVER \<or> p \<in> waiting"
    using tm by (auto simp: timely_def)
  have next': "lo < br_next_refresh_ns (boost_at config t since)" using t(4,5) due [OF _ t(1)] lo by auto
  show ?thesis
  proof (cases "lo \<le> since")
    case True
    then show ?thesis using t by (auto simp: boosted_within_def)
  next
    case False
    then have "effective_priority t = br_effective_priority (boost_at config t lo)"
      using boost_at_stable [OF config _ next'] t by simp
    then show ?thesis using t(1) lo by (auto simp: boosted_within_def)
  qed
qed

lemma timely_mono: "timely config hi waiting A p \<Longrightarrow> hi \<le> hi' \<Longrightarrow> waiting \<subseteq> waiting' \<Longrightarrow> timely config hi' waiting' A p"
  unfolding timely_def by (meson order_trans subsetD)

lemma timely_other:
  "timely config hi waiting A p \<Longrightarrow> look A' p = look A p \<Longrightarrow> (p \<in> waiting \<Longrightarrow> p \<in> waiting') \<Longrightarrow> hi \<le> hi' \<Longrightarrow>
   timely config hi' waiting' A' p"
  unfolding timely_def by (metis order_trans)

subsection \<open>What a recomputation leaves alone\<close>

text \<open>The keys that a recomputation leaves alone.\<close>

definition bare :: "qhw_ready_task \<Rightarrow> qhw_ready_task" where
  "bare t = t\<lparr>effective_priority := 0, next_refresh_ns := 0\<rparr>"

lemma bare_simps [simp]: "bare (t\<lparr>next_refresh_ns := n\<rparr>) = bare t" "bare (boosted_item config now t) = bare t"
  by (simp_all add: bare_def boosted_item_def)

definition same_tasks :: "items \<Rightarrow> items \<Rightarrow> bool" where
  "same_tasks A A' \<longleftrightarrow> (\<forall>p. map_option bare (look A' p) = map_option bare (look A p))"

lemma same_tasks_refl [simp]: "same_tasks A A"
  by (simp add: same_tasks_def)

lemma same_tasks_trans: "same_tasks A B \<Longrightarrow> same_tasks B C \<Longrightarrow> same_tasks A C"
  by (simp add: same_tasks_def)

lemma same_tasks_look: "same_tasks A B \<Longrightarrow> look C = look B \<Longrightarrow> same_tasks A C"
  by (simp add: same_tasks_def)

lemma same_tasksE:
  assumes "same_tasks A A'" "look A p = Some t"
  obtains t' where "look A' p = Some t'" "rt_desc t' = rt_desc t" "base_priority t' = base_priority t" "seq t' = seq t"
proof -
  have "map_option bare (look A' p) = Some (bare t)" using assms by (simp add: same_tasks_def)
  then obtain t' where t': "look A' p = Some t'" "bare t' = bare t" by auto
  show ?thesis
    by (rule that [OF t'(1)])
      (use arg_cong [OF t'(2), of rt_desc] arg_cong [OF t'(2), of base_priority] arg_cong [OF t'(2), of seq] in
        \<open>simp_all add: bare_def\<close>)
qed

subsection \<open>The interface\<close>

text \<open>
  The parts of a state: the refresh queue, the store and the ready items. \<^verbatim>\<open>keep\<close> relates a state to those that
  differ in boosts and heap positions only, \<^verbatim>\<open>drop\<close> replaces the refresh queue and the store, and \<^verbatim>\<open>floor\<close> is the
  earliest time the next clock reading can give.
\<close>

locale boost_loop = datastructures D G
  for D :: "('h, 'l, 'q) ds" and G :: "('h, 'l, 'q) ghost" +
  fixes rf :: "'s \<Rightarrow> 'q qhw_deadline_refresh_queue" and its :: "'s \<Rightarrow> items" and members :: "'s \<Rightarrow> ptr set"
    and okay :: "'s \<Rightarrow> bool" and keep :: "'s \<Rightarrow> 's \<Rightarrow> bool"
    and drop :: "'q qhw_deadline_refresh_queue \<Rightarrow> items \<Rightarrow> 's \<Rightarrow> 's"
    and boost :: "'s \<Rightarrow> qhw_deadline_boost_config"
    and reading :: "'s \<Rightarrow> clock \<Rightarrow> u64 \<times> clock" and floor :: "'s \<Rightarrow> clock \<Rightarrow> u64"
    and refresh_task :: "'s \<Rightarrow> ptr \<Rightarrow> env \<Rightarrow> (qhw_sched_rc \<times> 's \<times> env) option"
    and refresh_loop :: "u64 \<Rightarrow> 's \<Rightarrow> env \<Rightarrow> (qhw_sched_rc \<times> 's \<times> env) option"
  assumes keep_refl: "okay s \<Longrightarrow> keep s s"
    and keep_trans: "keep s s' \<Longrightarrow> keep s' s'' \<Longrightarrow> keep s s''"
    and keep_rest: "keep s s' \<Longrightarrow> boost s' = boost s \<and> reading s' = reading s \<and> floor s' = floor s \<and> members s' = members s"
    and drop_same: "okay s \<Longrightarrow> drop (rf s) (its s) s = s"
    and drop_sel [simp]: "rf (drop b A s) = b" "its (drop b A s) = A"
    and clock_floor: "reading s k = (now, k') \<Longrightarrow> floor s k \<le> now \<and> floor s k' = now"
    and recompute_law:
      "okay s \<Longrightarrow> p \<in> members s \<Longrightarrow> look (its s) p = Some t \<Longrightarrow> reading s (env_clock e) = (now, k) \<Longrightarrow>
       succeeds (refresh_task s p e) (\<lambda>(rc, s', e'). keep s s' \<and> okay s' \<and> env_clock e' = k \<and>
         rc \<in> {QHW_SCHED_OK, QHW_SCHED_ERR_NO_MEMORY} \<and> look (its s') = (look (its s))(p \<mapsto> boosted_item (boost s) now t) \<and>
         pending G (rf s') = (if rc = QHW_SCHED_OK \<and> br_next_refresh_ns (boost_at (boost s) t now) \<noteq> QHW_DEADLINE_BOOST_NEVER
           then insert p (pending G (rf s)) else pending G (rf s) - {p}))"
    and expired_law:
      "okay s \<Longrightarrow> succeeds (qhw_deadline_refresh_pop_expired D (rf s) (its s) now) (\<lambda>(r, b, A).
         case r of
           None \<Rightarrow> b = rf s \<and> A = its s \<and> (\<forall>p \<in> pending G (rf s). \<forall>t. look (its s) p = Some t \<longrightarrow> now < next_refresh_ns t)
         | Some p \<Rightarrow> okay (drop b A s) \<and> keep s (drop b A s) \<and> p \<in> pending G (rf s) \<and> p \<in> members s \<and>
             pending G b = pending G (rf s) - {p} \<and> (\<exists>t. look (its s) p = Some t \<and> next_refresh_ns t \<le> now) \<and>
             look A = (look (its s))(p := map_option (\<lambda>t. t\<lparr>next_refresh_ns := QHW_DEADLINE_BOOST_NEVER\<rparr>) (look (its s) p)))"
    and loop_law:
      "okay s \<Longrightarrow> refresh_loop now s e = do {
         (task, b, A) \<leftarrow> qhw_deadline_refresh_pop_expired D (rf s) (its s) now;
         case task of
           None \<Rightarrow> Some (QHW_SCHED_OK, drop b A s, e)
         | Some p \<Rightarrow> do {
             (rc, s, e) \<leftarrow> refresh_task (drop b A s) p e;
             if rc \<noteq> QHW_SCHED_OK then Some (rc, s, e) else refresh_loop now s e
           }
       }"

context boost_loop
begin

definition waiting :: "'s \<Rightarrow> ptr set" where
  "waiting s = pending G (rf s)"

definition fresh :: "'s \<Rightarrow> clock \<Rightarrow> bool" where
  "fresh s k \<longleftrightarrow> (\<forall>p \<in> members s. timely (boost s) (floor s k) (waiting s) (its s) p)"

definition fresh_but :: "ptr \<Rightarrow> 's \<Rightarrow> clock \<Rightarrow> bool" where
  "fresh_but p s k \<longleftrightarrow> (\<forall>x \<in> members s - {p}. timely (boost s) (floor s k) (waiting s) (its s) x)"

lemma fresh_fresh_but: "fresh s k \<Longrightarrow> fresh_but p s k"
  by (simp add: fresh_def fresh_but_def)

lemma fresh_but_other:
  assumes "fresh_but p s k" "members s' \<subseteq> members s" "boost s' = boost s" "floor s k \<le> floor s' k'"
    and "\<And>x. x \<in> members s' \<Longrightarrow> x \<noteq> p \<Longrightarrow> look (its s') x = look (its s) x" "waiting s - {p} \<subseteq> waiting s'"
  shows "fresh_but p s' k'"
  unfolding fresh_but_def
proof
  fix x
  assume x: "x \<in> members s' - {p}"
  show "timely (boost s') (floor s' k') (waiting s') (its s') x"
    by (rule timely_other [of _ "floor s k" "waiting s" "its s"])
      (use assms x in \<open>auto simp: fresh_but_def\<close>)
qed

text \<open>The state as a whole after one recomputation.\<close>

lemma recompute_ok:
  assumes ok: "okay s" and p: "p \<in> members s" and t: "look (its s) p = Some t"
    and now: "reading s (env_clock e) = (now, k)"
  shows "succeeds (refresh_task s p e) (\<lambda>(rc, s', e'). keep s s' \<and> okay s' \<and> env_clock e' = k \<and>
    rc \<in> {QHW_SCHED_OK, QHW_SCHED_ERR_NO_MEMORY} \<and> look (its s') = (look (its s))(p \<mapsto> boosted_item (boost s) now t) \<and>
    waiting s' = (if rc = QHW_SCHED_OK \<and> br_next_refresh_ns (boost_at (boost s) t now) \<noteq> QHW_DEADLINE_BOOST_NEVER
      then insert p (waiting s) else waiting s - {p}) \<and>
    (fresh_but p s (env_clock e) \<longrightarrow> fresh_but p s' k \<and> (rc = QHW_SCHED_OK \<longrightarrow> fresh s' k)))"
proof (rule succeeds_mono [OF recompute_law [OF assms]], clarify, goal_cases)
  case (1 rc s' e')
  let ?bt = "boosted_item (boost s) now t"
  have el: "members s' = members s" and wt: "waiting s' = (if rc = QHW_SCHED_OK \<and>
      br_next_refresh_ns (boost_at (boost s) t now) \<noteq> QHW_DEADLINE_BOOST_NEVER then insert p (waiting s) else waiting s - {p})"
    using keep_rest [OF 1(1)] 1 by (simp_all add: waiting_def)
  have fl: "floor s (env_clock e) \<le> floor s' (env_clock e')" "floor s' (env_clock e') = now" "boost s' = boost s"
    using clock_floor [OF now] 1(3) keep_rest [OF 1(1)] by simp_all
  have but: "fresh_but p s' (env_clock e')" if "fresh_but p s (env_clock e)"
    by (rule fresh_but_other [OF that]) (use el wt 1(5) fl in auto)
  have bt: "boost_at (boost s) ?bt now = boost_at (boost s) t now" by (simp add: boost_at_def)
  have "timely (boost s') (floor s' (env_clock e')) (waiting s') (its s') p" if "rc = QHW_SCHED_OK"
    unfolding timely_def by (intro exI [of _ ?bt] exI [of _ now]) (use that wt 1(5) fl bt in auto)
  then have "fresh s' (env_clock e')" if "fresh_but p s (env_clock e)" "rc = QHW_SCHED_OK"
    using but [OF that(1)] that(2) by (auto simp: fresh_def fresh_but_def)
  then show ?case using 1 wt but by simp
qed

subsection \<open>The loop\<close>

text \<open>The items whose refresh is due.\<close>

definition due :: "u64 \<Rightarrow> 's \<Rightarrow> ptr set" where
  "due now s = {p \<in> waiting s. \<exists>t. look (its s) p = Some t \<and> next_refresh_ns t \<le> now}"

definition refreshes :: "'s \<Rightarrow> env \<Rightarrow> 's \<Rightarrow> env \<Rightarrow> bool" where
  "refreshes s e s' e' \<longleftrightarrow> keep s s' \<and> okay s' \<and> same_tasks (its s) (its s') \<and> floor s (env_clock e) \<le> floor s (env_clock e')"

lemma refreshes_trans: "refreshes s e s1 e1 \<Longrightarrow> refreshes s1 e1 s2 e2 \<Longrightarrow> refreshes s e s2 e2"
  using keep_rest [of s s1] by (auto simp: refreshes_def intro: keep_trans same_tasks_trans)

lemma finite_due [simp]: "finite (due now s)"
  by (rule finite_subset [of _ "waiting s"]) (auto simp: due_def waiting_def pending_def)

text \<open>The items of \<^verbatim>\<open>X\<close> have the boost of the time that \<^verbatim>\<open>at\<close> gives them, the others are as before.\<close>

definition recomputed :: "ptr set \<Rightarrow> (ptr \<Rightarrow> u64) \<Rightarrow> 's \<Rightarrow> 's \<Rightarrow> bool" where
  "recomputed X at s s' \<longleftrightarrow> (\<forall>p. look (its s') p =
     (if p \<in> X then map_option (boosted_item (boost s) (at p)) (look (its s) p) else look (its s) p))"

definition needs_refresh :: "'s \<Rightarrow> ptr \<Rightarrow> bool" where
  "needs_refresh s p \<longleftrightarrow> (\<exists>t. look (its s) p = Some t \<and> next_refresh_ns t \<noteq> QHW_DEADLINE_BOOST_NEVER)"

text \<open>One round: an item that is due comes out of the refresh heap and is boosted anew.\<close>

lemma refresh_round:
  assumes ok: "okay s" and now: "now \<le> floor s (env_clock e)"
    and pop: "qhw_deadline_refresh_pop_expired D (rf s) (its s) now = Some (Some p, b, A)"
  shows "succeeds (refresh_task (drop b A s) p e) (\<lambda>(rc, s', e'). refreshes s e s' e' \<and>
    rc \<in> {QHW_SCHED_OK, QHW_SCHED_ERR_NO_MEMORY} \<and> card (due now s') < card (due now s) \<and>
    (rc = QHW_SCHED_OK \<longrightarrow> fresh s (env_clock e) \<longrightarrow> fresh s' (env_clock e')) \<and>
    floor s (env_clock e) \<le> floor s (env_clock e') \<and> recomputed {p} (\<lambda>_. floor s (env_clock e')) s s' \<and>
    p \<in> due now s \<and> due now s' = due now s - {p} \<and>
    (rc = QHW_SCHED_OK \<longrightarrow> waiting s' = {x \<in> waiting s. x = p \<longrightarrow> needs_refresh s' p}))"
proof -
  let ?s = "drop b A s"
  from expired_law [OF ok, of now] pop
  obtain t where st: "okay ?s" "keep s ?s" "p \<in> waiting s" "p \<in> members s" "look (its s) p = Some t" "next_refresh_ns t \<le> now"
    "waiting ?s = waiting s - {p}" "look A = (look (its s))(p \<mapsto> t\<lparr>next_refresh_ns := QHW_DEADLINE_BOOST_NEVER\<rparr>)"
    by (auto simp: waiting_def)
  note rest = keep_rest [OF st(2)]
  obtain at k where read: "reading s (env_clock e) = (at, k)" by force
  have fl: "floor s (env_clock e) \<le> at" "floor s k = at" using clock_floor [OF read] by simp_all
  let ?t = "t\<lparr>next_refresh_ns := QHW_DEADLINE_BOOST_NEVER\<rparr>"
  have bt: "boost_at (boost s) ?t at = boost_at (boost s) t at" by (simp add: boost_at_def)
  have later: "at < br_next_refresh_ns (boost_at (boost s) t at) \<or>
      br_next_refresh_ns (boost_at (boost s) t at) = QHW_DEADLINE_BOOST_NEVER"
    unfolding boost_at_def by (rule boost_refresh_later)
  have look1: "look (its ?s) p = Some ?t" and read1: "reading ?s (env_clock e) = (at, k)" and p1: "p \<in> members ?s"
    using st(4,8) read rest by simp_all
  show ?thesis
  proof (rule succeeds_mono [OF recompute_ok [OF st(1) p1 look1 read1]], clarify, goal_cases)
    case (1 rc s' e')
    have bs: "boost ?s = boost s" using rest by simp
    note r = 1 [unfolded bs bt]
    have lk: "look (its s') = (look (its s))(p \<mapsto> boosted_item (boost s) at ?t)" using r(5) st(8) by simp
    have same: "same_tasks (its s) (its s')" using st(5) lk by (simp add: same_tasks_def)
    have "refreshes s e s' e'" using r same fl keep_trans [OF st(2) r(1)] by (simp add: refreshes_def)
    moreover have gt: "now < br_next_refresh_ns (boost_at (boost s) t at)"
      if "br_next_refresh_ns (boost_at (boost s) t at) \<noteq> QHW_DEADLINE_BOOST_NEVER"
      using that later now fl(1) by auto
    then have d: "due now s' = due now s - {p}" using r(6) lk st(7) bt by (auto simp: due_def split: if_splits)
    have pd: "p \<in> due now s" using st by (auto simp: due_def)
    then have "card (due now s') < card (due now s)" unfolding d by (intro card_Diff1_less) simp_all
    moreover have "floor s (env_clock e) \<le> floor s (env_clock e')" "recomputed {p} (\<lambda>_. floor s (env_clock e')) s s'"
      using fl r(3) st(5) lk by (simp_all add: recomputed_def)
    moreover have "waiting s' = {x \<in> waiting s. x = p \<longrightarrow> needs_refresh s' p}" if "rc = QHW_SCHED_OK"
      using that r(6) lk st(3,7) bt by (auto simp: needs_refresh_def)
    moreover have "fresh s' (env_clock e')" if "rc = QHW_SCHED_OK" "fresh s (env_clock e)"
    proof -
      have "fresh_but p ?s (env_clock e)"
        by (rule fresh_but_other [OF fresh_fresh_but [OF that(2)]]) (use st rest in auto)
      then show ?thesis using r that(1) by simp
    qed
    ultimately show ?case using r d pd by blast
  qed
qed

text \<open>
  The loop ends, because every round takes an item off the due ones, and when it ends well nothing is due.
\<close>

lemma refresh_loop_ok:
  "okay s \<Longrightarrow> now \<le> floor s (env_clock e) \<Longrightarrow>
   succeeds (refresh_loop now s e) (\<lambda>(rc, s', e'). refreshes s e s' e' \<and>
     rc \<in> {QHW_SCHED_OK, QHW_SCHED_ERR_NO_MEMORY} \<and>
     (rc = QHW_SCHED_OK \<longrightarrow> due now s' = {} \<and> (fresh s (env_clock e) \<longrightarrow> fresh s' (env_clock e'))))"
proof (induction "card (due now s)" arbitrary: s e rule: less_induct)
  case less
  note ok = less.prems(1)
  obtain r b A where pop: "qhw_deadline_refresh_pop_expired D (rf s) (its s) now = Some (r, b, A)"
    using expired_law [OF ok, of now] by (elim succeeds3E) blast
  show ?case
  proof (cases r)
    case None
    then have "b = rf s" "A = its s" "due now s = {}"
      using expired_law [OF ok, of now] pop by (fastforce simp: due_def waiting_def)+
    then show ?thesis using None pop less.prems loop_law [OF ok, of now e] drop_same [OF ok] keep_refl [OF ok]
      by (simp add: refreshes_def)
  next
    case (Some p)
    show ?thesis unfolding loop_law [OF ok, of now e] pop Some
    proof (simp, rule succeeds_mono [OF refresh_round [OF less.prems pop [unfolded Some]]], clarify, goal_cases)
      case (1 rc s' e')
      show ?case
      proof (cases "rc = QHW_SCHED_OK")
        case False
        then show ?thesis using 1 by simp
      next
        case True
        have fl: "floor s' = floor s" and ok: "okay s'" using 1(1) keep_rest [of s s'] by (simp_all add: refreshes_def)
        have "now \<le> floor s' (env_clock e')" using 1(1) less.prems(2) fl by (auto simp: refreshes_def)
        then have "succeeds (refresh_loop now s' e') (\<lambda>(rc, s'', e''). refreshes s' e' s'' e'' \<and>
            rc \<in> {QHW_SCHED_OK, QHW_SCHED_ERR_NO_MEMORY} \<and>
            (rc = QHW_SCHED_OK \<longrightarrow> due now s'' = {} \<and> (fresh s' (env_clock e') \<longrightarrow> fresh s'' (env_clock e''))))"
          using less.hyps [OF _ ok] 1(3) by blast
        then show ?thesis using True 1 by (auto elim!: succeeds_mono intro: refreshes_trans)
      qed
    qed
  qed
qed

text \<open>
  What the loop does to the items, whether it ends well or not: it computes anew the boosts of items that were due, each at a
  clock reading of the loop, and leaves the others alone. When it ends well it has done so for all that were due.
\<close>

definition caught_up :: "u64 \<Rightarrow> 's \<Rightarrow> qhw_sched_rc \<Rightarrow> 's \<Rightarrow> env \<Rightarrow> bool" where
  "caught_up now s rc s' e' \<longleftrightarrow> (\<exists>X at. X \<subseteq> due now s \<and> (\<forall>p \<in> X. now \<le> at p \<and> at p \<le> floor s (env_clock e')) \<and>
     recomputed X at s s' \<and>
     (rc = QHW_SCHED_OK \<longrightarrow> X = due now s \<and> waiting s' = {p \<in> waiting s. p \<in> X \<longrightarrow> needs_refresh s' p}))"

lemma caught_up_none: "due now s = {} \<Longrightarrow> caught_up now s rc s e"
  unfolding caught_up_def by (intro exI [of _ "{}"]) (auto simp: recomputed_def)

lemma caught_up_one:
  assumes "now \<le> floor s (env_clock e)" "floor s (env_clock e) \<le> floor s (env_clock e')"
    and "recomputed {p} (\<lambda>_. floor s (env_clock e')) s s'" "p \<in> due now s" "rc \<noteq> QHW_SCHED_OK"
  shows "caught_up now s rc s' e'"
  unfolding caught_up_def by (intro exI [of _ "{p}"] exI [of _ "\<lambda>_. floor s (env_clock e')"]) (use assms in auto)

lemma caught_up_step:
  assumes now: "now \<le> floor s (env_clock e1)" and p: "p \<in> due now s" "due now s1 = due now s - {p}"
    and one: "recomputed {p} (\<lambda>_. floor s (env_clock e1)) s s1" "waiting s1 = {x \<in> waiting s. x = p \<longrightarrow> needs_refresh s1 p}"
    and rest: "boost s1 = boost s" "floor s1 = floor s" "floor s (env_clock e1) \<le> floor s (env_clock e')"
    and more: "caught_up now s1 rc s' e'"
  shows "caught_up now s rc s' e'"
proof -
  obtain X at where X: "X \<subseteq> due now s1" "\<And>x. x \<in> X \<Longrightarrow> now \<le> at x \<and> at x \<le> floor s (env_clock e')"
    "recomputed X at s1 s'"
    "rc = QHW_SCHED_OK \<Longrightarrow> X = due now s1 \<and> waiting s' = {x \<in> waiting s1. x \<in> X \<longrightarrow> needs_refresh s' x}"
    using more rest(2) unfolding caught_up_def by auto
  have out: "p \<notin> X" using X(1) p(2) by blast
  let ?at = "at(p := floor s (env_clock e1))"
  have "recomputed (insert p X) ?at s s'" using X(3) one(1) out rest(1) by (auto simp: recomputed_def)
  moreover have "needs_refresh s' p \<longleftrightarrow> needs_refresh s1 p" using X(3) out by (simp add: recomputed_def needs_refresh_def)
  then have "insert p X = due now s \<and> waiting s' = {x \<in> waiting s. x \<in> insert p X \<longrightarrow> needs_refresh s' x}"
    if "rc = QHW_SCHED_OK" using X(4) [OF that] one(2) p out by auto
  moreover have "now \<le> ?at x \<and> ?at x \<le> floor s (env_clock e')" if "x \<in> insert p X" for x
    using that X(2) now rest(3) by auto
  moreover have "insert p X \<subseteq> due now s" using X(1) p by blast
  ultimately show ?thesis unfolding caught_up_def by (intro exI [of _ "insert p X"] exI [of _ ?at]) blast
qed

lemma refresh_loop_exact:
  "okay s \<Longrightarrow> now \<le> floor s (env_clock e) \<Longrightarrow>
   succeeds (refresh_loop now s e) (\<lambda>(rc, s', e'). floor s (env_clock e) \<le> floor s (env_clock e') \<and> caught_up now s rc s' e')"
proof (induction "card (due now s)" arbitrary: s e rule: less_induct)
  case less
  note ok = less.prems(1)
  obtain r b A where pop: "qhw_deadline_refresh_pop_expired D (rf s) (its s) now = Some (r, b, A)"
    using expired_law [OF ok, of now] by (elim succeeds3E) blast
  show ?case
  proof (cases r)
    case None
    then have "b = rf s" "A = its s" "due now s = {}"
      using expired_law [OF ok, of now] pop by (fastforce simp: due_def waiting_def)+
    then show ?thesis using None pop loop_law [OF ok, of now e] drop_same [OF ok] caught_up_none by simp
  next
    case (Some p)
    obtain rc1 s1 e1 where run: "refresh_task (drop b A s) p e = Some (rc1, s1, e1)"
      and r1: "refreshes s e s1 e1" "card (due now s1) < card (due now s)" "floor s (env_clock e) \<le> floor s (env_clock e1)"
        "recomputed {p} (\<lambda>_. floor s (env_clock e1)) s s1" "p \<in> due now s" "due now s1 = due now s - {p}"
        "rc1 = QHW_SCHED_OK \<longrightarrow> waiting s1 = {x \<in> waiting s. x = p \<longrightarrow> needs_refresh s1 p}"
      using refresh_round [OF less.prems pop [unfolded Some]] by (elim succeeds3E) blast
    have rest: "boost s1 = boost s" "floor s1 = floor s" "okay s1"
      using r1(1) keep_rest [of s s1] by (simp_all add: refreshes_def)
    have le: "now \<le> floor s (env_clock e1)" using less.prems(2) r1(3) by simp
    have step: "refresh_loop now s e = (if rc1 \<noteq> QHW_SCHED_OK then Some (rc1, s1, e1) else refresh_loop now s1 e1)"
      using run by (simp add: loop_law [OF ok, of now e] pop Some)
    show ?thesis
    proof (cases "rc1 = QHW_SCHED_OK")
      case False
      then show ?thesis using caught_up_one [OF less.prems(2) r1(3-5)] r1(3) by (simp add: step)
    next
      case True
      have "succeeds (refresh_loop now s1 e1) (\<lambda>(rc, s', e'). floor s (env_clock e1) \<le> floor s (env_clock e') \<and> caught_up now s1 rc s' e')"
        using less.hyps [OF r1(2) rest(3)] le unfolding rest by blast
      then have "succeeds (refresh_loop now s1 e1) (\<lambda>(rc, s', e'). floor s (env_clock e) \<le> floor s (env_clock e') \<and> caught_up now s rc s' e')"
        by (rule succeeds_mono) (use caught_up_step [OF le r1(5,6,4) mp [OF r1(7) True] rest(1,2)] r1(3) in auto)
      then show ?thesis using True by (simp add: step)
    qed
  qed
qed

text \<open>After a round of refreshing at the time \<^verbatim>\<open>now\<close> every effective priority is the right one at \<^verbatim>\<open>now\<close> or later.\<close>

lemma refreshed_within:
  assumes fr: "fresh s k" and none: "due now s = {}" and config: "boost_config_ok (boost s)"
    and now: "now \<le> floor s k" "now < QHW_DEADLINE_BOOST_NEVER" and p: "p \<in> members s"
  shows "\<exists>t. look (its s) p = Some t \<and> boosted_within (boost s) now (floor s k) t"
  by (rule timely_within [OF _ config now]) (use fr none p in \<open>auto simp: fresh_def due_def not_le\<close>)

end

end
