(* ===== verification/Boosted_Policy.thy ===== *)
theory Boosted_Policy
  imports Boost_Loop
begin

section \<open>Policies over a boosted queue\<close>

text \<open>
  What the priority policy and the ordered policy without round robin have in common. A policy state holds a ready
  queue, a refresh queue and the store of their items; the interface \<^verbatim>\<open>boosted_policy\<close> names these parts, the
  comparison, the boost configuration and the clock reading, and asks for one law: the contract of the function that
  recomputes the boost of one task. The contracts of the loop over the expired tasks and of submit, select, priority
  change and finish follow here, once for both policies.
\<close>

subsection \<open>Recomputing one boost\<close>

text \<open>
  The sequence of calls by which both policies recompute the boost of an item: take it out of the refresh heap,
  write the new keys \<^verbatim>\<open>v\<close> and \<^verbatim>\<open>n\<close>, restore the order if the effective priority changed, and enter the refresh
  heap again.
\<close>

definition refreshed ::
  "('h, 'l, 'q) ghost \<Rightarrow> (qhw_ready_task \<Rightarrow> qhw_ready_task \<Rightarrow> int) \<Rightarrow> ptr \<Rightarrow> qhw_ready_task \<Rightarrow> qhw_sched_rc \<Rightarrow>
   ('h, 'l, 'q) qhw_ready_queue \<Rightarrow> 'q qhw_deadline_refresh_queue \<Rightarrow> items \<Rightarrow>
   ('h, 'l, 'q) qhw_ready_queue \<Rightarrow> 'q qhw_deadline_refresh_queue \<Rightarrow> items \<Rightarrow> ('h, 'l, 'q) ds \<Rightarrow> bool" where
  "refreshed G f p t' rc rq rf A rq' rf' A' D \<longleftrightarrow> boosted D G f rq' rf' A' \<and> rq_by_id rq' = rq_by_id rq \<and>
     set (rq_elems G rq') = set (rq_elems G rq) \<and> rc \<in> {QHW_SCHED_OK, QHW_SCHED_ERR_NO_MEMORY} \<and>
     look A' = (look A)(p \<mapsto> t') \<and>
     pending G rf' = (if rc = QHW_SCHED_OK \<and> next_refresh_ns t' \<noteq> QHW_DEADLINE_BOOST_NEVER
       then insert p (pending G rf) else pending G rf - {p})"

context datastructures
begin

lemma boosted_refresh_steps:
  assumes b: "boosted D G f rq rf A" and p: "p \<in> set (rq_elems G rq)" and t: "look A p = Some t"
  obtains u rf1 A1 u1 where "cells A p = Some u" "effective_priority u = effective_priority t"
    "qhw_deadline_refresh_remove D rf A (Some p) = Some (rf1, A1)" "cells A1 p = Some u1"
    "rt_desc u1 = rt_desc t" "base_priority u1 = base_priority t"
    "\<And>v n m. \<exists>rq' A2 rc rf2 A3 m'.
       (if effective_priority u \<noteq> v
        then qhw_ready_queue_reorder D rq (A1\<lparr>cells := (cells A1)(p \<mapsto> u1\<lparr>effective_priority := v, next_refresh_ns := n\<rparr>)\<rparr>) p
        else Some (QHW_SCHED_OK, rq, A1\<lparr>cells := (cells A1)(p \<mapsto> u1\<lparr>effective_priority := v, next_refresh_ns := n\<rparr>)\<rparr>)) =
         Some (QHW_SCHED_OK, rq', A2) \<and>
       qhw_deadline_refresh_insert D rf1 A2 p m = Some (rc, rf2, A3, m') \<and>
       refreshed G f p (t\<lparr>effective_priority := v, next_refresh_ns := n\<rparr>) rc rq rf A rq' rf2 A3 D"
proof -
  obtain u rf1 A1 u1 where u: "cells A p = Some u" "effective_priority u = effective_priority t" "rt_desc u = rt_desc t"
    "qhw_deadline_refresh_remove D rf A (Some p) = Some (rf1, A1)" "cells A1 p = Some u1"
    "rt_desc u1 = rt_desc t" "base_priority u1 = base_priority t" "pending G rf1 = pending G rf - {p}"
    and step: "\<And>v n. succeeds (if effective_priority u \<noteq> v
        then qhw_ready_queue_reorder D rq (A1\<lparr>cells := (cells A1)(p \<mapsto> u1\<lparr>effective_priority := v, next_refresh_ns := n\<rparr>)\<rparr>) p
        else Some (QHW_SCHED_OK, rq, A1\<lparr>cells := (cells A1)(p \<mapsto> u1\<lparr>effective_priority := v, next_refresh_ns := n\<rparr>)\<rparr>))
       (\<lambda>(rc, rq', A2). rc = QHW_SCHED_OK \<and> shared D G f ([0 \<mapsto> rq](0 \<mapsto> rq')) rf1 A2 \<and> rq_by_id rq' = rq_by_id rq \<and>
         set (rq_elems G rq') = set (rq_elems G rq) \<and> look A2 = (look A)(p \<mapsto> t\<lparr>effective_priority := v, next_refresh_ns := n\<rparr>))"
    by (rule shared_refresh_steps [OF b [unfolded boosted_shared] fun_upd_same p t], rule that)
  have np: "p \<notin> pending G rf1" using u(8) by simp
  have rest: "\<exists>rq' A2 rc rf2 A3 m'.
       (if effective_priority u \<noteq> v
        then qhw_ready_queue_reorder D rq (A1\<lparr>cells := (cells A1)(p \<mapsto> u1\<lparr>effective_priority := v, next_refresh_ns := n\<rparr>)\<rparr>) p
        else Some (QHW_SCHED_OK, rq, A1\<lparr>cells := (cells A1)(p \<mapsto> u1\<lparr>effective_priority := v, next_refresh_ns := n\<rparr>)\<rparr>)) =
         Some (QHW_SCHED_OK, rq', A2) \<and>
       qhw_deadline_refresh_insert D rf1 A2 p m = Some (rc, rf2, A3, m') \<and>
       refreshed G f p (t\<lparr>effective_priority := v, next_refresh_ns := n\<rparr>) rc rq rf A rq' rf2 A3 D" for v n m
  proof -
    let ?t = "t\<lparr>effective_priority := v, next_refresh_ns := n\<rparr>"
    obtain rq' A2 where re: "(if effective_priority u \<noteq> v
        then qhw_ready_queue_reorder D rq (A1\<lparr>cells := (cells A1)(p \<mapsto> u1\<lparr>effective_priority := v, next_refresh_ns := n\<rparr>)\<rparr>) p
        else Some (QHW_SCHED_OK, rq, A1\<lparr>cells := (cells A1)(p \<mapsto> u1\<lparr>effective_priority := v, next_refresh_ns := n\<rparr>)\<rparr>)) =
         Some (QHW_SCHED_OK, rq', A2)"
      and st: "boosted D G f rq' rf1 A2" "rq_by_id rq' = rq_by_id rq" "set (rq_elems G rq') = set (rq_elems G rq)" "look A2 = (look A)(p \<mapsto> ?t)"
      using step [of v n] unfolding fun_upd_upd boosted_shared by (elim succeeds3E) blast
    have lk: "look A2 p = Some ?t" and pe: "p \<in> set (rq_elems G rq')" using st(3,4) p by simp_all
    show ?thesis using re boosted_refresh_insert [OF st(1) pe np lk, of m] st u(8)
      by (elim succeeds4E) (auto simp: refreshed_def)
  qed
  show ?thesis by (rule that [OF u(1,2,4,5,6,7) rest])
qed

end

subsection \<open>The interface\<close>

text \<open>
  The parts of a policy state, with the laws of reading and replacing them, and the contract of the function that
  recomputes one boost. \<^verbatim>\<open>mode\<close> singles out the states the interface speaks of; \<^verbatim>\<open>floor\<close> is the earliest time the
  next clock reading can give.
\<close>

locale boosted_policy = datastructures D G
  for D :: "('h, 'l, 'q) ds" and G :: "('h, 'l, 'q) ghost" +
  fixes rq :: "'s \<Rightarrow> ('h, 'l, 'q) qhw_ready_queue" and rf :: "'s \<Rightarrow> 'q qhw_deadline_refresh_queue"
    and its :: "'s \<Rightarrow> items"
    and put :: "('h, 'l, 'q) qhw_ready_queue \<Rightarrow> 'q qhw_deadline_refresh_queue \<Rightarrow> items \<Rightarrow> 's \<Rightarrow> 's"
    and mode :: "'s \<Rightarrow> bool" and cmp :: "'s \<Rightarrow> qhw_ready_task \<Rightarrow> qhw_ready_task \<Rightarrow> int"
    and boost :: "'s \<Rightarrow> qhw_deadline_boost_config"
    and reading :: "'s \<Rightarrow> clock \<Rightarrow> u64 \<times> clock" and floor :: "'s \<Rightarrow> clock \<Rightarrow> u64"
    and refresh_task :: "'s \<Rightarrow> ptr \<Rightarrow> env \<Rightarrow> (qhw_sched_rc \<times> 's \<times> env) option"
    and refresh_loop :: "u64 \<Rightarrow> 's \<Rightarrow> env \<Rightarrow> (qhw_sched_rc \<times> 's \<times> env) option"
  assumes put_sel [simp]: "rq (put a b c s) = a" "rf (put a b c s) = b" "its (put a b c s) = c"
    and put_put [simp]: "put a' b' c' (put a b c s) = put a' b' c' s"
    and put_same [simp]: "mode s \<Longrightarrow> put (rq s) (rf s) (its s) s = s"
    and put_mode [simp]: "mode s \<Longrightarrow> mode (put a b c s)"
    and put_rest [simp]: "cmp (put a b c s) = cmp s" "boost (put a b c s) = boost s"
      "reading (put a b c s) = reading s" "floor (put a b c s) = floor s"
    and reading_floor: "reading s k = (now, k') \<Longrightarrow> floor s k \<le> now \<and> floor s k' = now"
    and refresh_law:
      "mode s \<Longrightarrow> boosted D G (cmp s) (rq s) (rf s) (its s) \<Longrightarrow> p \<in> set (rq_elems G (rq s)) \<Longrightarrow>
       look (its s) p = Some t \<Longrightarrow> reading s (env_clock e) = (now, k) \<Longrightarrow>
       succeeds (refresh_task s p e) (\<lambda>(rc, s', e'). s' = put (rq s') (rf s') (its s') s \<and> env_clock e' = k \<and>
         refreshed G (cmp s) p (boosted_item (boost s) now t) rc (rq s) (rf s) (its s) (rq s') (rf s') (its s') D)"
    and loop_law:
      "mode s \<Longrightarrow> refresh_loop now s e = do {
         (task, rf', A) \<leftarrow> qhw_deadline_refresh_pop_expired D (rf s) (its s) now;
         case task of
           None \<Rightarrow> Some (QHW_SCHED_OK, put (rq s) rf' A s, e)
         | Some p \<Rightarrow> do {
             (rc, s, e) \<leftarrow> refresh_task (put (rq s) rf' A s) p e;
             if rc \<noteq> QHW_SCHED_OK then Some (rc, s, e) else refresh_loop now s e
           }
       }"

context boosted_policy
begin

definition elems :: "'s \<Rightarrow> ptr set" where
  "elems s = set (rq_elems G (rq s))"

definition policy_ok :: "'s \<Rightarrow> bool" where
  "policy_ok s \<longleftrightarrow> mode s \<and> boosted D G (cmp s) (rq s) (rf s) (its s)"

definition as_before :: "'s \<Rightarrow> 's \<Rightarrow> bool" where
  "as_before s s' \<longleftrightarrow> s' = put (rq s') (rf s') (its s') s"

lemma as_before_refl [simp]: "mode s \<Longrightarrow> as_before s s"
  by (simp add: as_before_def)

lemma as_before_put [simp]: "as_before s (put a b c s)"
  by (simp add: as_before_def)

lemma as_before_trans: "as_before s s' \<Longrightarrow> as_before s' s'' \<Longrightarrow> as_before s s''"
  unfolding as_before_def by (metis put_put)

lemma as_before_rest:
  assumes "as_before s s'"
  shows "mode s \<Longrightarrow> mode s'" "cmp s' = cmp s" "boost s' = boost s" "reading s' = reading s" "floor s' = floor s"
  using assms unfolding as_before_def by (metis put_rest put_mode)+

lemma policy_ok_look: "policy_ok s \<Longrightarrow> p \<in> elems s \<Longrightarrow> \<exists>t. look (its s) p = Some t"
  using boosted_elems [of "cmp s" "rq s" "rf s" "its s" p] by (auto simp: policy_ok_def elems_def look_def)

text \<open>What a recomputation keeps: the ready items and their identifiers.\<close>

definition keeps :: "'s \<Rightarrow> 's \<Rightarrow> bool" where
  "keeps s s' \<longleftrightarrow> as_before s s' \<and> rq_by_id (rq s') = rq_by_id (rq s) \<and> elems s' = elems s"

lemma keeps_rest: "keeps s s' \<Longrightarrow> boost s' = boost s \<and> reading s' = reading s \<and> floor s' = floor s \<and> elems s' = elems s"
  using as_before_rest [of s s'] by (simp add: keeps_def)

lemma keeps_refl: "policy_ok s \<Longrightarrow> keeps s s"
  by (simp add: keeps_def policy_ok_def)

lemma keeps_trans: "keeps s s' \<Longrightarrow> keeps s' s'' \<Longrightarrow> keeps s s''"
  by (auto simp: keeps_def intro: as_before_trans)

lemma keeps_put: "set (rq_elems G a) = elems s \<Longrightarrow> rq_by_id a = rq_by_id (rq s) \<Longrightarrow> keeps s (put a b c s)"
  by (simp add: keeps_def elems_def)

lemma recomputed:
  assumes ok: "policy_ok s" and p: "p \<in> elems s" and t: "look (its s) p = Some t"
    and now: "reading s (env_clock e) = (now, k)"
  shows "succeeds (refresh_task s p e) (\<lambda>(rc, s', e'). keeps s s' \<and> policy_ok s' \<and> env_clock e' = k \<and>
    rc \<in> {QHW_SCHED_OK, QHW_SCHED_ERR_NO_MEMORY} \<and> look (its s') = (look (its s))(p \<mapsto> boosted_item (boost s) now t) \<and>
    pending G (rf s') = (if rc = QHW_SCHED_OK \<and> br_next_refresh_ns (boost_at (boost s) t now) \<noteq> QHW_DEADLINE_BOOST_NEVER
      then insert p (pending G (rf s)) else pending G (rf s) - {p}))"
proof (rule succeeds_mono [OF refresh_law], use ok p t now in \<open>simp_all add: policy_ok_def elems_def\<close>, clarify, goal_cases)
  case (1 rc s' e')
  then have same: "as_before s s'" by (simp add: as_before_def)
  then have "keeps s s'" using 1 by (simp add: keeps_def refreshed_def elems_def)
  then show ?case using 1 as_before_rest [OF same] by (simp add: refreshed_def)
qed

lemma expired:
  assumes ok: "policy_ok s"
  shows "succeeds (qhw_deadline_refresh_pop_expired D (rf s) (its s) now) (\<lambda>(r, b, A).
    case r of
      None \<Rightarrow> b = rf s \<and> A = its s \<and> (\<forall>p \<in> pending G (rf s). \<forall>t. look (its s) p = Some t \<longrightarrow> now < next_refresh_ns t)
    | Some p \<Rightarrow> policy_ok (put (rq s) b A s) \<and> keeps s (put (rq s) b A s) \<and> p \<in> pending G (rf s) \<and> p \<in> elems s \<and>
        pending G b = pending G (rf s) - {p} \<and> (\<exists>t. look (its s) p = Some t \<and> next_refresh_ns t \<le> now) \<and>
        look A = (look (its s))(p := map_option (\<lambda>t. t\<lparr>next_refresh_ns := QHW_DEADLINE_BOOST_NEVER\<rparr>) (look (its s) p)))"
proof -
  have b: "boosted D G (cmp s) (rq s) (rf s) (its s)" and mode: "mode s" using ok by (simp_all add: policy_ok_def)
  show ?thesis
  proof (rule succeeds_mono [OF boosted_refresh_pop [OF b, of now]], clarify, goal_cases)
    case (1 r b A)
    then show ?case using mode keeps_put [of "rq s" s b A] by (cases r) (simp_all add: policy_ok_def elems_def)
  qed
qed

end

sublocale boosted_policy \<subseteq> boost_loop D G rf its elems policy_ok keeps "\<lambda>b A s. put (rq s) b A s" boost reading floor
  refresh_task refresh_loop
proof
  show "refresh_loop now s e = do {
      (task, b, A) \<leftarrow> qhw_deadline_refresh_pop_expired D (rf s) (its s) now;
      case task of
        None \<Rightarrow> Some (QHW_SCHED_OK, put (rq s) b A s, e)
      | Some p \<Rightarrow> do {
          (rc, s, e) \<leftarrow> refresh_task (put (rq s) b A s) p e;
          if rc \<noteq> QHW_SCHED_OK then Some (rc, s, e) else refresh_loop now s e
        }
    }" if "policy_ok s" for s now e
    using loop_law that by (simp add: policy_ok_def)
qed ((rule keeps_refl keeps_rest keeps_trans reading_floor recomputed expired; assumption) | simp add: policy_ok_def)+

context boosted_policy
begin

text \<open>The law of one recomputation, in terms of the whole state.\<close>

lemma refresh_task_ok:
  assumes ok: "policy_ok s" and p: "p \<in> elems s" and t: "look (its s) p = Some t"
    and now: "reading s (env_clock e) = (now, k)"
  shows "succeeds (refresh_task s p e) (\<lambda>(rc, s', e'). as_before s s' \<and> policy_ok s' \<and> env_clock e' = k \<and>
    rq_by_id (rq s') = rq_by_id (rq s) \<and> elems s' = elems s \<and> rc \<in> {QHW_SCHED_OK, QHW_SCHED_ERR_NO_MEMORY} \<and>
    look (its s') = (look (its s))(p \<mapsto> boosted_item (boost s) now t) \<and>
    waiting s' = (if rc = QHW_SCHED_OK \<and> br_next_refresh_ns (boost_at (boost s) t now) \<noteq> QHW_DEADLINE_BOOST_NEVER
      then insert p (waiting s) else waiting s - {p}) \<and>
    (fresh_but p s (env_clock e) \<longrightarrow> fresh_but p s' k \<and> (rc = QHW_SCHED_OK \<longrightarrow> fresh s' k)))"
  by (rule succeeds_mono [OF recompute_ok [OF assms]]) (auto simp: keeps_def)

subsection \<open>The tasks of a state\<close>

text \<open>
  The abstract state: the ready tasks by identifier, without the fields a refresh may change and without heap
  positions.
\<close>

definition tasks :: "'s \<Rightarrow> u64 \<rightharpoonup> qhw_ready_task" where
  "tasks s k = (case hash_table_find D (rq_by_id (rq s)) k of None \<Rightarrow> None | Some p \<Rightarrow> map_option bare (look (its s) p))"

lemma find_elems:
  assumes "policy_ok s" "hash_table_find D (rq_by_id (rq s)) k = Some p"
  shows "p \<in> elems s" "task_at (its s) p = Some k"
  using assms by (simp_all add: policy_ok_def boosted_def ready_ok_def elems_def)

lemma tasks_dom: "policy_ok s \<Longrightarrow> dom (tasks s) = rq_ids D (rq s)"
  using policy_ok_look find_elems by (fastforce simp: tasks_def rq_ids_def split: option.splits)

lemma tasks_same: "rq_by_id (rq s') = rq_by_id (rq s) \<Longrightarrow> same_tasks (its s) (its s') \<Longrightarrow> tasks s' = tasks s"
  by (rule ext) (simp add: tasks_def same_tasks_def split: option.splits)

lemma tasks_put: "hash_table_find D (rq_by_id a) = hash_table_find D (rq_by_id (rq s)) \<Longrightarrow> look c = look (its s) \<Longrightarrow>
  tasks (put a b c s) = tasks s"
  by (rule ext) (simp add: tasks_def split: option.splits)

lemma refreshes_ok: "refreshes s e s' e' \<Longrightarrow> policy_ok s'"
  by (simp add: refreshes_def)

lemma refreshes_tasks: "refreshes s e s' e' \<Longrightarrow> tasks s' = tasks s"
  by (auto simp: refreshes_def keeps_def intro: tasks_same)

lemma tasks_rewrite:
  assumes ok: "policy_ok s" and k: "hash_table_find D (rq_by_id (rq s)) k = Some p"
    and id: "rq_by_id (rq s') = rq_by_id (rq s)" and lk: "look (its s') = (look (its s))(p \<mapsto> t)"
  shows "tasks s' = (tasks s)(k \<mapsto> bare t)"
proof (rule ext)
  fix j
  show "tasks s' j = ((tasks s)(k \<mapsto> bare t)) j"
  proof (cases "hash_table_find D (rq_by_id (rq s)) j")
    case (Some q)
    have "q = p \<longleftrightarrow> j = k" using find_elems(2) [OF ok k] find_elems(2) [OF ok Some] k Some by auto
    then show ?thesis using Some k id lk by (simp add: tasks_def)
  qed (use k id in \<open>auto simp: tasks_def\<close>)
qed

lemma tasks_inserted:
  assumes ok: "policy_ok s" and ins: "inserted task (rq s) (its s) rq' A'" and new: "cells (its s) (brk (its s)) = None"
    and lk: "look A' = (look (its s))(brk (its s) \<mapsto> t)"
  shows "tasks (put rq' b A' s) = (tasks s)(task_id task \<mapsto> bare t)"
proof (rule ext)
  fix j
  have "q \<noteq> brk (its s)" if "hash_table_find D (rq_by_id (rq s)) j = Some q" for q
    using policy_ok_look [OF ok find_elems(1) [OF ok that]] new by (auto simp: look_def)
  then show "tasks (put rq' b A' s) j = ((tasks s)(task_id task \<mapsto> bare t)) j"
    using ins lk by (auto simp: tasks_def inserted_def split: option.splits)
qed

lemma tasks_removed:
  assumes ok: "policy_ok s" and rem: "removed k p (rq s) (its s) rq' A'"
  shows "tasks (put rq' b A' s) = (tasks s)(k := None)" "tasks s k \<noteq> None"
proof -
  have kp: "hash_table_find D (rq_by_id (rq s)) k = Some p"
    using rem ok by (simp add: removed_def policy_ok_def boosted_def ready_ok_def)
  have "q \<noteq> p" if "hash_table_find D (rq_by_id (rq s)) j = Some q" "j \<noteq> k" for j q
    using find_elems(2) [OF ok kp] find_elems(2) [OF ok that(1)] that by auto
  then show "tasks (put rq' b A' s) = (tasks s)(k := None)"
    using rem removed_look [OF rem] by (auto simp: tasks_def removed_def fun_eq_iff split: option.splits)
  show "tasks s k \<noteq> None" using kp policy_ok_look [OF ok find_elems(1) [OF ok kp]] by (auto simp: tasks_def simp del: look_None)
qed

end

subsection \<open>The callbacks\<close>

text \<open>
  The callbacks of a policy over a boosted queue, as the two policies write them: each law is the body of the
  function, with the parts of the state replaced through \<^verbatim>\<open>put\<close>.
\<close>

locale boosted_callbacks = boosted_policy D G rq rf its put mode cmp boost reading floor refresh_task refresh_loop
  for D :: "('h, 'l, 'q) ds" and G :: "('h, 'l, 'q) ghost"
    and rq :: "'s \<Rightarrow> ('h, 'l, 'q) qhw_ready_queue" and rf :: "'s \<Rightarrow> 'q qhw_deadline_refresh_queue"
    and its :: "'s \<Rightarrow> items"
    and put :: "('h, 'l, 'q) qhw_ready_queue \<Rightarrow> 'q qhw_deadline_refresh_queue \<Rightarrow> items \<Rightarrow> 's \<Rightarrow> 's"
    and mode :: "'s \<Rightarrow> bool" and cmp :: "'s \<Rightarrow> qhw_ready_task \<Rightarrow> qhw_ready_task \<Rightarrow> int"
    and boost :: "'s \<Rightarrow> qhw_deadline_boost_config"
    and reading :: "'s \<Rightarrow> clock \<Rightarrow> u64 \<times> clock" and floor :: "'s \<Rightarrow> clock \<Rightarrow> u64"
    and refresh_task :: "'s \<Rightarrow> ptr \<Rightarrow> env \<Rightarrow> (qhw_sched_rc \<times> 's \<times> env) option"
    and refresh_loop :: "u64 \<Rightarrow> 's \<Rightarrow> env \<Rightarrow> (qhw_sched_rc \<times> 's \<times> env) option" +
  fixes submit :: "'s option \<Rightarrow> qhw_sched_task_desc \<Rightarrow> env \<Rightarrow> (qhw_sched_rc \<times> 's option \<times> env) option"
    and select :: "'s option \<Rightarrow> qhw_sched_assignment \<Rightarrow> env \<Rightarrow> (qhw_sched_rc \<times> qhw_sched_assignment \<times> 's option \<times> env) option"
    and changed :: "'s option \<Rightarrow> u64 \<Rightarrow> i64 \<Rightarrow> env \<Rightarrow> (qhw_sched_rc \<times> 's option \<times> env) option"
    and finished :: "'s option \<Rightarrow> u64 \<Rightarrow> qhw_sched_task_state \<Rightarrow> env \<Rightarrow> (qhw_sched_rc \<times> 's option \<times> env) option"
  assumes submit_law: "mode s \<Longrightarrow> submit (Some s) task e = do {
      (rc, a, A, m) \<leftarrow> qhw_ready_queue_insert D (rq s) (its s) task (env_mem e);
      let s = put a (rf s) A s;
      let e = e\<lparr>env_mem := m\<rparr>;
      if rc \<noteq> QHW_SCHED_OK then Some (rc, Some s, e)
      else
        case qhw_ready_queue_find D (rq s) (task_id task) of
          None \<Rightarrow> Some (QHW_SCHED_ERR_STATE, Some s, e)
        | Some p \<Rightarrow> do {
            (rc, s, e) \<leftarrow> refresh_task s p e;
            if rc \<noteq> QHW_SCHED_OK then do {
              (b, A) \<leftarrow> qhw_deadline_refresh_remove D (rf s) (its s) (Some p);
              (_, a, A) \<leftarrow> qhw_ready_queue_remove D (rq s) A (task_id task);
              Some (rc, Some (put a b A s), e)
            }
            else Some (QHW_SCHED_OK, Some s, e)
          }
    }"
  and select_law: "mode s \<Longrightarrow> reading s (env_clock e) = (now, k) \<Longrightarrow> select (Some s) out e = do {
      (rc, s, e) \<leftarrow> refresh_loop now s (e\<lparr>env_clock := k\<rparr>);
      if rc \<noteq> QHW_SCHED_OK then Some (rc, out, Some s, e)
      else do {
        first \<leftarrow> qhw_ready_queue_peek D (rq s);
        (b, A) \<leftarrow> qhw_deadline_refresh_remove D (rf s) (its s) first;
        (rc, tid, a, A) \<leftarrow> qhw_ready_queue_pop D (rq s) A;
        let st = Some (put a b A s);
        if rc \<noteq> QHW_SCHED_OK then Some (rc, out, st, e)
        else do {
          t \<leftarrow> tid;
          Some (QHW_SCHED_OK, zero_assignment\<lparr>as_task_id := t\<rparr>, st, e)
        }
      }
    }"
  and changed_law: "mode s \<Longrightarrow> changed (Some s) tid prio e =
      (case qhw_ready_queue_find D (rq s) tid of
         None \<Rightarrow> Some (QHW_SCHED_ERR_NOT_FOUND, Some s, e)
       | Some p \<Rightarrow> do {
           task \<leftarrow> cells (its s) p;
           A \<leftarrow> item_write p (\<lambda>t. t\<lparr>base_priority := prio\<rparr>) (its s);
           (rc, s, e) \<leftarrow> refresh_task (put (rq s) (rf s) A s) p e;
           if rc \<noteq> QHW_SCHED_OK then do {
             A \<leftarrow> item_write p (\<lambda>t. t\<lparr>base_priority := base_priority task\<rparr>) (its s);
             (_, s, e) \<leftarrow> refresh_task (put (rq s) (rf s) A s) p e;
             Some (QHW_SCHED_ERR_STATE, Some s, e)
           }
           else Some (QHW_SCHED_OK, Some s, e)
         })"
  and finished_law: "mode s \<Longrightarrow> finished (Some s) tid ts e = do {
      (b, A) \<leftarrow> qhw_deadline_refresh_remove D (rf s) (its s) (qhw_ready_queue_find D (rq s) tid);
      (rc, a, A) \<leftarrow> qhw_ready_queue_remove D (rq s) A tid;
      Some (if rc = QHW_SCHED_ERR_NOT_FOUND then QHW_SCHED_OK else rc, Some (put a b A s), e)
    }"

context boosted_callbacks
begin

text \<open>Taking an item out of both heaps.\<close>

lemma drop_ok:
  assumes ok: "policy_ok s" and k: "hash_table_find D (rq_by_id (rq s)) tid = Some p"
  obtains b A where "qhw_deadline_refresh_remove D (rf s) (its s) (Some p) = Some (b, A)"
    "policy_ok (put (rq s) b A s)" "pending G b = waiting s - {p}"
    "\<And>x. x \<noteq> p \<Longrightarrow> look A x = look (its s) x" "same_tasks (its s) A"
    "look A p = look (its s) p \<or>
     look A p = map_option (\<lambda>t. t\<lparr>next_refresh_ns := QHW_DEADLINE_BOOST_NEVER\<rparr>) (look (its s) p)"
proof -
  have b: "boosted D G (cmp s) (rq s) (rf s) (its s)" and mode: "mode s" using ok by (simp_all add: policy_ok_def)
  have p: "p \<in> elems s" using find_elems(1) [OF ok k] .
  then have "p \<in> set (rq_elems G (rq s))" by (simp add: elems_def)
  from boosted_refresh_remove [OF b this] obtain b' A where r: "qhw_deadline_refresh_remove D (rf s) (its s) (Some p) = Some (b', A)"
    "boosted D G (cmp s) (rq s) b' A" "pending G b' = waiting s - {p}"
    "look A = (if p \<in> waiting s
      then (look (its s))(p := map_option (\<lambda>t. t\<lparr>next_refresh_ns := QHW_DEADLINE_BOOST_NEVER\<rparr>) (look (its s) p)) else look (its s))"
    by (elim succeeds_tupleE) (auto simp: waiting_def)
  show ?thesis
  proof (rule that [OF r(1) _ r(3)])
    show "policy_ok (put (rq s) b' A s)" using r(2) mode by (simp add: policy_ok_def)
    show "look A x = look (its s) x" if "x \<noteq> p" for x using r(4) that by simp
    show "look A p = look (its s) p \<or>
      look A p = map_option (\<lambda>t. t\<lparr>next_refresh_ns := QHW_DEADLINE_BOOST_NEVER\<rparr>) (look (its s) p)"
      using r(4) by simp
    obtain t where "look (its s) p = Some t" using policy_ok_look [OF ok p] by blast
    then show "same_tasks (its s) A" using r(4) by (simp add: same_tasks_def)
  qed
qed

lemma fresh_drop:
  assumes fr: "fresh_but p s k" and d: "pending G b = waiting s - {p}" "\<And>x. x \<noteq> p \<Longrightarrow> look A x = look (its s) x"
    and rem: "removed j p (rq s) A a A'"
  shows "fresh (put a b A' s) k"
proof -
  have "timely (boost s) (floor s k) (pending G b) A' x" if x: "x \<in> elems s" "x \<noteq> p" for x
  proof (rule timely_other)
    show "timely (boost s) (floor s k) (waiting s) (its s) x" using fr x by (simp add: fresh_but_def)
  qed (use x d removed_look [OF rem] in simp_all)
  then show ?thesis using rem by (simp add: fresh_def elems_def waiting_def removed_def)
qed

text \<open>Taking a task out of the queue and of both heaps.\<close>

lemma undo_ok:
  assumes ok: "policy_ok s" and k: "hash_table_find D (rq_by_id (rq s)) tid = Some p"
  obtains b A a A' where "qhw_deadline_refresh_remove D (rf s) (its s) (Some p) = Some (b, A)"
    "qhw_ready_queue_remove D (rq s) A tid = Some (QHW_SCHED_OK, a, A')"
    "policy_ok (put a b A' s)" "tasks (put a b A' s) = (tasks s)(tid := None)"
    "\<And>k. fresh_but p s k \<Longrightarrow> fresh (put a b A' s) k"
proof -
  have mode: "mode s" using ok by (simp add: policy_ok_def)
  obtain b A where d: "qhw_deadline_refresh_remove D (rf s) (its s) (Some p) = Some (b, A)"
    "policy_ok (put (rq s) b A s)" "pending G b = waiting s - {p}"
    "\<And>x. x \<noteq> p \<Longrightarrow> look A x = look (its s) x" "same_tasks (its s) A"
    by (rule drop_ok [OF ok k]) blast
  have bo: "boosted D G (cmp s) (rq s) b A" using d(2) by (simp add: policy_ok_def)
  have np: "p \<notin> pending G b" using d(3) by simp
  obtain a A' where rem: "qhw_ready_queue_remove D (rq s) A tid = Some (QHW_SCHED_OK, a, A')"
    "boosted D G (cmp s) a b A'" "removed tid p (rq s) A a A'"
    using boosted_remove [OF bo k np] by (auto simp: succeeds_iff)
  let ?s = "put (rq s) b A s"
  have "tasks ?s = tasks s" by (rule tasks_same) (use d(5) in simp_all)
  moreover have "tasks (put a b A' ?s) = (tasks ?s)(tid := None)"
    by (rule tasks_removed [OF d(2)]) (use rem(3) in simp)
  ultimately have tk: "tasks (put a b A' s) = (tasks s)(tid := None)" by simp
  have po: "policy_ok (put a b A' s)" using rem mode by (simp add: policy_ok_def)
  have fr: "fresh (put a b A' s) k" if "fresh_but p s k" for k
    by (rule fresh_drop [OF that d(3,4) rem(3)])
  show ?thesis by (rule that [OF d(1) rem(1) po tk fr])
qed

lemma finished_ok:
  assumes ok: "policy_ok s"
  shows "succeeds (finished (Some s) tid ts e) (\<lambda>(rc, st, e'). \<exists>s'. st = Some s' \<and> rc = QHW_SCHED_OK \<and> policy_ok s' \<and>
    as_before s s' \<and> tasks s' = (tasks s)(tid := None) \<and> e' = e \<and> (fresh s k \<longrightarrow> fresh s' k))"
proof -
  have mode: "mode s" using ok by (simp add: policy_ok_def)
  show ?thesis
  proof (cases "hash_table_find D (rq_by_id (rq s)) tid")
    case None
    have rok: "ready_ok D G (rq s) (its s)" using ok by (simp add: policy_ok_def boosted_def)
    have "tid \<notin> rq_ids D (rq s)" using None by (auto simp: rq_ids_def)
    then have rem: "qhw_ready_queue_remove D (rq s) (its s) tid = Some (QHW_SCHED_ERR_NOT_FOUND, rq s, its s)"
      using ready_remove_ok [OF rok, of tid] by (auto simp: succeeds_iff)
    have "tasks s tid = None" using None by (simp add: tasks_def)
    then have "(tasks s)(tid := None) = tasks s" by auto
    then show ?thesis using None mode ok rem
      by (simp add: finished_law [OF mode] qhw_ready_queue_find_def qhw_deadline_refresh_remove_def)
  next
    case (Some p)
    obtain b A a A' where u: "qhw_deadline_refresh_remove D (rf s) (its s) (Some p) = Some (b, A)"
      "qhw_ready_queue_remove D (rq s) A tid = Some (QHW_SCHED_OK, a, A')"
      "policy_ok (put a b A' s)" "tasks (put a b A' s) = (tasks s)(tid := None)"
      "\<And>k. fresh_but p s k \<Longrightarrow> fresh (put a b A' s) k"
      by (rule undo_ok [OF ok Some]) blast
    then show ?thesis using Some fresh_fresh_but
      by (simp add: finished_law [OF mode] qhw_ready_queue_find_def)
  qed
qed

text \<open>Writing the base priority of an item and computing its boost anew.\<close>

lemma rebase_ok:
  assumes ok: "policy_ok s" and k: "hash_table_find D (rq_by_id (rq s)) tid = Some p" and t: "look (its s) p = Some t"
  obtains A where "item_write p (\<lambda>t. t\<lparr>base_priority := v\<rparr>) (its s) = Some A"
    "succeeds (refresh_task (put (rq s) (rf s) A s) p e) (\<lambda>(rc, s', e'). as_before s s' \<and> policy_ok s' \<and>
       rq_by_id (rq s') = rq_by_id (rq s) \<and> rc \<in> {QHW_SCHED_OK, QHW_SCHED_ERR_NO_MEMORY} \<and>
       tasks s' = (tasks s)(tid \<mapsto> bare (t\<lparr>base_priority := v\<rparr>)) \<and>
       (\<exists>t'. look (its s') p = Some t' \<and> bare t' = bare (t\<lparr>base_priority := v\<rparr>)) \<and>
       (rc = QHW_SCHED_OK \<longrightarrow> fresh s (env_clock e) \<longrightarrow> fresh s' (env_clock e')))"
proof -
  have b: "boosted D G (cmp s) (rq s) (rf s) (its s)" and mode: "mode s" using ok by (simp_all add: policy_ok_def)
  have p: "p \<in> elems s" by (rule find_elems(1) [OF ok k])
  obtain u where u: "cells (its s) p = Some u" "core u = t" using t by (auto simp: look_def)
  let ?A = "its s\<lparr>cells := (cells (its s))(p \<mapsto> u\<lparr>base_priority := v\<rparr>)\<rparr>" and ?t = "t\<lparr>base_priority := v\<rparr>"
  let ?s = "put (rq s) (rf s) ?A s"
  have "boosted D G (cmp s) (rq s) (rf s) ?A"
    by (rule boosted_twin [OF b u(1)]) (use p in \<open>simp_all add: refresh_twin_def elems_def\<close>)
  then have ok1: "policy_ok ?s" "elems ?s = elems s" "waiting ?s = waiting s"
    using mode by (simp_all add: policy_ok_def elems_def waiting_def)
  have lk: "look ?A = (look (its s))(p \<mapsto> ?t)" using u by (auto simp: look_def fun_eq_iff)
  obtain now c where read: "reading ?s (env_clock e) = (now, c)" by force
  have lp: "look (its ?s) p = Some ?t" using lk by simp
  show ?thesis
  proof (rule that)
    show "item_write p (\<lambda>t. t\<lparr>base_priority := v\<rparr>) (its s) = Some ?A" using u by (simp add: item_write_def)
    show "succeeds (refresh_task ?s p e) (\<lambda>(rc, s', e'). as_before s s' \<and> policy_ok s' \<and>
       rq_by_id (rq s') = rq_by_id (rq s) \<and> rc \<in> {QHW_SCHED_OK, QHW_SCHED_ERR_NO_MEMORY} \<and>
       tasks s' = (tasks s)(tid \<mapsto> bare ?t) \<and> (\<exists>t'. look (its s') p = Some t' \<and> bare t' = bare ?t) \<and>
       (rc = QHW_SCHED_OK \<longrightarrow> fresh s (env_clock e) \<longrightarrow> fresh s' (env_clock e')))"
    proof (rule succeeds_mono [OF refresh_task_ok [OF ok1(1) _ lp read]], use p ok1 in simp, clarify, goal_cases)
      case (1 rc s' e')
      have "look (its s') = (look (its s))(p \<mapsto> boosted_item (boost s) now ?t)" using 1(7) lk by simp
      from tasks_rewrite [OF ok k _ this] 1(4) have "tasks s' = (tasks s)(tid \<mapsto> bare ?t)" by simp
      moreover have "fresh s' (env_clock e')" if "rc = QHW_SCHED_OK" "fresh s (env_clock e)"
      proof -
        have "fresh_but p ?s (env_clock e)"
          by (rule fresh_but_other [OF fresh_fresh_but [OF that(2)]]) (use ok1 lk in auto)
        then show ?thesis using 1 that(1) by simp
      qed
      ultimately show ?case using 1 as_before_trans [OF as_before_put 1(1)] by simp
    qed
  qed
qed

lemma changed_ok:
  assumes ok: "policy_ok s"
  shows "succeeds (changed (Some s) tid prio e) (\<lambda>(rc, st, e'). \<exists>s'. st = Some s' \<and> policy_ok s' \<and> as_before s s' \<and>
    rc \<in> {QHW_SCHED_OK, QHW_SCHED_ERR_NOT_FOUND, QHW_SCHED_ERR_STATE} \<and> (rc = QHW_SCHED_ERR_NOT_FOUND \<longleftrightarrow> tasks s tid = None) \<and>
    tasks s' = (if rc = QHW_SCHED_OK then (tasks s)(tid \<mapsto> (the (tasks s tid))\<lparr>base_priority := prio\<rparr>) else tasks s) \<and>
    (rc = QHW_SCHED_OK \<longrightarrow> fresh s (env_clock e) \<longrightarrow> fresh s' (env_clock e')))"
proof -
  have mode: "mode s" using ok by (simp add: policy_ok_def)
  show ?thesis
  proof (cases "hash_table_find D (rq_by_id (rq s)) tid")
    case None
    then show ?thesis using ok mode by (simp add: changed_law [OF mode] qhw_ready_queue_find_def tasks_def)
  next
    case (Some p)
    obtain u where u: "cells (its s) p = Some u"
      using policy_ok_look [OF ok find_elems(1) [OF ok Some]] by (auto simp: look_def)
    have t: "look (its s) p = Some (core u)" using u by (simp add: look_def)
    have tk: "tasks s tid = Some (bare (core u))" using Some t by (simp add: tasks_def)
    obtain A where w: "item_write p (\<lambda>t. t\<lparr>base_priority := prio\<rparr>) (its s) = Some A"
      and r: "succeeds (refresh_task (put (rq s) (rf s) A s) p e) (\<lambda>(rc, s', e'). as_before s s' \<and> policy_ok s' \<and>
       rq_by_id (rq s') = rq_by_id (rq s) \<and> rc \<in> {QHW_SCHED_OK, QHW_SCHED_ERR_NO_MEMORY} \<and>
       tasks s' = (tasks s)(tid \<mapsto> bare ((core u)\<lparr>base_priority := prio\<rparr>)) \<and>
       (\<exists>t'. look (its s') p = Some t' \<and> bare t' = bare ((core u)\<lparr>base_priority := prio\<rparr>)) \<and>
       (rc = QHW_SCHED_OK \<longrightarrow> fresh s (env_clock e) \<longrightarrow> fresh s' (env_clock e')))"
      by (rule rebase_ok [OF ok Some t])
    have bb: "bare (x\<lparr>base_priority := y\<rparr>) = (bare x)\<lparr>base_priority := y\<rparr>" for x y by (simp add: bare_def)
    show ?thesis unfolding changed_law [OF mode] qhw_ready_queue_find_def Some
    proof (simp add: u w, rule succeeds_mono [OF r], clarify, goal_cases)
      case (1 rc s1 e1 t1)
      show ?case
      proof (cases "rc = QHW_SCHED_OK")
        case True
        then show ?thesis using 1 tk bb by simp
      next
        case False
        have k1: "hash_table_find D (rq_by_id (rq s1)) tid = Some p" using 1(3) Some by simp
        obtain A1 where w1: "item_write p (\<lambda>t. t\<lparr>base_priority := base_priority u\<rparr>) (its s1) = Some A1"
          and r1: "succeeds (refresh_task (put (rq s1) (rf s1) A1 s1) p e1) (\<lambda>(rc, s', e'). as_before s1 s' \<and> policy_ok s' \<and>
           rq_by_id (rq s') = rq_by_id (rq s1) \<and> rc \<in> {QHW_SCHED_OK, QHW_SCHED_ERR_NO_MEMORY} \<and>
           tasks s' = (tasks s1)(tid \<mapsto> bare (t1\<lparr>base_priority := base_priority u\<rparr>)) \<and>
           (\<exists>t'. look (its s') p = Some t' \<and> bare t' = bare (t1\<lparr>base_priority := base_priority u\<rparr>)) \<and>
           (rc = QHW_SCHED_OK \<longrightarrow> fresh s1 (env_clock e1) \<longrightarrow> fresh s' (env_clock e')))"
          by (rule rebase_ok [OF 1(2) k1 1(7)])
        have "(bare (core u))\<lparr>base_priority := base_priority u\<rparr> = bare (core u)"
          by (cases u) (simp add: bare_def core_def)
        then have "bare (t1\<lparr>base_priority := base_priority u\<rparr>) = bare (core u)"
          using 1(8) by (simp add: bb)
        then have "(tasks s1)(tid \<mapsto> bare (t1\<lparr>base_priority := base_priority u\<rparr>)) = tasks s"
          using 1(5) tk by auto
        moreover obtain rc2 s2 e2 where "refresh_task (put (rq s1) (rf s1) A1 s1) p e1 = Some (rc2, s2, e2)"
          "as_before s1 s2" "policy_ok s2" "tasks s2 = (tasks s1)(tid \<mapsto> bare (t1\<lparr>base_priority := base_priority u\<rparr>))"
          using r1 by (elim succeeds3E) blast
        ultimately show ?thesis using False 1(1,5) w1 tk as_before_trans by auto
      qed
    qed
  qed
qed

lemma submit_ok:
  assumes ok: "policy_ok s"
  shows "succeeds (submit (Some s) task e) (\<lambda>(rc, st, e'). \<exists>s'. st = Some s' \<and> policy_ok s' \<and> as_before s s' \<and>
    tasks s' = (if rc = QHW_SCHED_OK
      then (tasks s)(task_id task \<mapsto> bare (core (new_ready_task (rq s) (heap_invalid_index D) task))) else tasks s) \<and>
    (rc = QHW_SCHED_OK \<longrightarrow> tasks s (task_id task) = None) \<and>
    (fresh s (env_clock e) \<longrightarrow> fresh s' (env_clock e')))"
proof -
  have b: "boosted D G (cmp s) (rq s) (rf s) (its s)" and mode: "mode s" using ok by (simp_all add: policy_ok_def)
  let ?t = "core (new_ready_task (rq s) (heap_invalid_index D) task)" and ?p = "brk (its s)"
  obtain rc a A m where ins: "qhw_ready_queue_insert D (rq s) (its s) task (env_mem e) = Some (rc, a, A, m)"
    and b1: "boosted D G (cmp s) a (rf s) A"
    and res: "if rc = QHW_SCHED_OK
     then inserted task (rq s) (its s) a A \<and> ?p \<notin> pending G (rf s) \<and> cells (its s) ?p = None \<and> look A = (look (its s))(?p \<mapsto> ?t)
     else hash_table_find D (rq_by_id a) = hash_table_find D (rq_by_id (rq s)) \<and> rq_elems G a = rq_elems G (rq s) \<and>
      cells A = cells (its s)"
    using boosted_insert [OF b, of task "env_mem e"] by (elim succeeds4E) blast
  let ?s = "put a (rf s) A s" and ?e = "e\<lparr>env_mem := m\<rparr>"
  have ok1: "policy_ok ?s" using b1 mode by (simp add: policy_ok_def)
  show ?thesis
  proof (cases "rc = QHW_SCHED_OK")
    case False
    then have same: "hash_table_find D (rq_by_id a) = hash_table_find D (rq_by_id (rq s))" "rq_elems G a = rq_elems G (rq s)"
      "look A = look (its s)" using res by (simp_all add: look_def fun_eq_iff)
    have "tasks ?s = tasks s" by (rule tasks_put) (use same in simp_all)
    moreover have "fresh ?s (env_clock e)" if "fresh s (env_clock e)"
      using that same by (simp add: fresh_def elems_def waiting_def timely_def)
    ultimately show ?thesis using False ins ok1 by (simp add: submit_law [OF mode])
  next
    case True
    then have r: "inserted task (rq s) (its s) a A" "?p \<notin> pending G (rf s)" "cells (its s) ?p = None"
      "look A = (look (its s))(?p \<mapsto> ?t)" using res by simp_all
    have k: "hash_table_find D (rq_by_id (rq ?s)) (task_id task) = Some ?p" and none: "tasks s (task_id task) = None"
      and el: "elems ?s = insert ?p (elems s)"
      using r(1) by (simp_all add: inserted_def tasks_def elems_def)
    have tk: "tasks ?s = (tasks s)(task_id task \<mapsto> bare ?t)" by (rule tasks_inserted [OF ok r(1,3,4)])
    have lp: "look (its ?s) ?p = Some ?t" using r(4) by simp
    obtain now c where read: "reading ?s (env_clock ?e) = (now, c)" by force
    have but: "fresh_but ?p ?s (env_clock ?e)" if "fresh s (env_clock e)"
    proof -
      have "?p \<notin> elems s" using policy_ok_look [OF ok, of ?p] r(3) by (auto simp: look_def)
      then show ?thesis
        using that r(4) el by (auto simp: fresh_but_def fresh_def waiting_def timely_def)
    qed
    show ?thesis
      unfolding submit_law [OF mode] ins using True k
    proof (simp add: qhw_ready_queue_find_def, intro succeeds_mono [OF refresh_task_ok [OF ok1 find_elems(1) [OF ok1 k] lp read]],
        clarify, goal_cases)
      case (1 rc2 s2 e2)
      have tk2: "tasks s2 = tasks ?s"
        by (rule tasks_same) (use 1 lp in \<open>simp_all add: same_tasks_def\<close>)
      show ?case
      proof (cases "rc2 = QHW_SCHED_OK")
        case True
        then show ?thesis using 1 tk tk2 none but as_before_trans [OF as_before_put] by simp
      next
        case False
        have k2: "hash_table_find D (rq_by_id (rq s2)) (task_id task) = Some ?p" using 1 k by simp
        obtain b' A1 a' A2 where u: "qhw_deadline_refresh_remove D (rf s2) (its s2) (Some ?p) = Some (b', A1)"
          "qhw_ready_queue_remove D (rq s2) A1 (task_id task) = Some (QHW_SCHED_OK, a', A2)"
          "policy_ok (put a' b' A2 s2)" "tasks (put a' b' A2 s2) = (tasks s2)(task_id task := None)"
          "\<And>k. fresh_but ?p s2 k \<Longrightarrow> fresh (put a' b' A2 s2) k"
          by (rule undo_ok [OF _ k2]) (use 1 in blast)+
        have "(tasks s2)(task_id task := None) = tasks s" using tk tk2 none by auto
        moreover have "as_before s (put a' b' A2 s2)"
          using 1 as_before_trans [OF as_before_put as_before_trans [OF _ as_before_put]] by blast
        ultimately show ?thesis using False 1 u but by simp
      qed
    qed
  qed
qed

subsection \<open>Selection\<close>

text \<open>
  \<^verbatim>\<open>T\<close> holds the tasks with the keys the choice was made by, and \<^verbatim>\<open>k\<close> is least among them.
\<close>

definition chosen :: "'s \<Rightarrow> (u64 \<rightharpoonup> qhw_ready_task) \<Rightarrow> u64 \<Rightarrow> bool" where
  "chosen s T k \<longleftrightarrow> (\<forall>j. map_option bare (T j) = tasks s j) \<and>
     (\<exists>t. T k = Some t \<and> (\<forall>j u. T j = Some u \<longrightarrow> cmp s t u \<le> 0))"

lemma cmp_core:
  assumes "policy_ok s"
  shows "cmp s (core t) (core u) = cmp s t u"
proof -
  have f: "refresh_free (cmp s)" and ok: "compare_ok (cmp s)"
    using assms by (auto simp: policy_ok_def boosted_def ready_ok_def shape_ok_def split: option.splits)
  have "core x = (x\<lparr>base_priority := base_priority x, refresh_heap_index := 0, next_refresh_ns := next_refresh_ns x\<rparr>)\<lparr>heap_index := 0\<rparr>" for x
    by (cases x) (simp add: core_def)
  then have "cmp s (core t) (core u) =
    cmp s (t\<lparr>base_priority := base_priority t, refresh_heap_index := 0, next_refresh_ns := next_refresh_ns t\<rparr>)
      (u\<lparr>base_priority := base_priority u, refresh_heap_index := 0, next_refresh_ns := next_refresh_ns u\<rparr>)"
    using ok by (simp add: compare_ok_def)
  then show ?thesis using f unfolding refresh_free_def by metis
qed

definition keyed :: "'s \<Rightarrow> items \<Rightarrow> u64 \<rightharpoonup> qhw_ready_task" where
  "keyed s A j = (case hash_table_find D (rq_by_id (rq s)) j of None \<Rightarrow> None | Some p \<Rightarrow> look A p)"

lemma keyed_elems: "policy_ok s \<Longrightarrow> keyed s A j = Some t \<Longrightarrow> \<exists>p. p \<in> elems s \<and> look A p = Some t"
  using find_elems(1) by (auto simp: keyed_def split: option.splits)

text \<open>The second half of a selection: the first item leaves both heaps.\<close>

lemma pop_ok:
  assumes ok: "policy_ok s" and ne: "tasks s \<noteq> Map.empty"
  obtains p b A k a A' where "qhw_ready_queue_peek D (rq s) = Some (Some p)"
    "qhw_deadline_refresh_remove D (rf s) (its s) (Some p) = Some (b, A)"
    "qhw_ready_queue_pop D (rq s) A = Some (QHW_SCHED_OK, Some k, a, A')"
    "policy_ok (put a b A' s)" "tasks (put a b A' s) = (tasks s)(k := None)" "chosen s (keyed s A) k"
    "\<And>c. fresh s c \<Longrightarrow> fresh (put a b A' s) c"
    "\<And>x t. look A x = Some t \<Longrightarrow> \<exists>t'. look (its s) x = Some t' \<and> (t = t' \<or> t = t'\<lparr>next_refresh_ns := QHW_DEADLINE_BOOST_NEVER\<rparr>)"
proof -
  have rok: "ready_ok D G (rq s) (its s)" and mode: "mode s" and kind: "rq_kind (rq s) = QHW_READY_QUEUE_HEAP"
    and cmp: "rq_compare (rq s) = Some (cmp s)" using ok by (simp_all add: policy_ok_def boosted_def)
  have "rq_elems G (rq s) \<noteq> []"
  proof
    assume "rq_elems G (rq s) = []"
    then have "elems s = {}" by (simp add: elems_def)
    then have "tasks s k = None" for k using find_elems(1) [OF ok] by (auto simp: tasks_def split: option.splits)
    then show False using ne by auto
  qed
  then obtain p where peek: "qhw_ready_queue_peek D (rq s) = Some (Some p)" "p \<in> set (rq_elems G (rq s))"
    using ready_peek_ok [OF rok] by (auto simp: succeeds_iff rq_first_def split: option.splits)
  obtain t where t: "cells (its s) p = Some t" "hash_table_find D (rq_by_id (rq s)) (task_id (rt_desc t)) = Some p"
    using ready_task_at [OF rok peek(2)] by blast
  obtain b A where d: "qhw_deadline_refresh_remove D (rf s) (its s) (Some p) = Some (b, A)"
    "policy_ok (put (rq s) b A s)" "pending G b = waiting s - {p}"
    "\<And>x. x \<noteq> p \<Longrightarrow> look A x = look (its s) x" "same_tasks (its s) A"
    "look A p = look (its s) p \<or>
     look A p = map_option (\<lambda>t. t\<lparr>next_refresh_ns := QHW_DEADLINE_BOOST_NEVER\<rparr>) (look (its s) p)"
    by (rule drop_ok [OF ok t(2)]) blast
  let ?s = "put (rq s) b A s"
  have bo: "boosted D G (cmp s) (rq s) b A" using d(2) by (simp add: policy_ok_def)
  have np: "p \<notin> pending G b" using d(3) by simp
  obtain k a A' where pop: "qhw_ready_queue_pop D (rq s) A = Some (QHW_SCHED_OK, Some k, a, A')"
    "boosted D G (cmp s) a b A'" "rq_first (rq s) A p" "removed k p (rq s) A a A'"
    using boosted_pop [OF bo peek(1) np] by (auto simp: succeeds_iff)
  have same: "tasks ?s = tasks s" by (rule tasks_same) (use d(5) in simp_all)
  have tk: "tasks (put a b A' s) = (tasks s)(k := None)"
    using tasks_removed(1) [OF d(2), of k p a A' b] pop(4) same by simp
  have kp: "hash_table_find D (rq_by_id (rq s)) k = Some p"
    using pop(4) bo by (simp add: removed_def boosted_def ready_ok_def)
  have "chosen s (keyed s A) k"
    unfolding chosen_def
  proof (intro conjI allI)
    show "map_option bare (keyed s A j) = tasks s j" for j
      using d(5) by (simp add: keyed_def tasks_def same_tasks_def split: option.splits)
    obtain tp where tp: "cells A p = Some tp"
      using boosted_elems [OF bo] peek(2) by blast
    show "\<exists>t. keyed s A k = Some t \<and> (\<forall>j u. keyed s A j = Some u \<longrightarrow> cmp s t u \<le> 0)"
    proof (intro exI conjI allI impI)
      show "keyed s A k = Some (core tp)" using kp tp by (simp add: keyed_def look_def)
      fix j u
      assume "keyed s A j = Some u"
      then obtain x where x: "x \<in> elems s" "look A x = Some u" using keyed_elems [OF ok] by blast
      then obtain tx where tx: "cells A x = Some tx" "u = core tx" by (auto simp: look_def)
      have "ready_heap_compare (rq s) A p x \<le> 0"
        using pop(3) kind x(1) by (simp add: rq_first_def elems_def)
      then show "cmp s (core tp) u \<le> 0"
        using cmp tp tx by (simp add: ready_heap_compare_def items_compare_def cmp_core [OF ok])
    qed
  qed
  moreover have "fresh (put a b A' s) c" if "fresh s c" for c
    by (rule fresh_drop [OF fresh_fresh_but [OF that] d(3,4) pop(4)])
  moreover have "\<exists>t'. look (its s) x = Some t' \<and> (t = t' \<or> t = t'\<lparr>next_refresh_ns := QHW_DEADLINE_BOOST_NEVER\<rparr>)"
    if "look A x = Some t" for x t
  proof (cases "x = p")
    case True
    then show ?thesis using that d(6) by (cases "look (its s) p") auto
  next
    case False
    then show ?thesis using that d(4) [of x] by simp
  qed
  moreover have "policy_ok (put a b A' s)" using pop(2) mode by (simp add: policy_ok_def)
  ultimately show ?thesis using that [OF peek(1) d(1) pop(1)] tk by blast
qed

lemma select_ok:
  assumes ok: "policy_ok s" and read: "reading s (env_clock e) = (now, c)"
  shows "succeeds (select (Some s) out e) (\<lambda>(rc, out', st, e'). \<exists>s'. st = Some s' \<and> policy_ok s' \<and>
    rc \<in> {QHW_SCHED_OK, QHW_SCHED_ERR_NOT_FOUND, QHW_SCHED_ERR_NO_MEMORY} \<and>
    (rc \<noteq> QHW_SCHED_OK \<longrightarrow> out' = out \<and> tasks s' = tasks s) \<and> (rc = QHW_SCHED_ERR_NOT_FOUND \<longrightarrow> tasks s = Map.empty) \<and>
    (rc \<noteq> QHW_SCHED_ERR_NO_MEMORY \<longrightarrow> fresh s (env_clock e) \<longrightarrow> fresh s' (env_clock e')) \<and>
    (rc = QHW_SCHED_OK \<longrightarrow> tasks s' = (tasks s)(as_task_id out' := None) \<and>
      (\<exists>T. chosen s T (as_task_id out') \<and>
        (fresh s (env_clock e) \<longrightarrow> boost_config_ok (boost s) \<longrightarrow> now < QHW_DEADLINE_BOOST_NEVER \<longrightarrow>
         (\<forall>j t. T j = Some t \<longrightarrow> boosted_within (boost s) now (floor s (env_clock e')) t)))))"
proof -
  have mode: "mode s" using ok by (simp add: policy_ok_def)
  let ?e = "e\<lparr>env_clock := c\<rparr>"
  have fl: "floor s (env_clock e) \<le> now" "floor s c = now" using reading_floor [OF read] by simp_all
  have fr: "fresh s (env_clock ?e)" if "fresh s (env_clock e)"
    using that fl timely_mono [OF _ fl(1)] by (auto simp: fresh_def)
  show ?thesis unfolding select_law [OF mode read]
  proof (simp, rule succeeds_mono [OF refresh_loop_ok [OF ok, of now ?e]], simp add: fl, clarify, goal_cases)
    case (1 rc s1 e1)
    show ?case
    proof (cases "rc = QHW_SCHED_OK")
      case False
      then show ?thesis using 1 refreshes_tasks [OF 1(1)] by (simp add: refreshes_def)
    next
      case True
      have ok1: "policy_ok s1" and tk: "tasks s1 = tasks s" and same: "cmp s1 = cmp s" "boost s1 = boost s" "floor s1 = floor s"
        using 1(1) refreshes_tasks [OF 1(1)] as_before_rest [of s s1] by (auto simp: refreshes_def keeps_def)
      have none: "due now s1 = {}" and fr1: "fresh s1 (env_clock e1)" if "fresh s (env_clock e)"
        using 1 True fr [OF that] by simp_all
      show ?thesis
      proof (cases "tasks s1 = Map.empty")
        case empty: True
        have rok: "ready_ok D G (rq s1) (its s1)" and b: "boosted D G (cmp s1) (rq s1) (rf s1) (its s1)" and m1: "mode s1"
          using ok1 by (simp_all add: policy_ok_def boosted_def)
        have "rq_ids D (rq s1) = {}" using tasks_dom [OF ok1] empty by simp
        then have el: "rq_elems G (rq s1) = []" using rq_ids_empty [OF rok] by simp
        have peek: "qhw_ready_queue_peek D (rq s1) = Some None"
          using ready_peek_ok [OF rok] el by (auto simp: succeeds_iff rq_first_def split: option.splits)
        obtain tid a A where pop: "qhw_ready_queue_pop D (rq s1) (its s1) = Some (QHW_SCHED_ERR_NOT_FOUND, tid, a, A)"
          "ready_ok D G a A" "same_setup (rq s1) a" "rq_by_id a = rq_by_id (rq s1)" "rq_elems G a = []" "cells A = cells (its s1)"
          using ready_pop_ok [OF rok] el by (auto simp: succeeds_iff rq_first_def split: if_splits)
        have "refresh_ok D G (rf s1) A (set (rq_elems G a))"
          using b refresh_ok_cells [OF pop(6)] pop(5) el by (simp add: boosted_def)
        then have "boosted D G (cmp s1) a (rf s1) A" by (rule boosted_cong [OF b pop(2,3)])
        then have ok2: "policy_ok (put a (rf s1) A s1)" using m1 by (simp add: policy_ok_def)
        have "tasks (put a (rf s1) A s1) = tasks s1"
          by (rule tasks_put) (use pop in \<open>simp_all add: look_def fun_eq_iff\<close>)
        moreover have "fresh (put a (rf s1) A s1) k" for k using pop(5) by (simp add: fresh_def elems_def)
        ultimately show ?thesis using True peek pop ok2 tk empty by (simp add: qhw_deadline_refresh_remove_def)
      next
        case False
        obtain p b A k a A' where r: "qhw_ready_queue_peek D (rq s1) = Some (Some p)"
          "qhw_deadline_refresh_remove D (rf s1) (its s1) (Some p) = Some (b, A)"
          "qhw_ready_queue_pop D (rq s1) A = Some (QHW_SCHED_OK, Some k, a, A')"
          "policy_ok (put a b A' s1)" "tasks (put a b A' s1) = (tasks s1)(k := None)" "chosen s1 (keyed s1 A) k"
          "\<And>c. fresh s1 c \<Longrightarrow> fresh (put a b A' s1) c"
          "\<And>x t. look A x = Some t \<Longrightarrow> \<exists>t'. look (its s1) x = Some t' \<and> (t = t' \<or> t = t'\<lparr>next_refresh_ns := QHW_DEADLINE_BOOST_NEVER\<rparr>)"
          by (rule pop_ok [OF ok1 False]) blast
        have ch: "chosen s (keyed s1 A) k" using r(6) tk same by (simp add: chosen_def)
        have within: "boosted_within (boost s) now (floor s (env_clock e1)) t"
          if fs: "fresh s (env_clock e)" "boost_config_ok (boost s)" "now < QHW_DEADLINE_BOOST_NEVER" and j: "keyed s1 A j = Some t"
          for j t
        proof -
          obtain x where x: "x \<in> elems s1" "look A x = Some t" using keyed_elems [OF ok1 j] by blast
          obtain t' where t': "look (its s1) x = Some t'" "t = t' \<or> t = t'\<lparr>next_refresh_ns := QHW_DEADLINE_BOOST_NEVER\<rparr>"
            using r(8) [OF x(2)] by blast
          have "now \<le> floor s1 (env_clock e1)" using 1(1) fl same by (simp add: refreshes_def)
          then have "boosted_within (boost s) now (floor s (env_clock e1)) t'"
            using refreshed_within [OF fr1 [OF fs(1)] none [OF fs(1)] _ _ fs(3) x(1)] fs(2) same t'(1) by auto
          then show ?thesis using t'(2) by (auto simp: boosted_within_def boost_at_def)
        qed
        show ?thesis using True r tk ch within fr1 by auto
      qed
    qed
  qed
qed

end

end
