(* ===== verification/Policy_Priority.thy ===== *)
theory Policy_Priority
  imports Boosted_Policy Sched_Core
begin

section \<open>The priority policy\<close>

text \<open>
  \<^verbatim>\<open>src/plugins/priority.c\<close>: ready tasks in a heap by effective priority, the priority of a task raised as its
  deadline comes near, and a refresh heap that says when a boost has to be recomputed.
\<close>

record ('h, 'l, 'q) priority_state =
  ps_ready :: "('h, 'l, 'q) qhw_ready_queue"
  ps_refresh :: "'q qhw_deadline_refresh_queue"
  ps_items :: items
  ps_boost :: qhw_deadline_boost_config
  ps_split_config :: qhw_sched_split_config
  ps_now_ns :: u64
  ps_use_static_now :: bool

subsection \<open>Options and clock\<close>

definition is_now_option :: "qhw_sched_kv \<Rightarrow> bool" where
  "is_now_option option \<longleftrightarrow> kv_key option = QHW_SCHED_OPT_DEADLINE_NOW_NS"

text \<open>The two fields the parser writes are passed as \<^verbatim>\<open>(now_ns, use_static_now)\<close>.\<close>

fun parse_now_loop :: "u64 \<times> bool \<Rightarrow> qhw_sched_kv list \<Rightarrow> qhw_sched_rc \<times> u64 \<times> bool" where
  "parse_now_loop st [] = (QHW_SCHED_OK, st)"
| "parse_now_loop st (opt # rest) =
     (if \<not> is_now_option opt then parse_now_loop st rest
      else if kv_type opt \<noteq> QHW_SCHED_VALUE_U64 then (QHW_SCHED_ERR_INVALID_ARG, st)
      else parse_now_loop (kv_bits opt, True) rest)"

definition parse_now_option :: "u64 \<times> bool \<Rightarrow> kv_ref \<Rightarrow> qhw_sched_rc \<times> u64 \<times> bool" where
  "parse_now_option st options =
     (case options of
        KvNull n \<Rightarrow> if 0 < n then (QHW_SCHED_ERR_INVALID_ARG, st) else (QHW_SCHED_OK, st)
      | KvArr opts \<Rightarrow> parse_now_loop st opts)"

definition priority_now_ns :: "('h, 'l, 'q) priority_state \<Rightarrow> clock \<Rightarrow> u64 \<times> clock" where
  "priority_now_ns s c = (if ps_use_static_now s then (ps_now_ns s, c) else qhw_deadline_boost_now_ns c)"

definition priority_compare :: "qhw_ready_task \<Rightarrow> qhw_ready_task \<Rightarrow> int" where
  "priority_compare left right =
     (if effective_priority left \<noteq> effective_priority right
      then (if sint (effective_priority right) < sint (effective_priority left) then - 1 else 1)
      else if seq left \<noteq> seq right then (if seq left < seq right then - 1 else 1)
      else if task_id (rt_desc left) = task_id (rt_desc right) then 0
      else if task_id (rt_desc left) < task_id (rt_desc right) then - 1 else 1)"

subsection \<open>Refreshing boosts\<close>

definition priority_refresh_task ::
  "('h, 'l, 'q) ds \<Rightarrow> ('h, 'l, 'q) priority_state \<Rightarrow> ptr \<Rightarrow> env \<Rightarrow>
   (qhw_sched_rc \<times> ('h, 'l, 'q) priority_state \<times> env) option" where
  "priority_refresh_task D s p e = do {
     t \<leftarrow> cells (ps_items s) p;
     (rf, A) \<leftarrow> qhw_deadline_refresh_remove D (ps_refresh s) (ps_items s) (Some p);
     let s = s\<lparr>ps_refresh := rf, ps_items := A\<rparr>;
     task \<leftarrow> cells A p;
     let (now, c) = priority_now_ns s (env_clock e);
     let e = e\<lparr>env_clock := c\<rparr>;
     let (rc, result) = qhw_deadline_boost_compute (ps_boost s) (base_priority task)
       (deadline_ns (rt_desc task)) (estimated_runtime_ns (rt_desc task)) now;
     if rc \<noteq> QHW_SCHED_OK then Some (rc, s, e)
     else do {
       A \<leftarrow> item_write p (\<lambda>t. t\<lparr>effective_priority := br_effective_priority result,
         next_refresh_ns := br_next_refresh_ns result\<rparr>) A;
       (rc, rq, A) \<leftarrow> (if effective_priority t \<noteq> br_effective_priority result
         then qhw_ready_queue_reorder D (ps_ready s) A p
         else Some (QHW_SCHED_OK, ps_ready s, A));
       let s = s\<lparr>ps_ready := rq, ps_items := A\<rparr>;
       if rc \<noteq> QHW_SCHED_OK then Some (rc, s, e)
       else do {
         (rc, rf, A, m) \<leftarrow> qhw_deadline_refresh_insert D (ps_refresh s) A p (env_mem e);
         Some (rc, s\<lparr>ps_refresh := rf, ps_items := A\<rparr>, e\<lparr>env_mem := m\<rparr>)
       }
     }
   }"

partial_function (option) priority_refresh_loop ::
  "('h, 'l, 'q) ds \<Rightarrow> u64 \<Rightarrow> ('h, 'l, 'q) priority_state \<Rightarrow> env \<Rightarrow>
   (qhw_sched_rc \<times> ('h, 'l, 'q) priority_state \<times> env) option" where
  "priority_refresh_loop D now s e = do {
     (task, rf, A) \<leftarrow> qhw_deadline_refresh_pop_expired D (ps_refresh s) (ps_items s) now;
     let s = s\<lparr>ps_refresh := rf, ps_items := A\<rparr>;
     case task of
       None \<Rightarrow> Some (QHW_SCHED_OK, s, e)
     | Some p \<Rightarrow> do {
         (rc, s, e) \<leftarrow> priority_refresh_task D s p e;
         if rc \<noteq> QHW_SCHED_OK then Some (rc, s, e) else priority_refresh_loop D now s e
       }
   }"

definition priority_refresh_expired ::
  "('h, 'l, 'q) ds \<Rightarrow> ('h, 'l, 'q) priority_state \<Rightarrow> env \<Rightarrow>
   (qhw_sched_rc \<times> ('h, 'l, 'q) priority_state \<times> env) option" where
  "priority_refresh_expired D s e =
     (let (now, c) = priority_now_ns s (env_clock e)
      in priority_refresh_loop D now s (e\<lparr>env_clock := c\<rparr>))"

subsection \<open>Callbacks\<close>

definition priority_init ::
  "('h, 'l, 'q) ds \<Rightarrow> kv_ref \<Rightarrow> env \<Rightarrow> (qhw_sched_rc \<times> ('h, 'l, 'q) priority_state option \<times> env) option" where
  "priority_init D options e =
     (let (got, e) = env_alloc e in
      if \<not> got then Some (QHW_SCHED_ERR_NO_MEMORY, None, e)
      else
        let (rc, split) = qhw_sched_split_config_parse_options qhw_sched_split_config_init options in
        if rc \<noteq> QHW_SCHED_OK then Some (QHW_SCHED_ERR_INVALID_ARG, None, e)
        else
          let (rc, boost) = qhw_deadline_boost_config_parse_options qhw_deadline_boost_config_init options in
          if rc \<noteq> QHW_SCHED_OK then Some (QHW_SCHED_ERR_INVALID_ARG, None, e)
          else
            let (rc, now, static) = parse_now_option (0, False) options in
            if rc \<noteq> QHW_SCHED_OK then Some (QHW_SCHED_ERR_INVALID_ARG, None, e)
            else
              case qhw_ready_queue_init D QHW_READY_QUEUE_HEAP 0 (Some priority_compare) (env_mem e) of
                (_, None, m) \<Rightarrow> Some (QHW_SCHED_ERR_NO_MEMORY, None, e\<lparr>env_mem := m\<rparr>)
              | (_, Some rq, m) \<Rightarrow>
                  (case qhw_deadline_refresh_init D m of
                     (_, None, m) \<Rightarrow> do {
                       _ \<leftarrow> qhw_ready_queue_fini D rq arena_empty;
                       Some (QHW_SCHED_ERR_NO_MEMORY, None, e\<lparr>env_mem := m\<rparr>)
                     }
                   | (_, Some rf, m) \<Rightarrow> Some (QHW_SCHED_OK,
                       Some \<lparr>ps_ready = rq, ps_refresh = rf, ps_items = arena_empty, ps_boost = boost,
                         ps_split_config = split, ps_now_ns = now, ps_use_static_now = static\<rparr>,
                       e\<lparr>env_mem := m\<rparr>)))"

definition priority_fini ::
  "('h, 'l, 'q) ds \<Rightarrow> ('h, 'l, 'q) priority_state option \<Rightarrow> env \<Rightarrow> env option" where
  "priority_fini D st e =
     (case st of
        None \<Rightarrow> Some e
      | Some s \<Rightarrow> do {
          _ \<leftarrow> qhw_ready_queue_fini D (ps_ready s) (ps_items s);
          Some e
        })"

definition priority_on_task_submit ::
  "('h, 'l, 'q) ds \<Rightarrow> ('h, 'l, 'q) priority_state option \<Rightarrow> qhw_sched_task_desc \<Rightarrow> env \<Rightarrow>
   (qhw_sched_rc \<times> ('h, 'l, 'q) priority_state option \<times> env) option" where
  "priority_on_task_submit D st task e =
     (case st of
        None \<Rightarrow> Some (QHW_SCHED_ERR_INVALID_ARG, None, e)
      | Some s \<Rightarrow> do {
          (rc, rq, A, m) \<leftarrow> qhw_ready_queue_insert D (ps_ready s) (ps_items s) task (env_mem e);
          let s = s\<lparr>ps_ready := rq, ps_items := A\<rparr>;
          let e = e\<lparr>env_mem := m\<rparr>;
          if rc \<noteq> QHW_SCHED_OK then Some (rc, Some s, e)
          else
            case qhw_ready_queue_find D (ps_ready s) (task_id task) of
              None \<Rightarrow> Some (QHW_SCHED_ERR_STATE, Some s, e)
            | Some p \<Rightarrow> do {
                (rc, s, e) \<leftarrow> priority_refresh_task D s p e;
                if rc \<noteq> QHW_SCHED_OK then do {
                  (rf, A) \<leftarrow> qhw_deadline_refresh_remove D (ps_refresh s) (ps_items s) (Some p);
                  (_, rq, A) \<leftarrow> qhw_ready_queue_remove D (ps_ready s) A (task_id task);
                  Some (rc, Some (s\<lparr>ps_ready := rq, ps_refresh := rf, ps_items := A\<rparr>), e)
                }
                else Some (QHW_SCHED_OK, Some s, e)
              }
        })"

definition priority_select_next ::
  "('h, 'l, 'q) ds \<Rightarrow> ('h, 'l, 'q) priority_state option \<Rightarrow> qhw_sched_assignment \<Rightarrow> env \<Rightarrow>
   (qhw_sched_rc \<times> qhw_sched_assignment \<times> ('h, 'l, 'q) priority_state option \<times> env) option" where
  "priority_select_next D st out e =
     (case st of
        None \<Rightarrow> Some (QHW_SCHED_ERR_INVALID_ARG, out, None, e)
      | Some s \<Rightarrow> do {
          (rc, s, e) \<leftarrow> priority_refresh_expired D s e;
          if rc \<noteq> QHW_SCHED_OK then Some (rc, out, Some s, e)
          else do {
            first \<leftarrow> qhw_ready_queue_peek D (ps_ready s);
            (rf, A) \<leftarrow> qhw_deadline_refresh_remove D (ps_refresh s) (ps_items s) first;
            (rc, tid, rq, A) \<leftarrow> qhw_ready_queue_pop D (ps_ready s) A;
            let st = Some (s\<lparr>ps_ready := rq, ps_refresh := rf, ps_items := A\<rparr>);
            if rc \<noteq> QHW_SCHED_OK then Some (rc, out, st, e)
            else do {
              k \<leftarrow> tid;
              Some (QHW_SCHED_OK, zero_assignment\<lparr>as_task_id := k\<rparr>, st, e)
            }
          }
        })"

definition priority_on_task_started ::
  "('h, 'l, 'q) priority_state option \<Rightarrow> u64 \<Rightarrow> env \<Rightarrow>
   (qhw_sched_rc \<times> ('h, 'l, 'q) priority_state option \<times> env) option" where
  "priority_on_task_started st tid e = Some (QHW_SCHED_OK, st, e)"

definition priority_get_split_config ::
  "('h, 'l, 'q) priority_state option \<Rightarrow> qhw_sched_split_config \<Rightarrow> env \<Rightarrow>
   (qhw_sched_rc \<times> qhw_sched_split_config \<times> ('h, 'l, 'q) priority_state option \<times> env) option" where
  "priority_get_split_config st out e =
     (case st of
        None \<Rightarrow> Some (QHW_SCHED_ERR_INVALID_ARG, out, None, e)
      | Some s \<Rightarrow> Some (QHW_SCHED_OK, ps_split_config s, st, e))"

definition priority_on_task_priority_changed ::
  "('h, 'l, 'q) ds \<Rightarrow> ('h, 'l, 'q) priority_state option \<Rightarrow> u64 \<Rightarrow> i64 \<Rightarrow> env \<Rightarrow>
   (qhw_sched_rc \<times> ('h, 'l, 'q) priority_state option \<times> env) option" where
  "priority_on_task_priority_changed D st tid prio e =
     (case st of
        None \<Rightarrow> Some (QHW_SCHED_ERR_INVALID_ARG, None, e)
      | Some s \<Rightarrow>
          (case qhw_ready_queue_find D (ps_ready s) tid of
             None \<Rightarrow> Some (QHW_SCHED_ERR_NOT_FOUND, Some s, e)
           | Some p \<Rightarrow> do {
               task \<leftarrow> cells (ps_items s) p;
               A \<leftarrow> item_write p (\<lambda>t. t\<lparr>base_priority := prio\<rparr>) (ps_items s);
               (rc, s, e) \<leftarrow> priority_refresh_task D (s\<lparr>ps_items := A\<rparr>) p e;
               if rc \<noteq> QHW_SCHED_OK then do {
                 A \<leftarrow> item_write p (\<lambda>t. t\<lparr>base_priority := base_priority task\<rparr>) (ps_items s);
                 (_, s, e) \<leftarrow> priority_refresh_task D (s\<lparr>ps_items := A\<rparr>) p e;
                 Some (QHW_SCHED_ERR_STATE, Some s, e)
               }
               else Some (QHW_SCHED_OK, Some s, e)
             }))"

definition priority_on_task_finished ::
  "('h, 'l, 'q) ds \<Rightarrow> ('h, 'l, 'q) priority_state option \<Rightarrow> u64 \<Rightarrow> qhw_sched_task_state \<Rightarrow> env \<Rightarrow>
   (qhw_sched_rc \<times> ('h, 'l, 'q) priority_state option \<times> env) option" where
  "priority_on_task_finished D st tid terminal_state e =
     (case st of
        None \<Rightarrow> Some (QHW_SCHED_ERR_INVALID_ARG, None, e)
      | Some s \<Rightarrow> do {
          (rf, A) \<leftarrow> qhw_deadline_refresh_remove D (ps_refresh s) (ps_items s) (qhw_ready_queue_find D (ps_ready s) tid);
          (rc, rq, A) \<leftarrow> qhw_ready_queue_remove D (ps_ready s) A tid;
          Some (if rc = QHW_SCHED_ERR_NOT_FOUND then QHW_SCHED_OK else rc,
            Some (s\<lparr>ps_ready := rq, ps_refresh := rf, ps_items := A\<rparr>), e)
        })"

definition priority_desc :: "('h, 'l, 'q) ds \<Rightarrow> ('h, 'l, 'q) priority_state qhw_sched_plugin_desc" where
  "priority_desc D = \<lparr>pd_struct_size = sizeof_plugin_desc, pd_abi_version = QHW_SCHED_ABI_VERSION,
     pd_name = Some ''priority'', pd_version = Some ''0.1.0'',
     pd_description = Some ''priority scheduler policy'', pd_capabilities = 0,
     pd_thread_flags = QHW_SCHED_PLUGIN_THREAD_ALL,
     pd_init = Some (priority_init D), pd_fini = Some (priority_fini D),
     pd_on_task_submit = Some (priority_on_task_submit D), pd_select_next = Some (priority_select_next D),
     pd_get_split_config = Some priority_get_split_config,
     pd_on_task_priority_changed = Some (priority_on_task_priority_changed D),
     pd_on_task_started = Some priority_on_task_started,
     pd_on_task_finished = Some (priority_on_task_finished D)\<rparr>"

lemma priority_desc_sel [simp]:
  "pd_name (priority_desc D) = Some ''priority''" "pd_init (priority_desc D) = Some (priority_init D)"
  "pd_fini (priority_desc D) = Some (priority_fini D)"
  "pd_on_task_submit (priority_desc D) = Some (priority_on_task_submit D)"
  "pd_select_next (priority_desc D) = Some (priority_select_next D)"
  "pd_get_split_config (priority_desc D) = Some priority_get_split_config"
  "pd_on_task_priority_changed (priority_desc D) = Some (priority_on_task_priority_changed D)"
  "pd_on_task_started (priority_desc D) = Some priority_on_task_started"
  "pd_on_task_finished (priority_desc D) = Some (priority_on_task_finished D)"
  by (simp_all add: priority_desc_def)

subsection \<open>The comparison\<close>

lemma priority_compare_vec:
  "priority_compare l r = vec_compare [- sint (effective_priority l), uint (seq l), uint (task_id (rt_desc l))]
     [- sint (effective_priority r), uint (seq r), uint (task_id (rt_desc r))]"
  using sint_eq_i64 [of "effective_priority l" "effective_priority r"]
  by (auto simp: priority_compare_def vec_compare_def word_less_def word_uint_eq_iff)

lemma priority_compare_ok [simp]: "compare_ok priority_compare"
  using vec_compare_ok [of "\<lambda>t. [- sint (effective_priority t), uint (seq t), uint (task_id (rt_desc t))]"]
  by (simp add: priority_compare_vec [abs_def])

lemma priority_refresh_free [simp]: "refresh_free priority_compare"
  by (simp add: refresh_free_def priority_compare_def)

subsection \<open>The policy is a policy over a boosted queue\<close>

definition priority_put ::
  "('h, 'l, 'q) qhw_ready_queue \<Rightarrow> 'q qhw_deadline_refresh_queue \<Rightarrow> items \<Rightarrow> ('h, 'l, 'q) priority_state \<Rightarrow>
   ('h, 'l, 'q) priority_state" where
  "priority_put rq rf A s = s\<lparr>ps_ready := rq, ps_refresh := rf, ps_items := A\<rparr>"

definition priority_floor :: "('h, 'l, 'q) priority_state \<Rightarrow> clock \<Rightarrow> u64" where
  "priority_floor s c = (if ps_use_static_now s then ps_now_ns s else clock_floor c)"

text \<open>The interface lets the comparison depend on the state and singles out some states; neither is needed here.\<close>

definition priority_cmp :: "('h, 'l, 'q) priority_state \<Rightarrow> qhw_ready_task \<Rightarrow> qhw_ready_task \<Rightarrow> int" where
  "priority_cmp s = priority_compare"

definition priority_mode :: "('h, 'l, 'q) priority_state \<Rightarrow> bool" where
  "priority_mode s \<longleftrightarrow> True"

lemma priority_reading: "priority_now_ns s k = (now, k') \<Longrightarrow> priority_floor s k \<le> now \<and> priority_floor s k' = now"
  using now_ns_monotone [of k now k'] by (auto simp: priority_now_ns_def priority_floor_def split: if_splits)

lemma priority_put_simps [simp]:
  "ps_ready (priority_put a b c s) = a" "ps_refresh (priority_put a b c s) = b" "ps_items (priority_put a b c s) = c"
  "ps_boost (priority_put a b c s) = ps_boost s"
  "priority_put a' b' c' (priority_put a b c s) = priority_put a' b' c' s"
  "priority_put (ps_ready s) (ps_refresh s) (ps_items s) s = s"
  "priority_now_ns (priority_put a b c s) = priority_now_ns s" "priority_floor (priority_put a b c s) = priority_floor s"
  "priority_cmp (priority_put a b c s) = priority_cmp s" "priority_mode (priority_put a b c s) = priority_mode s"
  by (simp_all add: priority_cmp_def priority_mode_def priority_put_def priority_now_ns_def fun_eq_iff priority_floor_def)

lemma priority_put_partial:
  "s\<lparr>ps_items := A\<rparr> = priority_put (ps_ready s) (ps_refresh s) A s"
  "s\<lparr>ps_ready := a, ps_items := A\<rparr> = priority_put a (ps_refresh s) A s"
  by (simp_all add: priority_put_def)

lemma priority_submit_law: "priority_on_task_submit D (Some s) task e = do {
      (rc, a, A, m) \<leftarrow> qhw_ready_queue_insert D (ps_ready s) (ps_items s) task (env_mem e);
      let s = priority_put a (ps_refresh s) A s;
      let e = e\<lparr>env_mem := m\<rparr>;
      if rc \<noteq> QHW_SCHED_OK then Some (rc, Some s, e)
      else
        case qhw_ready_queue_find D (ps_ready s) (task_id task) of
          None \<Rightarrow> Some (QHW_SCHED_ERR_STATE, Some s, e)
        | Some p \<Rightarrow> do {
            (rc, s, e) \<leftarrow> priority_refresh_task D s p e;
            if rc \<noteq> QHW_SCHED_OK then do {
              (b, A) \<leftarrow> qhw_deadline_refresh_remove D (ps_refresh s) (ps_items s) (Some p);
              (_, a, A) \<leftarrow> qhw_ready_queue_remove D (ps_ready s) A (task_id task);
              Some (rc, Some (priority_put a b A s), e)
            }
            else Some (QHW_SCHED_OK, Some s, e)
          }
    }"
  unfolding priority_put_partial(2) [symmetric]
  unfolding priority_on_task_submit_def option.case priority_put_def by (rule refl)

lemma priority_select_law:
  assumes "priority_now_ns s (env_clock e) = (now, k)"
  shows "priority_select_next D (Some s) out e = do {
      (rc, s, e) \<leftarrow> priority_refresh_loop D now s (e\<lparr>env_clock := k\<rparr>);
      if rc \<noteq> QHW_SCHED_OK then Some (rc, out, Some s, e)
      else do {
        first \<leftarrow> qhw_ready_queue_peek D (ps_ready s);
        (b, A) \<leftarrow> qhw_deadline_refresh_remove D (ps_refresh s) (ps_items s) first;
        (rc, tid, a, A) \<leftarrow> qhw_ready_queue_pop D (ps_ready s) A;
        let st = Some (priority_put a b A s);
        if rc \<noteq> QHW_SCHED_OK then Some (rc, out, st, e)
        else do {
          t \<leftarrow> tid;
          Some (QHW_SCHED_OK, zero_assignment\<lparr>as_task_id := t\<rparr>, st, e)
        }
      }
    }"
  unfolding priority_select_next_def priority_refresh_expired_def option.case assms prod.case Let_def priority_put_def by (rule refl)

lemma priority_changed_law: "priority_on_task_priority_changed D (Some s) tid prio e =
      (case qhw_ready_queue_find D (ps_ready s) tid of
         None \<Rightarrow> Some (QHW_SCHED_ERR_NOT_FOUND, Some s, e)
       | Some p \<Rightarrow> do {
           task \<leftarrow> cells (ps_items s) p;
           A \<leftarrow> item_write p (\<lambda>t. t\<lparr>base_priority := prio\<rparr>) (ps_items s);
           (rc, s, e) \<leftarrow> priority_refresh_task D (priority_put (ps_ready s) (ps_refresh s) A s) p e;
           if rc \<noteq> QHW_SCHED_OK then do {
             A \<leftarrow> item_write p (\<lambda>t. t\<lparr>base_priority := base_priority task\<rparr>) (ps_items s);
             (_, s, e) \<leftarrow> priority_refresh_task D (priority_put (ps_ready s) (ps_refresh s) A s) p e;
             Some (QHW_SCHED_ERR_STATE, Some s, e)
           }
           else Some (QHW_SCHED_OK, Some s, e)
         })"
  unfolding priority_on_task_priority_changed_def option.case priority_put_partial by (rule refl)

lemma priority_finished_law: "priority_on_task_finished D (Some s) tid ts e = do {
      (b, A) \<leftarrow> qhw_deadline_refresh_remove D (ps_refresh s) (ps_items s) (qhw_ready_queue_find D (ps_ready s) tid);
      (rc, a, A) \<leftarrow> qhw_ready_queue_remove D (ps_ready s) A tid;
      Some (if rc = QHW_SCHED_ERR_NOT_FOUND then QHW_SCHED_OK else rc, Some (priority_put a b A s), e)
    }"
  by (simp add: priority_on_task_finished_def priority_put_def)

lemma priority_loop_law: "priority_refresh_loop D now s e = do {
    (task, rf', A) \<leftarrow> qhw_deadline_refresh_pop_expired D (ps_refresh s) (ps_items s) now;
    case task of
      None \<Rightarrow> Some (QHW_SCHED_OK, priority_put (ps_ready s) rf' A s, e)
    | Some p \<Rightarrow> do {
        (rc, s, e) \<leftarrow> priority_refresh_task D (priority_put (ps_ready s) rf' A s) p e;
        if rc \<noteq> QHW_SCHED_OK then Some (rc, s, e) else priority_refresh_loop D now s e
      }
  }"
  by (subst priority_refresh_loop.simps) (simp add: priority_put_def Let_def cong: option.case_cong)

context datastructures
begin

lemma priority_refresh_law:
  assumes b: "boosted D G priority_compare (ps_ready s) (ps_refresh s) (ps_items s)" and p: "p \<in> set (rq_elems G (ps_ready s))"
    and t: "look (ps_items s) p = Some t" and now: "priority_now_ns s (env_clock e) = (now, k)"
  shows "succeeds (priority_refresh_task D s p e) (\<lambda>(rc, s', e').
    s' = priority_put (ps_ready s') (ps_refresh s') (ps_items s') s \<and> env_clock e' = k \<and>
    refreshed G priority_compare p (boosted_item (ps_boost s) now t) rc (ps_ready s) (ps_refresh s) (ps_items s)
      (ps_ready s') (ps_refresh s') (ps_items s') D)"
proof -
  obtain u rf1 A1 u1 where st: "cells (ps_items s) p = Some u" "effective_priority u = effective_priority t"
    "qhw_deadline_refresh_remove D (ps_refresh s) (ps_items s) (Some p) = Some (rf1, A1)" "cells A1 p = Some u1"
    "rt_desc u1 = rt_desc t" "base_priority u1 = base_priority t"
    and rest: "\<And>v n m. \<exists>rq' A2 rc rf2 A3 m'.
       (if effective_priority u \<noteq> v
        then qhw_ready_queue_reorder D (ps_ready s) (A1\<lparr>cells := (cells A1)(p \<mapsto> u1\<lparr>effective_priority := v, next_refresh_ns := n\<rparr>)\<rparr>) p
        else Some (QHW_SCHED_OK, ps_ready s, A1\<lparr>cells := (cells A1)(p \<mapsto> u1\<lparr>effective_priority := v, next_refresh_ns := n\<rparr>)\<rparr>)) =
         Some (QHW_SCHED_OK, rq', A2) \<and>
       qhw_deadline_refresh_insert D rf1 A2 p m = Some (rc, rf2, A3, m') \<and>
       refreshed G priority_compare p (t\<lparr>effective_priority := v, next_refresh_ns := n\<rparr>) rc (ps_ready s) (ps_refresh s)
         (ps_items s) rq' rf2 A3 D"
    by (rule boosted_refresh_steps [OF b p t]) blast
  let ?r = "boost_at (ps_boost s) t now"
  have comp: "qhw_deadline_boost_compute (ps_boost s) (base_priority u1) (deadline_ns (rt_desc u1))
      (estimated_runtime_ns (rt_desc u1)) now = (QHW_SCHED_OK, ?r)"
    unfolding boost_at_def st(5,6) by (rule prod_eqI) simp_all
  have read: "priority_now_ns (s\<lparr>ps_refresh := rf1, ps_items := A1\<rparr>) (env_clock e) = (now, k)"
    using now by (cases "ps_use_static_now s") (simp_all add: priority_now_ns_def)
  obtain rq' A2 rc rf2 A3 m' where r: "(if effective_priority u \<noteq> br_effective_priority ?r
        then qhw_ready_queue_reorder D (ps_ready s) (A1\<lparr>cells := (cells A1)(p \<mapsto> u1\<lparr>effective_priority := br_effective_priority ?r,
          next_refresh_ns := br_next_refresh_ns ?r\<rparr>)\<rparr>) p
        else Some (QHW_SCHED_OK, ps_ready s, A1\<lparr>cells := (cells A1)(p \<mapsto> u1\<lparr>effective_priority := br_effective_priority ?r,
          next_refresh_ns := br_next_refresh_ns ?r\<rparr>)\<rparr>)) = Some (QHW_SCHED_OK, rq', A2)"
    "qhw_deadline_refresh_insert D rf1 A2 p (env_mem e) = Some (rc, rf2, A3, m')"
    "refreshed G priority_compare p (boosted_item (ps_boost s) now t) rc (ps_ready s) (ps_refresh s) (ps_items s) rq' rf2 A3 D"
    using rest [of "br_effective_priority ?r" "br_next_refresh_ns ?r" "env_mem e"] unfolding boosted_item_def by blast
  show ?thesis unfolding priority_refresh_task_def
    using st comp read r
    by (cases "effective_priority t = br_effective_priority ?r") (simp_all add: item_write_def priority_put_def)
qed

end

sublocale datastructures \<subseteq> prio: boosted_callbacks D G ps_ready ps_refresh ps_items priority_put priority_mode
  priority_cmp ps_boost priority_now_ns priority_floor "priority_refresh_task D" "priority_refresh_loop D"
  "priority_on_task_submit D" "priority_select_next D" "priority_on_task_priority_changed D" "priority_on_task_finished D"
  by unfold_locales
    (simp_all add: priority_cmp_def priority_reading priority_refresh_law priority_loop_law priority_submit_law priority_select_law
      priority_changed_law priority_finished_law)

subsection \<open>Contract\<close>

definition priority_inv :: "('h, 'l, 'q) ds \<Rightarrow> ('h, 'l, 'q) ghost \<Rightarrow> ('h, 'l, 'q) priority_state \<Rightarrow> bool" where
  "priority_inv D G s \<longleftrightarrow> boosted D G priority_compare (ps_ready s) (ps_refresh s) (ps_items s)"

definition priority_ready :: "('h, 'l, 'q) ds \<Rightarrow> ('h, 'l, 'q) priority_state \<Rightarrow> u64 set" where
  "priority_ready D s = rq_ids D (ps_ready s)"

text \<open>The ready tasks by identifier, without the fields that a refresh of the boost changes.\<close>

definition priority_tasks :: "('h, 'l, 'q) ds \<Rightarrow> ('h, 'l, 'q) priority_state \<Rightarrow> u64 \<rightharpoonup> qhw_ready_task" where
  "priority_tasks D s k = (case hash_table_find D (rq_by_id (ps_ready s)) k of
     None \<Rightarrow> None | Some p \<Rightarrow> map_option bare (look (ps_items s) p))"

text \<open>Every boost was computed at a time that has been reached, and is due for a refresh before it is wrong.\<close>

definition priority_fresh ::
  "('h, 'l, 'q) ghost \<Rightarrow> ('h, 'l, 'q) priority_state \<Rightarrow> clock \<Rightarrow> bool" where
  "priority_fresh G s c \<longleftrightarrow> (\<forall>p \<in> set (rq_elems G (ps_ready s)).
     timely (ps_boost s) (priority_floor s c) (pending G (ps_refresh s)) (ps_items s) p)"

lemma boost_parse_ok:
  "qhw_deadline_boost_config_parse_options config options = (QHW_SCHED_OK, config') \<Longrightarrow> boost_config_ok config'"
  by (auto simp: qhw_deadline_boost_config_parse_options_def boost_config_ok_def boost_thresholds_ok_def split: if_splits prod.splits)

context datastructures
begin

lemma prio_policy_ok [simp]: "prio.policy_ok = priority_inv D G"
  by (simp add: fun_eq_iff prio.policy_ok_def priority_inv_def priority_cmp_def priority_mode_def)

lemma prio_tasks [simp]: "prio.tasks = priority_tasks D"
  by (simp add: fun_eq_iff prio.tasks_def priority_tasks_def)

lemma prio_fresh [simp]: "prio.fresh = priority_fresh G"
  by (simp add: fun_eq_iff prio.fresh_def priority_fresh_def prio.elems_def prio.waiting_def)

lemma priority_ready_tasks: "priority_inv D G s \<Longrightarrow> priority_ready D s = dom (priority_tasks D s)"
  using prio.tasks_dom [of s] by (simp add: priority_ready_def)

lemma priority_fini_ok: "priority_inv D G s \<Longrightarrow> succeeds (priority_fini D (Some s) e) (\<lambda>e'. e' = e)"
  using ready_fini_ok [of "ps_ready s" "ps_items s"] by (auto simp: priority_inv_def boosted_def priority_fini_def succeeds_iff)

lemma priority_init_ok:
  "succeeds (priority_init D opts e) (\<lambda>(rc, st, e').
     rc = QHW_SCHED_OK \<longrightarrow> (\<exists>s. st = Some s \<and> priority_inv D G s \<and> priority_tasks D s = Map.empty \<and>
       priority_fresh G s c \<and> boost_config_ok (ps_boost s)))"
proof -
  obtain got e1 where al: "env_alloc e = (got, e1)" by force
  obtain rc1 split where p1: "qhw_sched_split_config_parse_options qhw_sched_split_config_init opts = (rc1, split)" by force
  obtain rc2 boost where p2: "qhw_deadline_boost_config_parse_options qhw_deadline_boost_config_init opts = (rc2, boost)" by force
  obtain rc3 now static where p3: "parse_now_option (0, False) opts = (rc3, now, static)" by (metis prod_cases3)
  obtain rc4 rq m where i1: "qhw_ready_queue_init D QHW_READY_QUEUE_HEAP 0 (Some priority_compare) (env_mem e1) = (rc4, rq, m)"
    by (metis prod_cases3)
  obtain rc5 rf m2 where i2: "qhw_deadline_refresh_init D m = (rc5, rf, m2)" by (metis prod_cases3)
  note ok1 = ready_init_ok [OF i1, of arena_empty] and ok2 = refresh_init_ok [OF i2, of "{}" arena_empty]
  have cfg: "rc2 = QHW_SCHED_OK \<Longrightarrow> boost_config_ok boost" using p2 boost_parse_ok by simp
  show ?thesis
  proof (cases rq)
    case None
    then show ?thesis using al p1 p2 p3 i1 by (simp add: priority_init_def Let_def)
  next
    case (Some q)
    then have q: "ready_ok D G q arena_empty" "rq_elems G q = []" "rq_ids D q = {}" "rq_kind q = QHW_READY_QUEUE_HEAP"
      "rq_compare q = Some priority_compare" using ok1 by simp_all
    from ready_fini_ok [OF q(1)] obtain A where fini: "qhw_ready_queue_fini D q arena_empty = Some A"
      by (auto simp: succeeds_iff)
    have find: "hash_table_find D (rq_by_id q) k = None" for k using q(3) by (auto simp: rq_ids_def)
    show ?thesis
    proof (cases rf)
      case None
      then show ?thesis using al p1 p2 p3 i1 i2 Some fini by (simp add: priority_init_def Let_def)
    next
      case (Some f)
      then have "refresh_ok D G f arena_empty {}" using ok2 by simp
      then have inv: "boosted D G priority_compare q f arena_empty" using q by (simp add: boosted_def)
      show ?thesis using al p1 p2 p3 i1 i2 Some \<open>rq = Some q\<close> inv q(2) find cfg
        by (simp add: priority_init_def Let_def priority_inv_def priority_tasks_def priority_fresh_def fun_eq_iff)
    qed
  qed
qed

lemma priority_submit_ok:
  assumes "priority_inv D G s"
  shows "succeeds (priority_on_task_submit D (Some s) task e) (\<lambda>(rc, st, e'). \<exists>s'. st = Some s' \<and> priority_inv D G s' \<and>
    (rc = QHW_SCHED_OK \<longrightarrow> task_id task \<notin> priority_ready D s) \<and>
    priority_ready D s' = (if rc = QHW_SCHED_OK then insert (task_id task) (priority_ready D s) else priority_ready D s))"
  by (rule succeeds_mono [OF prio.submit_ok [of s task e]]) (use assms in \<open>auto simp: priority_ready_tasks\<close>)

lemma priority_select_ok:
  assumes "priority_inv D G s"
  shows "succeeds (priority_select_next D (Some s) a e) (\<lambda>(rc, a', st, e'). \<exists>s'. st = Some s' \<and> priority_inv D G s' \<and>
    (if rc = QHW_SCHED_OK then as_task_id a' \<in> priority_ready D s \<and> priority_ready D s' = priority_ready D s - {as_task_id a'}
     else priority_ready D s' = priority_ready D s) \<and> (rc = QHW_SCHED_ERR_NOT_FOUND \<longrightarrow> priority_ready D s = {}))"
proof -
  obtain now c where read: "priority_now_ns s (env_clock e) = (now, c)" by force
  have mem: "k \<in> priority_ready D s" if "prio.chosen s T k" for T k
  proof -
    have "map_option bare (T k) = priority_tasks D s k" using that by (simp add: prio.chosen_def)
    moreover have "T k \<noteq> None" using that by (auto simp: prio.chosen_def)
    ultimately have "priority_tasks D s k \<noteq> None" by (metis option.map_disc_iff)
    then show ?thesis using assms by (auto simp: priority_ready_tasks)
  qed
  have "prio.policy_ok s" using assms by simp
  from prio.select_ok [OF this read, of a] obtain rc a' s' e' where
    r: "priority_select_next D (Some s) a e = Some (rc, a', Some s', e')" "priority_inv D G s'"
      "rc \<noteq> QHW_SCHED_OK \<Longrightarrow> priority_tasks D s' = priority_tasks D s"
      "rc = QHW_SCHED_ERR_NOT_FOUND \<Longrightarrow> priority_tasks D s = Map.empty"
      "rc = QHW_SCHED_OK \<Longrightarrow> priority_tasks D s' = (priority_tasks D s)(as_task_id a' := None)"
      "rc = QHW_SCHED_OK \<Longrightarrow> \<exists>T. prio.chosen s T (as_task_id a')"
    unfolding prio_policy_ok prio_tasks by (elim succeeds4E) blast
  show ?thesis using r mem priority_ready_tasks [OF assms] priority_ready_tasks [OF r(2)]
    by (cases "rc = QHW_SCHED_OK") auto
qed

lemma priority_policy: "policy_plugin (priority_desc D) (priority_inv D G) (priority_ready D)"
proof
  show "desc_complete (priority_desc D)" by (simp add: desc_complete_def)
next
  fix f opts e
  assume "pd_init (priority_desc D) = Some f"
  then show "succeeds (f opts e) (\<lambda>(rc, st, e'). rc = QHW_SCHED_OK \<longrightarrow>
      (\<exists>s. st = Some s \<and> priority_inv D G s \<and> priority_ready D s = {}))"
    by (auto simp: priority_ready_tasks intro!: succeeds_mono [OF priority_init_ok])
next
  fix f s tid v e
  assume "pd_on_task_priority_changed (priority_desc D) = Some f" "priority_inv D G s"
  then show "succeeds (f (Some s) tid v e) (\<lambda>(rc, st, e'). \<exists>s'. st = Some s' \<and> priority_inv D G s' \<and>
      priority_ready D s' = priority_ready D s)"
    by (auto simp: priority_ready_tasks insert_absorb dom_def intro!: succeeds_mono [OF prio.changed_ok])
next
  fix f s tid ts e
  assume "pd_on_task_finished (priority_desc D) = Some f" "priority_inv D G s"
  then show "succeeds (f (Some s) tid ts e) (\<lambda>(rc, st, e'). \<exists>s'. st = Some s' \<and> priority_inv D G s' \<and>
      priority_ready D s' = priority_ready D s - {tid})"
    by (auto simp: priority_ready_tasks intro!: succeeds_mono [OF prio.finished_ok])
qed (auto simp: priority_get_split_config_def priority_on_task_started_def
    elim!: succeeds_mono intro!: succeeds_mono [OF priority_fini_ok]
      succeeds_mono [OF priority_submit_ok] succeeds_mono [OF priority_select_ok])

end

sublocale datastructures \<subseteq> prio_plugin: policy_plugin "priority_desc D" "priority_inv D G" "priority_ready D"
  by (rule priority_policy)

subsection \<open>The scheduler core with the priority policy\<close>

definition priority_contract :: "('h, 'l, 'q) ds \<Rightarrow> ('h, 'l, 'q) ghost \<Rightarrow> ('h, 'l, 'q) priority_state contract" where
  "priority_contract D G = \<lparr>good = \<lambda>d. d = priority_desc D, pinv = \<lambda>_. priority_inv D G, ready = \<lambda>_. priority_ready D\<rparr>"

context datastructures
begin

lemma priority_core: "scheduler_core D G (priority_contract D G)"
  by (rule scheduler_core.intro [OF datastructures_axioms scheduler_core_axioms.intro])
    (simp add: priority_contract_def priority_policy)

end

end
