(* ===== verification/Group_Map.thy ===== *)
theory Group_Map
  imports Sched_Types Data_Structures
begin

section \<open>Group map\<close>

text \<open>
  \<^verbatim>\<open>policy/qhw_group_map.c\<close>: the policies that serve tasks in turns put a task in the group of its reservation,
  else of its job, else of its own, and find a group by its key in one of three hash tables. The map is shown to be
  one finite map over keys, whose three kinds never meet. A kind is the value of the C enumeration; a zeroed key has
  kind 0, which no table belongs to.
\<close>

abbreviation (input) QHW_GROUP_RESERVATION :: u32 where "QHW_GROUP_RESERVATION \<equiv> 1"
abbreviation (input) QHW_GROUP_JOB :: u32 where "QHW_GROUP_JOB \<equiv> 2"
abbreviation (input) QHW_GROUP_TASK :: u32 where "QHW_GROUP_TASK \<equiv> 3"
abbreviation (input) QHW_GROUP_MAP_BUCKETS :: nat where "QHW_GROUP_MAP_BUCKETS \<equiv> 4096"

record qhw_group_key =
  gk_kind :: u32
  gk_id :: u64

record 'h qhw_group_map =
  reservation_groups :: 'h
  job_groups :: 'h
  task_groups :: 'h

subsection \<open>Operations\<close>

text \<open>The table of a kind, and the map with that table replaced.\<close>

definition group_map_table :: "'h qhw_group_map \<Rightarrow> u32 \<Rightarrow> 'h option" where
  "group_map_table gm kind =
     (if kind = QHW_GROUP_RESERVATION then Some (reservation_groups gm)
      else if kind = QHW_GROUP_JOB then Some (job_groups gm)
      else if kind = QHW_GROUP_TASK then Some (task_groups gm)
      else None)"

definition group_map_put :: "'h qhw_group_map \<Rightarrow> u32 \<Rightarrow> 'h \<Rightarrow> 'h qhw_group_map" where
  "group_map_put gm kind h =
     (if kind = QHW_GROUP_RESERVATION then gm\<lparr>reservation_groups := h\<rparr>
      else if kind = QHW_GROUP_JOB then gm\<lparr>job_groups := h\<rparr>
      else if kind = QHW_GROUP_TASK then gm\<lparr>task_groups := h\<rparr>
      else gm)"

definition qhw_group_key_from_task :: "qhw_sched_task_desc option \<Rightarrow> qhw_group_key" where
  "qhw_group_key_from_task task =
     (case task of
        None \<Rightarrow> \<lparr>gk_kind = 0, gk_id = 0\<rparr>
      | Some t \<Rightarrow>
          if reservation_id t \<noteq> 0 then \<lparr>gk_kind = QHW_GROUP_RESERVATION, gk_id = reservation_id t\<rparr>
          else if job_id t \<noteq> 0 then \<lparr>gk_kind = QHW_GROUP_JOB, gk_id = job_id t\<rparr>
          else \<lparr>gk_kind = QHW_GROUP_TASK, gk_id = task_id t\<rparr>)"

text \<open>
  The three tables while the map is set up. They are zeroed first; when one cannot be initialised, those before it are
  destroyed.
\<close>

record 'h group_slots =
  reservation_slot :: "'h table_slot"
  job_slot :: "'h table_slot"
  task_slot :: "'h table_slot"

definition group_slots_map :: "'h group_slots \<Rightarrow> 'h qhw_group_map option" where
  "group_slots_map gs = do {
     a \<leftarrow> slot_table (reservation_slot gs);
     b \<leftarrow> slot_table (job_slot gs);
     c \<leftarrow> slot_table (task_slot gs);
     Some \<lparr>reservation_groups = a, job_groups = b, task_groups = c\<rparr>
   }"

definition qhw_group_map_init ::
  "('h, 'l, 'q) ds \<Rightarrow> mem \<Rightarrow> (qhw_sched_rc \<times> 'h group_slots \<times> mem) option" where
  "qhw_group_map_init D m =
     (let gs = \<lparr>reservation_slot = Slot_unready Table_zeroed, job_slot = Slot_unready Table_zeroed,
                task_slot = Slot_unready Table_zeroed\<rparr>;
          (ok, a, m) = slot_init D QHW_GROUP_MAP_BUCKETS m;
          gs = gs\<lparr>reservation_slot := a\<rparr>
      in if \<not> ok then Some (QHW_SCHED_ERR_NO_MEMORY, gs, m)
      else
        let (ok, b, m) = slot_init D QHW_GROUP_MAP_BUCKETS m;
            gs = gs\<lparr>job_slot := b\<rparr>
        in if \<not> ok then do {
          a \<leftarrow> slot_fini D (reservation_slot gs);
          Some (QHW_SCHED_ERR_NO_MEMORY, gs\<lparr>reservation_slot := a\<rparr>, m)
        }
        else
          let (ok, c, m) = slot_init D QHW_GROUP_MAP_BUCKETS m;
              gs = gs\<lparr>task_slot := c\<rparr>
          in if \<not> ok then do {
            b \<leftarrow> slot_fini D (job_slot gs);
            a \<leftarrow> slot_fini D (reservation_slot gs);
            Some (QHW_SCHED_ERR_NO_MEMORY, gs\<lparr>job_slot := b, reservation_slot := a\<rparr>, m)
          }
          else Some (QHW_SCHED_OK, gs, m))"

text \<open>The destructor on the map that an error path finds, without a function for the values.\<close>

definition group_slots_fini :: "('h, 'l, 'q) ds \<Rightarrow> 'h group_slots \<Rightarrow> 'h group_slots option" where
  "group_slots_fini D gs = do {
     _ \<leftarrow> slot_fini D (reservation_slot gs);
     _ \<leftarrow> slot_fini D (job_slot gs);
     _ \<leftarrow> slot_fini D (task_slot gs);
     Some \<lparr>reservation_slot = Slot_unready Table_zeroed, job_slot = Slot_unready Table_zeroed,
       task_slot = Slot_unready Table_zeroed\<rparr>
   }"

lemma group_slots_fini_tolerant: "tolerates_unready D \<Longrightarrow> group_slots_fini D gs \<noteq> None"
  by (simp add: group_slots_fini_def slot_fini_tolerant)

text \<open>The destructor of a map in use, as the sequence of values it passes to \<^verbatim>\<open>free_value\<close>.\<close>

definition qhw_group_map_fini :: "('h, 'l, 'q) ds \<Rightarrow> 'h qhw_group_map \<Rightarrow> ptr list" where
  "qhw_group_map_fini D gm =
     hash_table_fini D (reservation_groups gm) @ hash_table_fini D (job_groups gm) @ hash_table_fini D (task_groups gm)"

definition qhw_group_map_find :: "('h, 'l, 'q) ds \<Rightarrow> 'h qhw_group_map \<Rightarrow> qhw_group_key \<Rightarrow> ptr option" where
  "qhw_group_map_find D gm key =
     (case group_map_table gm (gk_kind key) of
        None \<Rightarrow> None
      | Some h \<Rightarrow> hash_table_find D h (gk_id key))"

definition qhw_hash_insert_rc_to_sched_rc :: "bool \<Rightarrow> qhw_sched_rc" where
  "qhw_hash_insert_rc_to_sched_rc inserted = (if inserted then QHW_SCHED_OK else QHW_SCHED_ERR_NO_MEMORY)"

definition qhw_group_map_insert ::
  "('h, 'l, 'q) ds \<Rightarrow> 'h qhw_group_map \<Rightarrow> qhw_group_key \<Rightarrow> ptr \<Rightarrow> mem \<Rightarrow>
   qhw_sched_rc \<times> 'h qhw_group_map \<times> mem" where
  "qhw_group_map_insert D gm key v m =
     (case group_map_table gm (gk_kind key) of
        None \<Rightarrow> (QHW_SCHED_ERR_INVALID_ARG, gm, m)
      | Some h \<Rightarrow>
          if hash_table_find D h (gk_id key) \<noteq> None then (QHW_SCHED_ERR_EXISTS, gm, m)
          else
            let (ok, h, m) = hash_table_insert D h (gk_id key) v m;
                gm = group_map_put gm (gk_kind key) h
            in if \<not> ok then (qhw_hash_insert_rc_to_sched_rc ok, gm, m) else (QHW_SCHED_OK, gm, m))"

definition qhw_group_map_remove ::
  "('h, 'l, 'q) ds \<Rightarrow> 'h qhw_group_map \<Rightarrow> qhw_group_key \<Rightarrow> ptr option \<times> 'h qhw_group_map" where
  "qhw_group_map_remove D gm key =
     (case group_map_table gm (gk_kind key) of
        None \<Rightarrow> (None, gm)
      | Some h \<Rightarrow>
          let (r, h) = hash_table_remove D h (gk_id key)
          in (r, group_map_put gm (gk_kind key) h))"

subsection \<open>A finite map over keys\<close>

definition valid_key :: "qhw_group_key \<Rightarrow> bool" where
  "valid_key key \<longleftrightarrow> gk_kind key = QHW_GROUP_RESERVATION \<or> gk_kind key = QHW_GROUP_JOB \<or> gk_kind key = QHW_GROUP_TASK"

definition group_map_ok :: "('h, 'l, 'q) ghost \<Rightarrow> 'h qhw_group_map \<Rightarrow> bool" where
  "group_map_ok G gm \<longleftrightarrow> ht_inv G (reservation_groups gm) \<and> ht_inv G (job_groups gm) \<and> ht_inv G (task_groups gm)"

lemma key_from_task_valid [simp]: "valid_key (qhw_group_key_from_task (Some t))"
  by (simp add: valid_key_def qhw_group_key_from_task_def)

lemma group_key_eqI: "gk_kind a = gk_kind b \<Longrightarrow> gk_id a = gk_id b \<Longrightarrow> a = (b :: qhw_group_key)"
  by simp

lemma find_valid: "qhw_group_map_find D gm key = Some p \<Longrightarrow> valid_key key"
  by (auto simp: qhw_group_map_find_def group_map_table_def valid_key_def split: if_splits)

lemma valid_table: "valid_key key \<Longrightarrow> \<exists>h. group_map_table gm (gk_kind key) = Some h"
  by (auto simp: valid_key_def group_map_table_def)

lemma table_ok: "group_map_ok G gm \<Longrightarrow> group_map_table gm kind = Some h \<Longrightarrow> ht_inv G h"
  by (auto simp: group_map_ok_def group_map_table_def split: if_splits)

lemma put_ok: "group_map_ok G gm \<Longrightarrow> ht_inv G h \<Longrightarrow> group_map_ok G (group_map_put gm kind h)"
  by (auto simp: group_map_ok_def group_map_put_def)

lemma table_put:
  "group_map_table gm kind = Some h0 \<Longrightarrow> group_map_table (group_map_put gm kind h) k = (if k = kind then Some h else group_map_table gm k)"
  by (auto simp: group_map_table_def group_map_put_def split: if_splits)

lemma find_put:
  assumes "group_map_table gm (gk_kind key) = Some h0" "hash_table_find D h = (hash_table_find D h0)(gk_id key := v)"
  shows "qhw_group_map_find D (group_map_put gm (gk_kind key) h) = (qhw_group_map_find D gm)(key := v)"
proof (rule ext)
  fix k
  show "qhw_group_map_find D (group_map_put gm (gk_kind key) h) k = ((qhw_group_map_find D gm)(key := v)) k"
    using assms by (cases "gk_kind k = gk_kind key"; cases "gk_id k = gk_id key")
      (auto simp: qhw_group_map_find_def table_put dest: group_key_eqI)
qed

context datastructures
begin

lemma slot_init_ok:
  assumes "slot_init D n m = (ok, x, m')"
  shows "if ok then \<exists>h. x = Slot_ready h \<and> ht_inv G h \<and> hash_table_find D h = Map.empty else x = Slot_unready Table_failed"
  using assms ht_init by (auto simp: slot_init_def fun_eq_iff split: prod.splits option.splits)

text \<open>Setting up a map succeeds with an empty one or runs out of memory; it destroys only tables that are ready.\<close>

lemma group_map_init_ok:
  "succeeds (qhw_group_map_init D m) (\<lambda>(rc, gs, m').
     if rc = QHW_SCHED_OK
     then \<exists>gm. group_slots_map gs = Some gm \<and> group_map_ok G gm \<and> qhw_group_map_find D gm = Map.empty
     else rc = QHW_SCHED_ERR_NO_MEMORY)"
proof -
  obtain ok1 a m1 where 1: "slot_init D QHW_GROUP_MAP_BUCKETS m = (ok1, a, m1)" by (metis prod_cases3)
  obtain ok2 b m2 where 2: "slot_init D QHW_GROUP_MAP_BUCKETS m1 = (ok2, b, m2)" by (metis prod_cases3)
  obtain ok3 c m3 where 3: "slot_init D QHW_GROUP_MAP_BUCKETS m2 = (ok3, c, m3)" by (metis prod_cases3)
  show ?thesis using slot_init_ok [OF 1] slot_init_ok [OF 2] slot_init_ok [OF 3]
    by (cases ok1; cases ok2; cases ok3)
      (auto simp: qhw_group_map_init_def 1 2 3 slot_fini_def group_slots_map_def slot_table_def group_map_ok_def
        qhw_group_map_find_def group_map_table_def fun_eq_iff)
qed

lemma group_map_insert_ok:
  assumes ok: "group_map_ok G gm" and key: "valid_key key"
    and ins: "qhw_group_map_insert D gm key p m = (rc, gm', m')"
  shows "group_map_ok G gm' \<and>
    (if qhw_group_map_find D gm key \<noteq> None then rc = QHW_SCHED_ERR_EXISTS \<and> gm' = gm
     else rc \<in> {QHW_SCHED_OK, QHW_SCHED_ERR_NO_MEMORY} \<and>
       qhw_group_map_find D gm' = (if rc = QHW_SCHED_OK then (qhw_group_map_find D gm)(key \<mapsto> p) else qhw_group_map_find D gm))"
proof -
  obtain h where h: "group_map_table gm (gk_kind key) = Some h" using valid_table [OF key, of gm] by blast
  obtain b h' m1 where i: "hash_table_insert D h (gk_id key) p m = (b, h', m1)" by (metis prod_cases3)
  have find: "qhw_group_map_find D gm key = hash_table_find D h (gk_id key)" using h by (simp add: qhw_group_map_find_def)
  show ?thesis
  proof (cases "hash_table_find D h (gk_id key)")
    case (Some q)
    then show ?thesis using ins h find ok by (simp add: qhw_group_map_insert_def)
  next
    case None
    note r = ht_insert [OF table_ok [OF ok h] None i]
    then have "hash_table_find D h' = (hash_table_find D h)(gk_id key := if b then Some p else None)" by simp
    from find_put [OF h this] have "qhw_group_map_find D (group_map_put gm (gk_kind key) h') =
      (qhw_group_map_find D gm)(key := if b then Some p else None)" .
    moreover have "(qhw_group_map_find D gm)(key := None) = qhw_group_map_find D gm" using None find by auto
    moreover have "rc = (if b then QHW_SCHED_OK else QHW_SCHED_ERR_NO_MEMORY)" "gm' = group_map_put gm (gk_kind key) h'"
      using ins h None i by (simp_all add: qhw_group_map_insert_def qhw_hash_insert_rc_to_sched_rc_def Let_def split: if_splits)
    moreover have "group_map_ok G (group_map_put gm (gk_kind key) h')" using put_ok [OF ok] r by blast
    ultimately show ?thesis using find None by (cases b) simp_all
  qed
qed

lemma group_map_remove_ok:
  assumes ok: "group_map_ok G gm" and rem: "qhw_group_map_remove D gm key = (r, gm')"
  shows "group_map_ok G gm' \<and> r = qhw_group_map_find D gm key \<and> qhw_group_map_find D gm' = (qhw_group_map_find D gm)(key := None)"
proof (cases "group_map_table gm (gk_kind key)")
  case None
  then have "qhw_group_map_find D gm key = None" by (simp add: qhw_group_map_find_def)
  then show ?thesis using None rem ok by (auto simp: qhw_group_map_remove_def)
next
  case (Some h)
  obtain x h' where x: "hash_table_remove D h (gk_id key) = (x, h')" by force
  note r = ht_remove_fun [OF table_ok [OF ok Some] x]
  show ?thesis using rem Some x r find_put [OF Some r(3)] put_ok [OF ok r(2)]
    by (auto simp: qhw_group_map_remove_def qhw_group_map_find_def)
qed

text \<open>The destructor meets the value of every key once.\<close>

lemma group_map_fini_ok:
  assumes ok: "group_map_ok G gm"
  shows "\<exists>ks. distinct ks \<and> set ks = dom (qhw_group_map_find D gm) \<and>
    qhw_group_map_fini D gm = map (\<lambda>k. the (qhw_group_map_find D gm k)) ks"
proof -
  obtain as where a: "distinct as" "set as = dom (hash_table_find D (reservation_groups gm))"
    "hash_table_fini D (reservation_groups gm) = map (\<lambda>k. the (hash_table_find D (reservation_groups gm) k)) as"
    using ht_fini [of "reservation_groups gm"] ok by (auto simp: group_map_ok_def)
  obtain bs where b: "distinct bs" "set bs = dom (hash_table_find D (job_groups gm))"
    "hash_table_fini D (job_groups gm) = map (\<lambda>k. the (hash_table_find D (job_groups gm) k)) bs"
    using ht_fini [of "job_groups gm"] ok by (auto simp: group_map_ok_def)
  obtain cs where c: "distinct cs" "set cs = dom (hash_table_find D (task_groups gm))"
    "hash_table_fini D (task_groups gm) = map (\<lambda>k. the (hash_table_find D (task_groups gm) k)) cs"
    using ht_fini [of "task_groups gm"] ok by (auto simp: group_map_ok_def)
  let ?key = "\<lambda>kind i. \<lparr>gk_kind = kind, gk_id = i\<rparr>"
  let ?ks = "map (?key QHW_GROUP_RESERVATION) as @ map (?key QHW_GROUP_JOB) bs @ map (?key QHW_GROUP_TASK) cs"
  have "distinct ?ks" using a(1) b(1) c(1) by (auto simp: distinct_map inj_on_def)
  moreover have "set ?ks = dom (qhw_group_map_find D gm)"
  proof (rule set_eqI)
    fix k :: qhw_group_key
    obtain i j where k: "k = ?key i j" by (cases k)
    show "k \<in> set ?ks \<longleftrightarrow> k \<in> dom (qhw_group_map_find D gm)"
      using a(2) b(2) c(2)
      by (cases "i = 1"; cases "i = 2"; cases "i = 3")
        (auto simp: k qhw_group_map_find_def group_map_table_def image_iff)
  qed
  moreover have "qhw_group_map_fini D gm = map (\<lambda>k. the (qhw_group_map_find D gm k)) ?ks"
    by (simp add: qhw_group_map_fini_def a(3) b(3) c(3) qhw_group_map_find_def group_map_table_def)
  ultimately show ?thesis by blast
qed

end

end
