(* ===== verification/Policy_Round_Robin.thy ===== *)
theory Policy_Round_Robin
  imports Group_Map Split_Config Sched_Core
begin

section \<open>The round-robin policy\<close>

text \<open>
  \<^verbatim>\<open>src/plugins/round_robin.c\<close>: groups of tasks that are served in turns, one task per turn. The policy state holds
  the group map, the table of ready tasks, the list of the groups that have a ready task, and the two stores of the
  objects the pointers refer to. A list node embedded in an object is the pointer of the object.
\<close>

abbreviation (input) RR_BUCKETS :: nat where "RR_BUCKETS \<equiv> 4096"

record 'l rr_group =
  rg_key :: qhw_group_key
  rg_ready :: 'l
  rg_ready_count :: u64

record rr_task =
  rk_desc :: qhw_sched_task_desc
  rk_group :: ptr

record ('h, 'l) rr_state =
  rs_groups :: "'h qhw_group_map"
  rs_tasks :: 'h
  rs_active :: 'l
  rs_split_config :: qhw_sched_split_config
  rs_group_store :: "'l rr_group arena"
  rs_task_store :: "rr_task arena"

subsection \<open>Groups\<close>

definition rr_group_find :: "('h, 'l, 'q) ds \<Rightarrow> ('h, 'l) rr_state \<Rightarrow> qhw_group_key \<Rightarrow> ptr option" where
  "rr_group_find D s key = qhw_group_map_find D (rs_groups s) key"

definition rr_group_free :: "('h, 'l, 'q) ds \<Rightarrow> ('h, 'l) rr_state \<Rightarrow> ptr \<Rightarrow> ('h, 'l) rr_state option" where
  "rr_group_free D s g = do {
     gr \<leftarrow> cells (rs_group_store s) g;
     let (_, gm) = qhw_group_map_remove D (rs_groups s) (rg_key gr);
     B \<leftarrow> arena_free g (rs_group_store s);
     Some (s\<lparr>rs_groups := gm, rs_group_store := B\<rparr>)
   }"

definition rr_group_create ::
  "('h, 'l, 'q) ds \<Rightarrow> ('h, 'l) rr_state \<Rightarrow> qhw_group_key \<Rightarrow> mem \<Rightarrow>
   (ptr option \<times> ('h, 'l) rr_state \<times> mem) option" where
  "rr_group_create D s key m =
     (let (got, m) = mem_alloc m in
      if \<not> got then Some (None, s, m)
      else
        let (g, B) = arena_alloc \<lparr>rg_key = key, rg_ready = list_init D, rg_ready_count = 0\<rparr> (rs_group_store s);
            (rc, gm, m) = qhw_group_map_insert D (rs_groups s) key g m;
            s = s\<lparr>rs_groups := gm\<rparr>
        in if rc \<noteq> QHW_SCHED_OK then do {
             B \<leftarrow> arena_free g B;
             Some (None, s\<lparr>rs_group_store := B\<rparr>, m)
           }
           else Some (Some g, s\<lparr>rs_group_store := B\<rparr>, m))"

definition rr_group_get ::
  "('h, 'l, 'q) ds \<Rightarrow> ('h, 'l) rr_state \<Rightarrow> qhw_group_key \<Rightarrow> mem \<Rightarrow>
   (ptr option \<times> ('h, 'l) rr_state \<times> mem) option" where
  "rr_group_get D s key m =
     (case rr_group_find D s key of
        Some g \<Rightarrow> Some (Some g, s, m)
      | None \<Rightarrow> rr_group_create D s key m)"

text \<open>Taking back an empty group after a failure: \<^verbatim>\<open>if (group->ready_count == 0) rr_group_free(...)\<close>.\<close>

definition rr_group_drop_if_empty :: "('h, 'l, 'q) ds \<Rightarrow> ('h, 'l) rr_state \<Rightarrow> ptr \<Rightarrow> ('h, 'l) rr_state option" where
  "rr_group_drop_if_empty D s g = do {
     gr \<leftarrow> cells (rs_group_store s) g;
     if rg_ready_count gr = 0 then rr_group_free D s g else Some s
   }"

definition rr_remove_ready_task ::
  "('h, 'l, 'q) ds \<Rightarrow> ('h, 'l) rr_state \<Rightarrow> u64 \<Rightarrow> (qhw_sched_rc \<times> ('h, 'l) rr_state) option" where
  "rr_remove_ready_task D s tid =
     (case hash_table_find D (rs_tasks s) tid of
        None \<Rightarrow> Some (QHW_SCHED_ERR_NOT_FOUND, s)
      | Some p \<Rightarrow> do {
          t \<leftarrow> cells (rs_task_store s) p;
          let g = rk_group t;
          gr \<leftarrow> cells (rs_group_store s) g;
          if rg_ready_count gr = 0 then Some (QHW_SCHED_ERR_STATE, s)
          else do {
            let h = snd (hash_table_remove D (rs_tasks s) tid);
            A \<leftarrow> arena_free p (rs_task_store s);
            B \<leftarrow> arena_put g (gr\<lparr>rg_ready := list_remove D (rg_ready gr) p,
              rg_ready_count := rg_ready_count gr - 1\<rparr>) (rs_group_store s);
            let s = s\<lparr>rs_tasks := h, rs_task_store := A, rs_group_store := B\<rparr>;
            if rg_ready_count gr - 1 = 0 then do {
              let s = s\<lparr>rs_active := list_remove D (rs_active s) g\<rparr>;
              s \<leftarrow> rr_group_free D s g;
              Some (QHW_SCHED_OK, s)
            }
            else Some (QHW_SCHED_OK, s)
          }
        })"

subsection \<open>Callbacks\<close>

text \<open>A destructor's calls of \<^verbatim>\<open>rr_task_value_free\<close> and \<^verbatim>\<open>rr_group_value_free\<close>.\<close>

fun free_values :: "ptr list \<Rightarrow> 'a arena \<Rightarrow> 'a arena option" where
  "free_values [] A = Some A"
| "free_values (p # ps) A = do {
     A \<leftarrow> arena_free p A;
     free_values ps A
   }"

definition rr_init ::
  "('h, 'l, 'q) ds \<Rightarrow> kv_ref \<Rightarrow> env \<Rightarrow> (qhw_sched_rc \<times> ('h, 'l) rr_state option \<times> env) option" where
  "rr_init D options e =
     (let (got, e) = env_alloc e in
      if \<not> got then Some (QHW_SCHED_ERR_NO_MEMORY, None, e)
      else
        do {
          (rc, groups, m) \<leftarrow> qhw_group_map_init D (env_mem e);
          if rc \<noteq> QHW_SCHED_OK then Some (QHW_SCHED_ERR_NO_MEMORY, None, e\<lparr>env_mem := m\<rparr>)
          else do {
            gm \<leftarrow> group_slots_map groups;
            let (ok, tasks, m) = slot_init D RR_BUCKETS m;
            if \<not> ok then do {
              _ \<leftarrow> free_values (qhw_group_map_fini D gm) (arena_empty :: 'l rr_group arena);
              Some (QHW_SCHED_ERR_NO_MEMORY, None, e\<lparr>env_mem := m\<rparr>)
            }
            else
              let (rc, config) = qhw_sched_split_config_parse_options qhw_sched_split_config_init options in
              if rc \<noteq> QHW_SCHED_OK then do {
                _ \<leftarrow> slot_fini D tasks;
                _ \<leftarrow> free_values (qhw_group_map_fini D gm) (arena_empty :: 'l rr_group arena);
                Some (rc, None, e\<lparr>env_mem := m\<rparr>)
              }
              else do {
                h \<leftarrow> slot_table tasks;
                Some (QHW_SCHED_OK,
                  Some \<lparr>rs_groups = gm, rs_tasks = h, rs_active = list_init D, rs_split_config = config,
                    rs_group_store = arena_empty, rs_task_store = arena_empty\<rparr>, e\<lparr>env_mem := m\<rparr>)
              }
          }
        })"

definition rr_fini :: "('h, 'l, 'q) ds \<Rightarrow> ('h, 'l) rr_state option \<Rightarrow> env \<Rightarrow> env option" where
  "rr_fini D st e =
     (case st of
        None \<Rightarrow> Some e
      | Some s \<Rightarrow> do {
          _ \<leftarrow> free_values (hash_table_fini D (rs_tasks s)) (rs_task_store s);
          _ \<leftarrow> free_values (qhw_group_map_fini D (rs_groups s)) (rs_group_store s);
          Some e
        })"

definition rr_on_task_submit ::
  "('h, 'l, 'q) ds \<Rightarrow> ('h, 'l) rr_state option \<Rightarrow> qhw_sched_task_desc \<Rightarrow> env \<Rightarrow>
   (qhw_sched_rc \<times> ('h, 'l) rr_state option \<times> env) option" where
  "rr_on_task_submit D st task e =
     (case st of
        None \<Rightarrow> Some (QHW_SCHED_ERR_INVALID_ARG, None, e)
      | Some s \<Rightarrow>
          if hash_table_find D (rs_tasks s) (task_id task) \<noteq> None then Some (QHW_SCHED_ERR_EXISTS, Some s, e)
          else do {
            (group, s, m) \<leftarrow> rr_group_get D s (qhw_group_key_from_task (Some task)) (env_mem e);
            let e = e\<lparr>env_mem := m\<rparr>;
            case group of
              None \<Rightarrow> Some (QHW_SCHED_ERR_NO_MEMORY, Some s, e)
            | Some g \<Rightarrow> do {
                let (got, e) = env_alloc e;
                if \<not> got then do {
                  s \<leftarrow> rr_group_drop_if_empty D s g;
                  Some (QHW_SCHED_ERR_NO_MEMORY, Some s, e)
                }
                else do {
                  let (p, A) = arena_alloc \<lparr>rk_desc = task, rk_group = g\<rparr> (rs_task_store s);
                  let (ins, h, m) = hash_table_insert D (rs_tasks s) (task_id task) p (env_mem e);
                  let s = s\<lparr>rs_tasks := h\<rparr>;
                  let e = e\<lparr>env_mem := m\<rparr>;
                  if \<not> ins then do {
                    A \<leftarrow> arena_free p A;
                    s \<leftarrow> rr_group_drop_if_empty D (s\<lparr>rs_task_store := A\<rparr>) g;
                    Some (qhw_hash_insert_rc_to_sched_rc ins, Some s, e)
                  }
                  else do {
                    gr \<leftarrow> cells (rs_group_store s) g;
                    let act = (if rg_ready_count gr = 0 then list_push_back D (rs_active s) g else rs_active s);
                    B \<leftarrow> arena_put g (gr\<lparr>rg_ready := list_push_back D (rg_ready gr) p,
                      rg_ready_count := rg_ready_count gr + 1\<rparr>) (rs_group_store s);
                    Some (QHW_SCHED_OK,
                      Some (s\<lparr>rs_active := act, rs_group_store := B, rs_task_store := A\<rparr>), e)
                  }
                }
              }
          })"

definition rr_select_next ::
  "('h, 'l, 'q) ds \<Rightarrow> ('h, 'l) rr_state option \<Rightarrow> qhw_sched_assignment \<Rightarrow> env \<Rightarrow>
   (qhw_sched_rc \<times> qhw_sched_assignment \<times> ('h, 'l) rr_state option \<times> env) option" where
  "rr_select_next D st out e =
     (case st of
        None \<Rightarrow> Some (QHW_SCHED_ERR_INVALID_ARG, out, None, e)
      | Some s \<Rightarrow>
          (case list_pop_front D (rs_active s) of
             (None, act) \<Rightarrow> Some (QHW_SCHED_ERR_NOT_FOUND, out, Some (s\<lparr>rs_active := act\<rparr>), e)
           | (Some g, act) \<Rightarrow> do {
               let s = s\<lparr>rs_active := act\<rparr>;
               gr \<leftarrow> cells (rs_group_store s) g;
               let (task, l) = list_pop_front D (rg_ready gr);
               B \<leftarrow> arena_put g (gr\<lparr>rg_ready := l\<rparr>) (rs_group_store s);
               case (if rg_ready_count gr = 0 then None else task) of
                 None \<Rightarrow> do {
                   s \<leftarrow> rr_group_free D (s\<lparr>rs_group_store := B\<rparr>) g;
                   Some (QHW_SCHED_ERR_STATE, out, Some s, e)
                 }
               | Some p \<Rightarrow> do {
                   t \<leftarrow> cells (rs_task_store s) p;
                   B \<leftarrow> arena_put g (gr\<lparr>rg_ready := l, rg_ready_count := rg_ready_count gr - 1\<rparr>) B;
                   let h = snd (hash_table_remove D (rs_tasks s) (task_id (rk_desc t)));
                   let out = zero_assignment\<lparr>as_task_id := task_id (rk_desc t)\<rparr>;
                   A \<leftarrow> arena_free p (rs_task_store s);
                   let s = s\<lparr>rs_tasks := h, rs_task_store := A, rs_group_store := B\<rparr>;
                   if 0 < rg_ready_count gr - 1
                   then Some (QHW_SCHED_OK, out, Some (s\<lparr>rs_active := list_push_back D (rs_active s) g\<rparr>), e)
                   else do {
                     s \<leftarrow> rr_group_free D s g;
                     Some (QHW_SCHED_OK, out, Some s, e)
                   }
                 }
             }))"

definition rr_get_split_config ::
  "('h, 'l) rr_state option \<Rightarrow> qhw_sched_split_config \<Rightarrow> env \<Rightarrow>
   (qhw_sched_rc \<times> qhw_sched_split_config \<times> ('h, 'l) rr_state option \<times> env) option" where
  "rr_get_split_config st out e =
     (case st of
        None \<Rightarrow> Some (QHW_SCHED_ERR_INVALID_ARG, out, None, e)
      | Some s \<Rightarrow> Some (QHW_SCHED_OK, rs_split_config s, st, e))"

definition rr_on_task_priority_changed ::
  "('h, 'l) rr_state option \<Rightarrow> u64 \<Rightarrow> i64 \<Rightarrow> env \<Rightarrow>
   (qhw_sched_rc \<times> ('h, 'l) rr_state option \<times> env) option" where
  "rr_on_task_priority_changed st tid prio e = Some (QHW_SCHED_OK, st, e)"

definition rr_on_task_started ::
  "('h, 'l) rr_state option \<Rightarrow> u64 \<Rightarrow> env \<Rightarrow> (qhw_sched_rc \<times> ('h, 'l) rr_state option \<times> env) option" where
  "rr_on_task_started st tid e = Some (QHW_SCHED_OK, st, e)"

definition rr_on_task_finished ::
  "('h, 'l, 'q) ds \<Rightarrow> ('h, 'l) rr_state option \<Rightarrow> u64 \<Rightarrow> qhw_sched_task_state \<Rightarrow> env \<Rightarrow>
   (qhw_sched_rc \<times> ('h, 'l) rr_state option \<times> env) option" where
  "rr_on_task_finished D st tid terminal_state e =
     (case st of
        None \<Rightarrow> Some (QHW_SCHED_ERR_INVALID_ARG, None, e)
      | Some s \<Rightarrow> do {
          (rc, s) \<leftarrow> rr_remove_ready_task D s tid;
          Some (if rc = QHW_SCHED_ERR_NOT_FOUND then QHW_SCHED_OK else rc, Some s, e)
        })"

definition rr_desc :: "('h, 'l, 'q) ds \<Rightarrow> ('h, 'l) rr_state qhw_sched_plugin_desc" where
  "rr_desc D = \<lparr>pd_struct_size = sizeof_plugin_desc, pd_abi_version = QHW_SCHED_ABI_VERSION,
     pd_name = Some ''round_robin'', pd_version = Some ''0.1.0'',
     pd_description = Some ''round-robin scheduler policy'', pd_capabilities = 0,
     pd_thread_flags = QHW_SCHED_PLUGIN_THREAD_ALL,
     pd_init = Some (rr_init D), pd_fini = Some (rr_fini D),
     pd_on_task_submit = Some (rr_on_task_submit D), pd_select_next = Some (rr_select_next D),
     pd_get_split_config = Some rr_get_split_config,
     pd_on_task_priority_changed = Some rr_on_task_priority_changed,
     pd_on_task_started = Some rr_on_task_started,
     pd_on_task_finished = Some (rr_on_task_finished D)\<rparr>"

lemma rr_desc_sel [simp]:
  "pd_name (rr_desc D) = Some ''round_robin''" "pd_init (rr_desc D) = Some (rr_init D)"
  "pd_fini (rr_desc D) = Some (rr_fini D)" "pd_on_task_submit (rr_desc D) = Some (rr_on_task_submit D)"
  "pd_select_next (rr_desc D) = Some (rr_select_next D)" "pd_get_split_config (rr_desc D) = Some rr_get_split_config"
  "pd_on_task_priority_changed (rr_desc D) = Some rr_on_task_priority_changed"
  "pd_on_task_started (rr_desc D) = Some rr_on_task_started"
  "pd_on_task_finished (rr_desc D) = Some (rr_on_task_finished D)"
  by (simp_all add: rr_desc_def)

subsection \<open>Invariant\<close>

definition task_in ::
  "('h, 'l, 'q) ds \<Rightarrow> ('h, 'l) rr_state \<Rightarrow> ptr \<Rightarrow> qhw_group_key \<Rightarrow> ptr \<Rightarrow> bool" where
  "task_in D s g key p \<longleftrightarrow> (\<exists>t. cells (rs_task_store s) p = Some t \<and> rk_group t = g \<and>
     hash_table_find D (rs_tasks s) (task_id (rk_desc t)) = Some p \<and> qhw_group_key_from_task (Some (rk_desc t)) = key)"

definition group_ok ::
  "('h, 'l, 'q) ds \<Rightarrow> ('h, 'l, 'q) ghost \<Rightarrow> ('h, 'l) rr_state \<Rightarrow> ptr \<Rightarrow> 'l rr_group \<Rightarrow> bool" where
  "group_ok D G s g gr \<longleftrightarrow> qhw_group_map_find D (rs_groups s) (rg_key gr) = Some g \<and> l_inv G (rg_ready gr) \<and>
     unat (rg_ready_count gr) = length (l_elems G (rg_ready gr)) \<and>
     (\<forall>p \<in> set (l_elems G (rg_ready gr)). task_in D s g (rg_key gr) p)"

text \<open>\<^verbatim>\<open>X\<close> holds the groups without a ready task; between two calls there are none.\<close>

definition rr_ok :: "('h, 'l, 'q) ds \<Rightarrow> ('h, 'l, 'q) ghost \<Rightarrow> ptr set \<Rightarrow> ('h, 'l) rr_state \<Rightarrow> bool" where
  "rr_ok D G X s \<longleftrightarrow> arena_ok (rs_group_store s) \<and> arena_ok (rs_task_store s) \<and> group_map_ok G (rs_groups s) \<and>
     ht_inv G (rs_tasks s) \<and> l_inv G (rs_active s) \<and>
     set (l_elems G (rs_active s)) \<union> X = dom (cells (rs_group_store s)) \<and> set (l_elems G (rs_active s)) \<inter> X = {} \<and>
     (\<forall>g gr. cells (rs_group_store s) g = Some gr \<longrightarrow> group_ok D G s g gr \<and> (g \<in> X \<longleftrightarrow> l_elems G (rg_ready gr) = [])) \<and>
     (\<forall>key g. qhw_group_map_find D (rs_groups s) key = Some g \<longrightarrow>
       (\<exists>gr. cells (rs_group_store s) g = Some gr \<and> rg_key gr = key)) \<and>
     (\<forall>k p. hash_table_find D (rs_tasks s) k = Some p \<longrightarrow> k \<noteq> 0 \<and>
       (\<exists>t gr. cells (rs_task_store s) p = Some t \<and> task_id (rk_desc t) = k \<and>
          cells (rs_group_store s) (rk_group t) = Some gr \<and> p \<in> set (l_elems G (rg_ready gr))))"

definition rr_inv :: "('h, 'l, 'q) ds \<Rightarrow> ('h, 'l, 'q) ghost \<Rightarrow> ('h, 'l) rr_state \<Rightarrow> bool" where
  "rr_inv D G s \<longleftrightarrow> rr_ok D G {} s"

definition rr_ready :: "('h, 'l, 'q) ds \<Rightarrow> ('h, 'l) rr_state \<Rightarrow> u64 set" where
  "rr_ready D s = dom (hash_table_find D (rs_tasks s))"

text \<open>The groups in the order of their turns, each with its key and its task ids in order of arrival.\<close>

definition rr_ids :: "('h, 'l, 'q) ghost \<Rightarrow> ('h, 'l) rr_state \<Rightarrow> 'l rr_group \<Rightarrow> u64 list" where
  "rr_ids G s gr = map (\<lambda>p. task_id (rk_desc (the (cells (rs_task_store s) p)))) (l_elems G (rg_ready gr))"

definition rr_view :: "('h, 'l, 'q) ghost \<Rightarrow> ('h, 'l) rr_state \<Rightarrow> ptr \<Rightarrow> qhw_group_key \<times> u64 list" where
  "rr_view G s g = (rg_key (the (cells (rs_group_store s) g)), rr_ids G s (the (cells (rs_group_store s) g)))"

definition rr_queue :: "('h, 'l, 'q) ghost \<Rightarrow> ('h, 'l) rr_state \<Rightarrow> (qhw_group_key \<times> u64 list) list" where
  "rr_queue G s = map (rr_view G s) (l_elems G (rs_active s))"

lemma rr_okD:
  assumes "rr_ok D G X s"
  shows "arena_ok (rs_group_store s)" "arena_ok (rs_task_store s)" "group_map_ok G (rs_groups s)" "ht_inv G (rs_tasks s)"
    "l_inv G (rs_active s)" "set (l_elems G (rs_active s)) \<union> X = dom (cells (rs_group_store s))"
    "set (l_elems G (rs_active s)) \<inter> X = {}"
  using assms by (simp_all add: rr_ok_def)

lemma rr_ok_group:
  assumes "rr_ok D G X s" "cells (rs_group_store s) g = Some gr"
  shows "qhw_group_map_find D (rs_groups s) (rg_key gr) = Some g" "l_inv G (rg_ready gr)"
    "unat (rg_ready_count gr) = length (l_elems G (rg_ready gr))"
    "\<And>p. p \<in> set (l_elems G (rg_ready gr)) \<Longrightarrow> task_in D s g (rg_key gr) p" "g \<in> X \<longleftrightarrow> l_elems G (rg_ready gr) = []"
proof -
  have *: "group_ok D G s g gr \<and> (g \<in> X \<longleftrightarrow> l_elems G (rg_ready gr) = [])"
    using assms unfolding rr_ok_def by blast
  show "qhw_group_map_find D (rs_groups s) (rg_key gr) = Some g" "l_inv G (rg_ready gr)"
    "unat (rg_ready_count gr) = length (l_elems G (rg_ready gr))" "g \<in> X \<longleftrightarrow> l_elems G (rg_ready gr) = []"
    using * by (simp_all add: group_ok_def)
  show "\<And>p. p \<in> set (l_elems G (rg_ready gr)) \<Longrightarrow> task_in D s g (rg_key gr) p"
    using * by (simp add: group_ok_def)
qed

lemma rr_ok_key:
  "rr_ok D G X s \<Longrightarrow> qhw_group_map_find D (rs_groups s) key = Some g \<Longrightarrow>
   \<exists>gr. cells (rs_group_store s) g = Some gr \<and> rg_key gr = key"
  unfolding rr_ok_def by blast

lemma rr_ok_task:
  assumes "rr_ok D G X s" "hash_table_find D (rs_tasks s) k = Some p"
  obtains t gr where "k \<noteq> 0" "cells (rs_task_store s) p = Some t" "task_id (rk_desc t) = k"
    "cells (rs_group_store s) (rk_group t) = Some gr" "p \<in> set (l_elems G (rg_ready gr))"
  using assms unfolding rr_ok_def by blast

lemma rr_ok_disjoint:
  assumes ok: "rr_ok D G X s" and g: "cells (rs_group_store s) g = Some gr" "cells (rs_group_store s) g' = Some gr'"
    and p: "p \<in> set (l_elems G (rg_ready gr))" "p \<in> set (l_elems G (rg_ready gr'))"
  shows "g = g'"
  using rr_ok_group(4) [OF ok g(1) p(1)] rr_ok_group(4) [OF ok g(2) p(2)] by (auto simp: task_in_def)

lemma task_in_mono:
  assumes "task_in D s g key p" "cells (rs_task_store s') p = cells (rs_task_store s) p"
    and "\<And>k. hash_table_find D (rs_tasks s) k = Some p \<Longrightarrow> hash_table_find D (rs_tasks s') k = Some p"
  shows "task_in D s' g key p"
  using assms by (auto simp: task_in_def)

lemma rr_okI:
  assumes "arena_ok (rs_group_store s)" "arena_ok (rs_task_store s)" "group_map_ok G (rs_groups s)" "ht_inv G (rs_tasks s)"
    "l_inv G (rs_active s)" "set (l_elems G (rs_active s)) \<union> X = dom (cells (rs_group_store s))"
    "set (l_elems G (rs_active s)) \<inter> X = {}"
    "\<And>g gr. cells (rs_group_store s) g = Some gr \<Longrightarrow> group_ok D G s g gr \<and> (g \<in> X \<longleftrightarrow> l_elems G (rg_ready gr) = [])"
    "\<And>key g. qhw_group_map_find D (rs_groups s) key = Some g \<Longrightarrow> \<exists>gr. cells (rs_group_store s) g = Some gr \<and> rg_key gr = key"
    "\<And>k p. hash_table_find D (rs_tasks s) k = Some p \<Longrightarrow> k \<noteq> 0 \<and>
       (\<exists>t gr. cells (rs_task_store s) p = Some t \<and> task_id (rk_desc t) = k \<and>
          cells (rs_group_store s) (rk_group t) = Some gr \<and> p \<in> set (l_elems G (rg_ready gr)))"
  shows "rr_ok D G X s"
  unfolding rr_ok_def using assms by blast

lemma rr_ok_group_ok: "rr_ok D G X s \<Longrightarrow> cells (rs_group_store s) g = Some gr \<Longrightarrow> group_ok D G s g gr"
  unfolding rr_ok_def by blast

lemma rr_ok_tasks: "rr_ok D G X s \<Longrightarrow> hash_table_find D (rs_tasks s) k = Some p \<Longrightarrow> k \<noteq> 0 \<and>
   (\<exists>t gr. cells (rs_task_store s) p = Some t \<and> task_id (rk_desc t) = k \<and>
      cells (rs_group_store s) (rk_group t) = Some gr \<and> p \<in> set (l_elems G (rg_ready gr)))"
  unfolding rr_ok_def by blast

lemma rr_queue_cong:
  assumes "l_elems G (rs_active s') = l_elems G (rs_active s)"
    and "\<And>g. g \<in> set (l_elems G (rs_active s)) \<Longrightarrow> rr_view G s' g = rr_view G s g"
  shows "rr_queue G s' = rr_queue G s"
  using assms by (simp add: rr_queue_def)

text \<open>
  The state after the task at \<^verbatim>\<open>p\<close> left its group \<^verbatim>\<open>g\<close>: the caller says which list of active groups it goes on with.
\<close>

definition rr_taken ::
  "('h, 'l, 'q) ds \<Rightarrow> ('h, 'l) rr_state \<Rightarrow> ptr \<Rightarrow> u64 \<Rightarrow> ptr \<Rightarrow> 'l \<Rightarrow> 'l \<Rightarrow> ('h, 'l) rr_state" where
  "rr_taken D s p k g l act = s\<lparr>rs_tasks := snd (hash_table_remove D (rs_tasks s) k), rs_active := act,
     rs_group_store := (rs_group_store s)\<lparr>cells := (cells (rs_group_store s))(g \<mapsto>
       (the (cells (rs_group_store s) g))\<lparr>rg_ready := l, rg_ready_count := rg_ready_count (the (cells (rs_group_store s) g)) - 1\<rparr>)\<rparr>,
     rs_task_store := (rs_task_store s)\<lparr>cells := (cells (rs_task_store s))(p := None)\<rparr>\<rparr>"

context datastructures
begin

subsection \<open>Groups without a task\<close>

lemma group_free_ok:
  assumes ok: "rr_ok D G X s" and g: "g \<in> X"
  shows "succeeds (rr_group_free D s g) (\<lambda>s'. rr_ok D G (X - {g}) s' \<and> rr_queue G s' = rr_queue G s \<and>
    rs_tasks s' = rs_tasks s)"
proof -
  obtain gr where gr: "cells (rs_group_store s) g = Some gr" using rr_okD(6) [OF ok] g by blast
  have empty: "l_elems G (rg_ready gr) = []" using rr_ok_group(5) [OF ok gr] g by simp
  obtain r gm where rem: "qhw_group_map_remove D (rs_groups s) (rg_key gr) = (r, gm)" by force
  note m = group_map_remove_ok [OF rr_okD(3) [OF ok] rem]
  let ?B = "(rs_group_store s)\<lparr>cells := (cells (rs_group_store s))(g := None)\<rparr>"
  let ?s = "s\<lparr>rs_groups := gm, rs_group_store := ?B\<rparr>"
  have call: "rr_group_free D s g = Some ?s" using gr rem by (simp add: rr_group_free_def arena_free_def)
  have "rr_ok D G (X - {g}) ?s"
  proof (rule rr_okI)
    show "set (l_elems G (rs_active ?s)) \<union> (X - {g}) = dom (cells (rs_group_store ?s))"
      using rr_okD(6,7) [OF ok] g by auto
    fix x xr
    assume "cells (rs_group_store ?s) x = Some xr"
    then have x: "cells (rs_group_store s) x = Some xr" "x \<noteq> g" by (simp_all split: if_splits)
    have "rg_key xr \<noteq> rg_key gr" using rr_ok_group(1) [OF ok gr] rr_ok_group(1) [OF ok x(1)] x(2) by auto
    then show "group_ok D G ?s x xr \<and> (x \<in> X - {g} \<longleftrightarrow> l_elems G (rg_ready xr) = [])"
      using rr_ok_group [OF ok x(1)] m x(2) by (simp add: group_ok_def task_in_def)
  next
    fix key x
    assume "qhw_group_map_find D (rs_groups ?s) key = Some x"
    then have x: "qhw_group_map_find D (rs_groups s) key = Some x" "key \<noteq> rg_key gr" using m by (simp_all split: if_splits)
    then obtain xr where "cells (rs_group_store s) x = Some xr" "rg_key xr = key" using rr_ok_key [OF ok] by blast
    then show "\<exists>xr. cells (rs_group_store ?s) x = Some xr \<and> rg_key xr = key" using gr x(2) by auto
  next
    fix k p
    assume "hash_table_find D (rs_tasks ?s) k = Some p"
    then obtain t xr where t: "k \<noteq> 0" "cells (rs_task_store s) p = Some t" "task_id (rk_desc t) = k"
      "cells (rs_group_store s) (rk_group t) = Some xr" "p \<in> set (l_elems G (rg_ready xr))"
      using rr_ok_tasks [OF ok] by fastforce
    have "rk_group t \<noteq> g" using t gr empty by auto
    then show "k \<noteq> 0 \<and> (\<exists>t gr. cells (rs_task_store ?s) p = Some t \<and> task_id (rk_desc t) = k \<and>
          cells (rs_group_store ?s) (rk_group t) = Some gr \<and> p \<in> set (l_elems G (rg_ready gr)))"
      using t by auto
  qed (use rr_okD [OF ok] m gr in auto)
  moreover have "rr_queue G ?s = rr_queue G s"
    by (rule rr_queue_cong) (use rr_okD(7) [OF ok] g in \<open>auto simp: rr_view_def rr_ids_def\<close>)
  ultimately show ?thesis using call by simp
qed

lemma rr_ok_brk: "rr_ok D G X s \<Longrightarrow> cells B = cells (rs_group_store s) \<Longrightarrow> arena_ok B \<Longrightarrow> group_map_ok G gm \<Longrightarrow>
  qhw_group_map_find D gm = qhw_group_map_find D (rs_groups s) \<Longrightarrow>
  rr_ok D G X (s\<lparr>rs_groups := gm, rs_group_store := B\<rparr>) \<and>
  rr_queue G (s\<lparr>rs_groups := gm, rs_group_store := B\<rparr>) = rr_queue G s"
  by (simp add: rr_ok_def group_ok_def task_in_def rr_queue_def rr_view_def rr_ids_def cong: map_cong)

lemma group_create_ok:
  assumes ok: "rr_ok D G X s" and key: "valid_key key" and none: "qhw_group_map_find D (rs_groups s) key = None"
  shows "succeeds (rr_group_create D s key m) (\<lambda>(r, s', m'). rr_queue G s' = rr_queue G s \<and> rs_tasks s' = rs_tasks s \<and>
    rs_task_store s' = rs_task_store s \<and>
    (case r of None \<Rightarrow> rr_ok D G X s'
     | Some g \<Rightarrow> rr_ok D G (insert g X) s' \<and> qhw_group_map_find D (rs_groups s') key = Some g))"
proof -
  obtain got m1 where al: "mem_alloc m = (got, m1)" by force
  let ?S = "rs_group_store s" and ?g = "brk (rs_group_store s)"
  let ?gr = "\<lparr>rg_key = key, rg_ready = list_init D, rg_ready_count = 0\<rparr>"
  let ?B = "?S\<lparr>cells := (cells ?S)(?g \<mapsto> ?gr), brk := Suc ?g\<rparr>"
  obtain rc gm m2 where ins: "qhw_group_map_insert D (rs_groups s) key ?g m1 = (rc, gm, m2)" by (metis prod_cases3)
  note gi = group_map_insert_ok [OF rr_okD(3) [OF ok] key ins]
  have new: "cells ?S ?g = None" using arena_fresh [OF rr_okD(1) [OF ok]] .
  show ?thesis
  proof (cases "got \<and> rc = QHW_SCHED_OK")
    case False
    show ?thesis
    proof (cases got)
      case True
      let ?B' = "?B\<lparr>cells := (cells ?B)(?g := None)\<rparr>"
      have "cells ?B' = cells ?S" using new by auto
      moreover have "arena_ok ?B'" using rr_okD(1) [OF ok] new by (auto simp: arena_ok_def less_Suc_eq)
      ultimately show ?thesis
        using rr_ok_brk [OF ok, of ?B' gm] gi none al ins False True
        by (simp add: rr_group_create_def arena_alloc_def arena_free_def)
    qed (use al ok in \<open>simp add: rr_group_create_def\<close>)
  next
    case True
    let ?s = "s\<lparr>rs_groups := gm, rs_group_store := ?B\<rparr>"
    have fd: "qhw_group_map_find D gm = (qhw_group_map_find D (rs_groups s))(key \<mapsto> ?g)" using gi none True by simp
    have li: "l_inv G (list_init D)" "l_elems G (list_init D) = []" using l_init by simp_all
    have notin: "?g \<notin> set (l_elems G (rs_active s))" "?g \<notin> X" using rr_okD(6) [OF ok] new by auto
    have "rr_ok D G (insert ?g X) ?s"
    proof (rule rr_okI)
      show "set (l_elems G (rs_active ?s)) \<union> insert ?g X = dom (cells (rs_group_store ?s))"
        using rr_okD(6) [OF ok] by auto
      fix x xr
      assume x: "cells (rs_group_store ?s) x = Some xr"
      show "group_ok D G ?s x xr \<and> (x \<in> insert ?g X \<longleftrightarrow> l_elems G (rg_ready xr) = [])"
      proof (cases "x = ?g")
        case True
        then show ?thesis using x li fd by (auto simp: group_ok_def)
      next
        case False
        then have x': "cells ?S x = Some xr" using x by simp
        then have "rg_key xr \<noteq> key" using rr_ok_group(1) [OF ok x'] none by auto
        then show ?thesis using rr_ok_group [OF ok x'] fd False by (simp add: group_ok_def task_in_def)
      qed
    next
      fix k x
      assume "qhw_group_map_find D (rs_groups ?s) k = Some x"
      then show "\<exists>xr. cells (rs_group_store ?s) x = Some xr \<and> rg_key xr = k"
        using rr_ok_key [OF ok, of k x] fd new by (auto split: if_splits)
    next
      fix k p
      assume "hash_table_find D (rs_tasks ?s) k = Some p"
      then obtain t xr where t: "k \<noteq> 0" "cells (rs_task_store s) p = Some t" "task_id (rk_desc t) = k"
        "cells (rs_group_store s) (rk_group t) = Some xr" "p \<in> set (l_elems G (rg_ready xr))"
        using rr_ok_tasks [OF ok] by fastforce
      then have "rk_group t \<noteq> ?g" using new by auto
      then show "k \<noteq> 0 \<and> (\<exists>t gr. cells (rs_task_store ?s) p = Some t \<and> task_id (rk_desc t) = k \<and>
            cells (rs_group_store ?s) (rk_group t) = Some gr \<and> p \<in> set (l_elems G (rg_ready gr)))"
        using t by auto
    qed (use rr_okD [OF ok] gi notin in auto)
    moreover have "rr_queue G ?s = rr_queue G s"
      by (rule rr_queue_cong) (use notin in \<open>auto simp: rr_view_def rr_ids_def\<close>)
    ultimately show ?thesis using True al ins fd by (simp add: rr_group_create_def arena_alloc_def)
  qed
qed

lemma group_get_ok:
  assumes inv: "rr_inv D G s" and key: "valid_key key"
  shows "succeeds (rr_group_get D s key m) (\<lambda>(r, s', m'). rr_queue G s' = rr_queue G s \<and> rs_tasks s' = rs_tasks s \<and>
    (case r of None \<Rightarrow> rr_inv D G s'
     | Some g \<Rightarrow> (\<exists>X. rr_ok D G X s' \<and> X \<subseteq> {g}) \<and> qhw_group_map_find D (rs_groups s') key = Some g))"
proof (cases "qhw_group_map_find D (rs_groups s) key")
  case None
  have "succeeds (rr_group_create D s key m) (\<lambda>(r, s', m'). rr_queue G s' = rr_queue G s \<and> rs_tasks s' = rs_tasks s \<and>
    (case r of None \<Rightarrow> rr_inv D G s'
     | Some g \<Rightarrow> (\<exists>X. rr_ok D G X s' \<and> X \<subseteq> {g}) \<and> qhw_group_map_find D (rs_groups s') key = Some g))"
    by (rule succeeds_mono [OF group_create_ok [OF inv [unfolded rr_inv_def] key None]])
      (auto simp: rr_inv_def split: option.splits)
  then show ?thesis using None by (simp add: rr_group_get_def rr_group_find_def)
next
  case (Some g)
  then show ?thesis using inv by (auto simp: rr_group_get_def rr_group_find_def rr_inv_def)
qed

subsection \<open>Taking a task out of its group\<close>

lemma rr_taken_ok:
  assumes ok: "rr_ok D G {} s" and gr: "cells (rs_group_store s) g = Some gr" and p: "p \<in> set (l_elems G (rg_ready gr))"
    and t: "cells (rs_task_store s) p = Some t" "task_id (rk_desc t) = k"
    and l: "l_inv G l" "l_elems G l = remove1 p (l_elems G (rg_ready gr))"
    and act: "l_inv G act" "set (l_elems G act) = (if l_elems G l = [] then set (l_elems G (rs_active s)) - {g} else set (l_elems G (rs_active s)))"
  shows "rr_ok D G (if l_elems G l = [] then {g} else {}) (rr_taken D s p k g l act)"
    "hash_table_find D (rs_tasks (rr_taken D s p k g l act)) = (hash_table_find D (rs_tasks s))(k := None)"
    "rr_view G (rr_taken D s p k g l act) g = (fst (rr_view G s g), remove1 k (snd (rr_view G s g)))"
    "\<And>x. x \<in> dom (cells (rs_group_store s)) \<Longrightarrow> x \<noteq> g \<Longrightarrow> rr_view G (rr_taken D s p k g l act) x = rr_view G s x"
proof -
  let ?s = "rr_taken D s p k g l act" and ?X = "if l_elems G l = [] then {g} else {}"
  let ?gr = "gr\<lparr>rg_ready := l, rg_ready_count := rg_ready_count gr - 1\<rparr>"
  have ti: "task_in D s g (rg_key gr) p" by (rule rr_ok_group(4) [OF ok gr p])
  then have kp: "hash_table_find D (rs_tasks s) k = Some p" "rk_group t = g" using t by (auto simp: task_in_def)
  have dist: "distinct (l_elems G (rg_ready gr))" using l_inv_distinct rr_ok_group(2) [OF ok gr] by blast
  then have setl: "set (l_elems G l) = set (l_elems G (rg_ready gr)) - {p}" using l(2) by (simp add: set_remove1_eq)
  obtain r h where h: "hash_table_remove D (rs_tasks s) k = (r, h)" by force
  note hr = ht_remove_fun [OF rr_okD(4) [OF ok] h]
  have gs: "cells (rs_group_store ?s) = (cells (rs_group_store s))(g \<mapsto> ?gr)"
    and ts: "cells (rs_task_store ?s) = (cells (rs_task_store s))(p := None)"
    and fd: "hash_table_find D (rs_tasks ?s) = (hash_table_find D (rs_tasks s))(k := None)"
    and gm: "rs_groups ?s = rs_groups s" and ac: "rs_active ?s = act" and iv: "ht_inv G (rs_tasks ?s)"
    using gr h hr by (simp_all add: rr_taken_def)
  show "hash_table_find D (rs_tasks ?s) = (hash_table_find D (rs_tasks s))(k := None)" by (rule fd)
  have cnt: "unat (rg_ready_count gr - 1) = length (l_elems G l)"
  proof -
    have u: "unat (rg_ready_count gr) = length (l_elems G (rg_ready gr))" using rr_ok_group(3) [OF ok gr] .
    moreover have "0 < length (l_elems G (rg_ready gr))" using p by auto
    ultimately show ?thesis using p l(2) by (simp add: unat_u64_pred length_remove1)
  qed
  have keep: "task_in D ?s x key q" if "task_in D s x key q" "q \<noteq> p" for x key q
    by (rule task_in_mono [OF that(1)]) (use that(2) ts fd kp in auto)
  have other: "p \<notin> set (l_elems G (rg_ready xr))" if "cells (rs_group_store s) x = Some xr" "x \<noteq> g" for x xr
    using rr_ok_disjoint [OF ok gr that(1) p] that(2) by blast
  show "rr_ok D G ?X ?s"
  proof (rule rr_okI)
    show "arena_ok (rs_group_store ?s)" using rr_okD(1) [OF ok] gr by (simp add: rr_taken_def)
    show "arena_ok (rs_task_store ?s)" using rr_okD(2) [OF ok] t by (simp add: rr_taken_def)
    have dm: "set (l_elems G (rs_active s)) = dom (cells (rs_group_store s))" using rr_okD(6) [OF ok] by simp
    show "set (l_elems G (rs_active ?s)) \<union> ?X = dom (cells (rs_group_store ?s))"
      "set (l_elems G (rs_active ?s)) \<inter> ?X = {}" using dm act(2) gr by (auto simp: ac gs)
    fix x xr
    assume x: "cells (rs_group_store ?s) x = Some xr"
    show "group_ok D G ?s x xr \<and> (x \<in> ?X \<longleftrightarrow> l_elems G (rg_ready xr) = [])"
    proof (cases "x = g")
      case True
      then have "xr = ?gr" using x gs by simp
      then show ?thesis using True rr_ok_group [OF ok gr] l(1) cnt setl keep
        by (simp add: group_ok_def gm)
    next
      case False
      then have x': "cells (rs_group_store s) x = Some xr" using x gs by simp
      have ne: "x \<notin> ?X" using False by simp
      have "task_in D ?s x (rg_key xr) q" if "q \<in> set (l_elems G (rg_ready xr))" for q
        by (rule keep [OF rr_ok_group(4) [OF ok x' that]]) (use other [OF x' False] that in auto)
      then show ?thesis using ne rr_ok_group [OF ok x'] by (simp add: group_ok_def gm)
    qed
  next
    fix key x
    assume "qhw_group_map_find D (rs_groups ?s) key = Some x"
    then have "qhw_group_map_find D (rs_groups s) key = Some x" by (simp add: gm)
    from rr_ok_key [OF ok this] obtain xr where xr: "cells (rs_group_store s) x = Some xr" "rg_key xr = key" by blast
    then show "\<exists>xr. cells (rs_group_store ?s) x = Some xr \<and> rg_key xr = key"
      using gr by (cases "x = g") (auto simp: gs)
  next
    fix j q
    assume "hash_table_find D (rs_tasks ?s) j = Some q"
    then have j: "hash_table_find D (rs_tasks s) j = Some q" "j \<noteq> k" by (simp_all add: fd split: if_splits)
    obtain u xr where u: "j \<noteq> 0" "cells (rs_task_store s) q = Some u" "task_id (rk_desc u) = j"
      "cells (rs_group_store s) (rk_group u) = Some xr" "q \<in> set (l_elems G (rg_ready xr))"
      by (rule rr_ok_task [OF ok j(1)])
    have qp: "q \<noteq> p" using u(2,3) t j(2) by auto
    show "j \<noteq> 0 \<and> (\<exists>t gr. cells (rs_task_store ?s) q = Some t \<and> task_id (rk_desc t) = j \<and>
          cells (rs_group_store ?s) (rk_group t) = Some gr \<and> q \<in> set (l_elems G (rg_ready gr)))"
      using u qp setl gr by (cases "rk_group u = g") (auto simp: gs ts)
  qed (use rr_okD [OF ok] act in \<open>simp_all add: gm ac iv\<close>)
  have ids: "map (\<lambda>q. task_id (rk_desc (the (cells (rs_task_store ?s) q)))) qs =
      map (\<lambda>q. task_id (rk_desc (the (cells (rs_task_store s) q)))) qs" if "p \<notin> set qs" for qs
    using that by (induction qs) (auto simp: ts)
  show "rr_view G ?s x = rr_view G s x" if x: "x \<in> dom (cells (rs_group_store s))" "x \<noteq> g" for x
  proof -
    obtain xr where xr: "cells (rs_group_store s) x = Some xr" using x(1) by blast
    show ?thesis using ids [OF other [OF xr x(2)]] xr x(2) by (simp add: rr_view_def rr_ids_def gs)
  qed
  have inj: "inj_on (\<lambda>q. task_id (rk_desc (the (cells (rs_task_store s) q)))) (insert p (set (l_elems G (rg_ready gr))))"
  proof (rule inj_onI)
    fix a b
    assume "a \<in> insert p (set (l_elems G (rg_ready gr)))" "b \<in> insert p (set (l_elems G (rg_ready gr)))"
      "task_id (rk_desc (the (cells (rs_task_store s) a))) = task_id (rk_desc (the (cells (rs_task_store s) b)))"
    moreover have "task_in D s g (rg_key gr) q" if "q \<in> insert p (set (l_elems G (rg_ready gr)))" for q
      using that p rr_ok_group(4) [OF ok gr] by auto
    ultimately have in_g: "task_in D s g (rg_key gr) a" "task_in D s g (rg_key gr) b"
      and eq: "task_id (rk_desc (the (cells (rs_task_store s) a))) = task_id (rk_desc (the (cells (rs_task_store s) b)))" by blast+
    obtain ta tb where "cells (rs_task_store s) a = Some ta" "hash_table_find D (rs_tasks s) (task_id (rk_desc ta)) = Some a"
      "cells (rs_task_store s) b = Some tb" "hash_table_find D (rs_tasks s) (task_id (rk_desc tb)) = Some b"
      using in_g unfolding task_in_def by blast
    then show "a = b" using eq by simp
  qed
  have np: "p \<notin> set (remove1 p (l_elems G (rg_ready gr)))" using dist by simp
  show "rr_view G ?s g = (fst (rr_view G s g), remove1 k (snd (rr_view G s g)))"
    using map_remove1_inj [OF inj] ids [OF np] t gr l(2) by (simp add: rr_view_def rr_ids_def gs)
qed

lemma rr_ids_ok:
  assumes ok: "rr_ok D G X s" and gr: "cells (rs_group_store s) g = Some gr"
  shows "distinct (rr_ids G s gr)" "set (rr_ids G s gr) \<subseteq> rr_ready D s - {0}"
proof -
  let ?id = "\<lambda>p. task_id (rk_desc (the (cells (rs_task_store s) p)))"
  have in_g: "hash_table_find D (rs_tasks s) (?id p) = Some p" if "p \<in> set (l_elems G (rg_ready gr))" for p
    using rr_ok_group(4) [OF ok gr that] unfolding task_in_def by auto
  have "inj_on ?id (set (l_elems G (rg_ready gr)))"
  proof (rule inj_onI)
    fix a b
    assume "a \<in> set (l_elems G (rg_ready gr))" "b \<in> set (l_elems G (rg_ready gr))" and eq: "?id a = ?id b"
    then have "hash_table_find D (rs_tasks s) (?id a) = Some a" "hash_table_find D (rs_tasks s) (?id b) = Some b"
      using in_g by blast+
    then show "a = b" using eq by (metis option.inject)
  qed
  then show "distinct (rr_ids G s gr)"
    using l_inv_distinct rr_ok_group(2) [OF ok gr] by (simp add: rr_ids_def distinct_map)
  show "set (rr_ids G s gr) \<subseteq> rr_ready D s - {0}"
  proof
    fix k
    assume "k \<in> set (rr_ids G s gr)"
    then obtain p where "p \<in> set (l_elems G (rg_ready gr))" "k = ?id p" by (auto simp: rr_ids_def)
    then have "hash_table_find D (rs_tasks s) k = Some p" using in_g by blast
    then show "k \<in> rr_ready D s - {0}" using rr_ok_tasks [OF ok] by (auto simp: rr_ready_def)
  qed
qed

text \<open>
  The counter of a group cannot wrap around: the identifiers of its tasks are distinct and not zero, so there are
  fewer than 2 to the power of 64 of them.
\<close>

lemma rr_count_room:
  assumes ok: "rr_ok D G X s" and gr: "cells (rs_group_store s) g = Some gr" and k: "k \<noteq> 0" "k \<notin> rr_ready D s"
  shows "unat (rg_ready_count gr + 1) = length (l_elems G (rg_ready gr)) + 1"
proof -
  have "card (insert k (set (rr_ids G s gr))) \<le> card (UNIV - {0 :: u64})"
    by (rule card_mono) (use rr_ids_ok(2) [OF ok gr] k in auto)
  moreover have "k \<notin> set (rr_ids G s gr)" using rr_ids_ok(2) [OF ok gr] k by blast
  ultimately have "length (rr_ids G s gr) + 1 \<le> card (UNIV - {0 :: u64})"
    using distinct_card [OF rr_ids_ok(1) [OF ok gr]] by simp
  also have "\<dots> = 2 ^ 64 - 1" by (simp add: card_Diff_singleton card_word)
  finally have "unat (rg_ready_count gr) < 2 ^ 64 - 1"
    using rr_ok_group(3) [OF ok gr] by (simp add: rr_ids_def)
  then have "rg_ready_count gr \<noteq> UINT64_MAX" by auto
  then show ?thesis using rr_ok_group(3) [OF ok gr] by (simp add: unat_u64_Suc)
qed

subsection \<open>The operations on the list of turns\<close>

end

definition turns_submit :: "qhw_group_key \<Rightarrow> u64 \<Rightarrow> (qhw_group_key \<times> u64 list) list \<Rightarrow> (qhw_group_key \<times> u64 list) list" where
  "turns_submit key tid Q =
     (if key \<in> fst ` set Q then map (\<lambda>(k, ids). (k, if k = key then ids @ [tid] else ids)) Q else Q @ [(key, [tid])])"

text \<open>The group in front gives its first task and moves to the back, or leaves when it has no other task.\<close>

fun turns_next :: "(qhw_group_key \<times> u64 list) list \<Rightarrow> u64 option \<times> (qhw_group_key \<times> u64 list) list" where
  "turns_next [] = (None, [])"
| "turns_next ((key, ids) # Q) = (Some (hd ids), if tl ids = [] then Q else Q @ [(key, tl ids)])"

definition turns_remove :: "u64 \<Rightarrow> (qhw_group_key \<times> u64 list) list \<Rightarrow> (qhw_group_key \<times> u64 list) list" where
  "turns_remove tid Q = filter (\<lambda>(k, ids). ids \<noteq> []) (map (\<lambda>(k, ids). (k, remove1 tid ids)) Q)"

text \<open>The state after the new task at \<^verbatim>\<open>p\<close> joined the group \<^verbatim>\<open>g\<close>.\<close>

definition rr_joined ::
  "('h, 'l, 'q) ds \<Rightarrow> ('h, 'l) rr_state \<Rightarrow> qhw_sched_task_desc \<Rightarrow> ptr \<Rightarrow> 'l rr_group \<Rightarrow> 'h \<Rightarrow> ('h, 'l) rr_state" where
  "rr_joined D s task g gr h = s\<lparr>rs_tasks := h,
     rs_active := (if rg_ready_count gr = 0 then list_push_back D (rs_active s) g else rs_active s),
     rs_group_store := (rs_group_store s)\<lparr>cells := (cells (rs_group_store s))(g \<mapsto>
       gr\<lparr>rg_ready := list_push_back D (rg_ready gr) (brk (rs_task_store s)), rg_ready_count := rg_ready_count gr + 1\<rparr>)\<rparr>,
     rs_task_store := (rs_task_store s)\<lparr>cells := (cells (rs_task_store s))(brk (rs_task_store s) \<mapsto>
       \<lparr>rk_desc = task, rk_group = g\<rparr>), brk := Suc (brk (rs_task_store s))\<rparr>\<rparr>"

context datastructures
begin

lemma rr_keys_inj:
  assumes "rr_ok D G X s" "cells (rs_group_store s) g = Some gr" "cells (rs_group_store s) x = Some xr" "rg_key xr = rg_key gr"
  shows "x = g"
  using rr_ok_group(1) [OF assms(1,2)] rr_ok_group(1) [OF assms(1,3)] assms(4) by simp

lemma rr_joined_ok:
  assumes ok: "rr_ok D G X s" "X \<subseteq> {g}" and gr: "cells (rs_group_store s) g = Some gr"
    and key: "rg_key gr = qhw_group_key_from_task (Some task)"
    and tid: "task_id task \<noteq> 0" "hash_table_find D (rs_tasks s) (task_id task) = None"
    and h: "ht_inv G h" "hash_table_find D h = (hash_table_find D (rs_tasks s))(task_id task \<mapsto> brk (rs_task_store s))"
  shows "rr_ok D G {} (rr_joined D s task g gr h)"
    "rr_queue G (rr_joined D s task g gr h) = turns_submit (rg_key gr) (task_id task) (rr_queue G s)"
proof -
  let ?s = "rr_joined D s task g gr h" and ?p = "brk (rs_task_store s)" and ?t = "\<lparr>rk_desc = task, rk_group = g\<rparr>"
  let ?l = "list_push_back D (rg_ready gr) ?p"
  let ?gr = "gr\<lparr>rg_ready := ?l, rg_ready_count := rg_ready_count gr + 1\<rparr>"
  have new: "cells (rs_task_store s) ?p = None" using arena_fresh [OF rr_okD(2) [OF ok(1)]] .
  have fresh: "?p \<notin> set (l_elems G (rg_ready xr))" if "cells (rs_group_store s) x = Some xr" for x xr
    using rr_ok_group(4) [OF ok(1) that, of ?p] new by (auto simp: task_in_def)
  have l: "l_inv G ?l" "l_elems G ?l = l_elems G (rg_ready gr) @ [?p]"
    using l_push_back [OF rr_ok_group(2) [OF ok(1) gr] fresh [OF gr]] by simp_all
  have gX: "g \<in> X \<longleftrightarrow> l_elems G (rg_ready gr) = []" by (rule rr_ok_group(5) [OF ok(1) gr])
  have zero: "rg_ready_count gr = 0 \<longleftrightarrow> g \<in> X"
    using rr_ok_group(3) [OF ok(1) gr] gX by (metis length_0_conv unat_eq_zero)
  have act: "l_inv G (rs_active ?s)" "l_elems G (rs_active ?s) = l_elems G (rs_active s) @ (if g \<in> X then [g] else [])"
  proof -
    have "g \<in> X \<Longrightarrow> g \<notin> set (l_elems G (rs_active s))" using rr_okD(7) [OF ok(1)] by blast
    then show "l_inv G (rs_active ?s)" "l_elems G (rs_active ?s) = l_elems G (rs_active s) @ (if g \<in> X then [g] else [])"
      using l_push_back [OF rr_okD(5) [OF ok(1)], of g] rr_okD(5) [OF ok(1)] by (simp_all add: rr_joined_def zero)
  qed
  have gs: "cells (rs_group_store ?s) = (cells (rs_group_store s))(g \<mapsto> ?gr)"
    and ts: "cells (rs_task_store ?s) = (cells (rs_task_store s))(?p \<mapsto> ?t)"
    and gm: "rs_groups ?s = rs_groups s" and hs: "rs_tasks ?s = h" by (simp_all add: rr_joined_def)
  have keep: "task_in D ?s x k q" if "task_in D s x k q" for x k q
    by (rule task_in_mono [OF that]) (use that new tid(2) in \<open>auto simp: ts hs h(2) task_in_def\<close>)
  have joined: "task_in D ?s g (rg_key gr) ?p" using key by (simp add: task_in_def ts hs h(2))
  show "rr_ok D G {} ?s"
  proof (rule rr_okI)
    show "arena_ok (rs_group_store ?s)" using rr_okD(1) [OF ok(1)] gr by (simp add: rr_joined_def)
    show "arena_ok (rs_task_store ?s)" using rr_okD(2) [OF ok(1)] by (simp add: rr_joined_def)
    show "set (l_elems G (rs_active ?s)) \<union> {} = dom (cells (rs_group_store ?s))"
      using rr_okD(6) [OF ok(1)] act(2) ok(2) gr by (auto simp: gs)
    fix x xr
    assume x: "cells (rs_group_store ?s) x = Some xr"
    show "group_ok D G ?s x xr \<and> (x \<in> {} \<longleftrightarrow> l_elems G (rg_ready xr) = [])"
    proof (cases "x = g")
      case True
      then have xr: "xr = ?gr" using x gs by simp
      have "task_id task \<notin> rr_ready D s" using tid(2) by (auto simp: rr_ready_def)
      from rr_count_room [OF ok(1) gr tid(1) this] show ?thesis
        using True xr rr_ok_group [OF ok(1) gr] l keep joined by (auto simp: group_ok_def gm)
    next
      case False
      then have x': "cells (rs_group_store s) x = Some xr" using x gs by simp
      have "x \<notin> X" using False ok(2) by blast
      then show ?thesis using rr_ok_group [OF ok(1) x'] keep by (simp add: group_ok_def gm)
    qed
  next
    fix k x
    assume "qhw_group_map_find D (rs_groups ?s) k = Some x"
    then have "qhw_group_map_find D (rs_groups s) k = Some x" by (simp add: gm)
    from rr_ok_key [OF ok(1) this] obtain xr where xr: "cells (rs_group_store s) x = Some xr" "rg_key xr = k" by blast
    have "x = g \<Longrightarrow> xr = gr" using xr gr by simp
    then show "\<exists>xr. cells (rs_group_store ?s) x = Some xr \<and> rg_key xr = k"
      using xr by (cases "x = g") (simp_all add: gs)
  next
    fix j q
    assume j: "hash_table_find D (rs_tasks ?s) j = Some q"
    show "j \<noteq> 0 \<and> (\<exists>t gr. cells (rs_task_store ?s) q = Some t \<and> task_id (rk_desc t) = j \<and>
          cells (rs_group_store ?s) (rk_group t) = Some gr \<and> q \<in> set (l_elems G (rg_ready gr)))"
    proof (cases "j = task_id task")
      case True
      then show ?thesis using j tid(1) l by (auto simp: hs h(2) ts gs)
    next
      case False
      then have j': "hash_table_find D (rs_tasks s) j = Some q" using j by (simp add: hs h(2))
      obtain u xr where u: "j \<noteq> 0" "cells (rs_task_store s) q = Some u" "task_id (rk_desc u) = j"
        "cells (rs_group_store s) (rk_group u) = Some xr" "q \<in> set (l_elems G (rg_ready xr))"
        by (rule rr_ok_task [OF ok(1) j'])
      have "q \<noteq> ?p" using u(2) new by auto
      moreover have "rk_group u = g \<Longrightarrow> xr = gr" using u(4) gr by simp
      ultimately show ?thesis using u l(2) by (cases "rk_group u = g") (simp_all add: gs ts)
    qed
  qed (use rr_okD [OF ok(1)] h act in \<open>simp_all add: gm hs\<close>)
  have ids: "map (\<lambda>q. task_id (rk_desc (the (cells (rs_task_store ?s) q)))) qs =
      map (\<lambda>q. task_id (rk_desc (the (cells (rs_task_store s) q)))) qs" if "?p \<notin> set qs" for qs
    using that by (induction qs) (auto simp: ts)
  have view: "rr_view G ?s x = (case rr_view G s x of (k, ids) \<Rightarrow> (k, if k = rg_key gr then ids @ [task_id task] else ids))"
    if x: "x \<in> dom (cells (rs_group_store s))" for x
  proof (cases "x = g")
    case True
    then show ?thesis using gr ids [OF fresh [OF gr]] l by (simp add: rr_view_def rr_ids_def gs ts)
  next
    case False
    obtain xr where xr: "cells (rs_group_store s) x = Some xr" using x by blast
    have "rg_key xr \<noteq> rg_key gr" using rr_keys_inj [OF ok(1) gr xr] False by blast
    then show ?thesis using xr False ids [OF fresh [OF xr]] by (simp add: rr_view_def rr_ids_def gs)
  qed
  have keys: "rg_key gr \<in> fst ` set (rr_queue G s) \<longleftrightarrow> g \<notin> X"
  proof
    assume "rg_key gr \<in> fst ` set (rr_queue G s)"
    then obtain x where x: "x \<in> set (l_elems G (rs_active s))" "rg_key (the (cells (rs_group_store s) x)) = rg_key gr"
      by (auto simp: rr_queue_def rr_view_def)
    then obtain xr where "cells (rs_group_store s) x = Some xr" using rr_okD(6) [OF ok(1)] by blast
    then have "x = g" using rr_keys_inj [OF ok(1) gr] x(2) by simp
    then show "g \<notin> X" using x(1) rr_okD(7) [OF ok(1)] by blast
  next
    assume "g \<notin> X"
    then have "g \<in> set (l_elems G (rs_active s))" using rr_okD(6) [OF ok(1)] gr by blast
    then show "rg_key gr \<in> fst ` set (rr_queue G s)" using gr by (force simp: rr_queue_def rr_view_def)
  qed
  have dm: "set (l_elems G (rs_active s)) \<subseteq> dom (cells (rs_group_store s))" using rr_okD(6) [OF ok(1)] by blast
  show "rr_queue G ?s = turns_submit (rg_key gr) (task_id task) (rr_queue G s)"
  proof (cases "g \<in> X")
    case True
    have same: "rr_view G ?s x = rr_view G s x" if x: "x \<in> set (l_elems G (rs_active s))" for x
    proof -
      have "fst (rr_view G s x) \<noteq> rg_key gr" using keys True x by (force simp: rr_queue_def)
      then show ?thesis using view [of x] dm x by (cases "rr_view G s x") auto
    qed
    have "rr_view G ?s g = (rg_key gr, [task_id task])"
      using view [of g] gr gX True by (simp add: rr_view_def rr_ids_def domI)
    then show ?thesis using True keys same act(2) by (simp add: rr_queue_def turns_submit_def)
  next
    case False
    have "map (rr_view G ?s) (l_elems G (rs_active s)) =
      map (\<lambda>x. case rr_view G s x of (k, ids) \<Rightarrow> (k, if k = rg_key gr then ids @ [task_id task] else ids)) (l_elems G (rs_active s))"
      by (rule map_cong) (use view dm in blast)+
    then show ?thesis using False keys act(2)
      by (simp add: rr_queue_def turns_submit_def o_def)
  qed
qed

subsection \<open>The callbacks\<close>

lemma drop_if_empty_ok:
  assumes ok: "rr_ok D G X s" "X \<subseteq> {g}" and g: "qhw_group_map_find D (rs_groups s) key = Some g"
  shows "succeeds (rr_group_drop_if_empty D s g) (\<lambda>s'. rr_inv D G s' \<and> rr_queue G s' = rr_queue G s \<and> rs_tasks s' = rs_tasks s)"
proof -
  obtain gr where gr: "cells (rs_group_store s) g = Some gr" using rr_ok_key [OF ok(1) g] by blast
  have zero: "rg_ready_count gr = 0 \<longleftrightarrow> g \<in> X"
    using rr_ok_group(3,5) [OF ok(1) gr] by (metis length_0_conv unat_eq_zero)
  show ?thesis
  proof (cases "g \<in> X")
    case True
    then have X: "X - {g} = {}" using ok(2) by blast
    show ?thesis using gr zero True group_free_ok [OF ok(1) True, unfolded X]
      by (simp add: rr_group_drop_if_empty_def rr_inv_def)
  next
    case False
    then have "X = {}" using ok(2) by blast
    then show ?thesis using gr zero False ok(1) by (simp add: rr_group_drop_if_empty_def rr_inv_def)
  qed
qed

lemma rr_ok_task_store:
  assumes "rr_ok D G X s" "cells A = cells (rs_task_store s)" "arena_ok A" "ht_inv G h" "hash_table_find D h = hash_table_find D (rs_tasks s)"
  shows "rr_ok D G X (s\<lparr>rs_tasks := h, rs_task_store := A\<rparr>)" "rr_queue G (s\<lparr>rs_tasks := h, rs_task_store := A\<rparr>) = rr_queue G s"
  using assms by (simp_all add: rr_ok_def group_ok_def task_in_def rr_queue_def rr_view_def rr_ids_def cong: map_cong)

lemma rr_submit_ok:
  assumes inv: "rr_inv D G s" and tid: "task_id task \<noteq> 0"
  shows "succeeds (rr_on_task_submit D (Some s) task e) (\<lambda>(rc, st, e'). \<exists>s'. st = Some s' \<and> rr_inv D G s' \<and>
    (rc = QHW_SCHED_OK \<longrightarrow> task_id task \<notin> rr_ready D s) \<and>
    rr_ready D s' = (if rc = QHW_SCHED_OK then insert (task_id task) (rr_ready D s) else rr_ready D s) \<and>
    rr_queue G s' = (if rc = QHW_SCHED_OK
      then turns_submit (qhw_group_key_from_task (Some task)) (task_id task) (rr_queue G s) else rr_queue G s))"
proof (cases "hash_table_find D (rs_tasks s) (task_id task)")
  case (Some p)
  then show ?thesis using inv by (simp add: rr_on_task_submit_def)
next
  case None
  let ?key = "qhw_group_key_from_task (Some task)"
  obtain r s1 m1 where get: "rr_group_get D s ?key (env_mem e) = Some (r, s1, m1)"
    and s1: "rr_queue G s1 = rr_queue G s" "rs_tasks s1 = rs_tasks s"
      "case r of None \<Rightarrow> rr_inv D G s1
       | Some g \<Rightarrow> (\<exists>X. rr_ok D G X s1 \<and> X \<subseteq> {g}) \<and> qhw_group_map_find D (rs_groups s1) ?key = Some g"
    using group_get_ok [OF inv key_from_task_valid, of task "env_mem e"] by (elim succeeds3E) blast
  show ?thesis
  proof (cases r)
    case None': None
    then show ?thesis using get s1 None by (simp add: rr_on_task_submit_def rr_ready_def)
  next
    case (Some g)
    then obtain X where ok: "rr_ok D G X s1" "X \<subseteq> {g}" and g: "qhw_group_map_find D (rs_groups s1) ?key = Some g"
      using s1(3) by auto
    obtain gr where gr: "cells (rs_group_store s1) g = Some gr" "rg_key gr = ?key" using rr_ok_key [OF ok(1) g] by blast
    obtain got e2 where al: "env_alloc (e\<lparr>env_mem := m1\<rparr>) = (got, e2)" by force
    show ?thesis
    proof (cases got)
      case False
      obtain s2 where "rr_group_drop_if_empty D s1 g = Some s2" "rr_inv D G s2" "rr_queue G s2 = rr_queue G s1" "rs_tasks s2 = rs_tasks s1"
        using drop_if_empty_ok [OF ok g] by (auto simp: succeeds_iff)
      then show ?thesis using None get Some al False s1 by (simp add: rr_on_task_submit_def rr_ready_def)
    next
      case True
      let ?A = "rs_task_store s1" and ?p = "brk (rs_task_store s1)" and ?t = "\<lparr>rk_desc = task, rk_group = g\<rparr>"
      let ?A1 = "?A\<lparr>cells := (cells ?A)(?p \<mapsto> ?t), brk := Suc ?p\<rparr>"
      obtain ins h m2 where hi: "hash_table_insert D (rs_tasks s1) (task_id task) ?p (env_mem e2) = (ins, h, m2)" by (metis prod_cases3)
      have free: "hash_table_find D (rs_tasks s1) (task_id task) = None" using None s1(2) by simp
      note r = ht_insert [OF rr_okD(4) [OF ok(1)] free hi]
      have new: "cells ?A ?p = None" using arena_fresh [OF rr_okD(2) [OF ok(1)]] .
      show ?thesis
      proof (cases ins)
        case False
        let ?A2 = "?A1\<lparr>cells := (cells ?A1)(?p := None)\<rparr>" and ?s = "s1\<lparr>rs_tasks := h\<rparr>"
        have A2: "cells ?A2 = cells ?A" "arena_ok ?A2"
          using new rr_okD(2) [OF ok(1)] by (auto simp: arena_ok_def less_Suc_eq)
        have fd: "hash_table_find D h = hash_table_find D (rs_tasks s1)" using r False free by auto
        note st = rr_ok_task_store [OF ok(1) A2 conjunct1 [OF r] fd]
        have "qhw_group_map_find D (rs_groups (s1\<lparr>rs_tasks := h, rs_task_store := ?A2\<rparr>)) ?key = Some g" using g by simp
        from drop_if_empty_ok [OF st(1) ok(2) this] obtain s2 where
          "rr_group_drop_if_empty D (s1\<lparr>rs_tasks := h, rs_task_store := ?A2\<rparr>) g = Some s2" "rr_inv D G s2"
          "rr_queue G s2 = rr_queue G s" "rs_tasks s2 = h"
          using st(2) s1(1) by (auto simp: succeeds_iff)
        then show ?thesis using None get Some al True hi False s1 fd
          by (simp add: rr_on_task_submit_def rr_ready_def arena_alloc_def arena_free_def qhw_hash_insert_rc_to_sched_rc_def)
      next
        case ins: True
        have fd: "hash_table_find D h = (hash_table_find D (rs_tasks s1))(task_id task \<mapsto> ?p)" using r ins by simp
        note j = rr_joined_ok [OF ok gr tid free conjunct1 [OF r] fd]
        have call: "rr_on_task_submit D (Some s) task e =
            Some (QHW_SCHED_OK, Some (rr_joined D s1 task g gr h), e2\<lparr>env_mem := m2\<rparr>)"
          using None get Some al True hi ins gr
          by (simp add: rr_on_task_submit_def arena_alloc_def arena_put_def rr_joined_def)
        have "rr_ready D (rr_joined D s1 task g gr h) = insert (task_id task) (rr_ready D s)"
          using fd s1(2) by (simp add: rr_ready_def rr_joined_def)
        then show ?thesis using call j gr(2) s1(1) None by (auto simp: rr_inv_def rr_ready_def)
      qed
    qed
  qed
qed

lemma rr_group_tasks:
  assumes "rr_ok D G X s" "cells (rs_group_store s) g = Some gr" "p \<in> set (l_elems G (rg_ready gr))"
  obtains t where "cells (rs_task_store s) p = Some t" "rk_group t = g"
    "hash_table_find D (rs_tasks s) (task_id (rk_desc t)) = Some p"
  using rr_ok_group(4) [OF assms(1,2,3)] by (auto simp: task_in_def)

text \<open>Giving up a group that just lost its last task.\<close>

lemma taken_free_ok:
  assumes "rr_ok D G {g} s"
  shows "succeeds (rr_group_free D s g) (\<lambda>s'. rr_inv D G s' \<and> rr_queue G s' = rr_queue G s \<and> rs_tasks s' = rs_tasks s)"
  using group_free_ok [OF assms, of g] by (simp add: rr_inv_def)

lemma rr_select_ok:
  assumes inv: "rr_inv D G s"
  shows "succeeds (rr_select_next D (Some s) out e) (\<lambda>(rc, out', st, e'). \<exists>s'. st = Some s' \<and> rr_inv D G s' \<and> e' = e \<and>
    (case turns_next (rr_queue G s) of
       (None, Q) \<Rightarrow> rc = QHW_SCHED_ERR_NOT_FOUND \<and> out' = out \<and> rr_ready D s = {} \<and> rr_ready D s' = {} \<and> rr_queue G s' = Q
     | (Some k, Q) \<Rightarrow> rc = QHW_SCHED_OK \<and> out' = zero_assignment\<lparr>as_task_id := k\<rparr> \<and> k \<in> rr_ready D s \<and>
         rr_ready D s' = rr_ready D s - {k} \<and> rr_queue G s' = Q))"
proof -
  have ok: "rr_ok D G {} s" using inv by (simp add: rr_inv_def)
  obtain r act where pop: "list_pop_front D (rs_active s) = (r, act)" by force
  note a = l_pop_front [OF rr_okD(5) [OF ok] pop]
  have dm: "set (l_elems G (rs_active s)) = dom (cells (rs_group_store s))" using rr_okD(6) [OF ok] by simp
  show ?thesis
  proof (cases "l_elems G (rs_active s)")
    case Nil
    then have "cells (rs_group_store s) g = None" for g using dm by auto
    then have none: "rr_ready D s = {}" using rr_ok_tasks [OF ok] by (fastforce simp: rr_ready_def)
    let ?s = "s\<lparr>rs_active := act\<rparr>"
    have el: "l_elems G act = l_elems G (rs_active s)" "l_inv G act" using a Nil by simp_all
    then have "rr_inv D G ?s"
      using ok by (simp add: rr_inv_def rr_ok_def group_ok_def task_in_def)
    moreover have "rr_queue G ?s = []" using el Nil by (simp add: rr_queue_def)
    moreover have "rr_queue G s = []" using Nil by (simp add: rr_queue_def)
    ultimately show ?thesis using Nil pop a none by (simp add: rr_select_next_def rr_ready_def)
  next
    case (Cons g gs)
    then have r: "r = Some g" "l_elems G act = gs" "l_inv G act" using a by simp_all
    have dist: "distinct (g # gs)" using l_inv_distinct [OF rr_okD(5) [OF ok]] Cons by simp
    obtain gr where gr: "cells (rs_group_store s) g = Some gr" using dm Cons by fastforce
    have ne: "l_elems G (rg_ready gr) \<noteq> []" using rr_ok_group(5) [OF ok gr] by simp
    then obtain p ps where ps: "l_elems G (rg_ready gr) = p # ps" by (cases "l_elems G (rg_ready gr)") simp_all
    obtain x l where lp: "list_pop_front D (rg_ready gr) = (x, l)" by force
    note b = l_pop_front [OF rr_ok_group(2) [OF ok gr] lp]
    have x: "x = Some p" "l_elems G l = ps" "l_inv G l" using b ps by simp_all
    obtain t where t: "cells (rs_task_store s) p = Some t" "rk_group t = g"
      "hash_table_find D (rs_tasks s) (task_id (rk_desc t)) = Some p"
      by (rule rr_group_tasks [OF ok gr, of p]) (use ps in simp_all)
    let ?k = "task_id (rk_desc t)"
    have cnt: "rg_ready_count gr \<noteq> 0" "rg_ready_count gr - 1 = 0 \<longleftrightarrow> ps = []"
    proof -
      have u: "unat (rg_ready_count gr) = length ps + 1" using rr_ok_group(3) [OF ok gr] ps by simp
      then show "rg_ready_count gr \<noteq> 0" by auto
      have "unat (rg_ready_count gr - 1) = length ps" using u by (simp add: unat_u64_pred)
      then show "rg_ready_count gr - 1 = 0 \<longleftrightarrow> ps = []" by (metis length_0_conv unat_eq_zero)
    qed
    then have pos: "0 < rg_ready_count gr - 1 \<longleftrightarrow> ps \<noteq> []" by (simp add: word_gt_0)
    have view: "rr_view G s g = (rg_key gr, ?k # map (\<lambda>q. task_id (rk_desc (the (cells (rs_task_store s) q)))) ps)"
      using gr ps t by (simp add: rr_view_def rr_ids_def)
    have rem1: "l_elems G l = remove1 p (l_elems G (rg_ready gr))" using x(2) ps by simp
    have kin: "?k \<in> rr_ready D s" using t(3) by (auto simp: rr_ready_def)
    let ?act = "if ps = [] then act else list_push_back D act g"
    have act: "l_inv G ?act" "l_elems G ?act = gs @ (if ps = [] then [] else [g])"
      using r l_push_back [of act g] dist by auto
    have acts: "set (l_elems G ?act) = (if l_elems G l = [] then set (l_elems G (rs_active s)) - {g} else set (l_elems G (rs_active s)))"
      using act(2) x(2) dist Cons by auto
    let ?s = "rr_taken D s p ?k g l ?act"
    note tk = rr_taken_ok [OF ok gr _ t(1) refl x(3) rem1 act(1) acts]
    have tks: "rr_ok D G (if ps = [] then {g} else {}) ?s"
      "hash_table_find D (rs_tasks ?s) = (hash_table_find D (rs_tasks s))(?k := None)"
      "rr_view G ?s g = (fst (rr_view G s g), remove1 ?k (snd (rr_view G s g)))"
      using tk(1-3) ps x(2) by simp_all
    have others: "map (rr_view G ?s) gs = map (rr_view G s) gs"
    proof (rule map_cong [OF refl])
      fix y
      assume "y \<in> set gs"
      then have "y \<in> dom (cells (rs_group_store s))" "y \<noteq> g" using dm Cons dist by auto
      then show "rr_view G ?s y = rr_view G s y" using tk(4) ps by simp
    qed
    have q: "rr_queue G s = rr_view G s g # map (rr_view G s) gs" using Cons by (simp add: rr_queue_def)
    have rs: "rs_active ?s = ?act" by (simp add: rr_taken_def)
    have Q: "turns_next (rr_queue G s) = (Some ?k, rr_queue G ?s)"
      using q view tks(3) act(2) others unfolding rr_queue_def rs by (cases "ps = []") simp_all
    have ready: "rr_ready D ?s = rr_ready D s - {?k}" using tks(2) by (auto simp: rr_ready_def)
    have state: "s\<lparr>rs_active := act, rs_tasks := snd (hash_table_remove D (rs_tasks s) ?k),
        rs_task_store := (rs_task_store s)\<lparr>cells := (cells (rs_task_store s))(p := None)\<rparr>,
        rs_group_store := (rs_group_store s)\<lparr>cells := (cells (rs_group_store s))(g \<mapsto>
          gr\<lparr>rg_ready := l, rg_ready_count := rg_ready_count gr - 1\<rparr>)\<rparr>\<rparr> = rr_taken D s p ?k g l act"
      using gr by (simp add: rr_taken_def)
    show ?thesis
    proof (cases "ps = []")
      case True
      then have "rr_ok D G {g} (rr_taken D s p ?k g l act)" using tks(1) by simp
      from taken_free_ok [OF this] obtain s' where "rr_group_free D (rr_taken D s p ?k g l act) g = Some s'"
        "rr_inv D G s'" "rr_queue G s' = rr_queue G ?s" "rr_ready D s' = rr_ready D ?s"
        using True by (auto simp: succeeds_iff rr_ready_def)
      then show ?thesis using True pop r(1) gr lp x(1) cnt pos t(1) Q kin ready state
        by (simp add: rr_select_next_def arena_put_def arena_free_def)
    next
      case False
      have "rr_select_next D (Some s) out e = Some (QHW_SCHED_OK, zero_assignment\<lparr>as_task_id := ?k\<rparr>, Some ?s, e)"
        using False pop r(1) gr lp x(1) cnt pos t(1)
        by (simp add: rr_select_next_def arena_put_def arena_free_def rr_taken_def)
      then show ?thesis using False Q kin ready tks(1) by (simp add: rr_inv_def)
    qed
  qed
qed

lemma rr_remove_ok:
  assumes inv: "rr_inv D G s"
  shows "succeeds (rr_remove_ready_task D s tid) (\<lambda>(rc, s'). rr_inv D G s' \<and>
    rc = (if tid \<in> rr_ready D s then QHW_SCHED_OK else QHW_SCHED_ERR_NOT_FOUND) \<and>
    rr_ready D s' = rr_ready D s - {tid} \<and> rr_queue G s' = turns_remove tid (rr_queue G s))"
proof -
  have ok: "rr_ok D G {} s" using inv by (simp add: rr_inv_def)
  have dm: "set (l_elems G (rs_active s)) = dom (cells (rs_group_store s))" using rr_okD(6) [OF ok] by simp
  have view: "rr_view G s x = (rg_key xr, rr_ids G s xr) \<and> rr_ids G s xr \<noteq> []" if "cells (rs_group_store s) x = Some xr" for x xr
    using that rr_ok_group(5) [OF ok that] by (simp add: rr_view_def rr_ids_def)
  show ?thesis
  proof (cases "hash_table_find D (rs_tasks s) tid")
    case None
    then have out: "tid \<notin> rr_ready D s" by (auto simp: rr_ready_def)
    have "(\<lambda>(k, ids). (k, remove1 tid ids)) (rr_view G s x) = rr_view G s x \<and> snd (rr_view G s x) \<noteq> []"
      if "x \<in> set (l_elems G (rs_active s))" for x
    proof -
      obtain xr where xr: "cells (rs_group_store s) x = Some xr" using \<open>x \<in> set _\<close> dm by blast
      have "tid \<notin> set (rr_ids G s xr)" using rr_ids_ok(2) [OF ok xr] out by blast
      then show ?thesis using view [OF xr] by (simp add: remove1_idem)
    qed
    then have "turns_remove tid (rr_queue G s) = rr_queue G s"
      by (auto simp: turns_remove_def rr_queue_def o_def filter_id_conv split_def cong: map_cong)
    then show ?thesis using None out inv by (simp add: rr_remove_ready_task_def)
  next
    case (Some p)
    obtain t gr where t: "cells (rs_task_store s) p = Some t" "task_id (rk_desc t) = tid"
      "cells (rs_group_store s) (rk_group t) = Some gr" "p \<in> set (l_elems G (rg_ready gr))"
      by (rule rr_ok_task [OF ok Some])
    let ?g = "rk_group t" and ?l = "list_remove D (rg_ready gr) p"
    have l: "l_inv G ?l" "l_elems G ?l = remove1 p (l_elems G (rg_ready gr))"
      using l_remove [OF rr_ok_group(2) [OF ok t(3)] t(4)] by simp_all
    have cnt: "rg_ready_count gr \<noteq> 0" "rg_ready_count gr - 1 = 0 \<longleftrightarrow> l_elems G ?l = []"
    proof -
      have u: "unat (rg_ready_count gr) = length (l_elems G (rg_ready gr))" using rr_ok_group(3) [OF ok t(3)] .
      moreover have "0 < length (l_elems G (rg_ready gr))" using t(4) by auto
      ultimately have v: "unat (rg_ready_count gr - 1) = length (l_elems G ?l)" and nz: "unat (rg_ready_count gr) \<noteq> 0"
        using t(4) l(2) by (simp_all add: unat_u64_pred length_remove1)
      show "rg_ready_count gr \<noteq> 0" using nz by auto
      show "rg_ready_count gr - 1 = 0 \<longleftrightarrow> l_elems G ?l = []" using v by (metis length_0_conv unat_eq_zero)
    qed
    have g: "?g \<in> set (l_elems G (rs_active s))" using dm t(3) by blast
    have dist: "distinct (l_elems G (rs_active s))" using l_inv_distinct [OF rr_okD(5) [OF ok]] .
    let ?act = "if l_elems G ?l = [] then list_remove D (rs_active s) ?g else rs_active s"
    have act: "l_inv G ?act" "l_elems G ?act = (if l_elems G ?l = [] then remove1 ?g (l_elems G (rs_active s)) else l_elems G (rs_active s))"
      using l_remove [OF rr_okD(5) [OF ok] g] rr_okD(5) [OF ok] by simp_all
    have acts: "set (l_elems G ?act) = (if l_elems G ?l = [] then set (l_elems G (rs_active s)) - {?g} else set (l_elems G (rs_active s)))"
      using act(2) dist by (simp add: set_remove1_eq)
    let ?s = "rr_taken D s p tid ?g ?l ?act"
    note tk = rr_taken_ok [OF ok t(3,4) t(1,2) l act(1) acts]
    have ready: "rr_ready D ?s = rr_ready D s - {tid}" "tid \<in> rr_ready D s" using tk(2) Some by (auto simp: rr_ready_def)
    have step: "rr_view G ?s x = (\<lambda>(k, ids). (k, remove1 tid ids)) (rr_view G s x) \<and>
        (snd (rr_view G ?s x) = [] \<longleftrightarrow> x = ?g \<and> l_elems G ?l = [])" if x: "x \<in> set (l_elems G (rs_active s))" for x
    proof -
      obtain xr where xr: "cells (rs_group_store s) x = Some xr" using x dm by blast
      show ?thesis
      proof (cases "x = ?g")
        case True
        have "cells (rs_group_store ?s) ?g = Some (gr\<lparr>rg_ready := ?l, rg_ready_count := rg_ready_count gr - 1\<rparr>)"
          using t(3) by (simp add: rr_taken_def)
        then have "snd (rr_view G ?s ?g) = [] \<longleftrightarrow> l_elems G ?l = []" by (simp add: rr_view_def rr_ids_def)
        then show ?thesis using True tk(3) by (cases "rr_view G s ?g") simp
      next
        case False
        have "tid \<notin> set (rr_ids G s xr)"
        proof
          assume "tid \<in> set (rr_ids G s xr)"
          then obtain q where q: "q \<in> set (l_elems G (rg_ready xr))" "tid = task_id (rk_desc (the (cells (rs_task_store s) q)))"
            by (auto simp: rr_ids_def)
          obtain u where u: "cells (rs_task_store s) q = Some u" "rk_group u = x"
            "hash_table_find D (rs_tasks s) (task_id (rk_desc u)) = Some q"
            by (rule rr_group_tasks [OF ok xr q(1)])
          then have "q = p" using q(2) Some by simp
          then show False using u(1,2) t(1) False by simp
        qed
        then show ?thesis using tk(4) [of x] xr False view [OF xr] by (simp add: domI remove1_idem)
      qed
    qed
    have Q: "rr_queue G ?s = turns_remove tid (rr_queue G s)"
    proof -
      have rs: "rs_active ?s = ?act" by (simp add: rr_taken_def)
      have m: "map (\<lambda>(k, ids). (k, remove1 tid ids)) (rr_queue G s) = map (rr_view G ?s) (l_elems G (rs_active s))"
        unfolding rr_queue_def map_map o_def by (rule map_cong [OF refl]) (use step in metis)
      have "turns_remove tid (rr_queue G s) = filter (\<lambda>(k, ids). ids \<noteq> []) (map (rr_view G ?s) (l_elems G (rs_active s)))"
        unfolding turns_remove_def m by (rule refl)
      also have "\<dots> = map (rr_view G ?s) (filter (\<lambda>x. snd (rr_view G ?s x) \<noteq> []) (l_elems G (rs_active s)))"
        by (simp add: filter_map o_def split_def)
      also have "filter (\<lambda>x. snd (rr_view G ?s x) \<noteq> []) (l_elems G (rs_active s)) =
          filter (\<lambda>x. \<not> (x = ?g \<and> l_elems G ?l = [])) (l_elems G (rs_active s))"
        by (rule filter_cong [OF refl]) (use step in blast)
      also have "\<dots> = l_elems G ?act"
      proof (cases "l_elems G ?l = []")
        case True
        have "filter (\<lambda>x. x \<noteq> ?g) (l_elems G (rs_active s)) = remove1 ?g (l_elems G (rs_active s))"
          unfolding distinct_remove1_removeAll [OF dist] removeAll_filter_not_eq by (rule filter_cong) auto
        then show ?thesis using act(2) True by simp
      qed (use act(2) in simp)
      finally show ?thesis unfolding rr_queue_def rs by simp
    qed
    show ?thesis
    proof (cases "l_elems G ?l = []")
      case True
      then have "rr_ok D G {?g} ?s" using tk(1) by simp
      from taken_free_ok [OF this] obtain s' where r: "rr_group_free D ?s ?g = Some s'"
        "rr_inv D G s'" "rr_queue G s' = rr_queue G ?s" "rr_ready D s' = rr_ready D ?s"
        by (auto simp: succeeds_iff rr_ready_def)
      have state: "s\<lparr>rs_tasks := snd (hash_table_remove D (rs_tasks s) tid),
          rs_task_store := (rs_task_store s)\<lparr>cells := (cells (rs_task_store s))(p := None)\<rparr>,
          rs_group_store := (rs_group_store s)\<lparr>cells := (cells (rs_group_store s))(?g \<mapsto>
            gr\<lparr>rg_ready := ?l, rg_ready_count := rg_ready_count gr - 1\<rparr>)\<rparr>, rs_active := list_remove D (rs_active s) ?g\<rparr> = ?s"
        using t(3) True by (simp add: rr_taken_def)
      have "rr_remove_ready_task D s tid = Some (QHW_SCHED_OK, s')"
        using True Some t cnt r(1) state by (simp add: rr_remove_ready_task_def arena_put_def arena_free_def Let_def)
      then show ?thesis using r ready Q by simp
    next
      case False
      have "rr_remove_ready_task D s tid = Some (QHW_SCHED_OK, ?s)"
        using False Some t cnt by (simp add: rr_remove_ready_task_def arena_put_def arena_free_def rr_taken_def)
      then show ?thesis using ready Q tk(1) False by (simp add: rr_inv_def)
    qed
  qed
qed

lemma rr_finished_ok:
  "rr_inv D G s \<Longrightarrow> succeeds (rr_on_task_finished D (Some s) tid ts e) (\<lambda>(rc, st, e'). \<exists>s'. st = Some s' \<and> rr_inv D G s' \<and>
    rc = QHW_SCHED_OK \<and> rr_ready D s' = rr_ready D s - {tid} \<and> rr_queue G s' = turns_remove tid (rr_queue G s))"
  using rr_remove_ok [of s tid] by (auto simp: rr_on_task_finished_def succeeds_iff)

lemma rr_init_ok:
  "succeeds (rr_init D opts e) (\<lambda>(rc, st, e').
     rc = QHW_SCHED_OK \<longrightarrow> (\<exists>s. st = Some s \<and> rr_inv D G s \<and> rr_ready D s = {} \<and> rr_queue G s = []))"
proof -
  obtain got e1 where al: "env_alloc e = (got, e1)" by force
  obtain rc1 gs m where i1: "qhw_group_map_init D (env_mem e1) = Some (rc1, gs, m)"
    and ok1: "if rc1 = QHW_SCHED_OK
      then \<exists>gm. group_slots_map gs = Some gm \<and> group_map_ok G gm \<and> qhw_group_map_find D gm = Map.empty
      else rc1 = QHW_SCHED_ERR_NO_MEMORY"
    using group_map_init_ok [of "env_mem e1"] by (elim succeeds3E) blast
  obtain ok x m2 where i2: "slot_init D RR_BUCKETS m = (ok, x, m2)" by (metis prod_cases3)
  obtain rc2 config where p: "qhw_sched_split_config_parse_options qhw_sched_split_config_init opts = (rc2, config)" by force
  show ?thesis
  proof (cases "rc1 = QHW_SCHED_OK")
    case False
    then show ?thesis using al i1 by (simp add: rr_init_def)
  next
    case True
    then obtain gm where gm: "group_slots_map gs = Some gm" "group_map_ok G gm" "qhw_group_map_find D gm = Map.empty"
      using ok1 by auto
    have none: "qhw_group_map_fini D gm = []" using group_map_fini_ok [OF gm(2)] gm(3) by auto
    show ?thesis
    proof (cases ok)
      case False
      then show ?thesis using al i1 i2 True gm(1) none by (simp add: rr_init_def)
    next
      case ok: True
      then obtain t where "x = Slot_ready t" "ht_inv G t" "hash_table_find D t = Map.empty" using slot_init_ok [OF i2] by auto
      then show ?thesis using al i1 i2 p True ok gm none l_init
        by (simp add: rr_init_def rr_inv_def rr_ok_def rr_ready_def rr_queue_def slot_fini_def slot_table_def)
    qed
  qed
qed

lemma free_values_ok:
  "distinct ps \<Longrightarrow> set ps \<subseteq> dom (cells A) \<Longrightarrow>
   succeeds (free_values ps A) (\<lambda>A'. dom (cells A') = dom (cells A) - set ps)"
proof (induction ps arbitrary: A)
  case (Cons p ps)
  let ?A = "A\<lparr>cells := (cells A)(p := None)\<rparr>"
  have "arena_free p A = Some ?A" using Cons.prems by (auto simp: arena_free_def split: option.splits)
  moreover have "succeeds (free_values ps ?A) (\<lambda>A'. dom (cells A') = dom (cells ?A) - set ps)"
    using Cons.prems by (intro Cons.IH) auto
  ultimately show ?case by (auto elim!: succeeds_mono)
qed simp

lemma rr_fini_ok:
  assumes inv: "rr_inv D G s"
  shows "succeeds (rr_fini D (Some s) e) (\<lambda>e'. e' = e)"
proof -
  have ok: "rr_ok D G {} s" using inv by (simp add: rr_inv_def)
  obtain ks where ks: "distinct ks" "set ks = dom (hash_table_find D (rs_tasks s))"
    "hash_table_fini D (rs_tasks s) = map (\<lambda>k. the (hash_table_find D (rs_tasks s) k)) ks"
    using ht_fini [OF rr_okD(4) [OF ok]] by blast
  have task: "\<exists>p t. hash_table_find D (rs_tasks s) k = Some p \<and> cells (rs_task_store s) p = Some t \<and> task_id (rk_desc t) = k"
    if "k \<in> set ks" for k
    using that ks(2) rr_ok_tasks [OF ok] by fastforce
  have d1: "distinct (hash_table_fini D (rs_tasks s))"
    unfolding ks(3) distinct_map
  proof (intro conjI inj_onI)
    fix a b
    assume "a \<in> set ks" "b \<in> set ks" "the (hash_table_find D (rs_tasks s) a) = the (hash_table_find D (rs_tasks s) b)"
    then show "a = b" using task [of a] task [of b] by auto
  qed (rule ks(1))
  have s1: "set (hash_table_fini D (rs_tasks s)) \<subseteq> dom (cells (rs_task_store s))"
    unfolding ks(3) using task by fastforce
  obtain gs where gs: "distinct gs" "set gs = dom (qhw_group_map_find D (rs_groups s))"
    "qhw_group_map_fini D (rs_groups s) = map (\<lambda>k. the (qhw_group_map_find D (rs_groups s) k)) gs"
    using group_map_fini_ok [OF rr_okD(3) [OF ok]] by blast
  have group: "\<exists>g gr. qhw_group_map_find D (rs_groups s) k = Some g \<and> cells (rs_group_store s) g = Some gr \<and> rg_key gr = k"
    if "k \<in> set gs" for k
    using that gs(2) rr_ok_key [OF ok] by fastforce
  have d2: "distinct (qhw_group_map_fini D (rs_groups s))"
    unfolding gs(3) distinct_map
  proof (intro conjI inj_onI)
    fix a b
    assume "a \<in> set gs" "b \<in> set gs" "the (qhw_group_map_find D (rs_groups s) a) = the (qhw_group_map_find D (rs_groups s) b)"
    then show "a = b" using group [of a] group [of b] by auto
  qed (rule gs(1))
  have s2: "set (qhw_group_map_fini D (rs_groups s)) \<subseteq> dom (cells (rs_group_store s))"
    unfolding gs(3) using group by fastforce
  show ?thesis using free_values_ok [OF d1 s1] free_values_ok [OF d2 s2] by (auto simp: rr_fini_def succeeds_iff)
qed

lemma rr_policy: "policy_plugin (rr_desc D) (rr_inv D G) (rr_ready D)"
proof
  show "desc_complete (rr_desc D)" by (simp add: desc_complete_def)
next
  fix f s a e
  assume "pd_select_next (rr_desc D) = Some f" "rr_inv D G s"
  then show "succeeds (f (Some s) a e) (\<lambda>(rc, a', st, e'). \<exists>s'. st = Some s' \<and> rr_inv D G s' \<and>
         (if rc = QHW_SCHED_OK then as_task_id a' \<in> rr_ready D s \<and> rr_ready D s' = rr_ready D s - {as_task_id a'}
          else rr_ready D s' = rr_ready D s) \<and> (rc = QHW_SCHED_ERR_NOT_FOUND \<longrightarrow> rr_ready D s = {}))"
    by (auto intro!: succeeds_mono [OF rr_select_ok] split: prod.splits option.splits)
next
  fix f s e and d :: qhw_sched_task_desc
  assume "pd_on_task_submit (rr_desc D) = Some f" "rr_inv D G s" "task_id d \<noteq> 0"
  then show "succeeds (f (Some s) d e) (\<lambda>(rc, st, e'). \<exists>s'. st = Some s' \<and> rr_inv D G s' \<and>
         rr_ready D s' = (if rc = QHW_SCHED_OK then insert (task_id d) (rr_ready D s) else rr_ready D s))"
    by (auto intro!: succeeds_mono [OF rr_submit_ok])
qed (auto simp: rr_get_split_config_def rr_on_task_priority_changed_def rr_on_task_started_def
    elim!: succeeds_mono intro!: succeeds_mono [OF rr_init_ok] succeeds_mono [OF rr_fini_ok]
      succeeds_mono [OF rr_finished_ok])

end

sublocale datastructures \<subseteq> rr: policy_plugin "rr_desc D" "rr_inv D G" "rr_ready D"
  by (rule rr_policy)

subsection \<open>The scheduler core with the round-robin policy\<close>

definition rr_contract :: "('h, 'l, 'q) ds \<Rightarrow> ('h, 'l, 'q) ghost \<Rightarrow> ('h, 'l) rr_state contract" where
  "rr_contract D G = \<lparr>good = \<lambda>d. d = rr_desc D, pinv = \<lambda>_. rr_inv D G, ready = \<lambda>_. rr_ready D\<rparr>"

context datastructures
begin

lemma rr_core: "scheduler_core D G (rr_contract D G)"
  by (rule scheduler_core.intro [OF datastructures_axioms scheduler_core_axioms.intro])
    (simp add: rr_contract_def rr_policy)

end

end
