(* ===== verification/Policy_Demo.thy ===== *)
theory Policy_Demo
  imports Sched_Demo Policy_Priority Policy_Round_Robin
begin

section \<open>Concrete runs of the policies\<close>

text \<open>
  A run of the priority policy on the reference data structures: with boosting enabled, task 7 of priority 3 and task 8
  of priority 0 are submitted at time 650. The deadline of task 8 is 1000 and it is estimated to run for 300, so its
  urgency reaches the first threshold at 700, and at 750 it is selected before task 7.
\<close>

definition boost_options :: kv_ref where
  "boost_options = KvArr [\<lparr>kv_key = QHW_SCHED_OPT_DEADLINE_BOOST_ENABLE, kv_type = QHW_SCHED_VALUE_U64, kv_flags = 0, kv_bits = 1\<rparr>]"

definition boost_env :: env where
  "boost_env = demo_env\<lparr>env_clock := \<lparr>ck_supported = True, ck_last = 0, ck_coming = [650, 0, 750]\<rparr>\<rparr>"

definition plain_task :: qhw_sched_task_desc where
  "plain_task = (demo_task 7 (KvArr []))\<lparr>priority := 3\<rparr>"

definition hasty_task :: qhw_sched_task_desc where
  "hasty_task = (demo_task 8 (KvArr []))\<lparr>deadline_ns := 1000, estimated_runtime_ns := 300\<rparr>"

definition plain_item :: "nat \<Rightarrow> qhw_ready_task" where
  "plain_item i = \<lparr>rt_desc = plain_task, base_priority = 3, effective_priority = 3, rt_estimated_cost = 1,
     next_refresh_ns = QHW_DEADLINE_BOOST_NEVER, seq = 1, heap_index = i, refresh_heap_index = SIZE_MAX\<rparr>"

definition hasty_item :: qhw_ready_task where
  "hasty_item = \<lparr>rt_desc = hasty_task, base_priority = 0, effective_priority = 0, rt_estimated_cost = 1,
     next_refresh_ns = 700, seq = 2, heap_index = 1, refresh_heap_index = 0\<rparr>"

definition prio_state ::
  "(nat \<Rightarrow> (u64 \<times> ptr) list) \<Rightarrow> u64 \<Rightarrow> ptr list \<Rightarrow> ptr list \<Rightarrow> items \<Rightarrow> (ref_table, ptr list, ptr list) priority_state" where
  "prio_state bucket n heap due A = \<lparr>ps_ready = \<lparr>rq_kind = QHW_READY_QUEUE_HEAP, rq_compare = Some priority_compare,
       rq_flags = 0, rq_fifo = [], rq_heap = Some heap, rq_by_id = \<lparr>rt_size = 4096, rt_bucket = bucket\<rparr>, rq_next_seq = n\<rparr>,
     ps_refresh = \<lparr>dr_heap = due\<rparr>, ps_items = A,
     ps_boost = qhw_deadline_boost_config_init\<lparr>boost_enabled := True\<rparr>,
     ps_split_config = qhw_sched_split_config_init, ps_now_ns = 0, ps_use_static_now = False\<rparr>"

definition prio_empty :: "(ref_table, ptr list, ptr list) priority_state" where
  "prio_empty = prio_state (\<lambda>_. []) 1 [] [] arena_empty"

definition prio_one :: "(ref_table, ptr list, ptr list) priority_state" where
  "prio_one = prio_state ((\<lambda>_. [])(7 := [(7, 0)])) 2 [0] [] \<lparr>cells = [0 \<mapsto> plain_item 0], brk = 1\<rparr>"

definition prio_two :: "(ref_table, ptr list, ptr list) priority_state" where
  "prio_two = prio_state ((\<lambda>_. [])(7 := [(7, 0)], 8 := [(8, 1)])) 3 [0, 1] [1]
     \<lparr>cells = [0 \<mapsto> plain_item 0, 1 \<mapsto> hasty_item], brk = 2\<rparr>"

definition clock_at :: "u64 \<Rightarrow> u64 list \<Rightarrow> env" where
  "clock_at now rest = demo_env\<lparr>env_clock := \<lparr>ck_supported = True, ck_last = now, ck_coming = rest\<rparr>\<rparr>"

lemmas prio_init_eval = priority_init_def qhw_sched_split_config_parse_options_def
  qhw_deadline_boost_config_parse_options_def parse_now_option_def qhw_ready_queue_init_def
  qhw_deadline_refresh_init_def is_now_option_def rt_init_def env_alloc_def is_split_option_def
  is_deadline_boost_option_def set_deadline_boost_u64_def qhw_deadline_boost_config_init_def Let_def

lemmas prio_submit_eval = priority_on_task_submit_def qhw_ready_queue_insert_def priority_refresh_task_def
  qhw_deadline_refresh_remove_def qhw_deadline_refresh_insert_def
  qhw_ready_queue_find_def priority_now_ns_def now_ns_reading clock_advance_def SIZE_MAX_def
  rt_find_def rt_slot_def rt_insert_def arena_alloc_def arena_empty_def
  new_ready_task_def ready_heap_compare_def ready_heap_update_index_def ra_push_def ra_updates_def items_compare_def priority_compare_def
  item_write_def Let_def

lemma prio_create: "priority_init ref_ds boost_options boost_env = Some (QHW_SCHED_OK, Some prio_empty, boost_env)"
  by (simp add: prio_init_eval prio_empty_def prio_state_def boost_options_def boost_env_def demo_env_def)

lemma prio_submit_plain: "priority_on_task_submit ref_ds (Some prio_empty) plain_task boost_env =
   Some (QHW_SCHED_OK, Some prio_one, clock_at 650 [0, 750])"
  by (simp add: prio_submit_eval prio_empty_def prio_one_def prio_state_def plain_task_def plain_item_def demo_task_def boost_env_def
      clock_at_def demo_env_def qhw_deadline_boost_compute_def)

lemma hasty_boost:
  "qhw_deadline_boost_compute (qhw_deadline_boost_config_init\<lparr>boost_enabled := True\<rparr>) 0 1000 300 650 =
     (QHW_SCHED_OK, \<lparr>br_effective_priority = 0, br_next_refresh_ns = 700, br_tier = QHW_DEADLINE_BOOST_NONE\<rparr>)"
  "qhw_deadline_boost_compute (qhw_deadline_boost_config_init\<lparr>boost_enabled := True\<rparr>) 0 1000 300 750 =
     (QHW_SCHED_OK, \<lparr>br_effective_priority = 10, br_next_refresh_ns = 850, br_tier = QHW_DEADLINE_BOOST_NORMAL\<rparr>)"
  by code_simp+

lemma hasty_insert: "qhw_ready_queue_insert ref_ds (ps_ready prio_one) (ps_items prio_one) hasty_task [] =
   Some (QHW_SCHED_OK, ps_ready prio_two, \<lparr>cells = [0 \<mapsto> plain_item 0, 1 \<mapsto> hasty_item\<lparr>next_refresh_ns := QHW_DEADLINE_BOOST_NEVER,
     refresh_heap_index := SIZE_MAX\<rparr>], brk = 2\<rparr>, [])"
  by (simp add: prio_submit_eval prio_one_def prio_two_def prio_state_def plain_task_def plain_item_def hasty_task_def hasty_item_def
      demo_task_def clock_at_def demo_env_def)

lemma hasty_refresh: "priority_refresh_task ref_ds (prio_one\<lparr>ps_ready := ps_ready prio_two, ps_items :=
     \<lparr>cells = [0 \<mapsto> plain_item 0, 1 \<mapsto> hasty_item\<lparr>next_refresh_ns := QHW_DEADLINE_BOOST_NEVER,
     refresh_heap_index := SIZE_MAX\<rparr>], brk = 2\<rparr>\<rparr>) 1 (clock_at 650 [0, 750]) = Some (QHW_SCHED_OK, prio_two, clock_at 650 [750])"
  by (simp add: prio_submit_eval hasty_boost prio_one_def prio_two_def prio_state_def plain_task_def plain_item_def hasty_task_def hasty_item_def
      demo_task_def clock_at_def demo_env_def refresh_update_index_def UINT64_MAX_def)

lemma clock_at_sel [simp]:
  "env_mem (clock_at now rest) = []" "(clock_at now rest)\<lparr>env_mem := []\<rparr> = clock_at now rest"
  "env_clock (clock_at now rest) = \<lparr>ck_supported = True, ck_last = now, ck_coming = rest\<rparr>"
  by (simp_all add: clock_at_def demo_env_def)

lemma hasty_task_id: "task_id hasty_task = 8"
  by (simp add: hasty_task_def demo_task_def)

lemma hasty_find: "qhw_ready_queue_find ref_ds (ps_ready prio_two) (task_id hasty_task) = Some 1"
  by (simp add: qhw_ready_queue_find_def prio_two_def prio_state_def rt_find_def rt_slot_def hasty_task_def demo_task_def)

lemma prio_submit_hasty: "priority_on_task_submit ref_ds (Some prio_one) hasty_task (clock_at 650 [0, 750]) =
   Some (QHW_SCHED_OK, Some prio_two, clock_at 650 [750])"
  unfolding priority_on_task_submit_def option.case clock_at_sel hasty_insert
  by (simp add: hasty_find hasty_refresh [simplified] Let_def)

lemma prio_select: "map_option (\<lambda>(rc, a, s, e). (rc, as_task_id a))
    (priority_select_next ref_ds (Some prio_two) zero_assignment (clock_at 650 [750])) = Some (QHW_SCHED_OK, 8)"
  by (simp add: priority_select_next_def priority_refresh_expired_def priority_refresh_loop.simps qhw_deadline_refresh_pop_expired_def
     qhw_ready_queue_peek_def qhw_ready_queue_pop_def qhw_ready_queue_reorder_def ready_take_def rt_remove_def arena_free_def
     ra_reheapify_at_def ra_remove_at_def zero_assignment_def
     prio_submit_eval hasty_boost prio_two_def prio_state_def plain_task_def plain_item_def hasty_task_def hasty_item_def
      demo_task_def clock_at_def demo_env_def refresh_update_index_def UINT64_MAX_def)

lemma prio_refresh_run: "succeeds (priority_refresh_expired ref_ds prio_two (clock_at 650 [750])) (\<lambda>(rc, s', e'). rc = QHW_SCHED_OK)"
  by (simp add: priority_refresh_expired_def priority_refresh_loop.simps qhw_deadline_refresh_pop_expired_def
     qhw_ready_queue_reorder_def ra_reheapify_at_def ra_remove_at_def
     prio_submit_eval hasty_boost prio_two_def prio_state_def plain_task_def plain_item_def hasty_task_def hasty_item_def
     demo_task_def clock_at_def demo_env_def refresh_update_index_def UINT64_MAX_def)

lemmas ref_structures = ref.datastructures_axioms

context datastructures
begin

lemma priority_submitted:
  assumes "priority_inv D G s" "priority_fresh G s (env_clock e)"
    and "priority_on_task_submit D (Some s) task e = Some (rc, Some s', e')"
  shows "priority_inv D G s' \<and> priority_fresh G s' (env_clock e') \<and> ps_boost s' = ps_boost s"
proof -
  have "prio.policy_ok s" using assms(1) by simp
  from prio.submit_ok [OF this, of task e] show ?thesis using assms prio.as_before_rest [of s s'] by simp
qed

end

lemma prio_empty_ok: "priority_inv ref_ds ref_ghost prio_empty" "priority_fresh ref_ghost prio_empty (env_clock boost_env)"
  "boost_config_ok (ps_boost prio_empty)"
  using datastructures.priority_init_ok [OF ref_structures, of boost_options boost_env "env_clock boost_env"]
  by (simp_all add: prio_create)

lemma prio_one_ok: "priority_inv ref_ds ref_ghost prio_one" "priority_fresh ref_ghost prio_one (env_clock (clock_at 650 [0, 750]))"
  using datastructures.priority_submitted [OF ref_structures prio_empty_ok(1,2) prio_submit_plain] by blast+

lemma prio_two_ok: "priority_inv ref_ds ref_ghost prio_two" "priority_fresh ref_ghost prio_two (env_clock (clock_at 650 [750]))"
  using datastructures.priority_submitted [OF ref_structures prio_one_ok prio_submit_hasty] by blast+

lemma prio_boost: "boost_config_ok (ps_boost prio_two)"
  using prio_empty_ok(3) by (simp add: prio_empty_def prio_two_def prio_state_def)

lemma prio_reading:
  "priority_now_ns prio_two (env_clock (clock_at 650 [750])) = (750, \<lparr>ck_supported = True, ck_last = 750, ck_coming = []\<rparr>)"
  "(750 :: u64) < QHW_DEADLINE_BOOST_NEVER"
  by (simp_all add: priority_now_ns_def prio_two_def prio_state_def now_ns_reading clock_advance_def UINT64_MAX_def)

lemma prio_select_run: "succeeds (priority_select_next ref_ds (Some prio_two) zero_assignment (clock_at 650 [750]))
   (\<lambda>(rc, a, st, e'). rc = QHW_SCHED_OK \<and> as_task_id a = 8)"
  using prio_select by (auto simp: succeeds_iff)

text \<open>
  A run of the round-robin policy: tasks 7 and 8 belong to job 5 and task 9 to no job, so they form two groups.
\<close>

definition job_task :: "u64 \<Rightarrow> u64 \<Rightarrow> qhw_sched_task_desc" where
  "job_task tid job = (demo_task tid (KvArr []))\<lparr>job_id := job\<rparr>"

definition rr_state_of ::
  "(nat \<Rightarrow> (u64 \<times> ptr) list) \<Rightarrow> (nat \<Rightarrow> (u64 \<times> ptr) list) \<Rightarrow> (nat \<Rightarrow> (u64 \<times> ptr) list) \<Rightarrow> ptr list \<Rightarrow>
   ptr list rr_group arena \<Rightarrow> rr_task arena \<Rightarrow> (ref_table, ptr list) rr_state" where
  "rr_state_of jobs own ids active gs ts = \<lparr>rs_groups = \<lparr>reservation_groups = \<lparr>rt_size = 4096, rt_bucket = (\<lambda>_. [])\<rparr>,
       job_groups = \<lparr>rt_size = 4096, rt_bucket = jobs\<rparr>, task_groups = \<lparr>rt_size = 4096, rt_bucket = own\<rparr>\<rparr>,
     rs_tasks = \<lparr>rt_size = 4096, rt_bucket = ids\<rparr>, rs_active = active, rs_split_config = qhw_sched_split_config_init,
     rs_group_store = gs, rs_task_store = ts\<rparr>"

definition job_group :: "ptr list \<Rightarrow> u64 \<Rightarrow> ptr list rr_group" where
  "job_group ps n = \<lparr>rg_key = \<lparr>gk_kind = QHW_GROUP_JOB, gk_id = 5\<rparr>, rg_ready = ps, rg_ready_count = n\<rparr>"

definition rr_empty :: "(ref_table, ptr list) rr_state" where
  "rr_empty = rr_state_of (\<lambda>_. []) (\<lambda>_. []) (\<lambda>_. []) [] arena_empty arena_empty"

definition rr_one :: "(ref_table, ptr list) rr_state" where
  "rr_one = rr_state_of ((\<lambda>_. [])(5 := [(5, 0)])) (\<lambda>_. []) ((\<lambda>_. [])(7 := [(7, 0)])) [0]
     \<lparr>cells = [0 \<mapsto> job_group [0] 1], brk = 1\<rparr> \<lparr>cells = [0 \<mapsto> \<lparr>rk_desc = job_task 7 5, rk_group = 0\<rparr>], brk = 1\<rparr>"

definition rr_two :: "(ref_table, ptr list) rr_state" where
  "rr_two = rr_state_of ((\<lambda>_. [])(5 := [(5, 0)])) (\<lambda>_. []) ((\<lambda>_. [])(7 := [(7, 0)], 8 := [(8, 1)])) [0]
     \<lparr>cells = [0 \<mapsto> job_group [0, 1] 2], brk = 1\<rparr>
     \<lparr>cells = [0 \<mapsto> \<lparr>rk_desc = job_task 7 5, rk_group = 0\<rparr>, 1 \<mapsto> \<lparr>rk_desc = job_task 8 5, rk_group = 0\<rparr>], brk = 2\<rparr>"

definition rr_three :: "(ref_table, ptr list) rr_state" where
  "rr_three = rr_state_of ((\<lambda>_. [])(5 := [(5, 0)])) ((\<lambda>_. [])(9 := [(9, 1)]))
     ((\<lambda>_. [])(7 := [(7, 0)], 8 := [(8, 1)], 9 := [(9, 2)])) [0, 1]
     \<lparr>cells = [0 \<mapsto> job_group [0, 1] 2, 1 \<mapsto> \<lparr>rg_key = \<lparr>gk_kind = QHW_GROUP_TASK, gk_id = 9\<rparr>, rg_ready = [2], rg_ready_count = 1\<rparr>], brk = 2\<rparr>
     \<lparr>cells = [0 \<mapsto> \<lparr>rk_desc = job_task 7 5, rk_group = 0\<rparr>, 1 \<mapsto> \<lparr>rk_desc = job_task 8 5, rk_group = 0\<rparr>,
       2 \<mapsto> \<lparr>rk_desc = job_task 9 0, rk_group = 1\<rparr>], brk = 3\<rparr>"

lemmas rr_submit_eval = rr_on_task_submit_def rr_group_get_def rr_group_find_def rr_group_create_def qhw_group_map_find_def
  qhw_group_map_insert_def group_map_table_def group_map_put_def qhw_group_key_from_task_def env_alloc_def arena_alloc_def
  arena_put_def arena_empty_def rr_state_of_def job_task_def demo_task_def demo_env_def job_group_def
  rt_find_def rt_slot_def rt_insert_def Let_def

lemma rr_create: "rr_init ref_ds (KvArr []) demo_env = Some (QHW_SCHED_OK, Some rr_empty, demo_env)"
  by (simp add: rr_init_def qhw_group_map_init_def slot_init_def slot_table_def group_slots_map_def rt_init_def env_alloc_def qhw_sched_split_config_parse_options_def
      rr_empty_def rr_state_of_def demo_env_def Let_def)

lemma rr_submit_7: "rr_on_task_submit ref_ds (Some rr_empty) (job_task 7 5) demo_env = Some (QHW_SCHED_OK, Some rr_one, demo_env)"
  by (simp add: rr_submit_eval rr_empty_def rr_one_def)

lemma rr_submit_8: "rr_on_task_submit ref_ds (Some rr_one) (job_task 8 5) demo_env = Some (QHW_SCHED_OK, Some rr_two, demo_env)"
  by (simp add: rr_submit_eval rr_one_def rr_two_def)

lemma rr_submit_9: "rr_on_task_submit ref_ds (Some rr_two) (job_task 9 0) demo_env = Some (QHW_SCHED_OK, Some rr_three, demo_env)"
  by (simp add: rr_submit_eval rr_two_def rr_three_def)

lemma rr_empty_ok: "rr_inv ref_ds ref_ghost rr_empty"
  using datastructures.rr_init_ok [OF ref_structures, of "KvArr []" demo_env] by (simp add: rr_create)

lemma rr_submitted:
  assumes "rr_inv ref_ds ref_ghost s" "task_id task \<noteq> 0" "rr_on_task_submit ref_ds (Some s) task e = Some (rc, Some s', e')"
  shows "rr_inv ref_ds ref_ghost s'"
  using datastructures.rr_submit_ok [OF ref_structures assms(1,2), of e] assms(3) by simp

lemma job_task_id [simp]: "task_id (job_task tid job) = tid"
  by (simp add: job_task_def demo_task_def)

lemma rr_three_ok: "rr_inv ref_ds ref_ghost rr_three"
  by (rule rr_submitted [OF rr_submitted [OF rr_submitted [OF rr_empty_ok _ rr_submit_7] _ rr_submit_8] _ rr_submit_9]) simp_all

lemma rr_three_queue: "rr_queue ref_ghost rr_three =
   [(\<lparr>gk_kind = QHW_GROUP_JOB, gk_id = 5\<rparr>, [7, 8]), (\<lparr>gk_kind = QHW_GROUP_TASK, gk_id = 9\<rparr>, [9])]"
  by (simp add: rr_queue_def rr_view_def rr_ids_def rr_three_def rr_state_of_def job_group_def ref_ghost_def)

end
