(* ===== verification/Policy_Properties.thy ===== *)
theory Policy_Properties
  imports Policy_Demo Order_Key
begin

section \<open>Properties of the policies\<close>

text \<open>
  The priority and the round-robin policy against their specifications, and the bundled policies against the
  interface of the scheduler core. The hypothesis \<^verbatim>\<open>datastructures D G\<close> states the laws of the external hash table,
  list and heap; the witnesses use the reference structures of \<^verbatim>\<open>Ref_Structures\<close>.
\<close>

subsection \<open>The plugin interface\<close>

text \<open>
  C22: The FIFO, the priority and the round-robin plugin conform to the policy interface: their descriptors are
  accepted in both threading modes, and their callbacks keep the contract the scheduler core relies on, so every
  property of the core holds with each of them.
\<close>

theorem bundled_policies_conform:
  assumes "datastructures D G"
  shows "policy_plugin (fifo_desc D) (fifo_inv D G) (fifo_ready D) \<and>
    policy_plugin (priority_desc D) (priority_inv D G) (priority_ready D) \<and>
    policy_plugin (rr_desc D) (rr_inv D G) (rr_ready D) \<and>
    (\<forall>mode \<in> {QHW_SCHED_THREAD_SAFE, QHW_SCHED_THREAD_USER}.
       validate_plugin_desc mode (Some (fifo_desc D)) = QHW_SCHED_OK \<and>
       validate_plugin_desc mode (Some (priority_desc D)) = QHW_SCHED_OK \<and>
       validate_plugin_desc mode (Some (rr_desc D)) = QHW_SCHED_OK)"
  using datastructures.fifo_policy [OF assms] datastructures.priority_policy [OF assms] datastructures.rr_policy [OF assms]
  by (auto simp: validate_plugin_desc_def fifo_desc_def priority_desc_def rr_desc_def threading_to_plugin_flag_def)

theorem bundled_policies_conform_witness:
  "policy_plugin (priority_desc ref_ds) (priority_inv ref_ds ref_ghost) (priority_ready ref_ds) \<and>
   validate_plugin_desc QHW_SCHED_THREAD_SAFE (Some (rr_desc ref_ds)) = QHW_SCHED_OK"
  using bundled_policies_conform [OF ref_structures] by blast

subsection \<open>Priority policy\<close>

definition boosted_priority :: "('h, 'l, 'q) ds \<Rightarrow> ('h, 'l, 'q) priority_state \<Rightarrow> u64 \<Rightarrow> u64 \<Rightarrow> int" where
  "boosted_priority D s k now =
     sint (br_effective_priority (boost_at (ps_boost s) (the (priority_tasks D s k)) now))"

text \<open>
  The task \<^verbatim>\<open>k\<close> comes first when every ready task \<^verbatim>\<open>j\<close> has its boosted priority of the time \<^verbatim>\<open>at j\<close>: no other has a
  higher priority, and none of equal priority was submitted before it.
\<close>

definition comes_first ::
  "('h, 'l, 'q) ds \<Rightarrow> ('h, 'l, 'q) priority_state \<Rightarrow> (u64 \<Rightarrow> u64) \<Rightarrow> u64 \<Rightarrow> bool" where
  "comes_first D s at k \<longleftrightarrow> k \<in> dom (priority_tasks D s) \<and>
     (\<forall>j \<in> dom (priority_tasks D s). boosted_priority D s j (at j) < boosted_priority D s k (at k) \<or>
        boosted_priority D s j (at j) = boosted_priority D s k (at k) \<and>
        seq (the (priority_tasks D s k)) \<le> seq (the (priority_tasks D s j)))"

lemma priority_compare_le:
  "priority_compare t u \<le> 0 \<Longrightarrow> sint (effective_priority u) < sint (effective_priority t) \<or>
     sint (effective_priority u) = sint (effective_priority t) \<and> seq t \<le> seq u"
  by (auto simp: priority_compare_def split: if_splits)

lemma boost_at_bare: "boost_at config (bare t) now = boost_at config t now"
  by (simp add: boost_at_def bare_def)

text \<open>The items in the refresh heap whose refresh is due at the time \<^verbatim>\<open>now\<close>.\<close>

definition priority_due :: "('h, 'l, 'q) ghost \<Rightarrow> ('h, 'l, 'q) priority_state \<Rightarrow> u64 \<Rightarrow> ptr set" where
  "priority_due G s now = {p \<in> pending G (ps_refresh s). \<exists>t. look (ps_items s) p = Some t \<and> next_refresh_ns t \<le> now}"

lemma prio_two_due: "1 \<in> priority_due ref_ghost prio_two 750"
  by (simp add: priority_due_def pending_def prio_two_def prio_state_def look_def hasty_item_def core_def ref_ghost_def)

context datastructures
begin

lemma chosen_first:
  assumes ch: "prio.chosen s T k" and within: "\<And>j t. T j = Some t \<Longrightarrow> boosted_within (ps_boost s) lo hi t" and lo: "lo \<le> hi"
  shows "\<exists>at. (\<forall>j. lo \<le> at j \<and> at j \<le> hi) \<and> comes_first D s at k"
proof -
  have bare: "map_option bare (T j) = priority_tasks D s j" for j using ch by (simp add: prio.chosen_def)
  have dom: "j \<in> dom (priority_tasks D s) \<longleftrightarrow> T j \<noteq> None" for j using bare [of j] by (auto simp: dom_def) (metis option.map_disc_iff)
  have "\<exists>a. lo \<le> a \<and> a \<le> hi \<and> (\<forall>t. T j = Some t \<longrightarrow> effective_priority t = br_effective_priority (boost_at (ps_boost s) t a))" for j
    using within [of j] lo by (cases "T j") (auto simp: boosted_within_def)
  then obtain at where at: "\<And>j. lo \<le> at j \<and> at j \<le> hi"
    "\<And>j t. T j = Some t \<Longrightarrow> effective_priority t = br_effective_priority (boost_at (ps_boost s) t (at j))" by metis
  have eff: "sint (effective_priority t) = boosted_priority D s j (at j) \<and> seq t = seq (the (priority_tasks D s j))"
    if "T j = Some t" for j t
  proof -
    have "priority_tasks D s j = Some (bare t)" using bare [of j] that by simp
    moreover have "seq (bare t) = seq t" by (simp add: bare_def)
    ultimately show ?thesis using at(2) [OF that] by (simp add: boosted_priority_def boost_at_bare)
  qed
  obtain t where t: "T k = Some t" "\<And>j u. T j = Some u \<Longrightarrow> priority_compare t u \<le> 0"
    using ch by (auto simp: prio.chosen_def priority_cmp_def)
  have "comes_first D s at k"
    unfolding comes_first_def
  proof (intro conjI ballI)
    show "k \<in> dom (priority_tasks D s)" using dom t(1) by simp
    fix j
    assume "j \<in> dom (priority_tasks D s)"
    then obtain u where u: "T j = Some u" using dom by auto
    from priority_compare_le [OF t(2) [OF u]] eff [OF u] eff [OF t(1)]
    show "boosted_priority D s j (at j) < boosted_priority D s k (at k) \<or>
        boosted_priority D s j (at j) = boosted_priority D s k (at k) \<and>
        seq (the (priority_tasks D s k)) \<le> seq (the (priority_tasks D s j))" by simp
  qed
  then show ?thesis using at(1) by blast
qed

lemma priority_best:
  assumes inv: "priority_inv D G s" and fresh: "priority_fresh G s (env_clock e)" and config: "boost_config_ok (ps_boost s)"
    and now: "priority_now_ns s (env_clock e) = (now, c)" "now < QHW_DEADLINE_BOOST_NEVER"
  shows "succeeds (priority_select_next D (Some s) a e) (\<lambda>(rc, a', st, e').
    (rc = QHW_SCHED_OK \<longrightarrow> (\<exists>at. (\<forall>j. now \<le> at j \<and> at j \<le> priority_floor s (env_clock e')) \<and> comes_first D s at (as_task_id a'))) \<and>
    (rc \<noteq> QHW_SCHED_ERR_NO_MEMORY \<longrightarrow> (\<exists>s'. st = Some s' \<and> priority_fresh G s' (env_clock e'))))"
proof -
  have ok: "prio.policy_ok s" using inv by simp
  from prio.select_ok [OF ok now(1), of a] obtain rc a' s' e' where
    call: "priority_select_next D (Some s) a e = Some (rc, a', Some s', e')"
    and fr: "rc \<noteq> QHW_SCHED_ERR_NO_MEMORY \<Longrightarrow> priority_fresh G s' (env_clock e')"
    and T: "rc = QHW_SCHED_OK \<Longrightarrow> \<exists>T. prio.chosen s T (as_task_id a') \<and>
      (\<forall>j t. T j = Some t \<longrightarrow> boosted_within (ps_boost s) now (priority_floor s (env_clock e')) t)"
    unfolding prio_policy_ok prio_tasks prio_fresh using fresh config now(2) by (elim succeeds4E) blast
  have "\<exists>at. (\<forall>j. now \<le> at j \<and> at j \<le> priority_floor s (env_clock e')) \<and> comes_first D s at (as_task_id a')"
    if rc: "rc = QHW_SCHED_OK"
  proof -
    obtain T where T': "prio.chosen s T (as_task_id a')"
      "\<And>j t. T j = Some t \<Longrightarrow> boosted_within (ps_boost s) now (priority_floor s (env_clock e')) t" using T [OF rc] by blast
    obtain t where "T (as_task_id a') = Some t" using T'(1) by (auto simp: prio.chosen_def)
    then have "now \<le> priority_floor s (env_clock e')" using T'(2) order_trans by (fastforce simp: boosted_within_def)
    then show ?thesis using chosen_first [OF T'(1)] T'(2) by blast
  qed
  then show ?thesis using call fr by simp
qed

lemma priority_map_ok:
  assumes "priority_inv D G s"
  shows "succeeds (priority_on_task_submit D (Some s) task e) (\<lambda>(rc, st, e'). \<exists>s'. st = Some s' \<and> priority_inv D G s' \<and>
      priority_tasks D s' = (if rc = QHW_SCHED_OK
        then (priority_tasks D s)(task_id task \<mapsto> bare (core (new_ready_task (ps_ready s) (heap_invalid_index D) task)))
        else priority_tasks D s)) \<and>
    succeeds (priority_select_next D (Some s) a e) (\<lambda>(rc, a', st, e'). \<exists>s'. st = Some s' \<and> priority_inv D G s' \<and>
      (rc = QHW_SCHED_ERR_NOT_FOUND \<longrightarrow> priority_tasks D s = Map.empty) \<and>
      priority_tasks D s' = (if rc = QHW_SCHED_OK then (priority_tasks D s)(as_task_id a' := None) else priority_tasks D s)) \<and>
    succeeds (priority_on_task_finished D (Some s) tid ts e) (\<lambda>(rc, st, e'). \<exists>s'. st = Some s' \<and> priority_inv D G s' \<and>
      rc = QHW_SCHED_OK \<and> priority_tasks D s' = (priority_tasks D s)(tid := None)) \<and>
    succeeds (priority_on_task_priority_changed D (Some s) tid v e) (\<lambda>(rc, st, e'). \<exists>s'. st = Some s' \<and> priority_inv D G s' \<and>
      (rc = QHW_SCHED_ERR_NOT_FOUND \<longleftrightarrow> priority_tasks D s tid = None) \<and>
      priority_tasks D s' = (if rc = QHW_SCHED_OK
        then (priority_tasks D s)(tid \<mapsto> (the (priority_tasks D s tid))\<lparr>base_priority := v\<rparr>) else priority_tasks D s))"
  (is "?sub \<and> ?sel \<and> ?fin \<and> ?chg")
proof -
  have ok: "prio.policy_ok s" using assms by simp
  obtain now c where read: "priority_now_ns s (env_clock e) = (now, c)" by force
  have ?sub by (rule succeeds_mono [OF prio.submit_ok [OF ok]]) auto
  moreover have ?sel by (rule succeeds_mono [OF prio.select_ok [OF ok read]]) auto
  moreover have ?fin by (rule succeeds_mono [OF prio.finished_ok [OF ok]]) auto
  moreover have ?chg by (rule succeeds_mono [OF prio.changed_ok [OF ok]]) auto
  ultimately show ?thesis by blast
qed

lemma priority_refresh_ends_ok:
  assumes inv: "priority_inv D G s" and now: "priority_now_ns s (env_clock e) = (now, c)"
  shows "succeeds (priority_refresh_expired D s e) (\<lambda>(rc, s', e'). priority_inv D G s' \<and>
    priority_tasks D s' = priority_tasks D s \<and> rc \<in> {QHW_SCHED_OK, QHW_SCHED_ERR_NO_MEMORY} \<and>
    (\<exists>X at. X \<subseteq> priority_due G s now \<and> (rc = QHW_SCHED_OK \<longrightarrow> X = priority_due G s now) \<and>
      (\<forall>p \<in> X. now \<le> at p \<and> at p \<le> priority_floor s (env_clock e')) \<and>
      (\<forall>p. look (ps_items s') p =
        (if p \<in> X then map_option (boosted_item (ps_boost s) (at p)) (look (ps_items s) p) else look (ps_items s) p))) \<and>
    (rc = QHW_SCHED_OK \<longrightarrow> priority_due G s' now = {} \<and>
      pending G (ps_refresh s') = {p \<in> pending G (ps_refresh s). p \<in> priority_due G s now \<longrightarrow>
        (\<exists>t. look (ps_items s') p = Some t \<and> next_refresh_ns t \<noteq> QHW_DEADLINE_BOOST_NEVER)} \<and>
      (priority_fresh G s (env_clock e) \<longrightarrow> priority_fresh G s' (env_clock e') \<and>
        (boost_config_ok (ps_boost s) \<and> now < QHW_DEADLINE_BOOST_NEVER \<longrightarrow> (\<forall>p \<in> set (rq_elems G (ps_ready s')).
          \<exists>t. look (ps_items s') p = Some t \<and> boosted_within (ps_boost s) now (priority_floor s (env_clock e')) t)))))"
proof -
  let ?e = "e\<lparr>env_clock := c\<rparr>"
  have ok: "prio.policy_ok s" using inv by simp
  note rd = priority_reading [OF now]
  have fl: "now \<le> priority_floor s (env_clock ?e)" using rd by simp
  have fr: "prio.fresh s (env_clock ?e)" if "priority_fresh G s (env_clock e)"
    using that rd timely_mono [OF _ conjunct1 [OF rd]] by (auto simp: priority_fresh_def)
  have due: "prio.due now x = priority_due G x now" for x by (simp add: prio.due_def prio.waiting_def priority_due_def)
  obtain rc s' e' where run: "priority_refresh_loop D now s ?e = Some (rc, s', e')"
    and r: "prio.refreshes s ?e s' e'" "rc \<in> {QHW_SCHED_OK, QHW_SCHED_ERR_NO_MEMORY}"
      "rc = QHW_SCHED_OK \<Longrightarrow> prio.due now s' = {}"
      "rc = QHW_SCHED_OK \<Longrightarrow> prio.fresh s (env_clock ?e) \<Longrightarrow> prio.fresh s' (env_clock e')"
    using prio.refresh_loop_ok [OF ok fl] by (elim succeeds3E) blast
  have x: "priority_floor s (env_clock ?e) \<le> priority_floor s (env_clock e')" "prio.caught_up now s rc s' e'"
    using prio.refresh_loop_exact [OF ok fl] run by simp_all
  have kept: "priority_inv D G s'" "priority_tasks D s' = priority_tasks D s"
    using prio.refreshes_ok [OF r(1)] prio.refreshes_tasks [OF r(1)] by simp_all
  have rest: "ps_boost s' = ps_boost s" "priority_floor s' = priority_floor s"
    using prio.keep_rest [OF conjunct1 [OF r(1) [unfolded prio.refreshes_def]]] by blast+
  obtain X at where X: "X \<subseteq> priority_due G s now" "\<forall>p \<in> X. now \<le> at p \<and> at p \<le> priority_floor s (env_clock e')"
    "prio.recomputed X at s s'"
    "rc = QHW_SCHED_OK \<Longrightarrow> X = priority_due G s now \<and> prio.waiting s' = {p \<in> prio.waiting s. p \<in> X \<longrightarrow> prio.needs_refresh s' p}"
    using x(2) unfolding prio.caught_up_def due by blast
  have right: "\<exists>t. look (ps_items s') p = Some t \<and> boosted_within (ps_boost s) now (priority_floor s (env_clock e')) t"
    if "rc = QHW_SCHED_OK" "priority_fresh G s (env_clock e)" "boost_config_ok (ps_boost s)" "now < QHW_DEADLINE_BOOST_NEVER"
      "p \<in> set (rq_elems G (ps_ready s'))" for p
    using prio.refreshed_within [OF r(4) [OF that(1) fr [OF that(2)]] r(3) [OF that(1)], of p] that(3-5) x(1) fl
    by (simp add: rest prio.elems_def)
  have "(\<exists>X at. X \<subseteq> priority_due G s now \<and> (rc = QHW_SCHED_OK \<longrightarrow> X = priority_due G s now) \<and>
      (\<forall>p \<in> X. now \<le> at p \<and> at p \<le> priority_floor s (env_clock e')) \<and>
      (\<forall>p. look (ps_items s') p =
        (if p \<in> X then map_option (boosted_item (ps_boost s) (at p)) (look (ps_items s) p) else look (ps_items s) p)))"
    using X(1,2,4) X(3) [unfolded prio.recomputed_def] by (intro exI [of _ X] exI [of _ at]) blast
  moreover have "pending G (ps_refresh s') = {p \<in> pending G (ps_refresh s). p \<in> priority_due G s now \<longrightarrow>
        (\<exists>t. look (ps_items s') p = Some t \<and> next_refresh_ns t \<noteq> QHW_DEADLINE_BOOST_NEVER)}" if "rc = QHW_SCHED_OK"
    using X(4) [OF that] by (simp add: prio.waiting_def prio.needs_refresh_def)
  moreover have "priority_due G s' now = {}" if "rc = QHW_SCHED_OK" using r(3) [OF that] by (simp add: due)
  moreover have "priority_fresh G s' (env_clock e')" if "rc = QHW_SCHED_OK" "priority_fresh G s (env_clock e)"
    using r(4) [OF that(1) fr [OF that(2)]] by simp
  moreover have "priority_refresh_expired D s e = Some (rc, s', e')"
    using run by (simp add: priority_refresh_expired_def now)
  ultimately show ?thesis using kept r(2) right by simp
qed

end

text \<open>
  C9: The priority policy selects by the priorities that hold now. In a state whose boosts are fresh, a
  selection that succeeds returns a task such that, with every ready task's priority recomputed at some time between
  the first clock reading of the call and the last, none has a higher priority and none of equal priority is older; so
  keeping boosts and refreshing them when due selects like recomputing all of them. A selection that does not run out
  of memory leaves the boosts fresh.
\<close>

theorem priority_selects_best:
  assumes "datastructures D G" "priority_inv D G s" "priority_fresh G s (env_clock e)" "boost_config_ok (ps_boost s)"
    and "priority_now_ns s (env_clock e) = (now, c)" "now < QHW_DEADLINE_BOOST_NEVER"
  shows "succeeds (priority_select_next D (Some s) a e) (\<lambda>(rc, a', st, e').
    (rc = QHW_SCHED_OK \<longrightarrow> (\<exists>at. (\<forall>j. now \<le> at j \<and> at j \<le> priority_floor s (env_clock e')) \<and> comes_first D s at (as_task_id a'))) \<and>
    (rc \<noteq> QHW_SCHED_ERR_NO_MEMORY \<longrightarrow> (\<exists>s'. st = Some s' \<and> priority_fresh G s' (env_clock e'))))"
  by (rule datastructures.priority_best [OF assms])

theorem priority_selects_best_witness:
  "succeeds (priority_select_next ref_ds (Some prio_two) zero_assignment (clock_at 650 [750])) (\<lambda>(rc, a, st, e').
     rc = QHW_SCHED_OK \<and> as_task_id a = 8 \<and>
     (\<exists>at. (\<forall>j. 750 \<le> at j \<and> at j \<le> priority_floor prio_two (env_clock e')) \<and> comes_first ref_ds prio_two at 8))"
  by (rule succeeds_mono [OF succeeds_conj [OF priority_selects_best [OF ref_structures prio_two_ok prio_boost prio_reading]
        prio_select_run]]) auto

text \<open>
  C11: The priority policy refines a map from identifiers to tasks: a submission adds its task or changes
  nothing, a selection that succeeds takes out the task it returns, a finish report deletes its task, and a priority
  change either updates the base priority of its task alone or leaves the map as it was.
\<close>

theorem priority_refines_map:
  assumes "datastructures D G" "priority_inv D G s"
  shows "succeeds (priority_on_task_submit D (Some s) task e) (\<lambda>(rc, st, e'). \<exists>s'. st = Some s' \<and> priority_inv D G s' \<and>
      priority_tasks D s' = (if rc = QHW_SCHED_OK
        then (priority_tasks D s)(task_id task \<mapsto> bare (core (new_ready_task (ps_ready s) (heap_invalid_index D) task)))
        else priority_tasks D s)) \<and>
    succeeds (priority_select_next D (Some s) a e) (\<lambda>(rc, a', st, e'). \<exists>s'. st = Some s' \<and> priority_inv D G s' \<and>
      (rc = QHW_SCHED_ERR_NOT_FOUND \<longrightarrow> priority_tasks D s = Map.empty) \<and>
      priority_tasks D s' = (if rc = QHW_SCHED_OK then (priority_tasks D s)(as_task_id a' := None) else priority_tasks D s)) \<and>
    succeeds (priority_on_task_finished D (Some s) tid ts e) (\<lambda>(rc, st, e'). \<exists>s'. st = Some s' \<and> priority_inv D G s' \<and>
      rc = QHW_SCHED_OK \<and> priority_tasks D s' = (priority_tasks D s)(tid := None)) \<and>
    succeeds (priority_on_task_priority_changed D (Some s) tid v e) (\<lambda>(rc, st, e'). \<exists>s'. st = Some s' \<and> priority_inv D G s' \<and>
      (rc = QHW_SCHED_ERR_NOT_FOUND \<longleftrightarrow> priority_tasks D s tid = None) \<and>
      priority_tasks D s' = (if rc = QHW_SCHED_OK
        then (priority_tasks D s)(tid \<mapsto> (the (priority_tasks D s tid))\<lparr>base_priority := v\<rparr>) else priority_tasks D s))"
  (is "?sub \<and> ?sel \<and> ?fin \<and> ?chg")
  by (rule datastructures.priority_map_ok [OF assms])

theorem priority_refines_map_witness:
  "succeeds (priority_on_task_submit ref_ds (Some prio_one) hasty_task (clock_at 650 [0, 750])) (\<lambda>(rc, st, e').
     \<exists>s'. st = Some s' \<and> priority_tasks ref_ds s' = (if rc = QHW_SCHED_OK
       then (priority_tasks ref_ds prio_one)(8 \<mapsto> bare (core (new_ready_task (ps_ready prio_one) SIZE_MAX hasty_task)))
       else priority_tasks ref_ds prio_one))"
  by (rule succeeds_mono [OF conjunct1 [OF priority_refines_map [OF ref_structures prio_one_ok(1), where task = hasty_task
      and e = "clock_at 650 [0, 750]"]]]) (auto simp: hasty_task_id)

text \<open>
  C23: Refreshing the due boosts always ends, although every task is boosted with a new clock reading while
  the loop goes on popping what is due at the first one; it answers OK or NO_MEMORY and the ready tasks are those from
  before. Whatever it answers, it computes anew, each at a time of the call, the boosts of tasks whose refresh was due, and
  leaves all others alone. When it answers OK it did so for every task whose refresh was due, puts back exactly those
  that still need a refresh, and no task in the refresh heap is due at the first reading any more; if the boosts were
  fresh before, they are fresh, and every ready task has the priority that is right at some time of the call. Nothing
  of this is claimed for NO_MEMORY, where tasks may remain due.
\<close>

theorem priority_refresh_ends:
  assumes "datastructures D G" "priority_inv D G s" "priority_now_ns s (env_clock e) = (now, c)"
  shows "succeeds (priority_refresh_expired D s e) (\<lambda>(rc, s', e'). priority_inv D G s' \<and>
    priority_tasks D s' = priority_tasks D s \<and> rc \<in> {QHW_SCHED_OK, QHW_SCHED_ERR_NO_MEMORY} \<and>
    (\<exists>X at. X \<subseteq> priority_due G s now \<and> (rc = QHW_SCHED_OK \<longrightarrow> X = priority_due G s now) \<and>
      (\<forall>p \<in> X. now \<le> at p \<and> at p \<le> priority_floor s (env_clock e')) \<and>
      (\<forall>p. look (ps_items s') p =
        (if p \<in> X then map_option (boosted_item (ps_boost s) (at p)) (look (ps_items s) p) else look (ps_items s) p))) \<and>
    (rc = QHW_SCHED_OK \<longrightarrow> priority_due G s' now = {} \<and>
      pending G (ps_refresh s') = {p \<in> pending G (ps_refresh s). p \<in> priority_due G s now \<longrightarrow>
        (\<exists>t. look (ps_items s') p = Some t \<and> next_refresh_ns t \<noteq> QHW_DEADLINE_BOOST_NEVER)} \<and>
      (priority_fresh G s (env_clock e) \<longrightarrow> priority_fresh G s' (env_clock e') \<and>
        (boost_config_ok (ps_boost s) \<and> now < QHW_DEADLINE_BOOST_NEVER \<longrightarrow> (\<forall>p \<in> set (rq_elems G (ps_ready s')).
          \<exists>t. look (ps_items s') p = Some t \<and> boosted_within (ps_boost s) now (priority_floor s (env_clock e')) t)))))"
  by (rule datastructures.priority_refresh_ends_ok [OF assms])

theorem priority_refresh_ends_witness:
  "succeeds (priority_refresh_expired ref_ds prio_two (clock_at 650 [750])) (\<lambda>(rc, s', e').
     rc = QHW_SCHED_OK \<and> priority_tasks ref_ds s' = priority_tasks ref_ds prio_two \<and> priority_due ref_ghost s' 750 = {} \<and>
     (\<exists>at. 750 \<le> at \<and> look (ps_items s') 1 = map_option (boosted_item (ps_boost prio_two) at) (look (ps_items prio_two) 1)) \<and>
     priority_fresh ref_ghost s' (env_clock e') \<and> (\<forall>p \<in> set (rq_elems ref_ghost (ps_ready s')). \<exists>t. look (ps_items s') p = Some t \<and>
       boosted_within (ps_boost prio_two) 750 (priority_floor prio_two (env_clock e')) t))"
  by (rule succeeds_mono [OF succeeds_conj [OF priority_refresh_ends [OF ref_structures prio_two_ok(1) prio_reading(1)] prio_refresh_run]])
    (use prio_two_due prio_two_ok(2) prio_boost prio_reading(2) in auto)

subsection \<open>Round-robin policy\<close>

text \<open>Selecting \<^verbatim>\<open>n\<close> tasks one after the other.\<close>

primrec rr_serve ::
  "('h, 'l, 'q) ds \<Rightarrow> nat \<Rightarrow> ('h, 'l) rr_state \<Rightarrow> env \<Rightarrow> (u64 list \<times> ('h, 'l) rr_state \<times> env) option" where
  "rr_serve D 0 s e = Some ([], s, e)"
| "rr_serve D (Suc n) s e = do {
     (rc, a, st, e) \<leftarrow> rr_select_next D (Some s) zero_assignment e;
     s \<leftarrow> st;
     if rc \<noteq> QHW_SCHED_OK then None
     else do {
       (ks, s, e) \<leftarrow> rr_serve D n s e;
       Some (as_task_id a # ks, s, e)
     }
   }"

definition served_once :: "(qhw_group_key \<times> u64 list) list \<Rightarrow> (qhw_group_key \<times> u64 list) list" where
  "served_once Q = filter (\<lambda>(k, ids). ids \<noteq> []) (map (\<lambda>(k, ids). (k, tl ids)) Q)"

context datastructures
begin

lemma rr_serve_ok:
  "rr_inv D G s \<Longrightarrow> rr_queue G s = P @ R \<Longrightarrow> succeeds (rr_serve D (length P) s e) (\<lambda>(ks, s', e').
     rr_inv D G s' \<and> e' = e \<and> ks = map (\<lambda>(k, ids). hd ids) P \<and> rr_queue G s' = R @ served_once P)"
proof (induction P arbitrary: s e R)
  case Nil
  then show ?case by (simp add: served_once_def)
next
  case (Cons kg P)
  obtain key ids where kg: "kg = (key, ids)" by force
  let ?Q = "if tl ids = [] then P @ R else (P @ R) @ [(key, tl ids)]"
  have next_turn: "turns_next (rr_queue G s) = (Some (hd ids), ?Q)" using Cons.prems(2) kg by simp
  obtain s1 where call: "rr_select_next D (Some s) zero_assignment e =
      Some (QHW_SCHED_OK, zero_assignment\<lparr>as_task_id := hd ids\<rparr>, Some s1, e)"
    and s1: "rr_inv D G s1" "rr_queue G s1 = ?Q"
    using rr_select_ok [OF Cons.prems(1), of zero_assignment e] unfolding next_turn by (elim succeeds4E) auto
  have q: "rr_queue G s1 = P @ (R @ served_once [(key, ids)])" using s1(2) by (auto simp: served_once_def)
  show ?case using Cons.IH [OF s1(1) q, of e] call kg by (elim succeeds3E) (auto simp: served_once_def)
qed

end

text \<open>
  C10: The round-robin policy refines a queue of turns: a submission appends its task to its group, with a new
  group at the end of the queue; a selection takes the oldest task of the group at the front and sends the group to the
  back while it has tasks; a finish report drops its task, and its group with the last one. Failed calls change nothing.
\<close>

theorem rr_refines_turns:
  assumes "datastructures D G" "rr_inv D G s" "task_id task \<noteq> 0"
  shows "succeeds (rr_on_task_submit D (Some s) task e) (\<lambda>(rc, st, e'). \<exists>s'. st = Some s' \<and> rr_inv D G s' \<and>
      (rc = QHW_SCHED_OK \<longrightarrow> task_id task \<notin> rr_ready D s) \<and>
      rr_queue G s' = (if rc = QHW_SCHED_OK
        then turns_submit (qhw_group_key_from_task (Some task)) (task_id task) (rr_queue G s) else rr_queue G s)) \<and>
    succeeds (rr_select_next D (Some s) a e) (\<lambda>(rc, a', st, e'). \<exists>s'. st = Some s' \<and> rr_inv D G s' \<and>
      (if rc = QHW_SCHED_OK then Some (as_task_id a') else None, rr_queue G s') = turns_next (rr_queue G s)) \<and>
    succeeds (rr_on_task_finished D (Some s) tid ts e) (\<lambda>(rc, st, e'). \<exists>s'. st = Some s' \<and> rr_inv D G s' \<and>
      rc = QHW_SCHED_OK \<and> rr_queue G s' = turns_remove tid (rr_queue G s))"
proof (intro conjI)
  show "succeeds (rr_on_task_submit D (Some s) task e) (\<lambda>(rc, st, e'). \<exists>s'. st = Some s' \<and> rr_inv D G s' \<and>
      (rc = QHW_SCHED_OK \<longrightarrow> task_id task \<notin> rr_ready D s) \<and>
      rr_queue G s' = (if rc = QHW_SCHED_OK
        then turns_submit (qhw_group_key_from_task (Some task)) (task_id task) (rr_queue G s) else rr_queue G s))"
    by (rule succeeds_mono [OF datastructures.rr_submit_ok [OF assms]]) auto
  show "succeeds (rr_select_next D (Some s) a e) (\<lambda>(rc, a', st, e'). \<exists>s'. st = Some s' \<and> rr_inv D G s' \<and>
      (if rc = QHW_SCHED_OK then Some (as_task_id a') else None, rr_queue G s') = turns_next (rr_queue G s))"
    by (cases "turns_next (rr_queue G s)", rule succeeds_mono [OF datastructures.rr_select_ok [OF assms(1,2)]])
      (auto split: option.splits)
  show "succeeds (rr_on_task_finished D (Some s) tid ts e) (\<lambda>(rc, st, e'). \<exists>s'. st = Some s' \<and> rr_inv D G s' \<and>
      rc = QHW_SCHED_OK \<and> rr_queue G s' = turns_remove tid (rr_queue G s))"
    by (rule succeeds_mono [OF datastructures.rr_finished_ok [OF assms(1,2)]]) auto
qed

theorem rr_refines_turns_witness:
  "succeeds (rr_select_next ref_ds (Some rr_three) zero_assignment demo_env) (\<lambda>(rc, a, st, e').
     \<exists>s'. st = Some s' \<and> rc = QHW_SCHED_OK \<and> as_task_id a = 7 \<and>
       rr_queue ref_ghost s' = [(\<lparr>gk_kind = QHW_GROUP_TASK, gk_id = 9\<rparr>, [9]), (\<lparr>gk_kind = QHW_GROUP_JOB, gk_id = 5\<rparr>, [8])])"
  using rr_refines_turns [OF ref_structures rr_three_ok, of "job_task 6 0" demo_env zero_assignment 7 QHW_SCHED_TASK_COMPLETED]
  by (auto simp: rr_three_queue job_task_def demo_task_def elim!: succeeds_mono split: if_splits)

text \<open>
  C12: Round robin starves no group: with \<^verbatim>\<open>n\<close> groups holding ready tasks, \<^verbatim>\<open>n\<close> selections in a row all
  succeed and serve every group exactly once, in the order of the queue, each with its oldest task.
\<close>

theorem rr_fair:
  assumes "datastructures D G" "rr_inv D G s"
  shows "succeeds (rr_serve D (length (rr_queue G s)) s e) (\<lambda>(ks, s', e'). rr_inv D G s' \<and>
    ks = map (\<lambda>(k, ids). hd ids) (rr_queue G s) \<and> rr_queue G s' = served_once (rr_queue G s))"
  by (rule succeeds_mono [OF datastructures.rr_serve_ok [OF assms, of "rr_queue G s" "[]" e]]) auto

theorem rr_fair_witness:
  "succeeds (rr_serve ref_ds 2 rr_three demo_env) (\<lambda>(ks, s', e'). ks = [7, 9] \<and>
     rr_queue ref_ghost s' = [(\<lparr>gk_kind = QHW_GROUP_JOB, gk_id = 5\<rparr>, [8])])"
  using rr_fair [OF ref_structures rr_three_ok, of demo_env]
  by (auto simp: rr_three_queue served_once_def numeral_2_eq_2 elim!: succeeds_mono)

subsection \<open>Order keys\<close>

text \<open>
  C31: The configurable comparison is the lexicographic order on the vectors of key ranks ended by the task
  identifier, so it is antisymmetric and ties only a task with itself, and with the default keys it is the comparison of
  the priority policy.
\<close>

theorem order_compare_lexicographic:
  "(qhw_order_compare_groups config l r lt rt < 0 \<longleftrightarrow> order_vector (order_keys config) l lt < order_vector (order_keys config) r rt) \<and>
   (qhw_order_compare_groups config l r lt rt = 0 \<longleftrightarrow>
      map (\<lambda>key. key_rank key l lt) (order_keys config) = map (\<lambda>key. key_rank key r rt) (order_keys config) \<and>
      task_id (rt_desc l) = task_id (rt_desc r)) \<and>
   qhw_order_compare_groups config r l rt lt = - qhw_order_compare_groups config l r lt rt \<and>
   qhw_order_compare qhw_order_config_init l r = priority_compare l r"
proof -
  have "qhw_order_compare qhw_order_config_init l r = priority_compare l r"
    by (simp add: order_compare_vec priority_compare_vec order_vector_def qhw_order_config_init_def key_rank_def)
  moreover have "order_vector ks l lt = order_vector ks r rt \<longleftrightarrow>
      map (\<lambda>key. key_rank key l lt) ks = map (\<lambda>key. key_rank key r rt) ks \<and> task_id (rt_desc l) = task_id (rt_desc r)" for ks
    by (simp add: order_vector_def word_uint_eq_iff)
  moreover have "vec_compare y x = - vec_compare x y" for x y by (auto simp: vec_compare_def)
  ultimately show ?thesis
    unfolding qhw_order_compare_groups_def order_compare_loop_vec vec_compare_simps by blast
qed

text \<open>
  C32: The option parser accepts at most eight order keys, all of them supported, and keeps exactly those of
  the options in their order, or the default keys when there are none; the boost options are parsed as well.
\<close>

theorem order_parse_exact:
  assumes "qhw_order_config_parse_options qhw_order_config_init options = (QHW_SCHED_OK, config)"
  shows "order_keys config = (if given_keys (kv_entries options) = [] then [QHW_SCHED_ORDER_PRIORITY, QHW_SCHED_ORDER_FIFO]
      else given_keys (kv_entries options)) \<and>
    length (order_keys config) \<le> 8 \<and> (\<forall>k \<in> set (order_keys config). order_key_supported k) \<and>
    boost_config_ok (order_boost config)"
proof -
  obtain boost where boost: "qhw_deadline_boost_config_parse_options qhw_deadline_boost_config_init options = (QHW_SCHED_OK, boost)"
    and loop: "order_parse_loop (qhw_order_config_init\<lparr>order_boost := boost\<rparr>) False (kv_entries options) = (QHW_SCHED_OK, config)"
    using assms by (auto simp: qhw_order_config_parse_options_def qhw_order_config_init_def Let_def split: if_splits prod.splits)
  show ?thesis using order_parse_loop_keys [OF loop] boost_parse_ok [OF boost]
    by (auto simp: qhw_order_config_init_def order_key_supported_def)
qed

theorem order_parse_exact_witness:
  "order_keys (snd (qhw_order_config_parse_options qhw_order_config_init
     (KvArr [\<lparr>kv_key = 300, kv_type = 1, kv_flags = 0, kv_bits = QHW_SCHED_ORDER_SJF\<rparr>,
             \<lparr>kv_key = 300, kv_type = 1, kv_flags = 0, kv_bits = QHW_SCHED_ORDER_PRIORITY\<rparr>]))) =
   [QHW_SCHED_ORDER_SJF, QHW_SCHED_ORDER_PRIORITY]"
  using order_parse_exact [of "KvArr [\<lparr>kv_key = 300, kv_type = 1, kv_flags = 0, kv_bits = QHW_SCHED_ORDER_SJF\<rparr>,
             \<lparr>kv_key = 300, kv_type = 1, kv_flags = 0, kv_bits = QHW_SCHED_ORDER_PRIORITY\<rparr>]"]
  by (simp add: qhw_order_config_parse_options_def qhw_deadline_boost_config_parse_options_def parse_order_key_def
      order_config_append_key_def order_key_supported_def is_deadline_boost_option_def qhw_order_config_init_def
      qhw_deadline_boost_config_init_def given_keys_def Let_def)

end
