(* ===== verification/Policy_Ordered.thy ===== *)
theory Policy_Ordered
  imports Boosted_Policy Order_Key Group_Map Sched_Core
begin

section \<open>The ordered policy\<close>

text \<open>
  \<^verbatim>\<open>src/plugins/ordered.c\<close>: ready tasks ordered by a configured list of keys. Without the round-robin key there is one
  ready queue. With it every group of tasks has a ready queue of its own, and a heap holds the groups, compared by their
  first tasks and their tickets. The fields that only one of the two modes sets up are options, \<^verbatim>\<open>None\<close> in the other mode,
  where the C structure holds zeroed memory.
\<close>

abbreviation (input) ORDERED_GROUP_TASK_BUCKETS :: nat where "ORDERED_GROUP_TASK_BUCKETS \<equiv> 4096"

record ('h, 'l, 'q) ordered_group =
  og_key :: qhw_group_key
  og_ready :: "('h, 'l, 'q) qhw_ready_queue"
  og_heap_index :: nat
  og_ticket :: u64

record ordered_task_index =
  oi_group :: ptr

record ('h, 'l, 'q) ordered_state =
  os_order :: qhw_order_config
  os_ready :: "('h, 'l, 'q) qhw_ready_queue option"
  os_refresh :: "'q qhw_deadline_refresh_queue"
  os_groups :: "'h qhw_group_map option"
  os_group_tasks :: "'h option"
  os_group_heap :: "'q option"
  os_split_config :: qhw_sched_split_config
  os_ready_flags :: u32
  os_next_group_ticket :: u64
  os_use_round_robin :: bool
  os_items :: items
  os_group_store :: "('h, 'l, 'q) ordered_group arena"
  os_index_store :: "ordered_task_index arena"

subsection \<open>Groups\<close>

definition ordered_compare :: "qhw_ready_task \<Rightarrow> qhw_ready_task \<Rightarrow> qhw_order_config \<Rightarrow> int" where
  "ordered_compare left right config = qhw_order_compare config left right"

text \<open>
  The comparison of two groups by their first tasks. A heap compares only groups that are in it, and these have a task.
\<close>

definition ordered_first_task ::
  "('h, 'l, 'q) ds \<Rightarrow> items \<Rightarrow> ('h, 'l, 'q) ordered_group \<Rightarrow> qhw_ready_task option" where
  "ordered_first_task D A gr =
     (case qhw_ready_queue_peek D (og_ready gr) of Some (Some p) \<Rightarrow> cells A p | _ \<Rightarrow> None)"

definition ordered_group_compare ::
  "('h, 'l, 'q) ds \<Rightarrow> ('h, 'l, 'q) ordered_state \<Rightarrow> heap_cmp" where
  "ordered_group_compare D s g h =
     (case (cells (os_group_store s) g, cells (os_group_store s) h) of
        (Some left, Some right) \<Rightarrow>
          (case (ordered_first_task D (os_items s) left, ordered_first_task D (os_items s) right) of
             (Some left_task, Some right_task) \<Rightarrow>
               qhw_order_compare_groups (os_order s) left_task right_task (og_ticket left) (og_ticket right)
           | _ \<Rightarrow> 0)
      | _ \<Rightarrow> 0)"

definition ordered_group_update_index ::
  "index_updates \<Rightarrow> ('h, 'l, 'q) ordered_group arena \<Rightarrow> ('h, 'l, 'q) ordered_group arena option" where
  "ordered_group_update_index = write_indices (\<lambda>i gr. gr\<lparr>og_heap_index := i\<rparr>)"

definition ordered_group_reheapify ::
  "('h, 'l, 'q) ds \<Rightarrow> ('h, 'l, 'q) ordered_state \<Rightarrow> ptr \<Rightarrow> (qhw_sched_rc \<times> ('h, 'l, 'q) ordered_state) option" where
  "ordered_group_reheapify D s g = do {
     gr \<leftarrow> cells (os_group_store s) g;
     if og_heap_index gr = heap_invalid_index D then Some (QHW_SCHED_OK, s)
     else do {
       q \<leftarrow> os_group_heap s;
       let (ok, q, us) = heap_reheapify_at D (ordered_group_compare D s) q (og_heap_index gr);
       B \<leftarrow> ordered_group_update_index us (os_group_store s);
       Some (if ok then QHW_SCHED_OK else QHW_SCHED_ERR_STATE, s\<lparr>os_group_heap := Some q, os_group_store := B\<rparr>)
     }
   }"

definition ordered_group_free ::
  "('h, 'l, 'q) ds \<Rightarrow> ('h, 'l, 'q) ordered_state \<Rightarrow> ptr \<Rightarrow> ('h, 'l, 'q) ordered_state option" where
  "ordered_group_free D s g = do {
     gr \<leftarrow> cells (os_group_store s) g;
     A \<leftarrow> qhw_ready_queue_fini D (og_ready gr) (os_items s);
     B \<leftarrow> arena_free g (os_group_store s);
     Some (s\<lparr>os_items := A, os_group_store := B\<rparr>)
   }"

definition ordered_group_create ::
  "('h, 'l, 'q) ds \<Rightarrow> ('h, 'l, 'q) ordered_state \<Rightarrow> qhw_group_key \<Rightarrow> mem \<Rightarrow>
   (ptr option \<times> ('h, 'l, 'q) ordered_state \<times> mem) option" where
  "ordered_group_create D s key m =
     (let (got, m) = mem_alloc m in
      if \<not> got then Some (None, s, m)
      else
        let ticket = os_next_group_ticket s;
            s = s\<lparr>os_next_group_ticket := ticket + 1\<rparr>
        in case qhw_ready_queue_init D QHW_READY_QUEUE_HEAP (os_ready_flags s)
             (Some (\<lambda>left right. ordered_compare left right (os_order s))) m of
             (_, None, m) \<Rightarrow> Some (None, s, m)
           | (_, Some rq, m) \<Rightarrow> do {
               let (g, B) = arena_alloc \<lparr>og_key = key, og_ready = rq, og_heap_index = heap_invalid_index D,
                 og_ticket = ticket\<rparr> (os_group_store s);
               gm \<leftarrow> os_groups s;
               let (rc, gm, m) = qhw_group_map_insert D gm key g m;
               let s = s\<lparr>os_groups := Some gm\<rparr>;
               if rc \<noteq> QHW_SCHED_OK then do {
                 A \<leftarrow> qhw_ready_queue_fini D rq (os_items s);
                 B \<leftarrow> arena_free g B;
                 Some (None, s\<lparr>os_items := A, os_group_store := B\<rparr>, m)
               }
               else Some (Some g, s\<lparr>os_group_store := B\<rparr>, m)
             })"

definition ordered_group_get ::
  "('h, 'l, 'q) ds \<Rightarrow> ('h, 'l, 'q) ordered_state \<Rightarrow> qhw_group_key \<Rightarrow> mem \<Rightarrow>
   (ptr option \<times> ('h, 'l, 'q) ordered_state \<times> mem) option" where
  "ordered_group_get D s key m = do {
     gm \<leftarrow> os_groups s;
     case qhw_group_map_find D gm key of
       Some g \<Rightarrow> Some (Some g, s, m)
     | None \<Rightarrow> ordered_group_create D s key m
   }"

definition ordered_group_destroy ::
  "('h, 'l, 'q) ds \<Rightarrow> ('h, 'l, 'q) ordered_state \<Rightarrow> ptr \<Rightarrow> ('h, 'l, 'q) ordered_state option" where
  "ordered_group_destroy D s g = do {
     gr \<leftarrow> cells (os_group_store s) g;
     s \<leftarrow> (if og_heap_index gr \<noteq> heap_invalid_index D then do {
         q \<leftarrow> os_group_heap s;
         let (_, q, us) = heap_remove_at D (ordered_group_compare D s) q (og_heap_index gr);
         B \<leftarrow> ordered_group_update_index us (os_group_store s);
         B \<leftarrow> arena_put g (gr\<lparr>og_heap_index := heap_invalid_index D\<rparr>) B;
         Some (s\<lparr>os_group_heap := Some q, os_group_store := B\<rparr>)
       }
       else Some s);
     gm \<leftarrow> os_groups s;
     let (_, gm) = qhw_group_map_remove D gm (og_key gr);
     ordered_group_free D (s\<lparr>os_groups := Some gm\<rparr>) g
   }"

text \<open>The result of a search is \<^verbatim>\<open>Some None\<close> when nothing is found.\<close>

definition ordered_task_group ::
  "('h, 'l, 'q) ds \<Rightarrow> ('h, 'l, 'q) ordered_state \<Rightarrow> u64 \<Rightarrow> ptr option option" where
  "ordered_task_group D s tid = do {
     h \<leftarrow> os_group_tasks s;
     case hash_table_find D h tid of
       None \<Rightarrow> Some None
     | Some i \<Rightarrow> do {
         ix \<leftarrow> cells (os_index_store s) i;
         Some (Some (oi_group ix))
       }
   }"

definition ordered_find_ready_task ::
  "('h, 'l, 'q) ds \<Rightarrow> ('h, 'l, 'q) ordered_state \<Rightarrow> u64 \<Rightarrow> ptr option option" where
  "ordered_find_ready_task D s tid =
     (if \<not> os_use_round_robin s then do {
        rq \<leftarrow> os_ready s;
        Some (qhw_ready_queue_find D rq tid)
      }
      else do {
        group \<leftarrow> ordered_task_group D s tid;
        case group of
          None \<Rightarrow> Some None
        | Some g \<Rightarrow> do {
            gr \<leftarrow> cells (os_group_store s) g;
            Some (qhw_ready_queue_find D (og_ready gr) tid)
          }
      })"

definition ordered_remove_group_task ::
  "('h, 'l, 'q) ds \<Rightarrow> ('h, 'l, 'q) ordered_state \<Rightarrow> u64 \<Rightarrow> (qhw_sched_rc \<times> ('h, 'l, 'q) ordered_state) option" where
  "ordered_remove_group_task D s tid = do {
     h \<leftarrow> os_group_tasks s;
     case hash_table_find D h tid of
       None \<Rightarrow> Some (QHW_SCHED_ERR_NOT_FOUND, s)
     | Some i \<Rightarrow> do {
         ix \<leftarrow> cells (os_index_store s) i;
         let g = oi_group ix;
         gr \<leftarrow> cells (os_group_store s) g;
         (rc, rq, A) \<leftarrow> qhw_ready_queue_remove D (og_ready gr) (os_items s) tid;
         B \<leftarrow> arena_put g (gr\<lparr>og_ready := rq\<rparr>) (os_group_store s);
         let s = s\<lparr>os_items := A, os_group_store := B\<rparr>;
         if rc \<noteq> QHW_SCHED_OK then Some (rc, s)
         else do {
           I \<leftarrow> arena_free i (os_index_store s);
           let s = s\<lparr>os_group_tasks := Some (snd (hash_table_remove D h tid)), os_index_store := I\<rparr>;
           first \<leftarrow> qhw_ready_queue_peek D rq;
           if first = None then do {
             s \<leftarrow> ordered_group_destroy D s g;
             Some (QHW_SCHED_OK, s)
           }
           else ordered_group_reheapify D s g
         }
       }
   }"

subsection \<open>Refreshing boosts\<close>

definition ordered_refresh_task ::
  "('h, 'l, 'q) ds \<Rightarrow> ('h, 'l, 'q) ordered_state \<Rightarrow> ptr \<Rightarrow> env \<Rightarrow>
   (qhw_sched_rc \<times> ('h, 'l, 'q) ordered_state \<times> env) option" where
  "ordered_refresh_task D s p e = do {
     t \<leftarrow> cells (os_items s) p;
     group \<leftarrow> (if os_use_round_robin s then ordered_task_group D s (task_id (rt_desc t)) else Some None);
     (rf, A) \<leftarrow> qhw_deadline_refresh_remove D (os_refresh s) (os_items s) (Some p);
     task \<leftarrow> cells A p;
     let (rc, task, c) = qhw_order_refresh_task (os_order s) task (env_clock e);
     A \<leftarrow> item_write p (\<lambda>_. task) A;
     let s = s\<lparr>os_refresh := rf, os_items := A\<rparr>;
     let e = e\<lparr>env_clock := c\<rparr>;
     if rc \<noteq> QHW_SCHED_OK then Some (rc, s, e)
     else do {
       (rc, s) \<leftarrow> (if effective_priority t = effective_priority task then Some (QHW_SCHED_OK, s)
         else case group of
             Some g \<Rightarrow> do {
               gr \<leftarrow> cells (os_group_store s) g;
               (rc, rq, A) \<leftarrow> qhw_ready_queue_reorder D (og_ready gr) (os_items s) p;
               B \<leftarrow> arena_put g (gr\<lparr>og_ready := rq\<rparr>) (os_group_store s);
               Some (rc, s\<lparr>os_items := A, os_group_store := B\<rparr>)
             }
           | None \<Rightarrow> do {
               rq \<leftarrow> os_ready s;
               (rc, rq, A) \<leftarrow> qhw_ready_queue_reorder D rq (os_items s) p;
               Some (rc, s\<lparr>os_ready := Some rq, os_items := A\<rparr>)
             });
       if rc \<noteq> QHW_SCHED_OK then Some (rc, s, e)
       else do {
         (rc, s) \<leftarrow> (case group of None \<Rightarrow> Some (QHW_SCHED_OK, s) | Some g \<Rightarrow> ordered_group_reheapify D s g);
         if rc \<noteq> QHW_SCHED_OK then Some (rc, s, e)
         else do {
           (rc, rf, A, m) \<leftarrow> qhw_deadline_refresh_insert D (os_refresh s) (os_items s) p (env_mem e);
           Some (rc, s\<lparr>os_refresh := rf, os_items := A\<rparr>, e\<lparr>env_mem := m\<rparr>)
         }
       }
     }
   }"

partial_function (option) ordered_refresh_loop ::
  "('h, 'l, 'q) ds \<Rightarrow> u64 \<Rightarrow> ('h, 'l, 'q) ordered_state \<Rightarrow> env \<Rightarrow>
   (qhw_sched_rc \<times> ('h, 'l, 'q) ordered_state \<times> env) option" where
  "ordered_refresh_loop D now s e = do {
     (task, rf, A) \<leftarrow> qhw_deadline_refresh_pop_expired D (os_refresh s) (os_items s) now;
     let s = s\<lparr>os_refresh := rf, os_items := A\<rparr>;
     case task of
       None \<Rightarrow> Some (QHW_SCHED_OK, s, e)
     | Some p \<Rightarrow> do {
         (rc, s, e) \<leftarrow> ordered_refresh_task D s p e;
         if rc \<noteq> QHW_SCHED_OK then Some (rc, s, e) else ordered_refresh_loop D now s e
       }
   }"

definition ordered_refresh_expired ::
  "('h, 'l, 'q) ds \<Rightarrow> ('h, 'l, 'q) ordered_state \<Rightarrow> env \<Rightarrow>
   (qhw_sched_rc \<times> ('h, 'l, 'q) ordered_state \<times> env) option" where
  "ordered_refresh_expired D s e =
     (let (now, c) = qhw_order_now_ns (os_order s) (env_clock e)
      in ordered_refresh_loop D now s (e\<lparr>env_clock := c\<rparr>))"

subsection \<open>Callbacks\<close>

text \<open>
  The tables and the heap of the round-robin key. When one of them cannot be initialised, the error path destroys the table of
  tasks and the map of groups, whatever state they are in: the table is zeroed when the map failed, and the map has
  destroyed its own tables then.
\<close>

definition ordered_init_groups ::
  "('h, 'l, 'q) ds \<Rightarrow> ('h, 'l, 'q) ordered_state \<Rightarrow> env \<Rightarrow> (qhw_sched_rc \<times> ('h, 'l, 'q) ordered_state option \<times> env) option" where
  "ordered_init_groups D s e = do {
     (rc, groups, m) \<leftarrow> qhw_group_map_init D (env_mem e);
     let (ok, group_tasks, m) = (if rc \<noteq> QHW_SCHED_OK then (False, Slot_unready Table_zeroed, m)
       else slot_init D ORDERED_GROUP_TASK_BUCKETS m);
     let (heap, m) = (if \<not> ok then (None, m) else heap_init D m);
     case heap of
       None \<Rightarrow> do {
         _ \<leftarrow> slot_fini D group_tasks;
         _ \<leftarrow> group_slots_fini D groups;
         Some (QHW_SCHED_ERR_NO_MEMORY, None, e\<lparr>env_mem := m\<rparr>)
       }
     | Some q \<Rightarrow> do {
         gm \<leftarrow> group_slots_map groups;
         h \<leftarrow> slot_table group_tasks;
         Some (QHW_SCHED_OK, Some (s\<lparr>os_groups := Some gm, os_group_tasks := Some h, os_group_heap := Some q\<rparr>),
           e\<lparr>env_mem := m\<rparr>)
       }
   }"

definition ordered_init ::
  "('h, 'l, 'q) ds \<Rightarrow> kv_ref \<Rightarrow> env \<Rightarrow> (qhw_sched_rc \<times> ('h, 'l, 'q) ordered_state option \<times> env) option" where
  "ordered_init D options e =
     (let (got, e) = env_alloc e in
      if \<not> got then Some (QHW_SCHED_ERR_NO_MEMORY, None, e)
      else
        let (rc, split) = qhw_sched_split_config_parse_options qhw_sched_split_config_init options in
        if rc \<noteq> QHW_SCHED_OK then Some (QHW_SCHED_ERR_INVALID_ARG, None, e)
        else
          let (rc, order) = qhw_order_config_parse_options qhw_order_config_init options in
          if rc \<noteq> QHW_SCHED_OK then Some (QHW_SCHED_ERR_INVALID_ARG, None, e)
          else
            let flags = (if qhw_order_config_uses_cost order then QHW_READY_QUEUE_F_ESTIMATE_COST else 0) in
            case qhw_deadline_refresh_init D (env_mem e) of
              (_, None, m) \<Rightarrow> Some (QHW_SCHED_ERR_NO_MEMORY, None, e\<lparr>env_mem := m\<rparr>)
            | (_, Some rf, m) \<Rightarrow>
                let s = \<lparr>os_order = order, os_ready = None, os_refresh = rf, os_groups = None, os_group_tasks = None,
                  os_group_heap = None, os_split_config = split, os_ready_flags = flags, os_next_group_ticket = 1,
                  os_use_round_robin = qhw_order_config_uses_round_robin order, os_items = arena_empty,
                  os_group_store = arena_empty, os_index_store = arena_empty\<rparr>
                in if os_use_round_robin s then ordered_init_groups D s (e\<lparr>env_mem := m\<rparr>)
                   else
                     (case qhw_ready_queue_init D QHW_READY_QUEUE_HEAP flags
                        (Some (\<lambda>left right. ordered_compare left right order)) m of
                        (_, None, m) \<Rightarrow> Some (QHW_SCHED_ERR_NO_MEMORY, None, e\<lparr>env_mem := m\<rparr>)
                      | (_, Some rq, m) \<Rightarrow> Some (QHW_SCHED_OK, Some (s\<lparr>os_ready := Some rq\<rparr>), e\<lparr>env_mem := m\<rparr>)))"

text \<open>The destructors of the two tables: calls of \<^verbatim>\<open>ordered_task_index_free\<close> and \<^verbatim>\<open>ordered_group_value_free\<close>.\<close>

fun ordered_free_indices :: "ptr list \<Rightarrow> ordered_task_index arena \<Rightarrow> ordered_task_index arena option" where
  "ordered_free_indices [] I = Some I"
| "ordered_free_indices (i # is) I = do {
     I \<leftarrow> arena_free i I;
     ordered_free_indices is I
   }"

fun ordered_free_groups ::
  "('h, 'l, 'q) ds \<Rightarrow> ptr list \<Rightarrow> ('h, 'l, 'q) ordered_state \<Rightarrow> ('h, 'l, 'q) ordered_state option" where
  "ordered_free_groups D [] s = Some s"
| "ordered_free_groups D (g # gs) s = do {
     s \<leftarrow> ordered_group_free D s g;
     ordered_free_groups D gs s
   }"

definition ordered_fini ::
  "('h, 'l, 'q) ds \<Rightarrow> ('h, 'l, 'q) ordered_state option \<Rightarrow> env \<Rightarrow> env option" where
  "ordered_fini D st e =
     (case st of
        None \<Rightarrow> Some e
      | Some s \<Rightarrow>
          if os_use_round_robin s then do {
            h \<leftarrow> os_group_tasks s;
            _ \<leftarrow> ordered_free_indices (hash_table_fini D h) (os_index_store s);
            gm \<leftarrow> os_groups s;
            _ \<leftarrow> ordered_free_groups D (qhw_group_map_fini D gm) s;
            Some e
          }
          else do {
            rq \<leftarrow> os_ready s;
            _ \<leftarrow> qhw_ready_queue_fini D rq (os_items s);
            Some e
          })"

text \<open>The cleanup \<^verbatim>\<open>if (group_was_empty) ordered_group_destroy(...)\<close>.\<close>

definition ordered_destroy_if ::
  "('h, 'l, 'q) ds \<Rightarrow> bool \<Rightarrow> ('h, 'l, 'q) ordered_state \<Rightarrow> ptr \<Rightarrow> ('h, 'l, 'q) ordered_state option" where
  "ordered_destroy_if D group_was_empty s g = (if group_was_empty then ordered_group_destroy D s g else Some s)"

text \<open>
  Taking back a task that is in its group already:
  \<^verbatim>\<open>qhw_deadline_refresh_remove(...); (void)ordered_remove_group_task(...)\<close>.
\<close>

definition ordered_undo_submit ::
  "('h, 'l, 'q) ds \<Rightarrow> ('h, 'l, 'q) ordered_state \<Rightarrow> ptr \<Rightarrow> u64 \<Rightarrow> ('h, 'l, 'q) ordered_state option" where
  "ordered_undo_submit D s p tid = do {
     (rf, A) \<leftarrow> qhw_deadline_refresh_remove D (os_refresh s) (os_items s) (Some p);
     (_, s) \<leftarrow> ordered_remove_group_task D (s\<lparr>os_refresh := rf, os_items := A\<rparr>) tid;
     Some s
   }"

text \<open>The last part of a submission: a new group enters the heap, the position of another is restored.\<close>

definition ordered_submit_group ::
  "('h, 'l, 'q) ds \<Rightarrow> ('h, 'l, 'q) ordered_state \<Rightarrow> bool \<Rightarrow> ptr \<Rightarrow> ptr \<Rightarrow> u64 \<Rightarrow> env \<Rightarrow>
   (qhw_sched_rc \<times> ('h, 'l, 'q) ordered_state \<times> env) option" where
  "ordered_submit_group D s group_was_empty g p tid e =
     (if group_was_empty then do {
        q \<leftarrow> os_group_heap s;
        let (ok, q, us, m) = heap_push D (ordered_group_compare D s) q g (env_mem e);
        B \<leftarrow> ordered_group_update_index us (os_group_store s);
        let s = s\<lparr>os_group_heap := Some q, os_group_store := B\<rparr>;
        let e = e\<lparr>env_mem := m\<rparr>;
        if \<not> ok then do {
          s \<leftarrow> ordered_undo_submit D s p tid;
          Some (QHW_SCHED_ERR_NO_MEMORY, s, e)
        }
        else Some (QHW_SCHED_OK, s, e)
      }
      else do {
        (rc, s) \<leftarrow> ordered_group_reheapify D s g;
        if rc \<noteq> QHW_SCHED_OK then do {
          s \<leftarrow> ordered_undo_submit D s p tid;
          Some (rc, s, e)
        }
        else Some (QHW_SCHED_OK, s, e)
      })"

definition ordered_submit_round_robin ::
  "('h, 'l, 'q) ds \<Rightarrow> ('h, 'l, 'q) ordered_state \<Rightarrow> qhw_sched_task_desc \<Rightarrow> env \<Rightarrow>
   (qhw_sched_rc \<times> ('h, 'l, 'q) ordered_state \<times> env) option" where
  "ordered_submit_round_robin D s task e = do {
     h \<leftarrow> os_group_tasks s;
     if hash_table_find D h (task_id task) \<noteq> None then Some (QHW_SCHED_ERR_EXISTS, s, e)
     else do {
       (group, s, m) \<leftarrow> ordered_group_get D s (qhw_group_key_from_task (Some task)) (env_mem e);
       let e = e\<lparr>env_mem := m\<rparr>;
       case group of
         None \<Rightarrow> Some (QHW_SCHED_ERR_NO_MEMORY, s, e)
       | Some g \<Rightarrow> do {
           gr \<leftarrow> cells (os_group_store s) g;
           first \<leftarrow> qhw_ready_queue_peek D (og_ready gr);
           let group_was_empty = (first = None);
           let (got, e) = env_alloc e;
           if \<not> got then do {
             s \<leftarrow> ordered_destroy_if D group_was_empty s g;
             Some (QHW_SCHED_ERR_NO_MEMORY, s, e)
           }
           else do {
             let (i, I) = arena_alloc \<lparr>oi_group = g\<rparr> (os_index_store s);
             let (ins, h, m) = hash_table_insert D h (task_id task) i (env_mem e);
             let e = e\<lparr>env_mem := m\<rparr>;
             if \<not> ins then do {
               I \<leftarrow> arena_free i I;
               s \<leftarrow> ordered_destroy_if D group_was_empty (s\<lparr>os_group_tasks := Some h, os_index_store := I\<rparr>) g;
               Some (qhw_hash_insert_rc_to_sched_rc ins, s, e)
             }
             else do {
               (rc, rq, A, m) \<leftarrow> qhw_ready_queue_insert D (og_ready gr) (os_items s) task (env_mem e);
               let e = e\<lparr>env_mem := m\<rparr>;
               B \<leftarrow> arena_put g (gr\<lparr>og_ready := rq\<rparr>) (os_group_store s);
               let s = s\<lparr>os_items := A, os_group_store := B, os_group_tasks := Some h, os_index_store := I\<rparr>;
               if rc \<noteq> QHW_SCHED_OK then do {
                 I \<leftarrow> arena_free i I;
                 s \<leftarrow> ordered_destroy_if D group_was_empty
                   (s\<lparr>os_group_tasks := Some (snd (hash_table_remove D h (task_id task))), os_index_store := I\<rparr>) g;
                 Some (rc, s, e)
               }
               else
                 case qhw_ready_queue_find D rq (task_id task) of
                   None \<Rightarrow> do {
                     (_, s) \<leftarrow> ordered_remove_group_task D s (task_id task);
                     Some (QHW_SCHED_ERR_STATE, s, e)
                   }
                 | Some p \<Rightarrow> do {
                     (rc, s, e) \<leftarrow> ordered_refresh_task D s p e;
                     if rc \<noteq> QHW_SCHED_OK then do {
                       s \<leftarrow> ordered_undo_submit D s p (task_id task);
                       Some (rc, s, e)
                     }
                     else ordered_submit_group D s group_was_empty g p (task_id task) e
                   }
             }
           }
         }
     }
   }"

text \<open>The selected task is returned in place of the output parameter.\<close>

definition ordered_select_round_robin ::
  "('h, 'l, 'q) ds \<Rightarrow> ('h, 'l, 'q) ordered_state \<Rightarrow> env \<Rightarrow>
   (qhw_sched_rc \<times> u64 option \<times> ('h, 'l, 'q) ordered_state \<times> env) option" where
  "ordered_select_round_robin D s e = do {
     q \<leftarrow> os_group_heap s;
     let (group, q, us) = heap_pop D (ordered_group_compare D s) q;
     B \<leftarrow> ordered_group_update_index us (os_group_store s);
     let s = s\<lparr>os_group_heap := Some q, os_group_store := B\<rparr>;
     case group of
       None \<Rightarrow> Some (QHW_SCHED_ERR_NOT_FOUND, None, s, e)
     | Some g \<Rightarrow> do {
         gr \<leftarrow> cells B g;
         let gr = gr\<lparr>og_heap_index := heap_invalid_index D\<rparr>;
         B \<leftarrow> arena_put g gr B;
         let s = s\<lparr>os_group_store := B\<rparr>;
         first \<leftarrow> qhw_ready_queue_peek D (og_ready gr);
         case first of
           None \<Rightarrow> do {
             s \<leftarrow> ordered_group_destroy D s g;
             Some (QHW_SCHED_ERR_STATE, None, s, e)
           }
         | Some p \<Rightarrow> do {
             (rf, A) \<leftarrow> qhw_deadline_refresh_remove D (os_refresh s) (os_items s) first;
             (rc, tid, rq, A) \<leftarrow> qhw_ready_queue_pop D (og_ready gr) A;
             let gr = gr\<lparr>og_ready := rq\<rparr>;
             B \<leftarrow> arena_put g gr B;
             let s = s\<lparr>os_refresh := rf, os_items := A, os_group_store := B\<rparr>;
             if rc \<noteq> QHW_SCHED_OK then do {
               s \<leftarrow> ordered_group_destroy D s g;
               Some (rc, None, s, e)
             }
             else do {
               k \<leftarrow> tid;
               h \<leftarrow> os_group_tasks s;
               let (index, h) = hash_table_remove D h k;
               I \<leftarrow> (case index of None \<Rightarrow> Some (os_index_store s) | Some i \<Rightarrow> arena_free i (os_index_store s));
               let s = s\<lparr>os_group_tasks := Some h, os_index_store := I\<rparr>;
               first \<leftarrow> qhw_ready_queue_peek D rq;
               if first = None then do {
                 gm \<leftarrow> os_groups s;
                 let (_, gm) = qhw_group_map_remove D gm (og_key gr);
                 s \<leftarrow> ordered_group_free D (s\<lparr>os_groups := Some gm\<rparr>) g;
                 Some (QHW_SCHED_OK, tid, s, e)
               }
               else do {
                 B \<leftarrow> arena_put g (gr\<lparr>og_ticket := os_next_group_ticket s\<rparr>) B;
                 let s = s\<lparr>os_next_group_ticket := os_next_group_ticket s + 1, os_group_store := B\<rparr>;
                 q \<leftarrow> os_group_heap s;
                 let (ok, q, us, m) = heap_push D (ordered_group_compare D s) q g (env_mem e);
                 B \<leftarrow> ordered_group_update_index us B;
                 let s = s\<lparr>os_group_heap := Some q, os_group_store := B\<rparr>;
                 let e = e\<lparr>env_mem := m\<rparr>;
                 if \<not> ok then Some (QHW_SCHED_ERR_NO_MEMORY, None, s, e)
                 else Some (QHW_SCHED_OK, tid, s, e)
               }
             }
           }
       }
   }"

definition ordered_on_task_submit ::
  "('h, 'l, 'q) ds \<Rightarrow> ('h, 'l, 'q) ordered_state option \<Rightarrow> qhw_sched_task_desc \<Rightarrow> env \<Rightarrow>
   (qhw_sched_rc \<times> ('h, 'l, 'q) ordered_state option \<times> env) option" where
  "ordered_on_task_submit D st task e =
     (case st of
        None \<Rightarrow> Some (QHW_SCHED_ERR_INVALID_ARG, None, e)
      | Some s \<Rightarrow>
          if os_use_round_robin s then do {
            (rc, s, e) \<leftarrow> ordered_submit_round_robin D s task e;
            Some (rc, Some s, e)
          }
          else do {
            rq \<leftarrow> os_ready s;
            (rc, rq, A, m) \<leftarrow> qhw_ready_queue_insert D rq (os_items s) task (env_mem e);
            let s = s\<lparr>os_ready := Some rq, os_items := A\<rparr>;
            let e = e\<lparr>env_mem := m\<rparr>;
            if rc \<noteq> QHW_SCHED_OK then Some (rc, Some s, e)
            else
              case qhw_ready_queue_find D rq (task_id task) of
                None \<Rightarrow> Some (QHW_SCHED_ERR_STATE, Some s, e)
              | Some p \<Rightarrow> do {
                  (rc, s, e) \<leftarrow> ordered_refresh_task D s p e;
                  if rc \<noteq> QHW_SCHED_OK then do {
                    (rf, A) \<leftarrow> qhw_deadline_refresh_remove D (os_refresh s) (os_items s) (Some p);
                    rq \<leftarrow> os_ready s;
                    (_, rq, A) \<leftarrow> qhw_ready_queue_remove D rq A (task_id task);
                    Some (rc, Some (s\<lparr>os_ready := Some rq, os_refresh := rf, os_items := A\<rparr>), e)
                  }
                  else Some (QHW_SCHED_OK, Some s, e)
                }
          })"

definition ordered_select_next ::
  "('h, 'l, 'q) ds \<Rightarrow> ('h, 'l, 'q) ordered_state option \<Rightarrow> qhw_sched_assignment \<Rightarrow> env \<Rightarrow>
   (qhw_sched_rc \<times> qhw_sched_assignment \<times> ('h, 'l, 'q) ordered_state option \<times> env) option" where
  "ordered_select_next D st out e =
     (case st of
        None \<Rightarrow> Some (QHW_SCHED_ERR_INVALID_ARG, out, None, e)
      | Some s \<Rightarrow> do {
          (rc, s, e) \<leftarrow> ordered_refresh_expired D s e;
          if rc \<noteq> QHW_SCHED_OK then Some (rc, out, Some s, e)
          else do {
            (rc, tid, s, e) \<leftarrow> (if os_use_round_robin s then ordered_select_round_robin D s e
              else do {
                rq \<leftarrow> os_ready s;
                first \<leftarrow> qhw_ready_queue_peek D rq;
                (rf, A) \<leftarrow> qhw_deadline_refresh_remove D (os_refresh s) (os_items s) first;
                (rc, tid, rq, A) \<leftarrow> qhw_ready_queue_pop D rq A;
                Some (rc, tid, s\<lparr>os_ready := Some rq, os_refresh := rf, os_items := A\<rparr>, e)
              });
            if rc \<noteq> QHW_SCHED_OK then Some (rc, out, Some s, e)
            else do {
              k \<leftarrow> tid;
              Some (QHW_SCHED_OK, zero_assignment\<lparr>as_task_id := k\<rparr>, Some s, e)
            }
          }
        })"

definition ordered_get_split_config ::
  "('h, 'l, 'q) ordered_state option \<Rightarrow> qhw_sched_split_config \<Rightarrow> env \<Rightarrow>
   (qhw_sched_rc \<times> qhw_sched_split_config \<times> ('h, 'l, 'q) ordered_state option \<times> env) option" where
  "ordered_get_split_config st out e =
     (case st of
        None \<Rightarrow> Some (QHW_SCHED_ERR_INVALID_ARG, out, None, e)
      | Some s \<Rightarrow> Some (QHW_SCHED_OK, os_split_config s, st, e))"

definition ordered_on_task_priority_changed ::
  "('h, 'l, 'q) ds \<Rightarrow> ('h, 'l, 'q) ordered_state option \<Rightarrow> u64 \<Rightarrow> i64 \<Rightarrow> env \<Rightarrow>
   (qhw_sched_rc \<times> ('h, 'l, 'q) ordered_state option \<times> env) option" where
  "ordered_on_task_priority_changed D st tid prio e =
     (case st of
        None \<Rightarrow> Some (QHW_SCHED_ERR_INVALID_ARG, None, e)
      | Some s \<Rightarrow> do {
          found \<leftarrow> ordered_find_ready_task D s tid;
          case found of
            None \<Rightarrow> Some (QHW_SCHED_ERR_NOT_FOUND, Some s, e)
          | Some p \<Rightarrow> do {
              task \<leftarrow> cells (os_items s) p;
              A \<leftarrow> item_write p (\<lambda>t. t\<lparr>base_priority := prio\<rparr>) (os_items s);
              (rc, s, e) \<leftarrow> ordered_refresh_task D (s\<lparr>os_items := A\<rparr>) p e;
              if rc \<noteq> QHW_SCHED_OK then do {
                A \<leftarrow> item_write p (\<lambda>t. t\<lparr>base_priority := base_priority task\<rparr>) (os_items s);
                (_, s, e) \<leftarrow> ordered_refresh_task D (s\<lparr>os_items := A\<rparr>) p e;
                Some (QHW_SCHED_ERR_STATE, Some s, e)
              }
              else Some (QHW_SCHED_OK, Some s, e)
            }
        })"

definition ordered_on_task_started ::
  "('h, 'l, 'q) ordered_state option \<Rightarrow> u64 \<Rightarrow> env \<Rightarrow>
   (qhw_sched_rc \<times> ('h, 'l, 'q) ordered_state option \<times> env) option" where
  "ordered_on_task_started st tid e = Some (QHW_SCHED_OK, st, e)"

definition ordered_on_task_finished ::
  "('h, 'l, 'q) ds \<Rightarrow> ('h, 'l, 'q) ordered_state option \<Rightarrow> u64 \<Rightarrow> qhw_sched_task_state \<Rightarrow> env \<Rightarrow>
   (qhw_sched_rc \<times> ('h, 'l, 'q) ordered_state option \<times> env) option" where
  "ordered_on_task_finished D st tid terminal_state e =
     (case st of
        None \<Rightarrow> Some (QHW_SCHED_ERR_INVALID_ARG, None, e)
      | Some s \<Rightarrow> do {
          (rc, s) \<leftarrow> (if os_use_round_robin s then do {
              task \<leftarrow> ordered_find_ready_task D s tid;
              (rf, A) \<leftarrow> qhw_deadline_refresh_remove D (os_refresh s) (os_items s) task;
              ordered_remove_group_task D (s\<lparr>os_refresh := rf, os_items := A\<rparr>) tid
            }
            else do {
              rq \<leftarrow> os_ready s;
              (rf, A) \<leftarrow> qhw_deadline_refresh_remove D (os_refresh s) (os_items s) (qhw_ready_queue_find D rq tid);
              (rc, rq, A) \<leftarrow> qhw_ready_queue_remove D rq A tid;
              Some (rc, s\<lparr>os_ready := Some rq, os_refresh := rf, os_items := A\<rparr>)
            });
          Some (if rc = QHW_SCHED_ERR_NOT_FOUND then QHW_SCHED_OK else rc, Some s, e)
        })"

definition ordered_desc :: "('h, 'l, 'q) ds \<Rightarrow> ('h, 'l, 'q) ordered_state qhw_sched_plugin_desc" where
  "ordered_desc D = \<lparr>pd_struct_size = sizeof_plugin_desc, pd_abi_version = QHW_SCHED_ABI_VERSION,
     pd_name = Some ''ordered'', pd_version = Some ''0.1.0'',
     pd_description = Some ''configurable ordered scheduler policy'', pd_capabilities = 0,
     pd_thread_flags = QHW_SCHED_PLUGIN_THREAD_ALL,
     pd_init = Some (ordered_init D), pd_fini = Some (ordered_fini D),
     pd_on_task_submit = Some (ordered_on_task_submit D), pd_select_next = Some (ordered_select_next D),
     pd_get_split_config = Some ordered_get_split_config,
     pd_on_task_priority_changed = Some (ordered_on_task_priority_changed D),
     pd_on_task_started = Some ordered_on_task_started,
     pd_on_task_finished = Some (ordered_on_task_finished D)\<rparr>"

end
