(* ===== verification/Ordered_Flat.thy ===== *)
theory Ordered_Flat
  imports Policy_Ordered
begin

section \<open>The ordered policy without the round-robin key\<close>

text \<open>
  Without the round-robin key the ordered policy is a policy over one boosted queue, like the priority policy but with a
  comparison that its options configure.
\<close>

definition ordered_rq :: "('h, 'l, 'q) ordered_state \<Rightarrow> ('h, 'l, 'q) qhw_ready_queue" where
  "ordered_rq s = the (os_ready s)"

definition ordered_put ::
  "('h, 'l, 'q) qhw_ready_queue \<Rightarrow> 'q qhw_deadline_refresh_queue \<Rightarrow> items \<Rightarrow> ('h, 'l, 'q) ordered_state \<Rightarrow>
   ('h, 'l, 'q) ordered_state" where
  "ordered_put rq rf A s = s\<lparr>os_ready := Some rq, os_refresh := rf, os_items := A\<rparr>"

definition ordered_flat :: "('h, 'l, 'q) ordered_state \<Rightarrow> bool" where
  "ordered_flat s \<longleftrightarrow> \<not> os_use_round_robin s \<and> os_ready s \<noteq> None"

definition ordered_cmp :: "('h, 'l, 'q) ordered_state \<Rightarrow> qhw_ready_task \<Rightarrow> qhw_ready_task \<Rightarrow> int" where
  "ordered_cmp s = qhw_order_compare (os_order s)"

definition ordered_boost :: "('h, 'l, 'q) ordered_state \<Rightarrow> qhw_deadline_boost_config" where
  "ordered_boost s = order_boost (os_order s)"

definition ordered_reading :: "('h, 'l, 'q) ordered_state \<Rightarrow> clock \<Rightarrow> u64 \<times> clock" where
  "ordered_reading s = qhw_order_now_ns (os_order s)"

definition ordered_floor :: "('h, 'l, 'q) ordered_state \<Rightarrow> clock \<Rightarrow> u64" where
  "ordered_floor s c = (if order_use_static_now (os_order s) then order_now_ns (os_order s) else clock_floor c)"

lemma ordered_reading_floor: "ordered_reading s k = (now, k') \<Longrightarrow> ordered_floor s k \<le> now \<and> ordered_floor s k' = now"
  using now_ns_monotone [of k now k']
  by (auto simp: ordered_reading_def qhw_order_now_ns_def ordered_floor_def split: if_splits)

lemma order_refresh_free [simp]: "refresh_free (qhw_order_compare config)"
  by (simp add: refresh_free_def order_compare_vec order_vector_def key_rank_def cong: if_cong)

lemma ordered_put_simps [simp]:
  "ordered_rq (ordered_put a b c s) = a" "os_refresh (ordered_put a b c s) = b" "os_items (ordered_put a b c s) = c"
  "ordered_put a' b' c' (ordered_put a b c s) = ordered_put a' b' c' s"
  "ordered_cmp (ordered_put a b c s) = ordered_cmp s" "ordered_boost (ordered_put a b c s) = ordered_boost s"
  "ordered_reading (ordered_put a b c s) = ordered_reading s" "ordered_floor (ordered_put a b c s) = ordered_floor s"
  by (simp_all add: ordered_rq_def ordered_put_def ordered_cmp_def ordered_boost_def ordered_reading_def ordered_floor_def fun_eq_iff)

lemma ordered_put_same [simp]: "ordered_flat s \<Longrightarrow> ordered_put (ordered_rq s) (os_refresh s) (os_items s) s = s"
  by (auto simp: ordered_put_def ordered_rq_def ordered_flat_def)

lemma ordered_put_flat [simp]: "ordered_flat s \<Longrightarrow> ordered_flat (ordered_put a b c s)"
  by (simp add: ordered_put_def ordered_flat_def)

lemma flat_ready: "ordered_flat s \<Longrightarrow> os_ready s = Some (ordered_rq s) \<and> \<not> os_use_round_robin s"
  by (auto simp: ordered_flat_def ordered_rq_def)

subsection \<open>The callbacks over one queue\<close>

text \<open>Recomputing a boost, in terms of the boost of the item.\<close>

lemma order_refresh_boost:
  assumes "qhw_order_now_ns config k = (now, k')"
  shows "qhw_order_refresh_task config t k =
    (QHW_SCHED_OK, t\<lparr>effective_priority := br_effective_priority (boost_at (order_boost config) t now),
       next_refresh_ns := br_next_refresh_ns (boost_at (order_boost config) t now)\<rparr>, k')"
proof -
  have "qhw_deadline_boost_compute (order_boost config) (base_priority t) (deadline_ns (rt_desc t))
      (estimated_runtime_ns (rt_desc t)) now = (QHW_SCHED_OK, boost_at (order_boost config) t now)"
    unfolding boost_at_def by (rule prod_eqI) simp_all
  then show ?thesis using assms by (simp add: qhw_order_refresh_task_def)
qed

lemma flat_refresh_task:
  assumes "ordered_flat s"
  shows "ordered_refresh_task D s p e = do {
     t \<leftarrow> cells (os_items s) p;
     (rf, A) \<leftarrow> qhw_deadline_refresh_remove D (os_refresh s) (os_items s) (Some p);
     task \<leftarrow> cells A p;
     let (now, k) = qhw_order_now_ns (os_order s) (env_clock e);
     let r = boost_at (order_boost (os_order s)) task now;
     (rc, rq, A) \<leftarrow> (if effective_priority t \<noteq> br_effective_priority r
       then qhw_ready_queue_reorder D (ordered_rq s) (A\<lparr>cells := (cells A)(p \<mapsto>
         task\<lparr>effective_priority := br_effective_priority r, next_refresh_ns := br_next_refresh_ns r\<rparr>)\<rparr>) p
       else Some (QHW_SCHED_OK, ordered_rq s, A\<lparr>cells := (cells A)(p \<mapsto>
         task\<lparr>effective_priority := br_effective_priority r, next_refresh_ns := br_next_refresh_ns r\<rparr>)\<rparr>));
     if rc \<noteq> QHW_SCHED_OK then Some (rc, ordered_put rq rf A s, e\<lparr>env_clock := k\<rparr>)
     else do {
       (rc, rf, A, m) \<leftarrow> qhw_deadline_refresh_insert D rf A p (env_mem e);
       Some (rc, ordered_put rq rf A s, e\<lparr>env_clock := k, env_mem := m\<rparr>)
     }
   }"
  using flat_ready [OF assms]
  by (auto simp: ordered_refresh_task_def order_refresh_boost item_write_def ordered_put_def Let_def
      intro!: bind_option_cong split: prod.split)

lemma ordered_put_partial:
  "ordered_flat s \<Longrightarrow> s\<lparr>os_items := A\<rparr> = ordered_put (ordered_rq s) (os_refresh s) A s"
  "s\<lparr>os_ready := Some a, os_items := A\<rparr> = ordered_put a (os_refresh s) A s"
  "s\<lparr>os_ready := Some a, os_refresh := b, os_items := A\<rparr> = ordered_put a b A s"
  "ordered_flat s \<Longrightarrow> s\<lparr>os_refresh := b, os_items := A\<rparr> = ordered_put (ordered_rq s) b A s"
  by (auto simp: ordered_put_def ordered_flat_def ordered_rq_def)

lemma flat_refresh_kept:
  assumes "ordered_refresh_task D s p e = Some (rc, s', e')" "ordered_flat s"
  shows "ordered_flat s'"
proof -
  obtain now k where read: "qhw_order_now_ns (os_order s) (env_clock e) = (now, k)" by force
  show ?thesis using assms read by (auto simp: flat_refresh_task bind_eq_Some_conv Let_def split: if_splits)
qed

lemma flat_refresh_ready:
  "ordered_refresh_task D (ordered_put a b A s) p e = Some (rc, s', e') \<Longrightarrow> ordered_flat s \<Longrightarrow>
   os_ready s' = Some (ordered_rq s') \<and> ordered_flat s'"
  using flat_refresh_kept [OF _ ordered_put_flat] flat_ready by blast

lemma flat_submit: "ordered_flat s \<Longrightarrow> ordered_on_task_submit D (Some s) task e = do {
      (rc, a, A, m) \<leftarrow> qhw_ready_queue_insert D (ordered_rq s) (os_items s) task (env_mem e);
      let s = ordered_put a (os_refresh s) A s;
      let e = e\<lparr>env_mem := m\<rparr>;
      if rc \<noteq> QHW_SCHED_OK then Some (rc, Some s, e)
      else
        case qhw_ready_queue_find D (ordered_rq s) (task_id task) of
          None \<Rightarrow> Some (QHW_SCHED_ERR_STATE, Some s, e)
        | Some p \<Rightarrow> do {
            (rc, s, e) \<leftarrow> ordered_refresh_task D s p e;
            if rc \<noteq> QHW_SCHED_OK then do {
              (b, A) \<leftarrow> qhw_deadline_refresh_remove D (os_refresh s) (os_items s) (Some p);
              (_, a, A) \<leftarrow> qhw_ready_queue_remove D (ordered_rq s) A (task_id task);
              Some (rc, Some (ordered_put a b A s), e)
            }
            else Some (QHW_SCHED_OK, Some s, e)
          }
    }"
  by (auto simp: ordered_on_task_submit_def flat_ready ordered_put_partial Let_def
      dest!: flat_refresh_ready intro!: bind_option_cong split: prod.split option.split)

lemma flat_loop: "ordered_flat s \<Longrightarrow> ordered_refresh_loop D now s e = do {
    (task, rf', A) \<leftarrow> qhw_deadline_refresh_pop_expired D (os_refresh s) (os_items s) now;
    case task of
      None \<Rightarrow> Some (QHW_SCHED_OK, ordered_put (ordered_rq s) rf' A s, e)
    | Some p \<Rightarrow> do {
        (rc, s, e) \<leftarrow> ordered_refresh_task D (ordered_put (ordered_rq s) rf' A s) p e;
        if rc \<noteq> QHW_SCHED_OK then Some (rc, s, e) else ordered_refresh_loop D now s e
      }
  }"
  by (subst ordered_refresh_loop.simps) (simp add: ordered_put_partial Let_def cong: option.case_cong)

lemma flat_loop_step:
  assumes "ordered_refresh_loop D now s e = Some y"
  shows "ordered_flat s \<longrightarrow> ordered_flat (fst (snd y))"
proof (rule ordered_refresh_loop.raw_induct [OF _ assms, of "\<lambda>D now s e y. ordered_flat s \<longrightarrow> ordered_flat (fst (snd y))"], goal_cases)
  case (1 loop D now s e y)
  show ?case
  proof
    assume flat: "ordered_flat s"
    obtain task rf A where pop: "qhw_deadline_refresh_pop_expired D (os_refresh s) (os_items s) now = Some (task, rf, A)"
      using 1(2) by (auto simp: bind_eq_Some_conv)
    show "ordered_flat (fst (snd y))"
    proof (cases task)
      case None
      then show ?thesis using 1(2) pop flat by (auto simp: ordered_put_partial)
    next
      case (Some p)
      let ?s = "ordered_put (ordered_rq s) rf A s"
      obtain rc s' e' where r: "ordered_refresh_task D ?s p e = Some (rc, s', e')"
        and y: "(if rc \<noteq> QHW_SCHED_OK then Some (rc, s', e') else loop D now s' e') = Some y"
        using 1(2) pop Some flat by (auto simp: ordered_put_partial bind_eq_Some_conv)
      have "ordered_flat s'" using flat_refresh_ready [OF r flat] by simp
      then show ?thesis using y 1(1) [of D now s' e' y] by (auto split: if_splits)
    qed
  qed
qed

lemma flat_loop_kept: "ordered_refresh_loop D now s e = Some (rc, s', e') \<Longrightarrow> ordered_flat s \<Longrightarrow> ordered_flat s'"
  using flat_loop_step by fastforce

lemma flat_loop_ready: "ordered_refresh_loop D now s e = Some (rc, s', e') \<Longrightarrow> ordered_flat s \<Longrightarrow>
    os_ready s' = Some (ordered_rq s') \<and> ordered_flat s' \<and> \<not> os_use_round_robin s'"
  using flat_loop_kept flat_ready by blast

lemma flat_select:
  assumes "ordered_flat s" "ordered_reading s (env_clock e) = (now, k)"
  shows "ordered_select_next D (Some s) out e = do {
      (rc, s, e) \<leftarrow> ordered_refresh_loop D now s (e\<lparr>env_clock := k\<rparr>);
      if rc \<noteq> QHW_SCHED_OK then Some (rc, out, Some s, e)
      else do {
        first \<leftarrow> qhw_ready_queue_peek D (ordered_rq s);
        (b, A) \<leftarrow> qhw_deadline_refresh_remove D (os_refresh s) (os_items s) first;
        (rc, tid, a, A) \<leftarrow> qhw_ready_queue_pop D (ordered_rq s) A;
        let st = Some (ordered_put a b A s);
        if rc \<noteq> QHW_SCHED_OK then Some (rc, out, st, e)
        else do {
          t \<leftarrow> tid;
          Some (QHW_SCHED_OK, zero_assignment\<lparr>as_task_id := t\<rparr>, st, e)
        }
      }
    }"
  using assms(2)
  by (auto simp: ordered_select_next_def ordered_refresh_expired_def ordered_reading_def 
      ordered_put_partial Let_def dest!: flat_loop_ready [OF _ assms(1)] intro!: bind_option_cong split: prod.split option.split)

lemma flat_changed: "ordered_flat s \<Longrightarrow> ordered_on_task_priority_changed D (Some s) tid prio e =
      (case qhw_ready_queue_find D (ordered_rq s) tid of
         None \<Rightarrow> Some (QHW_SCHED_ERR_NOT_FOUND, Some s, e)
       | Some p \<Rightarrow> do {
           task \<leftarrow> cells (os_items s) p;
           A \<leftarrow> item_write p (\<lambda>t. t\<lparr>base_priority := prio\<rparr>) (os_items s);
           (rc, s, e) \<leftarrow> ordered_refresh_task D (ordered_put (ordered_rq s) (os_refresh s) A s) p e;
           if rc \<noteq> QHW_SCHED_OK then do {
             A \<leftarrow> item_write p (\<lambda>t. t\<lparr>base_priority := base_priority task\<rparr>) (os_items s);
             (_, s, e) \<leftarrow> ordered_refresh_task D (ordered_put (ordered_rq s) (os_refresh s) A s) p e;
             Some (QHW_SCHED_ERR_STATE, Some s, e)
           }
           else Some (QHW_SCHED_OK, Some s, e)
         })"
  by (auto simp: ordered_on_task_priority_changed_def ordered_find_ready_task_def flat_ready ordered_put_partial
      
      dest!: flat_refresh_ready intro!: bind_option_cong split: prod.split option.split)

lemma flat_finished: "ordered_flat s \<Longrightarrow> ordered_on_task_finished D (Some s) tid ts e = do {
      (b, A) \<leftarrow> qhw_deadline_refresh_remove D (os_refresh s) (os_items s) (qhw_ready_queue_find D (ordered_rq s) tid);
      (rc, a, A) \<leftarrow> qhw_ready_queue_remove D (ordered_rq s) A tid;
      Some (if rc = QHW_SCHED_ERR_NOT_FOUND then QHW_SCHED_OK else rc, Some (ordered_put a b A s), e)
    }"
  by (auto simp: ordered_on_task_finished_def flat_ready ordered_put_partial intro!: bind_option_cong split: prod.split)

context datastructures
begin

lemma ordered_refresh_law:
  assumes flat: "ordered_flat s"
    and b: "boosted D G (ordered_cmp s) (ordered_rq s) (os_refresh s) (os_items s)" and p: "p \<in> set (rq_elems G (ordered_rq s))"
    and t: "look (os_items s) p = Some t" and now: "ordered_reading s (env_clock e) = (now, k)"
  shows "succeeds (ordered_refresh_task D s p e) (\<lambda>(rc, s', e').
    s' = ordered_put (ordered_rq s') (os_refresh s') (os_items s') s \<and> env_clock e' = k \<and>
    refreshed G (ordered_cmp s) p (boosted_item (ordered_boost s) now t) rc (ordered_rq s) (os_refresh s) (os_items s)
      (ordered_rq s') (os_refresh s') (os_items s') D)"
proof -
  obtain u rf1 A1 u1 where st: "cells (os_items s) p = Some u" "effective_priority u = effective_priority t"
    "qhw_deadline_refresh_remove D (os_refresh s) (os_items s) (Some p) = Some (rf1, A1)" "cells A1 p = Some u1"
    "rt_desc u1 = rt_desc t" "base_priority u1 = base_priority t"
    and rest: "\<And>v n m. \<exists>rq' A2 rc rf2 A3 m'.
       (if effective_priority u \<noteq> v
        then qhw_ready_queue_reorder D (ordered_rq s) (A1\<lparr>cells := (cells A1)(p \<mapsto> u1\<lparr>effective_priority := v, next_refresh_ns := n\<rparr>)\<rparr>) p
        else Some (QHW_SCHED_OK, ordered_rq s, A1\<lparr>cells := (cells A1)(p \<mapsto> u1\<lparr>effective_priority := v, next_refresh_ns := n\<rparr>)\<rparr>)) =
         Some (QHW_SCHED_OK, rq', A2) \<and>
       qhw_deadline_refresh_insert D rf1 A2 p m = Some (rc, rf2, A3, m') \<and>
       refreshed G (ordered_cmp s) p (t\<lparr>effective_priority := v, next_refresh_ns := n\<rparr>) rc (ordered_rq s) (os_refresh s)
         (os_items s) rq' rf2 A3 D"
    by (rule boosted_refresh_steps [OF b p t]) blast
  let ?r = "boost_at (ordered_boost s) t now"
  have r: "boost_at (order_boost (os_order s)) u1 now = ?r" using st(5,6) by (simp add: boost_at_def ordered_boost_def)
  have read: "qhw_order_now_ns (os_order s) (env_clock e) = (now, k)" using now by (simp add: ordered_reading_def)
  obtain rq' A2 rc rf2 A3 m' where steps: "(if effective_priority u \<noteq> br_effective_priority ?r
        then qhw_ready_queue_reorder D (ordered_rq s) (A1\<lparr>cells := (cells A1)(p \<mapsto> u1\<lparr>effective_priority := br_effective_priority ?r,
          next_refresh_ns := br_next_refresh_ns ?r\<rparr>)\<rparr>) p
        else Some (QHW_SCHED_OK, ordered_rq s, A1\<lparr>cells := (cells A1)(p \<mapsto> u1\<lparr>effective_priority := br_effective_priority ?r,
          next_refresh_ns := br_next_refresh_ns ?r\<rparr>)\<rparr>)) = Some (QHW_SCHED_OK, rq', A2)"
    "qhw_deadline_refresh_insert D rf1 A2 p (env_mem e) = Some (rc, rf2, A3, m')"
    "refreshed G (ordered_cmp s) p (boosted_item (ordered_boost s) now t) rc (ordered_rq s) (os_refresh s) (os_items s) rq' rf2 A3 D"
    using rest [of "br_effective_priority ?r" "br_next_refresh_ns ?r" "env_mem e"] unfolding boosted_item_def by blast
  have "ordered_refresh_task D s p e = Some (rc, ordered_put rq' rf2 A3 s, e\<lparr>env_clock := k, env_mem := m'\<rparr>)"
    unfolding flat_refresh_task [OF flat] using st steps(1,2) by (simp add: read r)
  then show ?thesis using steps(3) by simp
qed

end

sublocale datastructures \<subseteq> flat: boosted_callbacks D G ordered_rq os_refresh os_items ordered_put ordered_flat
  ordered_cmp ordered_boost ordered_reading ordered_floor "ordered_refresh_task D" "ordered_refresh_loop D"
  "ordered_on_task_submit D" "ordered_select_next D" "ordered_on_task_priority_changed D" "ordered_on_task_finished D"
  by unfold_locales
    (simp_all add: ordered_reading_floor ordered_refresh_law flat_loop flat_submit flat_select flat_changed flat_finished)

subsection \<open>Invariant and tasks\<close>

definition flat_inv :: "('h, 'l, 'q) ds \<Rightarrow> ('h, 'l, 'q) ghost \<Rightarrow> ('h, 'l, 'q) ordered_state \<Rightarrow> bool" where
  "flat_inv D G s \<longleftrightarrow> ordered_flat s \<and>
     boosted D G (qhw_order_compare (os_order s)) (ordered_rq s) (os_refresh s) (os_items s)"

definition flat_tasks :: "('h, 'l, 'q) ds \<Rightarrow> ('h, 'l, 'q) ordered_state \<Rightarrow> u64 \<rightharpoonup> qhw_ready_task" where
  "flat_tasks D s k = (case hash_table_find D (rq_by_id (ordered_rq s)) k of
     None \<Rightarrow> None | Some p \<Rightarrow> map_option bare (look (os_items s) p))"

definition flat_fresh :: "('h, 'l, 'q) ghost \<Rightarrow> ('h, 'l, 'q) ordered_state \<Rightarrow> clock \<Rightarrow> bool" where
  "flat_fresh G s c \<longleftrightarrow> (\<forall>p \<in> set (rq_elems G (ordered_rq s)).
     timely (ordered_boost s) (ordered_floor s c) (pending G (os_refresh s)) (os_items s) p)"

text \<open>An order configuration that the parser can produce.\<close>

definition order_config_ok :: "qhw_order_config \<Rightarrow> bool" where
  "order_config_ok config \<longleftrightarrow> order_keys config \<noteq> [] \<and> length (order_keys config) \<le> 8 \<and>
     (\<forall>k \<in> set (order_keys config). order_key_supported k) \<and>
     (boost_enabled (order_boost config) \<longrightarrow> boost_thresholds_ok (order_boost config))"

lemma order_parse_ok:
  assumes "qhw_order_config_parse_options qhw_order_config_init options = (QHW_SCHED_OK, config)"
  shows "order_config_ok config"
proof -
  obtain boost where boost: "qhw_deadline_boost_config_parse_options qhw_deadline_boost_config_init options = (QHW_SCHED_OK, boost)"
    and loop: "order_parse_loop (qhw_order_config_init\<lparr>order_boost := boost\<rparr>) False (kv_entries options) = (QHW_SCHED_OK, config)"
    and ne: "order_keys config \<noteq> []"
    using assms by (auto simp: qhw_order_config_parse_options_def qhw_order_config_init_def Let_def split: if_splits prod.splits)
  show ?thesis using order_parse_loop_keys [OF loop] boost ne
    by (auto simp: order_config_ok_def qhw_order_config_init_def order_key_supported_def boost_thresholds_ok_def
        qhw_deadline_boost_config_parse_options_def split: if_splits prod.splits)
qed

context datastructures
begin

lemma flat_policy_ok [simp]: "flat.policy_ok = flat_inv D G"
  by (simp add: fun_eq_iff flat.policy_ok_def flat_inv_def ordered_cmp_def)

lemma flat_tasks_eq [simp]: "flat.tasks = flat_tasks D"
  by (simp add: fun_eq_iff flat.tasks_def flat_tasks_def)

lemma flat_fresh_eq [simp]: "flat.fresh = flat_fresh G"
  by (simp add: fun_eq_iff flat.fresh_def flat_fresh_def flat.elems_def flat.waiting_def)

text \<open>Without the round-robin key a successful initialisation gives an empty policy.\<close>

lemma flat_init_ok:
  assumes flat: "\<not> qhw_order_config_uses_round_robin (snd (qhw_order_config_parse_options qhw_order_config_init opts))"
  shows "succeeds (ordered_init D opts e) (\<lambda>(rc, st, e').
     if rc = QHW_SCHED_OK
     then \<exists>s. st = Some s \<and> flat_inv D G s \<and> flat_tasks D s = Map.empty \<and> flat_fresh G s c \<and> order_config_ok (os_order s)
     else st = None)"
proof -
  obtain got e1 where al: "env_alloc e = (got, e1)" by force
  obtain rc1 split where p1: "qhw_sched_split_config_parse_options qhw_sched_split_config_init opts = (rc1, split)" by force
  obtain rc2 order where p2: "qhw_order_config_parse_options qhw_order_config_init opts = (rc2, order)" by force
  obtain rc3 rf m where i1: "qhw_deadline_refresh_init D (env_mem e1) = (rc3, rf, m)" by (metis prod_cases3)
  define flags where "flags = (if qhw_order_config_uses_cost order then QHW_READY_QUEUE_F_ESTIMATE_COST else 0)"
  obtain rc4 rq m2 where i2: "qhw_ready_queue_init D QHW_READY_QUEUE_HEAP flags
      (Some (\<lambda>left right. ordered_compare left right order)) m = (rc4, rq, m2)" by (metis prod_cases3)
  note ok1 = refresh_init_ok [OF i1, of "{}" arena_empty] and ok2 = ready_init_ok [OF i2, of arena_empty]
  have cmp: "(\<lambda>left right. ordered_compare left right order) = qhw_order_compare order"
    by (simp add: ordered_compare_def fun_eq_iff)
  have nrr: "\<not> qhw_order_config_uses_round_robin order" using flat p2 by simp
  show ?thesis
  proof (cases "rf = None \<or> rq = None")
    case True
    then show ?thesis using al p1 p2 i1 i2 nrr
      by (auto simp: ordered_init_def Let_def flags_def split: option.split)
  next
    case False
    then obtain f q where fq: "rf = Some f" "rq = Some q" by auto
    then have q: "ready_ok D G q arena_empty" "rq_elems G q = []" "rq_ids D q = {}" "rq_kind q = QHW_READY_QUEUE_HEAP"
      "rq_compare q = Some (qhw_order_compare order)" using ok2 order_compare_ok by (simp_all add: cmp)
    have find: "hash_table_find D (rq_by_id q) k = None" for k using q(3) by (auto simp: rq_ids_def)
    have "refresh_ok D G f arena_empty {}" using ok1 fq by simp
    then have "boosted D G (qhw_order_compare order) q f arena_empty" using q by (simp add: boosted_def)
    then show ?thesis using al p1 p2 i1 i2 nrr fq q(2) find order_parse_ok [of opts order]
      by (auto simp: ordered_init_def Let_def flags_def flat_inv_def flat_tasks_def flat_fresh_def ordered_flat_def
          ordered_rq_def fun_eq_iff)
  qed
qed

end

end
