(* ===== verification/Group_Heap.thy ===== *)
theory Group_Heap
  imports Policy_Ordered
begin

section \<open>The heap of groups of the ordered policy\<close>

text \<open>
  With the round-robin key the ordered policy keeps the groups that have a task in a heap, compared by their first
  tasks and their tickets. A group's place depends on the items and on its ready queue, which change while the group
  is in the heap; the code then calls \<^verbatim>\<open>ordered_group_reheapify\<close>. The invariant of this theory allows one group to be
  out of place, and the heap operations put it right.
\<close>

subsection \<open>Ranks\<close>

text \<open>The vector of a group: the keys of its first task, with its ticket.\<close>

definition group_record_compare ::
  "('h, 'l, 'q) ds \<Rightarrow> qhw_order_config \<Rightarrow> items \<Rightarrow> ('h, 'l, 'q) ordered_group \<Rightarrow> ('h, 'l, 'q) ordered_group \<Rightarrow> int" where
  "group_record_compare D order A left right =
     (case (ordered_first_task D A left, ordered_first_task D A right) of
        (Some left_task, Some right_task) \<Rightarrow>
          qhw_order_compare_groups order left_task right_task (og_ticket left) (og_ticket right)
      | _ \<Rightarrow> 0)"

definition group_rank ::
  "('h, 'l, 'q) ds \<Rightarrow> qhw_order_config \<Rightarrow> items \<Rightarrow> ('h, 'l, 'q) ordered_group arena \<Rightarrow> ptr \<Rightarrow> int list" where
  "group_rank D order A B g = (let gr = the (cells B g) in
     order_vector (order_keys order) (the (ordered_first_task D A gr)) (og_ticket gr))"

definition filled :: "('h, 'l, 'q) ds \<Rightarrow> items \<Rightarrow> ('h, 'l, 'q) ordered_group arena \<Rightarrow> ptr \<Rightarrow> bool" where
  "filled D A B g \<longleftrightarrow> (\<exists>gr t. cells B g = Some gr \<and> ordered_first_task D A gr = Some t)"

definition rank_cmp :: "(ptr \<Rightarrow> int list) \<Rightarrow> heap_cmp" where
  "rank_cmp R x y = vec_compare (R x) (R y)"

lemma rank_cmp_order [simp]: "cmp_order (rank_cmp R) S"
  by (auto simp: cmp_order_def rank_cmp_def)

lemma group_compare_items:
  "ordered_group_compare D s = items_compare (group_record_compare D (os_order s) (os_items s)) (os_group_store s)"
  by (auto simp: fun_eq_iff ordered_group_compare_def items_compare_def group_record_compare_def split: option.splits)

lemma filled_compare:
  "filled D A B x \<Longrightarrow> filled D A B y \<Longrightarrow>
   items_compare (group_record_compare D order A) B x y = rank_cmp (group_rank D order A B) x y"
  by (auto simp: filled_def items_compare_def group_record_compare_def rank_cmp_def group_rank_def
      qhw_order_compare_groups_def order_compare_loop_vec)

lemma filled_agree:
  "(\<And>x. x \<in> S \<Longrightarrow> filled D A B x) \<Longrightarrow> (\<And>x. x \<in> S \<Longrightarrow> R x = group_rank D order A B x) \<Longrightarrow>
   cmp_agree (rank_cmp R) (items_compare (group_record_compare D order A) B) S"
  by (simp add: cmp_agree_def filled_compare) (simp add: rank_cmp_def)

lemma filled_order:
  assumes "\<And>x. x \<in> S \<Longrightarrow> filled D A B x"
  shows "cmp_order (items_compare (group_record_compare D order A) B) S"
  using cmp_order_cong [of S "items_compare (group_record_compare D order A) B" "rank_cmp (group_rank D order A B)"]
    filled_compare [of D A B] assms by simp

subsection \<open>The invariant\<close>

abbreviation (input) put_group_index :: "nat \<Rightarrow> ('h, 'l, 'q) ordered_group \<Rightarrow> ('h, 'l, 'q) ordered_group" where
  "put_group_index \<equiv> \<lambda>i gr. gr\<lparr>og_heap_index := i\<rparr>"

sublocale datastructures \<subseteq> gx: indexed_heap D G og_heap_index put_group_index
  by unfold_locales simp_all

text \<open>The groups of the heap; all but those in \<^verbatim>\<open>Z\<close> are in place, and the others have an invalid index.\<close>

definition grouped :: "('h, 'l, 'q) ghost \<Rightarrow> 'q \<Rightarrow> ptr set" where
  "grouped G q = set (hp_items G q)"

definition group_heap_ok ::
  "('h, 'l, 'q) ds \<Rightarrow> ('h, 'l, 'q) ghost \<Rightarrow> qhw_order_config \<Rightarrow> ptr set \<Rightarrow> items \<Rightarrow> ('h, 'l, 'q) ordered_group arena \<Rightarrow> 'q \<Rightarrow> bool" where
  "group_heap_ok D G order Z A B q \<longleftrightarrow>
     (\<exists>R. hp_ok G (rank_cmp R) q \<and> (\<forall>g \<in> grouped G q - Z. R g = group_rank D order A B g)) \<and>
     distinct (hp_items G q) \<and> grouped G q \<subseteq> dom (cells B) \<and>
     indices_ok (index_at og_heap_index B) (hp_items G q) \<and>
     (\<forall>g gr. cells B g = Some gr \<longrightarrow> (og_heap_index gr \<noteq> heap_invalid_index D \<longleftrightarrow> g \<in> grouped G q))"

lemma group_heapD:
  assumes "group_heap_ok D G order Z A B q"
  obtains R where "hp_ok G (rank_cmp R) q" "\<And>g. g \<in> grouped G q \<Longrightarrow> g \<notin> Z \<Longrightarrow> R g = group_rank D order A B g"
    "distinct (hp_items G q)" "grouped G q \<subseteq> dom (cells B)" "indices_ok (index_at og_heap_index B) (hp_items G q)"
  using assms unfolding group_heap_ok_def by blast

lemma group_heap_index:
  "group_heap_ok D G order Z A B q \<Longrightarrow> cells B g = Some gr \<Longrightarrow> og_heap_index gr \<noteq> heap_invalid_index D \<longleftrightarrow> g \<in> grouped G q"
  unfolding group_heap_ok_def by blast

lemma moved_group:
  assumes "moved put_group_index S B B'" "cells B' g = Some gr'"
  obtains gr where "cells B g = Some gr" "og_ready gr' = og_ready gr" "og_ticket gr' = og_ticket gr" "og_key gr' = og_key gr"
proof -
  have "map_option (put_group_index 0) (cells B' g) = map_option (put_group_index 0) (cells B g)"
    using assms(1) by (simp add: moved_def)
  then obtain gr where gr: "cells B g = Some gr" "put_group_index 0 gr' = put_group_index 0 gr"
    using assms(2) by (cases "cells B g") simp_all
  show ?thesis
    by (rule that [OF gr(1)]) (use arg_cong [OF gr(2), of og_ready] arg_cong [OF gr(2), of og_ticket]
      arg_cong [OF gr(2), of og_key] in simp_all)
qed

lemma moved_first:
  assumes "moved put_group_index S B B'"
  shows "group_rank D order A B' = group_rank D order A B" "filled D A B' g \<longleftrightarrow> filled D A B g"
proof -
  have eq: "rel_option (\<lambda>x y. og_ready x = og_ready y \<and> og_ticket x = og_ticket y) (cells B' g) (cells B g)" for g
  proof (cases "cells B' g")
    case None
    then show ?thesis using moved_dom [OF assms, of g] by simp
  next
    case (Some gr')
    obtain gr where "cells B g = Some gr" "og_ready gr' = og_ready gr" "og_ticket gr' = og_ticket gr"
      by (rule moved_group [OF assms Some])
    then show ?thesis using Some by simp
  qed
  show "group_rank D order A B' = group_rank D order A B"
  proof (rule ext)
    fix g
    show "group_rank D order A B' g = group_rank D order A B g"
      using eq [of g] by (cases rule: option.rel_cases) (simp_all add: group_rank_def ordered_first_task_def)
  qed
  show "filled D A B' g \<longleftrightarrow> filled D A B g"
    using eq [of g] by (cases rule: option.rel_cases) (simp_all add: filled_def ordered_first_task_def)
qed

context datastructures
begin

lemma group_stable: "gx.stable (group_record_compare D order A)"
  unfolding gx.stable_def group_record_compare_def ordered_first_task_def by (auto split: option.split)

text \<open>From the state of the heap that the operations leave to the invariant.\<close>

lemma group_heapI:
  assumes ok: "heap_ok G og_heap_index (group_record_compare D order A) B q"
    and fl: "\<And>g. g \<in> grouped G q \<Longrightarrow> filled D A B g"
    and out: "\<And>g gr. cells B g = Some gr \<Longrightarrow> g \<notin> grouped G q \<Longrightarrow> og_heap_index gr = heap_invalid_index D"
  shows "group_heap_ok D G order {} A B q"
proof -
  have h: "hp_ok G (items_compare (group_record_compare D order A) B) q" "distinct (hp_items G q)"
    "set (hp_items G q) \<subseteq> dom (cells B)" "indices_ok (index_at og_heap_index B) (hp_items G q)"
    using ok by (simp_all add: heap_ok_def)
  have "hp_ok G (rank_cmp (group_rank D order A B)) q"
    by (rule hp_cong [OF h(1)]) (use fl in \<open>simp add: cmp_agree_def filled_compare grouped_def\<close>)
  moreover have "og_heap_index gr \<noteq> heap_invalid_index D" if g: "g \<in> grouped G q" "cells B g = Some gr" for g gr
  proof -
    obtain i where i: "i < length (hp_items G q)" "hp_items G q ! i = g" using g(1) by (auto simp: grouped_def in_set_conv_nth)
    then have "index_at og_heap_index B g = i" using h(4) by (auto simp: indices_ok_def)
    then have "og_heap_index gr = i" using g(2) by (simp add: index_at_def)
    then show ?thesis using i(1) hp_size [OF h(1)] by simp
  qed
  ultimately show ?thesis using h out unfolding group_heap_ok_def grouped_def by blast
qed

lemma group_heap_heap:
  assumes ok: "group_heap_ok D G order {} A B q" and fl: "\<And>g. g \<in> grouped G q \<Longrightarrow> filled D A B g"
  shows "heap_ok G og_heap_index (group_record_compare D order A) B q"
proof -
  obtain R where R: "hp_ok G (rank_cmp R) q" "\<And>g. g \<in> grouped G q \<Longrightarrow> g \<notin> {} \<Longrightarrow> R g = group_rank D order A B g"
    "distinct (hp_items G q)" "grouped G q \<subseteq> dom (cells B)" "indices_ok (index_at og_heap_index B) (hp_items G q)"
    by (rule group_heapD [OF ok]) blast
  have "hp_ok G (items_compare (group_record_compare D order A) B) q"
    by (rule hp_cong [OF R(1)]) (use filled_agree [of "grouped G q" D A B R order] fl R(2) in \<open>simp add: grouped_def\<close>)
  moreover have "cmp_order (items_compare (group_record_compare D order A) B) (set (hp_items G q))"
    by (rule filled_order) (use fl in \<open>simp add: grouped_def\<close>)
  ultimately show ?thesis using R by (simp add: heap_ok_def grouped_def)
qed

text \<open>Items and groups may change as long as the groups in the heap keep their ranks, except those that move to \<^verbatim>\<open>Z\<close>.\<close>

lemma group_heap_change:
  assumes ok: "group_heap_ok D G order Z A B q" and sub: "Z \<subseteq> Z'" and dm: "dom (cells B') = dom (cells B)"
    and ix: "\<And>g gr gr'. cells B g = Some gr \<Longrightarrow> cells B' g = Some gr' \<Longrightarrow> og_heap_index gr' = og_heap_index gr"
    and rk: "\<And>g. g \<in> grouped G q \<Longrightarrow> g \<notin> Z' \<Longrightarrow> group_rank D order A' B' g = group_rank D order A B g"
  shows "group_heap_ok D G order Z' A' B' q"
proof -
  obtain R where R: "hp_ok G (rank_cmp R) q" "\<And>g. g \<in> grouped G q \<Longrightarrow> g \<notin> Z \<Longrightarrow> R g = group_rank D order A B g"
    "distinct (hp_items G q)" "grouped G q \<subseteq> dom (cells B)" "indices_ok (index_at og_heap_index B) (hp_items G q)"
    by (rule group_heapD [OF ok]) blast
  have none: "cells B' g = None \<longleftrightarrow> cells B g = None" for g using dm unfolding dom_def by blast
  have at: "index_at og_heap_index B' g = index_at og_heap_index B g" for g
  proof (cases "cells B' g")
    case None
    then show ?thesis using none [of g] by (simp add: index_at_def)
  next
    case (Some gr')
    then obtain gr where "cells B g = Some gr" using none [of g] by auto
    then show ?thesis using ix [OF _ Some] Some by (simp add: index_at_def)
  qed
  have "og_heap_index gr' \<noteq> heap_invalid_index D \<longleftrightarrow> g \<in> grouped G q" if g: "cells B' g = Some gr'" for g gr'
  proof -
    obtain gr where gr: "cells B g = Some gr" using g none [of g] by auto
    show ?thesis using group_heap_index [OF ok gr] ix [OF gr g] by simp
  qed
  moreover have "\<forall>g \<in> grouped G q - Z'. R g = group_rank D order A' B' g" using R(2) rk sub by auto
  moreover have "indices_ok (index_at og_heap_index B') (hp_items G q)" using R(5) at by (simp add: indices_ok_def)
  ultimately show ?thesis using R(1,3,4) dm unfolding group_heap_ok_def by blast
qed

subsection \<open>The operations\<close>

lemma group_heap_after:
  assumes ok: "group_heap_ok D G order Z A B q" and mv: "moved put_group_index (grouped G q) B B'"
    and hk: "heap_ok G og_heap_index (group_record_compare D order A) B' q'" and eq: "grouped G q' = grouped G q"
    and fl: "\<And>x. x \<in> grouped G q \<Longrightarrow> filled D A B x"
  shows "group_heap_ok D G order {} A B' q'"
proof (rule group_heapI [OF hk])
  show "filled D A B' x" if "x \<in> grouped G q'" for x using fl moved_first(2) [OF mv] that eq by simp
  show "og_heap_index gr = heap_invalid_index D" if "cells B' x = Some gr" "x \<notin> grouped G q'" for x gr
    using that mv eq group_heap_index [OF ok, of x gr] by (simp add: moved_def)
qed

lemma group_reheapify:
  assumes ok: "group_heap_ok D G order Z A B q" and Z: "Z \<subseteq> {g}" and gr: "cells B g = Some gr" and g: "g \<in> grouped G q"
    and fl: "\<And>x. x \<in> grouped G q \<Longrightarrow> filled D A B x"
    and call: "heap_reheapify_at D (items_compare (group_record_compare D order A) B) q (og_heap_index gr) = (b, q', us)"
  shows "\<exists>B'. ordered_group_update_index us B = Some B' \<and> moved put_group_index (grouped G q) B B' \<and> b \<and>
    grouped G q' = grouped G q \<and> group_heap_ok D G order {} A B' q'"
proof -
  obtain R where R: "hp_ok G (rank_cmp R) q" "\<And>x. x \<in> grouped G q \<Longrightarrow> x \<notin> Z \<Longrightarrow> R x = group_rank D order A B x"
    "distinct (hp_items G q)" "grouped G q \<subseteq> dom (cells B)" "indices_ok (index_at og_heap_index B) (hp_items G q)"
    by (rule group_heapD [OF ok]) blast
  have at: "g \<in> set (hp_items G q)" "index_at og_heap_index B g = og_heap_index gr" using g gr by (simp_all add: grouped_def index_at_def)
  have agree: "cmp_agree (rank_cmp R) (items_compare (group_record_compare D order A) B) (set (hp_items G q) - {g})"
    by (rule filled_agree) (use fl R(2) Z in \<open>auto simp: grouped_def\<close>)
  have ord: "cmp_order (items_compare (group_record_compare D order A) B) (set (hp_items G q))"
    by (rule filled_order) (use fl in \<open>simp add: grouped_def\<close>)
  from gx.reheapify_ok [OF R(1,3) R(4) [unfolded grouped_def] R(5) at agree ord group_stable call] obtain B' where
    B': "ordered_group_update_index us B = Some B'" "moved put_group_index (grouped G q) B B'"
      "heap_ok G og_heap_index (group_record_compare D order A) B' q'" "b" "mset (hp_items G q') = mset (hp_items G q)"
    by (auto simp: ordered_group_update_index_def grouped_def)
  have "grouped G q' = grouped G q" using mset_eq_setD [OF B'(5)] by (simp add: grouped_def)
  then show ?thesis using B' group_heap_after [OF ok B'(2,3) _ fl] by blast
qed

lemma group_remove_at:
  assumes ok: "group_heap_ok D G order Z A B q" and Z: "Z \<subseteq> {g}" and gr: "cells B g = Some gr" and g: "g \<in> grouped G q"
    and fl: "\<And>x. x \<in> grouped G q \<Longrightarrow> x \<noteq> g \<Longrightarrow> filled D A B x"
    and call: "heap_remove_at D (items_compare (group_record_compare D order A) B) q (og_heap_index gr) = (r, q', us)"
  shows "\<exists>B'. ordered_group_update_index us B = Some B' \<and> moved put_group_index (grouped G q) B B' \<and>
    grouped G q' = grouped G q - {g} \<and>
    group_heap_ok D G order {} A (B'\<lparr>cells := (cells B')(g \<mapsto> gr\<lparr>og_heap_index := heap_invalid_index D\<rparr>)\<rparr>) q'"
proof -
  obtain R where R: "hp_ok G (rank_cmp R) q" "\<And>x. x \<in> grouped G q \<Longrightarrow> x \<notin> Z \<Longrightarrow> R x = group_rank D order A B x"
    "distinct (hp_items G q)" "grouped G q \<subseteq> dom (cells B)" "indices_ok (index_at og_heap_index B) (hp_items G q)"
    by (rule group_heapD [OF ok]) blast
  have at: "g \<in> set (hp_items G q)" "index_at og_heap_index B g = og_heap_index gr" using g gr by (simp_all add: grouped_def index_at_def)
  have agree: "cmp_agree (rank_cmp R) (items_compare (group_record_compare D order A) B) (set (hp_items G q) - {g})"
    by (rule filled_agree) (use fl R(2) Z in \<open>auto simp: grouped_def\<close>)
  have ord: "cmp_order (items_compare (group_record_compare D order A) B) (set (hp_items G q) - {g})"
    by (rule filled_order) (use fl in \<open>simp add: grouped_def\<close>)
  from gx.remove_at_ok [OF R(1,3) R(4) [unfolded grouped_def] R(5) at agree ord group_stable call] obtain B' where
    B': "ordered_group_update_index us B = Some B'" "moved put_group_index (grouped G q) B B'"
      "heap_ok G og_heap_index (group_record_compare D order A) B' q'" "mset (hp_items G q') = mset (hp_items G q) - {#g#}"
    by (auto simp: ordered_group_update_index_def grouped_def)
  have eq: "grouped G q' = grouped G q - {g}" using gx.items_diff(2) [OF R(3) B'(4)] by (simp add: grouped_def)
  let ?B = "B'\<lparr>cells := (cells B')(g \<mapsto> gr\<lparr>og_heap_index := heap_invalid_index D\<rparr>)\<rparr>"
  have "heap_ok G og_heap_index (group_record_compare D order A) ?B q'"
    by (rule heap_ok_outside [OF B'(3)]) (use eq in \<open>simp add: grouped_def\<close>)
  then have "group_heap_ok D G order {} A ?B q'"
  proof (rule group_heapI)
    fix x
    assume "x \<in> grouped G q'"
    then show "filled D A ?B x" using fl [of x] moved_first(2) [OF B'(2), of D A x] eq by (simp add: filled_def)
  next
    fix x xr
    assume x: "cells ?B x = Some xr" "x \<notin> grouped G q'"
    then show "og_heap_index xr = heap_invalid_index D"
      using B'(2) eq group_heap_index [OF ok, of x xr] by (cases "x = g") (auto simp: moved_def)
  qed
  then show ?thesis using B' eq by blast
qed

lemma group_push:
  assumes ok: "group_heap_ok D G order {} A B q" and g: "g \<notin> grouped G q"
    and fl: "\<And>x. x \<in> insert g (grouped G q) \<Longrightarrow> filled D A B x"
    and call: "heap_push D (items_compare (group_record_compare D order A) B) q g m = (b, q', us, m')"
  shows "\<exists>B'. ordered_group_update_index us B = Some B' \<and> moved put_group_index (insert g (grouped G q)) B B' \<and>
    group_heap_ok D G order {} A B' q' \<and> (if b then grouped G q' = insert g (grouped G q) else B' = B \<and> grouped G q' = grouped G q)"
proof -
  have hk: "heap_ok G og_heap_index (group_record_compare D order A) B q" by (rule group_heap_heap [OF ok]) (use fl in simp)
  have gd: "g \<in> dom (cells B)" using fl [of g] by (auto simp: filled_def)
  have ord: "cmp_order (items_compare (group_record_compare D order A) B) (insert g (set (hp_items G q)))"
    by (rule filled_order) (use fl in \<open>simp add: grouped_def\<close>)
  from gx.push_ok [OF hk group_stable g [unfolded grouped_def] gd ord call] obtain B' where
    B': "ordered_group_update_index us B = Some B'" "moved put_group_index (insert g (grouped G q)) B B'"
      "heap_ok G og_heap_index (group_record_compare D order A) B' q'"
    and res: "if b then mset (hp_items G q') = add_mset g (mset (hp_items G q)) else B' = B \<and> hp_items G q' = hp_items G q"
    by (auto simp: ordered_group_update_index_def grouped_def)
  have eq: "grouped G q' = (if b then insert g (grouped G q) else grouped G q)"
  proof (cases b)
    case True
    then show ?thesis using res by (metis grouped_def set_mset_add_mset_insert set_mset_mset)
  qed (use res in \<open>simp add: grouped_def\<close>)
  have "group_heap_ok D G order {} A B' q'"
  proof (rule group_heapI [OF B'(3)])
    show "filled D A B' x" if "x \<in> grouped G q'" for x
      using fl moved_first(2) [OF B'(2)] that eq by (auto split: if_splits)
    show "og_heap_index xr = heap_invalid_index D" if x: "cells B' x = Some xr" "x \<notin> grouped G q'" for x xr
    proof (cases b)
      case True
      then show ?thesis using x B'(2) eq group_heap_index [OF ok, of x xr] by (simp add: moved_def)
    next
      case False
      then have "B' = B" using res by simp
      then show ?thesis using x False eq group_heap_index [OF ok, of x xr] by simp
    qed
  qed
  then show ?thesis using B' eq res by (cases b) auto
qed

lemma group_pop:
  assumes ok: "group_heap_ok D G order {} A B q" and fl: "\<And>x. x \<in> grouped G q \<Longrightarrow> filled D A B x"
    and call: "heap_pop D (items_compare (group_record_compare D order A) B) q = (r, q', us)"
  shows "\<exists>B'. ordered_group_update_index us B = Some B' \<and> moved put_group_index (grouped G q) B B' \<and>
    (case r of
       None \<Rightarrow> grouped G q = {} \<and> grouped G q' = {} \<and> group_heap_ok D G order {} A B' q'
     | Some g \<Rightarrow> g \<in> grouped G q \<and> grouped G q' = grouped G q - {g} \<and>
         (\<forall>x \<in> grouped G q. group_rank D order A B g \<le> group_rank D order A B x) \<and>
         (\<forall>gr'. cells B' g = Some gr' \<longrightarrow> group_heap_ok D G order {} A
           (B'\<lparr>cells := (cells B')(g \<mapsto> gr'\<lparr>og_heap_index := heap_invalid_index D\<rparr>)\<rparr>) q'))"
proof -
  note hk = group_heap_heap [OF ok fl]
  from gx.pop_ok [OF hk group_stable call] obtain B' where
    B': "ordered_group_update_index us B = Some B'" "moved put_group_index (grouped G q) B B'"
      "heap_ok G og_heap_index (group_record_compare D order A) B' q'"
    and res: "case r of
       None \<Rightarrow> hp_items G q = [] \<and> hp_items G q' = []
     | Some p \<Rightarrow> p \<in> set (hp_items G q) \<and>
         (\<forall>x \<in> set (hp_items G q). items_compare (group_record_compare D order A) B p x \<le> 0) \<and>
         mset (hp_items G q') = mset (hp_items G q) - {#p#}"
    by (auto simp: ordered_group_update_index_def grouped_def)
  show ?thesis
  proof (cases r)
    case None
    then have e: "grouped G q = {}" "grouped G q' = {}" using res by (simp_all add: grouped_def)
    then have "group_heap_ok D G order {} A B' q'" using group_heap_after [OF ok B'(2,3)] by simp
    then show ?thesis using None e B' by auto
  next
    case (Some g)
    have dist: "distinct (hp_items G q)" using hk by (simp add: heap_ok_def)
    have g: "g \<in> grouped G q" "grouped G q' = grouped G q - {g}"
      using res Some gx.items_diff(2) [OF dist, of q' g] by (simp_all add: grouped_def)
    have least: "group_rank D order A B g \<le> group_rank D order A B x" if "x \<in> grouped G q" for x
    proof -
      have "items_compare (group_record_compare D order A) B g x \<le> 0" using res Some that by (simp add: grouped_def)
      then show ?thesis unfolding filled_compare [OF fl fl, OF g(1) that] rank_cmp_def by simp
    qed
    have "group_heap_ok D G order {} A (B'\<lparr>cells := (cells B')(g \<mapsto> gr'\<lparr>og_heap_index := heap_invalid_index D\<rparr>)\<rparr>) q'"
      (is "group_heap_ok D G order {} A ?B q'") if gr': "cells B' g = Some gr'" for gr'
    proof (rule group_heapI)
      show "heap_ok G og_heap_index (group_record_compare D order A) ?B q'"
        by (rule heap_ok_outside [OF B'(3)]) (use g in \<open>simp add: grouped_def\<close>)
      show "filled D A ?B x" if "x \<in> grouped G q'" for x
        using that fl [of x] moved_first(2) [OF B'(2), of D A x] g(2) by (simp add: filled_def)
      show "og_heap_index xr = heap_invalid_index D" if x: "cells ?B x = Some xr" "x \<notin> grouped G q'" for x xr
        using x B'(2) g(2) group_heap_index [OF ok, of x xr] by (cases "x = g") (auto simp: moved_def)
    qed
    then show ?thesis using Some B' g least by auto
  qed
qed

end

end
