(* ===== verification/Ordered_Rounds.thy ===== *)
theory Ordered_Rounds
  imports Ordered_Flat Group_Heap
begin

section \<open>The ordered policy with the round-robin key\<close>

text \<open>
  The invariant of the state that \<^verbatim>\<open>ordered.c\<close> keeps when the round-robin key is configured: the groups by key, the
  table from task identifiers to groups, the ready queues of the groups over one store of items with one refresh queue,
  and the heap of groups. The helper functions over groups keep it.
\<close>

subsection \<open>The parts of the state\<close>

definition queues :: "('h, 'l, 'q) ordered_group arena \<Rightarrow> ('h, 'l, 'q) queues" where
  "queues B g = map_option og_ready (cells B g)"

definition members :: "('h, 'l, 'q) ghost \<Rightarrow> ('h, 'l, 'q) ordered_state \<Rightarrow> ptr set" where
  "members G s = elems_of G (queues (os_group_store s))"

text \<open>The group \<^verbatim>\<open>g\<close> has the task \<^verbatim>\<open>k\<close>, whose item is \<^verbatim>\<open>p\<close>.\<close>

definition in_group :: "('h, 'l, 'q) ds \<Rightarrow> ('h, 'l, 'q) ordered_group arena \<Rightarrow> ptr \<Rightarrow> u64 \<Rightarrow> ptr \<Rightarrow> bool" where
  "in_group D B g k p \<longleftrightarrow> (\<exists>gr. cells B g = Some gr \<and> hash_table_find D (rq_by_id (og_ready gr)) k = Some p)"

definition keys_ok ::
  "('h, 'l, 'q) ds \<Rightarrow> ('h, 'l, 'q) ghost \<Rightarrow> 'h qhw_group_map \<Rightarrow> ('h, 'l, 'q) ordered_group arena \<Rightarrow> bool" where
  "keys_ok D G gm B \<longleftrightarrow> group_map_ok G gm \<and> arena_ok B \<and>
     (\<forall>g gr. cells B g = Some gr \<longrightarrow> qhw_group_map_find D gm (og_key gr) = Some g) \<and>
     (\<forall>key g. qhw_group_map_find D gm key = Some g \<longrightarrow> (\<exists>gr. cells B g = Some gr \<and> og_key gr = key))"

text \<open>Over the relation \<^verbatim>\<open>M\<close> of groups, tasks and items.\<close>

definition index_ok ::
  "('h, 'l, 'q) ds \<Rightarrow> ('h, 'l, 'q) ghost \<Rightarrow> 'h \<Rightarrow> ordered_task_index arena \<Rightarrow> (ptr \<Rightarrow> u64 \<Rightarrow> ptr \<Rightarrow> bool) \<Rightarrow> bool" where
  "index_ok D G h I M \<longleftrightarrow> ht_inv G h \<and> arena_ok I \<and>
     (\<forall>k i. hash_table_find D h k = Some i \<longrightarrow> (\<exists>ix p. cells I i = Some ix \<and> M (oi_group ix) k p)) \<and>
     (\<forall>g k p. M g k p \<longrightarrow> (\<exists>i ix. hash_table_find D h k = Some i \<and> cells I i = Some ix \<and> oi_group ix = g)) \<and>
     (\<forall>k j i. hash_table_find D h k = Some i \<longrightarrow> hash_table_find D h j = Some i \<longrightarrow> j = k)"

definition round_map :: "('h, 'l, 'q) ordered_state \<Rightarrow> 'h qhw_group_map" where
  "round_map s = the (os_groups s)"

definition round_table :: "('h, 'l, 'q) ordered_state \<Rightarrow> 'h" where
  "round_table s = the (os_group_tasks s)"

definition round_heap :: "('h, 'l, 'q) ordered_state \<Rightarrow> 'q" where
  "round_heap s = the (os_group_heap s)"

definition round_mode :: "('h, 'l, 'q) ordered_state \<Rightarrow> bool" where
  "round_mode s \<longleftrightarrow> os_use_round_robin s \<and> os_groups s \<noteq> None \<and> os_group_tasks s \<noteq> None \<and> os_group_heap s \<noteq> None"

definition in_rounds :: "('h, 'l, 'q) ds \<Rightarrow> ('h, 'l, 'q) ordered_state \<Rightarrow> ptr \<Rightarrow> u64 \<Rightarrow> ptr \<Rightarrow> bool" where
  "in_rounds D s = in_group D (os_group_store s)"

text \<open>
  \<^verbatim>\<open>Z\<close> holds the groups that may be out of place in the heap, \<^verbatim>\<open>E\<close> those without a task. Between two calls
  both are empty.
\<close>

definition rounds ::
  "('h, 'l, 'q) ds \<Rightarrow> ('h, 'l, 'q) ghost \<Rightarrow> ptr set \<Rightarrow> ptr set \<Rightarrow> ('h, 'l, 'q) ordered_state \<Rightarrow> bool" where
  "rounds D G Z E s \<longleftrightarrow> round_mode s \<and> keys_ok D G (round_map s) (os_group_store s) \<and>
     index_ok D G (round_table s) (os_index_store s) (in_rounds D s) \<and>
     shared D G (qhw_order_compare (os_order s)) (queues (os_group_store s)) (os_refresh s) (os_items s) \<and>
     group_heap_ok D G (os_order s) Z (os_items s) (os_group_store s) (round_heap s) \<and>
     (\<forall>g gr. cells (os_group_store s) g = Some gr \<longrightarrow> (rq_elems G (og_ready gr) = [] \<longleftrightarrow> g \<in> E))"

definition rounds_inv :: "('h, 'l, 'q) ds \<Rightarrow> ('h, 'l, 'q) ghost \<Rightarrow> ('h, 'l, 'q) ordered_state \<Rightarrow> bool" where
  "rounds_inv D G s \<longleftrightarrow> rounds D G {} {} s"

text \<open>The groups outside the heap.\<close>

definition outside :: "('h, 'l, 'q) ghost \<Rightarrow> ('h, 'l, 'q) ordered_state \<Rightarrow> ptr set" where
  "outside G s = dom (cells (os_group_store s)) - grouped G (round_heap s)"

lemma round_modeD:
  assumes "round_mode s"
  shows "os_use_round_robin s" "os_groups s = Some (round_map s)" "os_group_tasks s = Some (round_table s)"
    "os_group_heap s = Some (round_heap s)"
  using assms by (auto simp: round_mode_def round_map_def round_table_def round_heap_def)

lemma round_upd [simp]:
  "round_map (s\<lparr>os_groups := Some gm\<rparr>) = gm" "round_table (s\<lparr>os_groups := x\<rparr>) = round_table s" "round_heap (s\<lparr>os_groups := x\<rparr>) = round_heap s"
  "round_map (s\<lparr>os_group_tasks := y\<rparr>) = round_map s" "round_table (s\<lparr>os_group_tasks := Some h\<rparr>) = h"
  "round_heap (s\<lparr>os_group_tasks := y\<rparr>) = round_heap s"
  "round_map (s\<lparr>os_group_heap := z\<rparr>) = round_map s" "round_table (s\<lparr>os_group_heap := z\<rparr>) = round_table s"
  "round_heap (s\<lparr>os_group_heap := Some q\<rparr>) = q"
  "round_map (s\<lparr>os_group_store := B\<rparr>) = round_map s" "round_table (s\<lparr>os_group_store := B\<rparr>) = round_table s"
  "round_heap (s\<lparr>os_group_store := B\<rparr>) = round_heap s"
  "round_map (s\<lparr>os_index_store := I\<rparr>) = round_map s" "round_table (s\<lparr>os_index_store := I\<rparr>) = round_table s"
  "round_heap (s\<lparr>os_index_store := I\<rparr>) = round_heap s"
  "round_map (s\<lparr>os_items := A\<rparr>) = round_map s" "round_table (s\<lparr>os_items := A\<rparr>) = round_table s"
  "round_heap (s\<lparr>os_items := A\<rparr>) = round_heap s"
  "round_map (s\<lparr>os_refresh := r\<rparr>) = round_map s" "round_table (s\<lparr>os_refresh := r\<rparr>) = round_table s"
  "round_heap (s\<lparr>os_refresh := r\<rparr>) = round_heap s"
  "round_map (s\<lparr>os_next_group_ticket := n\<rparr>) = round_map s" "round_table (s\<lparr>os_next_group_ticket := n\<rparr>) = round_table s"
  "round_heap (s\<lparr>os_next_group_ticket := n\<rparr>) = round_heap s"
  by (simp_all add: round_map_def round_table_def round_heap_def)

lemma round_mode_upd [simp]:
  "round_mode s \<Longrightarrow> round_mode (s\<lparr>os_groups := Some gm\<rparr>)" "round_mode s \<Longrightarrow> round_mode (s\<lparr>os_group_tasks := Some h\<rparr>)"
  "round_mode s \<Longrightarrow> round_mode (s\<lparr>os_group_heap := Some q\<rparr>)" "round_mode (s\<lparr>os_group_store := B\<rparr>) = round_mode s"
  "round_mode (s\<lparr>os_index_store := I\<rparr>) = round_mode s" "round_mode (s\<lparr>os_items := A\<rparr>) = round_mode s"
  "round_mode (s\<lparr>os_refresh := r\<rparr>) = round_mode s" "round_mode (s\<lparr>os_next_group_ticket := n\<rparr>) = round_mode s"
  by (simp_all add: round_mode_def)

lemma roundsD:
  assumes "rounds D G Z E s"
  shows "round_mode s" "keys_ok D G (round_map s) (os_group_store s)"
    "index_ok D G (round_table s) (os_index_store s) (in_rounds D s)"
    "shared D G (qhw_order_compare (os_order s)) (queues (os_group_store s)) (os_refresh s) (os_items s)"
    "group_heap_ok D G (os_order s) Z (os_items s) (os_group_store s) (round_heap s)"
    "\<And>g gr. cells (os_group_store s) g = Some gr \<Longrightarrow> rq_elems G (og_ready gr) = [] \<longleftrightarrow> g \<in> E"
  using assms by (simp_all add: rounds_def)

lemma roundsI:
  assumes "round_mode s" "keys_ok D G (round_map s) (os_group_store s)"
    "index_ok D G (round_table s) (os_index_store s) (in_rounds D s)"
    "shared D G (qhw_order_compare (os_order s)) (queues (os_group_store s)) (os_refresh s) (os_items s)"
    "group_heap_ok D G (os_order s) Z (os_items s) (os_group_store s) (round_heap s)"
    "\<And>g gr. cells (os_group_store s) g = Some gr \<Longrightarrow> rq_elems G (og_ready gr) = [] \<longleftrightarrow> g \<in> E"
  shows "rounds D G Z E s"
  using assms by (simp add: rounds_def)

subsection \<open>Groups that only changed their place\<close>

definition same_groups :: "('h, 'l, 'q) ordered_group arena \<Rightarrow> ('h, 'l, 'q) ordered_group arena \<Rightarrow> bool" where
  "same_groups B B' \<longleftrightarrow> brk B' = brk B \<and>
     (\<forall>g. map_option (\<lambda>gr. gr\<lparr>og_heap_index := 0\<rparr>) (cells B' g) = map_option (\<lambda>gr. gr\<lparr>og_heap_index := 0\<rparr>) (cells B g))"

lemma moved_same_groups: "moved put_group_index S B B' \<Longrightarrow> same_groups B B'"
  by (simp add: moved_def same_groups_def)

lemma same_groups_refl [simp]: "same_groups B B"
  by (simp add: same_groups_def)

lemma same_groups_trans: "same_groups B B' \<Longrightarrow> same_groups B' B'' \<Longrightarrow> same_groups B B''"
  by (simp add: same_groups_def)

lemma same_group:
  assumes "same_groups B B'" "cells B g = Some gr"
  obtains gr' where "cells B' g = Some gr'" "og_ready gr' = og_ready gr" "og_ticket gr' = og_ticket gr" "og_key gr' = og_key gr"
proof -
  have "map_option (\<lambda>gr. gr\<lparr>og_heap_index := 0\<rparr>) (cells B' g) = Some (gr\<lparr>og_heap_index := 0\<rparr>)"
    using assms by (simp add: same_groups_def)
  then obtain gr' where gr: "cells B' g = Some gr'" "gr'\<lparr>og_heap_index := 0\<rparr> = gr\<lparr>og_heap_index := 0\<rparr>" by auto
  show ?thesis
    by (rule that [OF gr(1)]) (use arg_cong [OF gr(2), of og_ready] arg_cong [OF gr(2), of og_ticket]
      arg_cong [OF gr(2), of og_key] in simp_all)
qed

lemma same_groups_sym: "same_groups B B' \<Longrightarrow> same_groups B' B"
  by (simp add: same_groups_def)

lemma same_groups_dom: "same_groups B B' \<Longrightarrow> cells B' g = None \<longleftrightarrow> cells B g = None"
  by (metis same_groups_def option.map_disc_iff)

lemma same_queues:
  assumes "same_groups B B'"
  shows "queues B' = queues B"
proof (rule ext)
  fix g
  show "queues B' g = queues B g"
  proof (cases "cells B g")
    case None
    then show ?thesis using same_groups_dom [OF assms, of g] by (simp add: queues_def)
  next
    case (Some gr)
    obtain gr' where "cells B' g = Some gr'" "og_ready gr' = og_ready gr" by (rule same_group [OF assms Some]) blast
    then show ?thesis using Some by (simp add: queues_def)
  qed
qed

lemma in_group_queues: "in_group D B g k p \<longleftrightarrow> (\<exists>rq. queues B g = Some rq \<and> hash_table_find D (rq_by_id rq) k = Some p)"
  by (auto simp: in_group_def queues_def)

lemma in_group_same: "queues B' = queues B \<Longrightarrow> in_group D B' = in_group D B"
  by (simp add: fun_eq_iff in_group_queues)

lemma keys_ok_same:
  assumes ok: "keys_ok D G gm B" and same: "same_groups B B'"
  shows "keys_ok D G gm B'"
  unfolding keys_ok_def
proof (intro conjI allI impI)
  show "group_map_ok G gm" using ok by (simp add: keys_ok_def)
  show "arena_ok B'" using ok same same_groups_dom [OF same] by (auto simp: keys_ok_def arena_ok_def same_groups_def)
  show "qhw_group_map_find D gm (og_key gr) = Some g" if g: "cells B' g = Some gr" for g gr
  proof -
    obtain gr' where "cells B g = Some gr'" "og_key gr' = og_key gr" by (rule same_group [OF same_groups_sym [OF same] g]) blast
    then show ?thesis using ok unfolding keys_ok_def by metis
  qed
  show "\<exists>gr. cells B' g = Some gr \<and> og_key gr = key" if key: "qhw_group_map_find D gm key = Some g" for key g
  proof -
    obtain gr where gr: "cells B g = Some gr" "og_key gr = key" using ok key unfolding keys_ok_def by blast
    obtain gr' where "cells B' g = Some gr'" "og_key gr' = og_key gr" by (rule same_group [OF same gr(1)]) blast
    then show ?thesis using gr(2) by blast
  qed
qed

text \<open>A state in which groups only moved in the heap.\<close>

lemma rounds_regrouped:
  assumes ok: "rounds D G Z E s" and same: "same_groups (os_group_store s) B'"
    and heap: "group_heap_ok D G (os_order s) Z' (os_items s) B' q'"
  shows "rounds D G Z' E (s\<lparr>os_group_heap := Some q', os_group_store := B'\<rparr>)"
proof -
  note r = roundsD [OF ok]
  have q: "queues B' = queues (os_group_store s)" by (rule same_queues [OF same])
  have "rq_elems G (og_ready gr) = [] \<longleftrightarrow> g \<in> E" if g: "cells B' g = Some gr" for g gr
  proof -
    obtain gr' where "cells (os_group_store s) g = Some gr'" "og_ready gr' = og_ready gr"
      by (rule same_group [OF same_groups_sym [OF same] g]) blast
    then show ?thesis using r(6) by metis
  qed
  then show ?thesis using r(1,3,4) keys_ok_same [OF r(2) same] heap
    by (intro roundsI) (simp_all add: q in_rounds_def in_group_same [OF q])
qed

lemma regrouped_outside:
  assumes "same_groups (os_group_store s) B'" "grouped G q' = grouped G (round_heap s)"
  shows "outside G (s\<lparr>os_group_heap := Some q', os_group_store := B'\<rparr>) = outside G s"
  using assms same_groups_dom [OF assms(1)] by (auto simp: outside_def dom_def)

context datastructures
begin

text \<open>A group with a task has a first one.\<close>

lemma group_filled:
  assumes ok: "rounds D G Z E s" and g: "g \<notin> E" "cells (os_group_store s) g = Some gr"
  obtains p t where "rq_first (og_ready gr) (os_items s) p" "cells (os_items s) p = Some t"
    "ordered_first_task D (os_items s) gr = Some t" "filled D (os_items s) (os_group_store s) g"
proof -
  have rok: "ready_ok D G (og_ready gr) (os_items s)"
    by (rule shared_queue(1) [OF roundsD(4) [OF ok], where g = g]) (use g in \<open>simp add: queues_def\<close>)
  have "rq_elems G (og_ready gr) \<noteq> []" using roundsD(6) [OF ok g(2)] g(1) by simp
  then obtain p where p: "rq_first (og_ready gr) (os_items s) p" "qhw_ready_queue_peek D (og_ready gr) = Some (Some p)"
    using ready_peek_ok [OF rok] by (auto simp: succeeds_iff rq_first_def split: option.splits)
  obtain t where t: "cells (os_items s) p = Some t" using p(1) rok by (auto simp: rq_first_def ready_ok_def)
  have first: "ordered_first_task D (os_items s) gr = Some t" using p(2) t by (simp add: ordered_first_task_def)
  then show ?thesis using that [OF p(1) t first] g(2) by (simp add: filled_def)
qed

lemma grouped_dom: "rounds D G Z E s \<Longrightarrow> grouped G (round_heap s) \<subseteq> dom (cells (os_group_store s))"
  using roundsD(5) unfolding group_heap_ok_def by blast

lemma all_filled:
  assumes ok: "rounds D G Z E s" and x: "x \<in> grouped G (round_heap s)" "x \<notin> E"
  shows "filled D (os_items s) (os_group_store s) x"
proof -
  obtain gr where "cells (os_group_store s) x = Some gr" using grouped_dom [OF ok] x(1) by blast
  from group_filled [OF ok x(2) this] show ?thesis by blast
qed

subsection \<open>Restoring the place of a group\<close>

lemma reheapify_ok:
  assumes ok: "rounds D G Z {} s" and Z: "Z \<subseteq> {g}" and gr: "cells (os_group_store s) g = Some gr"
  obtains B' q' where "ordered_group_reheapify D s g = Some (QHW_SCHED_OK, s\<lparr>os_group_heap := Some q', os_group_store := B'\<rparr>)"
    "same_groups (os_group_store s) B'" "grouped G q' = grouped G (round_heap s)"
    "rounds D G {} {} (s\<lparr>os_group_heap := Some q', os_group_store := B'\<rparr>)"
proof -
  note r = roundsD [OF ok] and m = round_modeD [OF roundsD(1) [OF ok]]
  show ?thesis
  proof (cases "og_heap_index gr = heap_invalid_index D")
    case True
    then have out: "g \<notin> grouped G (round_heap s)" using group_heap_index [OF r(5) gr] by simp
    have "group_heap_ok D G (os_order s) {} (os_items s) (os_group_store s) (round_heap s)"
    proof -
      obtain R where "hp_ok G (rank_cmp R) (round_heap s)"
        "\<And>x. x \<in> grouped G (round_heap s) \<Longrightarrow> x \<notin> Z \<Longrightarrow> R x = group_rank D (os_order s) (os_items s) (os_group_store s) x"
        by (rule group_heapD [OF r(5)]) blast
      then show ?thesis using r(5) out Z unfolding group_heap_ok_def by blast
    qed
    then have "rounds D G {} {} s" using ok by (simp add: rounds_def)
    moreover have "s\<lparr>os_group_heap := Some (round_heap s), os_group_store := os_group_store s\<rparr> = s" using m(4) by simp
    ultimately show ?thesis using that [of "os_group_store s" "round_heap s"] gr True
      by (simp add: ordered_group_reheapify_def)
  next
    case False
    then have g: "g \<in> grouped G (round_heap s)" using group_heap_index [OF r(5) gr] by simp
    obtain b q' us where call: "heap_reheapify_at D (items_compare (group_record_compare D (os_order s) (os_items s)) (os_group_store s))
        (round_heap s) (og_heap_index gr) = (b, q', us)" by (metis prod_cases3)
    have fl: "filled D (os_items s) (os_group_store s) x" if "x \<in> grouped G (round_heap s)" for x
      using all_filled [OF ok that] by simp
    from group_reheapify [OF r(5) Z gr g fl call] obtain B' where B': "ordered_group_update_index us (os_group_store s) = Some B'"
      "moved put_group_index (grouped G (round_heap s)) (os_group_store s) B'" "b" "grouped G q' = grouped G (round_heap s)"
      "group_heap_ok D G (os_order s) {} (os_items s) B' q'" by blast
    note same = moved_same_groups [OF B'(2)]
    show ?thesis
      by (rule that [OF _ same B'(4) rounds_regrouped [OF ok same B'(5)]])
        (use gr False m(4) call B' in \<open>simp add: ordered_group_reheapify_def group_compare_items\<close>)
  qed
qed

end

subsection \<open>Groups without a task\<close>

text \<open>Nothing changed for the tasks.\<close>

definition calm :: "('h, 'l, 'q) ds \<Rightarrow> ('h, 'l, 'q) ghost \<Rightarrow> ('h, 'l, 'q) ordered_state \<Rightarrow> ('h, 'l, 'q) ordered_state \<Rightarrow> bool" where
  "calm D G s s' \<longleftrightarrow> os_order s' = os_order s \<and> os_split_config s' = os_split_config s \<and> os_refresh s' = os_refresh s \<and>
     os_items s' = os_items s \<and> members G s' = members G s \<and> in_rounds D s' = in_rounds D s"

lemma calm_refl [simp]: "calm D G s s"
  by (simp add: calm_def)

lemma calm_trans: "calm D G s s' \<Longrightarrow> calm D G s' s'' \<Longrightarrow> calm D G s s''"
  by (simp add: calm_def)

lemma calm_regrouped:
  assumes "same_groups (os_group_store s) B'"
  shows "calm D G s (s\<lparr>os_group_heap := q', os_group_store := B'\<rparr>)"
  by (simp add: calm_def members_def in_rounds_def same_queues [OF assms] in_group_same [OF same_queues [OF assms]])

lemma same_groups_put:
  "same_groups B B' \<Longrightarrow> cells B g = Some gr \<Longrightarrow> same_groups B (B'\<lparr>cells := (cells B')(g \<mapsto> gr\<lparr>og_heap_index := i\<rparr>)\<rparr>)"
  by (simp add: same_groups_def)

lemma group_heap_outside:
  assumes ok: "group_heap_ok D G order Z A B q" and g: "g \<notin> grouped G q" and same: "\<And>x. x \<noteq> g \<Longrightarrow> cells B' x = cells B x"
    and at: "\<And>gr. cells B' g = Some gr \<Longrightarrow> og_heap_index gr = heap_invalid_index D"
  shows "group_heap_ok D G order Z A B' q"
proof -
  obtain R where R: "hp_ok G (rank_cmp R) q" "\<And>x. x \<in> grouped G q \<Longrightarrow> x \<notin> Z \<Longrightarrow> R x = group_rank D order A B x"
    "distinct (hp_items G q)" "grouped G q \<subseteq> dom (cells B)" "indices_ok (index_at og_heap_index B) (hp_items G q)"
    by (rule group_heapD [OF ok]) blast
  have eq: "cells B' x = cells B x" if "x \<in> grouped G q" for x using same [of x] that g by (cases "x = g") simp_all
  have "R x = group_rank D order A B' x" if "x \<in> grouped G q - Z" for x using that R(2) [of x] eq [of x] by (simp add: group_rank_def)
  moreover have "indices_ok (index_at og_heap_index B') (hp_items G q)"
    using R(5) eq by (simp add: indices_ok_def index_at_def grouped_def)
  moreover have "grouped G q \<subseteq> dom (cells B')"
  proof
    fix x
    assume x: "x \<in> grouped G q"
    then have "cells B x \<noteq> None" using R(4) by blast
    then show "x \<in> dom (cells B')" using eq [OF x] by (simp add: domIff)
  qed
  moreover have "og_heap_index xr \<noteq> heap_invalid_index D \<longleftrightarrow> x \<in> grouped G q" if x: "cells B' x = Some xr" for x xr
    using x at g group_heap_index [OF ok, of x xr] same [of x] by (cases "x = g") simp_all
  ultimately show ?thesis using R(1,3) unfolding group_heap_ok_def by blast
qed

lemma shared_drop:
  assumes sh: "shared D G f Q rf A" and g: "Q g = Some rq" "rq_elems G rq = []"
  shows "shared D G f (Q(g := None)) rf A" "elems_of G (Q(g := None)) = elems_of G Q"
proof -
  show el: "elems_of G (Q(g := None)) = elems_of G Q" using elems_of_split [of Q g rq G] g by simp
  show "shared D G f (Q(g := None)) rf A" using sh unfolding shared_def el by auto
qed

lemma shared_new:
  assumes sh: "shared D G f Q rf A" and rq: "heap_queue_ok D G f rq A" "rq_elems G rq = []" and g: "Q g = None"
  shows "shared D G f (Q(g \<mapsto> rq)) rf A" "elems_of G (Q(g \<mapsto> rq)) = elems_of G Q"
proof -
  have "Q(g := None) = Q" using g by auto
  then show el: "elems_of G (Q(g \<mapsto> rq)) = elems_of G Q" using elems_of_upd [of G Q g rq] rq(2) by simp
  show "shared D G f (Q(g \<mapsto> rq)) rf A" using sh rq unfolding shared_def el by auto
qed

context datastructures
begin

lemma ready_fini_empty:
  assumes "ready_ok D G rq A" "rq_elems G rq = []"
  shows "qhw_ready_queue_fini D rq A = Some A"
proof -
  obtain A' where "qhw_ready_queue_fini D rq A = Some A'" "brk A' = brk A" "cells A' = cells A"
    using ready_fini_ok [OF assms(1)] assms(2) by (auto simp: succeeds_iff fun_eq_iff)
  then show ?thesis by simp
qed

lemma group_queue:
  assumes ok: "rounds D G Z E s" and gr: "cells (os_group_store s) g = Some gr"
  shows "ready_ok D G (og_ready gr) (os_items s)" "rq_kind (og_ready gr) = QHW_READY_QUEUE_HEAP"
    "rq_compare (og_ready gr) = Some (qhw_order_compare (os_order s))" "queues (os_group_store s) g = Some (og_ready gr)"
proof -
  show q: "queues (os_group_store s) g = Some (og_ready gr)" using gr by (simp add: queues_def)
  show "ready_ok D G (og_ready gr) (os_items s)" "rq_kind (og_ready gr) = QHW_READY_QUEUE_HEAP"
    "rq_compare (og_ready gr) = Some (qhw_order_compare (os_order s))"
    using shared_queue [OF roundsD(4) [OF ok] q] by simp_all
qed

lemma group_key_unique:
  "keys_ok D G gm B \<Longrightarrow> cells B g = Some gr \<Longrightarrow> cells B x = Some xr \<Longrightarrow> og_key xr = og_key gr \<Longrightarrow> x = g"
  unfolding keys_ok_def by (metis option.inject)

text \<open>Freeing a group that has no task and is in no heap.\<close>

lemma group_freed_ok:
  assumes ok: "rounds D G Z {g} s" and Z: "Z \<subseteq> {g}" and gr: "cells (os_group_store s) g = Some gr"
    and out: "g \<notin> grouped G (round_heap s)" and rem: "qhw_group_map_remove D (round_map s) (og_key gr) = (r, gm)"
  obtains B where "ordered_group_free D (s\<lparr>os_groups := Some gm\<rparr>) g = Some (s\<lparr>os_groups := Some gm, os_group_store := B\<rparr>)"
    "cells B = (cells (os_group_store s))(g := None)"
    "rounds D G {} {} (s\<lparr>os_groups := Some gm, os_group_store := B\<rparr>)" "calm D G s (s\<lparr>os_groups := Some gm, os_group_store := B\<rparr>)"
    "outside G (s\<lparr>os_groups := Some gm, os_group_store := B\<rparr>) = outside G s - {g}"
proof -
  note r = roundsD [OF ok] and gq = group_queue [OF ok gr]
  let ?B = "(os_group_store s)\<lparr>cells := (cells (os_group_store s))(g := None)\<rparr>"
  let ?s = "s\<lparr>os_groups := Some gm, os_group_store := ?B\<rparr>"
  have e: "rq_elems G (og_ready gr) = []" using r(6) [OF gr] by simp
  have call: "ordered_group_free D (s\<lparr>os_groups := Some gm\<rparr>) g = Some ?s"
    using gr ready_fini_empty [OF gq(1) e] by (simp add: ordered_group_free_def arena_free_def)
  have keys: "keys_ok D G (round_map s) (os_group_store s)" by (rule r(2))
  note m = group_map_remove_ok [OF _ rem]
  have k1: "keys_ok D G gm ?B"
    unfolding keys_ok_def
  proof (intro conjI allI impI)
    show "group_map_ok G gm" using m keys by (simp add: keys_ok_def)
    show "arena_ok ?B" using keys gr by (simp add: keys_ok_def)
    show "qhw_group_map_find D gm (og_key xr) = Some x" if x: "cells ?B x = Some xr" for x xr
    proof -
      have x': "cells (os_group_store s) x = Some xr" "x \<noteq> g" using x by (simp_all split: if_splits)
      then have "og_key xr \<noteq> og_key gr" using group_key_unique [OF keys gr x'(1)] by blast
      then show ?thesis using m keys x'(1) by (simp add: keys_ok_def)
    qed
    show "\<exists>xr. cells ?B x = Some xr \<and> og_key xr = key" if key: "qhw_group_map_find D gm key = Some x" for key x
    proof -
      have k: "qhw_group_map_find D (round_map s) key = Some x" "key \<noteq> og_key gr"
        using key m keys by (simp_all add: keys_ok_def split: if_splits)
      then obtain xr where "cells (os_group_store s) x = Some xr" "og_key xr = key" using keys unfolding keys_ok_def by blast
      then show ?thesis using gr k(2) by auto
    qed
  qed
  have q: "queues ?B = (queues (os_group_store s))(g := None)" by (auto simp: queues_def)
  have ig: "in_group D ?B = in_group D (os_group_store s)"
  proof (intro ext)
    fix x k p
    have "hash_table_find D (rq_by_id (og_ready gr)) k = None" using rq_ids_empty [OF gq(1)] e by (auto simp: rq_ids_def)
    then show "in_group D ?B x k p = in_group D (os_group_store s) x k p" using gr by (auto simp: in_group_def)
  qed
  have "rounds D G {} {} ?s"
  proof (rule roundsI)
    show "group_heap_ok D G (os_order ?s) {} (os_items ?s) (os_group_store ?s) (round_heap ?s)"
    proof -
      have "group_heap_ok D G (os_order s) Z (os_items s) ?B (round_heap s)" by (rule group_heap_outside [OF r(5) out]) auto
      then show ?thesis using out Z unfolding group_heap_ok_def by auto
    qed
    show "rq_elems G (og_ready xr) = [] \<longleftrightarrow> x \<in> {}" if "cells (os_group_store ?s) x = Some xr" for x xr
      using that r(6) [of x xr] by (simp split: if_splits)
  qed (use r k1 shared_drop(1) [OF r(4) gq(4) e] in \<open>simp_all add: q in_rounds_def ig\<close>)
  moreover have "calm D G s ?s"
    using shared_drop(2) [OF r(4) gq(4) e] by (simp add: calm_def members_def q in_rounds_def ig)
  moreover have "outside G ?s = outside G s - {g}" by (auto simp: outside_def)
  ultimately show ?thesis using that [OF call] by simp
qed

lemma group_destroy_ok:
  assumes ok: "rounds D G Z {g} s" and Z: "Z \<subseteq> {g}" and gr: "cells (os_group_store s) g = Some gr"
  shows "succeeds (ordered_group_destroy D s g) (\<lambda>s'. rounds D G {} {} s' \<and> calm D G s s' \<and> outside G s' = outside G s - {g})"
proof -
  note r = roundsD [OF ok] and m = round_modeD [OF roundsD(1) [OF ok]]
  obtain x gm where rem: "qhw_group_map_remove D (round_map s) (og_key gr) = (x, gm)" by force
  show ?thesis
  proof (cases "g \<in> grouped G (round_heap s)")
    case False
    then have "og_heap_index gr = heap_invalid_index D" using group_heap_index [OF r(5) gr] by simp
    then show ?thesis using gr m(2) rem by (auto simp: ordered_group_destroy_def intro: group_freed_ok [OF ok Z gr False rem])
  next
    case True
    then have ix: "og_heap_index gr \<noteq> heap_invalid_index D" using group_heap_index [OF r(5) gr] by simp
    obtain y q' us where call: "heap_remove_at D (items_compare (group_record_compare D (os_order s) (os_items s)) (os_group_store s))
        (round_heap s) (og_heap_index gr) = (y, q', us)" by (metis prod_cases3)
    have fl: "filled D (os_items s) (os_group_store s) x" if "x \<in> grouped G (round_heap s)" "x \<noteq> g" for x
      using all_filled [OF ok that(1)] that(2) by simp
    from group_remove_at [OF r(5) Z gr True fl call] obtain B' where B': "ordered_group_update_index us (os_group_store s) = Some B'"
      "moved put_group_index (grouped G (round_heap s)) (os_group_store s) B'" "grouped G q' = grouped G (round_heap s) - {g}"
      "group_heap_ok D G (os_order s) {} (os_items s) (B'\<lparr>cells := (cells B')(g \<mapsto> gr\<lparr>og_heap_index := heap_invalid_index D\<rparr>)\<rparr>) q'"
      by blast
    let ?gr = "gr\<lparr>og_heap_index := heap_invalid_index D\<rparr>"
    let ?B = "B'\<lparr>cells := (cells B')(g \<mapsto> ?gr)\<rparr>"
    let ?s = "s\<lparr>os_group_heap := Some q', os_group_store := ?B\<rparr>"
    note same = same_groups_put [OF moved_same_groups [OF B'(2)] gr]
    have put: "arena_put g ?gr B' = Some ?B"
      using moved_dom [OF B'(2), of g] gr by (simp add: arena_put_def split: option.split)
    have ok1: "rounds D G {} {g} ?s" by (rule rounds_regrouped [OF ok same B'(4)])
    have gr1: "cells (os_group_store ?s) g = Some ?gr" and out1: "g \<notin> grouped G (round_heap ?s)"
      and rem1: "qhw_group_map_remove D (round_map ?s) (og_key ?gr) = (x, gm)" using B'(3) rem by simp_all
    have dom1: "outside G ?s = insert g (outside G s)"
      using same_groups_dom [OF same] gr B'(3) by (auto simp: outside_def dom_def)
    have g1: "g \<notin> outside G s" using True by (simp add: outside_def)
    obtain B where B: "ordered_group_free D (?s\<lparr>os_groups := Some gm\<rparr>) g = Some (?s\<lparr>os_groups := Some gm, os_group_store := B\<rparr>)"
      "rounds D G {} {} (?s\<lparr>os_groups := Some gm, os_group_store := B\<rparr>)" "calm D G ?s (?s\<lparr>os_groups := Some gm, os_group_store := B\<rparr>)"
      "outside G (?s\<lparr>os_groups := Some gm, os_group_store := B\<rparr>) = outside G ?s - {g}"
      by (rule group_freed_ok [OF ok1 _ gr1 out1 rem1]) blast+
    have "calm D G s (?s\<lparr>os_groups := Some gm, os_group_store := B\<rparr>)" by (rule calm_trans [OF calm_regrouped [OF same] B(3)])
    then show ?thesis using gr ix m(2,4) rem call B'(1) put B dom1 g1
      by (simp add: ordered_group_destroy_def group_compare_items)
  qed
qed

text \<open>A new group.\<close>

lemma rounds_ticket: "rounds D G Z E (s\<lparr>os_next_group_ticket := n\<rparr>) = rounds D G Z E s"
  by (simp add: rounds_def in_rounds_def)

lemma keys_ok_brk: "keys_ok D G gm B \<Longrightarrow> keys_ok D G gm (B\<lparr>brk := Suc (brk B)\<rparr>)"
  by (auto simp: keys_ok_def arena_ok_def less_Suc_eq)

lemma group_heap_cells:
  "group_heap_ok D G order Z A B q \<Longrightarrow> cells B' = cells B \<Longrightarrow> group_heap_ok D G order Z A B' q"
  by (simp add: group_heap_ok_def group_rank_def [abs_def] index_at_def [abs_def])

lemma queues_cells: "cells B' = cells B \<Longrightarrow> queues B' = queues B"
  by (simp add: queues_def fun_eq_iff)

lemma rounds_same_cells:
  assumes ok: "rounds D G Z E s" and k: "keys_ok D G gm B" and same: "cells B = cells (os_group_store s)"
  shows "rounds D G Z E (s\<lparr>os_groups := Some gm, os_group_store := B\<rparr>)" "calm D G s (s\<lparr>os_groups := Some gm, os_group_store := B\<rparr>)"
    "outside G (s\<lparr>os_groups := Some gm, os_group_store := B\<rparr>) = outside G s"
proof -
  note r = roundsD [OF ok]
  have q: "queues B = queues (os_group_store s)" by (rule queues_cells [OF same])
  have h: "group_heap_ok D G (os_order s) Z (os_items s) B (round_heap s)" by (rule group_heap_cells [OF r(5) same])
  show "rounds D G Z E (s\<lparr>os_groups := Some gm, os_group_store := B\<rparr>)"
    using r(1,3,4,6) k h by (intro roundsI) (simp_all add: q in_rounds_def in_group_same [OF q] same)
  show "calm D G s (s\<lparr>os_groups := Some gm, os_group_store := B\<rparr>)"
    "outside G (s\<lparr>os_groups := Some gm, os_group_store := B\<rparr>) = outside G s"
    by (simp_all add: calm_def members_def in_rounds_def q in_group_same [OF q] outside_def same)
qed

lemma make_group_ok:
  assumes ok: "rounds D G {} {} s" and key: "valid_key key" and none: "qhw_group_map_find D (round_map s) key = None"
  shows "succeeds (ordered_group_create D s key m) (\<lambda>(r, s', m'). calm D G s s' \<and> os_group_tasks s' = os_group_tasks s \<and>
    os_index_store s' = os_index_store s \<and>
    (case r of None \<Rightarrow> rounds D G {} {} s' \<and> outside G s' = outside G s
     | Some g \<Rightarrow> rounds D G {} {g} s' \<and> outside G s' = insert g (outside G s) \<and> g \<notin> outside G s \<and>
         (\<exists>gr. cells (os_group_store s') g = Some gr \<and> og_key gr = key)))"
proof -
  note r = roundsD [OF ok] and mode = round_modeD [OF roundsD(1) [OF ok]]
  obtain got m1 where al: "mem_alloc m = (got, m1)" by force
  have cmp: "(\<lambda>left right. ordered_compare left right order) = qhw_order_compare order" for order
    by (simp add: ordered_compare_def fun_eq_iff)
  obtain rc rq m2 where init: "qhw_ready_queue_init D QHW_READY_QUEUE_HEAP (os_ready_flags s) (Some (qhw_order_compare (os_order s))) m1
      = (rc, rq, m2)" by (metis prod_cases3)
  have aok: "arena_ok (os_items s)" by (rule sharedD(1) [OF r(4)])
  note qi = ready_init_ok [OF init _ aok]
  let ?S = "os_group_store s"
  let ?g = "brk ?S" and ?n = "os_next_group_ticket s"
  let ?t = "s\<lparr>os_next_group_ticket := ?n + 1\<rparr>"
  have calm0: "calm D G s ?t" "outside G ?t = outside G s" by (simp_all add: calm_def members_def in_rounds_def outside_def)
  have new: "cells ?S ?g = None" using r(2) by (simp add: keys_ok_def arena_fresh)
  show ?thesis
  proof (cases "got \<and> rq \<noteq> None")
    case False
    then show ?thesis using al init ok calm0
      by (cases got) (auto simp: ordered_group_create_def Let_def cmp rounds_ticket)
  next
    case True
    then obtain q where q: "rq = Some q" by auto
    then have q': "ready_ok D G q (os_items s)" "rq_elems G q = []" "rq_ids D q = {}" "rq_kind q = QHW_READY_QUEUE_HEAP"
      "rq_compare q = Some (qhw_order_compare (os_order s))" using qi order_compare_ok by auto
    let ?gr = "\<lparr>og_key = key, og_ready = q, og_heap_index = heap_invalid_index D, og_ticket = ?n\<rparr>"
    let ?B = "?S\<lparr>cells := (cells ?S)(?g \<mapsto> ?gr), brk := Suc ?g\<rparr>"
    obtain rc2 gm m3 where ins: "qhw_group_map_insert D (round_map s) key ?g m2 = (rc2, gm, m3)" by (metis prod_cases3)
    have gok: "group_map_ok G (round_map s)" using r(2) by (simp add: keys_ok_def)
    note gi = group_map_insert_ok [OF gok key ins]
    have out: "?g \<notin> grouped G (round_heap s)" using grouped_dom [OF ok] new by auto
    show ?thesis
    proof (cases "rc2 = QHW_SCHED_OK")
      case False
      let ?B' = "?B\<lparr>cells := (cells ?B)(?g := None)\<rparr>"
      let ?s = "?t\<lparr>os_groups := Some gm, os_group_store := ?B'\<rparr>"
      have same: "cells ?B' = cells ?S" using new by auto
      have find: "qhw_group_map_find D gm = qhw_group_map_find D (round_map s)" using gi none False by simp
      have k: "keys_ok D G gm ?B'"
        using r(2) gi find same unfolding keys_ok_def by (auto simp: arena_ok_def less_Suc_eq)
      have ok1: "rounds D G {} {} ?t" using ok by (simp add: rounds_ticket)
      have "rounds D G {} {} ?s" "calm D G ?t ?s" "outside G ?s = outside G ?t"
        by (rule rounds_same_cells [OF ok1 k], use same in simp)+
      then have "rounds D G {} {} ?s" "calm D G s ?s" "outside G ?s = outside G s"
        using calm0 calm_trans by simp_all
      moreover have "ordered_group_create D s key m = Some (None, ?s, m3)"
        using True al init q mode(2) ins False ready_fini_empty [OF q'(1,2)]
        by (simp add: ordered_group_create_def cmp arena_alloc_def arena_free_def)
      ultimately show ?thesis by simp
    next
      case ok2: True
      let ?s = "?t\<lparr>os_groups := Some gm, os_group_store := ?B\<rparr>"
      have find: "qhw_group_map_find D gm = (qhw_group_map_find D (round_map s))(key \<mapsto> ?g)" using gi none ok2 by simp
      have k: "keys_ok D G gm ?B"
        unfolding keys_ok_def
      proof (intro conjI allI impI)
        show "group_map_ok G gm" using gi by simp
        show "arena_ok ?B" using r(2) by (simp add: keys_ok_def)
        show "qhw_group_map_find D gm (og_key xr) = Some x" if x: "cells ?B x = Some xr" for x xr
        proof (cases "x = ?g")
          case False
          then have x': "qhw_group_map_find D (round_map s) (og_key xr) = Some x" using x r(2) by (simp add: keys_ok_def)
          then have "og_key xr \<noteq> key" using none by auto
          then show ?thesis using x' find by simp
        next
          case True
          then have "og_key xr = key" using x by auto
          then show ?thesis using True find by simp
        qed
        show "\<exists>xr. cells ?B x = Some xr \<and> og_key xr = k" if k: "qhw_group_map_find D gm k = Some x" for k x
        proof (cases "k = key")
          case False
          then have "qhw_group_map_find D (round_map s) k = Some x" using k find by simp
          then obtain xr where "cells ?S x = Some xr" "og_key xr = k" using r(2) unfolding keys_ok_def by blast
          then show ?thesis using new by auto
        qed (use k find in simp)
      qed
      have qn: "queues ?B = (queues ?S)(?g \<mapsto> q)" "queues ?S ?g = None" using new by (auto simp: queues_def)
      have ig: "in_group D ?B = in_group D ?S"
      proof (intro ext)
        fix x j p
        have "hash_table_find D (rq_by_id q) j = None" using q'(3) by (auto simp: rq_ids_def)
        then show "in_group D ?B x j p = in_group D ?S x j p" using new by (auto simp: in_group_def)
      qed
      have hq: "heap_queue_ok D G (qhw_order_compare (os_order s)) q (os_items s)" using q' by (simp add: heap_queue_ok_def)
      note sn = shared_new [OF r(4) hq q'(2) qn(2)]
      have "rounds D G {} {?g} ?s"
      proof (rule roundsI)
        show "group_heap_ok D G (os_order ?s) {} (os_items ?s) (os_group_store ?s) (round_heap ?s)"
          using group_heap_outside [OF r(5) out, of ?B] by simp
        show "rq_elems G (og_ready xr) = [] \<longleftrightarrow> x \<in> {?g}" if "cells (os_group_store ?s) x = Some xr" for x xr
          using that r(6) [of x xr] q'(2) by (cases "x = ?g") auto
      qed (use r k sn(1) qn in \<open>simp_all add: in_rounds_def ig\<close>)
      moreover have "calm D G s ?s" using sn(2) qn by (simp add: calm_def members_def in_rounds_def ig)
      moreover have "outside G ?s = insert ?g (outside G s)" "?g \<notin> outside G s" using new out by (auto simp: outside_def)
      moreover have "ordered_group_create D s key m = Some (Some ?g, ?s, m3)"
        using True al init q mode(2) ins ok2 by (simp add: ordered_group_create_def cmp arena_alloc_def Let_def)
      ultimately show ?thesis by simp
    qed
  qed
qed

lemma find_group_ok:
  assumes ok: "rounds D G {} {} s" and key: "valid_key key"
  shows "succeeds (ordered_group_get D s key m) (\<lambda>(r, s', m'). calm D G s s' \<and> os_group_tasks s' = os_group_tasks s \<and>
    os_index_store s' = os_index_store s \<and>
    (case r of None \<Rightarrow> rounds D G {} {} s' \<and> outside G s' = outside G s
     | Some g \<Rightarrow> (\<exists>gr. cells (os_group_store s') g = Some gr \<and> og_key gr = key) \<and>
         (rounds D G {} {} s' \<and> outside G s' = outside G s \<or>
          rounds D G {} {g} s' \<and> outside G s' = insert g (outside G s) \<and> g \<notin> outside G s)))"
proof (cases "qhw_group_map_find D (round_map s) key")
  case None
  then show ?thesis using round_modeD(2) [OF roundsD(1) [OF ok]]
    by (simp add: ordered_group_get_def) (rule succeeds_mono [OF make_group_ok [OF ok key None]], auto split: option.splits)
next
  case (Some g)
  then obtain gr where "cells (os_group_store s) g = Some gr" "og_key gr = key"
    using roundsD(2) [OF ok] unfolding keys_ok_def by blast
  then show ?thesis using Some ok round_modeD(2) [OF roundsD(1) [OF ok]] by (simp add: ordered_group_get_def)
qed

end

subsection \<open>Ranks under a change of the items\<close>

text \<open>The fields of an item that a comparison reads.\<close>

definition sort_key :: "qhw_ready_task \<Rightarrow> qhw_sched_task_desc \<times> i64 \<times> u64 \<times> u64" where
  "sort_key t = (rt_desc t, effective_priority t, seq t, rt_estimated_cost t)"

lemma sort_key_simps [simp]:
  "sort_key (core t) = sort_key t" "sort_key (t\<lparr>next_refresh_ns := n\<rparr>) = sort_key t"
  "sort_key (t\<lparr>base_priority := b\<rparr>) = sort_key t"
  by (simp_all add: sort_key_def)

lemma sort_key_vector: "sort_key t = sort_key u \<Longrightarrow> order_vector keys t ticket = order_vector keys u ticket"
  by (simp add: sort_key_def order_vector_def key_rank_def cong: if_cong)

definition same_keys :: "items \<Rightarrow> items \<Rightarrow> ptr \<Rightarrow> bool" where
  "same_keys A A' p \<longleftrightarrow> map_option sort_key (look A' p) = map_option sort_key (look A p)"

lemma same_keys_refl [simp]: "same_keys A A p"
  by (simp add: same_keys_def)

lemma group_rank_eq:
  assumes B: "cells B x = Some xr" "cells B' x = Some xr'" "og_ready xr' = og_ready xr" "og_ticket xr' = og_ticket xr"
    and A: "\<And>p. qhw_ready_queue_peek D (og_ready xr) = Some (Some p) \<Longrightarrow> same_keys A A' p"
  shows "group_rank D order A' B' x = group_rank D order A B x"
proof -
  have "rel_option (\<lambda>t u. sort_key t = sort_key u) (ordered_first_task D A' xr') (ordered_first_task D A xr)"
  proof (cases "qhw_ready_queue_peek D (og_ready xr)")
    case None
    then show ?thesis using B(3) by (simp add: ordered_first_task_def)
  next
    case (Some r)
    show ?thesis
    proof (cases r)
      case None
      then show ?thesis using Some B(3) by (simp add: ordered_first_task_def)
    next
      case (Some p)
      then have "map_option sort_key (cells A' p) = map_option sort_key (cells A p)"
        using A [of p] \<open>qhw_ready_queue_peek D (og_ready xr) = Some r\<close>
        by (simp add: same_keys_def look_def option.map_comp o_def)
      then show ?thesis using Some \<open>qhw_ready_queue_peek D (og_ready xr) = Some r\<close> B(3)
        by (cases "cells A' p"; cases "cells A p") (simp_all add: ordered_first_task_def)
    qed
  qed
  then have "order_vector keys (the (ordered_first_task D A' xr')) ticket = order_vector keys (the (ordered_first_task D A xr)) ticket"
    for keys ticket
    by (cases rule: option.rel_cases) (simp_all, rule sort_key_vector, simp)
  then show ?thesis using B by (simp add: group_rank_def)
qed

context datastructures
begin

lemma peeked_elem: "ready_ok D G rq A \<Longrightarrow> qhw_ready_queue_peek D rq = Some (Some p) \<Longrightarrow> p \<in> set (rq_elems G rq)"
  using ready_peek_ok [of rq A] by (auto simp: rq_first_def)

text \<open>New items, with the keys of all firsts but that of \<^verbatim>\<open>g\<close>, and a new ready queue in \<^verbatim>\<open>g\<close>.\<close>

lemma group_heap_items:
  assumes ok: "rounds D G Z E s" and Z: "Z \<subseteq> Z'"
    and A: "\<And>x xr p. cells (os_group_store s) x = Some xr \<Longrightarrow> x \<notin> Z' \<Longrightarrow> p \<in> set (rq_elems G (og_ready xr)) \<Longrightarrow> same_keys (os_items s) A' p"
    and B: "\<And>x. map_option (\<lambda>xr. (og_heap_index xr, og_ticket xr)) (cells B' x) =
        map_option (\<lambda>xr. (og_heap_index xr, og_ticket xr)) (cells (os_group_store s) x)"
      "\<And>x. x \<notin> Z' \<Longrightarrow> cells B' x = cells (os_group_store s) x"
  shows "group_heap_ok D G (os_order s) Z' A' B' (round_heap s)"
proof (rule group_heap_change [OF roundsD(5) [OF ok] Z])
  have "cells B' x = None \<longleftrightarrow> cells (os_group_store s) x = None" for x
    using B(1) [of x] by (cases "cells B' x"; cases "cells (os_group_store s) x") simp_all
  then show "dom (cells B') = dom (cells (os_group_store s))" by (simp add: dom_def)
  show "og_heap_index gr' = og_heap_index gr" if "cells (os_group_store s) g = Some gr" "cells B' g = Some gr'" for g gr gr'
    using B(1) [of g] by (simp add: that)
  show "group_rank D (os_order s) A' B' x = group_rank D (os_order s) (os_items s) (os_group_store s) x"
    if x: "x \<in> grouped G (round_heap s)" "x \<notin> Z'" for x
  proof -
    obtain xr where xr: "cells (os_group_store s) x = Some xr" using grouped_dom [OF ok] x(1) by blast
    have xr': "cells B' x = Some xr" using B(2) [OF x(2)] xr by simp
    show ?thesis
    proof (rule group_rank_eq [OF xr xr'])
      show "same_keys (os_items s) A' p" if p: "qhw_ready_queue_peek D (og_ready xr) = Some (Some p)" for p
        by (rule A [OF xr x(2) peeked_elem [OF group_queue(1) [OF ok xr] p]])
    qed simp_all
  qed
qed

lemma in_roundsE:
  assumes ok: "rounds D G Z E s" and k: "in_rounds D s g k p"
  obtains gr t where "cells (os_group_store s) g = Some gr" "hash_table_find D (rq_by_id (og_ready gr)) k = Some p"
    "p \<in> set (rq_elems G (og_ready gr))" "p \<in> members G s" "cells (os_items s) p = Some t" "task_id (rt_desc t) = k"
proof -
  obtain gr where gr: "cells (os_group_store s) g = Some gr" "hash_table_find D (rq_by_id (og_ready gr)) k = Some p"
    using k by (auto simp: in_rounds_def in_group_def)
  note gq = group_queue [OF ok gr(1)]
  from ready_find [OF gq(1) gr(2)] obtain t where t: "p \<in> set (rq_elems G (og_ready gr))" "cells (os_items s) p = Some t"
    "task_id (rt_desc t) = k" by blast
  show ?thesis by (rule that [OF gr t(1) _ t(2,3)]) (simp add: members_def elems_of_in [of "queues (os_group_store s)" g, OF gq(4) t(1)])
qed

text \<open>A task is in one group, as one item.\<close>

lemma in_rounds_unique:
  assumes ok: "rounds D G Z E s" and k: "in_rounds D s g k p" "in_rounds D s x k q"
  shows "x = g" "q = p"
proof -
  have "\<exists>i ix. hash_table_find D (round_table s) k = Some i \<and> cells (os_index_store s) i = Some ix \<and> oi_group ix = y"
    if "in_rounds D s y k z" for y z
    using roundsD(3) [OF ok] that unfolding index_ok_def by blast
  from this [OF k(1)] this [OF k(2)] show x: "x = g" by auto
  show "q = p" using k x by (auto simp: in_rounds_def in_group_def)
qed

lemma in_rounds_elem:
  assumes ok: "rounds D G Z E s" and p: "p \<in> members G s"
  obtains g k where "in_rounds D s g k p"
proof -
  obtain g rq t where g: "queues (os_group_store s) g = Some rq" "p \<in> set (rq_elems G rq)" "cells (os_items s) p = Some t"
    "hash_table_find D (rq_by_id rq) (task_id (rt_desc t)) = Some p"
    by (rule shared_elem [OF roundsD(4) [OF ok] p [unfolded members_def]])
  have "in_rounds D s g (task_id (rt_desc t)) p" using g(1,4) by (auto simp: in_rounds_def in_group_queues)
  then show ?thesis by (rule that)
qed

lemma task_group_found:
  assumes ok: "rounds D G Z E s" and k: "in_rounds D s g k p"
  shows "ordered_task_group D s k = Some (Some g)"
proof -
  obtain i ix where "hash_table_find D (round_table s) k = Some i" "cells (os_index_store s) i = Some ix" "oi_group ix = g"
    using roundsD(3) [OF ok] k unfolding index_ok_def by blast
  then show ?thesis using round_modeD(3) [OF roundsD(1) [OF ok]] by (simp add: ordered_task_group_def)
qed

lemma task_group_none:
  assumes ok: "rounds D G Z E s" and k: "\<And>g p. \<not> in_rounds D s g k p"
  shows "hash_table_find D (round_table s) k = None"
  using roundsD(3) [OF ok] k unfolding index_ok_def by (metis option.exhaust)

lemma find_ready_task_ok:
  assumes ok: "rounds D G Z E s"
  shows "ordered_find_ready_task D s k = Some (if \<exists>g p. in_rounds D s g k p then Some (THE p. \<exists>g. in_rounds D s g k p) else None)"
    "in_rounds D s g k p \<Longrightarrow> ordered_find_ready_task D s k = Some (Some p)"
proof -
  note mode = round_modeD [OF roundsD(1) [OF ok]]
  show found: "ordered_find_ready_task D s k = Some (Some p)" if k: "in_rounds D s g k p" for g p
    using k task_group_found [OF ok k] mode(1) by (auto simp: ordered_find_ready_task_def in_rounds_def in_group_def qhw_ready_queue_find_def)
  show "ordered_find_ready_task D s k = Some (if \<exists>g p. in_rounds D s g k p then Some (THE p. \<exists>g. in_rounds D s g k p) else None)"
  proof (cases "\<exists>g p. in_rounds D s g k p")
    case True
    then obtain g p where k: "in_rounds D s g k p" by blast
    have "(THE p. \<exists>g. in_rounds D s g k p) = p" using k in_rounds_unique(2) [OF ok k] by blast
    then show ?thesis using found [OF k] True by simp
  next
    case False
    then show ?thesis using task_group_none [OF ok, of k] mode
      by (simp add: ordered_find_ready_task_def ordered_task_group_def)
  qed
qed

end

end
