(* ===== verification/Rounds_Refresh.thy ===== *)
theory Rounds_Refresh
  imports Ordered_Rounds
begin

section \<open>Recomputing boosts with the round-robin key\<close>

text \<open>
  A boost that changes may move its task within its group and the group within the heap. The loop over the due boosts is
  the one of \<^verbatim>\<open>boost_loop\<close>.
\<close>

subsection \<open>A new ready queue in a group\<close>

text \<open>The parts of the state that hold no place and no boost.\<close>

definition grouping :: "('h, 'l, 'q) ordered_state \<Rightarrow> ptr \<rightharpoonup> qhw_group_key \<times> u64" where
  "grouping s = map_option (\<lambda>gr. (og_key gr, og_ticket gr)) \<circ> cells (os_group_store s)"

definition round_keep :: "('h, 'l, 'q) ds \<Rightarrow> ('h, 'l, 'q) ghost \<Rightarrow> ('h, 'l, 'q) ordered_state \<Rightarrow> ('h, 'l, 'q) ordered_state \<Rightarrow> bool" where
  "round_keep D G s s' \<longleftrightarrow> os_order s' = os_order s \<and> os_split_config s' = os_split_config s \<and>
     os_next_group_ticket s' = os_next_group_ticket s \<and> members G s' = members G s \<and> in_rounds D s' = in_rounds D s \<and>
     outside G s' = outside G s \<and> grouping s' = grouping s"

lemma round_keep_refl [simp]: "round_keep D G s s"
  by (simp add: round_keep_def)

lemma round_keep_trans: "round_keep D G s s' \<Longrightarrow> round_keep D G s' s'' \<Longrightarrow> round_keep D G s s''"
  by (simp add: round_keep_def)

lemma grouping_same_groups:
  assumes "same_groups (os_group_store s) B'"
  shows "grouping (s\<lparr>os_group_heap := q, os_group_store := B'\<rparr>) = grouping s"
proof (rule ext)
  fix g
  show "grouping (s\<lparr>os_group_heap := q, os_group_store := B'\<rparr>) g = grouping s g"
  proof (cases "cells (os_group_store s) g")
    case None
    then show ?thesis using same_groups_dom [OF assms, of g] by (simp add: grouping_def)
  next
    case (Some gr)
    obtain gr' where "cells B' g = Some gr'" "og_ticket gr' = og_ticket gr" "og_key gr' = og_key gr"
      by (rule same_group [OF assms Some]) blast
    then show ?thesis using Some by (simp add: grouping_def)
  qed
qed

lemma rounds_trim:
  assumes "rounds D G Z E s" "Z \<inter> grouped G (round_heap s) = {}"
  shows "rounds D G {} E s"
proof -
  have "group_heap_ok D G (os_order s) {} (os_items s) (os_group_store s) (round_heap s)"
    using roundsD(5) [OF assms(1)] assms(2) unfolding group_heap_ok_def by fastforce
  then show ?thesis using assms(1) by (simp add: rounds_def)
qed

abbreviation (input) put_ready ::
  "ptr \<Rightarrow> ('h, 'l, 'q) ordered_group \<Rightarrow> ('h, 'l, 'q) qhw_ready_queue \<Rightarrow> ('h, 'l, 'q) ordered_group arena \<Rightarrow>
   ('h, 'l, 'q) ordered_group arena" where
  "put_ready g gr rq B \<equiv> B\<lparr>cells := (cells B)(g \<mapsto> gr\<lparr>og_ready := rq\<rparr>)\<rparr>"

lemma queues_put [simp]: "queues (put_ready g gr rq B) = (queues B)(g \<mapsto> rq)"
  by (auto simp: queues_def)

lemma keys_ok_put:
  assumes k: "keys_ok D G gm B" and gr: "cells B g = Some gr" and gr': "og_key gr' = og_key gr"
  shows "keys_ok D G gm (B\<lparr>cells := (cells B)(g \<mapsto> gr')\<rparr>)"
  unfolding keys_ok_def
proof (intro conjI allI impI)
  show "group_map_ok G gm" "arena_ok (B\<lparr>cells := (cells B)(g \<mapsto> gr')\<rparr>)" using k gr by (auto simp: keys_ok_def arena_ok_def)
  show "qhw_group_map_find D gm (og_key xr) = Some x" if "cells (B\<lparr>cells := (cells B)(g \<mapsto> gr')\<rparr>) x = Some xr" for x xr
    using that k gr gr' by (cases "x = g") (auto simp: keys_ok_def)
  show "\<exists>xr. cells (B\<lparr>cells := (cells B)(g \<mapsto> gr')\<rparr>) x = Some xr \<and> og_key xr = key"
    if key: "qhw_group_map_find D gm key = Some x" for key x
  proof -
    obtain xr where "cells B x = Some xr" "og_key xr = key" using k key unfolding keys_ok_def by blast
    then show ?thesis using gr gr' by (cases "x = g") auto
  qed
qed

context datastructures
begin

lemma rounds_requeue:
  assumes ok: "rounds D G Z E s" and Z: "Z \<subseteq> {g}" and gr: "cells (os_group_store s) g = Some gr"
    and s': "round_mode s'" "os_order s' = os_order s" "round_map s' = round_map s" "round_heap s' = round_heap s"
      "os_group_store s' = put_ready g gr rq (os_group_store s)"
    and idx: "index_ok D G (round_table s') (os_index_store s') (in_rounds D s')"
    and sh: "shared D G (qhw_order_compare (os_order s)) ((queues (os_group_store s))(g \<mapsto> rq)) (os_refresh s') (os_items s')"
    and its: "\<And>x xr p. cells (os_group_store s) x = Some xr \<Longrightarrow> x \<noteq> g \<Longrightarrow> p \<in> set (rq_elems G (og_ready xr)) \<Longrightarrow>
        same_keys (os_items s) (os_items s') p"
    and E: "E' - {g} = E - {g}" "rq_elems G rq = [] \<longleftrightarrow> g \<in> E'"
  shows "rounds D G {g} E' s'" "outside G s' = outside G s" "grouping s' = grouping s"
proof -
  note r = roundsD [OF ok]
  have "group_heap_ok D G (os_order s) {g} (os_items s') (os_group_store s') (round_heap s)"
    by (rule group_heap_items [OF ok Z]) (use its gr in \<open>auto simp: s'(5)\<close>)
  moreover have "keys_ok D G (round_map s') (os_group_store s')"
    using keys_ok_put [OF r(2) gr, of "gr\<lparr>og_ready := rq\<rparr>"] by (simp add: s'(3,5))
  moreover have "rq_elems G (og_ready xr) = [] \<longleftrightarrow> x \<in> E'" if x: "cells (os_group_store s') x = Some xr" for x xr
  proof (cases "x = g")
    case True
    then show ?thesis using x E(2) by (simp add: s'(5)) auto
  next
    case False
    then show ?thesis using x E(1) r(6) [of x xr] by (auto simp: s'(5))
  qed
  ultimately show "rounds D G {g} E' s'" using s' idx sh by (intro roundsI) simp_all
  show "outside G s' = outside G s" using s' gr by (auto simp: outside_def)
  show "grouping s' = grouping s" using gr by (simp add: grouping_def s'(5) fun_eq_iff)
qed

text \<open>New items alone.\<close>

lemma rounds_items:
  assumes ok: "rounds D G Z E s"
    and sh: "shared D G (qhw_order_compare (os_order s)) (queues (os_group_store s)) rf A"
    and its: "\<And>p. same_keys (os_items s) A p"
  shows "rounds D G Z E (s\<lparr>os_refresh := rf, os_items := A\<rparr>)" "round_keep D G s (s\<lparr>os_refresh := rf, os_items := A\<rparr>)"
proof -
  note r = roundsD [OF ok]
  have "group_heap_ok D G (os_order s) Z A (os_group_store s) (round_heap s)"
    by (rule group_heap_items [OF ok]) (use its in auto)
  then show "rounds D G Z E (s\<lparr>os_refresh := rf, os_items := A\<rparr>)"
    using r sh by (intro roundsI) (simp_all add: in_rounds_def)
  show "round_keep D G s (s\<lparr>os_refresh := rf, os_items := A\<rparr>)"
    by (simp add: round_keep_def members_def in_rounds_def outside_def grouping_def)
qed

lemma same_keys_look: "look A' p = look A p \<Longrightarrow> same_keys A A' p"
  by (simp add: same_keys_def)

lemma same_keys_upd:
  "look A' = (look A)(p := map_option f (look A p)) \<Longrightarrow> (\<And>t. sort_key (f t) = sort_key t) \<Longrightarrow> same_keys A A' x"
  by (cases "x = p") (simp_all add: same_keys_def option.map_comp o_def)

lemma other_groups_same:
  assumes ok: "rounds D G Z E s" and gr: "cells (os_group_store s) g = Some gr" and p: "p \<in> set (rq_elems G (og_ready gr))"
    and lk: "\<And>x. x \<noteq> p \<Longrightarrow> look A x = look (os_items s) x"
    and x: "cells (os_group_store s) x = Some xr" "x \<noteq> g" "q \<in> set (rq_elems G (og_ready xr))"
  shows "same_keys (os_items s) A q"
proof -
  have "q \<noteq> p"
    using shared_disjoint [OF roundsD(4) [OF ok] group_queue(4) [OF ok gr] group_queue(4) [OF ok x(1)] p] x(2,3) by blast
  then show ?thesis using lk by (simp add: same_keys_look)
qed

subsection \<open>One boost\<close>

lemma round_refresh_ok:
  assumes ok: "rounds D G Z {} s" and Z: "Z \<subseteq> {g}" and k: "in_rounds D s g k p" and t: "look (os_items s) p = Some t"
    and now: "ordered_reading s (env_clock e) = (now, c)"
  shows "succeeds (ordered_refresh_task D s p e) (\<lambda>(rc, s', e'). round_keep D G s s' \<and> rounds D G {} {} s' \<and>
    env_clock e' = c \<and> rc \<in> {QHW_SCHED_OK, QHW_SCHED_ERR_NO_MEMORY} \<and>
    os_group_tasks s' = os_group_tasks s \<and> os_index_store s' = os_index_store s \<and>
    look (os_items s') = (look (os_items s))(p \<mapsto> boosted_item (ordered_boost s) now t) \<and>
    pending G (os_refresh s') = (if rc = QHW_SCHED_OK \<and> br_next_refresh_ns (boost_at (ordered_boost s) t now) \<noteq> QHW_DEADLINE_BOOST_NEVER
      then insert p (pending G (os_refresh s)) else pending G (os_refresh s) - {p}))"
proof -
  note r = roundsD [OF ok] and mode = round_modeD [OF roundsD(1) [OF ok]]
  obtain gr t0 where gr: "cells (os_group_store s) g = Some gr" "p \<in> set (rq_elems G (og_ready gr))" "p \<in> members G s"
    "cells (os_items s) p = Some t0" "task_id (rt_desc t0) = k"
    by (rule in_roundsE [OF ok k])
  note gq = group_queue(4) [OF ok gr(1)]
  obtain u rf1 A1 u1 where u: "cells (os_items s) p = Some u" "effective_priority u = effective_priority t" "rt_desc u = rt_desc t"
    "qhw_deadline_refresh_remove D (os_refresh s) (os_items s) (Some p) = Some (rf1, A1)" "cells A1 p = Some u1"
    "rt_desc u1 = rt_desc t" "base_priority u1 = base_priority t" "pending G rf1 = pending G (os_refresh s) - {p}"
    and step: "\<And>v n. succeeds (if effective_priority u \<noteq> v
        then qhw_ready_queue_reorder D (og_ready gr) (A1\<lparr>cells := (cells A1)(p \<mapsto> u1\<lparr>effective_priority := v, next_refresh_ns := n\<rparr>)\<rparr>) p
        else Some (QHW_SCHED_OK, og_ready gr, A1\<lparr>cells := (cells A1)(p \<mapsto> u1\<lparr>effective_priority := v, next_refresh_ns := n\<rparr>)\<rparr>))
       (\<lambda>(rc, rq', A2). rc = QHW_SCHED_OK \<and> shared D G (qhw_order_compare (os_order s)) ((queues (os_group_store s))(g \<mapsto> rq')) rf1 A2 \<and>
         rq_by_id rq' = rq_by_id (og_ready gr) \<and> set (rq_elems G rq') = set (rq_elems G (og_ready gr)) \<and>
         look A2 = (look (os_items s))(p \<mapsto> t\<lparr>effective_priority := v, next_refresh_ns := n\<rparr>))"
    by (rule shared_refresh_steps [OF r(4) gq gr(2) t], rule that)
  let ?r = "boost_at (ordered_boost s) t now"
  let ?v = "br_effective_priority ?r" and ?n = "br_next_refresh_ns ?r"
  let ?A = "A1\<lparr>cells := (cells A1)(p \<mapsto> u1\<lparr>effective_priority := ?v, next_refresh_ns := ?n\<rparr>)\<rparr>"
  have b: "boost_at (order_boost (os_order s)) u1 now = ?r" using u(6,7) by (simp add: boost_at_def ordered_boost_def)
  obtain rq' A2 where re: "(if effective_priority u \<noteq> ?v then qhw_ready_queue_reorder D (og_ready gr) ?A p
      else Some (QHW_SCHED_OK, og_ready gr, ?A)) = Some (QHW_SCHED_OK, rq', A2)"
    and sh: "shared D G (qhw_order_compare (os_order s)) ((queues (os_group_store s))(g \<mapsto> rq')) rf1 A2"
    and rq: "rq_by_id rq' = rq_by_id (og_ready gr)" "set (rq_elems G rq') = set (rq_elems G (og_ready gr))"
    and lk: "look A2 = (look (os_items s))(p \<mapsto> boosted_item (ordered_boost s) now t)"
    using step [of ?v ?n] unfolding boosted_item_def by (elim succeeds3E) blast
  let ?s = "s\<lparr>os_refresh := rf1, os_items := A2, os_group_store := put_ready g gr rq' (os_group_store s)\<rparr>"
  have ig: "in_rounds D ?s = in_rounds D s"
  proof (intro ext)
    fix x j q
    show "in_rounds D ?s x j q = in_rounds D s x j q" using gr(1) rq(1) by (cases "x = g") (simp_all add: in_rounds_def in_group_def)
  qed
  have ne: "rq_elems G rq' \<noteq> []" using gr(2) rq(2) by force
  have idx: "index_ok D G (round_table ?s) (os_index_store ?s) (in_rounds D ?s)" using r(3) unfolding ig by simp
  have its: "same_keys (os_items s) (os_items ?s) q"
    if "cells (os_group_store s) x = Some xr" "x \<noteq> g" "q \<in> set (rq_elems G (og_ready xr))" for x xr q
    by (rule other_groups_same [OF ok gr(1,2) _ that]) (simp add: lk)
  have req: "rounds D G {g} {} ?s" "outside G ?s = outside G s" "grouping ?s = grouping s"
    by (rule rounds_requeue [OF ok Z gr(1) _ _ _ _ _ idx _ its, where rq = rq' and E' = "{}"]; use r(1) sh ne in simp)+
  have el: "members G ?s = members G s" using elems_of_same [of "queues (os_group_store s)" g, OF gq rq(2)] by (simp add: members_def)
  have grs: "cells (os_group_store ?s) g = Some (gr\<lparr>og_ready := rq'\<rparr>)" by simp
  obtain B' q' where reh: "ordered_group_reheapify D ?s g = Some (QHW_SCHED_OK, ?s\<lparr>os_group_heap := Some q', os_group_store := B'\<rparr>)"
    and same: "same_groups (os_group_store ?s) B'" and gq': "grouped G q' = grouped G (round_heap ?s)"
    and ok3: "rounds D G {} {} (?s\<lparr>os_group_heap := Some q', os_group_store := B'\<rparr>)"
    by (rule reheapify_ok [OF req(1) subset_refl grs])
  let ?t = "?s\<lparr>os_group_heap := Some q', os_group_store := B'\<rparr>"
  have keep: "round_keep D G s ?t"
    using calm_regrouped [OF same, of D G "Some q'"] regrouped_outside [OF same gq'] grouping_same_groups [OF same, of "Some q'"]
      req(2,3) el ig by (simp add: round_keep_def calm_def)
  have sh3: "shared D G (qhw_order_compare (os_order s)) (queues B') rf1 A2" using roundsD(4) [OF ok3] by simp
  have pm: "p \<in> elems_of G (queues B')" using keep gr(3) by (simp add: round_keep_def members_def)
  have np: "p \<notin> pending G rf1" using u(8) by simp
  have lp: "look A2 p = Some (boosted_item (ordered_boost s) now t)" using lk by simp
  obtain rc rf3 A3 m where ins: "qhw_deadline_refresh_insert D rf1 A2 p (env_mem e) = Some (rc, rf3, A3, m)"
    and sh4: "shared D G (qhw_order_compare (os_order s)) (queues B') rf3 A3"
    and res: "look A3 = look A2" "rc \<in> {QHW_SCHED_OK, QHW_SCHED_ERR_NO_MEMORY}"
      "pending G rf3 = (if rc = QHW_SCHED_OK \<and> next_refresh_ns (boosted_item (ordered_boost s) now t) \<noteq> QHW_DEADLINE_BOOST_NEVER
        then insert p (pending G rf1) else pending G rf1)"
    using shared_refresh_insert [OF sh3 pm np lp, of "env_mem e"] by (elim succeeds4E) blast
  have "shared D G (qhw_order_compare (os_order ?t)) (queues (os_group_store ?t)) rf3 A3" using sh4 by simp
  note fin = rounds_items [OF ok3 this]
  have fin: "rounds D G {} {} (?t\<lparr>os_refresh := rf3, os_items := A3\<rparr>)" "round_keep D G ?t (?t\<lparr>os_refresh := rf3, os_items := A3\<rparr>)"
    by (rule fin; simp add: same_keys_look res(1))+
  have fin': "round_keep D G s (?t\<lparr>os_refresh := rf3, os_items := A3\<rparr>)" by (rule round_keep_trans [OF keep fin(2)])
  have read: "qhw_order_now_ns (os_order s) (env_clock e) = (now, c)" using now by (simp add: ordered_reading_def)
  have "ordered_refresh_task D s p e = Some (rc, ?t\<lparr>os_refresh := rf3, os_items := A3\<rparr>, e\<lparr>env_clock := c, env_mem := m\<rparr>)"
  proof (cases "effective_priority u = ?v")
    case True
    then have eq: "rq' = og_ready gr" "A2 = ?A" using re by simp_all
    have "put_ready g gr rq' (os_group_store s) = os_group_store s" using gr(1) eq(1) by (simp add: fun_upd_idem)
    then show ?thesis using True u mode(1) task_group_found [OF ok k] gr(4,5) reh ins eq b
      by (simp add: ordered_refresh_task_def order_refresh_boost [OF read] item_write_def)
  next
    case False
    then show ?thesis using re u mode(1) task_group_found [OF ok k] gr reh ins b
      by (simp add: ordered_refresh_task_def order_refresh_boost [OF read] item_write_def arena_put_def)
  qed
  then show ?thesis using fin(1) fin' res lk u(8) by simp
qed

text \<open>The key of a member.\<close>

lemma member_key:
  assumes ok: "rounds D G Z E s" and p: "p \<in> members G s"
  obtains g k t where "in_rounds D s g k p" "look (os_items s) p = Some t"
proof -
  obtain g k where k: "in_rounds D s g k p" by (rule in_rounds_elem [OF ok p])
  obtain gr t where "cells (os_items s) p = Some t" by (rule in_roundsE [OF ok k])
  then have "look (os_items s) p = Some (core t)" by (simp add: look_def)
  then show ?thesis by (rule that [OF k])
qed

lemma round_recompute:
  assumes ok: "rounds_inv D G s" and p: "p \<in> members G s" and t: "look (os_items s) p = Some t"
    and now: "ordered_reading s (env_clock e) = (now, c)"
  shows "succeeds (ordered_refresh_task D s p e) (\<lambda>(rc, s', e'). round_keep D G s s' \<and> rounds_inv D G s' \<and>
    env_clock e' = c \<and> rc \<in> {QHW_SCHED_OK, QHW_SCHED_ERR_NO_MEMORY} \<and>
    look (os_items s') = (look (os_items s))(p \<mapsto> boosted_item (ordered_boost s) now t) \<and>
    pending G (os_refresh s') = (if rc = QHW_SCHED_OK \<and> br_next_refresh_ns (boost_at (ordered_boost s) t now) \<noteq> QHW_DEADLINE_BOOST_NEVER
      then insert p (pending G (os_refresh s)) else pending G (os_refresh s) - {p}))"
proof -
  have ok': "rounds D G {} {} s" using ok by (simp add: rounds_inv_def)
  obtain g k where k: "in_rounds D s g k p" by (rule in_rounds_elem [OF ok' p])
  show ?thesis by (rule succeeds_mono [OF round_refresh_ok [OF ok' empty_subsetI k t now]], clarify) (simp add: rounds_inv_def)
qed

lemma round_expired:
  assumes ok: "rounds_inv D G s"
  shows "succeeds (qhw_deadline_refresh_pop_expired D (os_refresh s) (os_items s) now) (\<lambda>(r, b, A).
    case r of
      None \<Rightarrow> b = os_refresh s \<and> A = os_items s \<and>
        (\<forall>p \<in> pending G (os_refresh s). \<forall>t. look (os_items s) p = Some t \<longrightarrow> now < next_refresh_ns t)
    | Some p \<Rightarrow> rounds_inv D G (s\<lparr>os_refresh := b, os_items := A\<rparr>) \<and> round_keep D G s (s\<lparr>os_refresh := b, os_items := A\<rparr>) \<and>
        p \<in> pending G (os_refresh s) \<and> p \<in> members G s \<and> pending G b = pending G (os_refresh s) - {p} \<and>
        (\<exists>t. look (os_items s) p = Some t \<and> next_refresh_ns t \<le> now) \<and>
        look A = (look (os_items s))(p := map_option (\<lambda>t. t\<lparr>next_refresh_ns := QHW_DEADLINE_BOOST_NEVER\<rparr>) (look (os_items s) p)))"
proof -
  have ok': "rounds D G {} {} s" using ok by (simp add: rounds_inv_def)
  show ?thesis
  proof (rule succeeds_mono [OF shared_refresh_pop [OF roundsD(4) [OF ok'], of now]], clarify, goal_cases)
    case (1 r b A)
    show ?case
    proof (cases r)
      case (Some p)
      have lk: "look A = (look (os_items s))(p := map_option (\<lambda>t. t\<lparr>next_refresh_ns := QHW_DEADLINE_BOOST_NEVER\<rparr>) (look (os_items s) p))"
        using 1 Some by simp
      have "rounds D G {} {} (s\<lparr>os_refresh := b, os_items := A\<rparr>)" "round_keep D G s (s\<lparr>os_refresh := b, os_items := A\<rparr>)"
        by (rule rounds_items [OF ok' 1(1)], rule same_keys_upd [OF lk], simp)+
      then show ?thesis using 1 Some lk by (simp add: rounds_inv_def members_def)
    qed (use 1 in simp)
  qed
qed

end

lemma round_loop: "ordered_refresh_loop D now s e = do {
    (task, b, A) \<leftarrow> qhw_deadline_refresh_pop_expired D (os_refresh s) (os_items s) now;
    case task of
      None \<Rightarrow> Some (QHW_SCHED_OK, s\<lparr>os_refresh := b, os_items := A\<rparr>, e)
    | Some p \<Rightarrow> do {
        (rc, s, e) \<leftarrow> ordered_refresh_task D (s\<lparr>os_refresh := b, os_items := A\<rparr>) p e;
        if rc \<noteq> QHW_SCHED_OK then Some (rc, s, e) else ordered_refresh_loop D now s e
      }
  }"
  by (subst ordered_refresh_loop.simps) (simp add: Let_def cong: option.case_cong)

lemma round_keep_rest: "round_keep D G s s' \<Longrightarrow> ordered_boost s' = ordered_boost s \<and> ordered_reading s' = ordered_reading s \<and>
    ordered_floor s' = ordered_floor s \<and> members G s' = members G s"
  by (simp add: round_keep_def ordered_boost_def ordered_reading_def ordered_floor_def fun_eq_iff)

sublocale datastructures \<subseteq> rounds: boost_loop D G os_refresh os_items "members G" "rounds_inv D G" "round_keep D G"
  "\<lambda>b A s. s\<lparr>os_refresh := b, os_items := A\<rparr>" ordered_boost ordered_reading ordered_floor
  "ordered_refresh_task D" "ordered_refresh_loop D"
  by unfold_locales
    ((rule round_keep_refl | erule (1) round_keep_trans | rule round_keep_rest, assumption | rule round_recompute, assumption+
      | rule round_expired, assumption | rule round_loop | simp add: ordered_reading_floor)+)

end
