(* ===== verification/Rounds_Ops.thy ===== *)
theory Rounds_Ops
  imports Rounds_Refresh
begin

section \<open>The operations of the ordered policy with the round-robin key\<close>

text \<open>
  What the operations over groups do to the tasks: taking one out, entering one, choosing the first. All of them keep the
  invariant \<^verbatim>\<open>rounds\<close>.
\<close>

subsection \<open>Taking a task out\<close>

text \<open>
  \<^verbatim>\<open>lone\<close> says that the group has no task but \<^verbatim>\<open>k\<close>. The state \<^verbatim>\<open>s'\<close> has the tasks of \<^verbatim>\<open>s\<close> except \<^verbatim>\<open>k\<close> of
  the group \<^verbatim>\<open>g\<close>, whose item was \<^verbatim>\<open>p\<close>.
\<close>

definition lone :: "('h, 'l, 'q) ds \<Rightarrow> ('h, 'l, 'q) ordered_state \<Rightarrow> ptr \<Rightarrow> u64 \<Rightarrow> bool" where
  "lone D s g k \<longleftrightarrow> (\<forall>j q. in_rounds D s g j q \<longrightarrow> j = k)"

definition without ::
  "('h, 'l, 'q) ds \<Rightarrow> ('h, 'l, 'q) ghost \<Rightarrow> u64 \<Rightarrow> ptr \<Rightarrow> ('h, 'l, 'q) ordered_state \<Rightarrow> ('h, 'l, 'q) ordered_state \<Rightarrow> bool" where
  "without D G k p s s' \<longleftrightarrow> os_order s' = os_order s \<and> os_split_config s' = os_split_config s \<and>
     in_rounds D s' = (\<lambda>g j q. in_rounds D s g j q \<and> j \<noteq> k) \<and> members G s' = members G s - {p} \<and>
     look (os_items s') = (look (os_items s))(p := None) \<and> pending G (os_refresh s') = pending G (os_refresh s) - {p}"

definition dropped ::
  "('h, 'l, 'q) ds \<Rightarrow> ('h, 'l, 'q) ghost \<Rightarrow> ptr \<Rightarrow> u64 \<Rightarrow> ptr \<Rightarrow> ('h, 'l, 'q) ordered_state \<Rightarrow> ('h, 'l, 'q) ordered_state \<Rightarrow> bool" where
  "dropped D G g k p s s' \<longleftrightarrow> without D G k p s s' \<and>
     outside G s' = (if lone D s g k then outside G s - {g} else outside G s)"

lemma lone_cong: "in_rounds D s' = in_rounds D s \<Longrightarrow> lone D s' g k = lone D s g k"
  by (simp add: lone_def)

text \<open>A table entry and its object removed.\<close>

lemma index_ok_find:
  "index_ok D G h I M \<Longrightarrow> M g k p \<Longrightarrow> \<exists>i ix. hash_table_find D h k = Some i \<and> cells I i = Some ix \<and> oi_group ix = g"
  unfolding index_ok_def by blast

context datastructures
begin

lemma index_removed:
  assumes ok: "index_ok D G h I M" and k: "hash_table_find D h k = Some i" and rem: "hash_table_remove D h k = (r, h')"
  obtains I' where "r = Some i" "arena_free i I = Some I'" "index_ok D G h' I' (\<lambda>g j q. M g j q \<and> j \<noteq> k)"
proof -
  have hi: "ht_inv G h" and I: "arena_ok I" using ok by (simp_all add: index_ok_def)
  have h': "r = Some i" "ht_inv G h'" "\<And>j. hash_table_find D h' j = (if j = k then None else hash_table_find D h j)"
    using ht_remove [OF hi rem] k by simp_all
  obtain ix where ix: "cells I i = Some ix" using ok k unfolding index_ok_def by blast
  let ?I = "I\<lparr>cells := (cells I)(i := None)\<rparr>"
  have free: "arena_free i I = Some ?I" using ix by (simp add: arena_free_def)
  have other: "j \<noteq> i" if "hash_table_find D h l = Some j" "l \<noteq> k" for l j
    using ok k that unfolding index_ok_def by blast
  have "index_ok D G h' ?I (\<lambda>g j q. M g j q \<and> j \<noteq> k)"
    unfolding index_ok_def
  proof (intro conjI allI impI)
    show "ht_inv G h'" "arena_ok ?I" using h' I ix by simp_all
    show "\<exists>ix p. cells ?I j = Some ix \<and> M (oi_group ix) l p \<and> l \<noteq> k" if "hash_table_find D h' l = Some j" for l j
    proof -
      have l: "hash_table_find D h l = Some j" "l \<noteq> k" using that h'(3) by (simp_all split: if_splits)
      then obtain ix p where "cells I j = Some ix" "M (oi_group ix) l p" using ok unfolding index_ok_def by blast
      then show ?thesis using other [OF l] l(2) by auto
    qed
    show "\<exists>j ix. hash_table_find D h' l = Some j \<and> cells ?I j = Some ix \<and> oi_group ix = g" if M: "M g l p \<and> l \<noteq> k" for g l p
    proof -
      obtain j ix where j: "hash_table_find D h l = Some j" "cells I j = Some ix" "oi_group ix = g"
        using index_ok_find [OF ok] M by blast
      then show ?thesis using other [OF j(1)] M h'(3) by auto
    qed
    show "m = l" if "hash_table_find D h' l = Some j" "hash_table_find D h' m = Some j" for l m j
      using ok that h'(3) unfolding index_ok_def by (simp split: if_splits)
  qed
  then show ?thesis using that [OF h'(1) free] by blast
qed

lemma index_at_key:
  assumes ok: "rounds D G Z E s" and k: "in_rounds D s g k p"
  obtains i ix where "hash_table_find D (round_table s) k = Some i" "cells (os_index_store s) i = Some ix" "oi_group ix = g"
  using index_ok_find [OF roundsD(3) [OF ok] k] by blast

text \<open>The group after its task \<^verbatim>\<open>k\<close> was taken out of the ready queue.\<close>

lemma rounds_taken:
  assumes ok: "rounds D G Z {} s" and Z: "Z \<subseteq> {g}" and gr: "cells (os_group_store s) g = Some gr"
    and k: "in_rounds D s g k p"
    and sh: "shared D G (qhw_order_compare (os_order s)) ((queues (os_group_store s))(g \<mapsto> rq)) (os_refresh s') A"
    and rem: "removed k p (og_ready gr) (os_items s) rq A"
    and h: "index_ok D G h I (\<lambda>x j q. in_rounds D s x j q \<and> j \<noteq> k)"
    and s': "round_mode s'" "os_order s' = os_order s" "round_map s' = round_map s" "round_heap s' = round_heap s"
      "os_group_store s' = put_ready g gr rq (os_group_store s)" "os_items s' = A"
      "round_table s' = h" "os_index_store s' = I"
  shows "rounds D G {g} (if rq_elems G rq = [] then {g} else {}) s'" "in_rounds D s' = (\<lambda>x j q. in_rounds D s x j q \<and> j \<noteq> k)"
    "members G s' = members G s - {p}" "outside G s' = outside G s" "look A = (look (os_items s))(p := None)"
    "grouping s' = grouping s"
proof -
  note r = roundsD [OF ok] and gq = group_queue [OF ok gr]
  have p: "p \<in> set (rq_elems G (og_ready gr))" "set (rq_elems G rq) = set (rq_elems G (og_ready gr)) - {p}"
    "hash_table_find D (rq_by_id rq) = (hash_table_find D (rq_by_id (og_ready gr)))(k := None)"
    using rem by (simp_all add: removed_def)
  show ig: "in_rounds D s' = (\<lambda>x j q. in_rounds D s x j q \<and> j \<noteq> k)"
  proof (intro ext)
    fix x j q
    show "in_rounds D s' x j q \<longleftrightarrow> in_rounds D s x j q \<and> j \<noteq> k"
    proof (cases "x = g")
      case True
      then show ?thesis using gr p(3) by (auto simp: in_rounds_def in_group_def s'(5))
    next
      case False
      then have "\<not> in_rounds D s x k q" using in_rounds_unique(1) [OF ok k] by blast
      then show ?thesis using False by (auto simp: in_rounds_def in_group_def s'(5))
    qed
  qed
  show lk: "look A = (look (os_items s))(p := None)" by (rule removed_look [OF rem])
  have its: "same_keys (os_items s) (os_items s') q"
    if "cells (os_group_store s) x = Some xr" "x \<noteq> g" "q \<in> set (rq_elems G (og_ready xr))" for x xr q
    by (rule other_groups_same [OF ok gr p(1) _ that]) (simp add: s'(6) lk)
  have idx: "index_ok D G (round_table s') (os_index_store s') (in_rounds D s')" using h unfolding ig s' .
  let ?E = "if rq_elems G rq = [] then {g} else {}"
  have sh': "shared D G (qhw_order_compare (os_order s)) ((queues (os_group_store s))(g \<mapsto> rq)) (os_refresh s') (os_items s')"
    using sh s'(6) by simp
  note req = rounds_requeue [OF ok Z gr s'(1-5) idx sh' its, where E' = ?E]
  show "rounds D G {g} ?E s'" by (rule req) simp_all
  show "outside G s' = outside G s" by (rule req) simp_all
  show "grouping s' = grouping s" by (rule req) simp_all
  show "members G s' = members G s - {p}"
    using elems_of_shrunk [OF r(4) gq(4) p(1,2)] by (simp add: members_def s'(5))
qed

lemma lone_empty:
  assumes ok: "rounds D G Z E s'" and ig: "in_rounds D s' = (\<lambda>x j q. in_rounds D s x j q \<and> j \<noteq> k)"
    and gr: "cells (os_group_store s') g = Some gr"
  shows "lone D s g k \<longleftrightarrow> rq_elems G (og_ready gr) = []"
proof -
  have key: "in_rounds D s g j q \<and> j \<noteq> k \<longleftrightarrow> hash_table_find D (rq_by_id (og_ready gr)) j = Some q" for j q
    using fun_cong [OF fun_cong [OF fun_cong [OF ig]], of g j q] gr by (simp add: in_rounds_def in_group_def)
  have "lone D s g k \<longleftrightarrow> rq_ids D (og_ready gr) = {}"
  proof
    show "rq_ids D (og_ready gr) = {}" if "lone D s g k" using that key unfolding lone_def rq_ids_def by fastforce
    show "lone D s g k" if "rq_ids D (og_ready gr) = {}" unfolding lone_def
    proof (intro allI impI, rule ccontr)
      fix j q
      assume "in_rounds D s g j q" "j \<noteq> k"
      then have "hash_table_find D (rq_by_id (og_ready gr)) j = Some q" using key by blast
      then show False using that by (auto simp: rq_ids_def)
    qed
  qed
  then show ?thesis using rq_ids_empty [OF group_queue(1) [OF ok gr]] by simp
qed

text \<open>Restoring the place of the group, or freeing it.\<close>

lemma remove_group_task_ok:
  assumes ok: "rounds D G {} {} s" and k: "in_rounds D s g k p" and np: "p \<notin> pending G (os_refresh s)"
  shows "succeeds (ordered_remove_group_task D s k) (\<lambda>(rc, s'). rc = QHW_SCHED_OK \<and> rounds D G {} {} s' \<and> dropped D G g k p s s')"
proof -
  note r = roundsD [OF ok] and mode = round_modeD [OF roundsD(1) [OF ok]]
  obtain i ix where i: "hash_table_find D (round_table s) k = Some i" "cells (os_index_store s) i = Some ix" "oi_group ix = g"
    by (rule index_at_key [OF ok k])
  obtain gr t where gr: "cells (os_group_store s) g = Some gr" "hash_table_find D (rq_by_id (og_ready gr)) k = Some p"
    by (rule in_roundsE [OF ok k])
  obtain rq A where rem: "qhw_ready_queue_remove D (og_ready gr) (os_items s) k = Some (QHW_SCHED_OK, rq, A)"
    and sh: "shared D G (qhw_order_compare (os_order s)) ((queues (os_group_store s))(g \<mapsto> rq)) (os_refresh s) A"
    and rd: "removed k p (og_ready gr) (os_items s) rq A"
    using shared_remove [OF r(4) group_queue(4) [OF ok gr(1)] gr(2) np] by (elim succeeds3E) blast
  obtain x h where hr: "hash_table_remove D (round_table s) k = (x, h)" by force
  obtain I where I: "arena_free i (os_index_store s) = Some I" "index_ok D G h I (\<lambda>x j q. in_rounds D s x j q \<and> j \<noteq> k)"
    by (rule index_removed [OF r(3) i(1) hr])
  let ?s = "s\<lparr>os_items := A, os_group_store := put_ready g gr rq (os_group_store s), os_group_tasks := Some h, os_index_store := I\<rparr>"
  have sh': "shared D G (qhw_order_compare (os_order s)) ((queues (os_group_store s))(g \<mapsto> rq)) (os_refresh ?s) A" using sh by simp
  have m: "round_mode ?s" using r(1) by simp
  have tk: "rounds D G {g} (if rq_elems G rq = [] then {g} else {}) ?s" "in_rounds D ?s = (\<lambda>x j q. in_rounds D s x j q \<and> j \<noteq> k)"
    "members G ?s = members G s - {p}" "outside G ?s = outside G s" "look A = (look (os_items s))(p := None)"
    by (rule rounds_taken [OF ok empty_subsetI gr(1) k sh' rd I(2) m]; simp)+
  have grs: "cells (os_group_store ?s) g = Some (gr\<lparr>og_ready := rq\<rparr>)" by simp
  have rok: "ready_ok D G rq A" using shared_queue(1) [OF sh, of g] by simp
  have lone: "lone D s g k \<longleftrightarrow> rq_elems G rq = []" using lone_empty [OF tk(1,2) grs] by simp
  show ?thesis
  proof (cases "rq_elems G rq = []")
    case True
    then have "qhw_ready_queue_peek D rq = Some None"
      using ready_peek_ok [OF rok] by (auto simp: succeeds_iff rq_first_def split: option.splits)
    moreover have ok1: "rounds D G {g} {g} ?s" using tk(1) True by simp
    have "succeeds (ordered_group_destroy D ?s g) (\<lambda>s'. rounds D G {} {} s' \<and> dropped D G g k p s s')"
      by (rule succeeds_mono [OF group_destroy_ok [OF ok1 subset_refl grs]]) (use tk np True in \<open>auto simp: dropped_def without_def calm_def lone\<close>)
    ultimately show ?thesis using i gr(1) rem hr I(1) mode
      by (simp add: ordered_remove_group_task_def arena_put_def)
  next
    case False
    then obtain q where peek: "qhw_ready_queue_peek D rq = Some (Some q)"
      using ready_peek_ok [OF rok] by (auto simp: succeeds_iff split: option.splits)
    have ok1: "rounds D G {g} {} ?s" using tk(1) False by simp
    obtain B' q' where re: "ordered_group_reheapify D ?s g = Some (QHW_SCHED_OK, ?s\<lparr>os_group_heap := Some q', os_group_store := B'\<rparr>)"
      "same_groups (os_group_store ?s) B'" "grouped G q' = grouped G (round_heap ?s)"
      "rounds D G {} {} (?s\<lparr>os_group_heap := Some q', os_group_store := B'\<rparr>)"
      by (rule reheapify_ok [OF ok1 subset_refl grs])
    have "dropped D G g k p s (?s\<lparr>os_group_heap := Some q', os_group_store := B'\<rparr>)"
      using tk np False calm_regrouped [OF re(2), of D G "Some q'"] regrouped_outside [OF re(2,3)] by (simp add: dropped_def without_def calm_def lone)
    then show ?thesis using i gr(1) rem hr I(1) mode re(1,4) peek
      by (simp add: ordered_remove_group_task_def arena_put_def)
  qed
qed

text \<open>The two calls by which a finish report and a failed submission take a task out.\<close>

lemma remove_task_ok:
  assumes ok: "rounds D G {} {} s" and k: "in_rounds D s g k p"
  shows "succeeds (do {
      (rf, A) \<leftarrow> qhw_deadline_refresh_remove D (os_refresh s) (os_items s) (Some p);
      ordered_remove_group_task D (s\<lparr>os_refresh := rf, os_items := A\<rparr>) k
    }) (\<lambda>(rc, s'). rc = QHW_SCHED_OK \<and> rounds D G {} {} s' \<and> dropped D G g k p s s')"
proof -
  have p: "p \<in> members G s" by (rule in_roundsE [OF ok k])
  obtain rf A where rem: "qhw_deadline_refresh_remove D (os_refresh s) (os_items s) (Some p) = Some (rf, A)"
    and sh: "shared D G (qhw_order_compare (os_order s)) (queues (os_group_store s)) rf A"
    and st: "pending G rf = pending G (os_refresh s) - {p}"
      "look A = (if p \<in> pending G (os_refresh s) then (look (os_items s))(p := map_option (\<lambda>t. t\<lparr>next_refresh_ns := QHW_DEADLINE_BOOST_NEVER\<rparr>)
         (look (os_items s) p)) else look (os_items s))"
    using shared_refresh_remove [OF roundsD(4) [OF ok] p [unfolded members_def]] by (elim succeeds_tupleE) blast
  have same: "same_keys (os_items s) A x" for x
    using st(2) by (cases "p \<in> pending G (os_refresh s)") (auto intro: same_keys_upd same_keys_look)
  note it = rounds_items [OF ok sh same]
  have k1: "in_rounds D (s\<lparr>os_refresh := rf, os_items := A\<rparr>) g k p" using k it(2) by (simp add: round_keep_def)
  have np: "p \<notin> pending G (os_refresh (s\<lparr>os_refresh := rf, os_items := A\<rparr>))" using st(1) by simp
  have "(look A)(p := None) = (look (os_items s))(p := None)" using st(2) by auto
  then have "dropped D G g k p s s'" if "dropped D G g k p (s\<lparr>os_refresh := rf, os_items := A\<rparr>) s'" for s'
    using that it(2) st(1) lone_cong [of D "s\<lparr>os_refresh := rf, os_items := A\<rparr>" s] by (simp add: dropped_def without_def round_keep_def)
  then show ?thesis using rem by simp (rule succeeds_mono [OF remove_group_task_ok [OF it(1) k1 np]], auto)
qed

lemma undo_submit_ok:
  assumes ok: "rounds D G {} {} s" and k: "in_rounds D s g k p"
  shows "succeeds (ordered_undo_submit D s p k) (\<lambda>s'. rounds D G {} {} s' \<and> dropped D G g k p s s')"
  using remove_task_ok [OF ok k] by (fastforce simp: ordered_undo_submit_def succeeds_iff bind_eq_Some_conv)

end

end
