(* ===== verification/Rounds_Submit.thy ===== *)
theory Rounds_Submit
  imports Rounds_Ops
begin

section \<open>Submission with the round-robin key\<close>

text \<open>
  A submission finds or creates the group of its task, enters the task in the table and in the group's ready queue, computes its
  boost and puts the group in its place. A failure on the way takes everything back.
\<close>

subsection \<open>Relations between states\<close>

definition same_rounds :: "('h, 'l, 'q) ds \<Rightarrow> ('h, 'l, 'q) ghost \<Rightarrow> ('h, 'l, 'q) ordered_state \<Rightarrow> ('h, 'l, 'q) ordered_state \<Rightarrow> bool" where
  "same_rounds D G s s' \<longleftrightarrow> os_order s' = os_order s \<and> os_split_config s' = os_split_config s \<and>
     in_rounds D s' = in_rounds D s \<and> members G s' = members G s \<and> look (os_items s') = look (os_items s) \<and>
     pending G (os_refresh s') = pending G (os_refresh s)"

text \<open>The state \<^verbatim>\<open>s'\<close> has the tasks of \<^verbatim>\<open>s\<close> and the task \<^verbatim>\<open>k\<close> in the group \<^verbatim>\<open>g\<close>, with the new item \<^verbatim>\<open>t\<close> at \<^verbatim>\<open>p\<close>.\<close>

definition joined ::
  "('h, 'l, 'q) ds \<Rightarrow> ('h, 'l, 'q) ghost \<Rightarrow> ptr \<Rightarrow> u64 \<Rightarrow> ptr \<Rightarrow> qhw_ready_task \<Rightarrow> ('h, 'l, 'q) ordered_state \<Rightarrow>
   ('h, 'l, 'q) ordered_state \<Rightarrow> bool" where
  "joined D G g k p t s s' \<longleftrightarrow> os_order s' = os_order s \<and> os_split_config s' = os_split_config s \<and>
     in_rounds D s' = (\<lambda>x j q. in_rounds D s x j q \<or> x = g \<and> j = k \<and> q = p) \<and> members G s' = insert p (members G s) \<and>
     look (os_items s) p = None \<and> look (os_items s') = (look (os_items s))(p \<mapsto> t) \<and> p \<notin> members G s \<and>
     p \<notin> pending G (os_refresh s)"

lemma same_rounds_refl [simp]: "same_rounds D G s s"
  by (simp add: same_rounds_def)

lemma same_rounds_trans: "same_rounds D G s s' \<Longrightarrow> same_rounds D G s' s'' \<Longrightarrow> same_rounds D G s s''"
  by (simp add: same_rounds_def)

lemma calm_same_rounds: "calm D G s s' \<Longrightarrow> same_rounds D G s s'"
  by (simp add: calm_def same_rounds_def)

lemma joined_dropped:
  assumes en: "joined D G g k p t s s1" and dr: "dropped D G g k p s1 s'" and k: "\<And>x q. \<not> in_rounds D s x k q"
    and pe: "pending G (os_refresh s1) - {p} = pending G (os_refresh s)"
  shows "same_rounds D G s s'"
proof -
  have "(look (os_items s))(p := None) = look (os_items s)" by (intro fun_upd_idem) (use en in \<open>simp add: joined_def\<close>)
  moreover have "in_rounds D s' = in_rounds D s" using en dr k by (auto simp: joined_def dropped_def without_def fun_eq_iff)
  moreover have "members G s' = members G s" using en dr by (auto simp: joined_def dropped_def without_def)
  ultimately show ?thesis using en dr pe by (simp add: joined_def dropped_def without_def same_rounds_def)
qed

text \<open>
  The group \<^verbatim>\<open>g\<close> is there to take a task: \<^verbatim>\<open>b\<close> says that it was created for the task and has no other yet.
\<close>

definition prepared ::
  "('h, 'l, 'q) ds \<Rightarrow> ('h, 'l, 'q) ghost \<Rightarrow> bool \<Rightarrow> ptr \<Rightarrow> ('h, 'l, 'q) ordered_state \<Rightarrow> ('h, 'l, 'q) ordered_state \<Rightarrow> bool" where
  "prepared D G b g s s' \<longleftrightarrow> same_rounds D G s s' \<and> (\<exists>gr. cells (os_group_store s') g = Some gr) \<and>
     rounds D G {} (if b then {g} else {}) s' \<and> outside G s' = (if b then insert g (outside G s) else outside G s) \<and>
     (b \<longrightarrow> g \<notin> outside G s)"

text \<open>What a submission at the time \<^verbatim>\<open>now\<close> does: it enters its task, which was not there, or leaves all tasks alone.\<close>

definition submitted ::
  "('h, 'l, 'q) ds \<Rightarrow> ('h, 'l, 'q) ghost \<Rightarrow> qhw_sched_task_desc \<Rightarrow> u64 \<Rightarrow> ('h, 'l, 'q) ordered_state \<Rightarrow> qhw_sched_rc \<Rightarrow> ('h, 'l, 'q) ordered_state \<Rightarrow> bool" where
  "submitted D G task now s rc s' \<longleftrightarrow> rounds D G {} {} s' \<and> outside G s' = outside G s \<and>
     (if rc = QHW_SCHED_OK
      then (\<forall>x q. \<not> in_rounds D s x (task_id task) q) \<and>
        (\<exists>g p (rq :: ('h, 'l, 'q) qhw_ready_queue) t. t = core (new_ready_task rq (heap_invalid_index D) task) \<and>
          joined D G g (task_id task) p (boosted_item (ordered_boost s) now t) s s' \<and>
          pending G (os_refresh s') = (if br_next_refresh_ns (boost_at (ordered_boost s) t now) \<noteq> QHW_DEADLINE_BOOST_NEVER
            then insert p (pending G (os_refresh s)) else pending G (os_refresh s)))
      else same_rounds D G s s')"

subsection \<open>The order of tasks within a group and between groups\<close>

lemma key_rank_ticket: "key_rank key t 0 = key_rank key u 0 \<Longrightarrow> key_rank key t n = key_rank key u n"
  "key_rank key t 0 < key_rank key u 0 \<Longrightarrow> key_rank key t n < key_rank key u n"
  by (auto simp: key_rank_def split: if_splits)

lemma order_vector_ticket: "order_vector keys t 0 \<le> order_vector keys u 0 \<Longrightarrow> order_vector keys t n \<le> order_vector keys u n"
  by (induction keys) (auto simp: order_vector_def dest: key_rank_ticket)

context datastructures
begin

text \<open>The rank of a group is the least of its tasks.\<close>

lemma group_rank_first:
  assumes ok: "rounds D G Z E s" and g: "g \<notin> E" and gr: "cells (os_group_store s) g = Some gr"
  obtains p t where "rq_first (og_ready gr) (os_items s) p" "cells (os_items s) p = Some t"
    "group_rank D (os_order s) (os_items s) (os_group_store s) g = order_vector (order_keys (os_order s)) t (og_ticket gr)"
proof -
  obtain p t where "rq_first (og_ready gr) (os_items s) p" "cells (os_items s) p = Some t" "ordered_first_task D (os_items s) gr = Some t"
    by (rule group_filled [OF ok g gr])
  then show ?thesis using that gr by (simp add: group_rank_def)
qed

lemma first_least:
  assumes first: "rq_first rq A p" and t: "cells A p = Some t"
    and kind: "rq_kind rq = QHW_READY_QUEUE_HEAP" "rq_compare rq = Some (qhw_order_compare order)"
    and u: "q \<in> set (rq_elems G rq)" "cells A q = Some u"
  shows "order_vector (order_keys order) t n \<le> order_vector (order_keys order) u n"
proof -
  have "ready_heap_compare rq A p q \<le> 0" using first kind(1) u(1) by (simp add: rq_first_def)
  then have "order_vector (order_keys order) t 0 \<le> order_vector (order_keys order) u 0"
    using kind t u(2) by (simp add: ready_heap_compare_def items_compare_def order_compare_vec)
  then show ?thesis by (rule order_vector_ticket)
qed

text \<open>A ready queue with the same tasks, and the same items, keeps the place of its group.\<close>

lemma rounds_requeue_same:
  assumes ok: "rounds D G {} E s" and gr: "cells (os_group_store s) g = Some gr"
    and s': "round_mode s'" "os_order s' = os_order s" "round_map s' = round_map s" "round_heap s' = round_heap s"
      "os_group_store s' = put_ready g gr rq (os_group_store s)"
    and idx: "index_ok D G (round_table s') (os_index_store s') (in_rounds D s')"
    and sh: "shared D G (qhw_order_compare (os_order s)) ((queues (os_group_store s))(g \<mapsto> rq)) (os_refresh s') (os_items s')"
    and its: "cells (os_items s') = cells (os_items s)" and el: "set (rq_elems G rq) = set (rq_elems G (og_ready gr))"
  shows "rounds D G {} E s'" "outside G s' = outside G s" "members G s' = members G s"
proof -
  note gq = group_queue [OF ok gr]
  have empty: "rq_elems G rq = [] \<longleftrightarrow> g \<in> E" using el roundsD(6) [OF ok gr] by (metis set_empty)
  note req = rounds_requeue [OF ok empty_subsetI gr s' idx sh, where E' = E]
  have req: "rounds D G {g} E s'" "outside G s' = outside G s"
    by (rule req; use its empty in \<open>simp add: same_keys_def look_def\<close>)+
  show "outside G s' = outside G s" by (rule req)
  show "members G s' = members G s"
    using elems_of_same [of "queues (os_group_store s)" g, OF gq(4) el] by (simp add: members_def s'(5))
  have rk: "group_rank D (os_order s) (os_items s') (os_group_store s') x = group_rank D (os_order s) (os_items s) (os_group_store s) x" for x
  proof (cases "x = g")
    case False
    then show ?thesis by (simp add: group_rank_def ordered_first_task_def s'(5) its cong: option.case_cong)
  next
    case True
    have gr': "cells (os_group_store s') g = Some (gr\<lparr>og_ready := rq\<rparr>)" using s'(5) by simp
    note gq' = group_queue [OF req(1) gr']
    show ?thesis
    proof (cases "g \<in> E")
      case e: True
      have none: "qhw_ready_queue_peek D r = Some None" if "ready_ok D G r A" "rq_elems G r = []" for r A
        using ready_peek_ok [OF that(1)] that(2) by (auto simp: succeeds_iff rq_first_def split: option.splits)
      have "qhw_ready_queue_peek D (og_ready gr) = Some None" "qhw_ready_queue_peek D rq = Some None"
        using none [OF gq(1)] none [OF gq'(1)] e empty roundsD(6) [OF ok gr] by simp_all
      then show ?thesis using True gr gr' by (simp add: group_rank_def ordered_first_task_def)
    next
      case e: False
      obtain p t where p: "rq_first (og_ready gr) (os_items s) p" "cells (os_items s) p = Some t"
        "group_rank D (os_order s) (os_items s) (os_group_store s) g = order_vector (order_keys (os_order s)) t (og_ticket gr)"
        by (rule group_rank_first [OF ok e gr])
      obtain q u where q: "rq_first rq (os_items s') q" "cells (os_items s') q = Some u"
        "group_rank D (os_order s) (os_items s') (os_group_store s') g = order_vector (order_keys (os_order s)) u (og_ticket gr)"
        using group_rank_first [OF req(1) e gr'] s'(2) by auto
      have "p \<in> set (rq_elems G rq)" "q \<in> set (rq_elems G (og_ready gr))" using p(1) q(1) el by (simp_all add: rq_first_def)
      then show ?thesis using True p(2,3) q(2,3) its gq'(2,3) s'(2)
        first_least [OF p(1,2) gq(2,3), of q u "og_ticket gr"] first_least [OF q(1,2), of "os_order s" p t "og_ticket gr"] by simp
    qed
  qed
  have "group_heap_ok D G (os_order s) {} (os_items s') (os_group_store s') (round_heap s)"
    by (rule group_heap_change [OF roundsD(5) [OF ok] subset_refl]) (use gr rk in \<open>auto simp: s'(5) split: if_splits\<close>)
  then show "rounds D G {} E s'" using req(1) s'(2,4) by (simp add: rounds_def)
qed

subsection \<open>The table of tasks\<close>

lemma index_ok_same:
  "index_ok D G h I M \<Longrightarrow> ht_inv G h' \<Longrightarrow> hash_table_find D h' = hash_table_find D h \<Longrightarrow> arena_ok I' \<Longrightarrow> cells I' = cells I \<Longrightarrow>
   index_ok D G h' I' M"
  by (simp add: index_ok_def)

lemma index_inserted:
  assumes ok: "index_ok D G h I M" and k: "hash_table_find D h k = None" and ins: "hash_table_insert D h k (brk I) m = (True, h', m')"
  shows "index_ok D G h' (I\<lparr>cells := (cells I)(brk I \<mapsto> \<lparr>oi_group = g\<rparr>), brk := Suc (brk I)\<rparr>)
    (\<lambda>x j q. M x j q \<or> x = g \<and> j = k \<and> q = p)" (is "index_ok D G h' ?I _")
proof -
  have hi: "ht_inv G h" and I: "arena_ok I" using ok by (simp_all add: index_ok_def)
  have h': "ht_inv G h'" "\<And>j. hash_table_find D h' j = (if j = k then Some (brk I) else hash_table_find D h j)"
    using ht_insert_ok [OF hi k ins] by simp_all
  have new: "cells I (brk I) = None" using arena_fresh [OF I] .
  have old: "i \<noteq> brk I" if "hash_table_find D h j = Some i" for j i
    using ok that new unfolding index_ok_def by force
  show ?thesis
    unfolding index_ok_def
  proof (intro conjI allI impI)
    show "ht_inv G h'" "arena_ok ?I" using h' I by simp_all
    show "\<exists>ix q. cells ?I i = Some ix \<and> (M (oi_group ix) j q \<or> oi_group ix = g \<and> j = k \<and> q = p)"
      if i: "hash_table_find D h' j = Some i" for j i
    proof (cases "j = k")
      case False
      then have "hash_table_find D h j = Some i" using i h'(2) by simp
      moreover from this obtain ix q where "cells I i = Some ix" "M (oi_group ix) j q" using ok unfolding index_ok_def by blast
      ultimately show ?thesis using old by auto
    qed (use i h'(2) in auto)
    show "\<exists>i ix. hash_table_find D h' j = Some i \<and> cells ?I i = Some ix \<and> oi_group ix = x"
      if M: "M x j q \<or> x = g \<and> j = k \<and> q = p" for x j q
    proof (cases "M x j q")
      case True
      obtain i ix where i: "hash_table_find D h j = Some i" "cells I i = Some ix" "oi_group ix = x"
        using index_ok_find [OF ok True] by blast
      then show ?thesis using k old [OF i(1)] h'(2) [of j] by (cases "j = k") auto
    qed (use M h'(2) in auto)
    show "l = j" if "hash_table_find D h' j = Some i" "hash_table_find D h' l = Some i" for j l i
    proof (cases "j = k \<or> l = k")
      case True
      then show ?thesis using that h'(2) old by (auto split: if_splits)
    next
      case False
      then show ?thesis using that h'(2) ok unfolding index_ok_def by auto
    qed
  qed
qed

lemma ht_insert_remove:
  assumes hi: "ht_inv G h" and k: "hash_table_find D h k = None" and ins: "hash_table_insert D h k i m = (b, h', m')"
  shows "ht_inv G (if b then snd (hash_table_remove D h' k) else h')"
    "hash_table_find D (if b then snd (hash_table_remove D h' k) else h') = hash_table_find D h"
proof -
  have "ht_inv G (if b then snd (hash_table_remove D h' k) else h') \<and>
    hash_table_find D (if b then snd (hash_table_remove D h' k) else h') = hash_table_find D h"
  proof (cases b)
    case True
    have h: "ht_inv G h'" "\<And>j. hash_table_find D h' j = (if j = k then Some i else hash_table_find D h j)"
      using ht_insert_ok [OF hi k] ins True by simp_all
    obtain r h2 where rem: "hash_table_remove D h' k = (r, h2)" by force
    show ?thesis using ht_remove [OF h(1) rem] h(2) k True rem by (auto simp: fun_eq_iff)
  next
    case False
    then show ?thesis using ht_insert_fail [OF hi k] ins by (auto simp: fun_eq_iff)
  qed
  then show "ht_inv G (if b then snd (hash_table_remove D h' k) else h')"
    "hash_table_find D (if b then snd (hash_table_remove D h' k) else h') = hash_table_find D h" by simp_all
qed

subsection \<open>A prepared group\<close>

lemma destroy_prepared:
  assumes pr: "prepared D G b g s s1"
  shows "succeeds (ordered_destroy_if D b s1 g) (\<lambda>s'. rounds D G {} {} s' \<and> same_rounds D G s s' \<and> outside G s' = outside G s)"
proof (cases b)
  case True
  then obtain gr where gr: "cells (os_group_store s1) g = Some gr" and ok: "rounds D G {} {g} s1" using pr by (auto simp: prepared_def)
  have un: "same_rounds D G s s1" and out: "outside G s1 = insert g (outside G s)" "g \<notin> outside G s"
    using pr True by (simp_all add: prepared_def)
  show ?thesis using True
    by (simp add: ordered_destroy_if_def)
      (rule succeeds_mono [OF group_destroy_ok [OF ok empty_subsetI gr]], use un out in \<open>auto dest: calm_same_rounds intro: same_rounds_trans\<close>)
next
  case False
  then show ?thesis using pr by (simp add: ordered_destroy_if_def prepared_def)
qed

lemma prepared_peek:
  assumes pr: "prepared D G b g s s1" and gr: "cells (os_group_store s1) g = Some gr"
  obtains first where "qhw_ready_queue_peek D (og_ready gr) = Some first" "(first = None) = b"
proof -
  have ok: "rounds D G {} (if b then {g} else {}) s1" using pr by (simp add: prepared_def)
  have "rq_elems G (og_ready gr) = [] \<longleftrightarrow> b" using roundsD(6) [OF ok gr] by simp
  then show ?thesis using that ready_peek_ok [OF group_queue(1) [OF ok gr]]
    by (auto simp: succeeds_iff rq_first_def split: option.splits)
qed

lemma prepared_tables:
  assumes pr: "prepared D G b g s s1" and idx: "index_ok D G h I (in_rounds D s1)"
  shows "prepared D G b g s (s1\<lparr>os_group_tasks := Some h, os_index_store := I\<rparr>)"
proof -
  let ?s = "s1\<lparr>os_group_tasks := Some h, os_index_store := I\<rparr>"
  have ok: "rounds D G {} (if b then {g} else {}) s1" using pr by (simp add: prepared_def)
  have "rounds D G {} (if b then {g} else {}) ?s"
    using ok idx by (simp add: rounds_def in_rounds_def)
  moreover have "outside G ?s = outside G s1" "in_rounds D ?s = in_rounds D s1" "members G ?s = members G s1"
    by (simp_all add: outside_def in_rounds_def members_def)
  ultimately show ?thesis using pr by (simp add: prepared_def same_rounds_def)
qed

lemma group_get_prepared:
  assumes ok: "rounds D G {} {} s" and key: "valid_key key"
  shows "succeeds (ordered_group_get D s key m) (\<lambda>(r, s1, m'). case r of
      None \<Rightarrow> rounds D G {} {} s1 \<and> same_rounds D G s s1 \<and> outside G s1 = outside G s
    | Some g \<Rightarrow> (\<exists>b. prepared D G b g s s1) \<and> os_group_tasks s1 = os_group_tasks s \<and> os_index_store s1 = os_index_store s)"
proof (rule succeeds_mono [OF find_group_ok [OF ok key]], clarify, goal_cases)
  case (1 r s1 m')
  show ?case
  proof (cases r)
    case None
    then show ?thesis using 1 calm_same_rounds by auto
  next
    case (Some g)
    then consider "rounds D G {} {} s1" "outside G s1 = outside G s"
      | "rounds D G {} {g} s1" "outside G s1 = insert g (outside G s)" "g \<notin> outside G s" using 1 by auto
    then have "\<exists>b. prepared D G b g s s1"
    proof cases
      case 1
      then have "prepared D G False g s s1" using \<open>calm D G s s1\<close> Some \<open>case r of None \<Rightarrow> _ | Some g \<Rightarrow> _\<close>
        by (auto simp: prepared_def dest: calm_same_rounds)
      then show ?thesis by blast
    next
      case 2
      then have "prepared D G True g s s1" using \<open>calm D G s s1\<close> Some \<open>case r of None \<Rightarrow> _ | Some g \<Rightarrow> _\<close>
        by (auto simp: prepared_def dest: calm_same_rounds)
      then show ?thesis by blast
    qed
    then show ?thesis using 1 Some by simp
  qed
qed

subsection \<open>Putting the group in its place\<close>

lemma push_group_ok:
  assumes ok: "rounds D G {} {} s" and gr: "cells (os_group_store s) g = Some gr" and g: "g \<notin> grouped G (round_heap s)"
    and call: "heap_push D (ordered_group_compare D s) (round_heap s) g m = (ins, q', us, m')"
  obtains B' where "ordered_group_update_index us (os_group_store s) = Some B'" "same_groups (os_group_store s) B'"
    "rounds D G {} {} (s\<lparr>os_group_heap := Some q', os_group_store := B'\<rparr>)"
    "outside G (s\<lparr>os_group_heap := Some q', os_group_store := B'\<rparr>) = (if ins then outside G s - {g} else outside G s)"
proof -
  have fl: "filled D (os_items s) (os_group_store s) x" if "x \<in> insert g (grouped G (round_heap s))" for x
    using that all_filled [OF ok, of x] group_filled [OF ok _ gr] by auto
  obtain B' where B': "ordered_group_update_index us (os_group_store s) = Some B'"
    "moved put_group_index (insert g (grouped G (round_heap s))) (os_group_store s) B'"
    "group_heap_ok D G (os_order s) {} (os_items s) B' q'"
    "if ins then grouped G q' = insert g (grouped G (round_heap s)) else B' = os_group_store s \<and> grouped G q' = grouped G (round_heap s)"
    using group_push [OF roundsD(5) [OF ok] g fl call [unfolded group_compare_items]] by blast
  note same = moved_same_groups [OF B'(2)]
  have "outside G (s\<lparr>os_group_heap := Some q', os_group_store := B'\<rparr>) = (if ins then outside G s - {g} else outside G s)"
    using B'(4) same_groups_dom [OF same] by (auto simp: outside_def dom_def)
  from that [OF B'(1) same rounds_regrouped [OF ok same B'(3)] this] show ?thesis .
qed

lemma submit_group_ok:
  assumes ok: "rounds D G {} {} s" and k: "in_rounds D s g k p" and out: "b \<longrightarrow> g \<in> outside G s"
  shows "succeeds (ordered_submit_group D s b g p k e) (\<lambda>(rc, s', e'). rounds D G {} {} s' \<and> env_clock e' = env_clock e \<and>
    (if rc = QHW_SCHED_OK then calm D G s s' \<and> outside G s' = (if b then outside G s - {g} else outside G s)
     else dropped D G g k p s s'))"
proof -
  note mode = round_modeD [OF roundsD(1) [OF ok]]
  obtain gr where gr: "cells (os_group_store s) g = Some gr" by (rule in_roundsE [OF ok k])
  show ?thesis
  proof (cases b)
    case False
    obtain B' q' where re: "ordered_group_reheapify D s g = Some (QHW_SCHED_OK, s\<lparr>os_group_heap := Some q', os_group_store := B'\<rparr>)"
      "same_groups (os_group_store s) B'" "grouped G q' = grouped G (round_heap s)"
      "rounds D G {} {} (s\<lparr>os_group_heap := Some q', os_group_store := B'\<rparr>)"
      by (rule reheapify_ok [OF ok empty_subsetI gr])
    then show ?thesis using False calm_regrouped [OF re(2), of D G "Some q'"] regrouped_outside [OF re(2,3)]
      by (simp add: ordered_submit_group_def)
  next
    case True
    then have g: "g \<notin> grouped G (round_heap s)" using out by (simp add: outside_def)
    obtain ins q' us m where call: "heap_push D (ordered_group_compare D s) (round_heap s) g (env_mem e) = (ins, q', us, m)"
      by (metis prod_cases4)
    obtain B' where B': "ordered_group_update_index us (os_group_store s) = Some B'" "same_groups (os_group_store s) B'"
      "rounds D G {} {} (s\<lparr>os_group_heap := Some q', os_group_store := B'\<rparr>)"
      "outside G (s\<lparr>os_group_heap := Some q', os_group_store := B'\<rparr>) = (if ins then outside G s - {g} else outside G s)"
      by (rule push_group_ok [OF ok gr g call])
    let ?s = "s\<lparr>os_group_heap := Some q', os_group_store := B'\<rparr>"
    have calm: "calm D G s ?s" by (rule calm_regrouped [OF B'(2)])
    show ?thesis
    proof (cases ins)
      case ins: True
      then show ?thesis using True mode(4) call B' calm by (simp add: ordered_submit_group_def)
    next
      case ins: False
      have k1: "in_rounds D ?s g k p" using k calm by (simp add: calm_def)
      have "dropped D G g k p s s'" if "dropped D G g k p ?s s'" for s'
        using that calm B'(4) ins lone_cong [of D ?s s] by (simp add: dropped_def without_def calm_def)
      then have "succeeds (ordered_undo_submit D ?s p k) (\<lambda>s'. rounds D G {} {} s' \<and> dropped D G g k p s s')"
        by (intro succeeds_mono [OF undo_submit_ok [OF B'(3) k1]]) blast
      then show ?thesis using True ins mode(4) call B'(1) by (simp add: ordered_submit_group_def)
    qed
  qed
qed

text \<open>The calls after the task is in the ready queue of its group.\<close>

lemma submit_placed:
  assumes ok: "rounds D G {g} {} s2" and en: "joined D G g k p t s s2" and pe: "pending G (os_refresh s2) = pending G (os_refresh s)"
    and out: "b \<longrightarrow> g \<in> outside G s2" and k: "\<And>x q. \<not> in_rounds D s x k q"
    and now: "ordered_reading s (env_clock e) = (now, c)"
  shows "succeeds (do {
      (rc, s3, e) \<leftarrow> ordered_refresh_task D s2 p e;
      if rc \<noteq> QHW_SCHED_OK then do {
        s3 \<leftarrow> ordered_undo_submit D s3 p k;
        Some (rc, s3, e)
      }
      else ordered_submit_group D s3 b g p k e
    }) (\<lambda>(rc, s', e'). rounds D G {} {} s' \<and> env_clock e' = c \<and>
      (if rc = QHW_SCHED_OK
       then joined D G g k p (boosted_item (ordered_boost s) now t) s s' \<and>
         pending G (os_refresh s') = (if br_next_refresh_ns (boost_at (ordered_boost s) t now) \<noteq> QHW_DEADLINE_BOOST_NEVER
           then insert p (pending G (os_refresh s)) else pending G (os_refresh s)) \<and>
         outside G s' = (if b then outside G s2 - {g} else outside G s2)
       else same_rounds D G s s' \<and> outside G s' = (if lone D s2 g k then outside G s2 - {g} else outside G s2)))"
proof -
  have k2: "in_rounds D s2 g k p" and t: "look (os_items s2) p = Some t" and bs: "ordered_boost s2 = ordered_boost s"
    and np: "p \<notin> pending G (os_refresh s)" using en by (simp_all add: joined_def ordered_boost_def)
  have now2: "ordered_reading s2 (env_clock e) = (now, c)" using now en by (simp add: joined_def ordered_reading_def)
  show ?thesis
  proof (unfold succeeds_bind, rule succeeds_mono [OF round_refresh_ok [OF ok subset_refl k2 t now2]], clarify, goal_cases)
    case (1 rc s3 e3)
    have k3: "in_rounds D s3 g k p" and o3: "outside G s3 = outside G s2" and ln: "lone D s3 g k = lone D s2 g k"
      using 1(1) k2 lone_cong [of D s3 s2] by (simp_all add: round_keep_def)
    have en3: "joined D G g k p (boosted_item (ordered_boost s) now t) s s3"
    proof -
      have "look (os_items s3) = (look (os_items s))(p \<mapsto> boosted_item (ordered_boost s) now t)"
        using en \<open>look (os_items s3) = _\<close> bs unfolding joined_def by (simp del: fun_upd_apply)
      then show ?thesis using en 1(1) by (simp add: joined_def round_keep_def)
    qed
    have pe3: "pending G (os_refresh s3) - {p} = pending G (os_refresh s)"
      using \<open>pending G (os_refresh s3) = _\<close> pe np by (auto split: if_splits)
    have undone: "same_rounds D G s s' \<and> outside G s' = (if lone D s2 g k then outside G s2 - {g} else outside G s2)"
      if "dropped D G g k p s3 s'" for s'
      using joined_dropped [OF en3 that k pe3] that o3 ln by (simp add: dropped_def without_def)
    show ?case
    proof (cases "rc = QHW_SCHED_OK")
      case False
      then have eq: "(rc \<noteq> QHW_SCHED_OK) = True" by simp
      show ?thesis unfolding prod.case eq if_True succeeds_bind
        by (rule succeeds_mono [OF undo_submit_ok [OF 1(2) k3]]) (use False 1(3) undone in simp)
    next
      case True
      then have eq: "(rc \<noteq> QHW_SCHED_OK) = False" by simp
      have pend: "pending G (os_refresh s3) = (if br_next_refresh_ns (boost_at (ordered_boost s) t now) \<noteq> QHW_DEADLINE_BOOST_NEVER
          then insert p (pending G (os_refresh s)) else pending G (os_refresh s))"
        using \<open>pending G (os_refresh s3) = _\<close> True pe np bs by simp
      have o: "b \<longrightarrow> g \<in> outside G s3" using out o3 by simp
      obtain rc' s' e' where call: "ordered_submit_group D s3 b g p k e3 = Some (rc', s', e')"
        and st: "rounds D G {} {} s'" "env_clock e' = env_clock e3"
          "if rc' = QHW_SCHED_OK then calm D G s3 s' \<and> outside G s' = (if b then outside G s3 - {g} else outside G s3)
           else dropped D G g k p s3 s'"
        using submit_group_ok [OF 1(2) k3 o, where e = e3] by (elim succeeds3E) blast
      show ?thesis unfolding prod.case eq if_False call succeeds_Some
      proof (cases "rc' = QHW_SCHED_OK")
        case True
        then have c: "calm D G s3 s'" "outside G s' = (if b then outside G s2 - {g} else outside G s2)" using st(3) o3 by simp_all
        then have "joined D G g k p (boosted_item (ordered_boost s) now t) s s'" using en3 by (simp add: calm_def joined_def)
        then show "rounds D G {} {} s' \<and> env_clock e' = env_clock e3 \<and>
          (if rc' = QHW_SCHED_OK
           then joined D G g k p (boosted_item (ordered_boost s) now t) s s' \<and>
             pending G (os_refresh s') = (if br_next_refresh_ns (boost_at (ordered_boost s) t now) \<noteq> QHW_DEADLINE_BOOST_NEVER
               then insert p (pending G (os_refresh s)) else pending G (os_refresh s)) \<and>
             outside G s' = (if b then outside G s2 - {g} else outside G s2)
           else same_rounds D G s s' \<and> outside G s' = (if lone D s2 g k then outside G s2 - {g} else outside G s2))"
          using True st(1,2) c pend by (simp add: calm_def)
      qed (use st undone [of s'] in simp)
    qed
  qed
qed

text \<open>The task enters the ready queue of its prepared group.\<close>

lemma submit_insert_ok:
  assumes pr: "prepared D G b g s s1" and gr: "cells (os_group_store s1) g = Some gr"
    and tab: "os_group_tasks s1 = Some h" and k: "hash_table_find D h (task_id task) = None"
    and ins: "hash_table_insert D h (task_id task) i m0 = (True, h', m1)" and i: "i = brk (os_index_store s1)"
    and I: "I = (os_index_store s1)\<lparr>cells := (cells (os_index_store s1))(i \<mapsto> \<lparr>oi_group = g\<rparr>), brk := Suc i\<rparr>"
    and I2: "arena_free i I = Some I2" and h2: "h2 = snd (hash_table_remove D h' (task_id task))"
  shows "succeeds (qhw_ready_queue_insert D (og_ready gr) (os_items s1) task m) (\<lambda>(rc, rq, A, m').
      if rc = QHW_SCHED_OK
      then \<exists>p. qhw_ready_queue_find D rq (task_id task) = Some p \<and>
        (let s2 = s1\<lparr>os_items := A, os_group_store := put_ready g gr rq (os_group_store s1), os_group_tasks := Some h', os_index_store := I\<rparr>;
             t = core (new_ready_task (og_ready gr) (heap_invalid_index D) task)
         in rounds D G {g} {} s2 \<and> joined D G g (task_id task) p t s s2 \<and>
           pending G (os_refresh s2) = pending G (os_refresh s) \<and> outside G s2 = outside G s1 \<and>
           (b \<longleftrightarrow> lone D s2 g (task_id task)))
      else prepared D G b g s (s1\<lparr>os_items := A, os_group_store := put_ready g gr rq (os_group_store s1),
        os_group_tasks := Some h2, os_index_store := I2\<rparr>))"
proof -
  have ok1: "rounds D G {} (if b then {g} else {}) s1" and un: "same_rounds D G s s1" using pr by (simp_all add: prepared_def)
  note r = roundsD [OF ok1] and gq = group_queue [OF ok1 gr]
  let ?A0 = "os_items s1" and ?I0 = "os_index_store s1"
  let ?p = "brk ?A0" and ?tid = "task_id task"
  have rt: "round_table s1 = h" using tab by (simp add: round_table_def)
  have idx: "index_ok D G h ?I0 (in_rounds D s1)" using r(3) rt by simp
  have none: "\<not> in_rounds D s1 x ?tid q" for x q using index_ok_find [OF idx, of x ?tid q] k by auto
  show ?thesis
  proof (rule succeeds_mono [OF shared_insert [OF r(4) gq(4)]], clarify, goal_cases)
    case (1 rc rq A m')
    let ?s = "\<lambda>h I. s1\<lparr>os_items := A, os_group_store := put_ready g gr rq (os_group_store s1), os_group_tasks := Some h, os_index_store := I\<rparr>"
    show ?case
    proof (cases "rc = QHW_SCHED_OK")
      case True
      let ?s2 = "?s h' I" and ?t = "core (new_ready_task (og_ready gr) (heap_invalid_index D) task)"
      have st: "inserted task (og_ready gr) ?A0 rq A" "?p \<notin> pending G (os_refresh s1)" "cells ?A0 ?p = None" "look A = (look ?A0)(?p \<mapsto> ?t)"
        using 1(3) True by simp_all
      have in1: "hash_table_find D (rq_by_id (og_ready gr)) ?tid = None"
        "hash_table_find D (rq_by_id rq) = (hash_table_find D (rq_by_id (og_ready gr)))(?tid \<mapsto> ?p)"
        "set (rq_elems G rq) = insert ?p (set (rq_elems G (og_ready gr)))" using st(1) by (simp_all add: inserted_def)
      have ig: "in_rounds D ?s2 = (\<lambda>x j q. in_rounds D s1 x j q \<or> x = g \<and> j = ?tid \<and> q = ?p)"
      proof (intro ext)
        fix x j q
        show "in_rounds D ?s2 x j q \<longleftrightarrow> in_rounds D s1 x j q \<or> x = g \<and> j = ?tid \<and> q = ?p"
          using gr in1(1,2) by (cases "x = g"; cases "j = ?tid") (auto simp: in_rounds_def in_group_def)
      qed
      have idx2: "index_ok D G (round_table ?s2) (os_index_store ?s2) (in_rounds D ?s2)"
        using index_inserted [OF idx k ins [unfolded i], of g ?p] unfolding ig by (simp add: I i)
      have its: "same_keys ?A0 (os_items ?s2) q"
        if x: "cells (os_group_store s1) x = Some xr" "x \<noteq> g" "q \<in> set (rq_elems G (og_ready xr))" for x xr q
      proof -
        have "q \<in> elems_of G (queues (os_group_store s1))" by (rule elems_of_in [of "queues (os_group_store s1)" x, OF group_queue(4) [OF ok1 x(1)] x(3)])
        then have "q \<noteq> ?p" using shared_fresh(2) [OF r(4)] by auto
        then show ?thesis using st(4) by (simp add: same_keys_look)
      qed
      have req: "rounds D G {g} {} ?s2" "outside G ?s2 = outside G s1"
        by (rule rounds_requeue [OF ok1 empty_subsetI gr _ _ _ _ _ idx2 _ its, where E' = "{}" and rq = rq];
            use 1(1) r(1) in1(3) in simp; force)+
      have el: "members G ?s2 = insert ?p (members G s1)"
        using elems_of_grown [of "queues (os_group_store s1)" g, OF gq(4) in1(3)] by (simp add: members_def)
      have "look ?A0 ?p = None" using st(3) by simp
      then have "look (os_items s) ?p = None" using un unfolding same_rounds_def by metis
      then have en: "joined D G g ?tid ?p ?t s ?s2"
        using un st shared_fresh(2) [OF r(4)] ig el by (simp add: joined_def same_rounds_def members_def)
      have "rq_elems G (og_ready gr) = [] \<longleftrightarrow> b" using r(6) [OF gr] by simp
      then have "b \<longleftrightarrow> rq_ids D (og_ready gr) = {}" using rq_ids_empty [OF gq(1)] by simp
      also have "\<dots> \<longleftrightarrow> (\<forall>j q. \<not> in_rounds D s1 g j q)" using gr by (auto simp: rq_ids_def in_rounds_def in_group_def)
      also have "\<dots> \<longleftrightarrow> lone D ?s2 g ?tid" using none unfolding lone_def ig by blast
      finally have ln: "b \<longleftrightarrow> lone D ?s2 g ?tid" .
      have "qhw_ready_queue_find D rq ?tid = Some ?p" using in1(2) by (simp add: qhw_ready_queue_find_def)
      then show ?thesis using True req en ln un by (simp add: Let_def same_rounds_def)
    next
      case False
      have st: "hash_table_find D (rq_by_id rq) = hash_table_find D (rq_by_id (og_ready gr))" "rq_elems G rq = rq_elems G (og_ready gr)"
        "cells A = cells ?A0" using 1(3) False by simp_all
      have hi: "ht_inv G h" "arena_ok ?I0" using idx by (simp_all add: index_ok_def)
      have h2': "ht_inv G h2" "hash_table_find D h2 = hash_table_find D h"
        using ht_insert_remove [OF hi(1) k ins] h2 by simp_all
      have "cells ?I0 i = None" using arena_fresh [OF hi(2)] i by simp
      then have I2': "arena_ok I2" "cells I2 = cells ?I0"
        using I2 hi(2) i I by (auto simp: arena_free_def arena_ok_def less_Suc_eq split: option.splits)
      have ig: "in_rounds D (?s h2 I2) = in_rounds D s1"
      proof (intro ext)
        fix x j q
        show "in_rounds D (?s h2 I2) x j q = in_rounds D s1 x j q"
          using gr st(1) by (cases "x = g") (auto simp: in_rounds_def in_group_def)
      qed
      have idx2: "index_ok D G (round_table (?s h2 I2)) (os_index_store (?s h2 I2)) (in_rounds D (?s h2 I2))"
        using index_ok_same [OF idx h2' I2'] unfolding ig by simp
      have req: "rounds D G {} (if b then {g} else {}) (?s h2 I2)" "outside G (?s h2 I2) = outside G s1" "members G (?s h2 I2) = members G s1"
        by (rule rounds_requeue_same [OF ok1 gr _ _ _ _ _ idx2, where rq = rq]; use 1(1) r(1) st in simp)+
      have "look A = look ?A0" using st(3) by (simp add: look_def fun_eq_iff)
      then have "same_rounds D G s1 (?s h2 I2)" using ig req(3) by (simp add: same_rounds_def)
      then show ?thesis using False req pr same_rounds_trans [OF un] by (simp add: prepared_def)
    qed
  qed
qed

subsection \<open>The submission as a whole\<close>

lemma destroy_submitted:
  "prepared D G b g s s1 \<Longrightarrow> rc \<noteq> QHW_SCHED_OK \<Longrightarrow>
   succeeds (ordered_destroy_if D b s1 g) (\<lambda>s'. submitted D G task now s rc s')"
  by (rule succeeds_mono [OF destroy_prepared]) (auto simp: submitted_def)

text \<open>From the table entry on.\<close>

lemma submit_entered:
  assumes pr: "prepared D G b g s s1" and gr: "cells (os_group_store s1) g = Some gr"
    and tab: "os_group_tasks s1 = Some h" and k: "hash_table_find D h (task_id task) = None"
    and ins: "hash_table_insert D h (task_id task) (brk (os_index_store s1)) m0 = (ins, h', m1)"
    and I: "I = (os_index_store s1)\<lparr>cells := (cells (os_index_store s1))(brk (os_index_store s1) \<mapsto> \<lparr>oi_group = g\<rparr>),
        brk := Suc (brk (os_index_store s1))\<rparr>"
    and none: "\<And>x q. \<not> in_rounds D s x (task_id task) q" and now: "ordered_reading s (env_clock e) = (now, c)"
  shows "succeeds (if \<not> ins then do {
      I \<leftarrow> arena_free (brk (os_index_store s1)) I;
      s \<leftarrow> ordered_destroy_if D b (s1\<lparr>os_group_tasks := Some h', os_index_store := I\<rparr>) g;
      Some (qhw_hash_insert_rc_to_sched_rc ins, s, e)
    }
    else do {
      (rc, rq, A, m) \<leftarrow> qhw_ready_queue_insert D (og_ready gr) (os_items s1) task (env_mem e);
      let e = e\<lparr>env_mem := m\<rparr>;
      B \<leftarrow> arena_put g (gr\<lparr>og_ready := rq\<rparr>) (os_group_store s1);
      let s = s1\<lparr>os_items := A, os_group_store := B, os_group_tasks := Some h', os_index_store := I\<rparr>;
      if rc \<noteq> QHW_SCHED_OK then do {
        I \<leftarrow> arena_free (brk (os_index_store s1)) I;
        s \<leftarrow> ordered_destroy_if D b
          (s\<lparr>os_group_tasks := Some (snd (hash_table_remove D h' (task_id task))), os_index_store := I\<rparr>) g;
        Some (rc, s, e)
      }
      else
        case qhw_ready_queue_find D rq (task_id task) of
          None \<Rightarrow> do {
            (_, s) \<leftarrow> ordered_remove_group_task D s (task_id task);
            Some (QHW_SCHED_ERR_STATE, s, e)
          }
        | Some p \<Rightarrow> do {
            (rc, s, e) \<leftarrow> ordered_refresh_task D s p e;
            if rc \<noteq> QHW_SCHED_OK then do {
              s \<leftarrow> ordered_undo_submit D s p (task_id task);
              Some (rc, s, e)
            }
            else ordered_submit_group D s b g p (task_id task) e
          }
    }) (\<lambda>(rc, s', e'). submitted D G task now s rc s' \<and> env_clock e' \<in> {env_clock e, c} \<and> (rc = QHW_SCHED_OK \<longrightarrow> env_clock e' = c))"
proof -
  have ok1: "rounds D G {} (if b then {g} else {}) s1" and un: "same_rounds D G s s1" using pr by (simp_all add: prepared_def)
  let ?I0 = "os_index_store s1" and ?tid = "task_id task"
  have rt: "round_table s1 = h" using tab by (simp add: round_table_def)
  have idx: "index_ok D G h ?I0 (in_rounds D s1)" using roundsD(3) [OF ok1] rt by simp
  have hi: "ht_inv G h" "arena_ok ?I0" using idx by (simp_all add: index_ok_def)
  obtain I2 where I2: "arena_free (brk ?I0) I = Some I2" "arena_ok I2" "cells I2 = cells ?I0"
    using arena_fresh [OF hi(2)] hi(2) by (auto simp: I arena_free_def arena_ok_def less_Suc_eq fun_upd_idem)
  show ?thesis
  proof (cases ins)
    case False
    have h': "ht_inv G h'" "hash_table_find D h' = hash_table_find D h" using ht_insert_remove [OF hi(1) k ins] False by simp_all
    have pr2: "prepared D G b g s (s1\<lparr>os_group_tasks := Some h', os_index_store := I2\<rparr>)"
      by (rule prepared_tables [OF pr index_ok_same [OF idx h' I2(2,3)]])
    have "succeeds (ordered_destroy_if D b (s1\<lparr>os_group_tasks := Some h', os_index_store := I2\<rparr>) g)
        (\<lambda>s'. submitted D G task now s QHW_SCHED_ERR_NO_MEMORY s')" by (rule destroy_submitted [OF pr2]) simp
    then show ?thesis using False I2(1) by (auto simp: qhw_hash_insert_rc_to_sched_rc_def elim!: succeeds_mono)
  next
    case True
    have ins1: "hash_table_insert D h ?tid (brk ?I0) m0 = (True, h', m1)" using ins True by simp
    obtain rc rq A m where call: "qhw_ready_queue_insert D (og_ready gr) (os_items s1) task (env_mem e) = Some (rc, rq, A, m)"
      and res: "if rc = QHW_SCHED_OK
      then \<exists>p. qhw_ready_queue_find D rq ?tid = Some p \<and>
        (let s2 = s1\<lparr>os_items := A, os_group_store := put_ready g gr rq (os_group_store s1), os_group_tasks := Some h', os_index_store := I\<rparr>;
             t = core (new_ready_task (og_ready gr) (heap_invalid_index D) task)
         in rounds D G {g} {} s2 \<and> joined D G g ?tid p t s s2 \<and>
           pending G (os_refresh s2) = pending G (os_refresh s) \<and> outside G s2 = outside G s1 \<and> (b \<longleftrightarrow> lone D s2 g ?tid))
      else prepared D G b g s (s1\<lparr>os_items := A, os_group_store := put_ready g gr rq (os_group_store s1),
        os_group_tasks := Some (snd (hash_table_remove D h' ?tid)), os_index_store := I2\<rparr>)"
      using submit_insert_ok [OF pr gr tab k ins1 refl I I2(1) refl, of "env_mem e"] by (elim succeeds4E) blast
    have put: "arena_put g (gr\<lparr>og_ready := rq\<rparr>) (os_group_store s1) = Some (put_ready g gr rq (os_group_store s1))"
      using gr by (simp add: arena_put_def)
    show ?thesis
    proof (cases "rc = QHW_SCHED_OK")
      case False
      let ?s = "s1\<lparr>os_items := A, os_group_store := put_ready g gr rq (os_group_store s1),
        os_group_tasks := Some (snd (hash_table_remove D h' ?tid)), os_index_store := I2\<rparr>"
      have "prepared D G b g s ?s" using res False by simp
      then have "succeeds (ordered_destroy_if D b ?s g) (\<lambda>s'. submitted D G task now s rc s')" by (rule destroy_submitted [OF _ False])
      then show ?thesis using False True call put I2(1) by (auto simp: Let_def elim!: succeeds_mono)
    next
      case rc: True
      let ?s = "s1\<lparr>os_items := A, os_group_store := put_ready g gr rq (os_group_store s1), os_group_tasks := Some h', os_index_store := I\<rparr>"
      let ?t = "core (new_ready_task (og_ready gr) (heap_invalid_index D) task)"
      obtain p where p: "qhw_ready_queue_find D rq ?tid = Some p" "rounds D G {g} {} ?s" "joined D G g ?tid p ?t s ?s"
        "pending G (os_refresh ?s) = pending G (os_refresh s)" "outside G ?s = outside G s1" "b \<longleftrightarrow> lone D ?s g ?tid"
        using res rc unfolding Let_def by auto
      have o1: "outside G s1 = (if b then insert g (outside G s) else outside G s)" "b \<longrightarrow> g \<notin> outside G s"
        using pr by (simp_all add: prepared_def)
      then have out: "b \<longrightarrow> g \<in> outside G ?s" "(if b then outside G ?s - {g} else outside G ?s) = outside G s" using p(5) by auto
      have now2: "ordered_reading s (env_clock (e\<lparr>env_mem := m\<rparr>)) = (now, c)" using now by simp
      have "succeeds (do {
          (rc, s3, e) \<leftarrow> ordered_refresh_task D ?s p (e\<lparr>env_mem := m\<rparr>);
          if rc \<noteq> QHW_SCHED_OK then do {
            s3 \<leftarrow> ordered_undo_submit D s3 p ?tid;
            Some (rc, s3, e)
          }
          else ordered_submit_group D s3 b g p ?tid e
        }) (\<lambda>(rc, s', e'). submitted D G task now s rc s' \<and> env_clock e' = c)"
      proof (rule succeeds_mono [OF submit_placed [OF p(2,3,4) out(1) none now2]], goal_cases)
        case (1 x)
        obtain rc' s' e' where x: "x = (rc', s', e')" by (cases x)
        show ?case
        proof (cases "rc' = QHW_SCHED_OK")
          case True
          then show ?thesis using 1 out(2) none unfolding x submitted_def prod.case by metis
        next
          case False
          then show ?thesis using 1 out(2) p(6) unfolding x submitted_def prod.case by metis
        qed
      qed
      then show ?thesis using rc True call put p(1) by (simp add: Let_def succeeds_iff) blast
    qed
  qed
qed

text \<open>The whole.\<close>

lemma submit_round_robin_ok:
  assumes ok: "rounds D G {} {} s" and now: "ordered_reading s (env_clock e) = (now, c)"
  shows "succeeds (ordered_submit_round_robin D s task e) (\<lambda>(rc, s', e'). submitted D G task now s rc s' \<and>
    env_clock e' \<in> {env_clock e, c} \<and> (rc = QHW_SCHED_OK \<longrightarrow> env_clock e' = c) \<and>
    ((\<exists>x q. in_rounds D s x (task_id task) q) \<longrightarrow> rc = QHW_SCHED_ERR_EXISTS))"
proof -
  note r = roundsD [OF ok] and mode = round_modeD [OF roundsD(1) [OF ok]]
  let ?tid = "task_id task" and ?h = "round_table s"
  show ?thesis
  proof (cases "hash_table_find D ?h ?tid")
    case (Some i)
    then show ?thesis using mode(3) ok by (simp add: ordered_submit_round_robin_def submitted_def)
  next
    case None
    have none: "\<not> in_rounds D s x ?tid q" for x q using index_ok_find [OF r(3), of x ?tid q] None by auto
    obtain grp s1 m1 where get: "ordered_group_get D s (qhw_group_key_from_task (Some task)) (env_mem e) = Some (grp, s1, m1)"
      and res: "case grp of
        None \<Rightarrow> rounds D G {} {} s1 \<and> same_rounds D G s s1 \<and> outside G s1 = outside G s
      | Some g \<Rightarrow> (\<exists>b. prepared D G b g s s1) \<and> os_group_tasks s1 = os_group_tasks s \<and> os_index_store s1 = os_index_store s"
      using group_get_prepared [OF ok key_from_task_valid, of task "env_mem e"] by (elim succeeds3E) blast
    show ?thesis
    proof (cases grp)
      case None
      then show ?thesis using mode(3) \<open>hash_table_find D ?h ?tid = None\<close> get res none
        by (simp add: ordered_submit_round_robin_def submitted_def)
    next
      case (Some g)
      then obtain b gr where pr: "prepared D G b g s s1" and gr: "cells (os_group_store s1) g = Some gr"
        and tab: "os_group_tasks s1 = Some ?h" using res mode(3) by (auto simp: prepared_def)
      obtain first where peek: "qhw_ready_queue_peek D (og_ready gr) = Some first" "(first = None) = b"
        by (rule prepared_peek [OF pr gr])
      obtain got e1 where al: "env_alloc (e\<lparr>env_mem := m1\<rparr>) = (got, e1)" by force
      have clk: "env_clock e1 = env_clock e" using al by (auto simp: env_alloc_def split: prod.splits)
      let ?I = "(os_index_store s1)\<lparr>cells := (cells (os_index_store s1))(brk (os_index_store s1) \<mapsto> \<lparr>oi_group = g\<rparr>),
        brk := Suc (brk (os_index_store s1))\<rparr>"
      obtain ins h' m2 where ins: "hash_table_insert D ?h ?tid (brk (os_index_store s1)) (env_mem e1) = (ins, h', m2)"
        by (metis prod_cases3)
      show ?thesis
      proof (cases got)
        case False
        have "succeeds (ordered_destroy_if D b s1 g) (\<lambda>s'. submitted D G task now s QHW_SCHED_ERR_NO_MEMORY s')"
          by (rule destroy_submitted [OF pr]) simp
        then show ?thesis using mode(3) None get Some gr peek al False clk none
          by (auto simp: ordered_submit_round_robin_def elim!: succeeds_mono)
      next
        case True
        have now1: "ordered_reading s (env_clock (e1\<lparr>env_mem := m2\<rparr>)) = (now, c)" using now clk by simp
        have pr': "prepared D G (first = None) g s s1" using pr peek(2) by simp
        note ent = submit_entered [OF pr' gr tab None ins refl none now1]
        have "succeeds (ordered_submit_round_robin D s task e) (\<lambda>(rc, s', e'). submitted D G task now s rc s' \<and>
            env_clock e' \<in> {env_clock e, c} \<and> (rc = QHW_SCHED_OK \<longrightarrow> env_clock e' = c))"
          using ent by (simp add: ordered_submit_round_robin_def mode(3) None get Some gr peek al True arena_alloc_def ins clk Let_def
            del: succeeds_bind succeeds_if split del: if_split)
        then show ?thesis by (rule succeeds_mono) (use none in auto)
      qed
    qed
  qed
qed

end

end
