(* ===== verification/Rounds_Select.thy ===== *)
theory Rounds_Select
  imports Rounds_Submit
begin

section \<open>Selection with the round-robin key\<close>

text \<open>
  A selection takes the first group from the heap and its first task from the group. A group with more tasks gets the next
  ticket and enters the heap again, an empty one is freed.
\<close>

subsection \<open>Ranks of tasks\<close>

text \<open>The vector of the item \<^verbatim>\<open>p\<close> of the group \<^verbatim>\<open>g\<close>: its keys, with the ticket of the group.\<close>

definition item_rank :: "('h, 'l, 'q) ordered_state \<Rightarrow> ptr \<Rightarrow> ptr \<Rightarrow> int list" where
  "item_rank s g p = order_vector (order_keys (os_order s)) (the (look (os_items s) p)) (snd (the (grouping s g)))"

definition foremost :: "('h, 'l, 'q) ds \<Rightarrow> ('h, 'l, 'q) ghost \<Rightarrow> ('h, 'l, 'q) ordered_state \<Rightarrow> ptr \<Rightarrow> ptr \<Rightarrow> bool" where
  "foremost D G s g p \<longleftrightarrow> (\<forall>x j q. in_rounds D s x j q \<longrightarrow> x \<notin> outside G s \<longrightarrow> item_rank s g p \<le> item_rank s x q)"

lemma item_rank_cells:
  "cells (os_group_store s) g = Some gr \<Longrightarrow> cells (os_items s) p = Some t \<Longrightarrow>
   item_rank s g p = order_vector (order_keys (os_order s)) t (og_ticket gr)"
  by (simp add: item_rank_def grouping_def look_def sort_key_vector [of "core t" t])

text \<open>Putting a ticket into a group outside the heap.\<close>

abbreviation (input) put_ticket ::
  "ptr \<Rightarrow> ('h, 'l, 'q) ordered_group \<Rightarrow> u64 \<Rightarrow> ('h, 'l, 'q) ordered_group arena \<Rightarrow> ('h, 'l, 'q) ordered_group arena" where
  "put_ticket g gr n B \<equiv> B\<lparr>cells := (cells B)(g \<mapsto> gr\<lparr>og_ticket := n\<rparr>)\<rparr>"

context datastructures
begin

lemma group_foremost:
  assumes ok: "rounds D G {} {} s" and gr: "cells (os_group_store s) g = Some gr" and first: "rq_first (og_ready gr) (os_items s) p"
    and t: "cells (os_items s) p = Some t"
    and least: "\<And>x. x \<in> grouped G (round_heap s) \<Longrightarrow>
      group_rank D (os_order s) (os_items s) (os_group_store s) g \<le> group_rank D (os_order s) (os_items s) (os_group_store s) x"
  shows "foremost D G s g p"
  unfolding foremost_def
proof (intro allI impI)
  fix x j q
  assume x: "in_rounds D s x j q" "x \<notin> outside G s"
  obtain xr u where xr: "cells (os_group_store s) x = Some xr" "q \<in> set (rq_elems G (og_ready xr))" "cells (os_items s) q = Some u"
    by (rule in_roundsE [OF ok x(1)])
  have "x \<in> grouped G (round_heap s)" using x(2) xr(1) by (auto simp: outside_def)
  note l = least [OF this]
  have rank: "group_rank D (os_order s) (os_items s) (os_group_store s) g = item_rank s g p"
  proof -
    have "qhw_ready_queue_peek D (og_ready gr) = Some (Some p)" using first by (simp add: rq_first_def)
    then show ?thesis using gr t item_rank_cells [OF gr t] by (simp add: group_rank_def ordered_first_task_def)
  qed
  obtain q' v where q': "rq_first (og_ready xr) (os_items s) q'" "cells (os_items s) q' = Some v"
    "group_rank D (os_order s) (os_items s) (os_group_store s) x = order_vector (order_keys (os_order s)) v (og_ticket xr)"
    by (rule group_rank_first [OF ok _ xr(1)]) simp_all
  note gq = group_queue [OF ok xr(1)]
  have "group_rank D (os_order s) (os_items s) (os_group_store s) x \<le> item_rank s x q"
    unfolding q'(3) item_rank_cells [OF xr(1,3)] by (rule first_least [OF q'(1,2) gq(2,3) xr(2,3)])
  then show "item_rank s g p \<le> item_rank s x q" using l rank by simp
qed

lemma rounds_ticket_put:
  fixes n m :: u64 and s :: "('h, 'l, 'q) ordered_state"
  assumes ok: "rounds D G {} E s" and gr: "cells (os_group_store s) g = Some gr" and out: "g \<notin> grouped G (round_heap s)"
  defines "s' \<equiv> s\<lparr>os_next_group_ticket := n, os_group_store := put_ticket g gr m (os_group_store s)\<rparr>"
  shows "rounds D G {} E s'" "calm D G s s'" "outside G s' = outside G s"
proof -
  note r = roundsD [OF ok]
  let ?B = "put_ticket g gr m (os_group_store s)"
  have q: "queues ?B = queues (os_group_store s)" using gr by (auto simp: queues_def)
  have "group_heap_ok D G (os_order s) {} (os_items s) ?B (round_heap s)"
    by (rule group_heap_outside [OF r(5) out]) (use gr out group_heap_index [OF r(5) gr] in auto)
  moreover have "keys_ok D G (round_map s) ?B" by (rule keys_ok_put [OF r(2) gr]) simp
  moreover have "rq_elems G (og_ready xr) = [] \<longleftrightarrow> x \<in> E" if "cells ?B x = Some xr" for x xr
    using that r(6) [of x] gr by (cases "x = g") auto
  ultimately show "rounds D G {} E s'" unfolding s'_def using r(1-4)
    by (intro roundsI) (simp_all add: q in_rounds_def in_group_same [OF q])
  show "calm D G s s'" by (simp add: s'_def calm_def members_def in_rounds_def q in_group_same [OF q])
  show "outside G s' = outside G s" using gr by (auto simp: s'_def outside_def)
qed

subsection \<open>Taking the first group\<close>

lemma pop_group_ok:
  assumes ok: "rounds D G {} {} s" and call: "heap_pop D (ordered_group_compare D s) (round_heap s) = (r, q', us)"
  obtains B' where "ordered_group_update_index us (os_group_store s) = Some B'"
    "case r of
       None \<Rightarrow> grouped G (round_heap s) = {} \<and> rounds D G {} {} (s\<lparr>os_group_heap := Some q', os_group_store := B'\<rparr>) \<and>
         calm D G s (s\<lparr>os_group_heap := Some q', os_group_store := B'\<rparr>) \<and>
         outside G (s\<lparr>os_group_heap := Some q', os_group_store := B'\<rparr>) = outside G s
     | Some g \<Rightarrow> g \<in> grouped G (round_heap s) \<and>
         (\<forall>x \<in> grouped G (round_heap s).
           group_rank D (os_order s) (os_items s) (os_group_store s) g \<le> group_rank D (os_order s) (os_items s) (os_group_store s) x) \<and>
         (\<exists>gr gr1. cells (os_group_store s) g = Some gr \<and> cells B' g = Some gr1 \<and> og_ready gr1 = og_ready gr \<and>
           og_key gr1 = og_key gr \<and> og_ticket gr1 = og_ticket gr \<and>
           (let s1 = s\<lparr>os_group_heap := Some q', os_group_store := B'\<lparr>cells := (cells B')(g \<mapsto> gr1\<lparr>og_heap_index := heap_invalid_index D\<rparr>)\<rparr>\<rparr>
            in rounds D G {} {} s1 \<and> calm D G s s1 \<and> outside G s1 = insert g (outside G s) \<and> grouping s1 = grouping s))"
proof -
  have fl: "filled D (os_items s) (os_group_store s) x" if "x \<in> grouped G (round_heap s)" for x
    using all_filled [OF ok that] by simp
  obtain B' where B': "ordered_group_update_index us (os_group_store s) = Some B'"
    "moved put_group_index (grouped G (round_heap s)) (os_group_store s) B'"
    "case r of
       None \<Rightarrow> grouped G (round_heap s) = {} \<and> grouped G q' = {} \<and> group_heap_ok D G (os_order s) {} (os_items s) B' q'
     | Some g \<Rightarrow> g \<in> grouped G (round_heap s) \<and> grouped G q' = grouped G (round_heap s) - {g} \<and>
         (\<forall>x \<in> grouped G (round_heap s).
           group_rank D (os_order s) (os_items s) (os_group_store s) g \<le> group_rank D (os_order s) (os_items s) (os_group_store s) x) \<and>
         (\<forall>gr'. cells B' g = Some gr' \<longrightarrow> group_heap_ok D G (os_order s) {} (os_items s)
           (B'\<lparr>cells := (cells B')(g \<mapsto> gr'\<lparr>og_heap_index := heap_invalid_index D\<rparr>)\<rparr>) q')"
    using group_pop [OF roundsD(5) [OF ok] fl call [unfolded group_compare_items]] by blast
  note same = moved_same_groups [OF B'(2)]
  show ?thesis
  proof (cases r)
    case None
    have "rounds D G {} {} (s\<lparr>os_group_heap := Some q', os_group_store := B'\<rparr>)"
      by (rule rounds_regrouped [OF ok same]) (use B'(3) None in simp)
    moreover have "outside G (s\<lparr>os_group_heap := Some q', os_group_store := B'\<rparr>) = outside G s"
      by (rule regrouped_outside [OF same]) (use B'(3) None in simp)
    ultimately show ?thesis using that [OF B'(1)] None B'(3) calm_regrouped [OF same, of D G "Some q'"] by simp
  next
    case (Some g)
    have g: "g \<in> grouped G (round_heap s)" "grouped G q' = grouped G (round_heap s) - {g}" using B'(3) Some by simp_all
    obtain gr where gr: "cells (os_group_store s) g = Some gr" using grouped_dom [OF ok] g(1) by blast
    obtain gr1 where gr1: "cells B' g = Some gr1" using moved_dom [OF B'(2), of g] gr by auto
    have eq: "gr1\<lparr>og_heap_index := 0\<rparr> = gr\<lparr>og_heap_index := 0\<rparr>"
      using B'(2) gr gr1 unfolding moved_def by (metis option.inject option.simps(9))
    have sel: "og_ready gr1 = og_ready gr" "og_key gr1 = og_key gr" "og_ticket gr1 = og_ticket gr"
      using arg_cong [OF eq, of og_ready] arg_cong [OF eq, of og_key] arg_cong [OF eq, of og_ticket] by simp_all
    have "gr1\<lparr>og_heap_index := i\<rparr> = gr\<lparr>og_heap_index := i\<rparr>" for i
      using arg_cong [OF eq, of "\<lambda>x. x\<lparr>og_heap_index := i\<rparr>"] by simp
    then have B1: "B'\<lparr>cells := (cells B')(g \<mapsto> gr1\<lparr>og_heap_index := heap_invalid_index D\<rparr>)\<rparr> =
        B'\<lparr>cells := (cells B')(g \<mapsto> gr\<lparr>og_heap_index := heap_invalid_index D\<rparr>)\<rparr>" (is "?B = _") by simp
    have same1: "same_groups (os_group_store s) ?B" unfolding B1 by (rule same_groups_put [OF same gr])
    let ?s = "s\<lparr>os_group_heap := Some q', os_group_store := ?B\<rparr>"
    have "group_heap_ok D G (os_order s) {} (os_items s) ?B q'" using B'(3) Some gr1 by simp
    then have "rounds D G {} {} ?s" by (rule rounds_regrouped [OF ok same1])
    moreover have "outside G ?s = insert g (outside G s)"
      using g same_groups_dom [OF same1] gr by (auto simp: outside_def dom_def)
    ultimately show ?thesis using that [OF B'(1)] Some g(1) B'(3) gr gr1 sel calm_regrouped [OF same1, of D G "Some q'"]
        grouping_same_groups [OF same1, of "Some q'"] by (simp add: Let_def)
  qed
qed

text \<open>Taking the first task of a group outside the heap.\<close>

lemma take_first_ok:
  assumes ok: "rounds D G {} {} s" and gr: "cells (os_group_store s) g = Some gr" and out: "g \<notin> grouped G (round_heap s)"
  obtains p t k rf A rq A' i h I first where
    "qhw_ready_queue_peek D (og_ready gr) = Some (Some p)" "rq_first (og_ready gr) (os_items s) p" "cells (os_items s) p = Some t"
    "qhw_deadline_refresh_remove D (os_refresh s) (os_items s) (Some p) = Some (rf, A)"
    "qhw_ready_queue_pop D (og_ready gr) A = Some (QHW_SCHED_OK, Some k, rq, A')"
    "hash_table_remove D (round_table s) k = (Some i, h)" "arena_free i (os_index_store s) = Some I" "in_rounds D s g k p"
    "rounds D G {} (if first = None then {g} else {}) (s\<lparr>os_refresh := rf, os_items := A', os_group_store := put_ready g gr rq (os_group_store s),
      os_group_tasks := Some h, os_index_store := I\<rparr>)"
    "without D G k p s (s\<lparr>os_refresh := rf, os_items := A', os_group_store := put_ready g gr rq (os_group_store s),
      os_group_tasks := Some h, os_index_store := I\<rparr>)"
    "outside G (s\<lparr>os_refresh := rf, os_items := A', os_group_store := put_ready g gr rq (os_group_store s),
      os_group_tasks := Some h, os_index_store := I\<rparr>) = outside G s"
    "qhw_ready_queue_peek D rq = Some first" "first = None \<longleftrightarrow> lone D s g k"
proof -
  obtain p t where first: "rq_first (og_ready gr) (os_items s) p" "cells (os_items s) p = Some t"
    by (rule group_filled [OF ok _ gr]) simp_all
  then have peek: "qhw_ready_queue_peek D (og_ready gr) = Some (Some p)" and pe: "p \<in> set (rq_elems G (og_ready gr))"
    by (simp_all add: rq_first_def)
  have pm: "p \<in> elems_of G (queues (os_group_store s))"
    by (rule elems_of_in [of "queues (os_group_store s)" g, OF group_queue(4) [OF ok gr] pe])
  obtain rf A where rem: "qhw_deadline_refresh_remove D (os_refresh s) (os_items s) (Some p) = Some (rf, A)"
    and sh: "shared D G (qhw_order_compare (os_order s)) (queues (os_group_store s)) rf A"
    and st: "pending G rf = pending G (os_refresh s) - {p}"
      "look A = (if p \<in> pending G (os_refresh s) then (look (os_items s))(p := map_option (\<lambda>t. t\<lparr>next_refresh_ns := QHW_DEADLINE_BOOST_NEVER\<rparr>)
         (look (os_items s) p)) else look (os_items s))"
    using shared_refresh_remove [OF roundsD(4) [OF ok] pm] by (elim succeeds_tupleE) blast
  have same: "same_keys (os_items s) A x" for x
    using st(2) by (cases "p \<in> pending G (os_refresh s)") (auto intro: same_keys_upd same_keys_look)
  let ?s2 = "s\<lparr>os_refresh := rf, os_items := A\<rparr>"
  note it = rounds_items [OF ok sh same]
  have gr2: "cells (os_group_store ?s2) g = Some gr" using gr by simp
  have np: "p \<notin> pending G rf" using st(1) by simp
  obtain k rq A' where pop: "qhw_ready_queue_pop D (og_ready gr) A = Some (QHW_SCHED_OK, Some k, rq, A')"
    and sh3: "shared D G (qhw_order_compare (os_order s)) ((queues (os_group_store s))(g \<mapsto> rq)) rf A'"
    and rd: "removed k p (og_ready gr) A rq A'"
    using shared_pop [OF sh group_queue(4) [OF ok gr] peek np] by (elim succeeds4E) blast
  have find: "hash_table_find D (rq_by_id (og_ready gr)) k = Some p"
    using rd group_queue(1) [OF it(1) gr2] by (simp add: removed_def ready_ok_def)
  have k: "in_rounds D s g k p" using gr find by (simp add: in_rounds_def in_group_def)
  then have k2: "in_rounds D ?s2 g k p" using it(2) by (simp add: round_keep_def)
  obtain i ix where i: "hash_table_find D (round_table s) k = Some i" by (rule index_at_key [OF ok k])
  obtain x h where hr: "hash_table_remove D (round_table s) k = (x, h)" by force
  obtain I where I: "x = Some i" "arena_free i (os_index_store s) = Some I" "index_ok D G h I (\<lambda>x j q. in_rounds D s x j q \<and> j \<noteq> k)"
    by (rule index_removed [OF roundsD(3) [OF ok] i hr])
  let ?s3 = "s\<lparr>os_refresh := rf, os_items := A', os_group_store := put_ready g gr rq (os_group_store s),
      os_group_tasks := Some h, os_index_store := I\<rparr>"
  have idx: "index_ok D G h I (\<lambda>x j q. in_rounds D ?s2 x j q \<and> j \<noteq> k)" using I(3) it(2) by (simp add: round_keep_def)
  have sh3': "shared D G (qhw_order_compare (os_order ?s2)) ((queues (os_group_store ?s2))(g \<mapsto> rq)) (os_refresh ?s3) A'" using sh3 by simp
  have rd2: "removed k p (og_ready gr) (os_items ?s2) rq A'" using rd by simp
  have m: "round_mode ?s3" using roundsD(1) [OF ok] by simp
  have tk: "rounds D G {g} (if rq_elems G rq = [] then {g} else {}) ?s3" "in_rounds D ?s3 = (\<lambda>x j q. in_rounds D ?s2 x j q \<and> j \<noteq> k)"
    "members G ?s3 = members G ?s2 - {p}" "outside G ?s3 = outside G ?s2" "look A' = (look (os_items ?s2))(p := None)"
    by (rule rounds_taken [OF it(1) empty_subsetI gr2 k2 sh3' rd2 idx m]; simp)+
  have ok3: "rounds D G {} (if rq_elems G rq = [] then {g} else {}) ?s3"
    by (rule rounds_trim [OF tk(1)]) (use out in simp)
  have "(look A)(p := None) = (look (os_items s))(p := None)" using st(2) by auto
  then have wo: "without D G k p s ?s3" "outside G ?s3 = outside G s"
    using tk it(2) st(1) by (simp_all add: without_def round_keep_def)
  have grs: "cells (os_group_store ?s3) g = Some (gr\<lparr>og_ready := rq\<rparr>)" by simp
  have ln: "lone D s g k \<longleftrightarrow> rq_elems G rq = []"
    using lone_empty [OF tk(1,2) grs] it(2) lone_cong [of D ?s2 s] by (simp add: round_keep_def)
  obtain first' where f: "qhw_ready_queue_peek D rq = Some first'" "first' = None \<longleftrightarrow> rq_elems G rq = []"
    using ready_peek_ok [OF group_queue(1) [OF ok3 grs]]
    by (cases "rq_elems G rq") (auto simp: succeeds_iff rq_first_def split: option.splits)
  have ok3': "rounds D G {} (if first' = None then {g} else {}) ?s3" using ok3 f(2) by simp
  show ?thesis
    by (rule that [OF peek first rem pop _ I(2) k ok3' wo f(1)]) (use hr I(1) f(2) ln in simp_all)
qed

end

text \<open>The group without its first task: it is freed when it is empty, and takes its next turn otherwise.\<close>

definition ticket_of :: "('h, 'l, 'q) ordered_state \<Rightarrow> ptr \<rightharpoonup> u64" where
  "ticket_of s g = map_option og_ticket (cells (os_group_store s) g)"

lemma ticket_of_grouping: "grouping s' = grouping s \<Longrightarrow> ticket_of s' = ticket_of s"
proof (rule ext)
  have snd: "ticket_of s g = map_option snd (grouping s g)" for s :: "('h, 'l, 'q) ordered_state" and g
    by (simp add: ticket_of_def grouping_def option.map_comp comp_def)
  show "grouping s' = grouping s \<Longrightarrow> ticket_of s' g = ticket_of s g" for g by (simp add: snd)
qed

lemma group_free_frame:
  "ordered_group_free D s g = Some s' \<Longrightarrow> os_next_group_ticket s' = os_next_group_ticket s \<and>
     cells (os_group_store s') = (cells (os_group_store s))(g := None)"
  by (auto simp: ordered_group_free_def arena_free_def bind_eq_Some_conv split: option.splits)

definition turned :: "ptr \<Rightarrow> ('h, 'l, 'q) ordered_state \<Rightarrow> ('h, 'l, 'q) ordered_state \<Rightarrow> bool" where
  "turned g s s' \<longleftrightarrow>
     os_next_group_ticket s' = os_next_group_ticket s \<and> ticket_of s' = (ticket_of s)(g := None) \<or>
     os_next_group_ticket s' = os_next_group_ticket s + 1 \<and> ticket_of s' = (ticket_of s)(g \<mapsto> os_next_group_ticket s)"

context datastructures
begin

lemma free_group_ok:
  assumes ok: "rounds D G {} {g} s" and gr: "cells (os_group_store s) g = Some gr" and out: "g \<notin> grouped G (round_heap s)"
  shows "succeeds (do {
      gm \<leftarrow> os_groups s;
      let (_, gm) = qhw_group_map_remove D gm (og_key gr);
      s \<leftarrow> ordered_group_free D (s\<lparr>os_groups := Some gm\<rparr>) g;
      Some (QHW_SCHED_OK, tid, s, e)
    }) (\<lambda>(rc, tid', s', e'). rounds D G {} {} s' \<and> env_clock e' = env_clock e \<and> calm D G s s' \<and>
      rc = QHW_SCHED_OK \<and> tid' = tid \<and> outside G s' = outside G s - {g} \<and> turned g s s')"
proof -
  obtain y gm where rm: "qhw_group_map_remove D (round_map s) (og_key gr) = (y, gm)" by force
  obtain B where B: "ordered_group_free D (s\<lparr>os_groups := Some gm\<rparr>) g = Some (s\<lparr>os_groups := Some gm, os_group_store := B\<rparr>)"
    "rounds D G {} {} (s\<lparr>os_groups := Some gm, os_group_store := B\<rparr>)" "calm D G s (s\<lparr>os_groups := Some gm, os_group_store := B\<rparr>)"
    "outside G (s\<lparr>os_groups := Some gm, os_group_store := B\<rparr>) = outside G s - {g}"
    by (rule group_freed_ok [OF ok empty_subsetI gr out rm])
  moreover have "turned g s (s\<lparr>os_groups := Some gm, os_group_store := B\<rparr>)"
    using group_free_frame [OF B(1)] by (simp add: turned_def ticket_of_def fun_eq_iff)
  ultimately show ?thesis using round_modeD(2) [OF roundsD(1) [OF ok]] rm by simp
qed

lemma requeue_group_ok:
  assumes ok: "rounds D G {} {} s" and gr: "cells (os_group_store s) g = Some gr" and out: "g \<notin> grouped G (round_heap s)"
  shows "succeeds (do {
      B \<leftarrow> arena_put g (gr\<lparr>og_ticket := os_next_group_ticket s\<rparr>) (os_group_store s);
      let s = s\<lparr>os_next_group_ticket := os_next_group_ticket s + 1, os_group_store := B\<rparr>;
      q \<leftarrow> os_group_heap s;
      let (ok, q, us, m) = heap_push D (ordered_group_compare D s) q g (env_mem e);
      B \<leftarrow> ordered_group_update_index us B;
      let s = s\<lparr>os_group_heap := Some q, os_group_store := B\<rparr>;
      let e = e\<lparr>env_mem := m\<rparr>;
      if \<not> ok then Some (QHW_SCHED_ERR_NO_MEMORY, None, s, e)
      else Some (QHW_SCHED_OK, tid, s, e)
    }) (\<lambda>(rc, tid', s', e'). rounds D G {} {} s' \<and> env_clock e' = env_clock e \<and> calm D G s s' \<and> turned g s s' \<and>
      (rc = QHW_SCHED_OK \<and> tid' = tid \<and> outside G s' = outside G s - {g} \<or>
       rc = QHW_SCHED_ERR_NO_MEMORY \<and> tid' = None \<and> outside G s' = outside G s))"
proof -
  let ?s = "s\<lparr>os_next_group_ticket := os_next_group_ticket s + 1, os_group_store := put_ticket g gr (os_next_group_ticket s) (os_group_store s)\<rparr>"
  note t = rounds_ticket_put [OF ok gr out, where n = "os_next_group_ticket s + 1" and m = "os_next_group_ticket s"]
  have gr1: "cells (os_group_store ?s) g = Some (gr\<lparr>og_ticket := os_next_group_ticket s\<rparr>)" by simp
  have out1: "g \<notin> grouped G (round_heap ?s)" using out by simp
  obtain ins q us m where push: "heap_push D (ordered_group_compare D ?s) (round_heap ?s) g (env_mem e) = (ins, q, us, m)"
    by (metis prod_cases4)
  obtain B where B: "ordered_group_update_index us (os_group_store ?s) = Some B" "same_groups (os_group_store ?s) B"
    "rounds D G {} {} (?s\<lparr>os_group_heap := Some q, os_group_store := B\<rparr>)"
    "outside G (?s\<lparr>os_group_heap := Some q, os_group_store := B\<rparr>) = (if ins then outside G ?s - {g} else outside G ?s)"
    by (rule push_group_ok [OF t(1) gr1 out1 push])
  have calm: "calm D G s (?s\<lparr>os_group_heap := Some q, os_group_store := B\<rparr>)"
    by (rule calm_trans [OF t(2) calm_regrouped [OF B(2)]])
  have heap: "os_group_heap s = Some (round_heap ?s)" using round_modeD(4) [OF roundsD(1) [OF ok]] by simp
  have "turned g s (?s\<lparr>os_group_heap := Some q, os_group_store := B\<rparr>)"
    using ticket_of_grouping [OF grouping_same_groups [OF B(2), of "Some q"]] by (simp add: turned_def fun_eq_iff) (simp add: ticket_of_def)
  then show ?thesis using gr heap push B(1,3,4) t(3) calm by (simp add: arena_put_def Let_def)
qed

text \<open>
  The outcome of a selection: a task that is first in the order of tasks with the tickets of their groups leaves, and its group,
  if it has other tasks, gets the next ticket. When the group does not fit back into the heap, it stays outside.
\<close>

definition taken ::
  "('h, 'l, 'q) ordered_state \<Rightarrow> qhw_sched_rc \<Rightarrow> u64 option \<Rightarrow> ('h, 'l, 'q) ordered_state \<Rightarrow> bool" where
  "taken s rc tid s' \<longleftrightarrow> (\<exists>g k p. in_rounds D s g k p \<and> g \<in> grouped G (round_heap s) \<and> foremost D G s g p \<and> without D G k p s s' \<and>
     turned g s s' \<and>
     (rc = QHW_SCHED_OK \<and> tid = Some k \<and> outside G s' = outside G s \<or>
      rc = QHW_SCHED_ERR_NO_MEMORY \<and> tid = None \<and> \<not> lone D s g k \<and> outside G s' = insert g (outside G s)))"

lemma select_round_robin_ok:
  assumes ok: "rounds D G {} {} s"
  shows "succeeds (ordered_select_round_robin D s e) (\<lambda>(rc, tid, s', e'). rounds D G {} {} s' \<and> env_clock e' = env_clock e \<and>
    (if rc = QHW_SCHED_ERR_NOT_FOUND
     then tid = None \<and> grouped G (round_heap s) = {} \<and> same_rounds D G s s' \<and> outside G s' = outside G s
     else taken s rc tid s'))"
proof -
  note mode = round_modeD [OF roundsD(1) [OF ok]]
  obtain r q' us where call: "heap_pop D (ordered_group_compare D s) (round_heap s) = (r, q', us)" by (metis prod_cases3)
  obtain B' where B': "ordered_group_update_index us (os_group_store s) = Some B'"
    and res: "case r of
       None \<Rightarrow> grouped G (round_heap s) = {} \<and> rounds D G {} {} (s\<lparr>os_group_heap := Some q', os_group_store := B'\<rparr>) \<and>
         calm D G s (s\<lparr>os_group_heap := Some q', os_group_store := B'\<rparr>) \<and>
         outside G (s\<lparr>os_group_heap := Some q', os_group_store := B'\<rparr>) = outside G s
     | Some g \<Rightarrow> g \<in> grouped G (round_heap s) \<and>
         (\<forall>x \<in> grouped G (round_heap s).
           group_rank D (os_order s) (os_items s) (os_group_store s) g \<le> group_rank D (os_order s) (os_items s) (os_group_store s) x) \<and>
         (\<exists>gr gr1. cells (os_group_store s) g = Some gr \<and> cells B' g = Some gr1 \<and> og_ready gr1 = og_ready gr \<and>
           og_key gr1 = og_key gr \<and> og_ticket gr1 = og_ticket gr \<and>
           (let s1 = s\<lparr>os_group_heap := Some q', os_group_store := B'\<lparr>cells := (cells B')(g \<mapsto> gr1\<lparr>og_heap_index := heap_invalid_index D\<rparr>)\<rparr>\<rparr>
            in rounds D G {} {} s1 \<and> calm D G s s1 \<and> outside G s1 = insert g (outside G s) \<and> grouping s1 = grouping s))"
    by (rule pop_group_ok [OF ok call])
  show ?thesis
  proof (cases r)
    case None
    then show ?thesis using mode(4) call B' res calm_same_rounds [of D G s "s\<lparr>os_group_heap := Some q', os_group_store := B'\<rparr>"]
      by (simp add: ordered_select_round_robin_def)
  next
    case (Some g)
    then obtain gr gr0 where g: "g \<in> grouped G (round_heap s)" "cells (os_group_store s) g = Some gr" "cells B' g = Some gr0"
      "og_ready gr0 = og_ready gr" "og_key gr0 = og_key gr"
      "\<And>x. x \<in> grouped G (round_heap s) \<Longrightarrow>
        group_rank D (os_order s) (os_items s) (os_group_store s) g \<le> group_rank D (os_order s) (os_items s) (os_group_store s) x"
      and st: "let s1 = s\<lparr>os_group_heap := Some q', os_group_store := B'\<lparr>cells := (cells B')(g \<mapsto> gr0\<lparr>og_heap_index := heap_invalid_index D\<rparr>)\<rparr>\<rparr>
        in rounds D G {} {} s1 \<and> calm D G s s1 \<and> outside G s1 = insert g (outside G s) \<and> grouping s1 = grouping s"
      using res by auto
    let ?gr = "gr0\<lparr>og_heap_index := heap_invalid_index D\<rparr>"
    let ?B1 = "B'\<lparr>cells := (cells B')(g \<mapsto> ?gr)\<rparr>"
    let ?s1 = "s\<lparr>os_group_heap := Some q', os_group_store := ?B1\<rparr>"
    have ok1: "rounds D G {} {} ?s1" and calm: "calm D G s ?s1" and o1: "outside G ?s1 = insert g (outside G s)"
      using st by (simp_all add: Let_def)
    have put: "arena_put g ?gr B' = Some ?B1" using g(3) by (simp add: arena_put_def)
    have gr1: "cells (os_group_store ?s1) g = Some ?gr" by simp
    have "g \<in> outside G ?s1" using o1 by simp
    then have out1: "g \<notin> grouped G (round_heap ?s1)" by (simp only: outside_def) blast
    have ng: "g \<notin> outside G s" using g(1) by (simp add: outside_def)
    obtain p t k rf A rq A' i h I first where
      f: "qhw_ready_queue_peek D (og_ready ?gr) = Some (Some p)" "rq_first (og_ready ?gr) (os_items ?s1) p" "cells (os_items ?s1) p = Some t"
      "qhw_deadline_refresh_remove D (os_refresh ?s1) (os_items ?s1) (Some p) = Some (rf, A)"
      "qhw_ready_queue_pop D (og_ready ?gr) A = Some (QHW_SCHED_OK, Some k, rq, A')"
      "hash_table_remove D (round_table ?s1) k = (Some i, h)" "arena_free i (os_index_store ?s1) = Some I" "in_rounds D ?s1 g k p"
      "rounds D G {} (if first = None then {g} else {}) (?s1\<lparr>os_refresh := rf, os_items := A',
        os_group_store := put_ready g ?gr rq (os_group_store ?s1), os_group_tasks := Some h, os_index_store := I\<rparr>)"
      "without D G k p ?s1 (?s1\<lparr>os_refresh := rf, os_items := A',
        os_group_store := put_ready g ?gr rq (os_group_store ?s1), os_group_tasks := Some h, os_index_store := I\<rparr>)"
      "outside G (?s1\<lparr>os_refresh := rf, os_items := A', os_group_store := put_ready g ?gr rq (os_group_store ?s1),
        os_group_tasks := Some h, os_index_store := I\<rparr>) = outside G ?s1"
      "qhw_ready_queue_peek D rq = Some first" "first = None \<longleftrightarrow> lone D ?s1 g k"
      by (rule take_first_ok [OF ok1 gr1 out1])
    obtain s3 where s3: "s3 = ?s1\<lparr>os_refresh := rf, os_items := A', os_group_store := put_ready g ?gr rq (os_group_store ?s1),
      os_group_tasks := Some h, os_index_store := I\<rparr>" by simp
    note f3 = f(9-11) [folded s3]
    have fm: "foremost D G s g p"
      by (rule group_foremost [OF ok g(2) _ _ g(6), of p t]) (use f(2,3) g(4) in simp_all)
    have kp: "in_rounds D s g k p" and ln: "first = None \<longleftrightarrow> lone D s g k"
      using f(8,13) calm lone_cong [of D ?s1 s] by (simp_all add: calm_def)
    have "grouping s3 = grouping s" using st by (auto simp: s3 grouping_def Let_def fun_eq_iff split: if_splits)
    then have t3: "turned g s s'" if "turned g s3 s'" for s'
      using that by (simp add: turned_def ticket_of_grouping [of s3 s]) (simp add: s3)
    have tk: "taken s rc tid s'" if "calm D G s3 s'" "turned g s3 s'"
      "rc = QHW_SCHED_OK \<and> tid = Some k \<and> outside G s' = outside G s \<or>
       rc = QHW_SCHED_ERR_NO_MEMORY \<and> tid = None \<and> first \<noteq> None \<and> outside G s' = insert g (outside G s)" for rc tid s'
    proof -
      have "without D G k p s s'" using f3(2) calm that(1) by (simp add: without_def calm_def)
      then show ?thesis unfolding taken_def using kp g(1) fm that(3) t3 [OF that(2)] ln by blast
    qed
    let ?gr3 = "?gr\<lparr>og_ready := rq\<rparr>"
    have gr3: "cells (os_group_store s3) g = Some ?gr3" and out3: "g \<notin> grouped G (round_heap s3)" using out1 by (simp_all add: s3)
    have o3: "outside G s3 = insert g (outside G s)" using f3(3) o1 by simp
    have pre: "ordered_select_round_robin D s e = (if first = None then do {
          gm \<leftarrow> os_groups s3;
          let (_, gm) = qhw_group_map_remove D gm (og_key ?gr3);
          s \<leftarrow> ordered_group_free D (s3\<lparr>os_groups := Some gm\<rparr>) g;
          Some (QHW_SCHED_OK, Some k, s, e)
        }
        else do {
          B \<leftarrow> arena_put g (?gr3\<lparr>og_ticket := os_next_group_ticket s3\<rparr>) (os_group_store s3);
          let s = s3\<lparr>os_next_group_ticket := os_next_group_ticket s3 + 1, os_group_store := B\<rparr>;
          q \<leftarrow> os_group_heap s;
          let (ok, q, us, m) = heap_push D (ordered_group_compare D s) q g (env_mem e);
          B \<leftarrow> ordered_group_update_index us B;
          let s = s\<lparr>os_group_heap := Some q, os_group_store := B\<rparr>;
          let e = e\<lparr>env_mem := m\<rparr>;
          if \<not> ok then Some (QHW_SCHED_ERR_NO_MEMORY, None, s, e)
          else Some (QHW_SCHED_OK, Some k, s, e)
        })"
      using f(1,4-7,12) mode(3,4) call B' Some g(3,4) put
      by (simp add: ordered_select_round_robin_def s3 Let_def arena_put_def)
    show ?thesis
    proof (cases "first = None")
      case True
      then have ok3: "rounds D G {} {g} s3" using f3(1) by simp
      show ?thesis unfolding pre if_P [OF True]
        by (rule succeeds_mono [OF free_group_ok [OF ok3 gr3 out3]]) (use tk o3 ng in auto)
    next
      case False
      then have ok3: "rounds D G {} {} s3" using f3(1) by (simp only: if_False)
      show ?thesis unfolding pre if_not_P [OF False]
        by (rule succeeds_mono [OF requeue_group_ok [OF ok3 gr3 out3]]) (use tk o3 ng False in auto)
    qed
  qed
qed

end

end
