(* ===== verification/Rounds_Policy.thy ===== *)
theory Rounds_Policy
  imports Rounds_Select
begin

section \<open>The callbacks of the ordered policy with the round-robin key\<close>

text \<open>
  The groups, queues and heaps seen as a map from identifiers to tasks, and what each callback does to that map and to the
  freshness of the boosts.
\<close>

subsection \<open>The tasks\<close>

definition round_tasks :: "('h, 'l, 'q) ds \<Rightarrow> ('h, 'l, 'q) ordered_state \<Rightarrow> u64 \<rightharpoonup> qhw_ready_task" where
  "round_tasks D s k = (case ordered_find_ready_task D s k of
     Some (Some p) \<Rightarrow> map_option bare (look (os_items s) p) | _ \<Rightarrow> None)"

text \<open>The ticket of the group of a task.\<close>

definition round_ticket :: "('h, 'l, 'q) ds \<Rightarrow> ('h, 'l, 'q) ordered_state \<Rightarrow> u64 \<Rightarrow> u64 option" where
  "round_ticket D s k = (case ordered_task_group D s k of
     Some (Some g) \<Rightarrow> map_option og_ticket (cells (os_group_store s) g) | _ \<Rightarrow> None)"

definition round_fresh :: "('h, 'l, 'q) ghost \<Rightarrow> ('h, 'l, 'q) ordered_state \<Rightarrow> clock \<Rightarrow> bool" where
  "round_fresh G s c \<longleftrightarrow> (\<forall>p \<in> members G s.
     timely (ordered_boost s) (ordered_floor s c) (pending G (os_refresh s)) (os_items s) p)"

context datastructures
begin

lemma round_fresh_eq [simp]: "rounds.fresh = round_fresh G"
  by (simp add: fun_eq_iff rounds.fresh_def round_fresh_def rounds.waiting_def)

lemma round_tasks_in:
  assumes ok: "rounds D G Z E s" and k: "in_rounds D s g k p"
  shows "round_tasks D s k = map_option bare (look (os_items s) p)" "k \<in> dom (round_tasks D s)"
proof -
  obtain t where t: "cells (os_items s) p = Some t" by (rule in_roundsE [OF ok k])
  show "round_tasks D s k = map_option bare (look (os_items s) p)" using find_ready_task_ok(2) [OF ok k] by (simp add: round_tasks_def)
  then have "round_tasks D s k = Some (bare (core t))" using t by (simp add: look_def)
  then show "k \<in> dom (round_tasks D s)" by (rule domI)
qed

lemma round_tasks_out: "rounds D G Z E s \<Longrightarrow> (\<And>g p. \<not> in_rounds D s g k p) \<Longrightarrow> round_tasks D s k = None"
  using find_ready_task_ok(1) [of Z E s k] by (simp add: round_tasks_def)

lemma round_tasks_dom: "rounds D G Z E s \<Longrightarrow> k \<in> dom (round_tasks D s) \<longleftrightarrow> (\<exists>g p. in_rounds D s g k p)"
  using round_tasks_in(2) round_tasks_out by (metis domIff)

lemma round_tasks_same:
  assumes ok: "rounds D G Z E s" "rounds D G Z' E' s'" and eq: "in_rounds D s' = in_rounds D s" "same_tasks (os_items s) (os_items s')"
  shows "round_tasks D s' = round_tasks D s"
proof (rule ext)
  fix k
  show "round_tasks D s' k = round_tasks D s k"
  proof (cases "\<exists>g p. in_rounds D s g k p")
    case True
    then obtain g p where k: "in_rounds D s g k p" by blast
    then have k': "in_rounds D s' g k p" using eq(1) by simp
    show ?thesis using round_tasks_in(1) [OF ok(1) k] round_tasks_in(1) [OF ok(2) k'] eq(2) by (simp add: same_tasks_def)
  next
    case False
    then show ?thesis using round_tasks_out [OF ok(1), of k] round_tasks_out [OF ok(2), of k] eq(1) by simp
  qed
qed

lemma same_rounds_tasks: "rounds D G {} {} s \<Longrightarrow> rounds D G {} {} s' \<Longrightarrow> same_rounds D G s s' \<Longrightarrow> round_tasks D s' = round_tasks D s"
  by (rule round_tasks_same) (simp_all add: same_rounds_def same_tasks_def)

lemma item_key: "rounds D G Z E s \<Longrightarrow> in_rounds D s g k p \<Longrightarrow> in_rounds D s x j p \<Longrightarrow> j = k"
proof -
  assume ok: "rounds D G Z E s" and k: "in_rounds D s g k p" and j: "in_rounds D s x j p"
  obtain t where t: "cells (os_items s) p = Some t" "task_id (rt_desc t) = k" by (rule in_roundsE [OF ok k])
  obtain u where u: "cells (os_items s) p = Some u" "task_id (rt_desc u) = j" by (rule in_roundsE [OF ok j])
  show "j = k" using t u by simp
qed

lemma without_tasks:
  assumes ok: "rounds D G {} {} s" "rounds D G {} {} s'" and k: "in_rounds D s g k p" and wo: "without D G k p s s'"
  shows "round_tasks D s' = (round_tasks D s)(k := None)"
proof (rule ext)
  fix j
  have ig: "in_rounds D s' x j q \<longleftrightarrow> in_rounds D s x j q \<and> j \<noteq> k" for x q using wo by (simp add: without_def)
  show "round_tasks D s' j = ((round_tasks D s)(k := None)) j"
  proof (cases "j \<noteq> k \<and> (\<exists>x q. in_rounds D s x j q)")
    case True
    then obtain x q where j: "in_rounds D s x j q" "j \<noteq> k" by blast
    then have "q \<noteq> p" using item_key [OF ok(1) k] by blast
    then show ?thesis using True round_tasks_in(1) [OF ok(1) j(1)] round_tasks_in(1) [OF ok(2), of x j q] j ig wo
      by (simp add: without_def)
  next
    case False
    then have "round_tasks D s' j = None" using ig by (intro round_tasks_out [OF ok(2)]) blast
    then show ?thesis using False round_tasks_out [OF ok(1), of j] by auto
  qed
qed

lemma joined_tasks:
  assumes ok: "rounds D G {} {} s" "rounds D G {} {} s'" and k: "\<And>x q. \<not> in_rounds D s x k q" and en: "joined D G g k p t s s'"
  shows "round_tasks D s' = (round_tasks D s)(k \<mapsto> bare t)"
proof (rule ext)
  fix j
  have ig: "in_rounds D s' x j q \<longleftrightarrow> in_rounds D s x j q \<or> x = g \<and> j = k \<and> q = p" for x q using en by (simp add: joined_def)
  have lk: "look (os_items s') = (look (os_items s))(p \<mapsto> t)" and pm: "p \<notin> members G s" using en by (simp_all add: joined_def)
  show "round_tasks D s' j = ((round_tasks D s)(k \<mapsto> bare t)) j"
  proof (cases "j = k")
    case True
    then have "in_rounds D s' g j p" using ig by blast
    then show ?thesis using True round_tasks_in(1) [OF ok(2), of g j p] lk by simp
  next
    case False
    show ?thesis
    proof (cases "\<exists>x q. in_rounds D s x j q")
      case True
      then obtain x q where j: "in_rounds D s x j q" by blast
      then have "q \<in> members G s" by (rule in_roundsE [OF ok(1)])
      then have "q \<noteq> p" using pm by blast
      then show ?thesis using False round_tasks_in(1) [OF ok(1) j] round_tasks_in(1) [OF ok(2), of x j q] j ig lk by simp
    next
      case none: False
      then have "round_tasks D s' j = None" using ig False by (intro round_tasks_out [OF ok(2)]) blast
      then show ?thesis using False none round_tasks_out [OF ok(1), of j] by auto
    qed
  qed
qed

subsection \<open>Freshness\<close>

lemma round_floor: "ordered_reading s k = (now, c) \<Longrightarrow> ordered_floor s k \<le> now \<and> ordered_floor s c = now"
  by (rule ordered_reading_floor)

lemma same_rounds_fresh:
  assumes "round_fresh G s k" "same_rounds D G s s'" "ordered_floor s k \<le> ordered_floor s k'"
  shows "round_fresh G s' k'"
  unfolding round_fresh_def
proof
  fix x
  assume x: "x \<in> members G s'"
  have rest: "ordered_boost s' = ordered_boost s" "ordered_floor s' = ordered_floor s" "members G s' = members G s"
    "look (os_items s') = look (os_items s)" "pending G (os_refresh s') = pending G (os_refresh s)"
    using assms(2) by (simp_all add: same_rounds_def ordered_boost_def ordered_floor_def fun_eq_iff)
  show "timely (ordered_boost s') (ordered_floor s' k') (pending G (os_refresh s')) (os_items s') x"
    by (rule timely_other [of _ "ordered_floor s k" "pending G (os_refresh s)" "os_items s"])
      (use assms(1,3) rest x in \<open>simp_all add: round_fresh_def\<close>)
qed

lemma without_fresh:
  assumes "round_fresh G s k" "without D G j p s s'"
  shows "round_fresh G s' k"
  unfolding round_fresh_def
proof
  fix x
  assume x: "x \<in> members G s'"
  have rest: "ordered_boost s' = ordered_boost s" "ordered_floor s' = ordered_floor s" "members G s' = members G s - {p}"
    "look (os_items s') = (look (os_items s))(p := None)" "pending G (os_refresh s') = pending G (os_refresh s) - {p}"
    using assms(2) by (simp_all add: without_def ordered_boost_def ordered_floor_def fun_eq_iff)
  show "timely (ordered_boost s') (ordered_floor s' k) (pending G (os_refresh s')) (os_items s') x"
    by (rule timely_other [of _ "ordered_floor s k" "pending G (os_refresh s)" "os_items s"])
      (use assms(1) rest x in \<open>simp_all add: round_fresh_def\<close>)
qed

lemma joined_fresh:
  assumes fr: "round_fresh G s k" and now: "ordered_reading s k = (now, c)"
    and en: "joined D G g j p (boosted_item (ordered_boost s) now t) s s'"
    and pe: "pending G (os_refresh s') = (if br_next_refresh_ns (boost_at (ordered_boost s) t now) \<noteq> QHW_DEADLINE_BOOST_NEVER
      then insert p (pending G (os_refresh s)) else pending G (os_refresh s))"
  shows "round_fresh G s' c"
  unfolding round_fresh_def
proof
  fix x
  assume x: "x \<in> members G s'"
  let ?t = "boosted_item (ordered_boost s) now t"
  have rest: "ordered_boost s' = ordered_boost s" "ordered_floor s' = ordered_floor s" "members G s' = insert p (members G s)"
    "look (os_items s') = (look (os_items s))(p \<mapsto> ?t)"
    using en by (simp_all add: joined_def ordered_boost_def ordered_floor_def fun_eq_iff)
  note fl = round_floor [OF now]
  have bt: "boost_at (ordered_boost s) ?t now = boost_at (ordered_boost s) t now" by (simp add: boost_at_def)
  show "timely (ordered_boost s') (ordered_floor s' c) (pending G (os_refresh s')) (os_items s') x"
  proof (cases "x = p")
    case True
    have "look (os_items s') x = Some ?t" using True rest(4) by (simp only: fun_upd_same)
    moreover have "now \<le> ordered_floor s' c" using fl rest(2) by simp
    moreover have "next_refresh_ns ?t = QHW_DEADLINE_BOOST_NEVER \<or> x \<in> pending G (os_refresh s')"
      using True pe by simp
    ultimately show ?thesis unfolding timely_def rest(1)
      by (intro exI [of _ ?t] exI [of _ now]) (simp add: bt)
  next
    case False
    show ?thesis
      by (rule timely_other [of _ "ordered_floor s k" "pending G (os_refresh s)" "os_items s"])
        (use False fr rest x fl pe in \<open>simp_all add: round_fresh_def\<close>)
  qed
qed

end

end
