(* ===== verification/Rounds_Callbacks.thy ===== *)
theory Rounds_Callbacks
  imports Rounds_Policy
begin

section \<open>Contracts of the callbacks\<close>

text \<open>
  What submission, selection, a priority change and a finish report do with the round-robin key, in terms of the map of tasks,
  and in which order tasks are selected.
\<close>

subsection \<open>The order of tasks\<close>

text \<open>
  The ranks by which a waiting task is compared: its keys with its boost of the time \<^verbatim>\<open>now\<close>, and the ticket of its group
  for the round-robin key. The task \<^verbatim>\<open>k\<close> is least when every task \<^verbatim>\<open>j\<close> has its boost of the time \<^verbatim>\<open>at j\<close>.
\<close>

definition round_rank :: "('h, 'l, 'q) ds \<Rightarrow> ('h, 'l, 'q) ordered_state \<Rightarrow> u64 \<Rightarrow> u64 \<Rightarrow> int list" where
  "round_rank D s k now = (let t = the (round_tasks D s k) in
     order_vector (order_keys (os_order s))
       (t\<lparr>effective_priority := br_effective_priority (boost_at (ordered_boost s) t now)\<rparr>) (the (round_ticket D s k)))"

definition round_first ::
  "('h, 'l, 'q) ds \<Rightarrow> ('h, 'l, 'q) ordered_state \<Rightarrow> (u64 \<Rightarrow> u64) \<Rightarrow> u64 \<Rightarrow> bool" where
  "round_first D s at k \<longleftrightarrow> k \<in> dom (round_tasks D s) \<and>
     (\<forall>j \<in> dom (round_tasks D s). round_rank D s k (at k) \<le> round_rank D s j (at j))"

context datastructures
begin

lemma round_ticket_in:
  assumes ok: "rounds D G Z E s" and k: "in_rounds D s g k p"
  shows "round_ticket D s k = Some (snd (the (grouping s g)))"
proof -
  obtain gr where "cells (os_group_store s) g = Some gr" by (rule in_roundsE [OF ok k])
  then show ?thesis using task_group_found [OF ok k] by (simp add: round_ticket_def grouping_def)
qed

text \<open>In a state \<^verbatim>\<open>s1\<close> whose boosts were computed at the times \<^verbatim>\<open>at\<close>, the ranks of items are those of their tasks.\<close>

lemma item_rank_task:
  assumes ok: "rounds D G {} {} s" "rounds D G {} {} s1" and keep: "round_keep D G s s1" "same_tasks (os_items s) (os_items s1)"
    and k: "in_rounds D s g k p" and t: "look (os_items s1) p = Some t"
    and eff: "effective_priority t = br_effective_priority (boost_at (ordered_boost s) t a)"
  shows "item_rank s1 g p = round_rank D s k a"
proof -
  have "map_option bare (look (os_items s1) p) = map_option bare (look (os_items s) p)" using keep(2) by (simp add: same_tasks_def)
  then have b: "round_tasks D s k = Some (bare t)" using round_tasks_in(1) [OF ok(1) k] t by simp
  have "sort_key ((bare t)\<lparr>effective_priority := effective_priority t\<rparr>) = sort_key t" by (simp add: sort_key_def bare_def)
  note v = sort_key_vector [OF this]
  have "boost_at (ordered_boost s) (bare t) a = boost_at (ordered_boost s) t a" by (simp add: boost_at_def bare_def)
  then show ?thesis using b t eff keep(1) round_ticket_in [OF ok(1) k] v
    by (simp add: item_rank_def round_rank_def round_keep_def)
qed

lemma foremost_first:
  assumes ok: "rounds D G {} {} s" "rounds D G {} {} s1" and keep: "round_keep D G s s1" "same_tasks (os_items s) (os_items s1)"
    and fm: "foremost D G s1 g p" and k: "in_rounds D s1 g k p" and out: "outside G s = {}"
    and within: "\<And>q. q \<in> members G s1 \<Longrightarrow> \<exists>t. look (os_items s1) q = Some t \<and> boosted_within (ordered_boost s) lo hi t"
  shows "\<exists>at. (\<forall>j. lo \<le> at j \<and> at j \<le> hi) \<and> round_first D s at k"
proof -
  have ig: "in_rounds D s1 = in_rounds D s" and o1: "outside G s1 = {}" using keep(1) out by (simp_all add: round_keep_def)
  have times: "\<exists>a t. look (os_items s1) q = Some t \<and> lo \<le> a \<and> a \<le> hi \<and>
      effective_priority t = br_effective_priority (boost_at (ordered_boost s) t a)" if "in_rounds D s1 x j q" for x j q
    using within [of q] in_roundsE [OF ok(2) that] by (metis boosted_within_def)
  have "lo \<le> hi" using times [OF k] order_trans by blast
  have "\<exists>a. lo \<le> a \<and> a \<le> hi \<and> (\<forall>x q. in_rounds D s1 x j q \<longrightarrow> item_rank s1 x q = round_rank D s j a)" for j
  proof (cases "\<exists>x q. in_rounds D s1 x j q")
    case True
    then obtain x q where j: "in_rounds D s1 x j q" by blast
    obtain a t where a: "look (os_items s1) q = Some t" "lo \<le> a" "a \<le> hi"
      "effective_priority t = br_effective_priority (boost_at (ordered_boost s) t a)" using times [OF j] by blast
    have "item_rank s1 x q = round_rank D s j a" by (rule item_rank_task [OF ok keep _ a(1,4)]) (use j ig in simp)
    then show ?thesis using a(2,3) in_rounds_unique [OF ok(2) j] by blast
  next
    case False
    then show ?thesis using \<open>lo \<le> hi\<close> by blast
  qed
  then obtain at where at: "\<And>j. lo \<le> at j \<and> at j \<le> hi"
    "\<And>j x q. in_rounds D s1 x j q \<Longrightarrow> item_rank s1 x q = round_rank D s j (at j)" by metis
  have "round_first D s at k"
    unfolding round_first_def
  proof (intro conjI ballI)
    show "k \<in> dom (round_tasks D s)" using round_tasks_dom [OF ok(1)] k ig by metis
    fix j
    assume "j \<in> dom (round_tasks D s)"
    then obtain x q where j: "in_rounds D s1 x j q" using round_tasks_dom [OF ok(1)] ig by metis
    have "item_rank s1 g p \<le> item_rank s1 x q" using fm j o1 unfolding foremost_def by blast
    then show "round_rank D s k (at k) \<le> round_rank D s j (at j)" using at(2) [OF k] at(2) [OF j] by simp
  qed
  then show ?thesis using at(1) by blast
qed

end

subsection \<open>Groups outside the heap\<close>

text \<open>
  A stranded task waits in a group that is not in the heap. A step \<^verbatim>\<open>strands\<close> such tasks when it leaves them so, those of
  \<^verbatim>\<open>X\<close> excepted. A step \<^verbatim>\<open>loses\<close> the task \<^verbatim>\<open>k\<close> when it takes \<^verbatim>\<open>k\<close> out and leaves the group of \<^verbatim>\<open>k\<close> with its other
  tasks outside the heap.
\<close>

definition stranded :: "('h, 'l, 'q) ds \<Rightarrow> ('h, 'l, 'q) ghost \<Rightarrow> ('h, 'l, 'q) ordered_state \<Rightarrow> u64 \<Rightarrow> bool" where
  "stranded D G s j \<longleftrightarrow> (\<exists>x q. in_rounds D s x j q \<and> x \<in> outside G s)"

definition strands ::
  "('h, 'l, 'q) ds \<Rightarrow> ('h, 'l, 'q) ghost \<Rightarrow> u64 set \<Rightarrow> ('h, 'l, 'q) ordered_state \<Rightarrow> ('h, 'l, 'q) ordered_state \<Rightarrow> bool" where
  "strands D G X s s' \<longleftrightarrow> (\<forall>j. j \<notin> X \<longrightarrow> stranded D G s j \<longrightarrow> stranded D G s' j)"

definition loses ::
  "('h, 'l, 'q) ds \<Rightarrow> ('h, 'l, 'q) ghost \<Rightarrow> u64 \<Rightarrow> ('h, 'l, 'q) ordered_state \<Rightarrow> ('h, 'l, 'q) ordered_state \<Rightarrow> bool" where
  "loses D G k s s' \<longleftrightarrow> (\<exists>g p. in_rounds D s g k p \<and> \<not> lone D s g k \<and> outside G s' = insert g (outside G s) \<and>
     in_rounds D s' = (\<lambda>x j q. in_rounds D s x j q \<and> j \<noteq> k))"

lemma strands_grow:
  "(\<And>x j q. in_rounds D s x j q \<Longrightarrow> in_rounds D s' x j q) \<Longrightarrow> outside G s' = outside G s \<Longrightarrow> strands D G X s s'"
  unfolding strands_def stranded_def by blast

lemma strands_keep: "round_keep D G s s' \<Longrightarrow> strands D G X s s'"
  by (rule strands_grow) (simp_all add: round_keep_def)

lemma strands_refl [simp]: "strands D G X s s"
  by (simp add: strands_def)

lemma stranded_keep: "round_keep D G s s' \<Longrightarrow> stranded D G s' = stranded D G s"
  by (simp add: fun_eq_iff stranded_def round_keep_def)

lemma strands_without:
  "in_rounds D s' = (\<lambda>x j q. in_rounds D s x j q \<and> j \<noteq> k) \<Longrightarrow> outside G s \<subseteq> outside G s' \<Longrightarrow> \<not> stranded D G s k \<Longrightarrow> strands D G X s s'"
  by (simp add: strands_def stranded_def) blast

lemma loses_keep: "round_keep D G s s1 \<Longrightarrow> loses D G k s1 s' \<Longrightarrow> loses D G k s s'"
  by (auto simp: loses_def lone_def round_keep_def)

context datastructures
begin

lemma strands_dropped:
  assumes ok: "rounds D G Z E s" and k: "in_rounds D s g k p" and dr: "dropped D G g k p s s'"
  shows "strands D G {k} s s'"
  unfolding strands_def
proof (intro allI impI)
  fix j
  assume j: "j \<notin> {k}" "stranded D G s j"
  then obtain x q where x: "in_rounds D s x j q" "x \<in> outside G s" by (auto simp: stranded_def)
  have "x \<noteq> g" if "lone D s g k" using that x(1) j(1) by (auto simp: lone_def)
  then have "in_rounds D s' x j q" "x \<in> outside G s'" using x j(1) dr by (auto simp: dropped_def without_def)
  then show "stranded D G s' j" by (auto simp: stranded_def)
qed

lemma not_stranded: "rounds D G Z E s \<Longrightarrow> in_rounds D s g k p \<Longrightarrow> g \<in> grouped G (round_heap s) \<Longrightarrow> \<not> stranded D G s k"
  using in_rounds_unique(1) [of Z E s g k p] unfolding stranded_def outside_def by blast

end

subsection \<open>Submission\<close>

context datastructures
begin

lemma round_submit_ok:
  assumes inv: "rounds_inv D G s"
  shows "succeeds (ordered_on_task_submit D (Some s) task e) (\<lambda>(rc, st, e'). \<exists>s'. st = Some s' \<and> rounds_inv D G s' \<and>
    outside G s' = outside G s \<and> (round_fresh G s (env_clock e) \<longrightarrow> round_fresh G s' (env_clock e')) \<and>
    (task_id task \<in> dom (round_tasks D s) \<longrightarrow> rc = QHW_SCHED_ERR_EXISTS) \<and> strands D G {} s s' \<and>
    (if rc = QHW_SCHED_OK
     then \<exists>t. rt_desc t = task \<and> base_priority t = priority task \<and> round_tasks D s' = (round_tasks D s)(task_id task \<mapsto> t)
     else round_tasks D s' = round_tasks D s))"
proof -
  have ok: "rounds D G {} {} s" using inv by (simp add: rounds_inv_def)
  have rr: "os_use_round_robin s" by (rule round_modeD(1) [OF roundsD(1) [OF ok]])
  obtain now c where now: "ordered_reading s (env_clock e) = (now, c)" by force
  obtain rc s' e' where call: "ordered_submit_round_robin D s task e = Some (rc, s', e')"
    and sub: "submitted D G task now s rc s'" and clk: "env_clock e' \<in> {env_clock e, c}" "rc = QHW_SCHED_OK \<longrightarrow> env_clock e' = c"
    and ex: "(\<exists>x q. in_rounds D s x (task_id task) q) \<longrightarrow> rc = QHW_SCHED_ERR_EXISTS"
    using submit_round_robin_ok [OF ok now, of task] by (elim succeeds3E) blast
  have ok': "rounds D G {} {} s'" and out: "outside G s' = outside G s" using sub by (simp_all add: submitted_def)
  have fl: "ordered_floor s (env_clock e) \<le> ordered_floor s (env_clock e')" using clk(1) round_floor [OF now] by auto
  have ex': "task_id task \<in> dom (round_tasks D s) \<longrightarrow> rc = QHW_SCHED_ERR_EXISTS" using ex round_tasks_dom [OF ok] by blast
  have run: "ordered_on_task_submit D (Some s) task e = Some (rc, Some s', e')" using rr call by (simp add: ordered_on_task_submit_def)
  show ?thesis
  proof (cases "rc = QHW_SCHED_OK")
    case True
    then obtain g p rq t where t: "t = core (new_ready_task (rq :: ('h, 'l, 'q) qhw_ready_queue) (heap_invalid_index D) task)"
      and none: "\<And>x q. \<not> in_rounds D s x (task_id task) q"
      and en: "joined D G g (task_id task) p (boosted_item (ordered_boost s) now t) s s'"
      and pe: "pending G (os_refresh s') = (if br_next_refresh_ns (boost_at (ordered_boost s) t now) \<noteq> QHW_DEADLINE_BOOST_NEVER
        then insert p (pending G (os_refresh s)) else pending G (os_refresh s))"
      using sub unfolding submitted_def by (simp only: if_P) blast
    have tk: "round_tasks D s' = (round_tasks D s)(task_id task \<mapsto> bare t)"
      using joined_tasks [OF ok ok' none en] by simp
    have "rt_desc (bare t) = task" "base_priority (bare t) = priority task" by (simp_all add: t bare_def new_ready_task_def)
    moreover have "round_fresh G s' (env_clock e')" if "round_fresh G s (env_clock e)"
      using joined_fresh [OF that now en pe] clk(2) True by simp
    moreover have "strands D G {} s s'" by (rule strands_grow [OF _ out]) (use en in \<open>simp add: joined_def\<close>)
    ultimately show ?thesis using run True ok' out ex' tk by (simp add: rounds_inv_def) blast
  next
    case False
    then have same: "same_rounds D G s s'" using sub by (simp add: submitted_def)
    have "strands D G {} s s'" by (rule strands_grow [OF _ out]) (use same in \<open>simp add: same_rounds_def\<close>)
    then show ?thesis using run False ok' out ex' same_rounds_tasks [OF ok ok' same] same_rounds_fresh [OF _ same fl]
      by (simp add: rounds_inv_def)
  qed
qed

subsection \<open>A finish report\<close>

lemma round_finished_ok:
  assumes inv: "rounds_inv D G s"
  shows "succeeds (ordered_on_task_finished D (Some s) tid ts e) (\<lambda>(rc, st, e'). \<exists>s'. st = Some s' \<and> rounds_inv D G s' \<and>
    rc = QHW_SCHED_OK \<and> e' = e \<and> outside G s' \<subseteq> outside G s \<and> round_tasks D s' = (round_tasks D s)(tid := None) \<and>
    (\<forall>k. round_fresh G s k \<longrightarrow> round_fresh G s' k) \<and> strands D G {tid} s s')"
proof -
  have ok: "rounds D G {} {} s" using inv by (simp add: rounds_inv_def)
  note mode = round_modeD [OF roundsD(1) [OF ok]]
  show ?thesis
  proof (cases "\<exists>g p. in_rounds D s g tid p")
    case False
    then have find: "ordered_find_ready_task D s tid = Some None" using find_ready_task_ok(1) [OF ok, of tid] by simp
    have "hash_table_find D (round_table s) tid = None" using task_group_none [OF ok] False by blast
    then have "ordered_on_task_finished D (Some s) tid ts e = Some (QHW_SCHED_OK, Some s, e)"
      using mode find by (simp add: ordered_on_task_finished_def qhw_deadline_refresh_remove_def ordered_remove_group_task_def)
    moreover have "round_tasks D s tid = None" using round_tasks_out [OF ok] False by blast
    then have "(round_tasks D s)(tid := None) = round_tasks D s" by auto
    ultimately show ?thesis using inv by simp
  next
    case True
    then obtain g p where k: "in_rounds D s g tid p" by blast
    have find: "ordered_find_ready_task D s tid = Some (Some p)" by (rule find_ready_task_ok(2) [OF ok k])
    have fin: "succeeds (do {
        (rf, A) \<leftarrow> qhw_deadline_refresh_remove D (os_refresh s) (os_items s) (Some p);
        ordered_remove_group_task D (s\<lparr>os_refresh := rf, os_items := A\<rparr>) tid
      }) (\<lambda>(rc, s'). rc = QHW_SCHED_OK \<and> rounds_inv D G s' \<and> outside G s' \<subseteq> outside G s \<and>
        round_tasks D s' = (round_tasks D s)(tid := None) \<and> (\<forall>k. round_fresh G s k \<longrightarrow> round_fresh G s' k) \<and> strands D G {tid} s s')"
    proof (rule succeeds_mono [OF remove_task_ok [OF ok k]], clarify, goal_cases)
      case (1 rc s')
      have wo: "without D G tid p s s'" "outside G s' \<subseteq> outside G s" using 1(2) by (auto simp: dropped_def split: if_splits)
      show ?case using 1(1) wo(2) strands_dropped [OF ok k 1(2)] without_tasks [OF ok 1(1) k wo(1)] without_fresh [OF _ wo(1)] by (simp add: rounds_inv_def)
    qed
    have run: "ordered_on_task_finished D (Some s) tid ts e = (do {
        (rc, s) \<leftarrow> (do {
          (rf, A) \<leftarrow> qhw_deadline_refresh_remove D (os_refresh s) (os_items s) (Some p);
          ordered_remove_group_task D (s\<lparr>os_refresh := rf, os_items := A\<rparr>) tid
        });
        Some (if rc = QHW_SCHED_ERR_NOT_FOUND then QHW_SCHED_OK else rc, Some s, e)
      })" using mode(1) find by (simp add: ordered_on_task_finished_def)
    show ?thesis unfolding run using fin by (simp only: succeeds_bind [of _ "\<lambda>(rc, s). Some (if rc = QHW_SCHED_ERR_NOT_FOUND then QHW_SCHED_OK else rc, Some s, e)"])
      (erule succeeds_mono, auto)
  qed
qed

subsection \<open>A priority change\<close>

lemma bare_base: "bare (t\<lparr>base_priority := b\<rparr>) = (bare t)\<lparr>base_priority := b\<rparr>"
  by (simp add: bare_def)

lemma write_base_ok:
  assumes ok: "rounds D G {} {} s" and k: "in_rounds D s g k p" and u: "cells (os_items s) p = Some u"
  obtains A where "item_write p (\<lambda>t. t\<lparr>base_priority := b\<rparr>) (os_items s) = Some A" "rounds_inv D G (s\<lparr>os_items := A\<rparr>)"
    "round_keep D G s (s\<lparr>os_items := A\<rparr>)" "look A = (look (os_items s))(p \<mapsto> (core u)\<lparr>base_priority := b\<rparr>)"
proof -
  let ?A = "(os_items s)\<lparr>cells := (cells (os_items s))(p \<mapsto> u\<lparr>base_priority := b\<rparr>)\<rparr>"
  have p: "p \<in> elems_of G (queues (os_group_store s))" by (rule in_roundsE [OF ok k]) (simp add: members_def)
  have sh: "shared D G (qhw_order_compare (os_order s)) (queues (os_group_store s)) (os_refresh s) ?A"
    by (rule shared_twin [OF roundsD(4) [OF ok] u _ _ _ p]) (simp_all add: refresh_twin_def)
  have lk: "look ?A = (look (os_items s))(p \<mapsto> (core u)\<lparr>base_priority := b\<rparr>)" by (auto simp: look_def fun_eq_iff)
  have same: "same_keys (os_items s) ?A x" for x
    using u by (cases "x = p") (simp_all add: same_keys_def lk, simp add: look_def)
  have eq: "s\<lparr>os_refresh := os_refresh s, os_items := ?A\<rparr> = s\<lparr>os_items := ?A\<rparr>" by simp
  note it = rounds_items [OF ok sh same, unfolded eq]
  show ?thesis by (rule that [OF _ _ it(2) lk]) (use u it(1) in \<open>simp_all add: item_write_def rounds_inv_def\<close>)
qed

lemma rewritten_tasks:
  assumes ok: "rounds D G {} {} s" "rounds D G {} {} s'" and ig: "in_rounds D s' = in_rounds D s" and k: "in_rounds D s g k p"
    and lk: "look (os_items s') = (look (os_items s))(p \<mapsto> t)"
  shows "round_tasks D s' = (round_tasks D s)(k \<mapsto> bare t)"
proof (rule ext)
  fix j
  show "round_tasks D s' j = ((round_tasks D s)(k \<mapsto> bare t)) j"
  proof (cases "\<exists>x q. in_rounds D s x j q")
    case True
    then obtain x q where j: "in_rounds D s x j q" by blast
    then have j': "in_rounds D s' x j q" using ig by simp
    have "j = k \<longleftrightarrow> q = p" using in_rounds_unique(2) [OF ok(1) k] item_key [OF ok(1) k] j by blast
    then show ?thesis using round_tasks_in(1) [OF ok(1) j] round_tasks_in(1) [OF ok(2) j'] lk by simp
  next
    case False
    then have "j \<noteq> k" "round_tasks D s' j = None" "round_tasks D s j = None"
      using k round_tasks_out [OF ok(1), of j] round_tasks_out [OF ok(2), of j] ig by auto
    then show ?thesis by simp
  qed
qed

text \<open>One recomputation, for a task of a group.\<close>

lemma refresh_found_ok:
  assumes inv: "rounds_inv D G s" and k: "in_rounds D s g k p" and t: "look (os_items s) p = Some t"
  shows "succeeds (ordered_refresh_task D s p e) (\<lambda>(rc, s', e'). round_keep D G s s' \<and> rounds_inv D G s' \<and>
    rc \<in> {QHW_SCHED_OK, QHW_SCHED_ERR_NO_MEMORY} \<and> (\<exists>now. look (os_items s') = (look (os_items s))(p \<mapsto> boosted_item (ordered_boost s) now t)) \<and>
    (rc = QHW_SCHED_OK \<longrightarrow> rounds.fresh_but p s (env_clock e) \<longrightarrow> round_fresh G s' (env_clock e')))"
proof -
  have ok: "rounds D G {} {} s" using inv by (simp add: rounds_inv_def)
  have p: "p \<in> members G s" by (rule in_roundsE [OF ok k])
  obtain now c where now: "ordered_reading s (env_clock e) = (now, c)" by force
  show ?thesis by (rule succeeds_mono [OF rounds.recompute_ok [OF inv p t now]]) auto
qed

lemma round_changed_ok:
  assumes inv: "rounds_inv D G s"
  shows "succeeds (ordered_on_task_priority_changed D (Some s) tid v e) (\<lambda>(rc, st, e'). \<exists>s'. st = Some s' \<and> rounds_inv D G s' \<and>
    outside G s' = outside G s \<and> strands D G {} s s' \<and> (rc = QHW_SCHED_ERR_NOT_FOUND \<longleftrightarrow> round_tasks D s tid = None) \<and>
    (rc \<noteq> QHW_SCHED_ERR_STATE \<longrightarrow> round_fresh G s (env_clock e) \<longrightarrow> round_fresh G s' (env_clock e')) \<and>
    round_tasks D s' = (if rc = QHW_SCHED_OK then (round_tasks D s)(tid \<mapsto> (the (round_tasks D s tid))\<lparr>base_priority := v\<rparr>)
      else round_tasks D s))"
proof -
  have ok: "rounds D G {} {} s" using inv by (simp add: rounds_inv_def)
  show ?thesis
  proof (cases "\<exists>g p. in_rounds D s g tid p")
    case False
    then have "ordered_find_ready_task D s tid = Some None" using find_ready_task_ok(1) [OF ok, of tid] by simp
    moreover have "round_tasks D s tid = None" using round_tasks_out [OF ok] False by blast
    ultimately show ?thesis using inv by (simp add: ordered_on_task_priority_changed_def)
  next
    case True
    then obtain g p where k: "in_rounds D s g tid p" by blast
    have find: "ordered_find_ready_task D s tid = Some (Some p)" by (rule find_ready_task_ok(2) [OF ok k])
    obtain u where u: "cells (os_items s) p = Some u" by (rule in_roundsE [OF ok k])
    have lu: "look (os_items s) p = Some (core u)" using u by (simp add: look_def)
    have tk: "round_tasks D s tid = Some (bare (core u))" using round_tasks_in(1) [OF ok k] lu by simp
    obtain A where A: "item_write p (\<lambda>t. t\<lparr>base_priority := v\<rparr>) (os_items s) = Some A" "rounds_inv D G (s\<lparr>os_items := A\<rparr>)"
      "round_keep D G s (s\<lparr>os_items := A\<rparr>)" "look A = (look (os_items s))(p \<mapsto> (core u)\<lparr>base_priority := v\<rparr>)"
      by (rule write_base_ok [OF ok k u])
    let ?s1 = "s\<lparr>os_items := A\<rparr>"
    have k1: "in_rounds D ?s1 g tid p" and o1: "outside G ?s1 = outside G s" using k A(3) by (simp_all add: round_keep_def)
    have lk1: "look (os_items ?s1) p = Some ((core u)\<lparr>base_priority := v\<rparr>)" using A(4) by simp
    obtain rc s2 e2 now where r2: "ordered_refresh_task D ?s1 p e = Some (rc, s2, e2)" and keep2: "round_keep D G ?s1 s2"
      and inv2: "rounds_inv D G s2" and rc: "rc \<in> {QHW_SCHED_OK, QHW_SCHED_ERR_NO_MEMORY}"
      and lk2: "look (os_items s2) = (look (os_items ?s1))(p \<mapsto> boosted_item (ordered_boost ?s1) now ((core u)\<lparr>base_priority := v\<rparr>))"
      and fr2: "rc = QHW_SCHED_OK \<longrightarrow> rounds.fresh_but p ?s1 (env_clock e) \<longrightarrow> round_fresh G s2 (env_clock e2)"
      using refresh_found_ok [OF A(2) k1 lk1, of e] by (elim succeeds3E) blast
    have ok2: "rounds D G {} {} s2" using inv2 by (simp add: rounds_inv_def)
    have keep: "round_keep D G s s2" by (rule round_keep_trans [OF A(3) keep2])
    have k2: "in_rounds D s2 g tid p" using k keep by (simp add: round_keep_def)
    have look2: "look (os_items s2) = (look (os_items s))(p \<mapsto> boosted_item (ordered_boost ?s1) now ((core u)\<lparr>base_priority := v\<rparr>))"
      using lk2 A(4) by simp
    have o2: "outside G s2 = outside G s" using keep by (simp add: round_keep_def)
    show ?thesis
    proof (cases "rc = QHW_SCHED_OK")
      case True
      have "rounds.fresh_but p ?s1 (env_clock e)" if "round_fresh G s (env_clock e)"
        by (rule rounds.fresh_but_other [OF rounds.fresh_fresh_but [OF that [folded round_fresh_eq]]])
          (use A(3,4) in \<open>auto simp: round_keep_def ordered_boost_def ordered_floor_def rounds.waiting_def\<close>)
      then have fr: "round_fresh G s2 (env_clock e2)" if "round_fresh G s (env_clock e)" using that fr2 True by blast
      have "round_tasks D s2 = (round_tasks D s)(tid \<mapsto> (bare (core u))\<lparr>base_priority := v\<rparr>)"
        using rewritten_tasks [OF ok ok2 _ k look2] keep by (simp add: round_keep_def bare_base)
      then show ?thesis using True find u A(1) r2 tk inv2 o2 fr strands_keep [OF keep] by (simp add: ordered_on_task_priority_changed_def)
    next
      case False
      obtain u2 where u2: "cells (os_items s2) p = Some u2" by (rule in_roundsE [OF ok2 k2])
      obtain A3 where A3: "item_write p (\<lambda>t. t\<lparr>base_priority := base_priority u\<rparr>) (os_items s2) = Some A3" "rounds_inv D G (s2\<lparr>os_items := A3\<rparr>)"
        "round_keep D G s2 (s2\<lparr>os_items := A3\<rparr>)" "look A3 = (look (os_items s2))(p \<mapsto> (core u2)\<lparr>base_priority := base_priority u\<rparr>)"
        by (rule write_base_ok [OF ok2 k2 u2])
      let ?s3 = "s2\<lparr>os_items := A3\<rparr>"
      have k3: "in_rounds D ?s3 g tid p" using k2 A3(3) by (simp add: round_keep_def)
      have lk3: "look (os_items ?s3) p = Some ((core u2)\<lparr>base_priority := base_priority u\<rparr>)" using A3(4) by simp
      obtain rc4 s4 e4 now4 where r4: "ordered_refresh_task D ?s3 p e2 = Some (rc4, s4, e4)" and keep4: "round_keep D G ?s3 s4"
        and inv4: "rounds_inv D G s4"
        and lk4: "look (os_items s4) = (look (os_items ?s3))(p \<mapsto> boosted_item (ordered_boost ?s3) now4 ((core u2)\<lparr>base_priority := base_priority u\<rparr>))"
        using refresh_found_ok [OF A3(2) k3 lk3, of e2] by (elim succeeds3E) blast
      have ok4: "rounds D G {} {} s4" using inv4 by (simp add: rounds_inv_def)
      have keep': "round_keep D G s s4" by (rule round_keep_trans [OF keep round_keep_trans [OF A3(3) keep4]])
      have look4: "look (os_items s4) = (look (os_items s))(p \<mapsto> boosted_item (ordered_boost ?s3) now4 ((core u2)\<lparr>base_priority := base_priority u\<rparr>))"
        using lk4 A3(4) look2 by simp
      have "core u2 = boosted_item (ordered_boost ?s1) now ((core u)\<lparr>base_priority := v\<rparr>)"
        using look2 u2 by (metis fun_upd_same look_def option.inject option.map(2))
      then have "bare (boosted_item (ordered_boost ?s3) now4 ((core u2)\<lparr>base_priority := base_priority u\<rparr>)) =
          (bare ((core u)\<lparr>base_priority := v\<rparr>))\<lparr>base_priority := base_priority u\<rparr>"
        by (simp only: bare_simps bare_base)
      also have "\<dots> = bare (core u)" by (simp add: bare_def core_def)
      finally have "round_tasks D s4 = (round_tasks D s)(tid \<mapsto> bare (core u))"
        using rewritten_tasks [OF ok ok4 _ k look4] keep' by (simp add: round_keep_def)
      then have "round_tasks D s4 = round_tasks D s" using tk by (simp add: fun_upd_idem)
      then show ?thesis using False find u A(1) r2 tk A3(1) r4 inv4 keep' strands_keep [OF keep']
        by (simp add: ordered_on_task_priority_changed_def round_keep_def)
    qed
  qed
qed

end

subsection \<open>Selection\<close>

text \<open>
  The group of the task \<^verbatim>\<open>k\<close> takes its turn: with the round-robin key first in the order, no other group has an
  earlier ticket.
\<close>

definition turns_first :: "qhw_order_config \<Rightarrow> bool" where
  "turns_first order \<longleftrightarrow> (\<exists>ks. order_keys order = QHW_SCHED_ORDER_ROUND_ROBIN # ks)"

definition first_turn ::
  "('h, 'l, 'q) ds \<Rightarrow> ('h, 'l, 'q) ghost \<Rightarrow> ('h, 'l, 'q) ordered_state \<Rightarrow> u64 \<Rightarrow> ('h, 'l, 'q) ordered_state \<Rightarrow> bool" where
  "first_turn D G s k s' \<longleftrightarrow> os_order s' = os_order s \<and> in_rounds D s' = (\<lambda>x j q. in_rounds D s x j q \<and> j \<noteq> k) \<and>
     (\<exists>g p. in_rounds D s g k p \<and> turned g s s' \<and>
     (outside G s = {} \<longrightarrow> turns_first (os_order s) \<longrightarrow>
       (\<forall>x j q. in_rounds D s x j q \<longrightarrow> the (ticket_of s g) \<le> the (ticket_of s x))))"

context datastructures
begin

lemma item_rank_ticket:
  assumes ok: "rounds D G Z E s" and k: "in_rounds D s g k p" "order_keys (os_order s) = QHW_SCHED_ORDER_ROUND_ROBIN # ks"
  shows "item_rank s g p = uint (the (ticket_of s g)) #
    order_vector ks (the (look (os_items s) p)) (snd (the (grouping s g)))"
proof -
  obtain gr where "cells (os_group_store s) g = Some gr" by (rule in_roundsE [OF ok k(1)])
  then show ?thesis using k(2)
    by (simp add: item_rank_def order_vector_def key_rank_def ticket_of_def grouping_def)
qed

lemma foremost_turn:
  assumes ok: "rounds D G {} {} s1" and keep: "round_keep D G s s1" and k: "in_rounds D s1 g k p"
    and fm: "foremost D G s1 g p" and wo: "without D G k p s1 s'" and tn: "turned g s1 s'"
  shows "first_turn D G s k s'"
proof -
  have eq: "in_rounds D s1 = in_rounds D s" "outside G s1 = outside G s" "os_order s1 = os_order s" "ticket_of s1 = ticket_of s"
    "os_next_group_ticket s1 = os_next_group_ticket s"
    using keep ticket_of_grouping [of s1 s] by (simp_all add: round_keep_def)
  have "the (ticket_of s g) \<le> the (ticket_of s x)"
    if x: "outside G s = {}" "turns_first (os_order s)" "in_rounds D s x j q"
    for x j q
  proof -
    obtain ks where ks: "order_keys (os_order s1) = QHW_SCHED_ORDER_ROUND_ROBIN # ks"
      using x(2) eq(3) by (auto simp: turns_first_def)
    have x1: "in_rounds D s1 x j q" using x(3) eq(1) by simp
    have "item_rank s1 g p \<le> item_rank s1 x q" using fm x1 x(1) eq(2) unfolding foremost_def by blast
    then show ?thesis using item_rank_ticket [OF ok k ks] item_rank_ticket [OF ok x1 ks] eq(4)
      by (auto simp: word_le_def)
  qed
  moreover have "in_rounds D s g k p" "turned g s s'" using k tn eq by (simp_all add: turned_def)
  moreover have "os_order s' = os_order s" "in_rounds D s' = (\<lambda>x j q. in_rounds D s x j q \<and> j \<noteq> k)"
    using wo eq by (simp_all add: without_def)
  ultimately show ?thesis unfolding first_turn_def by blast
qed

lemma round_select_ok:
  assumes inv: "rounds_inv D G s" and now: "ordered_reading s (env_clock e) = (now, c)"
  shows "succeeds (ordered_select_next D (Some s) out e) (\<lambda>(rc, out', st, e'). \<exists>s'. st = Some s' \<and> rounds_inv D G s' \<and>
    (rc \<noteq> QHW_SCHED_OK \<longrightarrow> out' = out) \<and> strands D G {} s s' \<and>
    (rc \<noteq> QHW_SCHED_ERR_NO_MEMORY \<longrightarrow> outside G s' = outside G s \<and>
      (round_fresh G s (env_clock e) \<longrightarrow> round_fresh G s' (env_clock e'))) \<and>
    (rc = QHW_SCHED_OK \<and> as_task_id out' \<in> dom (round_tasks D s) \<and> first_turn D G s (as_task_id out') s' \<and> \<not> stranded D G s (as_task_id out') \<and>
       round_tasks D s' = (round_tasks D s)(as_task_id out' := None) \<and>
       (round_fresh G s (env_clock e) \<longrightarrow> outside G s = {} \<longrightarrow> boost_config_ok (ordered_boost s) \<longrightarrow> now < QHW_DEADLINE_BOOST_NEVER \<longrightarrow>
        (\<exists>at. (\<forall>j. now \<le> at j \<and> at j \<le> ordered_floor s (env_clock e')) \<and> round_first D s at (as_task_id out'))) \<or>
     rc = QHW_SCHED_ERR_NOT_FOUND \<and> round_tasks D s' = round_tasks D s \<and> (outside G s = {} \<longrightarrow> round_tasks D s = Map.empty) \<or>
     rc = QHW_SCHED_ERR_NO_MEMORY \<and> (round_tasks D s' = round_tasks D s \<and> outside G s' = outside G s \<or>
       (\<exists>k \<in> dom (round_tasks D s). round_tasks D s' = (round_tasks D s)(k := None) \<and> loses D G k s s'))))"
proof -
  have ok: "rounds D G {} {} s" using inv by (simp add: rounds_inv_def)
  have rr: "os_use_round_robin s" by (rule round_modeD(1) [OF roundsD(1) [OF ok]])
  note fl = round_floor [OF now]
  have read: "qhw_order_now_ns (os_order s) (env_clock e) = (now, c)" using now by (simp add: ordered_reading_def)
  have le: "now \<le> ordered_floor s (env_clock (e\<lparr>env_clock := c\<rparr>))" using fl by simp
  obtain rc s1 e1 where loop: "ordered_refresh_loop D now s (e\<lparr>env_clock := c\<rparr>) = Some (rc, s1, e1)"
    and ref: "rounds.refreshes s (e\<lparr>env_clock := c\<rparr>) s1 e1" and rc: "rc \<in> {QHW_SCHED_OK, QHW_SCHED_ERR_NO_MEMORY}"
    and due: "rc = QHW_SCHED_OK \<longrightarrow> rounds.due now s1 = {} \<and> (rounds.fresh s c \<longrightarrow> rounds.fresh s1 (env_clock e1))"
    using rounds.refresh_loop_ok [OF inv le] by (elim succeeds3E) auto
  have keep: "round_keep D G s s1" and inv1: "rounds_inv D G s1" and same: "same_tasks (os_items s) (os_items s1)"
    and fl1: "now \<le> ordered_floor s (env_clock e1)"
    using ref fl by (simp_all add: rounds.refreshes_def)
  have ok1: "rounds D G {} {} s1" using inv1 by (simp add: rounds_inv_def)
  have tk1: "round_tasks D s1 = round_tasks D s"
    by (rule round_tasks_same [OF ok ok1 _ same]) (use keep in \<open>simp add: round_keep_def\<close>)
  have o1: "outside G s1 = outside G s" using keep by (simp add: round_keep_def)
  have rr1: "os_use_round_robin s1" by (rule round_modeD(1) [OF roundsD(1) [OF ok1]])
  show ?thesis
  proof (cases "rc = QHW_SCHED_OK")
    case False
    then have "ordered_select_next D (Some s) out e = Some (rc, out, Some s1, e1)" "rc = QHW_SCHED_ERR_NO_MEMORY"
      using loop read rc by (simp_all add: ordered_select_next_def ordered_refresh_expired_def)
    then show ?thesis using inv1 tk1 o1 strands_keep [OF keep] by simp
  next
    case True
    have fresh1: "round_fresh G s1 (env_clock e1)" if "round_fresh G s (env_clock e)"
    proof -
      have "same_rounds D G s s" by simp
      then have "round_fresh G s c" using same_rounds_fresh [OF that] fl by simp
      then show ?thesis using due True by simp
    qed
    obtain rc2 tid s' e' where sel: "ordered_select_round_robin D s1 e1 = Some (rc2, tid, s', e')" and ok': "rounds D G {} {} s'"
      and clk: "env_clock e' = env_clock e1"
      and res: "if rc2 = QHW_SCHED_ERR_NOT_FOUND
       then tid = None \<and> grouped G (round_heap s1) = {} \<and> same_rounds D G s1 s' \<and> outside G s' = outside G s1
       else taken s1 rc2 tid s'"
      using select_round_robin_ok [OF ok1, of e1] by (elim succeeds4E) blast
    have inv': "rounds_inv D G s'" using ok' by (simp add: rounds_inv_def)
    show ?thesis
    proof (cases "rc2 = QHW_SCHED_ERR_NOT_FOUND")
      case nf: True
      have run: "ordered_select_next D (Some s) out e = Some (rc2, out, Some s', e')"
        using loop read True sel nf rr1 by (simp add: ordered_select_next_def ordered_refresh_expired_def)
      have sr: "same_rounds D G s1 s'" and gr: "grouped G (round_heap s1) = {}" and o': "outside G s' = outside G s"
        using res nf o1 by simp_all
      have "round_tasks D s' = round_tasks D s" using same_rounds_tasks [OF ok1 ok' sr] tk1 by simp
      moreover have "round_tasks D s = Map.empty" if "outside G s = {}"
      proof -
        have "dom (cells (os_group_store s1)) = {}" using that o1 gr by (simp add: outside_def)
        then have "\<not> in_rounds D s1 x k q" for x k q by (auto simp: in_rounds_def in_group_def)
        then have "round_tasks D s1 k = None" for k by (intro round_tasks_out [OF ok1]) blast
        then show ?thesis using tk1 by auto
      qed
      moreover have "round_fresh G s' (env_clock e')" if "round_fresh G s (env_clock e)"
        using same_rounds_fresh [OF fresh1 [OF that] sr] clk by simp
      moreover have "strands D G {} s s'" by (rule strands_grow [OF _ o']) (use sr keep in \<open>simp add: same_rounds_def round_keep_def\<close>)
      ultimately show ?thesis using run nf inv' o' by simp
    next
      case False
      then obtain g k p where t: "in_rounds D s1 g k p" "foremost D G s1 g p" "without D G k p s1 s'"
        and gr: "g \<in> grouped G (round_heap s1)"
        and tn: "turned g s1 s'" and t4:
        "rc2 = QHW_SCHED_OK \<and> tid = Some k \<and> outside G s' = outside G s1 \<or>
         rc2 = QHW_SCHED_ERR_NO_MEMORY \<and> tid = None \<and> \<not> lone D s1 g k \<and> outside G s' = insert g (outside G s1)"
        using res unfolding taken_def by auto
      have tk': "round_tasks D s' = (round_tasks D s)(k := None)" using without_tasks [OF ok1 ok' t(1,3)] tk1 by simp
      have kd: "k \<in> dom (round_tasks D s)" using round_tasks_in(2) [OF ok1 t(1)] tk1 by simp
      have ns: "\<not> stranded D G s k" using not_stranded [OF ok1 t(1) gr] stranded_keep [OF keep] by simp
      have wi: "in_rounds D s' = (\<lambda>x j q. in_rounds D s x j q \<and> j \<noteq> k)" using t(3) keep by (simp add: without_def round_keep_def)
      have st: "strands D G {} s s'" by (rule strands_without [OF wi _ ns]) (use t4 o1 in auto)
      have fr': "round_fresh G s' (env_clock e')" if "round_fresh G s (env_clock e)"
        using without_fresh [OF fresh1 [OF that] t(3)] clk by simp
      show ?thesis
      proof (cases "rc2 = QHW_SCHED_OK")
        case ok2: True
        have run: "ordered_select_next D (Some s) out e = Some (QHW_SCHED_OK, zero_assignment\<lparr>as_task_id := k\<rparr>, Some s', e')"
          using loop read True sel ok2 t4 rr1 by (simp add: ordered_select_next_def ordered_refresh_expired_def)
        have first: "\<exists>at. (\<forall>j. now \<le> at j \<and> at j \<le> ordered_floor s (env_clock e')) \<and> round_first D s at k"
          if "round_fresh G s (env_clock e)" "outside G s = {}" "boost_config_ok (ordered_boost s)" "now < QHW_DEADLINE_BOOST_NEVER"
        proof (rule foremost_first [OF ok ok1 keep same t(2,1) that(2)])
          fix q
          assume q: "q \<in> members G s1"
          have rest: "ordered_boost s1 = ordered_boost s" "ordered_floor s1 = ordered_floor s" using round_keep_rest [OF keep] by simp_all
          show "\<exists>t. look (os_items s1) q = Some t \<and> boosted_within (ordered_boost s) now (ordered_floor s (env_clock e')) t"
            using rounds.refreshed_within [of s1 "env_clock e1" now q] fresh1 [OF that(1)] due True that(3,4) q rest fl1 clk by simp
        qed
        show ?thesis using run inv' t4 ok2 o1 fr' kd tk' first st ns foremost_turn [OF ok1 keep t tn] by simp
      next
        case nm: False
        then have "ordered_select_next D (Some s) out e = Some (QHW_SCHED_ERR_NO_MEMORY, out, Some s', e')"
          using loop read True sel t4 rr1 by (simp add: ordered_select_next_def ordered_refresh_expired_def)
        moreover have "loses D G k s s'"
          using t(1) t4 nm keep o1 wi lone_cong [of D s1 s g k] unfolding loses_def by (auto simp: round_keep_def)
        ultimately show ?thesis using inv' kd tk' st by auto
      qed
    qed
  qed
qed

end

end
