(* ===== verification/Rounds_Setup.thy ===== *)
theory Rounds_Setup
  imports Rounds_Callbacks
begin

section \<open>The beginning and the end of the ordered policy\<close>

text \<open>Initialisation and finalisation, and the invariant of the policy in both of its modes.\<close>

subsection \<open>Initialisation\<close>

context datastructures
begin

lemma empty_rounds:
  assumes mode: "round_mode s" and gm: "group_map_ok G (round_map s)" "qhw_group_map_find D (round_map s) = Map.empty"
    and h: "ht_inv G (round_table s)" "hash_table_find D (round_table s) = Map.empty"
    and q: "hp_items G (round_heap s) = []" "\<And>cmp. hp_ok G cmp (round_heap s)"
    and rf: "refresh_ok D G (os_refresh s) arena_empty {}"
    and st: "os_items s = arena_empty" "os_group_store s = arena_empty" "os_index_store s = arena_empty"
  shows "rounds_inv D G s" "outside G s = {}" "round_tasks D s = Map.empty" "round_fresh G s c"
proof -
  have qs: "queues (os_group_store s) = Map.empty" by (simp add: queues_def st fun_eq_iff)
  then have el: "elems_of G (queues (os_group_store s)) = {}" by (simp add: elems_of_def)
  have ig: "\<not> in_rounds D s g k p" for g k p by (simp add: in_rounds_def in_group_def st)
  have "group_heap_ok D G (os_order s) {} (os_items s) (os_group_store s) (round_heap s)"
    unfolding group_heap_ok_def grouped_def using q by (simp add: st indices_ok_def)
  moreover have "shared D G (qhw_order_compare (os_order s)) (queues (os_group_store s)) (os_refresh s) (os_items s)"
    unfolding shared_def el using rf by (simp add: qs) (simp add: st)
  moreover have "index_ok D G (round_table s) (os_index_store s) (in_rounds D s)" using h ig by (simp add: index_ok_def st)
  moreover have "keys_ok D G (round_map s) (os_group_store s)" using gm by (simp add: keys_ok_def st)
  ultimately have ok: "rounds D G {} {} s" using mode by (intro roundsI) (simp_all add: st)
  then show "rounds_inv D G s" by (simp add: rounds_inv_def)
  show "outside G s = {}" by (simp add: outside_def st)
  show "round_tasks D s = Map.empty" using round_tasks_out [OF ok] ig by (intro ext) blast
  show "round_fresh G s c" by (simp add: round_fresh_def members_def el)
qed

text \<open>With the round-robin key a successful initialisation gives an empty policy.\<close>

lemma init_groups_ok:
  assumes tol: "tolerates_unready D"
  shows "succeeds (ordered_init_groups D s e) (\<lambda>(rc, st, e').
     if rc = QHW_SCHED_OK
     then \<exists>gm h q. st = Some (s\<lparr>os_groups := Some gm, os_group_tasks := Some h, os_group_heap := Some q\<rparr>) \<and>
       group_map_ok G gm \<and> qhw_group_map_find D gm = Map.empty \<and> ht_inv G h \<and> hash_table_find D h = Map.empty \<and>
       hp_items G q = [] \<and> (\<forall>cmp. hp_ok G cmp q)
     else rc = QHW_SCHED_ERR_NO_MEMORY \<and> st = None)"
proof -
  obtain rc gs m where i1: "qhw_group_map_init D (env_mem e) = Some (rc, gs, m)"
    and ok1: "if rc = QHW_SCHED_OK
      then \<exists>gm. group_slots_map gs = Some gm \<and> group_map_ok G gm \<and> qhw_group_map_find D gm = Map.empty
      else rc = QHW_SCHED_ERR_NO_MEMORY"
    using group_map_init_ok [of "env_mem e"] by (elim succeeds3E) blast
  obtain ok x m2 where i2: "slot_init D ORDERED_GROUP_TASK_BUCKETS m = (ok, x, m2)" by (metis prod_cases3)
  obtain q m3 where i3: "heap_init D m2 = (q, m3)" by force
  obtain z where z: "group_slots_fini D gs = Some z" using group_slots_fini_tolerant [OF tol, of gs] by auto
  note fini = slot_fini_tolerant [OF tol] z
  show ?thesis
  proof (cases "rc = QHW_SCHED_OK \<and> ok \<and> q \<noteq> None")
    case False
    then show ?thesis by (auto simp: ordered_init_groups_def i1 i2 i3 fini)
  next
    case True
    then obtain gm hp where gm: "group_slots_map gs = Some gm" "group_map_ok G gm" "qhw_group_map_find D gm = Map.empty"
      and hp: "q = Some hp" using ok1 by auto
    obtain h where h: "x = Slot_ready h" "ht_inv G h" "hash_table_find D h = Map.empty" using slot_init_ok [OF i2] True by auto
    have "hp_items G hp = []" "hp_ok G cmp hp" for cmp using hp_init [of m2 hp m3] i3 hp by simp_all
    then have "group_map_ok G gm \<and> qhw_group_map_find D gm = Map.empty \<and> ht_inv G h \<and> hash_table_find D h = Map.empty \<and>
      hp_items G hp = [] \<and> (\<forall>cmp. hp_ok G cmp hp)" using gm h by simp
    moreover have "ordered_init_groups D s e = Some (QHW_SCHED_OK, Some (s\<lparr>os_groups := Some gm, os_group_tasks := Some h,
      os_group_heap := Some hp\<rparr>), e\<lparr>env_mem := m3\<rparr>)"
      using True gm h by (simp add: ordered_init_groups_def i1 i2 i3 hp slot_table_def)
    ultimately show ?thesis by auto
  qed
qed

lemma round_init_ok:
  assumes tol: "tolerates_unready D"
    and rr: "qhw_order_config_uses_round_robin (snd (qhw_order_config_parse_options qhw_order_config_init opts))"
  shows "succeeds (ordered_init D opts e) (\<lambda>(rc, st, e').
     if rc = QHW_SCHED_OK
     then \<exists>s. st = Some s \<and> rounds_inv D G s \<and> outside G s = {} \<and> round_tasks D s = Map.empty \<and>
       round_fresh G s c \<and> order_config_ok (os_order s)
     else st = None)"
proof -
  obtain got e1 where al: "env_alloc e = (got, e1)" by force
  obtain rc1 split where p1: "qhw_sched_split_config_parse_options qhw_sched_split_config_init opts = (rc1, split)" by force
  obtain rc2 order where p2: "qhw_order_config_parse_options qhw_order_config_init opts = (rc2, order)" by force
  obtain rc3 rf m where i1: "qhw_deadline_refresh_init D (env_mem e1) = (rc3, rf, m)" by (metis prod_cases3)
  note ok1 = refresh_init_ok [OF i1, of "{}" arena_empty]
  have uses: "qhw_order_config_uses_round_robin order" using rr p2 by simp
  show ?thesis
  proof (cases "got \<and> rc1 = QHW_SCHED_OK \<and> rc2 = QHW_SCHED_OK \<and> rf \<noteq> None")
    case False
    then show ?thesis using al p1 p2 i1 by (auto simp: ordered_init_def Let_def split: option.split)
  next
    case True
    then obtain f where f: "rf = Some f" by auto
    let ?flags = "if qhw_order_config_uses_cost order then QHW_READY_QUEUE_F_ESTIMATE_COST else 0"
    let ?s = "\<lparr>os_order = order, os_ready = None, os_refresh = f, os_groups = None, os_group_tasks = None,
      os_group_heap = None, os_split_config = split, os_ready_flags = ?flags, os_next_group_ticket = 1,
      os_use_round_robin = qhw_order_config_uses_round_robin order, os_items = arena_empty,
      os_group_store = arena_empty, os_index_store = arena_empty\<rparr>"
    have rf: "refresh_ok D G f arena_empty {}" using ok1 f by simp
    have good: "order_config_ok order" using order_parse_ok [of opts order] p2 True by simp
    have call: "ordered_init D opts e = ordered_init_groups D ?s (e1\<lparr>env_mem := m\<rparr>)"
      using True al p1 p2 i1 uses f by (simp add: ordered_init_def Let_def)
    obtain rc st e' where run: "ordered_init_groups D ?s (e1\<lparr>env_mem := m\<rparr>) = Some (rc, st, e')"
      and res: "if rc = QHW_SCHED_OK
        then \<exists>gm h q. st = Some (?s\<lparr>os_groups := Some gm, os_group_tasks := Some h, os_group_heap := Some q\<rparr>) \<and>
          group_map_ok G gm \<and> qhw_group_map_find D gm = Map.empty \<and> ht_inv G h \<and> hash_table_find D h = Map.empty \<and>
          hp_items G q = [] \<and> (\<forall>cmp. hp_ok G cmp q)
        else rc = QHW_SCHED_ERR_NO_MEMORY \<and> st = None"
      using init_groups_ok [OF tol, of ?s "e1\<lparr>env_mem := m\<rparr>"] by (elim succeeds3E) blast
    show ?thesis
    proof (cases "rc = QHW_SCHED_OK")
      case True
      then obtain gm h q where st: "st = Some (?s\<lparr>os_groups := Some gm, os_group_tasks := Some h, os_group_heap := Some q\<rparr>)"
        and "group_map_ok G gm" "qhw_group_map_find D gm = Map.empty" "ht_inv G h" "hash_table_find D h = Map.empty"
          "hp_items G q = []" "\<And>cmp. hp_ok G cmp q" using res by auto
      then show ?thesis
        using empty_rounds [of "?s\<lparr>os_groups := Some gm, os_group_tasks := Some h, os_group_heap := Some q\<rparr>"] rf good uses run True
        by (simp add: call round_mode_def round_map_def round_table_def round_heap_def)
    next
      case False
      then show ?thesis using res by (simp add: call run)
    qed
  qed
qed

subsection \<open>Finalisation\<close>

lemma free_indices_ok:
  "distinct ps \<Longrightarrow> set ps \<subseteq> dom (cells I) \<Longrightarrow> succeeds (ordered_free_indices ps I) (\<lambda>_. True)"
proof (induction ps arbitrary: I)
  case (Cons p ps)
  then have "arena_free p I = Some (I\<lparr>cells := (cells I)(p := None)\<rparr>)" by (auto simp: arena_free_def split: option.splits)
  moreover have "succeeds (ordered_free_indices ps (I\<lparr>cells := (cells I)(p := None)\<rparr>)) (\<lambda>_. True)"
    using Cons.prems by (intro Cons.IH) auto
  ultimately show ?case by simp
qed simp

lemma free_groups_ok:
  "distinct gs \<Longrightarrow> arena_ok (os_items s) \<Longrightarrow>
   (\<And>g. g \<in> set gs \<Longrightarrow> \<exists>rq. queues (os_group_store s) g = Some rq \<and> ready_ok D G rq (os_items s)) \<Longrightarrow>
   (\<And>g h rq rq'. g \<in> set gs \<Longrightarrow> h \<in> set gs \<Longrightarrow> g \<noteq> h \<Longrightarrow> queues (os_group_store s) g = Some rq \<Longrightarrow>
     queues (os_group_store s) h = Some rq' \<Longrightarrow> set (rq_elems G rq) \<inter> set (rq_elems G rq') = {}) \<Longrightarrow>
   succeeds (ordered_free_groups D gs s) (\<lambda>_. True)"
proof (induction gs arbitrary: s)
  case (Cons g gs)
  obtain gr where gr: "cells (os_group_store s) g = Some gr" "ready_ok D G (og_ready gr) (os_items s)"
    using Cons.prems(3) [of g] by (auto simp: queues_def)
  obtain A where A: "qhw_ready_queue_fini D (og_ready gr) (os_items s) = Some A" "brk A = brk (os_items s)"
    "\<And>p. cells A p = (if p \<in> set (rq_elems G (og_ready gr)) then None else cells (os_items s) p)"
    using ready_fini_ok [OF gr(2)] by (auto simp: succeeds_iff)
  let ?s = "s\<lparr>os_items := A, os_group_store := (os_group_store s)\<lparr>cells := (cells (os_group_store s))(g := None)\<rparr>\<rparr>"
  have call: "ordered_group_free D s g = Some ?s" using gr(1) A(1) by (simp add: ordered_group_free_def arena_free_def)
  have aok: "arena_ok A" using Cons.prems(2) A(2,3) by (auto simp: arena_ok_def split: if_splits)
  have qs: "queues (os_group_store ?s) x = queues (os_group_store s) x" if "x \<noteq> g" for x using that by (simp add: queues_def)
  have "succeeds (ordered_free_groups D gs ?s) (\<lambda>_. True)"
  proof (rule Cons.IH)
    show "distinct gs" "arena_ok (os_items ?s)" using Cons.prems(1) aok by simp_all
    show "\<exists>rq. queues (os_group_store ?s) x = Some rq \<and> ready_ok D G rq (os_items ?s)" if x: "x \<in> set gs" for x
    proof -
      have ne: "x \<noteq> g" using x Cons.prems(1) by auto
      obtain rq where rq: "queues (os_group_store s) x = Some rq" "ready_ok D G rq (os_items s)" using Cons.prems(3) [of x] x by auto
      have "set (rq_elems G (og_ready gr)) \<inter> set (rq_elems G rq) = {}"
        using Cons.prems(4) [of g x "og_ready gr" rq] x ne rq(1) gr(1) by (simp add: queues_def)
      then have "ready_ok D G rq A" by (intro ready_ok_frame [OF rq(2) aok]) (use A(3) in auto)
      then show ?thesis using qs [OF ne] rq(1) by simp
    qed
    show "set (rq_elems G rq) \<inter> set (rq_elems G rq') = {}"
      if "x \<in> set gs" "y \<in> set gs" "x \<noteq> y" "queues (os_group_store ?s) x = Some rq" "queues (os_group_store ?s) y = Some rq'" for x y rq rq'
    proof -
      have "x \<noteq> g" "y \<noteq> g" using that(1,2) Cons.prems(1) by auto
      then show ?thesis using Cons.prems(4) [of x y rq rq'] that qs by simp
    qed
  qed
  then show ?case using call by simp
qed simp

lemma round_fini_ok:
  assumes inv: "rounds_inv D G s"
  shows "ordered_fini D (Some s) e = Some e"
proof -
  have ok: "rounds D G {} {} s" using inv by (simp add: rounds_inv_def)
  note r = roundsD [OF ok] and mode = round_modeD [OF roundsD(1) [OF ok]]
  obtain ks where ks: "distinct ks" "set ks = dom (hash_table_find D (round_table s))"
    "hash_table_fini D (round_table s) = map (\<lambda>k. the (hash_table_find D (round_table s) k)) ks"
    using ht_fini [of "round_table s"] r(3) by (auto simp: index_ok_def)
  have inj: "j = k" if "hash_table_find D (round_table s) k = Some i" "hash_table_find D (round_table s) j = Some i" for j k i
    using r(3) that unfolding index_ok_def by blast
  have d: "distinct (hash_table_fini D (round_table s))"
    unfolding ks(3) distinct_map
  proof (intro conjI inj_onI)
    fix a b
    assume "a \<in> set ks" "b \<in> set ks" "the (hash_table_find D (round_table s) a) = the (hash_table_find D (round_table s) b)"
    then show "a = b" using inj [of b _ a] ks(2) by auto
  qed (rule ks(1))
  have sub: "set (hash_table_fini D (round_table s)) \<subseteq> dom (cells (os_index_store s))"
  proof
    fix i
    assume "i \<in> set (hash_table_fini D (round_table s))"
    then obtain k where "hash_table_find D (round_table s) k = Some i" using ks by auto
    then show "i \<in> dom (cells (os_index_store s))" using r(3) unfolding index_ok_def by blast
  qed
  obtain I where I: "ordered_free_indices (hash_table_fini D (round_table s)) (os_index_store s) = Some I"
    using free_indices_ok [OF d sub] by (auto simp: succeeds_iff)
  obtain gs where gs: "distinct gs" "set gs = dom (qhw_group_map_find D (round_map s))"
    "qhw_group_map_fini D (round_map s) = map (\<lambda>k. the (qhw_group_map_find D (round_map s) k)) gs"
    using group_map_fini_ok [of "round_map s"] r(2) by (auto simp: keys_ok_def)
  have group: "\<exists>g gr. qhw_group_map_find D (round_map s) k = Some g \<and> cells (os_group_store s) g = Some gr \<and> og_key gr = k"
    if "k \<in> set gs" for k
    using that gs(2) r(2) unfolding keys_ok_def by blast
  have "distinct (qhw_group_map_fini D (round_map s))"
    unfolding gs(3) distinct_map
  proof (intro conjI inj_onI)
    fix a b
    assume "a \<in> set gs" "b \<in> set gs" "the (qhw_group_map_find D (round_map s) a) = the (qhw_group_map_find D (round_map s) b)"
    then show "a = b" using group [of a] group [of b] by auto
  qed (rule gs(1))
  then have "succeeds (ordered_free_groups D (qhw_group_map_fini D (round_map s)) s) (\<lambda>_. True)"
  proof (rule free_groups_ok [OF _ sharedD(1) [OF r(4)]])
    show "\<exists>rq. queues (os_group_store s) g = Some rq \<and> ready_ok D G rq (os_items s)"
      if mem: "g \<in> set (qhw_group_map_fini D (round_map s))" for g
    proof -
      obtain k where "k \<in> set gs" "g = the (qhw_group_map_find D (round_map s) k)" using mem unfolding gs(3) by auto
      then obtain gr where "cells (os_group_store s) g = Some gr" using group by fastforce
      from group_queue(1,4) [OF ok this] show ?thesis by blast
    qed
    show "set (rq_elems G rq) \<inter> set (rq_elems G rq') = {}"
      if "g \<noteq> h" "queues (os_group_store s) g = Some rq" "queues (os_group_store s) h = Some rq'" for g h rq rq'
      using shared_disjoint [OF r(4) that(2,3)] that(1) by blast
  qed
  then obtain s' where "ordered_free_groups D (qhw_group_map_fini D (round_map s)) s = Some s'" by (auto simp: succeeds_iff)
  then show ?thesis using mode I by (simp add: ordered_fini_def)
qed

lemma flat_fini_ok:
  assumes inv: "flat_inv D G s"
  shows "ordered_fini D (Some s) e = Some e"
proof -
  have "ready_ok D G (ordered_rq s) (os_items s)" using inv by (simp add: flat_inv_def boosted_def)
  then show ?thesis using inv ready_fini_ok [of "ordered_rq s" "os_items s"]
    by (auto simp: flat_inv_def ordered_fini_def ordered_flat_def ordered_rq_def succeeds_iff)
qed

end

subsection \<open>Both modes\<close>

text \<open>
  What the error path relies on. When the second table of the map of groups cannot be initialised, the map destroys the first
  one and the error path destroys it again; with a library that does not accept this, initialisation has no result.
\<close>

lemma init_destroys_twice:
  assumes "hash_table_init D QHW_GROUP_MAP_BUCKETS (env_mem e) = (Some h, m)" "hash_table_init D QHW_GROUP_MAP_BUCKETS m = (None, m')"
    and "\<not> hash_table_fini_unready D Table_released"
  shows "ordered_init_groups D s e = None"
  using assms by (simp add: ordered_init_groups_def qhw_group_map_init_def slot_init_def slot_fini_def group_slots_fini_def)

definition ordered_inv :: "('h, 'l, 'q) ds \<Rightarrow> ('h, 'l, 'q) ghost \<Rightarrow> ('h, 'l, 'q) ordered_state \<Rightarrow> bool" where
  "ordered_inv D G s \<longleftrightarrow> (if os_use_round_robin s then rounds_inv D G s else flat_inv D G s)"

context datastructures
begin

lemma ordered_inv_rounds: "rounds_inv D G s \<Longrightarrow> ordered_inv D G s"
  using round_modeD(1) [OF roundsD(1), of D G "{}" "{}" s] by (simp add: ordered_inv_def rounds_inv_def)

lemma ordered_inv_flat: "flat_inv D G s \<Longrightarrow> ordered_inv D G s"
  by (simp add: ordered_inv_def flat_inv_def ordered_flat_def)

lemma ordered_inv_cases: "ordered_inv D G s \<Longrightarrow> rounds_inv D G s \<or> flat_inv D G s"
  by (simp add: ordered_inv_def split: if_splits)

lemma ordered_init_returns:
  assumes tol: "qhw_order_config_uses_round_robin (snd (qhw_order_config_parse_options qhw_order_config_init opts)) \<longrightarrow>
    tolerates_unready D"
  shows "succeeds (ordered_init D opts e) (\<lambda>(rc, st, e').
    if rc = QHW_SCHED_OK then \<exists>s. st = Some s \<and> ordered_inv D G s else st = None)"
proof (cases "qhw_order_config_uses_round_robin (snd (qhw_order_config_parse_options qhw_order_config_init opts))")
  case True
  show ?thesis
    by (rule succeeds_mono [OF round_init_ok [OF mp [OF tol True] True, where c = "env_clock e"]])
      (use ordered_inv_rounds in \<open>fastforce split: if_splits\<close>)
next
  case False
  show ?thesis
    by (rule succeeds_mono [OF flat_init_ok [OF False, where c = "env_clock e"]])
      (use ordered_inv_flat in \<open>fastforce split: if_splits\<close>)
qed

lemma ordered_calls_return:
  assumes inv: "ordered_inv D G s"
  shows "succeeds (ordered_on_task_submit D (Some s) task e) (\<lambda>(rc, st, e'). \<exists>s'. st = Some s' \<and> ordered_inv D G s')"
    and "succeeds (ordered_select_next D (Some s) a e) (\<lambda>(rc, a', st, e'). \<exists>s'. st = Some s' \<and> ordered_inv D G s')"
    and "succeeds (ordered_on_task_finished D (Some s) tid ts e)
      (\<lambda>(rc, st, e'). \<exists>s'. st = Some s' \<and> ordered_inv D G s' \<and> rc = QHW_SCHED_OK)"
    and "succeeds (ordered_on_task_priority_changed D (Some s) tid v e) (\<lambda>(rc, st, e'). \<exists>s'. st = Some s' \<and> ordered_inv D G s')"
    and "ordered_fini D (Some s) e = Some e"
proof -
  obtain now c where read: "ordered_reading s (env_clock e) = (now, c)" by force
  from ordered_inv_cases [OF inv]
  have "succeeds (ordered_on_task_submit D (Some s) task e) (\<lambda>(rc, st, e'). \<exists>s'. st = Some s' \<and> ordered_inv D G s') \<and>
    succeeds (ordered_select_next D (Some s) a e) (\<lambda>(rc, a', st, e'). \<exists>s'. st = Some s' \<and> ordered_inv D G s') \<and>
    succeeds (ordered_on_task_finished D (Some s) tid ts e)
      (\<lambda>(rc, st, e'). \<exists>s'. st = Some s' \<and> ordered_inv D G s' \<and> rc = QHW_SCHED_OK) \<and>
    succeeds (ordered_on_task_priority_changed D (Some s) tid v e) (\<lambda>(rc, st, e'). \<exists>s'. st = Some s' \<and> ordered_inv D G s') \<and>
    ordered_fini D (Some s) e = Some e"
  proof
    assume r: "rounds_inv D G s"
    show ?thesis
      by (intro conjI round_fini_ok [OF r] succeeds_mono [OF round_submit_ok [OF r]] succeeds_mono [OF round_select_ok [OF r read]]
          succeeds_mono [OF round_finished_ok [OF r]] succeeds_mono [OF round_changed_ok [OF r]]) (auto intro: ordered_inv_rounds)
  next
    assume f: "flat_inv D G s"
    then have p: "flat.policy_ok s" by simp
    show ?thesis
      by (intro conjI flat_fini_ok [OF f] succeeds_mono [OF flat.submit_ok [OF p]] succeeds_mono [OF flat.select_ok [OF p read]]
          succeeds_mono [OF flat.finished_ok [OF p]] succeeds_mono [OF flat.changed_ok [OF p]]) (auto intro: ordered_inv_flat)
  qed
  then show "succeeds (ordered_on_task_submit D (Some s) task e) (\<lambda>(rc, st, e'). \<exists>s'. st = Some s' \<and> ordered_inv D G s')"
    "succeeds (ordered_select_next D (Some s) a e) (\<lambda>(rc, a', st, e'). \<exists>s'. st = Some s' \<and> ordered_inv D G s')"
    "succeeds (ordered_on_task_finished D (Some s) tid ts e)
      (\<lambda>(rc, st, e'). \<exists>s'. st = Some s' \<and> ordered_inv D G s' \<and> rc = QHW_SCHED_OK)"
    "succeeds (ordered_on_task_priority_changed D (Some s) tid v e) (\<lambda>(rc, st, e'). \<exists>s'. st = Some s' \<and> ordered_inv D G s')"
    "ordered_fini D (Some s) e = Some e" by blast+
qed

end

end
