(* ===== verification/Rounds_Tickets.thy ===== *)
theory Rounds_Tickets
  imports Rounds_Setup
begin

section \<open>Tickets of the groups\<close>

text \<open>
  The ordered policy numbers the turns of its groups. A group gets the next ticket when it is created and after
  each selection from it. No operation gives out a ticket in any other way, so that, until the 64-bit counter wraps around,
  tickets are distinct and below the counter.
\<close>

subsection \<open>What the operations do to tickets\<close>

definition tickets :: "('h, 'l, 'q) ordered_group arena \<Rightarrow> ptr \<rightharpoonup> u64" where
  "tickets B g = map_option og_ticket (cells B g)"

lemma ticket_of_tickets: "ticket_of s = tickets (os_group_store s)"
  by (simp add: fun_eq_iff ticket_of_def tickets_def)

definition kept :: "('h, 'l, 'q) ordered_state \<Rightarrow> ('h, 'l, 'q) ordered_state \<Rightarrow> bool" where
  "kept s s' \<longleftrightarrow> os_next_group_ticket s' = os_next_group_ticket s \<and>
     tickets (os_group_store s') \<subseteq>\<^sub>m tickets (os_group_store s)"

definition issued :: "('h, 'l, 'q) ordered_state \<Rightarrow> ('h, 'l, 'q) ordered_state \<Rightarrow> bool" where
  "issued s s' \<longleftrightarrow> kept s s' \<or> os_next_group_ticket s' = os_next_group_ticket s + 1 \<and>
     (\<exists>g. \<forall>h t. tickets (os_group_store s') h = Some t \<longrightarrow>
       tickets (os_group_store s) h = Some t \<or> h = g \<and> t = os_next_group_ticket s)"

lemma map_leD: "m \<subseteq>\<^sub>m n \<Longrightarrow> m x = Some y \<Longrightarrow> n x = Some y"
  by (force simp: map_le_def)

lemma kept_refl [simp]: "kept s s"
  by (simp add: kept_def)

lemma kept_trans: "kept s s' \<Longrightarrow> kept s' s'' \<Longrightarrow> kept s s''"
  by (auto simp: kept_def intro: map_le_trans)

lemma issued_kept: "issued s s' \<Longrightarrow> kept s' s'' \<Longrightarrow> issued s s''"
  unfolding issued_def kept_def by (elim disjE conjE exE) (auto intro: map_le_trans dest: map_leD)

lemma kept_issued_trans: "kept s s' \<Longrightarrow> issued s' s'' \<Longrightarrow> issued s s''"
  unfolding issued_def kept_def by (elim disjE conjE exE) (auto intro: map_le_trans dest: map_leD)

lemma kept_issued: "kept s s' \<Longrightarrow> issued s s'"
  by (simp add: issued_def)

lemma tickets_put: "cells B g = Some gr \<Longrightarrow> og_ticket gr' = og_ticket gr \<Longrightarrow> arena_put g gr' B = Some B' \<Longrightarrow> tickets B' = tickets B"
  by (auto simp: arena_put_def tickets_def)

lemma tickets_ready: "cells B g = Some gr \<Longrightarrow> arena_put g (gr\<lparr>og_ready := rq\<rparr>) B = Some B' \<Longrightarrow> tickets B' = tickets B"
  by (rule tickets_put) simp_all

lemma tickets_free: "arena_free g B = Some B' \<Longrightarrow> tickets B' = (tickets B)(g := None)"
  by (auto simp: arena_free_def tickets_def split: option.splits)

lemma tickets_index: "ordered_group_update_index us B = Some B' \<Longrightarrow> tickets B' = tickets B"
  unfolding ordered_group_update_index_def
proof (induction us arbitrary: B)
  case (Cons u us)
  obtain p i where u: "u = (p, i)" by force
  obtain gr where gr: "cells B p = Some gr" using Cons.prems u by (auto simp: bind_eq_Some_conv)
  have "tickets B' = tickets (B\<lparr>cells := (cells B)(p \<mapsto> gr\<lparr>og_heap_index := i\<rparr>)\<rparr>)"
    by (rule Cons.IH) (use Cons.prems u gr in simp)
  then show ?case using gr by (simp add: tickets_def fun_eq_iff)
qed simp

text \<open>Whatever the call returns satisfies \<^verbatim>\<open>Q\<close>.\<close>

definition yields :: "'a option \<Rightarrow> ('a \<Rightarrow> bool) \<Rightarrow> bool" where
  "yields m Q \<longleftrightarrow> (\<forall>x. m = Some x \<longrightarrow> Q x)"

lemma yields_some: "Q x \<Longrightarrow> yields (Some x) Q"
  by (simp add: yields_def)

lemma yields_bind: "(\<And>x. f = Some x \<Longrightarrow> yields (g x) Q) \<Longrightarrow> yields (f \<bind> g) Q"
  by (cases f) (simp_all add: yields_def)

lemma yields_if: "(b \<Longrightarrow> yields f Q) \<Longrightarrow> (\<not> b \<Longrightarrow> yields g Q) \<Longrightarrow> yields (if b then f else g) Q"
  by simp

lemma yields_prod: "(\<And>a b. p = (a, b) \<Longrightarrow> yields (f a b) Q) \<Longrightarrow> yields (case p of (a, b) \<Rightarrow> f a b) Q"
  by (cases p) simp

lemma yields_let: "yields (f x) Q \<Longrightarrow> yields (let y = x in f y) Q"
  by simp

lemma yields_option: "(x = None \<Longrightarrow> yields f Q) \<Longrightarrow> (\<And>y. x = Some y \<Longrightarrow> yields (g y) Q) \<Longrightarrow>
   yields (case x of None \<Rightarrow> f | Some y \<Rightarrow> g y) Q"
  by (cases x) simp_all

lemmas yields_steps = yields_bind yields_if yields_prod yields_let yields_option yields_some

lemma yieldsD: "yields m Q \<Longrightarrow> m = Some x \<Longrightarrow> Q x"
  by (simp add: yields_def)

text \<open>Each helper keeps tickets or drops some.\<close>

lemma kept_upd [simp]:
  "kept (s\<lparr>os_group_heap := q\<rparr>) s' = kept s s'" "kept (s\<lparr>os_groups := gm\<rparr>) s' = kept s s'" "kept (s\<lparr>os_items := A\<rparr>) s' = kept s s'"
  "kept (s\<lparr>os_refresh := rf\<rparr>) s' = kept s s'" "kept (s\<lparr>os_group_tasks := h\<rparr>) s' = kept s s'" "kept (s\<lparr>os_index_store := I\<rparr>) s' = kept s s'"
  "kept (s\<lparr>os_ready := rq\<rparr>) s' = kept s s'"
  by (simp_all add: kept_def)

lemma kept_upd' [simp]:
  "kept s (s'\<lparr>os_group_heap := q\<rparr>) = kept s s'" "kept s (s'\<lparr>os_groups := gm\<rparr>) = kept s s'" "kept s (s'\<lparr>os_items := A\<rparr>) = kept s s'"
  "kept s (s'\<lparr>os_refresh := rf\<rparr>) = kept s s'" "kept s (s'\<lparr>os_group_tasks := h\<rparr>) = kept s s'" "kept s (s'\<lparr>os_index_store := I\<rparr>) = kept s s'"
  "kept s (s'\<lparr>os_ready := rq\<rparr>) = kept s s'"
  by (simp_all add: kept_def)

lemma kept_store: "kept s s' \<Longrightarrow> tickets B \<subseteq>\<^sub>m tickets (os_group_store s') \<Longrightarrow> kept s (s'\<lparr>os_group_store := B\<rparr>)"
  by (auto simp: kept_def intro: map_le_trans)

lemma kept_free: "yields (ordered_group_free D s g) (kept s)"
  unfolding ordered_group_free_def
  by (intro yields_steps) (auto intro!: kept_store simp: tickets_free map_le_def)

lemma kept_reheapify: "yields (ordered_group_reheapify D s g) (\<lambda>(rc, s'). kept s s')"
  unfolding ordered_group_reheapify_def by (intro yields_steps) (simp_all add: kept_def tickets_index)

lemma kept_destroy: "yields (ordered_group_destroy D s g) (kept s)"
proof -
  have first: "yields (if og_heap_index gr \<noteq> heap_invalid_index D then do {
         q \<leftarrow> os_group_heap s;
         let (_, q, us) = heap_remove_at D (ordered_group_compare D s) q (og_heap_index gr);
         B \<leftarrow> ordered_group_update_index us (os_group_store s);
         B \<leftarrow> arena_put g (gr\<lparr>og_heap_index := heap_invalid_index D\<rparr>) B;
         Some (s\<lparr>os_group_heap := Some q, os_group_store := B\<rparr>)
       }
       else Some s) (kept s)" if gr: "cells (os_group_store s) g = Some gr" for gr
  proof (intro yields_steps)
    fix us B B' q
    assume B: "ordered_group_update_index us (os_group_store s) = Some B"
      and put: "arena_put g (gr\<lparr>og_heap_index := heap_invalid_index D\<rparr>) B = Some B'"
    obtain gr1 where gr1: "cells B g = Some gr1" using put by (auto simp: arena_put_def split: option.splits)
    have "tickets B g = tickets (os_group_store s) g" using tickets_index [OF B] by simp
    then have "og_ticket gr1 = og_ticket gr" using gr gr1 by (simp add: tickets_def)
    then show "kept s (s\<lparr>os_group_heap := Some q, os_group_store := B'\<rparr>)"
      using tickets_index [OF B] tickets_put [OF gr1 _ put] by (intro kept_store) simp_all
  qed simp
  show ?thesis
    unfolding ordered_group_destroy_def
    by (rule yields_bind, rule yields_bind, intro yields_steps)
      (use first kept_free in \<open>fastforce simp: yields_def intro: kept_trans\<close>)
qed

lemma kept_destroy_if: "yields (ordered_destroy_if D b s g) (kept s)"
  by (simp add: ordered_destroy_if_def kept_destroy yields_some)

lemmas kept_dest = kept_reheapify [THEN yieldsD] kept_destroy [THEN yieldsD] kept_destroy_if [THEN yieldsD]

lemma kept_reheapified: "kept s s' \<Longrightarrow> yields (ordered_group_reheapify D s' g) (\<lambda>(rc, s''). kept s s'')"
  using kept_reheapify [of D s' g] kept_trans by (fastforce simp: yields_def)

lemma kept_bind: "yields f (\<lambda>(rc, s'). kept s s') \<Longrightarrow> (\<And>rc s'. kept s s' \<Longrightarrow> yields (g (rc, s')) Q) \<Longrightarrow> yields (f \<bind> g) Q"
  by (auto intro!: yields_bind dest: yieldsD)

lemma kept_remove: "yields (ordered_remove_group_task D s tid) (\<lambda>(rc, s'). kept s s')"
  unfolding ordered_remove_group_task_def
  by (intro yields_steps kept_reheapified) (auto simp: kept_def dest!: kept_dest dest: tickets_ready)

lemma kept_refresh: "yields (ordered_refresh_task D s p e) (\<lambda>(rc, s', e'). kept s s')"
  unfolding ordered_refresh_task_def
  by (intro kept_bind [where s = s] yields_steps kept_reheapified) (auto simp: kept_def dest: tickets_ready)

lemma kept_undo: "yields (ordered_undo_submit D s p tid) (kept s)"
  unfolding ordered_undo_submit_def
  by (intro yields_steps) (auto dest!: kept_remove [THEN yieldsD])

lemma kept_group: "yields (ordered_submit_group D s b g p tid e) (\<lambda>(rc, s', e'). kept s s')"
  unfolding ordered_submit_group_def
  by (intro yields_steps) (auto simp: kept_def tickets_index dest!: kept_undo [THEN yieldsD] kept_dest intro: map_le_trans)

lemma issued_create: "yields (ordered_group_create D s key m) (\<lambda>(g, s', m'). issued s s')"
  unfolding ordered_group_create_def
  by (intro yields_steps) (auto simp: issued_def kept_def arena_alloc_def arena_free_def tickets_def)

lemma issued_get: "yields (ordered_group_get D s key m) (\<lambda>(g, s', m'). issued s s')"
  unfolding ordered_group_get_def
  by (intro yields_steps issued_create) (simp add: kept_issued)

lemma issued_bind:
  assumes "yields f (\<lambda>(g, s', m'). issued s s')" and "\<And>g s' m'. issued s s' \<Longrightarrow> yields (h (g, s', m')) Q"
  shows "yields (f \<bind> h) Q"
  using assms by (auto intro!: yields_bind dest: yieldsD)

text \<open>A submission issues one ticket at most.\<close>

lemma kept_bind3: "yields f (\<lambda>(rc, s', e'). kept s s') \<Longrightarrow> (\<And>rc s' e'. kept s s' \<Longrightarrow> yields (g (rc, s', e')) Q) \<Longrightarrow> yields (f \<bind> g) Q"
  by (auto intro!: yields_bind dest: yieldsD)

lemma kept_tail: "kept s s' \<Longrightarrow> yields m (\<lambda>(rc, s'', e'). kept s' s'') \<Longrightarrow> yields m (\<lambda>(rc, s'', e'). kept s s'')"
  using kept_trans by (fastforce simp: yields_def)

lemma issued_tail: "issued s s' \<Longrightarrow> yields m (\<lambda>(rc, s'', e'). kept s' s'') \<Longrightarrow> yields m (\<lambda>(rc, s'', e'). issued s s'')"
  using issued_kept by (fastforce simp: yields_def)

lemma issued_submit: "yields (ordered_submit_round_robin D s task e) (\<lambda>(rc, s', e'). issued s s')"
  unfolding ordered_submit_round_robin_def
  by (rule yields_bind, rule yields_if, simp add: yields_some kept_issued, rule issued_bind [OF issued_get], erule issued_tail,
      unfold prod.case, intro kept_bind3 [OF kept_refresh] kept_tail [OF _ kept_group] yields_steps)
    (auto simp: kept_def dest!: kept_dest kept_undo [THEN yieldsD] kept_remove [THEN yieldsD] tickets_ready intro: map_le_trans)

lemma tickets_put_at: "arena_put g gr B = Some B' \<Longrightarrow> tickets B' = (tickets B)(g \<mapsto> og_ticket gr)"
  by (auto simp: arena_put_def tickets_def fun_eq_iff split: option.splits)

lemma tickets_popped:
  assumes us: "ordered_group_update_index us B = Some B'" and gr: "cells B' g = Some gr"
    and put: "arena_put g (gr\<lparr>og_heap_index := i\<rparr>) B' = Some B''"
  shows "tickets B'' = tickets B \<and> tickets B g = Some (og_ticket gr)"
proof -
  have "tickets B' g = Some (og_ticket gr)" using gr by (simp add: tickets_def)
  then show ?thesis using tickets_index [OF us] tickets_put [OF gr _ put] by simp
qed

lemma tickets_put_upd:
  "arena_put g (gr\<lparr>og_heap_index := i, og_ready := rq\<rparr>) B = Some B' \<Longrightarrow> tickets B' = (tickets B)(g \<mapsto> og_ticket gr)"
  "arena_put g (gr\<lparr>og_heap_index := i, og_ready := rq, og_ticket := t\<rparr>) B = Some B' \<Longrightarrow> tickets B' = (tickets B)(g \<mapsto> t)"
  by (simp_all add: tickets_put_at)

lemma issued_requeue:
  assumes "tickets B1 = (tickets (os_group_store s))(g \<mapsto> os_next_group_ticket s)" "ordered_group_update_index us B1 = Some B"
    and "os_next_group_ticket s' = os_next_group_ticket s + 1" "os_group_store s' = B"
  shows "issued s s'"
  using tickets_index [OF assms(2)] assms by (auto simp: issued_def split: if_splits)

lemma issued_select_round_robin: "yields (ordered_select_round_robin D s e) (\<lambda>(rc, tid, s', e'). issued s s')"
  unfolding ordered_select_round_robin_def
proof (rule yields_bind, rule yields_let, rule yields_prod, rule yields_prod, rule yields_bind, rule yields_let, rule yields_option, goal_cases)
  case (1 q g r q' us B)
  then show ?case by (simp add: yields_some issued_def kept_def tickets_index)
next
  case (2 q x r q' us B g)
  show ?case
  proof (rule yields_bind, rule yields_let, rule yields_bind, rule yields_let, rule yields_bind, goal_cases)
    case (1 gr B' first)
    have t: "tickets B' = tickets (os_group_store s)" "tickets (os_group_store s) g = Some (og_ticket gr)"
      using tickets_popped [OF 2(4) 1(1,2)] by simp_all
    show ?case
      by (intro yields_steps)
        (auto intro: issued_requeue kept_issued simp: kept_def t fun_upd_idem dest!: kept_dest kept_free [THEN yieldsD] tickets_put_upd)
  qed
qed

subsection \<open>Distinct tickets\<close>

definition tickets_ok :: "('h, 'l, 'q) ordered_state \<Rightarrow> bool" where
  "tickets_ok s \<longleftrightarrow> (\<forall>g t. ticket_of s g = Some t \<longrightarrow> t < os_next_group_ticket s) \<and>
     (\<forall>g h t. ticket_of s g = Some t \<longrightarrow> ticket_of s h = Some t \<longrightarrow> g = h)"

lemma tickets_ok_kept:
  assumes ok: "tickets_ok s" and keep: "kept s s'"
  shows "tickets_ok s'"
proof -
  have n: "os_next_group_ticket s' = os_next_group_ticket s" using keep by (simp add: kept_def)
  have t: "ticket_of s g = Some t" if "ticket_of s' g = Some t" for g t
    using keep that map_leD unfolding kept_def ticket_of_tickets by metis
  show ?thesis
    unfolding tickets_ok_def
  proof (intro conjI allI impI)
    show "t < os_next_group_ticket s'" if "ticket_of s' g = Some t" for g t using t [OF that] n ok by (simp add: tickets_ok_def)
    show "g = h" if "ticket_of s' g = Some t" "ticket_of s' h = Some t" for g h t
      using t [OF that(1)] t [OF that(2)] ok unfolding tickets_ok_def by blast
  qed
qed

lemma tickets_ok_issued:
  assumes ok: "tickets_ok s" and iss: "issued s s'" and room: "os_next_group_ticket s \<noteq> UINT64_MAX"
  shows "tickets_ok s'"
proof (cases "kept s s'")
  case True
  then show ?thesis by (rule tickets_ok_kept [OF ok])
next
  case False
  then obtain g where nx: "os_next_group_ticket s' = os_next_group_ticket s + 1"
    and g: "\<And>h t. ticket_of s' h = Some t \<Longrightarrow> ticket_of s h = Some t \<or> h = g \<and> t = os_next_group_ticket s"
    using iss unfolding issued_def ticket_of_tickets by blast
  have lt: "os_next_group_ticket s < os_next_group_ticket s'" using room nx by (simp add: u64_less_Suc)
  have less: "t < os_next_group_ticket s" if "ticket_of s h = Some t" for h t using ok that by (simp add: tickets_ok_def)
  show ?thesis
    unfolding tickets_ok_def
  proof (intro conjI allI impI)
    show "t < os_next_group_ticket s'" if "ticket_of s' h = Some t" for h t using g [OF that] less lt by fastforce
    show "x = y" if "ticket_of s' x = Some t" "ticket_of s' y = Some t" for x y t
      using g [OF that(1)] g [OF that(2)] less ok unfolding tickets_ok_def by blast
  qed
qed

subsection \<open>The callbacks\<close>

lemma submit_issued:
  assumes "os_use_round_robin s" "ordered_on_task_submit D (Some s) task e = Some (rc, Some s', e')"
  shows "issued s s'"
  using assms yieldsD [OF issued_submit, of D s task e] by (auto simp: ordered_on_task_submit_def bind_eq_Some_conv)

lemma finished_kept:
  assumes "os_use_round_robin s" "ordered_on_task_finished D (Some s) tid ts e = Some (rc, Some s', e')"
  shows "kept s s'"
  using assms by (auto simp: ordered_on_task_finished_def bind_eq_Some_conv dest!: kept_remove [THEN yieldsD] split: prod.splits)

lemma changed_kept:
  assumes "ordered_on_task_priority_changed D (Some s) tid v e = Some (rc, Some s', e')"
  shows "kept s s'"
proof -
  have "yields (ordered_on_task_priority_changed D (Some s) tid v e) (\<lambda>(rc, st, e'). \<forall>s'. st = Some s' \<longrightarrow> kept s s')"
    unfolding ordered_on_task_priority_changed_def option.case
    by (intro yields_steps) (auto simp: kept_def dest!: kept_refresh [THEN yieldsD] intro: map_le_trans)
  then show ?thesis using assms by (simp add: yields_def)
qed

context datastructures
begin

lemma select_issued:
  assumes inv: "rounds_inv D G s" and call: "ordered_select_next D (Some s) a e = Some (rc, a', Some s', e')"
  shows "issued s s'"
proof -
  obtain now c where now: "ordered_reading s (env_clock e) = (now, c)" by force
  then have read: "qhw_order_now_ns (os_order s) (env_clock e) = (now, c)" by (simp add: ordered_reading_def)
  have le: "now \<le> ordered_floor s (env_clock (e\<lparr>env_clock := c\<rparr>))" using round_floor [OF now] by simp
  obtain rc1 s1 e1 where loop: "ordered_refresh_loop D now s (e\<lparr>env_clock := c\<rparr>) = Some (rc1, s1, e1)"
    and ref: "rounds.refreshes s (e\<lparr>env_clock := c\<rparr>) s1 e1"
    using rounds.refresh_loop_ok [OF inv le] by (elim succeeds3E) auto
  have keep: "round_keep D G s s1" and inv1: "rounds_inv D G s1" using ref by (simp_all add: rounds.refreshes_def)
  have k: "kept s s1" using keep ticket_of_grouping [of s1 s] by (simp add: kept_def round_keep_def flip: ticket_of_tickets)
  have rr: "os_use_round_robin s1" using round_modeD(1) [OF roundsD(1), of D G "{}" "{}" s1] inv1 by (simp add: rounds_inv_def)
  show ?thesis
  proof (cases "rc1 = QHW_SCHED_OK")
    case False
    then show ?thesis using call loop read k kept_issued by (simp add: ordered_select_next_def ordered_refresh_expired_def)
  next
    case True
    then obtain rc2 tid e2 where "ordered_select_round_robin D s1 e1 = Some (rc2, tid, s', e2)"
      using call loop read rr by (auto simp: ordered_select_next_def ordered_refresh_expired_def bind_eq_Some_conv split: if_splits)
    then have "issued s1 s'" using yieldsD [OF issued_select_round_robin] by fastforce
    then show ?thesis by (rule kept_issued_trans [OF k])
  qed
qed

lemma tickets_kept:
  assumes inv: "rounds_inv D G s" and tk: "tickets_ok s" and room: "os_next_group_ticket s \<noteq> UINT64_MAX"
  shows "succeeds (ordered_on_task_submit D (Some s) task e) (\<lambda>(rc, st, e'). \<exists>s'. st = Some s' \<and> tickets_ok s') \<and>
    succeeds (ordered_select_next D (Some s) a e) (\<lambda>(rc, a', st, e'). \<exists>s'. st = Some s' \<and> tickets_ok s') \<and>
    succeeds (ordered_on_task_finished D (Some s) tid ts e) (\<lambda>(rc, st, e'). \<exists>s'. st = Some s' \<and> tickets_ok s') \<and>
    succeeds (ordered_on_task_priority_changed D (Some s) tid v e) (\<lambda>(rc, st, e'). \<exists>s'. st = Some s' \<and> tickets_ok s')"
proof (intro conjI)
  have rr: "os_use_round_robin s" using inv round_modeD(1) [OF roundsD(1), of D G "{}" "{}" s] by (simp add: rounds_inv_def)
  note ret = ordered_calls_return [OF ordered_inv_rounds [OF inv]]
  obtain rc s' e' where s: "ordered_on_task_submit D (Some s) task e = Some (rc, Some s', e')" using ret(1) [of task e] by (elim succeeds3E) blast
  then show "succeeds (ordered_on_task_submit D (Some s) task e) (\<lambda>(rc, st, e'). \<exists>s'. st = Some s' \<and> tickets_ok s')"
    using tickets_ok_issued [OF tk submit_issued [OF rr s] room] by simp
  obtain rc a' s' e' where s: "ordered_select_next D (Some s) a e = Some (rc, a', Some s', e')" using ret(2) [of a e] by (elim succeeds4E) blast
  then show "succeeds (ordered_select_next D (Some s) a e) (\<lambda>(rc, a', st, e'). \<exists>s'. st = Some s' \<and> tickets_ok s')"
    using tickets_ok_issued [OF tk select_issued [OF inv s] room] by simp
  obtain rc s' e' where s: "ordered_on_task_finished D (Some s) tid ts e = Some (rc, Some s', e')" using ret(3) [of tid ts e] by (elim succeeds3E) blast
  then show "succeeds (ordered_on_task_finished D (Some s) tid ts e) (\<lambda>(rc, st, e'). \<exists>s'. st = Some s' \<and> tickets_ok s')"
    using tickets_ok_kept [OF tk finished_kept [OF rr s]] by simp
  obtain rc s' e' where s: "ordered_on_task_priority_changed D (Some s) tid v e = Some (rc, Some s', e')"
    using ret(4) [of tid v e] by (elim succeeds3E) blast
  then show "succeeds (ordered_on_task_priority_changed D (Some s) tid v e) (\<lambda>(rc, st, e'). \<exists>s'. st = Some s' \<and> tickets_ok s')"
    using tickets_ok_kept [OF tk changed_kept [OF s]] by simp
qed

end

text \<open>A new policy has no group.\<close>

lemma init_groups_store:
  "ordered_init_groups D s e = Some (rc, Some s', e') \<Longrightarrow> os_group_store s' = os_group_store s"
  by (auto simp: ordered_init_groups_def bind_eq_Some_conv Let_def split: if_splits prod.splits option.splits)

lemma init_tickets: "ordered_init D opts e = Some (rc, Some s, e') \<Longrightarrow> tickets_ok s"
  by (auto dest!: init_groups_store simp: ordered_init_def tickets_ok_def ticket_of_def Let_def split: if_splits prod.splits option.splits)

end
