(* ===== verification/Rounds_Fair.thy ===== *)
theory Rounds_Fair
  imports Rounds_Tickets
begin

section \<open>Turns of the groups\<close>

text \<open>
  With the round-robin key first in the order, a selection serves the group with the earliest ticket, which gets a later
  ticket than every other group. So each selection brings every other waiting group one turn nearer.
\<close>

text \<open>The number of groups whose turn comes before the group of the task \<^verbatim>\<open>j\<close>.\<close>

definition earlier :: "('h, 'l, 'q) ds \<Rightarrow> ('h, 'l, 'q) ordered_state \<Rightarrow> u64 \<Rightarrow> u64 set" where
  "earlier D s j = {t. \<exists>i \<in> dom (round_tasks D s). round_ticket D s i = Some t \<and> t < the (round_ticket D s j)}"

definition ahead :: "('h, 'l, 'q) ds \<Rightarrow> ('h, 'l, 'q) ordered_state \<Rightarrow> u64 \<Rightarrow> nat" where
  "ahead D s j = card (earlier D s j)"

text \<open>Up to \<^verbatim>\<open>n\<close> selections in a row: the tasks they return, and the first result that is not \<^verbatim>\<open>OK\<close>.\<close>

primrec ordered_serve ::
  "('h, 'l, 'q) ds \<Rightarrow> nat \<Rightarrow> ('h, 'l, 'q) ordered_state \<Rightarrow> env \<Rightarrow>
   (u64 list \<times> qhw_sched_rc \<times> ('h, 'l, 'q) ordered_state \<times> env) option" where
  "ordered_serve D 0 s e = Some ([], QHW_SCHED_OK, s, e)"
| "ordered_serve D (Suc n) s e = do {
     (rc, a, st, e) \<leftarrow> ordered_select_next D (Some s) zero_assignment e;
     s \<leftarrow> st;
     if rc \<noteq> QHW_SCHED_OK then Some ([], rc, s, e)
     else do {
       (ks, rc, s, e) \<leftarrow> ordered_serve D n s e;
       Some (as_task_id a # ks, rc, s, e)
     }
   }"

context datastructures
begin

lemma round_ticket_of:
  assumes ok: "rounds D G Z E s" and k: "in_rounds D s g k p"
  shows "round_ticket D s k = ticket_of s g" "ticket_of s g \<noteq> None"
proof -
  obtain gr where gr: "cells (os_group_store s) g = Some gr" by (rule in_roundsE [OF ok k])
  then show "round_ticket D s k = ticket_of s g" "ticket_of s g \<noteq> None"
    using round_ticket_in [OF ok k] by (simp_all add: ticket_of_def grouping_def)
qed

text \<open>One turn: the group of the selected task has the earliest ticket, and one group less is ahead of the others.\<close>

lemma turn_ok:
  assumes ok: "rounds D G {} {} s" "rounds D G {} {} s'" and turn: "first_turn D G s k s'"
    and rr: "outside G s = {}" "turns_first (os_order s)" and tk: "tickets_ok s"
    and j: "j \<in> dom (round_tasks D s')"
  shows "round_ticket D s j = round_ticket D s k \<and> round_ticket D s' j = Some (os_next_group_ticket s) \<or>
    round_ticket D s' j = round_ticket D s j \<and> Suc (ahead D s' j) = ahead D s j"
proof -
  have ig: "\<And>x i q. in_rounds D s' x i q \<longleftrightarrow> in_rounds D s x i q \<and> i \<noteq> k" using turn by (simp add: first_turn_def)
  obtain g p where k: "in_rounds D s g k p" and tn: "turned g s s'"
    and low: "\<And>x i q. in_rounds D s x i q \<Longrightarrow> the (ticket_of s g) \<le> the (ticket_of s x)"
    using turn rr unfolding first_turn_def by blast
  have others: "ticket_of s' h = ticket_of s h" if "h \<noteq> g" for h using tn that by (auto simp: turned_def)
  have again: "ticket_of s' g = Some t \<Longrightarrow> t = os_next_group_ticket s" for t using tn by (auto simp: turned_def)
  obtain tg where tg: "ticket_of s g = Some tg" using round_ticket_of(2) [OF ok(1) k] by auto
  obtain x q where x': "in_rounds D s' x j q" using j round_tasks_dom [OF ok(2)] by blast
  then have x: "in_rounds D s x j q" by (simp add: ig)
  obtain tx where tx: "ticket_of s x = Some tx" using round_ticket_of(2) [OF ok(1) x] by auto
  show ?thesis
  proof (cases "x = g")
    case True
    then show ?thesis using round_ticket_of [OF ok(1) x] round_ticket_of [OF ok(1) k] round_ticket_of [OF ok(2) x'] again by auto
  next
    case False
    have tj: "round_ticket D s j = Some tx" "round_ticket D s' j = Some tx"
      using round_ticket_of [OF ok(1) x] round_ticket_of [OF ok(2) x'] tx others [OF False] by simp_all
    have ne: "tg \<noteq> tx" using tk tg tx False unfolding tickets_ok_def by blast
    then have lt: "tg < tx" using low [OF x] tg tx by simp
    have txn: "tx < os_next_group_ticket s" using tk tx by (simp add: tickets_ok_def)
    have eq: "earlier D s' j = earlier D s j - {tg}"
    proof (intro equalityI subsetI)
      fix t
      assume "t \<in> earlier D s' j"
      then obtain i where i: "i \<in> dom (round_tasks D s')" "round_ticket D s' i = Some t" "t < tx" using tj by (auto simp: earlier_def)
      obtain y r where y': "in_rounds D s' y i r" using i(1) round_tasks_dom [OF ok(2)] by blast
      then have y: "in_rounds D s y i r" by (simp add: ig)
      have t': "ticket_of s' y = Some t" using round_ticket_of [OF ok(2) y'] i(2) by simp
      have yg: "y \<noteq> g" using again t' i(3) txn by auto
      then have ty: "ticket_of s y = Some t" using t' others by simp
      then have "t \<noteq> tg" using tk tg yg unfolding tickets_ok_def by blast
      moreover have "i \<in> dom (round_tasks D s)" using y round_tasks_dom [OF ok(1)] by blast
      moreover have "round_ticket D s i = Some t" using round_ticket_of [OF ok(1) y] ty by simp
      ultimately show "t \<in> earlier D s j - {tg}" using i(3) tj by (auto simp: earlier_def)
    next
      fix t
      assume "t \<in> earlier D s j - {tg}"
      then obtain i where i: "i \<in> dom (round_tasks D s)" "round_ticket D s i = Some t" "t < tx" "t \<noteq> tg"
        using tj by (auto simp: earlier_def)
      obtain y r where y: "in_rounds D s y i r" using i(1) round_tasks_dom [OF ok(1)] by blast
      have ty: "ticket_of s y = Some t" using round_ticket_of [OF ok(1) y] i(2) by simp
      then have yg: "y \<noteq> g" using tg i(4) by auto
      have "i \<noteq> k" using in_rounds_unique(1) [OF ok(1) y, of g p] k yg by auto
      then have y': "in_rounds D s' y i r" using y by (simp add: ig)
      have "i \<in> dom (round_tasks D s')" using y' round_tasks_dom [OF ok(2)] by blast
      moreover have "round_ticket D s' i = Some t" using round_ticket_of [OF ok(2) y'] ty others [OF yg] by simp
      ultimately show "t \<in> earlier D s' j" using i(3) tj by (auto simp: earlier_def)
    qed
    have mem: "tg \<in> earlier D s j"
    proof -
      have "k \<in> dom (round_tasks D s)" using k round_tasks_dom [OF ok(1)] by blast
      moreover have "round_ticket D s k = Some tg" using round_ticket_of [OF ok(1) k] tg by simp
      ultimately show ?thesis using lt tj by (auto simp: earlier_def)
    qed
    have "Suc (ahead D s' j) = ahead D s j" unfolding ahead_def eq by (rule card_Suc_Diff1 [OF finite mem])
    then show ?thesis using tj by simp
  qed
qed

text \<open>A group is served once all groups ahead of it were.\<close>

lemma serve_returns:
  assumes "rounds_inv D G s"
  shows "succeeds (ordered_serve D n s e) (\<lambda>(ks, rc, s', e'). rounds_inv D G s')"
  using assms
proof (induction n arbitrary: s e)
  case (Suc n)
  obtain now c where now: "ordered_reading s (env_clock e) = (now, c)" by force
  obtain rc a s' e' where "ordered_select_next D (Some s) zero_assignment e = Some (rc, a, Some s', e')" "rounds_inv D G s'"
    using round_select_ok [OF Suc.prems now, of zero_assignment] by (elim succeeds4E) blast
  then show ?case using Suc.IH [of s' e'] by (auto simp: succeeds_iff)
qed simp

lemma serve_ok:
  assumes "rounds_inv D G s" "outside G s = {}" "turns_first (os_order s)" "tickets_ok s"
    and "unat (os_next_group_ticket s) + n < 2 ^ 64" and "j \<in> dom (round_tasks D s)" "ahead D s j < n"
  shows "succeeds (ordered_serve D n s e) (\<lambda>(ks, rc, s', e'). rc \<noteq> QHW_SCHED_ERR_NO_MEMORY \<longrightarrow>
    (\<exists>k \<in> set ks. k \<in> dom (round_tasks D s) \<and> round_ticket D s k = round_ticket D s j))"
  using assms
proof (induction n arbitrary: s e)
  case (Suc n)
  note inv = Suc.prems(1) and j = Suc.prems(6)
  have ok: "rounds D G {} {} s" using inv by (simp add: rounds_inv_def)
  have room: "os_next_group_ticket s \<noteq> UINT64_MAX" using Suc.prems(5) by (auto simp: unat_UINT64_MAX)
  obtain now c where now: "ordered_reading s (env_clock e) = (now, c)" by force
  obtain rc a s' e' where call: "ordered_select_next D (Some s) zero_assignment e = Some (rc, a, Some s', e')" and inv': "rounds_inv D G s'"
    and o': "rc \<noteq> QHW_SCHED_ERR_NO_MEMORY \<Longrightarrow> outside G s' = {}"
    and res: "rc = QHW_SCHED_OK \<and> as_task_id a \<in> dom (round_tasks D s) \<and> first_turn D G s (as_task_id a) s' \<and>
         round_tasks D s' = (round_tasks D s)(as_task_id a := None) \<or>
       rc = QHW_SCHED_ERR_NOT_FOUND \<and> round_tasks D s = Map.empty \<or> rc = QHW_SCHED_ERR_NO_MEMORY"
    using round_select_ok [OF inv now, of zero_assignment] Suc.prems(2) by (elim succeeds4E) blast
  have ok': "rounds D G {} {} s'" using inv' by (simp add: rounds_inv_def)
  show ?case
  proof (cases "rc = QHW_SCHED_OK")
    case False
    then show ?thesis using call res j by auto
  next
    case True
    let ?k = "as_task_id a"
    have k: "?k \<in> dom (round_tasks D s)" and turn: "first_turn D G s ?k s'" and tk: "round_tasks D s' = (round_tasks D s)(?k := None)"
      using res True by auto
    have iss: "issued s s'" by (rule select_issued [OF inv call])
    have tok: "tickets_ok s'" by (rule tickets_ok_issued [OF Suc.prems(4) iss room])
    obtain ks rc2 s2 e2 where rest: "ordered_serve D n s' e' = Some (ks, rc2, s2, e2)"
      using serve_returns [OF inv', of n e'] by (elim succeeds4E) blast
    then have run: "ordered_serve D (Suc n) s e = Some (?k # ks, rc2, s2, e2)" using call True by simp
    have "\<exists>k \<in> set (?k # ks). k \<in> dom (round_tasks D s) \<and> round_ticket D s k = round_ticket D s j"
      if nm: "rc2 \<noteq> QHW_SCHED_ERR_NO_MEMORY"
    proof (cases "round_ticket D s j = round_ticket D s ?k")
      case True
      then show ?thesis using k by auto
    next
      case False
      then have j': "j \<in> dom (round_tasks D s')" using j tk by auto
      note step = turn_ok [OF ok ok' turn Suc.prems(2-4)]
      have eq: "round_ticket D s' j = round_ticket D s j" and less: "ahead D s' j < n"
        using step [OF j'] False Suc.prems(7) by auto
      have next': "unat (os_next_group_ticket s') + n < 2 ^ 64"
        using iss Suc.prems(5) unat_u64_Suc [OF room] by (auto simp: issued_def kept_def)
      have order: "turns_first (os_order s')" using turn Suc.prems(3) by (simp add: first_turn_def)
      obtain i where i: "i \<in> set ks" "i \<in> dom (round_tasks D s')" "round_ticket D s' i = round_ticket D s' j"
        using Suc.IH [OF inv' o' order tok next' j' less, of e'] rest nm True by auto
      obtain x q where x: "in_rounds D s x j q" using j round_tasks_dom [OF ok] by blast
      have "round_ticket D s j \<noteq> Some (os_next_group_ticket s)"
        using round_ticket_of [OF ok x] Suc.prems(4) by (auto simp: tickets_ok_def)
      then have "round_ticket D s i = round_ticket D s j" using step [OF i(2)] i(3) eq by auto
      moreover have "i \<in> dom (round_tasks D s)" using i(2) tk by auto
      ultimately show ?thesis using i(1) by auto
    qed
    then show ?thesis using run by simp
  qed
qed simp

end

end
