(* ===== verification/Rounds_Lost.thy ===== *)
theory Rounds_Lost
  imports Rounds_Fair
begin

section \<open>Groups that drop out of the heap\<close>

text \<open>
  A selection that cannot put its group back into the heap leaves the group and its remaining tasks outside. No callback brings
  such a group back, so none of its tasks is selected again, whichever calls follow.
\<close>

subsection \<open>Sequences of calls\<close>

datatype ordered_call =
    Call_submit qhw_sched_task_desc
  | Call_select
  | Call_priority_changed u64 i64
  | Call_started u64
  | Call_finished u64 qhw_sched_task_state

text \<open>One call, with the task that it selects, if it does.\<close>

fun ordered_perform ::
  "('h, 'l, 'q) ds \<Rightarrow> ordered_call \<Rightarrow> ('h, 'l, 'q) ordered_state \<Rightarrow> env \<Rightarrow>
   (u64 list \<times> ('h, 'l, 'q) ordered_state \<times> env) option" where
  "ordered_perform D (Call_submit task) s e = do {
     (rc, st, e) \<leftarrow> ordered_on_task_submit D (Some s) task e;
     s \<leftarrow> st;
     Some ([], s, e)
   }"
| "ordered_perform D Call_select s e = do {
     (rc, a, st, e) \<leftarrow> ordered_select_next D (Some s) zero_assignment e;
     s \<leftarrow> st;
     Some (if rc = QHW_SCHED_OK then [as_task_id a] else [], s, e)
   }"
| "ordered_perform D (Call_priority_changed tid v) s e = do {
     (rc, st, e) \<leftarrow> ordered_on_task_priority_changed D (Some s) tid v e;
     s \<leftarrow> st;
     Some ([], s, e)
   }"
| "ordered_perform D (Call_started tid) s e = do {
     (rc, st, e) \<leftarrow> ordered_on_task_started (Some s) tid e;
     s \<leftarrow> st;
     Some ([], s, e)
   }"
| "ordered_perform D (Call_finished tid ts) s e = do {
     (rc, st, e) \<leftarrow> ordered_on_task_finished D (Some s) tid ts e;
     s \<leftarrow> st;
     Some ([], s, e)
   }"

text \<open>Several calls in a row, with the tasks they select.\<close>

primrec ordered_calls ::
  "('h, 'l, 'q) ds \<Rightarrow> ordered_call list \<Rightarrow> ('h, 'l, 'q) ordered_state \<Rightarrow> env \<Rightarrow>
   (u64 list \<times> ('h, 'l, 'q) ordered_state \<times> env) option" where
  "ordered_calls D [] s e = Some ([], s, e)"
| "ordered_calls D (c # cs) s e = do {
     (ks, s, e) \<leftarrow> ordered_perform D c s e;
     (js, s, e) \<leftarrow> ordered_calls D cs s e;
     Some (ks @ js, s, e)
   }"

text \<open>No finish report about the task \<^verbatim>\<open>j\<close>.\<close>

definition unfinished :: "u64 \<Rightarrow> ordered_call list \<Rightarrow> bool" where
  "unfinished j cs \<longleftrightarrow> (\<forall>ts. Call_finished j ts \<notin> set cs)"

lemma unfinished_simps [simp]:
  "unfinished j []" "unfinished j (c # cs) \<longleftrightarrow> (\<forall>ts. c \<noteq> Call_finished j ts) \<and> unfinished j cs"
  by (auto simp: unfinished_def)

text \<open>
  Until it is reported finished, the task \<^verbatim>\<open>j\<close> waits and is not selected, whichever calls follow and whatever
  memory and clock do.
\<close>

definition never_selected :: "('h, 'l, 'q) ds \<Rightarrow> ('h, 'l, 'q) ordered_state \<Rightarrow> u64 \<Rightarrow> bool" where
  "never_selected D s j \<longleftrightarrow> (\<forall>cs e. unfinished j cs \<longrightarrow>
     succeeds (ordered_calls D cs s e) (\<lambda>(ks, s', e'). j \<notin> set ks \<and> j \<in> dom (round_tasks D s')))"

subsection \<open>Stranded tasks stay stranded\<close>

context datastructures
begin

lemma call_stranded:
  assumes inv: "rounds_inv D G s" and j: "stranded D G s j" and c: "\<forall>ts. c \<noteq> Call_finished j ts"
  shows "succeeds (ordered_perform D c s e) (\<lambda>(ks, s', e'). rounds_inv D G s' \<and> stranded D G s' j \<and> j \<notin> set ks)"
proof -
  have st: "stranded D G s' j" if "strands D G X s s'" "j \<notin> X" for X s' using that j by (simp add: strands_def)
  show ?thesis
  proof (cases c)
    case (Call_submit task)
    show ?thesis using round_submit_ok [OF inv, of task e] unfolding Call_submit
      by (elim succeeds3E) (use st [of "{}"] in auto)
  next
    case Call_select
    obtain now k where now: "ordered_reading s (env_clock e) = (now, k)" by force
    obtain rc a st e' s' where run: "ordered_select_next D (Some s) zero_assignment e = Some (rc, a, Some s', e')"
      and s': "rounds_inv D G s'" "strands D G {} s s'" "rc = QHW_SCHED_OK \<longrightarrow> \<not> stranded D G s (as_task_id a)"
      using round_select_ok [OF inv now, of zero_assignment] by (elim succeeds4E) auto
    have "as_task_id a \<noteq> j" if "rc = QHW_SCHED_OK" using s'(3) that j by auto
    then show ?thesis unfolding Call_select using run s'(1) st [OF s'(2)] by auto
  next
    case (Call_priority_changed tid v)
    show ?thesis using round_changed_ok [OF inv, of tid v e] unfolding Call_priority_changed
      by (elim succeeds3E) (use st [of "{}"] in auto)
  next
    case (Call_started tid)
    then show ?thesis using inv j by (simp add: ordered_on_task_started_def)
  next
    case (Call_finished tid ts)
    have "j \<notin> {tid}" using c Call_finished by auto
    then show ?thesis using round_finished_ok [OF inv, of tid ts e] unfolding Call_finished
      by (elim succeeds3E) (use st [of "{tid}"] in auto)
  qed
qed

lemma calls_stranded:
  "rounds_inv D G s \<Longrightarrow> stranded D G s j \<Longrightarrow> unfinished j cs \<Longrightarrow>
   succeeds (ordered_calls D cs s e) (\<lambda>(ks, s', e'). rounds_inv D G s' \<and> stranded D G s' j \<and> j \<notin> set ks)"
proof (induction cs arbitrary: s e)
  case (Cons c cs)
  obtain ks s1 e1 where one: "ordered_perform D c s e = Some (ks, s1, e1)" "rounds_inv D G s1" "stranded D G s1 j" "j \<notin> set ks"
    using call_stranded [OF Cons.prems(1,2), of c e] Cons.prems(3) by (auto elim: succeeds3E)
  have rest: "unfinished j cs" using Cons.prems(3) by simp
  show ?case using Cons.IH [OF one(2,3) rest, of e1] one(1,4) by (elim succeeds3E) auto
qed simp

lemma stranded_waits: "rounds_inv D G s \<Longrightarrow> stranded D G s j \<Longrightarrow> j \<in> dom (round_tasks D s)"
  unfolding rounds_inv_def stranded_def using round_tasks_in(2) by blast

lemma stranded_never_selected:
  assumes "rounds_inv D G s" "stranded D G s j"
  shows "never_selected D s j"
  unfolding never_selected_def
proof (intro allI impI)
  fix cs e
  assume "unfinished j cs"
  from calls_stranded [OF assms this, of e]
  show "succeeds (ordered_calls D cs s e) (\<lambda>(ks, s', e'). j \<notin> set ks \<and> j \<in> dom (round_tasks D s'))"
    by (rule succeeds_mono) (use stranded_waits in auto)
qed

text \<open>Tasks of one group are stranded together.\<close>

lemma stranded_together:
  assumes inv: "rounds_inv D G s" and j: "stranded D G s j" and i: "i \<in> dom (round_tasks D s)"
    and group: "ordered_task_group D s i = ordered_task_group D s j"
  shows "stranded D G s i"
proof -
  have ok: "rounds D G {} {} s" using inv by (simp add: rounds_inv_def)
  obtain x q where x: "in_rounds D s x j q" "x \<in> outside G s" using j by (auto simp: stranded_def)
  obtain y r where y: "in_rounds D s y i r" using i round_tasks_dom [OF ok] by blast
  have "y = x" using task_group_found [OF ok x(1)] task_group_found [OF ok y] group by simp
  then show ?thesis using x(2) y by (auto simp: stranded_def)
qed

text \<open>The selection that runs out of memory.\<close>

lemma select_loses:
  assumes inv: "rounds_inv D G s" and call: "ordered_select_next D (Some s) a e = Some (QHW_SCHED_ERR_NO_MEMORY, a', Some s', e')"
    and lost: "round_tasks D s' \<noteq> round_tasks D s"
  obtains k where "a' = a" "rounds_inv D G s'" "k \<in> dom (round_tasks D s)" "round_tasks D s' = (round_tasks D s)(k := None)" "loses D G k s s'"
proof -
  obtain now c where "ordered_reading s (env_clock e) = (now, c)" by force
  from round_select_ok [OF inv this, of a] show ?thesis using call lost that by auto
qed

lemma lost_group:
  assumes inv: "rounds_inv D G s" "rounds_inv D G s'" and loses: "loses D G k s s'"
  shows "\<exists>j \<in> dom (round_tasks D s'). ordered_task_group D s' j = ordered_task_group D s k"
    and "j \<in> dom (round_tasks D s') \<Longrightarrow> ordered_task_group D s' j = ordered_task_group D s k \<Longrightarrow> stranded D G s' j"
proof -
  have ok: "rounds D G {} {} s" "rounds D G {} {} s'" using inv by (simp_all add: rounds_inv_def)
  obtain g p where k: "in_rounds D s g k p" "\<not> lone D s g k" "outside G s' = insert g (outside G s)"
    "in_rounds D s' = (\<lambda>x j q. in_rounds D s x j q \<and> j \<noteq> k)" using loses by (auto simp: loses_def)
  note gk = task_group_found [OF ok(1) k(1)]
  obtain j q where "in_rounds D s g j q" "j \<noteq> k" using k(2) by (auto simp: lone_def)
  then have j: "in_rounds D s' g j q" by (simp add: k(4))
  show "\<exists>j \<in> dom (round_tasks D s'). ordered_task_group D s' j = ordered_task_group D s k"
    by (rule bexI [OF _ round_tasks_in(2) [OF ok(2) j]]) (simp add: task_group_found [OF ok(2) j] gk)
  show "stranded D G s' j" if dom: "j \<in> dom (round_tasks D s')" and group: "ordered_task_group D s' j = ordered_task_group D s k" for j
  proof -
    obtain y r where y: "in_rounds D s' y j r" using dom round_tasks_dom [OF ok(2)] by blast
    have "y = g" using task_group_found [OF ok(2) y] group gk by simp
    then show ?thesis using y k(3) by (auto simp: stranded_def)
  qed
qed

lemma lost_for_good:
  assumes inv: "rounds_inv D G s" and call: "ordered_select_next D (Some s) a e = Some (QHW_SCHED_ERR_NO_MEMORY, a', Some s', e')"
    and lost: "round_tasks D s' \<noteq> round_tasks D s"
  shows "a' = a \<and> (\<exists>k \<in> dom (round_tasks D s). round_tasks D s' = (round_tasks D s)(k := None) \<and>
    (\<exists>j \<in> dom (round_tasks D s'). ordered_task_group D s' j = ordered_task_group D s k) \<and>
    (\<forall>j \<in> dom (round_tasks D s'). ordered_task_group D s' j = ordered_task_group D s k \<longrightarrow>
      never_selected D s' j \<and>
      (\<forall>cs e. unfinished j cs \<longrightarrow> succeeds (ordered_calls D cs s' e) (\<lambda>(ks, s1, e1).
        \<forall>i \<in> dom (round_tasks D s1). ordered_task_group D s1 i = ordered_task_group D s1 j \<longrightarrow> never_selected D s1 i))))"
proof -
  obtain k where k: "a' = a" "rounds_inv D G s'" "k \<in> dom (round_tasks D s)" "round_tasks D s' = (round_tasks D s)(k := None)"
    "loses D G k s s'" by (rule select_loses [OF assms])
  note g = lost_group [OF inv k(2,5)]
  have later: "succeeds (ordered_calls D cs s' e) (\<lambda>(ks, s1, e1).
      \<forall>i \<in> dom (round_tasks D s1). ordered_task_group D s1 i = ordered_task_group D s1 j \<longrightarrow> never_selected D s1 i)"
    if "stranded D G s' j" "unfinished j cs" for j cs e
    by (rule succeeds_mono [OF calls_stranded [OF k(2) that]]) (use stranded_together stranded_never_selected in blast)
  show ?thesis using k(1,3,4) g later stranded_never_selected [OF k(2)] by blast
qed

end

end
