(* ===== verification/Ordered_Demo.thy ===== *)
theory Ordered_Demo
  imports Policy_Demo Rounds_Lost
begin

section \<open>A concrete run of the ordered policy\<close>

text \<open>
  The ordered policy with the round-robin key on the reference data structures: tasks 7 and 8 of job 5 are submitted, so
  one group holds both.
\<close>

definition round_options :: kv_ref where
  "round_options = KvArr [\<lparr>kv_key = QHW_SCHED_OPT_ORDER_KEY, kv_type = QHW_SCHED_VALUE_U64, kv_flags = 0,
     kv_bits = QHW_SCHED_ORDER_ROUND_ROBIN\<rparr>]"

definition round_order :: qhw_order_config where
  "round_order = qhw_order_config_init\<lparr>order_keys := [QHW_SCHED_ORDER_ROUND_ROBIN]\<rparr>"

definition round_item :: "u64 \<Rightarrow> u64 \<Rightarrow> nat \<Rightarrow> qhw_ready_task" where
  "round_item tid n i = \<lparr>rt_desc = job_task tid 5, base_priority = 0, effective_priority = 0, rt_estimated_cost = 1,
     next_refresh_ns = QHW_DEADLINE_BOOST_NEVER, seq = n, heap_index = i, refresh_heap_index = SIZE_MAX\<rparr>"

definition round_group ::
  "ptr list \<Rightarrow> (nat \<Rightarrow> (u64 \<times> ptr) list) \<Rightarrow> u64 \<Rightarrow> nat \<Rightarrow> u64 \<Rightarrow> (ref_table, ptr list, ptr list) ordered_group" where
  "round_group heap ids n i ticket = \<lparr>og_key = \<lparr>gk_kind = QHW_GROUP_JOB, gk_id = 5\<rparr>,
     og_ready = \<lparr>rq_kind = QHW_READY_QUEUE_HEAP, rq_compare = Some (\<lambda>left right. ordered_compare left right round_order),
       rq_flags = 0, rq_fifo = [], rq_heap = Some heap, rq_by_id = \<lparr>rt_size = 4096, rt_bucket = ids\<rparr>, rq_next_seq = n\<rparr>,
     og_heap_index = i, og_ticket = ticket\<rparr>"

definition round_state ::
  "(nat \<Rightarrow> (u64 \<times> ptr) list) \<Rightarrow> (nat \<Rightarrow> (u64 \<times> ptr) list) \<Rightarrow> ptr list \<Rightarrow> u64 \<Rightarrow> items \<Rightarrow>
   (ref_table, ptr list, ptr list) ordered_group arena \<Rightarrow> ordered_task_index arena \<Rightarrow>
   (ref_table, ptr list, ptr list) ordered_state" where
  "round_state jobs ids heap ticket A B I = \<lparr>os_order = round_order, os_ready = None, os_refresh = \<lparr>dr_heap = []\<rparr>,
     os_groups = Some \<lparr>reservation_groups = \<lparr>rt_size = 4096, rt_bucket = (\<lambda>_. [])\<rparr>,
       job_groups = \<lparr>rt_size = 4096, rt_bucket = jobs\<rparr>, task_groups = \<lparr>rt_size = 4096, rt_bucket = (\<lambda>_. [])\<rparr>\<rparr>,
     os_group_tasks = Some \<lparr>rt_size = 4096, rt_bucket = ids\<rparr>, os_group_heap = Some heap,
     os_split_config = qhw_sched_split_config_init, os_ready_flags = 0, os_next_group_ticket = ticket,
     os_use_round_robin = True, os_items = A, os_group_store = B, os_index_store = I\<rparr>"

definition round_empty :: "(ref_table, ptr list, ptr list) ordered_state" where
  "round_empty = round_state (\<lambda>_. []) (\<lambda>_. []) [] 1 arena_empty arena_empty arena_empty"

definition round_one :: "(ref_table, ptr list, ptr list) ordered_state" where
  "round_one = round_state ((\<lambda>_. [])(5 := [(5, 0)])) ((\<lambda>_. [])(7 := [(7, 0)])) [0] 2
     \<lparr>cells = [0 \<mapsto> round_item 7 1 0], brk = 1\<rparr>
     \<lparr>cells = [0 \<mapsto> round_group [0] ((\<lambda>_. [])(7 := [(7, 0)])) 2 0 1], brk = 1\<rparr> \<lparr>cells = [0 \<mapsto> \<lparr>oi_group = 0\<rparr>], brk = 1\<rparr>"

definition round_two :: "(ref_table, ptr list, ptr list) ordered_state" where
  "round_two = round_state ((\<lambda>_. [])(5 := [(5, 0)])) ((\<lambda>_. [])(7 := [(7, 0)], 8 := [(8, 1)])) [0] 2
     \<lparr>cells = [0 \<mapsto> round_item 7 1 0, 1 \<mapsto> round_item 8 2 1], brk = 2\<rparr>
     \<lparr>cells = [0 \<mapsto> round_group [0, 1] ((\<lambda>_. [])(7 := [(7, 0)], 8 := [(8, 1)])) 3 0 1], brk = 1\<rparr>
     \<lparr>cells = [0 \<mapsto> \<lparr>oi_group = 0\<rparr>, 1 \<mapsto> \<lparr>oi_group = 0\<rparr>], brk = 2\<rparr>"

lemma round_create: "ordered_init ref_ds round_options demo_env = Some (QHW_SCHED_OK, Some round_empty, demo_env)"
  by (simp add: ordered_init_def qhw_order_config_parse_options_def parse_order_key_def order_config_append_key_def
      order_key_supported_def qhw_order_config_uses_cost_def qhw_order_config_uses_round_robin_def ordered_init_groups_def
      qhw_group_map_init_def slot_init_def slot_table_def group_slots_map_def prio_init_eval round_options_def round_empty_def round_state_def round_order_def qhw_order_config_init_def demo_env_def)

lemmas round_eval = ordered_on_task_submit_def ordered_submit_round_robin_def ordered_group_get_def ordered_group_create_def
  ordered_submit_group_def ordered_refresh_task_def ordered_task_group_def ordered_group_reheapify_def
  ordered_group_update_index_def ordered_group_compare_def ordered_first_task_def ordered_compare_def
  qhw_order_compare_def qhw_order_compare_groups_def order_key_compare_def compare_u64_asc_def qhw_order_refresh_task_def
  qhw_order_now_ns_def qhw_deadline_boost_compute_def qhw_ready_queue_peek_def qhw_ready_queue_init_def rt_init_def
  qhw_group_map_find_def qhw_group_map_insert_def group_map_table_def group_map_put_def qhw_group_key_from_task_def
  env_alloc_def arena_put_def ra_reheapify_at_def UINT64_MAX_def qhw_order_config_init_def
  round_state_def round_group_def round_item_def round_order_def job_task_def demo_task_def demo_env_def

lemma round_submit_7: "ordered_on_task_submit ref_ds (Some round_empty) (job_task 7 5) demo_env =
   Some (QHW_SCHED_OK, Some round_one, demo_env)"
  by (simp add: round_eval prio_submit_eval round_empty_def round_one_def)

lemma round_submit_8: "ordered_on_task_submit ref_ds (Some round_one) (job_task 8 5) demo_env =
   Some (QHW_SCHED_OK, Some round_two, demo_env)"
  by (simp add: round_eval prio_submit_eval round_one_def round_two_def)

text \<open>The state after a selection whose last allocation fails.\<close>

definition round_lost :: "(ref_table, ptr list, ptr list) ordered_state" where
  "round_lost = round_state ((\<lambda>_. [])(5 := [(5, 0)])) ((\<lambda>_. [])(8 := [(8, 1)], 7 := [])) [] 3
     \<lparr>cells = [1 \<mapsto> round_item 8 2 0], brk = 2\<rparr>
     \<lparr>cells = [0 \<mapsto> round_group [1] ((\<lambda>_. [])(8 := [(8, 1)], 7 := [])) 3 SIZE_MAX 2], brk = 1\<rparr>
     \<lparr>cells = [1 \<mapsto> \<lparr>oi_group = 0\<rparr>], brk = 2\<rparr>"

lemmas round_select_eval = ordered_select_next_def ordered_refresh_expired_def ordered_refresh_loop.simps
  qhw_deadline_refresh_pop_expired_def ordered_select_round_robin_def qhw_ready_queue_pop_def ready_take_def
  rt_remove_def arena_free_def ra_remove_at_def zero_assignment_def

lemma round_select_fails: "ordered_select_next ref_ds (Some round_two) zero_assignment (demo_env\<lparr>env_mem := [False]\<rparr>) =
   Some (QHW_SCHED_ERR_NO_MEMORY, zero_assignment, Some round_lost, demo_env)"
  by (simp add: round_select_eval round_eval prio_submit_eval round_two_def round_lost_def)

text \<open>The state after one more task of the job was submitted.\<close>

definition round_stuck :: "(ref_table, ptr list, ptr list) ordered_state" where
  "round_stuck = round_state ((\<lambda>_. [])(5 := [(5, 0)])) ((\<lambda>_. [])(8 := [(8, 1)], 7 := [], 9 := [(9, 2)])) [] 3
     \<lparr>cells = [1 \<mapsto> round_item 8 2 0, 2 \<mapsto> round_item 9 3 1], brk = 3\<rparr>
     \<lparr>cells = [0 \<mapsto> round_group [1, 2] ((\<lambda>_. [])(8 := [(8, 1)], 7 := [], 9 := [(9, 2)])) 4 SIZE_MAX 2], brk = 1\<rparr>
     \<lparr>cells = [1 \<mapsto> \<lparr>oi_group = 0\<rparr>, 2 \<mapsto> \<lparr>oi_group = 0\<rparr>], brk = 3\<rparr>"

lemma round_submit_9: "ordered_on_task_submit ref_ds (Some round_lost) (job_task 9 5) demo_env =
   Some (QHW_SCHED_OK, Some round_stuck, demo_env)"
  by (simp add: round_eval prio_submit_eval round_lost_def round_stuck_def)

lemma round_lost_tasks:
  "7 \<in> dom (round_tasks ref_ds round_two)" "7 \<notin> dom (round_tasks ref_ds round_lost)" "8 \<in> dom (round_tasks ref_ds round_lost)"
  "9 \<in> dom (round_tasks ref_ds round_stuck)"
  by (simp_all add: round_tasks_def ordered_find_ready_task_def ordered_task_group_def round_two_def round_lost_def round_stuck_def
      round_state_def round_group_def qhw_ready_queue_find_def rt_find_def rt_slot_def look_def dom_def)

lemma round_lost_groups:
  "ordered_task_group ref_ds round_two 7 = Some (Some 0)" "ordered_task_group ref_ds round_lost 8 = Some (Some 0)"
  "ordered_task_group ref_ds round_stuck 8 = Some (Some 0)" "ordered_task_group ref_ds round_stuck 9 = Some (Some 0)"
  by (simp_all add: ordered_task_group_def round_two_def round_lost_def round_stuck_def round_state_def rt_find_def rt_slot_def)

subsection \<open>Shortest task first\<close>

text \<open>The policy with the key for the shortest task: task 7 is estimated to cost 5 and task 8 to cost 2.\<close>

definition short_options :: kv_ref where
  "short_options = KvArr [\<lparr>kv_key = QHW_SCHED_OPT_ORDER_KEY, kv_type = QHW_SCHED_VALUE_U64, kv_flags = 0,
     kv_bits = QHW_SCHED_ORDER_SJF\<rparr>]"

definition cost_task :: "u64 \<Rightarrow> u64 \<Rightarrow> qhw_sched_task_desc" where
  "cost_task tid cost = (demo_task tid (KvArr []))\<lparr>estimated_cost := cost\<rparr>"

definition flat_state ::
  "(nat \<Rightarrow> (u64 \<times> ptr) list) \<Rightarrow> u64 \<Rightarrow> ptr list \<Rightarrow> items \<Rightarrow> (ref_table, ptr list, ptr list) ordered_state" where
  "flat_state ids n heap A = \<lparr>os_order = qhw_order_config_init\<lparr>order_keys := [QHW_SCHED_ORDER_SJF]\<rparr>,
     os_ready = Some \<lparr>rq_kind = QHW_READY_QUEUE_HEAP,
       rq_compare = Some (\<lambda>left right. ordered_compare left right (qhw_order_config_init\<lparr>order_keys := [QHW_SCHED_ORDER_SJF]\<rparr>)),
       rq_flags = QHW_READY_QUEUE_F_ESTIMATE_COST, rq_fifo = [], rq_heap = Some heap,
       rq_by_id = \<lparr>rt_size = 4096, rt_bucket = ids\<rparr>, rq_next_seq = n\<rparr>,
     os_refresh = \<lparr>dr_heap = []\<rparr>, os_groups = None, os_group_tasks = None, os_group_heap = None,
     os_split_config = qhw_sched_split_config_init, os_ready_flags = QHW_READY_QUEUE_F_ESTIMATE_COST,
     os_next_group_ticket = 1, os_use_round_robin = False, os_items = A, os_group_store = arena_empty,
     os_index_store = arena_empty\<rparr>"

definition cost_item :: "u64 \<Rightarrow> u64 \<Rightarrow> u64 \<Rightarrow> nat \<Rightarrow> qhw_ready_task" where
  "cost_item tid cost n i = \<lparr>rt_desc = cost_task tid cost, base_priority = 0, effective_priority = 0, rt_estimated_cost = cost,
     next_refresh_ns = QHW_DEADLINE_BOOST_NEVER, seq = n, heap_index = i, refresh_heap_index = SIZE_MAX\<rparr>"

definition flat_empty :: "(ref_table, ptr list, ptr list) ordered_state" where
  "flat_empty = flat_state (\<lambda>_. []) 1 [] arena_empty"

definition flat_one :: "(ref_table, ptr list, ptr list) ordered_state" where
  "flat_one = flat_state ((\<lambda>_. [])(7 := [(7, 0)])) 2 [0] \<lparr>cells = [0 \<mapsto> cost_item 7 5 1 0], brk = 1\<rparr>"

definition flat_two :: "(ref_table, ptr list, ptr list) ordered_state" where
  "flat_two = flat_state ((\<lambda>_. [])(7 := [(7, 0)], 8 := [(8, 1)])) 3 [1, 0]
     \<lparr>cells = [0 \<mapsto> cost_item 7 5 1 1, 1 \<mapsto> cost_item 8 2 2 0], brk = 2\<rparr>"

lemma flat_create: "ordered_init ref_ds short_options demo_env = Some (QHW_SCHED_OK, Some flat_empty, demo_env)"
  by (simp add: ordered_init_def qhw_order_config_parse_options_def parse_order_key_def order_config_append_key_def
      order_key_supported_def qhw_order_config_uses_cost_def qhw_order_config_uses_round_robin_def
      prio_init_eval short_options_def flat_empty_def flat_state_def qhw_order_config_init_def demo_env_def)

lemmas flat_eval = qhw_policy_task_estimated_cost_def flat_state_def cost_item_def cost_task_def

lemma flat_submit_7: "ordered_on_task_submit ref_ds (Some flat_empty) (cost_task 7 5) demo_env =
   Some (QHW_SCHED_OK, Some flat_one, demo_env)"
  by (simp add: flat_eval round_eval prio_submit_eval flat_empty_def flat_one_def)

lemma flat_submit_8: "ordered_on_task_submit ref_ds (Some flat_one) (cost_task 8 2) demo_env =
   Some (QHW_SCHED_OK, Some flat_two, demo_env)"
  by (simp add: flat_eval round_eval prio_submit_eval flat_one_def flat_two_def)

lemma flat_select_run: "succeeds (ordered_select_next ref_ds (Some flat_two) zero_assignment demo_env)
   (\<lambda>(rc, a, st, e'). rc = QHW_SCHED_OK \<and> as_task_id a = 8)"
  by (simp add: round_select_eval flat_eval round_eval prio_submit_eval flat_two_def)

context datastructures
begin

lemma flat_submitted:
  assumes "flat_inv D G s" "flat_fresh G s (env_clock e)"
    and "ordered_on_task_submit D (Some s) task e = Some (rc, Some s', e')"
  shows "flat_inv D G s' \<and> flat_fresh G s' (env_clock e')"
proof -
  have "flat.policy_ok s" using assms(1) by simp
  from flat.submit_ok [OF this, of task e] show ?thesis using assms by simp
qed

end

lemma flat_empty_ok: "flat_inv ref_ds ref_ghost flat_empty" "flat_fresh ref_ghost flat_empty (env_clock demo_env)"
  "order_config_ok (os_order flat_empty)"
proof -
  have "\<not> qhw_order_config_uses_round_robin (snd (qhw_order_config_parse_options qhw_order_config_init short_options))"
    by (simp add: short_options_def qhw_order_config_parse_options_def parse_order_key_def order_config_append_key_def
        order_key_supported_def qhw_order_config_uses_round_robin_def prio_init_eval qhw_order_config_init_def)
  from datastructures.flat_init_ok [OF ref_structures this, of demo_env "env_clock demo_env"]
  show "flat_inv ref_ds ref_ghost flat_empty" "flat_fresh ref_ghost flat_empty (env_clock demo_env)"
    "order_config_ok (os_order flat_empty)" by (simp_all add: flat_create)
qed

lemma flat_one_ok: "flat_inv ref_ds ref_ghost flat_one" "flat_fresh ref_ghost flat_one (env_clock demo_env)"
  using datastructures.flat_submitted [OF ref_structures flat_empty_ok(1,2) flat_submit_7] by blast+

lemma flat_two_ok: "flat_inv ref_ds ref_ghost flat_two" "flat_fresh ref_ghost flat_two (env_clock demo_env)"
  using datastructures.flat_submitted [OF ref_structures flat_one_ok flat_submit_8] by blast+

lemma flat_two_config: "order_config_ok (os_order flat_two)"
  using flat_empty_ok(3) by (simp add: flat_empty_def flat_two_def flat_state_def)

lemma flat_reading: "qhw_order_now_ns (os_order flat_two) (env_clock demo_env) = (0, env_clock demo_env)"
  "(0 :: u64) < QHW_DEADLINE_BOOST_NEVER"
  by (simp_all add: qhw_order_now_ns_def flat_two_def flat_state_def qhw_order_config_init_def now_ns_reading clock_advance_def
      demo_env_def UINT64_MAX_def)

subsection \<open>The states of the round-robin run\<close>

lemma round_select_run: "succeeds (ordered_select_next ref_ds (Some round_two) zero_assignment demo_env)
   (\<lambda>(rc, a, st, e'). rc = QHW_SCHED_OK \<and> as_task_id a = 7)"
  by (simp add: round_select_eval round_eval prio_submit_eval round_two_def)

context datastructures
begin

lemma round_submitted:
  assumes "rounds_inv D G s" "outside G s = {}" "round_fresh G s (env_clock e)"
    and "ordered_on_task_submit D (Some s) task e = Some (rc, Some s', e')"
  shows "rounds_inv D G s' \<and> outside G s' = {} \<and> round_fresh G s' (env_clock e')"
  using round_submit_ok [OF assms(1), of task e] assms by simp

end

lemma round_empty_ok: "rounds_inv ref_ds ref_ghost round_empty" "outside ref_ghost round_empty = {}"
  "round_fresh ref_ghost round_empty (env_clock demo_env)" "order_config_ok (os_order round_empty)"
proof -
  have "qhw_order_config_uses_round_robin (snd (qhw_order_config_parse_options qhw_order_config_init round_options))"
    by (simp add: round_options_def qhw_order_config_parse_options_def parse_order_key_def order_config_append_key_def
        order_key_supported_def qhw_order_config_uses_round_robin_def prio_init_eval qhw_order_config_init_def)
  from datastructures.round_init_ok [OF ref_structures ref_tolerates this, of demo_env "env_clock demo_env"]
  show "rounds_inv ref_ds ref_ghost round_empty" "outside ref_ghost round_empty = {}"
    "round_fresh ref_ghost round_empty (env_clock demo_env)" "order_config_ok (os_order round_empty)"
    by (simp_all add: round_create)
qed

lemma round_one_ok: "rounds_inv ref_ds ref_ghost round_one" "outside ref_ghost round_one = {}"
  "round_fresh ref_ghost round_one (env_clock demo_env)"
  using datastructures.round_submitted [OF ref_structures round_empty_ok(1-3) round_submit_7] by blast+

lemma round_two_ok: "rounds_inv ref_ds ref_ghost round_two" "round_fresh ref_ghost round_two (env_clock demo_env)"
  "outside ref_ghost round_two = {}"
  using datastructures.round_submitted [OF ref_structures round_one_ok round_submit_8] by blast+

lemma round_two_config: "order_config_ok (os_order round_two)"
  using round_empty_ok(4) by (simp add: round_empty_def round_two_def round_state_def)

lemma round_reading: "qhw_order_now_ns (os_order round_two) (env_clock demo_env) = (0, env_clock demo_env)"
  by (simp add: qhw_order_now_ns_def round_two_def round_state_def round_order_def qhw_order_config_init_def now_ns_reading
      clock_advance_def demo_env_def UINT64_MAX_def)

text \<open>A task of another job: its group has the next ticket.\<close>

definition round_three :: "(ref_table, ptr list, ptr list) ordered_state" where
  "round_three = round_state ((\<lambda>_. [])(5 := [(5, 0)], 6 := [(6, 1)]))
     ((\<lambda>_. [])(7 := [(7, 0)], 8 := [(8, 1)], 9 := [(9, 2)])) [0, 1] 3
     \<lparr>cells = [0 \<mapsto> round_item 7 1 0, 1 \<mapsto> round_item 8 2 1, 2 \<mapsto> (round_item 9 1 0)\<lparr>rt_desc := job_task 9 6\<rparr>], brk = 3\<rparr>
     \<lparr>cells = [0 \<mapsto> round_group [0, 1] ((\<lambda>_. [])(7 := [(7, 0)], 8 := [(8, 1)])) 3 0 1,
       1 \<mapsto> (round_group [2] ((\<lambda>_. [])(9 := [(9, 2)])) 2 1 2)\<lparr>og_key := \<lparr>gk_kind = QHW_GROUP_JOB, gk_id = 6\<rparr>\<rparr>], brk = 2\<rparr>
     \<lparr>cells = [0 \<mapsto> \<lparr>oi_group = 0\<rparr>, 1 \<mapsto> \<lparr>oi_group = 0\<rparr>, 2 \<mapsto> \<lparr>oi_group = 1\<rparr>], brk = 3\<rparr>"

lemma round_submit_other: "ordered_on_task_submit ref_ds (Some round_two) (job_task 9 6) demo_env =
   Some (QHW_SCHED_OK, Some round_three, demo_env)"
  by (simp add: round_eval prio_submit_eval round_two_def round_three_def)

lemma round_three_ok: "rounds_inv ref_ds ref_ghost round_three" "outside ref_ghost round_three = {}"
  using datastructures.round_submitted [OF ref_structures round_two_ok(1,3,2) round_submit_other] by blast+

lemma round_three_tickets: "tickets_ok round_three" "turns_first (os_order round_three)"
  "unat (os_next_group_ticket round_three) + 2 < 2 ^ 64"
  by (auto simp: tickets_ok_def ticket_of_def turns_first_def round_three_def round_state_def round_group_def round_order_def
      split: if_splits)

lemma round_three_ahead: "9 \<in> dom (round_tasks ref_ds round_three)" "ahead ref_ds round_three 9 < 2"
proof -
  have t: "round_ticket ref_ds round_three k = Some t \<Longrightarrow> t = 1 \<or> t = 2" for k t
    by (auto simp: round_ticket_def round_three_def round_state_def round_group_def split: option.splits if_splits)
  have "round_ticket ref_ds round_three 9 = Some 2"
    by (simp add: round_ticket_def ordered_task_group_def round_three_def round_state_def round_group_def rt_find_def rt_slot_def)
  then have "earlier ref_ds round_three 9 \<subseteq> {1}" using t by (auto simp: earlier_def)
  then have "card (earlier ref_ds round_three 9) \<le> card {1 :: u64}" by (intro card_mono) simp_all
  then show "ahead ref_ds round_three 9 < 2" by (simp add: ahead_def)
  show "9 \<in> dom (round_tasks ref_ds round_three)"
    by (simp add: round_tasks_def ordered_find_ready_task_def ordered_task_group_def round_three_def round_state_def round_group_def
        round_item_def qhw_ready_queue_find_def rt_find_def rt_slot_def look_def dom_def)
qed

text \<open>The state after task 7 was selected: the group of task 9 comes next.\<close>

definition round_turned :: "(ref_table, ptr list, ptr list) ordered_state" where
  "round_turned = round_state ((\<lambda>_. [])(5 := [(5, 0)], 6 := [(6, 1)]))
     ((\<lambda>_. [])(8 := [(8, 1)], 9 := [(9, 2)], 7 := [])) [1, 0] 4
     \<lparr>cells = [1 \<mapsto> round_item 8 2 0, 2 \<mapsto> (round_item 9 1 0)\<lparr>rt_desc := job_task 9 6\<rparr>], brk = 3\<rparr>
     \<lparr>cells = [0 \<mapsto> round_group [1] ((\<lambda>_. [])(8 := [(8, 1)], 7 := [])) 3 1 3,
       1 \<mapsto> (round_group [2] ((\<lambda>_. [])(9 := [(9, 2)])) 2 0 2)\<lparr>og_key := \<lparr>gk_kind = QHW_GROUP_JOB, gk_id = 6\<rparr>\<rparr>], brk = 2\<rparr>
     \<lparr>cells = [1 \<mapsto> \<lparr>oi_group = 0\<rparr>, 2 \<mapsto> \<lparr>oi_group = 1\<rparr>], brk = 3\<rparr>"

lemma round_select_three: "ordered_select_next ref_ds (Some round_three) zero_assignment demo_env =
   Some (QHW_SCHED_OK, zero_assignment\<lparr>as_task_id := 7\<rparr>, Some round_turned, demo_env)"
  by (simp add: round_select_eval round_eval prio_submit_eval round_three_def round_turned_def) (auto simp: fun_eq_iff)

lemma round_select_turned: "succeeds (ordered_select_next ref_ds (Some round_turned) zero_assignment demo_env)
   (\<lambda>(rc, a, st, e'). rc = QHW_SCHED_OK \<and> as_task_id a = 9 \<and> st \<noteq> None)"
  by (simp add: round_select_eval round_eval prio_submit_eval round_turned_def qhw_group_map_remove_def ordered_group_free_def
      qhw_ready_queue_fini_def drain_heap.simps)

lemma round_serve_run: "succeeds (ordered_serve ref_ds 2 round_three demo_env) (\<lambda>(ks, rc, s', e'). ks = [7, 9] \<and> rc = QHW_SCHED_OK)"
  using round_select_turned by (auto simp: numeral_2_eq_2 round_select_three succeeds_iff)

end
