(* ===== verification/Ordered_Properties.thy ===== *)
theory Ordered_Properties
  imports Ordered_Demo
begin

section \<open>Properties of the ordered policy\<close>

subsection \<open>Without the round-robin key\<close>

text \<open>The ranks by which a waiting task is compared, with its boost computed at the time \<^verbatim>\<open>now\<close>.\<close>

definition ordered_rank :: "('h, 'l, 'q) ds \<Rightarrow> ('h, 'l, 'q) ordered_state \<Rightarrow> u64 \<Rightarrow> u64 \<Rightarrow> int list" where
  "ordered_rank D s k now = (let t = the (flat_tasks D s k) in
     order_vector (order_keys (os_order s))
       (t\<lparr>effective_priority := br_effective_priority (boost_at (ordered_boost s) t now)\<rparr>) 0)"

text \<open>The task \<^verbatim>\<open>k\<close> is least when every task \<^verbatim>\<open>j\<close> has its boost of the time \<^verbatim>\<open>at j\<close>.\<close>

definition ordered_first ::
  "('h, 'l, 'q) ds \<Rightarrow> ('h, 'l, 'q) ordered_state \<Rightarrow> (u64 \<Rightarrow> u64) \<Rightarrow> u64 \<Rightarrow> bool" where
  "ordered_first D s at k \<longleftrightarrow> k \<in> dom (flat_tasks D s) \<and>
     (\<forall>j \<in> dom (flat_tasks D s). ordered_rank D s k (at k) \<le> ordered_rank D s j (at j))"

lemma order_vector_bare:
  "order_vector keys ((bare t)\<lparr>effective_priority := effective_priority t\<rparr>) 0 = order_vector keys t 0"
  by (simp add: order_vector_def key_rank_def bare_def cong: if_cong)

context datastructures
begin

lemma flat_chosen_first:
  assumes ch: "flat.chosen s T k" and within: "\<And>j t. T j = Some t \<Longrightarrow> boosted_within (ordered_boost s) lo hi t" and lo: "lo \<le> hi"
  shows "\<exists>at. (\<forall>j. lo \<le> at j \<and> at j \<le> hi) \<and> ordered_first D s at k"
proof -
  have bare: "map_option bare (T j) = flat_tasks D s j" for j using ch by (simp add: flat.chosen_def)
  have dom: "j \<in> dom (flat_tasks D s) \<longleftrightarrow> T j \<noteq> None" for j using bare [of j] by (auto simp: dom_def) (metis option.map_disc_iff)
  have "\<exists>a. lo \<le> a \<and> a \<le> hi \<and> (\<forall>t. T j = Some t \<longrightarrow> effective_priority t = br_effective_priority (boost_at (ordered_boost s) t a))" for j
    using within [of j] lo by (cases "T j") (auto simp: boosted_within_def)
  then obtain at where at: "\<And>j. lo \<le> at j \<and> at j \<le> hi"
    "\<And>j t. T j = Some t \<Longrightarrow> effective_priority t = br_effective_priority (boost_at (ordered_boost s) t (at j))" by metis
  have rank: "ordered_rank D s j (at j) = order_vector (order_keys (os_order s)) t 0" if "T j = Some t" for j t
  proof -
    have "flat_tasks D s j = Some (bare t)" using bare [of j] that by simp
    moreover have "boost_at (ordered_boost s) (bare t) (at j) = boost_at (ordered_boost s) t (at j)"
      by (simp add: boost_at_def bare_def)
    ultimately show ?thesis using at(2) [OF that] order_vector_bare [of "order_keys (os_order s)" t] by (simp add: ordered_rank_def)
  qed
  obtain t where t: "T k = Some t" "\<And>j u. T j = Some u \<Longrightarrow> qhw_order_compare (os_order s) t u \<le> 0"
    using ch by (auto simp: flat.chosen_def ordered_cmp_def)
  have "ordered_first D s at k"
    unfolding ordered_first_def
  proof (intro conjI ballI)
    show "k \<in> dom (flat_tasks D s)" using dom t(1) by simp
    fix j
    assume "j \<in> dom (flat_tasks D s)"
    then obtain u where u: "T j = Some u" using dom by auto
    show "ordered_rank D s k (at k) \<le> ordered_rank D s j (at j)"
      using t(2) [OF u] rank [OF t(1)] rank [OF u] by (simp add: order_compare_vec)
  qed
  then show ?thesis using at(1) by blast
qed

lemma flat_best:
  assumes inv: "flat_inv D G s" and fresh: "flat_fresh G s (env_clock e)" and config: "order_config_ok (os_order s)"
    and now: "qhw_order_now_ns (os_order s) (env_clock e) = (now, c)" "now < QHW_DEADLINE_BOOST_NEVER"
  shows "succeeds (ordered_select_next D (Some s) a e) (\<lambda>(rc, a', st, e').
    (rc = QHW_SCHED_OK \<longrightarrow> (\<exists>at. (\<forall>j. now \<le> at j \<and> at j \<le> ordered_floor s (env_clock e')) \<and> ordered_first D s at (as_task_id a'))) \<and>
    (rc \<noteq> QHW_SCHED_ERR_NO_MEMORY \<longrightarrow> (\<exists>s'. st = Some s' \<and> flat_fresh G s' (env_clock e'))))"
proof -
  have ok: "flat.policy_ok s" using inv by simp
  have read: "ordered_reading s (env_clock e) = (now, c)" using now(1) by (simp add: ordered_reading_def)
  have cfg: "boost_config_ok (ordered_boost s)" using config by (simp add: order_config_ok_def boost_config_ok_def ordered_boost_def)
  from flat.select_ok [OF ok read, of a] obtain rc a' s' e' where
    call: "ordered_select_next D (Some s) a e = Some (rc, a', Some s', e')"
    and fr: "rc \<noteq> QHW_SCHED_ERR_NO_MEMORY \<Longrightarrow> flat_fresh G s' (env_clock e')"
    and T: "rc = QHW_SCHED_OK \<Longrightarrow> \<exists>T. flat.chosen s T (as_task_id a') \<and>
      (\<forall>j t. T j = Some t \<longrightarrow> boosted_within (ordered_boost s) now (ordered_floor s (env_clock e')) t)"
    unfolding flat_policy_ok flat_tasks_eq flat_fresh_eq using fresh cfg now(2) by (elim succeeds4E) blast
  have "\<exists>at. (\<forall>j. now \<le> at j \<and> at j \<le> ordered_floor s (env_clock e')) \<and> ordered_first D s at (as_task_id a')"
    if rc: "rc = QHW_SCHED_OK"
  proof -
    obtain T where T': "flat.chosen s T (as_task_id a')"
      "\<And>j t. T j = Some t \<Longrightarrow> boosted_within (ordered_boost s) now (ordered_floor s (env_clock e')) t" using T [OF rc] by blast
    obtain t where "T (as_task_id a') = Some t" using T'(1) by (auto simp: flat.chosen_def)
    then have "now \<le> ordered_floor s (env_clock e')" using T'(2) order_trans by (fastforce simp: boosted_within_def)
    then show ?thesis using flat_chosen_first [OF T'(1)] T'(2) by blast
  qed
  then show ?thesis using call fr by simp
qed

lemma flat_map_ok:
  assumes "flat_inv D G s"
  shows "succeeds (ordered_on_task_submit D (Some s) task e) (\<lambda>(rc, st, e'). \<exists>s'. st = Some s' \<and> flat_inv D G s' \<and>
      flat_tasks D s' = (if rc = QHW_SCHED_OK
        then (flat_tasks D s)(task_id task \<mapsto> bare (core (new_ready_task (ordered_rq s) (heap_invalid_index D) task)))
        else flat_tasks D s)) \<and>
    succeeds (ordered_select_next D (Some s) a e) (\<lambda>(rc, a', st, e'). \<exists>s'. st = Some s' \<and> flat_inv D G s' \<and>
      (rc = QHW_SCHED_ERR_NOT_FOUND \<longrightarrow> flat_tasks D s = Map.empty) \<and>
      flat_tasks D s' = (if rc = QHW_SCHED_OK then (flat_tasks D s)(as_task_id a' := None) else flat_tasks D s)) \<and>
    succeeds (ordered_on_task_finished D (Some s) tid ts e) (\<lambda>(rc, st, e'). \<exists>s'. st = Some s' \<and> flat_inv D G s' \<and>
      rc = QHW_SCHED_OK \<and> flat_tasks D s' = (flat_tasks D s)(tid := None)) \<and>
    succeeds (ordered_on_task_priority_changed D (Some s) tid v e) (\<lambda>(rc, st, e'). \<exists>s'. st = Some s' \<and> flat_inv D G s' \<and>
      (rc = QHW_SCHED_ERR_NOT_FOUND \<longleftrightarrow> flat_tasks D s tid = None) \<and>
      flat_tasks D s' = (if rc = QHW_SCHED_OK
        then (flat_tasks D s)(tid \<mapsto> (the (flat_tasks D s tid))\<lparr>base_priority := v\<rparr>) else flat_tasks D s))"
  (is "?sub \<and> ?sel \<and> ?fin \<and> ?chg")
proof -
  have ok: "flat.policy_ok s" using assms by simp
  obtain now c where read: "ordered_reading s (env_clock e) = (now, c)" by force
  have ?sub by (rule succeeds_mono [OF flat.submit_ok [OF ok]]) auto
  moreover have ?sel by (rule succeeds_mono [OF flat.select_ok [OF ok read]]) auto
  moreover have ?fin by (rule succeeds_mono [OF flat.finished_ok [OF ok]]) auto
  moreover have ?chg by (rule succeeds_mono [OF flat.changed_ok [OF ok]]) auto
  ultimately show ?thesis by blast
qed

end

text \<open>
  C13: Without the round-robin key the ordered policy selects by the keys that hold now. In a state whose boosts are
  fresh, a selection that succeeds returns a task that is least in the configured order when every waiting task's boost is
  recomputed at some time between the first clock reading of the call and the last; a selection that does not run
  out of memory leaves the boosts fresh.
\<close>

theorem ordered_selects_best:
  assumes "datastructures D G" "flat_inv D G s" "flat_fresh G s (env_clock e)" "order_config_ok (os_order s)"
    and "qhw_order_now_ns (os_order s) (env_clock e) = (now, c)" "now < QHW_DEADLINE_BOOST_NEVER"
  shows "succeeds (ordered_select_next D (Some s) a e) (\<lambda>(rc, a', st, e').
    (rc = QHW_SCHED_OK \<longrightarrow> (\<exists>at. (\<forall>j. now \<le> at j \<and> at j \<le> ordered_floor s (env_clock e')) \<and> ordered_first D s at (as_task_id a'))) \<and>
    (rc \<noteq> QHW_SCHED_ERR_NO_MEMORY \<longrightarrow> (\<exists>s'. st = Some s' \<and> flat_fresh G s' (env_clock e'))))"
  by (rule datastructures.flat_best [OF assms])

theorem ordered_selects_best_witness:
  "succeeds (ordered_select_next ref_ds (Some flat_two) zero_assignment demo_env) (\<lambda>(rc, a, st, e').
     rc = QHW_SCHED_OK \<and> as_task_id a = 8 \<and> (\<exists>at. ordered_first ref_ds flat_two at 8))"
  by (rule succeeds_mono [OF succeeds_conj [OF ordered_selects_best [OF ref_structures flat_two_ok flat_two_config flat_reading]
        flat_select_run]]) auto

text \<open>
  C18: Without the round-robin key the ordered policy refines a map from identifiers to tasks: a submission adds its
  task or changes nothing, a selection that succeeds takes out the task it returns, a finish report deletes its task, and
  a priority change either updates the base priority of its task alone or leaves the map as it was.
\<close>

theorem ordered_refines_map:
  assumes "datastructures D G" "flat_inv D G s"
  shows "succeeds (ordered_on_task_submit D (Some s) task e) (\<lambda>(rc, st, e'). \<exists>s'. st = Some s' \<and> flat_inv D G s' \<and>
      flat_tasks D s' = (if rc = QHW_SCHED_OK
        then (flat_tasks D s)(task_id task \<mapsto> bare (core (new_ready_task (ordered_rq s) (heap_invalid_index D) task)))
        else flat_tasks D s)) \<and>
    succeeds (ordered_select_next D (Some s) a e) (\<lambda>(rc, a', st, e'). \<exists>s'. st = Some s' \<and> flat_inv D G s' \<and>
      (rc = QHW_SCHED_ERR_NOT_FOUND \<longrightarrow> flat_tasks D s = Map.empty) \<and>
      flat_tasks D s' = (if rc = QHW_SCHED_OK then (flat_tasks D s)(as_task_id a' := None) else flat_tasks D s)) \<and>
    succeeds (ordered_on_task_finished D (Some s) tid ts e) (\<lambda>(rc, st, e'). \<exists>s'. st = Some s' \<and> flat_inv D G s' \<and>
      rc = QHW_SCHED_OK \<and> flat_tasks D s' = (flat_tasks D s)(tid := None)) \<and>
    succeeds (ordered_on_task_priority_changed D (Some s) tid v e) (\<lambda>(rc, st, e'). \<exists>s'. st = Some s' \<and> flat_inv D G s' \<and>
      (rc = QHW_SCHED_ERR_NOT_FOUND \<longleftrightarrow> flat_tasks D s tid = None) \<and>
      flat_tasks D s' = (if rc = QHW_SCHED_OK
        then (flat_tasks D s)(tid \<mapsto> (the (flat_tasks D s tid))\<lparr>base_priority := v\<rparr>) else flat_tasks D s))"
  by (rule datastructures.flat_map_ok [OF assms])

theorem ordered_refines_map_witness:
  "succeeds (ordered_on_task_submit ref_ds (Some flat_one) (cost_task 8 2) demo_env) (\<lambda>(rc, st, e').
     \<exists>s'. st = Some s' \<and> flat_tasks ref_ds s' = (if rc = QHW_SCHED_OK
       then (flat_tasks ref_ds flat_one)(8 \<mapsto> bare (core (new_ready_task (ordered_rq flat_one) SIZE_MAX (cost_task 8 2))))
       else flat_tasks ref_ds flat_one))"
  by (rule succeeds_mono [OF conjunct1 [OF ordered_refines_map [OF ref_structures flat_one_ok(1), where task = "cost_task 8 2"
      and e = demo_env]]]) (auto simp: cost_task_def demo_task_def)

subsection \<open>With the round-robin key\<close>

context datastructures
begin

lemma round_best:
  assumes inv: "rounds_inv D G s" and fresh: "round_fresh G s (env_clock e)" and out: "outside G s = {}"
    and config: "order_config_ok (os_order s)"
    and now: "qhw_order_now_ns (os_order s) (env_clock e) = (now, c)" "now < QHW_DEADLINE_BOOST_NEVER"
  shows "succeeds (ordered_select_next D (Some s) a e) (\<lambda>(rc, a', st, e').
    (rc = QHW_SCHED_OK \<longrightarrow> (\<exists>at. (\<forall>j. now \<le> at j \<and> at j \<le> ordered_floor s (env_clock e')) \<and> round_first D s at (as_task_id a'))) \<and>
    (rc = QHW_SCHED_ERR_NOT_FOUND \<longrightarrow> round_tasks D s = Map.empty) \<and>
    (rc \<noteq> QHW_SCHED_ERR_NO_MEMORY \<longrightarrow>
      (\<exists>s'. st = Some s' \<and> rounds_inv D G s' \<and> outside G s' = {} \<and> round_fresh G s' (env_clock e'))))"
proof -
  have read: "ordered_reading s (env_clock e) = (now, c)" using now(1) by (simp add: ordered_reading_def)
  have cfg: "boost_config_ok (ordered_boost s)" using config by (simp add: order_config_ok_def boost_config_ok_def ordered_boost_def)
  show ?thesis by (rule succeeds_mono [OF round_select_ok [OF inv read]]) (use fresh out cfg now(2) in auto)
qed

lemma round_map_ok:
  assumes inv: "rounds_inv D G s"
  shows "succeeds (ordered_on_task_submit D (Some s) task e) (\<lambda>(rc, st, e'). \<exists>s'. st = Some s' \<and> rounds_inv D G s' \<and>
      (task_id task \<in> dom (round_tasks D s) \<longrightarrow> rc = QHW_SCHED_ERR_EXISTS) \<and>
      (if rc = QHW_SCHED_OK
       then \<exists>t. rt_desc t = task \<and> base_priority t = priority task \<and> round_tasks D s' = (round_tasks D s)(task_id task \<mapsto> t)
       else round_tasks D s' = round_tasks D s)) \<and>
    succeeds (ordered_select_next D (Some s) a e) (\<lambda>(rc, a', st, e'). \<exists>s'. st = Some s' \<and> rounds_inv D G s' \<and>
      (rc = QHW_SCHED_OK \<and> as_task_id a' \<in> dom (round_tasks D s) \<and>
         round_tasks D s' = (round_tasks D s)(as_task_id a' := None) \<or>
       rc = QHW_SCHED_ERR_NOT_FOUND \<and> a' = a \<and> round_tasks D s' = round_tasks D s \<or>
       rc = QHW_SCHED_ERR_NO_MEMORY \<and> a' = a \<and> (round_tasks D s' = round_tasks D s \<or>
         (\<exists>k \<in> dom (round_tasks D s). round_tasks D s' = (round_tasks D s)(k := None))))) \<and>
    succeeds (ordered_on_task_finished D (Some s) tid ts e) (\<lambda>(rc, st, e'). \<exists>s'. st = Some s' \<and> rounds_inv D G s' \<and>
      rc = QHW_SCHED_OK \<and> round_tasks D s' = (round_tasks D s)(tid := None)) \<and>
    succeeds (ordered_on_task_priority_changed D (Some s) tid v e) (\<lambda>(rc, st, e'). \<exists>s'. st = Some s' \<and> rounds_inv D G s' \<and>
      (rc = QHW_SCHED_ERR_NOT_FOUND \<longleftrightarrow> round_tasks D s tid = None) \<and>
      round_tasks D s' = (if rc = QHW_SCHED_OK
        then (round_tasks D s)(tid \<mapsto> (the (round_tasks D s tid))\<lparr>base_priority := v\<rparr>) else round_tasks D s))"
  (is "?sub \<and> ?sel \<and> ?fin \<and> ?chg")
proof -
  obtain now c where read: "ordered_reading s (env_clock e) = (now, c)" by force
  have ?sub by (rule succeeds_mono [OF round_submit_ok [OF inv]]) auto
  moreover have ?sel by (rule succeeds_mono [OF round_select_ok [OF inv read]]) auto
  moreover have ?fin by (rule succeeds_mono [OF round_finished_ok [OF inv]]) auto
  moreover have ?chg by (rule succeeds_mono [OF round_changed_ok [OF inv]]) auto
  ultimately show ?thesis by blast
qed

end

text \<open>
  C16: With the round-robin key the ordered policy refines a map from identifiers to tasks, although it keeps them in a
  queue per group, an index and a heap of groups: a submission adds its task or changes nothing, and refuses an identifier
  that is there; a selection that succeeds takes out the task it returns; a finish report deletes its task; a priority
  change updates the base priority of its task alone or nothing. Only a selection that runs out of memory may lose a task,
  and then one at most.
\<close>

theorem ordered_rounds_refine_map:
  assumes "datastructures D G" "rounds_inv D G s"
  shows "succeeds (ordered_on_task_submit D (Some s) task e) (\<lambda>(rc, st, e'). \<exists>s'. st = Some s' \<and> rounds_inv D G s' \<and>
      (task_id task \<in> dom (round_tasks D s) \<longrightarrow> rc = QHW_SCHED_ERR_EXISTS) \<and>
      (if rc = QHW_SCHED_OK
       then \<exists>t. rt_desc t = task \<and> base_priority t = priority task \<and> round_tasks D s' = (round_tasks D s)(task_id task \<mapsto> t)
       else round_tasks D s' = round_tasks D s)) \<and>
    succeeds (ordered_select_next D (Some s) a e) (\<lambda>(rc, a', st, e'). \<exists>s'. st = Some s' \<and> rounds_inv D G s' \<and>
      (rc = QHW_SCHED_OK \<and> as_task_id a' \<in> dom (round_tasks D s) \<and>
         round_tasks D s' = (round_tasks D s)(as_task_id a' := None) \<or>
       rc = QHW_SCHED_ERR_NOT_FOUND \<and> a' = a \<and> round_tasks D s' = round_tasks D s \<or>
       rc = QHW_SCHED_ERR_NO_MEMORY \<and> a' = a \<and> (round_tasks D s' = round_tasks D s \<or>
         (\<exists>k \<in> dom (round_tasks D s). round_tasks D s' = (round_tasks D s)(k := None))))) \<and>
    succeeds (ordered_on_task_finished D (Some s) tid ts e) (\<lambda>(rc, st, e'). \<exists>s'. st = Some s' \<and> rounds_inv D G s' \<and>
      rc = QHW_SCHED_OK \<and> round_tasks D s' = (round_tasks D s)(tid := None)) \<and>
    succeeds (ordered_on_task_priority_changed D (Some s) tid v e) (\<lambda>(rc, st, e'). \<exists>s'. st = Some s' \<and> rounds_inv D G s' \<and>
      (rc = QHW_SCHED_ERR_NOT_FOUND \<longleftrightarrow> round_tasks D s tid = None) \<and>
      round_tasks D s' = (if rc = QHW_SCHED_OK
        then (round_tasks D s)(tid \<mapsto> (the (round_tasks D s tid))\<lparr>base_priority := v\<rparr>) else round_tasks D s))"
  by (rule datastructures.round_map_ok [OF assms])

theorem ordered_rounds_refine_map_witness:
  "succeeds (ordered_select_next ref_ds (Some round_two) zero_assignment demo_env) (\<lambda>(rc, a, st, e').
     rc = QHW_SCHED_OK \<and> (\<exists>s'. st = Some s' \<and> round_tasks ref_ds s' = (round_tasks ref_ds round_two)(7 := None)))"
  by (rule succeeds_mono [OF succeeds_conj [OF
        conjunct1 [OF conjunct2 [OF ordered_rounds_refine_map [OF ref_structures round_two_ok(1)]]] round_select_run]]) auto

text \<open>
  C14: With the round-robin key a selection returns a task that is least in the configured order, where the round-robin key
  compares the tickets of the groups, when every waiting task's boost is recomputed at some time between the first clock
  reading of the call and the last. This holds while all groups are in the heap and the boosts are fresh, and every
  selection that does not run out of memory keeps it so; NOT_FOUND then means that no task waits.
\<close>

theorem ordered_rounds_select_best:
  assumes "datastructures D G" "rounds_inv D G s" "round_fresh G s (env_clock e)" "outside G s = {}" "order_config_ok (os_order s)"
    and "qhw_order_now_ns (os_order s) (env_clock e) = (now, c)" "now < QHW_DEADLINE_BOOST_NEVER"
  shows "succeeds (ordered_select_next D (Some s) a e) (\<lambda>(rc, a', st, e').
    (rc = QHW_SCHED_OK \<longrightarrow> (\<exists>at. (\<forall>j. now \<le> at j \<and> at j \<le> ordered_floor s (env_clock e')) \<and> round_first D s at (as_task_id a'))) \<and>
    (rc = QHW_SCHED_ERR_NOT_FOUND \<longrightarrow> round_tasks D s = Map.empty) \<and>
    (rc \<noteq> QHW_SCHED_ERR_NO_MEMORY \<longrightarrow>
      (\<exists>s'. st = Some s' \<and> rounds_inv D G s' \<and> outside G s' = {} \<and> round_fresh G s' (env_clock e'))))"
  by (rule datastructures.round_best [OF assms])

theorem ordered_rounds_select_best_witness:
  "succeeds (ordered_select_next ref_ds (Some round_two) zero_assignment demo_env) (\<lambda>(rc, a, st, e').
     rc = QHW_SCHED_OK \<and> as_task_id a = 7 \<and> (\<exists>at. round_first ref_ds round_two at 7))"
  by (rule succeeds_mono [OF succeeds_conj [OF ordered_rounds_select_best [OF ref_structures round_two_ok round_two_config
        round_reading flat_reading(2)] round_select_run]]) auto

text \<open>
  C17: With the round-robin key a selection that answers NO_MEMORY and changes the waiting tasks has lost one: it took the task
  out of a group with other tasks, returned nothing, and could not put the group back into the heap. From then on no task
  of this group is ever selected: whichever submissions, selections, priority changes, start and finish reports follow, and
  whatever memory and clock do, a task of the group waits until it is reported finished, and so does every task that
  is submitted to the group while one of them waits.
\<close>

theorem ordered_select_loses_task:
  assumes "datastructures D G" "rounds_inv D G s"
    and "ordered_select_next D (Some s) a e = Some (QHW_SCHED_ERR_NO_MEMORY, a', Some s', e')" "round_tasks D s' \<noteq> round_tasks D s"
  shows "a' = a \<and> (\<exists>k \<in> dom (round_tasks D s). round_tasks D s' = (round_tasks D s)(k := None) \<and>
    (\<exists>j \<in> dom (round_tasks D s'). ordered_task_group D s' j = ordered_task_group D s k) \<and>
    (\<forall>j \<in> dom (round_tasks D s'). ordered_task_group D s' j = ordered_task_group D s k \<longrightarrow>
      never_selected D s' j \<and>
      (\<forall>cs e. unfinished j cs \<longrightarrow> succeeds (ordered_calls D cs s' e) (\<lambda>(ks, s1, e1).
        \<forall>i \<in> dom (round_tasks D s1). ordered_task_group D s1 i = ordered_task_group D s1 j \<longrightarrow> never_selected D s1 i))))"
  by (rule datastructures.lost_for_good [OF assms])

theorem ordered_select_loses_task_witness:
  "round_tasks ref_ds round_lost = (round_tasks ref_ds round_two)(7 := None) \<and> never_selected ref_ds round_lost 8 \<and>
   ordered_on_task_submit ref_ds (Some round_lost) (job_task 9 5) demo_env = Some (QHW_SCHED_OK, Some round_stuck, demo_env) \<and>
   never_selected ref_ds round_stuck 9"
proof -
  have "round_tasks ref_ds round_lost \<noteq> round_tasks ref_ds round_two" using round_lost_tasks by auto
  from ordered_select_loses_task [OF ref_structures round_two_ok(1) round_select_fails this]
  obtain k where k: "round_tasks ref_ds round_lost = (round_tasks ref_ds round_two)(k := None)"
    and group: "\<And>j. j \<in> dom (round_tasks ref_ds round_lost) \<Longrightarrow>
      ordered_task_group ref_ds round_lost j = ordered_task_group ref_ds round_two k \<Longrightarrow>
      never_selected ref_ds round_lost j \<and>
      (\<forall>cs e. unfinished j cs \<longrightarrow> succeeds (ordered_calls ref_ds cs round_lost e) (\<lambda>(ks, s1, e1).
        \<forall>i \<in> dom (round_tasks ref_ds s1). ordered_task_group ref_ds s1 i = ordered_task_group ref_ds s1 j \<longrightarrow> never_selected ref_ds s1 i))"
    by blast
  have "k = 7" using k round_lost_tasks(1,2) by (metis domIff fun_upd_apply)
  then have same: "ordered_task_group ref_ds round_lost 8 = ordered_task_group ref_ds round_two k" by (simp add: round_lost_groups)
  have run: "ordered_calls ref_ds [Call_submit (job_task 9 5)] round_lost demo_env = Some ([], round_stuck, demo_env)"
    by (simp add: round_submit_9)
  have "unfinished 8 [Call_submit (job_task 9 5)]" by simp
  then have "succeeds (ordered_calls ref_ds [Call_submit (job_task 9 5)] round_lost demo_env) (\<lambda>(ks, s1, e1).
      \<forall>i \<in> dom (round_tasks ref_ds s1). ordered_task_group ref_ds s1 i = ordered_task_group ref_ds s1 8 \<longrightarrow> never_selected ref_ds s1 i)"
    using group [OF round_lost_tasks(3) same] by blast
  then have never: "never_selected ref_ds round_stuck 9"
    unfolding run using round_lost_groups round_lost_tasks(4) by simp
  show ?thesis using k \<open>k = 7\<close> never group [OF round_lost_tasks(3) same] round_submit_9 by simp
qed

text \<open>
  C15: With the round-robin key first in the order no group starves: when \<^verbatim>\<open>m\<close> groups with earlier tickets are ahead of
  the group of a waiting task, that group is served within the next \<^verbatim>\<open>m + 1\<close> selections, unless one of them runs out of
  memory.
\<close>

theorem ordered_rounds_fair:
  assumes "datastructures D G" "rounds_inv D G s" "outside G s = {}" "turns_first (os_order s)" "tickets_ok s"
    and "unat (os_next_group_ticket s) + n < 2 ^ 64" "j \<in> dom (round_tasks D s)" "ahead D s j < n"
  shows "succeeds (ordered_serve D n s e) (\<lambda>(ks, rc, s', e'). rc \<noteq> QHW_SCHED_ERR_NO_MEMORY \<longrightarrow>
    (\<exists>k \<in> set ks. k \<in> dom (round_tasks D s) \<and> round_ticket D s k = round_ticket D s j))"
  by (rule datastructures.serve_ok [OF assms])

theorem ordered_rounds_fair_witness:
  "succeeds (ordered_serve ref_ds 2 round_three demo_env) (\<lambda>(ks, rc, s', e'). ks = [7, 9] \<and> rc = QHW_SCHED_OK \<and>
    (\<exists>k \<in> set ks. k \<in> dom (round_tasks ref_ds round_three) \<and>
       round_ticket ref_ds round_three k = round_ticket ref_ds round_three 9))"
  by (rule succeeds_mono [OF succeeds_conj [OF
        ordered_rounds_fair [OF ref_structures round_three_ok round_three_tickets(2,1,3) round_three_ahead] round_serve_run]]) auto

text \<open>
  C20: The tickets of the groups are distinct and below the next ticket to give out. A new policy has this property with the
  round-robin key, and every callback keeps it until the 64-bit counter reaches its last value, whatever it returns.
\<close>

theorem ordered_tickets_distinct:
  assumes "datastructures D G"
  shows "(ordered_init D opts e = Some (rc, Some s0, e0) \<longrightarrow> tickets_ok s0) \<and>
    (rounds_inv D G s \<and> tickets_ok s \<and> os_next_group_ticket s \<noteq> UINT64_MAX \<longrightarrow>
      succeeds (ordered_on_task_submit D (Some s) task e) (\<lambda>(rc, st, e'). \<exists>s'. st = Some s' \<and> tickets_ok s') \<and>
      succeeds (ordered_select_next D (Some s) a e) (\<lambda>(rc, a', st, e'). \<exists>s'. st = Some s' \<and> tickets_ok s') \<and>
      succeeds (ordered_on_task_finished D (Some s) tid ts e) (\<lambda>(rc, st, e'). \<exists>s'. st = Some s' \<and> tickets_ok s') \<and>
      succeeds (ordered_on_task_priority_changed D (Some s) tid v e) (\<lambda>(rc, st, e'). \<exists>s'. st = Some s' \<and> tickets_ok s'))"
  using init_tickets datastructures.tickets_kept [OF assms] by blast

theorem ordered_tickets_distinct_witness:
  "succeeds (ordered_select_next ref_ds (Some round_three) zero_assignment demo_env) (\<lambda>(rc, a', st, e'). \<exists>s'. st = Some s' \<and> tickets_ok s')"
proof -
  have "os_next_group_ticket round_three \<noteq> UINT64_MAX" by (simp add: round_three_def round_state_def UINT64_MAX_def)
  then show ?thesis
    using ordered_tickets_distinct [OF ref_structures, where s = round_three and a = zero_assignment] round_three_ok round_three_tickets
    by blast
qed

subsection \<open>In both modes\<close>

text \<open>
  C19: Whatever its keys and whichever allocations fail, the ordered policy never follows a dangling pointer, frees an object twice,
  or fails to return: every callback has a result and keeps the invariant, a finish report never fails, and finalisation
  returns. Initialisation establishes the invariant or fails and leaves nothing; with the round-robin key its error path
  destroys tables that were only zeroed, whose initialisation failed, or that the group map has destroyed already,
  so there the claim rests on a hypothesis on the library: that its destructor accepts such tables.
\<close>

theorem ordered_callbacks_return:
  assumes "datastructures D G"
  shows "((qhw_order_config_uses_round_robin (snd (qhw_order_config_parse_options qhw_order_config_init opts)) \<longrightarrow>
        tolerates_unready D) \<longrightarrow>
      succeeds (ordered_init D opts e) (\<lambda>(rc, st, e').
        if rc = QHW_SCHED_OK then \<exists>s. st = Some s \<and> ordered_inv D G s else st = None)) \<and>
    (ordered_inv D G s \<longrightarrow>
      succeeds (ordered_on_task_submit D (Some s) task e) (\<lambda>(rc, st, e'). \<exists>s'. st = Some s' \<and> ordered_inv D G s') \<and>
      succeeds (ordered_select_next D (Some s) a e) (\<lambda>(rc, a', st, e'). \<exists>s'. st = Some s' \<and> ordered_inv D G s') \<and>
      succeeds (ordered_on_task_finished D (Some s) tid ts e)
        (\<lambda>(rc, st, e'). \<exists>s'. st = Some s' \<and> ordered_inv D G s' \<and> rc = QHW_SCHED_OK) \<and>
      succeeds (ordered_on_task_priority_changed D (Some s) tid v e) (\<lambda>(rc, st, e'). \<exists>s'. st = Some s' \<and> ordered_inv D G s') \<and>
      ordered_fini D (Some s) e = Some e)"
  using datastructures.ordered_init_returns [OF assms] datastructures.ordered_calls_return [OF assms] by blast

theorem ordered_callbacks_return_witness:
  "succeeds (ordered_init ref_ds round_options (demo_env\<lparr>env_mem := [True, True, False]\<rparr>))
     (\<lambda>(rc, st, e'). if rc = QHW_SCHED_OK then \<exists>s. st = Some s \<and> ordered_inv ref_ds ref_ghost s else st = None) \<and>
   succeeds (ordered_select_next ref_ds (Some round_two) zero_assignment demo_env)
     (\<lambda>(rc, a, st, e'). \<exists>s'. st = Some s' \<and> ordered_inv ref_ds ref_ghost s')"
  using ordered_callbacks_return [OF ref_structures] datastructures.ordered_inv_rounds [OF ref_structures round_two_ok(1)]
    ref_tolerates by blast

end
