(* ===== verification/Spec2Isabelle.thy ===== *)
theory Spec2Isabelle
  imports Deadline_Boost Allocator Ref_Structures Order_Key Boosted_Queue Sched_Properties Call_Properties Queue_Properties
    Policy_Properties Ordered_Properties
begin

text \<open>
  A verification development of the task scheduler for one quantum processor (QPU) in \<^verbatim>\<open>src/\<close>: its core
  (\<^verbatim>\<open>src/src\<close>), the data structures its policies share (\<^verbatim>\<open>src/src/policy\<close>) and the four bundled
  policies (\<^verbatim>\<open>src/src/plugins\<close>).

  The program. A client creates a scheduler on a QPU, loads policy plugins, selects one, and submits tasks. The core keeps a
  table of all tasks; the active policy holds the queued ones and chooses which to run next. A task moves from queued to
  assigned, running and a terminal state as the client reports progress. A task that is too large can be split
  by a callback of the client into children; the parent waits and is finished by the outcomes of its children. One lock
  guards the scheduler; a submission releases it while it runs the callbacks, so that other threads can act in between.

  Conventions. An operation that follows pointers is a function into \<^verbatim>\<open>option\<close>, and \<^verbatim>\<open>None\<close> stands for undefined
  behaviour of the C code: a dangling pointer, a null function pointer, a lock taken twice or released when free, a loop
  that does not end. A lemma \<^verbatim>\<open>succeeds (f x) Q\<close> says that the call has a result, and that \<^verbatim>\<open>Q\<close> holds of it.
  Objects live in arenas, maps from pointers to records; a freed pointer is never reused. Machine integers are words of
  their C width. An allocation takes its outcome from a script, a list of Booleans, so a property that holds for all scripts holds
  whichever allocations fail. The monotonic clock is a script of readings that never runs backwards.

  Theories, from the base up:

  \<^item> \<^verbatim>\<open>Prelude\<close>: integer types and limits, \<^verbatim>\<open>succeeds\<close>, arenas. \<^verbatim>\<open>Sched_Types\<close>: the public types
    (\<^verbatim>\<open>qhw_scheduler_types.h\<close>). \<^verbatim>\<open>Runtime\<close>: allocator set-up, locks and the last error (\<^verbatim>\<open>qhw_allocator.c\<close>,
    \<^verbatim>\<open>qhw_thread.c\<close>, \<^verbatim>\<open>qhw_error.c\<close>). \<^verbatim>\<open>Allocator\<close>: the allocation wrappers of \<^verbatim>\<open>qhw_allocator.c\<close>, with the locale
    \<^verbatim>\<open>allocator_fns\<close>, the contract of an allocator.
  \<^item> \<^verbatim>\<open>Data_Structures\<close>: hash tables, intrusive lists and heaps come from a submodule that is not part of the
    repository. They are the parameter \<^verbatim>\<open>D\<close> of every definition, and the locale \<^verbatim>\<open>datastructures D G\<close> states their
    laws over the observations \<^verbatim>\<open>G\<close>. \<^verbatim>\<open>Ref_Structures\<close> interprets it by executable structures, which the witnesses
    use. \<^verbatim>\<open>Indexed_Heap\<close>: heaps that report positions to their items, once for all uses.
  \<^item> \<^verbatim>\<open>Split_Config\<close>: metadata lookup, cost estimates, split options and the decision how to split (\<^verbatim>\<open>qhw_split.c\<close>,
    \<^verbatim>\<open>qhw_policy_metadata.c\<close>, parts of \<^verbatim>\<open>qhw_scheduler.c\<close>). \<^verbatim>\<open>Qpu\<close>: the QPU object and its counters
    (\<^verbatim>\<open>qhw_qpu.c\<close>). \<^verbatim>\<open>Task_Table\<close>: the table of tasks by identifier and in order of arrival (\<^verbatim>\<open>qhw_task.c\<close>).
    \<^verbatim>\<open>Plugin\<close>: descriptors and the registry (\<^verbatim>\<open>qhw_plugin.c\<close>), with the locale \<^verbatim>\<open>policy_plugin\<close>, the contract
    between a policy and the core.
  \<^item> \<^verbatim>\<open>Scheduler\<close> and \<^verbatim>\<open>Sched_Api\<close>: the internal and the public operations of \<^verbatim>\<open>qhw_scheduler.c\<close>, each as one
    definition with the early returns and the lock operations of the code; the state of a scheduler, its QPU and its
    environment is the record \<^verbatim>\<open>sys\<close>. \<^verbatim>\<open>Sched_Inv\<close>, \<^verbatim>\<open>Sched_Core\<close>, \<^verbatim>\<open>Sched_Safe\<close>, \<^verbatim>\<open>Sched_Submit\<close> and
    \<^verbatim>\<open>Sched_Lifecycle\<close>: the invariant, and what every operation keeps and does, in the locale \<^verbatim>\<open>scheduler_core\<close> over any
    plugins that keep the contract. \<^verbatim>\<open>Sched_System\<close>: the calls as a step relation, with steps of other threads
    interleaved where the lock is released, and its reachable states.
  \<^item> \<^verbatim>\<open>Deadline_Boost\<close>: urgency, tiers and refresh times (\<^verbatim>\<open>qhw_deadline_boost.c\<close>). \<^verbatim>\<open>Order_Key\<close>: configurable
    order (\<^verbatim>\<open>qhw_order_key.c\<close>). \<^verbatim>\<open>Ready_Queue\<close>: a FIFO list or heap of ready tasks (\<^verbatim>\<open>qhw_ready_queue.c\<close>).
    \<^verbatim>\<open>Deadline_Refresh\<close>: the heap of refresh times (\<^verbatim>\<open>qhw_deadline_refresh.c\<close>). \<^verbatim>\<open>Boosted_Queue\<close>: ready queues
    that share their items with one refresh heap, and the case of a single ready queue. \<^verbatim>\<open>Group_Map\<close>: groups of tasks by key (\<^verbatim>\<open>qhw_group_map.c\<close>).
  \<^item> \<^verbatim>\<open>Policy_Fifo\<close>, \<^verbatim>\<open>Policy_Priority\<close>, \<^verbatim>\<open>Policy_Round_Robin\<close> and \<^verbatim>\<open>Policy_Ordered\<close>: the plugins
    (\<^verbatim>\<open>fifo.c\<close>, \<^verbatim>\<open>priority.c\<close>, \<^verbatim>\<open>round_robin.c\<close>, \<^verbatim>\<open>ordered.c\<close>), every callback and the descriptor.
    \<^verbatim>\<open>Boost_Loop\<close> proves the loop that refreshes due boosts, as the locale \<^verbatim>\<open>boost_loop\<close>, and \<^verbatim>\<open>Boosted_Policy\<close>
    holds what else the priority and the ordered policy share, as the locales \<^verbatim>\<open>boosted_policy\<close> and
    \<^verbatim>\<open>boosted_callbacks\<close>; \<^verbatim>\<open>Policy_Priority\<close> and \<^verbatim>\<open>Ordered_Flat\<close> interpret them.
  \<^item> The ordered policy without the round-robin key is one ready queue (\<^verbatim>\<open>Ordered_Flat\<close>). With the key it keeps a ready
    queue per group, an index from tasks to groups and a heap of groups, over one refresh queue. \<^verbatim>\<open>Group_Heap\<close>: the heap
    of groups, in which a group may be out of place until \<^verbatim>\<open>ordered_group_reheapify\<close> is called. \<^verbatim>\<open>Ordered_Rounds\<close>: the
    invariant of the parts together, and the helper functions over groups. \<^verbatim>\<open>Rounds_Refresh\<close>: recomputing boosts, which
    interprets \<^verbatim>\<open>boost_loop\<close> again. \<^verbatim>\<open>Rounds_Ops\<close>, \<^verbatim>\<open>Rounds_Submit\<close>, \<^verbatim>\<open>Rounds_Select\<close>: removal, submission and selection
    with all their error paths. \<^verbatim>\<open>Rounds_Policy\<close> and \<^verbatim>\<open>Rounds_Callbacks\<close>: the state as a map of tasks and the contracts
    of the callbacks. \<^verbatim>\<open>Rounds_Setup\<close>: initialisation and finalisation, and the invariant of both modes.
    \<^verbatim>\<open>Rounds_Tickets\<close> follows the tickets of the groups through every operation, \<^verbatim>\<open>Rounds_Fair\<close> shows that no group
    starves, and \<^verbatim>\<open>Rounds_Lost\<close> that a group which fell out of the heap is never served again.
  \<^item> \<^verbatim>\<open>Sched_Demo\<close>, \<^verbatim>\<open>Policy_Demo\<close> and \<^verbatim>\<open>Ordered_Demo\<close>: concrete runs, the inputs of the witnesses.
    \<^verbatim>\<open>Sched_Properties\<close>, \<^verbatim>\<open>Call_Properties\<close>, \<^verbatim>\<open>Queue_Properties\<close>, \<^verbatim>\<open>Policy_Properties\<close> and
    \<^verbatim>\<open>Ordered_Properties\<close>: the properties, also in \<^verbatim>\<open>Deadline_Boost\<close> and \<^verbatim>\<open>Split_Config\<close>.

  What is shown.

  \<^item> The core: every reachable state keeps the invariant (table, counters, waiting parents, the ready set of the policy,
    registry, lock); every call returns, without undefined behaviour; task states follow the state machine; at most one task runs; each
    call has exactly its effect, on success and on every error.
  \<^item> The split decision and the boost arithmetic are sound at the bounds of 64 bits, and the portable division equals the
    128-bit one. A boost stays right until the refresh time it reports, which lies in the future.
  \<^item> The task table refines a map with an order, the FIFO policy a list, the priority policy and the ordered policy in both
    modes a map of tasks, the round-robin policy a queue of turns, which serves every group once per round. Selecting
    with boosts that are refreshed only when due gives a task that is first among all when every boost is computed anew, in
    the ordered policy also across its groups, whose tickets the round-robin key compares.
  \<^item> With the round-robin key first in its order, the ordered policy serves a waiting group after at most as many selections as
    there are groups with earlier tickets, until the 64-bit counter of tickets is used up.
  \<^item> The ordered policy returns from every call without undefined behaviour, whatever its keys and whichever allocations
    fail. Its initialisation with the round-robin key has an error path that destroys tables which were only zeroed, whose
    initialisation failed, or which the group map destroyed before. Whether the library accepts that is not known here;
    the hypothesis \<^verbatim>\<open>tolerates_unready\<close> says so, and \<^verbatim>\<open>init_destroys_twice\<close> shows what happens otherwise.
  \<^item> The FIFO, priority and round-robin plugins keep the contract of \<^verbatim>\<open>policy_plugin\<close>, so the properties of the core hold
    with each. The ordered plugin does not: with the round-robin key a selection may lose a task when memory runs
    out, at most one per call, and by \<^verbatim>\<open>ordered_select_loses_task\<close> the rest of its group is then never selected again.

  Loops. Loops over lists are structural recursion. The loops that drain heaps, walk the table or refresh boosts are
  \<^verbatim>\<open>partial_function (option)\<close>, and each is shown to return. No definition takes fuel.

  Not modelled: the bytes of objects (outside \<^verbatim>\<open>Allocator\<close> an allocation is an outcome), the destructors of heap
  arrays, whose only effect is to free memory of the submodule, the dynamic loader (a parameter that answers for a path),
  \<^verbatim>\<open>qhw_stats.c\<close> (empty), and the Python and SWIG bindings. A null check of an argument that the model passes by
  value has no counterpart.
\<close>

end
